(* ===== verification/Prelude.thy ===== *)
theory Prelude
  imports Main "HOL-Library.Word" "HOL-Library.List_Lexorder" "HOL-Library.Char_ord"
    "HOL-Library.Sublist"
begin

text \<open>
  What the components share: the Rust standard library operations the sources call on strings,
  options and ordered collections, and the collections of simplification rules the component
  proofs use.

  A Rust \<open>str\<close> is its UTF-8 byte sequence, a \<^typ>\<open>string\<close>: offsets are byte offsets, as in the
  sources. A \<open>BTreeMap\<close> is the list of its entries in ascending key order, a \<open>BTreeSet\<close> the list of
  its elements in ascending order; \<open>String\<close> keys compare bytewise (\<open>List_Lexorder\<close>).
\<close>

named_theorems str_simps \<open>evaluation of the string operations\<close>
named_theorems bm_simps \<open>lookups in updated ordered maps\<close>
named_theorems bs_simps \<open>membership in updated ordered sets\<close>

type_synonym bytes = string
type_synonym u16 = "16 word"

section \<open>Strings\<close>

text \<open>\<open>str::find\<close> and \<open>str::rfind\<close> for a one-byte pattern.\<close>

fun str_find :: "char \<Rightarrow> string \<Rightarrow> nat option" where
  "str_find c [] = None"
| "str_find c (x # xs) = (if x = c then Some 0 else map_option Suc (str_find c xs))"

fun str_rfind :: "char \<Rightarrow> string \<Rightarrow> nat option" where
  "str_rfind c [] = None"
| "str_rfind c (x # xs) =
     (case str_rfind c xs of
        Some i \<Rightarrow> Some (Suc i)
      | None \<Rightarrow> if x = c then Some 0 else None)"

text \<open>
  A slice \<open>&s[a..b]\<close> panics unless \<open>slice_ok s a b\<close>; where it does not, its value is \<open>str_slice s a b\<close>.
\<close>

definition str_slice :: "string \<Rightarrow> nat \<Rightarrow> nat \<Rightarrow> string" where
  "str_slice s a b = take (b - a) (drop a s)"

definition slice_ok :: "string \<Rightarrow> nat \<Rightarrow> nat \<Rightarrow> bool" where
  "slice_ok s a b \<longleftrightarrow> a \<le> b \<and> b \<le> length s"

text \<open>\<open>str::split\<close> on a one-byte pattern: never empty, one more piece than separators.\<close>

fun str_split :: "char \<Rightarrow> string \<Rightarrow> string list" where
  "str_split c [] = [[]]"
| "str_split c (x # xs) =
     (if x = c then [] # str_split c xs
      else case str_split c xs of
             [] \<Rightarrow> [[x]]
           | p # ps \<Rightarrow> (x # p) # ps)"

fun str_join :: "string \<Rightarrow> string list \<Rightarrow> string" where
  "str_join sep [] = []"
| "str_join sep [p] = p"
| "str_join sep (p # ps) = p @ sep @ str_join sep ps"

definition trim_start_matches :: "char \<Rightarrow> string \<Rightarrow> string" where
  "trim_start_matches c s = dropWhile (\<lambda>x. x = c) s"

definition trim_matches :: "char \<Rightarrow> string \<Rightarrow> string" where
  "trim_matches c s = rev (dropWhile (\<lambda>x. x = c) (rev (dropWhile (\<lambda>x. x = c) s)))"

definition starts_with :: "string \<Rightarrow> string \<Rightarrow> bool" where
  "starts_with s p \<longleftrightarrow> take (length p) s = p"

definition strip_prefix_str :: "string \<Rightarrow> string \<Rightarrow> string option" where
  "strip_prefix_str p s = (if starts_with s p then Some (drop (length p) s) else None)"

text \<open>\<open>str::replace\<close> of a non-empty pattern, left to right without overlaps.\<close>

function str_replace :: "string \<Rightarrow> string \<Rightarrow> string \<Rightarrow> string" where
  "str_replace p q [] = []"
| "str_replace p q (x # xs) =
     (if p \<noteq> [] \<and> starts_with (x # xs) p
      then q @ str_replace p q (drop (length p) (x # xs))
      else x # str_replace p q xs)"
  by pat_completeness auto
termination by (relation "measure (\<lambda>(p, q, s). length s)") auto

definition is_ascii :: "char \<Rightarrow> bool" where
  "is_ascii c \<longleftrightarrow> of_char c < (128 :: nat)"

definition between_char :: "char \<Rightarrow> char \<Rightarrow> char \<Rightarrow> bool" where
  "between_char lo hi c \<longleftrightarrow> of_char lo \<le> (of_char c :: nat) \<and> of_char c \<le> (of_char hi :: nat)"

definition is_ascii_upper :: "char \<Rightarrow> bool" where
  "is_ascii_upper c \<longleftrightarrow> between_char CHR ''A'' CHR ''Z'' c"

definition is_ascii_lower :: "char \<Rightarrow> bool" where
  "is_ascii_lower c \<longleftrightarrow> between_char CHR ''a'' CHR ''z'' c"

definition is_ascii_digit :: "char \<Rightarrow> bool" where
  "is_ascii_digit c \<longleftrightarrow> between_char CHR ''0'' CHR ''9'' c"

definition is_ascii_alphabetic :: "char \<Rightarrow> bool" where
  "is_ascii_alphabetic c \<longleftrightarrow> is_ascii_upper c \<or> is_ascii_lower c"

definition to_ascii_lower :: "char \<Rightarrow> char" where
  "to_ascii_lower c = (if is_ascii_upper c then char_of (of_char c + 32 :: nat) else c)"

text \<open>\<open>char::is_ascii_whitespace\<close>: space, tab, line feed, form feed, carriage return.\<close>

definition is_ascii_whitespace :: "char \<Rightarrow> bool" where
  "is_ascii_whitespace c \<longleftrightarrow> (of_char c :: nat) \<in> {32, 9, 10, 12, 13}"

text \<open>Decimal display of an unsigned integer.\<close>

fun show_nat :: "nat \<Rightarrow> string" where
  "show_nat n =
     (if n < 10 then [char_of (48 + n)] else show_nat (n div 10) @ [char_of (48 + n mod 10)])"

declare show_nat.simps [simp del]

section \<open>Options\<close>

text \<open>\<open>Option::or\<close>.\<close>

definition or_else :: "'a option \<Rightarrow> 'a option \<Rightarrow> 'a option" where
  "or_else a b = (case a of Some x \<Rightarrow> Some x | None \<Rightarrow> b)"

definition unwrap_or :: "'a option \<Rightarrow> 'a \<Rightarrow> 'a" where
  "unwrap_or a d = (case a of Some x \<Rightarrow> x | None \<Rightarrow> d)"

lemma or_else_simps [simp]:
  "or_else (Some x) b = Some x" "or_else None b = b"
  by (simp_all add: or_else_def)

lemma unwrap_or_simps [simp]:
  "unwrap_or (Some x) d = x" "unwrap_or None d = d"
  by (simp_all add: unwrap_or_def)

lemma or_else_eq_None [simp]: "or_else a b = None \<longleftrightarrow> a = None \<and> b = None"
  by (cases a) auto

lemma or_else_SomeD: "or_else a b = Some x \<Longrightarrow> a = Some x \<or> b = Some x"
  by (cases a) auto

section \<open>Lemmas on the string operations\<close>

lemma str_find_Some:
  "str_find c s = Some i \<Longrightarrow> i < length s \<and> s ! i = c \<and> c \<notin> set (take i s)"
  by (induction s arbitrary: i) (auto split: if_splits)

lemma str_find_None: "str_find c s = None \<longleftrightarrow> c \<notin> set s"
  by (induction s) auto

lemma str_find_less: "str_find c s = Some i \<Longrightarrow> i < length s"
  by (simp add: str_find_Some)

lemma str_find_append:
  "str_find c (xs @ ys) =
     (case str_find c xs of Some i \<Rightarrow> Some i
      | None \<Rightarrow> map_option (\<lambda>i. length xs + i) (str_find c ys))"
proof (induction xs)
  case Nil
  show ?case by (cases "str_find c ys") auto
next
  case (Cons x xs)
  then show ?case by (cases "str_find c ys") (auto split: option.splits)
qed

lemma str_rfind_None: "str_rfind c s = None \<longleftrightarrow> c \<notin> set s"
  by (induction s) (auto split: option.splits)

lemma str_rfind_Some:
  "str_rfind c s = Some i \<Longrightarrow> i < length s \<and> s ! i = c \<and> c \<notin> set (drop (Suc i) s)"
proof (induction s arbitrary: i)
  case (Cons x xs)
  then show ?case
    by (auto split: option.splits if_splits simp: str_rfind_None)
qed simp

lemma str_rfind_less: "str_rfind c s = Some i \<Longrightarrow> i < length s"
  by (simp add: str_rfind_Some)

lemma length_slice [simp]: "slice_ok s a b \<Longrightarrow> length (str_slice s a b) = b - a"
  by (auto simp: str_slice_def slice_ok_def)

lemma slice_all [simp]: "str_slice s 0 (length s) = s"
  by (simp add: str_slice_def)

lemma slice_append: "a \<le> b \<Longrightarrow> b \<le> c \<Longrightarrow> str_slice s a b @ str_slice s b c = str_slice s a c"
proof -
  assume le: "a \<le> b" "b \<le> c"
  then have "str_slice s a c = take ((b - a) + (c - b)) (drop a s)"
    by (simp add: str_slice_def)
  also have "\<dots> = take (b - a) (drop a s) @ take (c - b) (drop (b - a) (drop a s))"
    by (rule take_add)
  also have "\<dots> = str_slice s a b @ str_slice s b c"
    using le by (simp add: str_slice_def)
  finally show ?thesis ..
qed

lemma str_split_neq_Nil [simp]: "str_split c s \<noteq> []"
  by (cases s) (auto split: list.splits)

lemma str_split_parts: "p \<in> set (str_split c s) \<Longrightarrow> c \<notin> set p"
  by (induction s arbitrary: p) (auto split: list.splits if_splits)

lemma str_join_Cons: "ps \<noteq> [] \<Longrightarrow> str_join sep (p # ps) = p @ sep @ str_join sep ps"
  by (cases ps) auto

lemma str_join_split: "str_join [c] (str_split c s) = s"
proof (induction s)
  case (Cons x xs)
  show ?case
  proof (cases "str_split c xs")
    case (Cons p ps)
    with Cons.IH show ?thesis
      by (cases ps) (auto simp: str_join_Cons)
  qed simp
qed simp

lemma str_split_no_sep: "c \<notin> set s \<Longrightarrow> str_split c s = [s]"
  by (induction s) auto

lemma str_split_append_sep: "c \<notin> set p \<Longrightarrow> str_split c (p @ c # s) = p # str_split c s"
  by (induction p) auto

lemma str_split_join:
  assumes "ps \<noteq> []" "\<forall>p\<in>set ps. c \<notin> set p"
  shows "str_split c (str_join [c] ps) = ps"
  using assms
proof (induction ps)
  case (Cons p ps)
  then show ?case
    by (cases ps) (auto simp: str_split_no_sep str_join_Cons str_split_append_sep)
qed simp

lemma starts_with_append [simp]: "starts_with (p @ s) p"
  by (simp add: starts_with_def)

lemma starts_with_prefix: "starts_with s p \<longleftrightarrow> prefix p s"
  by (metis append_eq_conv_conj prefix_def starts_with_def)

lemma strip_prefix_append [simp]: "strip_prefix_str p (p @ s) = Some s"
  by (simp add: strip_prefix_str_def)

section \<open>Ordered maps\<close>

type_synonym ('k, 'v) bmap = "('k \<times> 'v) list"

definition bm_get :: "('k, 'v) bmap \<Rightarrow> 'k \<Rightarrow> 'v option" where
  "bm_get m k = map_of m k"

fun bm_insert :: "'k::linorder \<Rightarrow> 'v \<Rightarrow> ('k, 'v) bmap \<Rightarrow> ('k, 'v) bmap" where
  "bm_insert k v [] = [(k, v)]"
| "bm_insert k v ((k', v') # m) =
     (if k < k' then (k, v) # (k', v') # m
      else if k = k' then (k, v) # m
      else (k', v') # bm_insert k v m)"

definition bm_remove :: "'k \<Rightarrow> ('k, 'v) bmap \<Rightarrow> ('k, 'v) bmap" where
  "bm_remove k m = filter (\<lambda>e. fst e \<noteq> k) m"

definition bm_contains :: "('k, 'v) bmap \<Rightarrow> 'k \<Rightarrow> bool" where
  "bm_contains m k \<longleftrightarrow> bm_get m k \<noteq> None"

definition bm_keys :: "('k, 'v) bmap \<Rightarrow> 'k list" where
  "bm_keys m = map fst m"

definition bm_values :: "('k, 'v) bmap \<Rightarrow> 'v list" where
  "bm_values m = map snd m"

text \<open>\<open>BTreeMap::from_iter\<close>: of two entries with one key the later wins.\<close>

definition bm_from_list :: "('k::linorder \<times> 'v) list \<Rightarrow> ('k, 'v) bmap" where
  "bm_from_list es = fold (\<lambda>(k, v) m. bm_insert k v m) es []"

text \<open>The shape every \<open>BTreeMap\<close> has: strictly ascending keys.\<close>

definition bm_ok :: "('k::linorder, 'v) bmap \<Rightarrow> bool" where
  "bm_ok m \<longleftrightarrow> sorted_wrt (<) (map fst m)"

lemma bm_get_Nil [simp, bm_simps]: "bm_get [] k = None"
  by (simp add: bm_get_def)

lemma bm_get_Cons [bm_simps]: "bm_get ((k', v) # m) k = (if k' = k then Some v else bm_get m k)"
  by (simp add: bm_get_def)

lemma bm_get_insert [simp, bm_simps]:
  "bm_get (bm_insert k v m) k' = (if k' = k then Some v else bm_get m k')"
  by (induction k v m rule: bm_insert.induct) (auto simp: bm_get_def)

lemma bm_get_remove [simp, bm_simps]:
  "bm_get (bm_remove k m) k' = (if k' = k then None else bm_get m k')"
  by (induction m) (auto simp: bm_get_def bm_remove_def)

lemma keys_bm_insert: "fst ` set (bm_insert k v m) = insert k (fst ` set m)"
  by (induction k v m rule: bm_insert.induct) auto

lemma keys_bm_remove: "fst ` set (bm_remove k m) = fst ` set m - {k}"
  by (auto simp: bm_remove_def)

lemma bm_contains_iff: "bm_contains m k \<longleftrightarrow> k \<in> fst ` set m"
  by (simp add: bm_contains_def bm_get_def map_of_eq_None_iff)

lemma bm_ok_Nil [simp]: "bm_ok []"
  by (simp add: bm_ok_def)

lemma bm_ok_Cons: "bm_ok ((k, v) # m) \<longleftrightarrow> (\<forall>e\<in>set m. k < fst e) \<and> bm_ok m"
  by (auto simp: bm_ok_def)

lemma bm_ok_insert [simp, intro]: "bm_ok m \<Longrightarrow> bm_ok (bm_insert k v m)"
proof (induction k v m rule: bm_insert.induct)
  case (2 k v k' v' m)
  then have ok: "bm_ok m" and above: "\<forall>x\<in>fst ` set m. k' < x"
    by (auto simp: bm_ok_Cons)
  consider "k < k'" | "k = k'" | "k' < k" by fastforce
  then show ?case
  proof cases
    case 1
    with 2(2) above show ?thesis by (auto simp: bm_ok_Cons)
  next
    case 2
    with ok above show ?thesis by (auto simp: bm_ok_Cons)
  next
    case 3
    then have "\<forall>x\<in>fst ` set (bm_insert k v m). k' < x"
      using above by (simp add: keys_bm_insert)
    moreover have "bm_ok (bm_insert k v m)"
      using "2.IH" 3 ok by auto
    ultimately show ?thesis using 3 by (auto simp: bm_ok_Cons)
  qed
qed (simp add: bm_ok_Cons)

lemma bm_ok_filter [simp, intro]: "bm_ok m \<Longrightarrow> bm_ok (filter P m)"
  by (induction m) (auto simp: bm_ok_Cons)

lemma bm_ok_remove [simp, intro]: "bm_ok m \<Longrightarrow> bm_ok (bm_remove k m)"
  by (simp add: bm_remove_def)

lemma bm_ok_distinct: "bm_ok m \<Longrightarrow> distinct (map fst m)"
  by (simp add: bm_ok_def strict_sorted_iff)

lemma bm_get_in: "bm_get m k = Some v \<Longrightarrow> (k, v) \<in> set m"
  by (simp add: bm_get_def map_of_SomeD)

lemma bm_ok_get_iff: "bm_ok m \<Longrightarrow> bm_get m k = Some v \<longleftrightarrow> (k, v) \<in> set m"
  by (simp add: bm_get_def bm_ok_distinct)

lemma bm_ok_fold_insert: "bm_ok m \<Longrightarrow> bm_ok (fold (\<lambda>(k, v) m. bm_insert k v m) es m)"
  by (induction es arbitrary: m) auto

lemma bm_ok_from_list [simp]: "bm_ok (bm_from_list es)"
  by (simp add: bm_from_list_def bm_ok_fold_insert)

lemma bm_get_fold_insert:
  "bm_get (fold (\<lambda>(k, v) m. bm_insert k v m) es m) k =
     (case map_of (rev es) k of Some v \<Rightarrow> Some v | None \<Rightarrow> bm_get m k)"
  by (induction es arbitrary: m) (auto simp: map_add_def split: option.splits)

lemma bm_get_from_list [bm_simps]: "bm_get (bm_from_list es) k = map_of (rev es) k"
  by (simp add: bm_from_list_def bm_get_fold_insert split: option.splits)

text \<open>Two ordered maps with the same lookups are the same map.\<close>

lemma bm_ext:
  assumes "bm_ok m" "bm_ok m'" "\<And>k. bm_get m k = bm_get m' k"
  shows "m = m'"
proof -
  have "set m = set m'"
    using assms by (auto simp: bm_ok_get_iff [symmetric])
  moreover have "distinct (map fst m)" "distinct (map fst m')" "sorted (map fst m)"
    "sorted (map fst m')"
    using assms(1,2) by (simp_all add: bm_ok_def strict_sorted_iff)
  ultimately have "map fst m = map fst m'"
    by (metis set_map sorted_distinct_set_unique)
  moreover have "map snd m = map snd m'"
  proof (rule nth_equalityI)
    show len: "length (map snd m) = length (map snd m')"
      using calculation by (metis length_map)
    fix i assume i: "i < length (map snd m)"
    have "(fst (m ! i), snd (m ! i)) \<in> set m" "(fst (m' ! i), snd (m' ! i)) \<in> set m'"
      using i len by simp_all
    moreover have "fst (m ! i) = fst (m' ! i)"
      using \<open>map fst m = map fst m'\<close> i len by (metis length_map nth_map)
    ultimately show "map snd m ! i = map snd m' ! i"
      using \<open>set m = set m'\<close> \<open>distinct (map fst m)\<close> i len by (metis eq_key_imp_eq_value length_map nth_map)
  qed
  ultimately show ?thesis by (metis zip_map_fst_snd)
qed

section \<open>The lookup-table interface\<close>

text \<open>
  What the components rely on in a \<open>BTreeMap\<close>: what a lookup returns after an insert and after a
  removal, and that a table is determined by its lookups. The client lemmas are proved from these
  laws only.
\<close>

locale lookup_table =
  fixes get :: "'t \<Rightarrow> 'k \<Rightarrow> 'v option"
    and ins :: "'k \<Rightarrow> 'v \<Rightarrow> 't \<Rightarrow> 't"
    and del :: "'k \<Rightarrow> 't \<Rightarrow> 't"
    and ok :: "'t \<Rightarrow> bool"
  assumes get_ins: "get (ins k v t) k' = (if k' = k then Some v else get t k')"
    and get_del: "get (del k t) k' = (if k' = k then None else get t k')"
    and ok_ins: "ok t \<Longrightarrow> ok (ins k v t)"
    and ok_del: "ok t \<Longrightarrow> ok (del k t)"
    and table_ext: "ok t \<Longrightarrow> ok t' \<Longrightarrow> (\<And>k. get t k = get t' k) \<Longrightarrow> t = t'"
begin

lemma ins_same: "ok t \<Longrightarrow> get t k = Some v \<Longrightarrow> ins k v t = t"
  by (rule table_ext) (auto simp: get_ins ok_ins)

lemma ins_ins: "ok t \<Longrightarrow> ins k v (ins k w t) = ins k v t"
  by (rule table_ext) (auto simp: get_ins ok_ins)

lemma ins_commute: "ok t \<Longrightarrow> k \<noteq> k' \<Longrightarrow> ins k v (ins k' w t) = ins k' w (ins k v t)"
  by (rule table_ext) (auto simp: get_ins ok_ins)

lemma del_ins: "ok t \<Longrightarrow> get t k = None \<Longrightarrow> del k (ins k v t) = t"
  by (rule table_ext) (auto simp: get_ins get_del ok_ins ok_del)

lemma del_absent: "ok t \<Longrightarrow> get t k = None \<Longrightarrow> del k t = t"
  by (rule table_ext) (auto simp: get_del ok_del)

end

interpretation bm: lookup_table bm_get bm_insert bm_remove bm_ok
  by unfold_locales (auto intro: bm_ext)

section \<open>Ordered sets\<close>

fun bs_insert :: "'a::linorder \<Rightarrow> 'a list \<Rightarrow> 'a list" where
  "bs_insert x [] = [x]"
| "bs_insert x (y # ys) =
     (if x < y then x # y # ys else if x = y then y # ys else y # bs_insert x ys)"

definition bs_from_list :: "'a::linorder list \<Rightarrow> 'a list" where
  "bs_from_list xs = fold bs_insert xs []"

definition bs_ok :: "'a::linorder list \<Rightarrow> bool" where
  "bs_ok xs \<longleftrightarrow> sorted_wrt (<) xs"

lemma set_bs_insert [simp, bs_simps]: "set (bs_insert x xs) = insert x (set xs)"
  by (induction xs) auto

lemma bs_ok_insert [simp, intro]: "bs_ok xs \<Longrightarrow> bs_ok (bs_insert x xs)"
  by (induction xs) (auto simp: bs_ok_def)

lemma set_fold_bs_insert: "set (fold bs_insert xs ys) = set xs \<union> set ys"
  by (induction xs arbitrary: ys) auto

lemma set_bs_from_list [simp, bs_simps]: "set (bs_from_list xs) = set xs"
  by (simp add: bs_from_list_def set_fold_bs_insert)

lemma bs_ok_fold_insert: "bs_ok ys \<Longrightarrow> bs_ok (fold bs_insert xs ys)"
  by (induction xs arbitrary: ys) auto

lemma bs_ok_from_list [simp]: "bs_ok (bs_from_list xs)"
proof -
  have "bs_ok ([] :: 'a list)" by (simp add: bs_ok_def)
  then show ?thesis unfolding bs_from_list_def by (rule bs_ok_fold_insert)
qed

end
