(* ===== verification/AnchorPaths.thy ===== *)
theory AnchorPaths
  imports Prelude
begin

text \<open>
  The parsed path (\<open>paths/path.rs\<close>): \<open>AnchorPath\<close> and its owned twin \<open>AnchorPathBuf\<close> hold a string
  and the offsets of its separators. \<open>ap_new\<close>, \<open>ap_new_dir\<close> and \<open>ap_new_file\<close> are the constructors;
  every accessor is a slice of the string, written as the range it slices and the slice itself,
  so that the absence of a slicing panic is the statement that every range lies in the string.
\<close>

section \<open>The record and its constructors\<close>

record anchor_path =
  ap_path :: string
  sch_sep :: "nat option"
  host_sep :: "nat option"
  param_sep :: "nat option"
  dir_sep :: "nat option"
  ext_sep :: "nat option"
  anc_sep :: "nat option"

text \<open>\<open>[a, b, c].iter().filter_map(|&x| x).min()\<close>.\<close>

fun min_some :: "nat option list \<Rightarrow> nat option" where
  "min_some [] = None"
| "min_some (None # xs) = min_some xs"
| "min_some (Some n # xs) =
     (case min_some xs of None \<Rightarrow> Some n | Some m \<Rightarrow> Some (min n m))"

definition find_param :: "string \<Rightarrow> nat option \<Rightarrow> nat option" where
  "find_param path anc = str_rfind CHR ''?'' (str_slice path 0 (unwrap_or anc (length path)))"

definition find_schema :: "string \<Rightarrow> nat option \<Rightarrow> nat option \<Rightarrow> nat option" where
  "find_schema path param anc =
     (case str_find CHR '':'' path of
        None \<Rightarrow> None
      | Some colon_idx \<Rightarrow>
          (let first_separator = min_some [str_find CHR ''/'' path, param, anc];
               is_drive_letter = (colon_idx = 1 \<and> is_ascii_alphabetic (path ! 0))
           in if is_drive_letter then None
              else case first_separator of
                     None \<Rightarrow> Some colon_idx
                   | Some i \<Rightarrow> if colon_idx < i then Some colon_idx else None))"

definition find_host :: "string \<Rightarrow> nat option \<Rightarrow> nat \<Rightarrow> nat option" where
  "find_host path sch path_end =
     (case sch of
        None \<Rightarrow> None
      | Some sch_idx \<Rightarrow>
          (let after_schema = sch_idx + 1; host_start = after_schema + 2
           in if sch_idx \<noteq> 1 \<and> after_schema + 1 < length path
                 \<and> path ! after_schema = CHR ''/'' \<and> path ! (after_schema + 1) = CHR ''/''
              then Some (case str_find CHR ''/'' (str_slice path host_start path_end) of
                           Some slash_idx \<Rightarrow> host_start + slash_idx
                         | None \<Rightarrow> path_end)
              else None))"

text \<open>The start of the path proper: after the host, else after the schema, else 0.\<close>

definition start_of :: "nat option \<Rightarrow> nat option \<Rightarrow> nat" where
  "start_of host sch = unwrap_or (or_else host (map_option Suc sch)) 0"

definition find_dir :: "string \<Rightarrow> nat \<Rightarrow> nat \<Rightarrow> nat option" where
  "find_dir path path_start path_end =
     map_option (\<lambda>i. i + path_start) (str_rfind CHR ''/'' (str_slice path path_start path_end))"

definition find_ext :: "string \<Rightarrow> nat \<Rightarrow> nat \<Rightarrow> nat option" where
  "find_ext path name_start path_end =
     (case str_rfind CHR ''.'' (str_slice path name_start path_end) of
        None \<Rightarrow> None
      | Some dot_idx \<Rightarrow> if dot_idx = 0 then None else Some (dot_idx + name_start))"

definition ap_new :: "string \<Rightarrow> anchor_path" where
  "ap_new path =
     (let anc = str_find CHR ''#'' path;
          param = find_param path anc;
          sch = find_schema path param anc;
          path_end = unwrap_or (or_else param anc) (length path);
          host = find_host path sch path_end;
          path_start = start_of host sch;
          dir0 = find_dir path path_start path_end;
          name_start = unwrap_or (map_option Suc dir0) path_start;
          ext = find_ext path name_start path_end;
          dir1 = (if ext = None \<and> dir0 \<noteq> None \<and> str_slice path name_start path_end \<noteq> []
                  then or_else param anc else dir0)
      in \<lparr>ap_path = path, sch_sep = sch, host_sep = host, param_sep = param, dir_sep = dir1,
          ext_sep = ext, anc_sep = anc\<rparr>)"

definition path_start :: "anchor_path \<Rightarrow> nat" where
  "path_start ap = start_of (host_sep ap) (sch_sep ap)"

definition path_end :: "anchor_path \<Rightarrow> nat" where
  "path_end ap = unwrap_or (or_else (param_sep ap) (anc_sep ap)) (length (ap_path ap))"

definition ends_in_name :: "anchor_path \<Rightarrow> bool" where
  "ends_in_name ap \<longleftrightarrow> path_end ap > 0 \<and> ap_path ap ! (path_end ap - 1) \<noteq> CHR ''/''"

definition ap_new_dir :: "string \<Rightarrow> anchor_path" where
  "ap_new_dir path =
     (let ap = ap_new path
      in if ext_sep ap \<noteq> None \<and> ends_in_name ap
         then ap\<lparr>ext_sep := None, dir_sep := or_else (param_sep ap) (anc_sep ap)\<rparr>
         else ap)"

definition ap_new_file :: "string \<Rightarrow> anchor_path" where
  "ap_new_file path =
     (let ap = ap_new path
      in if ext_sep ap = None \<and> ends_in_name ap
         then ap\<lparr>ext_sep := Some (path_end ap),
                 dir_sep := find_dir path (path_start ap) (path_end ap)\<rparr>
         else ap)"

section \<open>Accessors\<close>

definition sub :: "string \<Rightarrow> nat \<times> nat \<Rightarrow> string" where
  "sub s r = str_slice s (fst r) (snd r)"

definition range_ok :: "string \<Rightarrow> nat \<times> nat \<Rightarrow> bool" where
  "range_ok s r = slice_ok s (fst r) (snd r)"

definition is_anchor :: "anchor_path \<Rightarrow> bool" where
  "is_anchor ap \<longleftrightarrow> anc_sep ap = Some 0"

definition is_dir :: "anchor_path \<Rightarrow> bool" where
  "is_dir ap \<longleftrightarrow> ext_sep ap = None"

definition has_schema :: "anchor_path \<Rightarrow> bool" where
  "has_schema ap \<longleftrightarrow> sch_sep ap \<noteq> None"

definition has_hostname :: "anchor_path \<Rightarrow> bool" where
  "has_hostname ap \<longleftrightarrow> host_sep ap \<noteq> None"

definition has_parameters :: "anchor_path \<Rightarrow> bool" where
  "has_parameters ap \<longleftrightarrow> param_sep ap \<noteq> None"

definition schema_range :: "anchor_path \<Rightarrow> nat \<times> nat" where
  "schema_range ap = (case sch_sep ap of Some idx \<Rightarrow> (0, idx) | None \<Rightarrow> (0, 0))"

definition schema :: "anchor_path \<Rightarrow> string" where
  "schema ap = sub (ap_path ap) (schema_range ap)"

definition after_schema_range :: "anchor_path \<Rightarrow> nat \<times> nat" where
  "after_schema_range ap =
     (case sch_sep ap of Some idx \<Rightarrow> (idx + 1, length (ap_path ap))
      | None \<Rightarrow> (0, length (ap_path ap)))"

definition path_after_schema :: "anchor_path \<Rightarrow> string" where
  "path_after_schema ap =
     (case sch_sep ap of
        Some idx \<Rightarrow> trim_start_matches CHR ''/'' (sub (ap_path ap) (after_schema_range ap))
      | None \<Rightarrow> ap_path ap)"

definition resource_range :: "anchor_path \<Rightarrow> nat \<times> nat" where
  "resource_range ap = (path_start ap, length (ap_path ap))"

definition resource :: "anchor_path \<Rightarrow> string" where
  "resource ap = sub (ap_path ap) (resource_range ap)"

definition parameters_range :: "anchor_path \<Rightarrow> nat \<times> nat" where
  "parameters_range ap =
     (case param_sep ap of
        Some start_idx \<Rightarrow> (start_idx + 1, unwrap_or (anc_sep ap) (length (ap_path ap)))
      | None \<Rightarrow> (0, 0))"

definition parameters :: "anchor_path \<Rightarrow> string" where
  "parameters ap = sub (ap_path ap) (parameters_range ap)"

definition hostname_range :: "anchor_path \<Rightarrow> nat \<times> nat" where
  "hostname_range ap =
     (case (sch_sep ap, host_sep ap) of
        (Some sch_idx, Some host_end) \<Rightarrow> (sch_idx + 3, host_end)
      | _ \<Rightarrow> (0, 0))"

definition hostname :: "anchor_path \<Rightarrow> string" where
  "hostname ap = sub (ap_path ap) (hostname_range ap)"

definition dir_range :: "anchor_path \<Rightarrow> nat \<times> nat" where
  "dir_range ap =
     (let start_idx = path_start ap;
          stop_idx =
            (case dir_sep ap of
               Some idx \<Rightarrow>
                 (if length (ap_path ap) = 1 \<or> (idx = start_idx \<and> idx + 1 = path_end ap)
                  then idx + 1 else idx)
             | None \<Rightarrow> if ext_sep ap \<noteq> None then start_idx else path_end ap)
      in (start_idx, stop_idx))"

definition dir :: "anchor_path \<Rightarrow> string" where
  "dir ap = sub (ap_path ap) (dir_range ap)"

definition is_absolute :: "anchor_path \<Rightarrow> bool" where
  "is_absolute ap \<longleftrightarrow>
     (let d = dir ap
      in starts_with d ''/''
         \<or> (3 \<le> length d \<and> is_ascii_alphabetic (d ! 0) \<and> d ! 1 = CHR '':'' \<and> d ! 2 = CHR ''/''))"

definition anchor_range :: "anchor_path \<Rightarrow> nat \<times> nat" where
  "anchor_range ap =
     (unwrap_or (map_option Suc (anc_sep ap)) (length (ap_path ap)), length (ap_path ap))"

definition anchor :: "anchor_path \<Rightarrow> string" where
  "anchor ap = sub (ap_path ap) (anchor_range ap)"

definition name_start :: "anchor_path \<Rightarrow> nat" where
  "name_start ap = unwrap_or (map_option Suc (dir_sep ap)) (path_start ap)"

definition filename_range :: "anchor_path \<Rightarrow> nat \<times> nat" where
  "filename_range ap =
     (name_start ap, if ext_sep ap = None then name_start ap else path_end ap)"

definition filename :: "anchor_path \<Rightarrow> string" where
  "filename ap = sub (ap_path ap) (filename_range ap)"

definition filestem_range :: "anchor_path \<Rightarrow> nat \<times> nat" where
  "filestem_range ap = (name_start ap, unwrap_or (ext_sep ap) (name_start ap))"

definition filestem :: "anchor_path \<Rightarrow> string" where
  "filestem ap = sub (ap_path ap) (filestem_range ap)"

definition ext_range :: "anchor_path \<Rightarrow> nat \<times> nat" where
  "ext_range ap =
     (let stop_idx = path_end ap; start_idx = unwrap_or (map_option Suc (ext_sep ap)) stop_idx
      in if start_idx > stop_idx then (stop_idx, stop_idx) else (start_idx, stop_idx))"

definition ext :: "anchor_path \<Rightarrow> string" where
  "ext ap = sub (ap_path ap) (ext_range ap)"

definition path_parts :: "anchor_path \<Rightarrow> string \<times> string" where
  "path_parts ap = (filestem ap, ext ap)"

definition filepath_range :: "anchor_path \<Rightarrow> nat \<times> nat" where
  "filepath_range ap =
     (if ext_sep ap \<noteq> None then (path_start ap, path_end ap) else dir_range ap)"

definition filepath :: "anchor_path \<Rightarrow> string" where
  "filepath ap = sub (ap_path ap) (filepath_range ap)"

definition parent_dir_range :: "anchor_path \<Rightarrow> nat \<times> nat" where
  "parent_dir_range ap = (0, unwrap_or (dir_sep ap) (length (ap_path ap)))"

definition parent :: "anchor_path \<Rightarrow> anchor_path" where
  "parent ap =
     (if anc_sep ap \<noteq> None then ap_new (filepath ap)
      else if ext_sep ap \<noteq> None then ap_new_dir (dir ap)
      else let next_sep = str_rfind CHR ''/'' (sub (ap_path ap) (parent_dir_range ap))
           in ap_new (str_slice (ap_path ap) 0 (unwrap_or next_sep 0)))"

section \<open>The offsets are well formed\<close>

definition ap_ok :: "anchor_path \<Rightarrow> bool" where
  "ap_ok ap \<longleftrightarrow>
     path_start ap \<le> path_end ap \<and> path_end ap \<le> length (ap_path ap)
     \<and> (\<forall>s. sch_sep ap = Some s \<longrightarrow> s < length (ap_path ap))
     \<and> (\<forall>h. host_sep ap = Some h \<longrightarrow>
          (\<exists>s. sch_sep ap = Some s \<and> s + 3 \<le> h) \<and> h \<le> path_end ap)
     \<and> (\<forall>a. anc_sep ap = Some a \<longrightarrow> a < length (ap_path ap))
     \<and> (\<forall>p. param_sep ap = Some p \<longrightarrow>
          p < length (ap_path ap) \<and> (\<forall>a. anc_sep ap = Some a \<longrightarrow> p < a))
     \<and> (\<forall>d. dir_sep ap = Some d \<longrightarrow> path_start ap \<le> d \<and> d < length (ap_path ap))
     \<and> (\<forall>e. ext_sep ap = Some e \<longrightarrow> name_start ap \<le> e \<and> e \<le> path_end ap)"

text \<open>Every range the accessors slice.\<close>

definition accessor_ranges :: "anchor_path \<Rightarrow> (nat \<times> nat) list" where
  "accessor_ranges ap =
     [schema_range ap, after_schema_range ap, resource_range ap, parameters_range ap,
      hostname_range ap, dir_range ap, anchor_range ap, filename_range ap, filestem_range ap,
      ext_range ap, filepath_range ap, parent_dir_range ap]"

lemma min_some_None: "min_some xs = None \<longleftrightarrow> (\<forall>x\<in>set xs. x = None)"
  by (induction xs rule: min_some.induct) (auto split: option.splits)

lemma min_some_le:
  "min_some xs = Some m \<Longrightarrow> Some n \<in> set xs \<Longrightarrow> m \<le> n"
proof (induction xs arbitrary: m rule: min_some.induct)
  case (3 k xs)
  show ?case
  proof (cases "min_some xs")
    case None
    then have "Some n \<notin> set xs" unfolding min_some_None by blast
    with 3 None show ?thesis by simp
  next
    case (Some i)
    with 3 show ?thesis by (auto simp: min_le_iff_disj)
  qed
qed simp_all

lemma find_param_less:
  "find_param path anc = Some p \<Longrightarrow> anc = str_find CHR ''#'' path \<Longrightarrow>
     p < length path \<and> (\<forall>a. anc = Some a \<longrightarrow> p < a) \<and> path ! p = CHR ''?''"
  by (cases anc)
    (auto simp: find_param_def str_slice_def dest!: str_rfind_Some dest: str_find_less sym)

lemma find_schema_less:
  assumes "find_schema path param anc = Some s"
  shows "s < length path \<and> path ! s = CHR '':'' \<and> (\<forall>p. param = Some p \<longrightarrow> s < p)
    \<and> (\<forall>a. anc = Some a \<longrightarrow> s < a) \<and> (\<forall>i. str_find CHR ''/'' path = Some i \<longrightarrow> s < i)"
proof -
  let ?seps = "[str_find CHR ''/'' path, param, anc]"
  from assms have c: "str_find CHR '':'' path = Some s"
    and f: "\<forall>i. min_some ?seps = Some i \<longrightarrow> s < i"
    by (auto simp: find_schema_def Let_def split: option.splits if_splits)
  have "s < n" if "Some n \<in> set ?seps" for n
  proof (cases "min_some ?seps")
    case None
    with that show ?thesis unfolding min_some_None by blast
  next
    case (Some i)
    with f have "s < i" by blast
    also have "i \<le> n" using Some that by (rule min_some_le)
    finally show ?thesis .
  qed
  with str_find_Some [OF c] show ?thesis by simp
qed

lemma ap_path_new [simp]: "ap_path (ap_new path) = path"
  by (simp add: ap_new_def Let_def)

lemma anc_sep_new: "anc_sep (ap_new path) = str_find CHR ''#'' path"
  by (simp add: ap_new_def Let_def)

lemma param_sep_new: "param_sep (ap_new path) = find_param path (str_find CHR ''#'' path)"
  by (simp add: ap_new_def Let_def)

lemma sch_sep_new:
  "sch_sep (ap_new path) = find_schema path (param_sep (ap_new path)) (anc_sep (ap_new path))"
  by (simp add: ap_new_def Let_def)

lemma host_sep_new:
  "host_sep (ap_new path) = find_host path (sch_sep (ap_new path)) (path_end (ap_new path))"
  by (simp add: ap_new_def Let_def path_end_def)

lemma ext_sep_new:
  fixes path
  defines "ap \<equiv> ap_new path"
  defines "d \<equiv> find_dir path (path_start ap) (path_end ap)"
  defines "n \<equiv> unwrap_or (map_option Suc d) (path_start ap)"
  shows "ext_sep ap = find_ext path n (path_end ap)"
    and "dir_sep ap = (if ext_sep ap = None \<and> d \<noteq> None \<and> str_slice path n (path_end ap) \<noteq> []
                  then or_else (param_sep ap) (anc_sep ap) else d)"
  unfolding ap_def d_def n_def
  by (simp_all add: ap_new_def Let_def path_end_def path_start_def)

lemma path_end_new_le: "path_end (ap_new path) \<le> length path"
  using find_param_less [OF _ refl, of path] str_find_less [of "CHR ''#''" path]
  by (cases "param_sep (ap_new path)"; cases "anc_sep (ap_new path)")
    (auto simp: path_end_def param_sep_new anc_sep_new less_imp_le)

lemma sch_sep_new_less:
  "sch_sep (ap_new path) = Some s \<Longrightarrow> s < path_end (ap_new path) \<and> path ! s = CHR '':''"
proof -
  let ?ap = "ap_new path"
  assume "sch_sep ?ap = Some s"
  then have f: "find_schema path (param_sep ?ap) (anc_sep ?ap) = Some s"
    by (simp only: sch_sep_new)
  show ?thesis
    using find_schema_less [OF f]
    by (cases "param_sep ?ap"; cases "anc_sep ?ap") (auto simp: path_end_def)
qed

lemma host_sep_new_bounds:
  assumes h: "host_sep (ap_new path) = Some h"
  shows "\<exists>s. sch_sep (ap_new path) = Some s \<and> s + 3 \<le> h \<and> h \<le> path_end (ap_new path)"
proof -
  let ?ap = "ap_new path"
  from h obtain s where s: "sch_sep ?ap = Some s"
    and sl: "path ! (s + 1) = CHR ''/''" "path ! (s + 2) = CHR ''/''" "s + 2 < length path"
    and hv: "h = (case str_find CHR ''/'' (str_slice path (s + 3) (path_end ?ap)) of
                    Some k \<Rightarrow> s + 3 + k | None \<Rightarrow> path_end ?ap)"
    by (auto simp: host_sep_new find_host_def Let_def numeral_3_eq_3 numeral_2_eq_2
        split: option.splits if_splits)
  have "path_end ?ap \<noteq> s + 1" "path_end ?ap \<noteq> s + 2"
    using sl find_param_less [OF _ refl, of path] str_find_Some [of "CHR ''#''" path]
    by (cases "param_sep ?ap"; cases "anc_sep ?ap";
        force simp: path_end_def param_sep_new anc_sep_new)+
  with sch_sep_new_less [OF s] have end_ge: "s + 3 \<le> path_end ?ap" by simp
  have "s + 3 + k \<le> path_end ?ap" if "str_find CHR ''/'' (str_slice path (s + 3) (path_end ?ap)) = Some k" for k
    using str_find_less [OF that] end_ge path_end_new_le [of path]
    by (simp add: str_slice_def)
  with s hv end_ge show ?thesis by (auto split: option.splits)
qed

lemma path_start_new_le: "path_start (ap_new path) \<le> path_end (ap_new path)"
  using host_sep_new_bounds [of path] sch_sep_new_less [of path]
  by (cases "host_sep (ap_new path)"; cases "sch_sep (ap_new path)")
    (auto simp: path_start_def start_of_def Suc_le_eq)

lemma rfind_slice_bounds:
  assumes "str_rfind c (str_slice s a b) = Some i"
  shows "i + a < b \<and> i + a < length s \<and> s ! (i + a) = c"
  using str_rfind_Some [OF assms] by (auto simp: str_slice_def add.commute)

lemma find_dir_bounds: "find_dir s a b = Some d \<Longrightarrow> a \<le> d \<and> d < b \<and> s ! d = CHR ''/''"
  using rfind_slice_bounds by (fastforce simp: find_dir_def)

lemma find_ext_bounds: "find_ext s a b = Some e \<Longrightarrow> a < e \<and> e < b \<and> s ! e = CHR ''.''"
  using rfind_slice_bounds by (fastforce simp: find_ext_def split: option.splits if_splits)

lemma ap_ok_new: "ap_ok (ap_new path)"
proof -
  let ?ap = "ap_new path"
  have pe: "path_end ?ap \<le> length path" by (rule path_end_new_le)
  have par: "param_sep ?ap = Some p \<Longrightarrow> p < length path \<and> (\<forall>a. anc_sep ?ap = Some a \<longrightarrow> p < a)"
    and anc: "anc_sep ?ap = Some a \<Longrightarrow> a < length path" for p a
    using find_param_less [OF _ refl, of path p] str_find_less [of "CHR ''#''" path]
    by (auto simp: param_sep_new anc_sep_new)
  have promoted: "or_else (param_sep ?ap) (anc_sep ?ap) = Some d \<Longrightarrow>
      path_start ?ap \<le> d \<and> d < length path" for d
    using par anc path_start_new_le [of path]
    by (cases "param_sep ?ap"; cases "anc_sep ?ap") (auto simp: path_end_def)
  have dir: "dir_sep ?ap = Some d \<Longrightarrow> path_start ?ap \<le> d \<and> d < length path" for d
    using find_dir_bounds [of path _ _ d] promoted [of d] pe
    unfolding ext_sep_new(2) by (fastforce split: if_splits)
  have ext: "name_start ?ap \<le> e \<and> e \<le> path_end ?ap" if "ext_sep ?ap = Some e" for e
    using that find_ext_bounds [of path _ _ e]
    unfolding name_start_def ext_sep_new by fastforce
  have host: "host_sep ?ap = Some h \<Longrightarrow>
      (\<exists>s. sch_sep ?ap = Some s \<and> s + 3 \<le> h) \<and> h \<le> path_end ?ap" for h
    using host_sep_new_bounds by blast
  have sch: "sch_sep ?ap = Some s \<Longrightarrow> s < length path" for s
    using sch_sep_new_less pe by fastforce
  show ?thesis
    unfolding ap_ok_def ap_path_new
    using path_start_new_le [of path] pe sch host par anc dir ext by blast
qed

lemma path_end_update [simp]:
  "path_end (ap\<lparr>ext_sep := e, dir_sep := d\<rparr>) = path_end ap"
  "path_start (ap\<lparr>ext_sep := e, dir_sep := d\<rparr>) = path_start ap"
  by (simp_all add: path_end_def path_start_def)

lemma ap_ok_new_dir: "ap_ok (ap_new_dir path)"
proof -
  have ok: "ap_ok (ap_new path)" by (rule ap_ok_new)
  then have "ap_ok ((ap_new path)\<lparr>ext_sep := None,
      dir_sep := or_else (param_sep (ap_new path)) (anc_sep (ap_new path))\<rparr>)"
    by (cases "param_sep (ap_new path)"; cases "anc_sep (ap_new path)")
      (auto simp: ap_ok_def path_end_def path_start_def)
  with ok show ?thesis by (simp add: ap_new_dir_def Let_def)
qed

lemma ap_ok_new_file: "ap_ok (ap_new_file path)"
proof -
  let ?ap = "ap_new path"
  let ?d = "find_dir path (path_start ?ap) (path_end ?ap)"
  have ok: "ap_ok ?ap" by (rule ap_ok_new)
  have "ap_ok (?ap\<lparr>ext_sep := Some (path_end ?ap), dir_sep := ?d\<rparr>)"
    using ok find_dir_bounds [of path "path_start ?ap" "path_end ?ap"]
    by (cases ?d) (auto simp: ap_ok_def name_start_def)
  with ok show ?thesis by (simp add: ap_new_file_def Let_def)
qed

lemma accessors_in_range: "ap_ok ap \<Longrightarrow> list_all (range_ok (ap_path ap)) (accessor_ranges ap)"
  by (cases "sch_sep ap"; cases "host_sep ap"; cases "param_sep ap"; cases "dir_sep ap";
      cases "ext_sep ap"; cases "anc_sep ap")
    (auto simp: ap_ok_def accessor_ranges_def range_ok_def slice_ok_def schema_range_def
      after_schema_range_def resource_range_def parameters_range_def hostname_range_def
      dir_range_def anchor_range_def filename_range_def filestem_range_def ext_range_def
      filepath_range_def parent_dir_range_def name_start_def path_start_def path_end_def
      start_of_def Let_def)

section \<open>Properties\<close>

text \<open>The ranges \<open>ap_new\<close> itself slices while it parses.\<close>

definition construction_ranges :: "string \<Rightarrow> (nat \<times> nat) list" where
  "construction_ranges path =
     (let ap = ap_new path; dir0 = find_dir path (path_start ap) (path_end ap)
      in (0, unwrap_or (anc_sep ap) (length path))
         # (case (sch_sep ap, host_sep ap) of
              (Some s, Some h) \<Rightarrow> [(s + 3, path_end ap)] | _ \<Rightarrow> [])
         @ [(path_start ap, path_end ap),
            (unwrap_or (map_option Suc dir0) (path_start ap), path_end ap)])"

lemma construction_in_range: "list_all (range_ok path) (construction_ranges path)"
proof -
  let ?ap = "ap_new path"
  let ?d = "find_dir path (path_start ?ap) (path_end ?ap)"
  have anc: "unwrap_or (anc_sep ?ap) (length path) \<le> length path"
    using str_find_less [of "CHR ''#''" path] by (cases "anc_sep ?ap") (auto simp: anc_sep_new)
  have d: "unwrap_or (map_option Suc ?d) (path_start ?ap) \<le> path_end ?ap"
    using find_dir_bounds [of path "path_start ?ap" "path_end ?ap"] path_start_new_le [of path]
    by (cases ?d) auto
  have h: "s + 3 \<le> path_end ?ap" if "sch_sep ?ap = Some s" "host_sep ?ap = Some h" for s h
    using host_sep_new_bounds [OF that(2)] that(1) by auto
  show ?thesis
    using anc d h path_end_new_le [of path] path_start_new_le [of path]
    by (auto simp: construction_ranges_def range_ok_def slice_ok_def Let_def split: option.splits)
qed

text \<open>
  C6. No string makes path parsing panic: for each of the three constructors, every slice the
  parser and the accessors take is within the string, with its start not past its end.
\<close>

theorem anchor_path_no_panic:
  "list_all (range_ok path) (construction_ranges path)
   \<and> list_all (range_ok path) (accessor_ranges (ap_new path))
   \<and> list_all (range_ok path) (accessor_ranges (ap_new_dir path))
   \<and> list_all (range_ok path) (accessor_ranges (ap_new_file path))"
proof -
  have "ap_path (ap_new_dir path) = path" "ap_path (ap_new_file path) = path"
    by (simp_all add: ap_new_dir_def ap_new_file_def Let_def)
  then show ?thesis
    using construction_in_range accessors_in_range [OF ap_ok_new, of path]
      accessors_in_range [OF ap_ok_new_dir, of path] accessors_in_range [OF ap_ok_new_file, of path]
    by simp
qed

lemma take_slice_drop: "a \<le> b \<Longrightarrow> take a s @ str_slice s a b @ drop b s = s"
  by (metis append_take_drop_id drop_drop le_add_diff_inverse2 str_slice_def append.assoc)

lemma drop_slice: "a \<le> b \<Longrightarrow> str_slice s a b @ drop b s = drop a s"
  by (metis append_take_drop_id drop_drop le_add_diff_inverse2 str_slice_def)

text \<open>
  C7. Parsing loses nothing: the string is its schema-and-host prefix, the path proper, then
  \<open>?\<close> and the query parameters where there are any, then \<open>#\<close> and the anchor where there is one.
\<close>

theorem anchor_path_decompose:
  "s = take (path_start (ap_new s)) s
       @ str_slice s (path_start (ap_new s)) (path_end (ap_new s))
       @ (if has_parameters (ap_new s) then ''?'' @ parameters (ap_new s) else [])
       @ (if anc_sep (ap_new s) \<noteq> None then ''#'' @ anchor (ap_new s) else [])"
proof -
  let ?ap = "ap_new s"
  have at: "i < length s \<Longrightarrow> s ! i = c \<Longrightarrow> drop i s = c # drop (Suc i) s" for i c
    by (metis Cons_nth_drop_Suc)
  have anc: "drop a s = ''#'' @ anchor ?ap" if "anc_sep ?ap = Some a" for a
    using that str_find_Some [of "CHR ''#''" s a] at [of a]
    by (simp add: anc_sep_new anchor_def anchor_range_def sub_def str_slice_def)
  have tail: "drop (path_end ?ap) s =
      (if has_parameters ?ap then ''?'' @ parameters ?ap else [])
      @ (if anc_sep ?ap \<noteq> None then ''#'' @ anchor ?ap else [])"
  proof (cases "param_sep ?ap")
    case None
    then show ?thesis
      using anc by (cases "anc_sep ?ap") (auto simp: path_end_def has_parameters_def)
  next
    case (Some p)
    then have p: "p < length s" "s ! p = CHR ''?''" "\<And>a. anc_sep ?ap = Some a \<Longrightarrow> p < a"
      using find_param_less [OF _ refl, of s p] by (auto simp: param_sep_new anc_sep_new)
    then have "drop p s = CHR ''?'' # drop (Suc p) s" by (intro at)
    also have "drop (Suc p) s = parameters ?ap @ (if anc_sep ?ap \<noteq> None then ''#'' @ anchor ?ap else [])"
    proof (cases "anc_sep ?ap")
      case None
      with Some show ?thesis by (simp add: parameters_def parameters_range_def sub_def str_slice_def)
    next
      case (Some a)
      have "drop (Suc p) s = str_slice s (Suc p) a @ drop a s"
        using drop_slice [of "Suc p" a s] p(3) [OF Some] by simp
      with \<open>param_sep ?ap = Some p\<close> Some anc [OF Some] show ?thesis
        by (simp add: parameters_def parameters_range_def sub_def)
    qed
    finally show ?thesis using Some by (simp add: path_end_def has_parameters_def)
  qed
  show ?thesis
    using take_slice_drop [OF path_start_new_le [of s], of s] unfolding tail by simp
qed

lemma slice_rfind_free:
  assumes "str_rfind c (str_slice s a b) = None"
  shows "c \<notin> set (str_slice s a b)"
  using assms by (simp add: str_rfind_None)

lemma slice_after_rfind:
  assumes "str_rfind c (str_slice s a b) = Some i"
  shows "c \<notin> set (str_slice s (Suc (i + a)) b)"
proof -
  have "drop (Suc i) (str_slice s a b) = str_slice s (Suc (i + a)) b"
    by (simp add: str_slice_def drop_take add.commute)
  with str_rfind_Some [OF assms] show ?thesis by simp
qed

lemma name_no_slash:
  "CHR ''/'' \<notin> set (str_slice s (unwrap_or (map_option Suc (find_dir s a b)) a) b)"
  by (cases "str_rfind CHR ''/'' (str_slice s a b)")
    (auto simp: find_dir_def dest: slice_rfind_free slice_after_rfind)

lemma ext_no_dot: "find_ext s a b = Some e \<Longrightarrow> CHR ''.'' \<notin> set (str_slice s (Suc e) b)"
  by (auto simp: find_ext_def dest: slice_after_rfind split: option.splits if_splits)

lemma slice_at:
  assumes "a \<le> i" "i < b" "b \<le> length s"
  shows "str_slice s a b = str_slice s a i @ s ! i # str_slice s (Suc i) b"
proof -
  have "str_slice s a b = str_slice s a i @ str_slice s i b"
    using assms by (simp add: slice_append)
  also have "str_slice s i b = str_slice s i (Suc i) @ str_slice s (Suc i) b"
    using assms by (simp add: slice_append)
  also have "str_slice s i (Suc i) = [s ! i]"
    using assms by (simp add: str_slice_def take_Suc_conv_app_nth)
  finally show ?thesis by simp
qed

text \<open>
  A path parsed as a file splits as its accessors say: the file name is a non-empty stem, a
  dot and an extension without a dot, no slash is in the name, and the file path is the
  directory part, a slash and the name (or the name alone).
\<close>

theorem file_name_parts:
  assumes "\<not> is_dir (ap_new s)"
  shows "filename (ap_new s) = filestem (ap_new s) @ ''.'' @ ext (ap_new s)
    \<and> filestem (ap_new s) \<noteq> [] \<and> CHR ''.'' \<notin> set (ext (ap_new s))
    \<and> CHR ''/'' \<notin> set (filename (ap_new s))
    \<and> filepath (ap_new s) =
        (case dir_sep (ap_new s) of
           None \<Rightarrow> filename (ap_new s)
         | Some d \<Rightarrow> str_slice s (path_start (ap_new s)) d @ ''/'' @ filename (ap_new s))"
proof -
  let ?ap = "ap_new s"
  let ?n = "name_start ?ap" and ?b = "path_end ?ap"
  from assms obtain e where e: "ext_sep ?ap = Some e" by (auto simp: is_dir_def)
  then have d: "dir_sep ?ap = find_dir s (path_start ?ap) ?b" by (simp add: ext_sep_new)
  then have n: "?n = unwrap_or (map_option Suc (find_dir s (path_start ?ap) ?b)) (path_start ?ap)"
    by (simp add: name_start_def)
  have fe: "find_ext s ?n ?b = Some e" using e unfolding ext_sep_new(1) n .
  note b = find_ext_bounds [OF fe]
  have len: "?b \<le> length s" by (rule path_end_new_le)
  have fn: "filename ?ap = str_slice s ?n ?b" and fs: "filestem ?ap = str_slice s ?n e"
    and ex: "ext ?ap = str_slice s (Suc e) ?b"
    using e b by (simp_all add: filename_def filename_range_def filestem_def filestem_range_def
        ext_def ext_range_def sub_def Let_def)
  have 1: "filename ?ap = filestem ?ap @ ''.'' @ ext ?ap"
    using slice_at [of ?n e ?b s] b len by (simp add: fn fs ex)
  have 2: "filestem ?ap \<noteq> []"
    using b len by (simp add: fs str_slice_def)
  have 3: "filepath ?ap = (case dir_sep ?ap of None \<Rightarrow> filename ?ap
      | Some d \<Rightarrow> str_slice s (path_start ?ap) d @ ''/'' @ filename ?ap)"
  proof (cases "dir_sep ?ap")
    case None
    with e show ?thesis by (simp add: filepath_def filepath_range_def sub_def fn name_start_def)
  next
    case (Some k)
    with d have k: "path_start ?ap \<le> k" "k < ?b" "s ! k = CHR ''/''"
      using find_dir_bounds by metis+
    with slice_at [of "path_start ?ap" k ?b s] len e Some show ?thesis
      by (simp add: filepath_def filepath_range_def sub_def fn name_start_def)
  qed
  show ?thesis
    using 1 2 3 ext_no_dot [OF fe] name_no_slash [of s "path_start ?ap" ?b]
    by (simp add: ex fn n)
qed

theorem file_name_parts_witness:
  "filename (ap_new ''docs/guide.v2.md#top'') = ''guide.v2.md''
   \<and> filestem (ap_new ''docs/guide.v2.md#top'') @ ''.'' @ ext (ap_new ''docs/guide.v2.md#top'')
     = ''guide.v2.md''"
proof -
  have nd: "\<not> is_dir (ap_new ''docs/guide.v2.md#top'')" by code_simp
  have fn: "filename (ap_new ''docs/guide.v2.md#top'') = ''guide.v2.md''" by code_simp
  from file_name_parts [OF nd] fn show ?thesis by metis
qed

text \<open>
  \<open>new_dir\<close> always classifies its path as a directory, with no file name, stem or extension,
  and leaves the string and the other separators as \<open>new\<close> finds them; \<open>new_file\<close> classifies every
  path that does not end in a slash as a file.
\<close>

theorem forced_classification:
  "is_dir (ap_new_dir s) \<and> filename (ap_new_dir s) = [] \<and> filestem (ap_new_dir s) = []
   \<and> ext (ap_new_dir s) = [] \<and> anchor (ap_new_dir s) = anchor (ap_new s)
   \<and> parameters (ap_new_dir s) = parameters (ap_new s)
   \<and> (is_dir (ap_new_file s) \<longleftrightarrow> is_dir (ap_new s) \<and> \<not> ends_in_name (ap_new s))"
proof -
  let ?ap = "ap_new s"
  have ends: "ends_in_name ?ap" if e: "ext_sep ?ap = Some e" for e
  proof -
    let ?n = "unwrap_or (map_option Suc (find_dir s (path_start ?ap) (path_end ?ap))) (path_start ?ap)"
    from e have "find_ext s ?n (path_end ?ap) = Some e" by (simp add: ext_sep_new)
    note b = find_ext_bounds [OF this]
    have "?n \<le> path_end ?ap - 1" "path_end ?ap - 1 < path_end ?ap" using b by linarith+
    from slice_at [OF this path_end_new_le]
    have "s ! (path_end ?ap - 1) \<in> set (str_slice s ?n (path_end ?ap))" by simp
    with name_no_slash [of s "path_start ?ap" "path_end ?ap"] b show ?thesis
      by (auto simp: ends_in_name_def)
  qed
  have dir: "ext_sep (ap_new_dir s) = None"
    using ends by (cases "ext_sep ?ap") (auto simp: ap_new_dir_def Let_def)
  have anc: "anchor (ap_new_dir s) = anchor ?ap"
    by (simp add: ap_new_dir_def Let_def anchor_def anchor_range_def split: option.splits)
  have par: "parameters (ap_new_dir s) = parameters ?ap"
    by (auto simp: ap_new_dir_def Let_def parameters_def parameters_range_def split: option.splits)
  have as_file: "ext_sep (ap_new_file s) = None \<longleftrightarrow> ext_sep ?ap = None \<and> \<not> ends_in_name ?ap"
    by (auto simp: ap_new_file_def Let_def)
  show ?thesis
    using dir anc par as_file
    by (simp add: is_dir_def filename_def filename_range_def filestem_def filestem_range_def ext_def
        ext_range_def sub_def str_slice_def Let_def)
qed

end
