(* ===== verification/Ids.thy ===== *)
theory Ids
  imports Prelude
begin

text \<open>
  Identities (\<open>properties.rs\<close>): the \<open>Bid\<close> of a node, a 128-bit UUID whose low 48 bits (octets 10
  to 15) name the namespace of its parent, the \<open>Bref\<close>, the 48-bit namespace a \<open>Bid\<close> generates
  for its children, the reserved namespaces, and the error type (\<open>error.rs\<close>).

  The \<open>uuid\<close> and \<open>hex\<close> crates are the fields of the record \<open>id_ext\<close>, an argument of the
  definitions that call them.
\<close>

unbundle bit_operations_syntax

section \<open>Errors\<close>

text \<open>
  \<open>BuildonomyError\<close>. The human-readable messages are left out; the fields the code reads back are
  kept.
\<close>

datatype buildonomy_error =
    Cache
  | Codec
  | Command
  | Custom
  | Io
  | NotFound
  | OperationCancelled
  | PageNotFound
  | PermissionDenied
  | Serialization
  | Service
  | Timeout
  | UnresolvedNetwork (network_ref: string) (key_type: string) (unresolved_value: string)

section \<open>Bid and Bref\<close>

datatype bid = Bid (bid_uuid: "128 word")

datatype bref = Bref (bref_bits: "48 word")

instantiation bid :: linorder
begin

definition less_eq_bid :: "bid \<Rightarrow> bid \<Rightarrow> bool" where
  "less_eq_bid a b \<longleftrightarrow> bid_uuid a \<le> bid_uuid b"

definition less_bid :: "bid \<Rightarrow> bid \<Rightarrow> bool" where
  "less_bid a b \<longleftrightarrow> bid_uuid a < bid_uuid b"

instance
  by standard (auto simp: less_eq_bid_def less_bid_def bid.expand)

end

instantiation bref :: linorder
begin

definition less_eq_bref :: "bref \<Rightarrow> bref \<Rightarrow> bool" where
  "less_eq_bref a b \<longleftrightarrow> bref_bits a \<le> bref_bits b"

definition less_bref :: "bref \<Rightarrow> bref \<Rightarrow> bool" where
  "less_bref a b \<longleftrightarrow> bref_bits a < bref_bits b"

instance
  by standard (auto simp: less_eq_bref_def less_bref_def bref.expand)

end

lemma less_bid_Bid [simp]: "Bid a < Bid b \<longleftrightarrow> a < b" "Bid a \<le> Bid b \<longleftrightarrow> a \<le> b"
  by (simp_all add: less_bid_def less_eq_bid_def)

lemma less_bref_Bref [simp]: "Bref a < Bref b \<longleftrightarrow> a < b" "Bref a \<le> Bref b \<longleftrightarrow> a \<le> b"
  by (simp_all add: less_bref_def less_eq_bref_def)

text \<open>
  The crates: \<open>Uuid::new_v5\<close>, \<open>Uuid::now_v6\<close> (whose clock reading is the first argument),
  \<open>Uuid::parse_str\<close>, the hyphenated display, and \<open>hex::decode\<close>.
\<close>

record id_ext =
  uuid_new_v5 :: "128 word \<Rightarrow> string \<Rightarrow> 128 word"
  uuid_now_v6 :: "nat \<Rightarrow> 48 word \<Rightarrow> 128 word"
  uuid_parse :: "string \<Rightarrow> 128 word option"
  uuid_hyphenated :: "128 word \<Rightarrow> string"
  hex_decode :: "string \<Rightarrow> string option"

text \<open>The bytes of a UUID, octet 0 first.\<close>

definition uuid_as_bytes :: "128 word \<Rightarrow> string" where
  "uuid_as_bytes w = map (\<lambda>i. char_of (unat (drop_bit (8 * (15 - i)) w AND 255))) [0..<16]"

definition uuid_namespace_buildonomy :: "128 word" where
  "uuid_namespace_buildonomy = 0x6b3d2154c0a9437b93245f62adeb9a44"

definition uuid_namespace_href :: "128 word" where
  "uuid_namespace_href = 0x5b3d2154c0a9437b93245f62adeb9a44"

definition uuid_namespace_asset :: "128 word" where
  "uuid_namespace_asset = 0x4b3d2154c0a9437b93245f62adeb9a44"

definition buildonomy_namespace :: bid where
  "buildonomy_namespace = Bid uuid_namespace_buildonomy"

definition href_namespace :: bid where
  "href_namespace = Bid uuid_namespace_href"

definition asset_namespace :: bid where
  "asset_namespace = Bid uuid_namespace_asset"

definition const_namespaces :: "bid list" where
  "const_namespaces = [buildonomy_namespace, href_namespace, asset_namespace]"

definition content_namespaces :: "bid list" where
  "content_namespaces = [href_namespace, asset_namespace]"

definition generate_namespace :: "'a id_ext_scheme \<Rightarrow> bid \<Rightarrow> bid" where
  "generate_namespace X node =
     Bid (uuid_new_v5 X uuid_namespace_buildonomy (uuid_as_bytes (bid_uuid node)))"

definition parent_bref :: "bid \<Rightarrow> bref" where
  "parent_bref b = Bref (ucast (bid_uuid b))"

definition bref_of :: "'a id_ext_scheme \<Rightarrow> bid \<Rightarrow> bref" where
  "bref_of X b = parent_bref (generate_namespace X b)"

text \<open>\<open>bytes[10..16].copy_from_slice(ns)\<close>: the low 48 bits replaced.\<close>

definition set_octets_10_16 :: "128 word \<Rightarrow> bref \<Rightarrow> 128 word" where
  "set_octets_10_16 w r = (w AND NOT (mask 48)) OR ucast (bref_bits r)"

definition buildonomy_api_bid :: "'a id_ext_scheme \<Rightarrow> string \<Rightarrow> bid" where
  "buildonomy_api_bid X version =
     (let uuid = uuid_new_v5 X uuid_namespace_buildonomy version
      in Bid (set_octets_10_16 uuid (bref_of X buildonomy_namespace)))"

definition buildonomy_asset_bid :: "'a id_ext_scheme \<Rightarrow> string \<Rightarrow> bid" where
  "buildonomy_asset_bid X hash_str =
     (let uuid = uuid_new_v5 X uuid_namespace_asset hash_str
      in Bid (set_octets_10_16 uuid (bref_of X asset_namespace)))"

definition buildonomy_href_bid :: "'a id_ext_scheme \<Rightarrow> string \<Rightarrow> bid" where
  "buildonomy_href_bid X hash_str =
     (let uuid = uuid_new_v5 X uuid_namespace_href hash_str
      in Bid (set_octets_10_16 uuid (bref_of X href_namespace)))"

definition bid_new :: "'a id_ext_scheme \<Rightarrow> nat \<Rightarrow> bid \<Rightarrow> bid" where
  "bid_new X now parent = Bid (uuid_now_v6 X now (bref_bits (bref_of X parent)))"

definition nil_bid :: bid where
  "nil_bid = Bid 0"

definition is_nil :: "bid \<Rightarrow> bool" where
  "is_nil b \<longleftrightarrow> b = nil_bid"

text \<open>\<open>BID_NAMESPACE_NIL\<close> is six zero bytes.\<close>

definition initialized :: "bid \<Rightarrow> bool" where
  "initialized b \<longleftrightarrow> parent_bref b \<noteq> Bref 0"

definition adopt_into :: "'a id_ext_scheme \<Rightarrow> bid \<Rightarrow> bid \<Rightarrow> bid" where
  "adopt_into X b parent = Bid (set_octets_10_16 (bid_uuid b) (bref_of X parent))"

definition is_reserved :: "'a id_ext_scheme \<Rightarrow> bid \<Rightarrow> bool" where
  "is_reserved X b \<longleftrightarrow>
     (let namespace = parent_bref b
      in list_ex (\<lambda>ns. namespace = bref_of X ns \<or> namespace = parent_bref ns) const_namespaces
         \<or> is_nil b)"

definition is_parent_filter :: "'a id_ext_scheme \<Rightarrow> bid \<Rightarrow> bid \<Rightarrow> bool" where
  "is_parent_filter X b c \<longleftrightarrow> (let namespace = bref_of X b in parent_bref c = namespace)"

definition bref_default :: "'a id_ext_scheme \<Rightarrow> bref" where
  "bref_default X = bref_of X nil_bid"

definition bref_is_default :: "'a id_ext_scheme \<Rightarrow> bref \<Rightarrow> bool" where
  "bref_is_default X r \<longleftrightarrow> r = bref_of X nil_bid"

section \<open>Text forms\<close>

definition bid_display :: "'a id_ext_scheme \<Rightarrow> bid \<Rightarrow> string" where
  "bid_display X b = uuid_hyphenated X (bid_uuid b)"

definition bid_try_from :: "'a id_ext_scheme \<Rightarrow> string \<Rightarrow> buildonomy_error + bid" where
  "bid_try_from X s =
     (case uuid_parse X s of None \<Rightarrow> Inl Serialization | Some w \<Rightarrow> Inr (Bid w))"

text \<open>The six bytes of a \<open>Bref\<close>, and \<open>{:02x}\<close> of each.\<close>

definition bref_bytes :: "bref \<Rightarrow> nat list" where
  "bref_bytes r = map (\<lambda>i. unat (bref_bits r) div 256 ^ (5 - i) mod 256) [0..<6]"

definition hex_digit :: "nat \<Rightarrow> char" where
  "hex_digit n = ''0123456789abcdef'' ! n"

definition bref_display :: "bref \<Rightarrow> string" where
  "bref_display r =
     concat (map (\<lambda>byte. [hex_digit (byte div 16), hex_digit (byte mod 16)]) (bref_bytes r))"

definition bref_from_bytes :: "nat list \<Rightarrow> bref" where
  "bref_from_bytes bs = Bref (of_nat (fold (\<lambda>byte n. n * 256 + byte) bs 0))"

definition bref_try_from :: "'a id_ext_scheme \<Rightarrow> string \<Rightarrow> buildonomy_error + bref" where
  "bref_try_from X s =
     (case hex_decode X s of
        None \<Rightarrow> Inl Serialization
      | Some bytes \<Rightarrow>
          if length bytes \<noteq> 6 then Inl Serialization
          else Inr (bref_from_bytes (map of_char bytes)))"

section \<open>Namespaces: what they guarantee\<close>

lemma ucast_set_octets: "ucast (set_octets_10_16 w r) = bref_bits r"
  unfolding set_octets_10_16_def
  by (rule bit_word_eqI) (simp add: bit_simps)

lemma set_octets_high: "drop_bit 48 (set_octets_10_16 w r) = drop_bit 48 w"
  unfolding set_octets_10_16_def
  by (rule bit_word_eqI) (auto simp: bit_simps dest: bit_imp_le_length)

lemma parent_bref_set_octets [simp]: "parent_bref (Bid (set_octets_10_16 w r)) = r"
  by (simp add: parent_bref_def ucast_set_octets)

lemma parent_bref_adopt_into: "parent_bref (adopt_into X b p) = bref_of X p"
  by (simp add: adopt_into_def)

lemma is_reserved_namespace: "ns \<in> set const_namespaces \<Longrightarrow> is_reserved X ns"
  by (auto simp: is_reserved_def list_ex_iff Let_def)

lemma is_reserved_child: "ns \<in> set const_namespaces \<Longrightarrow> parent_bref b = bref_of X ns \<Longrightarrow>
    is_reserved X b"
  by (auto simp: is_reserved_def list_ex_iff Let_def)

lemma length_bref_bytes [simp]: "length (bref_bytes r) = 6"
  by (simp add: bref_bytes_def)

lemma bref_bytes_list: "bref_bytes r =
   (let n = unat (bref_bits r) in
    [n div 256 ^ 5 mod 256, n div 256 ^ 4 mod 256, n div 256 ^ 3 mod 256,
     n div 256 ^ 2 mod 256, n div 256 mod 256, n mod 256])"
  by (simp add: bref_bytes_def upt_rec Let_def)

lemma digits_256:
  fixes n :: nat
  assumes "n < 256 ^ 6"
  shows "fold (\<lambda>byte m. m * 256 + byte)
    [n div 256 ^ 5 mod 256, n div 256 ^ 4 mod 256, n div 256 ^ 3 mod 256,
     n div 256 ^ 2 mod 256, n div 256 mod 256, n mod 256] 0 = n"
proof -
  have step: "n div 256 ^ j * 256 + n div 256 ^ k mod 256 = n div 256 ^ k" if "j = Suc k" for j k
  proof -
    have "n div 256 ^ j = n div 256 ^ k div 256"
      unfolding that by (metis div_mult2_eq power_Suc2)
    then show ?thesis by (simp only: div_mult_mod_eq)
  qed
  have s4: "n div 256 ^ 5 * 256 + n div 256 ^ 4 mod 256 = n div 256 ^ 4"
    and s3: "n div 256 ^ 4 * 256 + n div 256 ^ 3 mod 256 = n div 256 ^ 3"
    and s2: "n div 256 ^ 3 * 256 + n div 256 ^ 2 mod 256 = n div 256 ^ 2"
    by (rule step; simp)+
  have s1: "n div 256 ^ 2 * 256 + n div 256 mod 256 = n div 256"
    using step [OF numeral_2_eq_2] by (simp only: One_nat_def [symmetric] power_one_right)
  have top: "n div 256 ^ 5 mod 256 = n div 256 ^ 5"
    using assms by (simp add: div_less_iff_less_mult)
  show ?thesis
    by (simp only: fold_simps top s4 s3 s2 s1 div_mult_mod_eq mult_0 add_0)
qed

lemma bref_from_bytes_bytes: "bref_from_bytes (bref_bytes r) = r"
proof -
  have "unat (bref_bits r) < 256 ^ 6"
    using unsigned_less [of "bref_bits r"] by simp
  then have "fold (\<lambda>byte n. n * 256 + byte) (bref_bytes r) 0 = unat (bref_bits r)"
    unfolding bref_bytes_list Let_def by (rule digits_256)
  then show ?thesis by (simp add: bref_from_bytes_def)
qed

definition is_hex_char :: "char \<Rightarrow> bool" where
  "is_hex_char c \<longleftrightarrow> c \<in> set ''0123456789abcdef''"

lemma hex_digit_char: "n < 16 \<Longrightarrow> is_hex_char (hex_digit n)"
  unfolding is_hex_char_def hex_digit_def by (rule nth_mem) simp

lemma bref_display_hex: "c \<in> set (bref_display r) \<Longrightarrow> is_hex_char c"
  by (auto simp: bref_display_def bref_bytes_def intro!: hex_digit_char div_less_iff_less_mult [THEN iffD2])

lemma length_bref_display [simp]: "length (bref_display r) = 12"
  by (simp add: bref_display_def bref_bytes_def upt_rec)

section \<open>Properties\<close>

text \<open>
  A \<open>Bid\<close> adopted into a parent is in the namespace that parent generates, keeps its own ten
  leading octets, and adopting it again changes nothing.
\<close>

theorem adopt_into_namespace:
  "is_parent_filter X p (adopt_into X b p)
   \<and> drop_bit 48 (bid_uuid (adopt_into X b p)) = drop_bit 48 (bid_uuid b)
   \<and> adopt_into X (adopt_into X b p) p = adopt_into X b p"
proof -
  have "set_octets_10_16 (set_octets_10_16 w r) r = set_octets_10_16 w r" for w r
    unfolding set_octets_10_16_def by (rule bit_word_eqI) (auto simp: bit_simps)
  then show ?thesis
    by (simp add: is_parent_filter_def parent_bref_adopt_into set_octets_high adopt_into_def)
qed

text \<open>
  Every identifier the system makes for itself (an API version, an asset, an external link)
  is reserved, whatever the hash function returns, and so is each namespace and the nil id.
\<close>

theorem system_bids_reserved:
  "is_reserved X (buildonomy_api_bid X version) \<and> is_reserved X (buildonomy_asset_bid X hash_str)
   \<and> is_reserved X (buildonomy_href_bid X hash_str) \<and> is_reserved X nil_bid
   \<and> list_all (is_reserved X) const_namespaces"
proof -
  have "is_reserved X b" if "parent_bref b = bref_of X ns" "ns \<in> set const_namespaces" for b ns
    using that by (rule is_reserved_child [rotated])
  then show ?thesis
    by (auto simp: buildonomy_api_bid_def buildonomy_asset_bid_def buildonomy_href_bid_def Let_def
        const_namespaces_def list_all_iff is_reserved_namespace)
      (simp add: is_reserved_def is_nil_def)
qed

text \<open>
  A \<open>Bref\<close> prints to twelve lower-case hexadecimal digits and reads back to itself, when
  \<open>hex::decode\<close> decodes those digits to the bytes they stand for.
\<close>

theorem bref_roundtrip:
  assumes "hex_decode X (bref_display r) = Some (map char_of (bref_bytes r))"
  shows "bref_try_from X (bref_display r) = Inr r \<and> length (bref_display r) = 12
    \<and> list_all is_hex_char (bref_display r)"
proof -
  have "list_all (\<lambda>n. n < 256) (bref_bytes r)"
    by (auto simp: bref_bytes_def list_all_iff)
  then have "map (of_char :: char \<Rightarrow> nat) (map char_of (bref_bytes r)) = bref_bytes r"
    by (auto simp: list_all_iff intro!: map_idI)
  with assms show ?thesis
    by (simp add: bref_try_from_def bref_from_bytes_bytes list_all_iff bref_display_hex)
qed

definition id_ext_example :: id_ext where
  "id_ext_example =
     \<lparr>uuid_new_v5 = (\<lambda>ns name. ns + of_nat (sum_list (map of_char name))),
      uuid_now_v6 = (\<lambda>now node. ucast node),
      uuid_parse = (\<lambda>s. if s = ''0-1'' then Some 1 else None),
      uuid_hyphenated = (\<lambda>w. ''0-1''),
      hex_decode = (\<lambda>s. if s = ''00000000002a'' then Some (map char_of [0, 0, 0, 0, 0, 42 :: nat])
                        else None)\<rparr>"

theorem bref_roundtrip_witness: "bref_try_from id_ext_example ''00000000002a'' = Inr (Bref 42)"
proof -
  have d: "bref_display (Bref 42) = ''00000000002a''"
    by (simp add: bref_display_def bref_bytes_list hex_digit_def)
  have "hex_decode id_ext_example (bref_display (Bref 42))
      = Some (map char_of (bref_bytes (Bref 42)))"
    unfolding d by (simp add: id_ext_example_def bref_bytes_list)
  from bref_roundtrip [OF this] show ?thesis unfolding d by simp
qed

end
