(* ===== verification/PathOps.thy ===== *)
theory PathOps
  imports AnchorPaths Ids
begin

text \<open>
  Path arithmetic (\<open>paths/path.rs\<close>): anchors made from titles, normalisation, joining, relative
  paths, canonical paths.

  \<open>chars()\<close> splits a string into the UTF-8 encodings of its characters. The \<open>nfkc\<close> of the
  \<open>unicode_normalization\<close> crate and the Unicode tables behind \<open>to_lowercase\<close> and
  \<open>is_alphanumeric\<close> beyond ASCII are the fields that \<open>text_ext\<close> adds to \<open>id_ext\<close>.
\<close>

section \<open>Characters\<close>

record text_ext = id_ext +
  nfkc :: "string \<Rightarrow> string"
  lowercase_wide :: "string \<Rightarrow> string"
  alphanumeric_wide :: "string \<Rightarrow> bool"

definition is_continuation :: "char \<Rightarrow> bool" where
  "is_continuation c \<longleftrightarrow> 128 \<le> (of_char c :: nat) \<and> of_char c < (192 :: nat)"

fun utf8_chars :: "string \<Rightarrow> string list" where
  "utf8_chars [] = []"
| "utf8_chars (c # cs) =
     (case utf8_chars cs of
        [] \<Rightarrow> [[c]]
      | (d # ds) # rest \<Rightarrow>
          if is_continuation d then (c # d # ds) # rest else [c] # (d # ds) # rest
      | [] # rest \<Rightarrow> [c] # rest)"

text \<open>\<open>char::is_whitespace\<close> (Unicode \<open>White_Space\<close>) on encoded characters.\<close>

definition is_whitespace :: "string \<Rightarrow> bool" where
  "is_whitespace ch \<longleftrightarrow>
     map of_char ch \<in>
       {[9], [10], [11], [12], [13], [32], [194, 133], [194, 160], [225, 154, 128 :: nat]}
       \<union> (\<lambda>n. [226, 128, n]) ` ({128..138} \<union> {168, 169, 175})
       \<union> {[226, 129, 159], [227, 128, 128]}"

definition trim :: "string \<Rightarrow> string" where
  "trim s = concat (rev (dropWhile is_whitespace (rev (dropWhile is_whitespace (utf8_chars s)))))"

definition to_lowercase :: "'a text_ext_scheme \<Rightarrow> string \<Rightarrow> string" where
  "to_lowercase X s =
     (if list_all is_ascii s then map to_ascii_lower s else lowercase_wide X s)"

definition is_alphanumeric :: "'a text_ext_scheme \<Rightarrow> string \<Rightarrow> bool" where
  "is_alphanumeric X ch =
     (case ch of
        [c] \<Rightarrow> if is_ascii c then is_ascii_alphabetic c \<or> is_ascii_digit c
                else alphanumeric_wide X ch
      | _ \<Rightarrow> alphanumeric_wide X ch)"

section \<open>Anchors\<close>

definition hyphen :: string where
  "hyphen = ''-''"

definition anchor_char :: "'a text_ext_scheme \<Rightarrow> string \<Rightarrow> bool" where
  "anchor_char X ch \<longleftrightarrow>
     is_alphanumeric X ch \<or> ch \<in> set (map (\<lambda>c. [c]) ''-._()[]@'')"

definition whitespace_to_hyphen :: "string \<Rightarrow> string" where
  "whitespace_to_hyphen ch =
     (case ch of [c] \<Rightarrow> if is_ascii_whitespace c then hyphen else ch | _ \<Rightarrow> ch)"

fun collapse_hyphens :: "bool \<Rightarrow> string list \<Rightarrow> string list" where
  "collapse_hyphens prev_hyphen [] = []"
| "collapse_hyphens prev_hyphen (ch # chs) =
     (if ch = hyphen
      then if prev_hyphen then collapse_hyphens True chs
           else ch # collapse_hyphens True chs
      else ch # collapse_hyphens False chs)"

definition trim_hyphens :: "string list \<Rightarrow> string list" where
  "trim_hyphens chs =
     rev (dropWhile (\<lambda>ch. ch = hyphen) (rev (dropWhile (\<lambda>ch. ch = hyphen) chs)))"

definition anchor_chars :: "'a text_ext_scheme \<Rightarrow> string \<Rightarrow> string list" where
  "anchor_chars X title =
     (let s = to_lowercase X (nfkc X (trim title));
          kept = filter (anchor_char X) (map whitespace_to_hyphen (utf8_chars s))
      in trim_hyphens (collapse_hyphens False kept))"

definition to_anchor :: "'a text_ext_scheme \<Rightarrow> string \<Rightarrow> string" where
  "to_anchor X title = concat (anchor_chars X title)"

definition as_anchor :: "'a text_ext_scheme \<Rightarrow> string \<Rightarrow> string" where
  "as_anchor X a =
     (let anchorized = to_anchor X a in if anchorized \<noteq> [] then ''#'' @ anchorized else [])"

definition as_extension :: "string \<Rightarrow> string" where
  "as_extension e = (if e \<noteq> [] then ''.'' @ e else [])"

section \<open>Normalisation\<close>

definition dot :: string where
  "dot = ''.''"

definition dotdot :: string where
  "dotdot = ''..''"

lemma dots [simp]: "dot \<noteq> []" "dotdot \<noteq> []" "dot \<noteq> dotdot" "dotdot \<noteq> dot"
  "[] \<noteq> dot" "[] \<noteq> dotdot"
  by (simp_all add: dot_def dotdot_def)

record norm_state =
  components :: "string list"
  final_components :: "string list"
  pop_dist :: nat

definition norm_init :: norm_state where
  "norm_init = \<lparr>components = [], final_components = [], pop_dist = 0\<rparr>"

definition norm_step :: "nat \<times> string \<Rightarrow> norm_state \<Rightarrow> norm_state" where
  "norm_step ip st =
     (case ip of (idx, part) \<Rightarrow>
        if part = [] then
          if idx = 0 then st\<lparr>components := components st @ [[]]\<rparr> else st
        else if part = dot then st
        else if part = dotdot then st\<lparr>pop_dist := pop_dist st + 1\<rparr>
        else
          (let pop_diff = (if pop_dist st > length (components st)
                           then pop_dist st - length (components st) else 0)
           in if pop_diff > 0 then
                st\<lparr>final_components := final_components st @ replicate pop_diff dotdot,
                   components := [part], pop_dist := 0\<rparr>
              else if pop_dist st > 0 then
                let i = length (components st) - pop_dist st
                in if part = components st ! i
                   then st\<lparr>pop_dist := pop_dist st - 1\<rparr>
                   else st\<lparr>components := take i (components st) @ [part], pop_dist := 0\<rparr>
              else st\<lparr>components := components st @ [part]\<rparr>))"

definition norm_finish :: "norm_state \<Rightarrow> string list" where
  "norm_finish st =
     (if pop_dist st > length (components st)
      then final_components st @ replicate (pop_dist st - length (components st)) dotdot
      else final_components st @ take (length (components st) - pop_dist st) (components st))"

definition normalize_parts :: "string list \<Rightarrow> string list" where
  "normalize_parts parts = norm_finish (fold norm_step (List.enumerate 0 parts) norm_init)"

definition url_prefix :: "anchor_path \<Rightarrow> string" where
  "url_prefix ap =
     (case host_sep ap of
        Some host_end \<Rightarrow> str_slice (ap_path ap) 0 host_end
      | None \<Rightarrow> (case sch_sep ap of
                   Some sch_idx \<Rightarrow> str_slice (ap_path ap) 0 (sch_idx + 1)
                 | None \<Rightarrow> []))"

definition normalize :: "anchor_path \<Rightarrow> anchor_path" where
  "normalize ap =
     (let fp = str_join ''/'' (normalize_parts (str_split CHR ''/'' (filepath ap)));
          res = url_prefix ap @ fp;
          res = (if parameters ap \<noteq> [] then res @ ''?'' @ parameters ap else res);
          res = (if anchor ap \<noteq> [] then res @ ''#'' @ anchor ap else res)
      in ap_new res)"

section \<open>Joining, relative and canonical paths\<close>

definition join :: "'a text_ext_scheme \<Rightarrow> anchor_path \<Rightarrow> string \<Rightarrow> anchor_path" where
  "join X ap end_ref =
     (let e = ap_new end_ref
      in if is_absolute e then ap_new (ap_path e)
         else if ap_path e = [] then ap_new (ap_path ap)
         else let pieces =
                (if dir ap \<noteq> [] then [dir ap] else [])
                @ (if dir e \<noteq> [] then [dir e] else [])
                @ (if filename e \<noteq> [] then [filename e] else [])
                @ (if filepath e = [] \<and> anchor e \<noteq> [] \<and> filename ap \<noteq> []
                   then [filename ap] else []);
              fp = normalize (ap_new (str_join ''/'' pieces))
         in ap_new (ap_path fp @ as_anchor X (anchor e)))"

fun common_len :: "string list \<Rightarrow> string list \<Rightarrow> nat" where
  "common_len (f # fs) (t # ts) = (if f = t \<and> f \<noteq> [] then Suc (common_len fs ts) else 0)"
| "common_len _ _ = 0"

definition rel_parts :: "string list \<Rightarrow> string list \<Rightarrow> string list" where
  "rel_parts from_parts to_parts =
     (let c = common_len from_parts to_parts
      in replicate (length from_parts - c) dotdot @ drop c to_parts)"

definition nonempty_parts :: "string \<Rightarrow> string list" where
  "nonempty_parts s = filter (\<lambda>p. p \<noteq> []) (str_split CHR ''/'' s)"

definition path_to :: "'a text_ext_scheme \<Rightarrow> anchor_path \<Rightarrow> string \<Rightarrow> bool \<Rightarrow> string" where
  "path_to X ap to_ref rooted =
     (let normalized_from =
            (if rooted \<and> is_absolute ap
             then ap_path (normalize (ap_new (trim_start_matches CHR ''/'' (ap_path ap))))
             else ap_path (normalize ap));
          normalized_to =
            (if rooted then ap_path (normalize (ap_new (trim_start_matches CHR ''/'' to_ref)))
             else ap_path (normalize (ap_new to_ref)));
          from_clean = ap_new normalized_from;
          to_clean = ap_new normalized_to
      in if starts_with (ap_path to_clean) ''#''
            \<or> is_absolute to_clean \<and> \<not> is_absolute from_clean
            \<or> rooted \<and> starts_with (ap_path to_clean) ''../''
         then normalized_to
         else
           let joined_string =
                 (if rooted then normalized_to
                  else ap_path (join X from_clean (ap_path to_clean)));
               joined = ap_new joined_string
           in if filepath joined = filepath from_clean then as_anchor X (anchor joined)
              else if dir joined = dir from_clean
              then filename joined @ as_anchor X (anchor joined)
              else
                let from_parts = nonempty_parts (dir from_clean);
                    to_parts = nonempty_parts (dir joined)
                in if common_len from_parts to_parts = 0 \<and> is_absolute from_clean
                   then joined_string
                   else str_join ''/'' (rel_parts from_parts to_parts)
                        @ (if filename joined \<noteq> [] then ''/'' else [])
                        @ filename joined @ as_anchor X (anchor joined))"

definition ap_strip_prefix :: "anchor_path \<Rightarrow> string \<Rightarrow> string option" where
  "ap_strip_prefix ap pre =
     map_option (trim_start_matches CHR ''/'')
       (strip_prefix_str (filepath (ap_new pre)) (ap_path ap))"

definition canonicalize :: "'a text_ext_scheme \<Rightarrow> anchor_path \<Rightarrow> string" where
  "canonicalize X ap =
     (if has_schema ap then []
      else let fp = filepath ap;
               stripped =
                 (if 3 \<le> length fp \<and> is_ascii_alphabetic (fp ! 0) \<and> fp ! 1 = CHR '':''
                     \<and> fp ! 2 = CHR ''/''
                  then drop 3 fp else trim_start_matches CHR ''/'' fp)
           in stripped @ as_anchor X (anchor ap))"

definition replace_extension :: "'a text_ext_scheme \<Rightarrow> anchor_path \<Rightarrow> string \<Rightarrow> string" where
  "replace_extension X ap new_extension =
     (if ext ap = [] then ap_path ap
      else str_replace (''.'' @ ext ap) (''.'' @ new_extension) (filepath ap)
           @ as_anchor X (anchor ap))"

section \<open>Normalisation against a reference\<close>

text \<open>
  The textbook rule: a \<open>..\<close> removes the component before it, or, with none left, is counted as
  one more leading \<open>..\<close>. \<open>normalize\<close> delays the removals in \<open>pop_dist\<close>; the abstraction performs
  them.
\<close>

definition eager_step :: "nat \<times> string \<Rightarrow> nat \<times> string list \<Rightarrow> nat \<times> string list" where
  "eager_step ip us =
     (case ip of (idx, part) \<Rightarrow> case us of (ups, stack) \<Rightarrow>
        if part = [] then (ups, if idx = 0 then stack @ [[]] else stack)
        else if part = dot then us
        else if part = dotdot then
          (if stack = [] then (ups + 1, []) else (ups, butlast stack))
        else (ups, stack @ [part]))"

definition eager_parts :: "string list \<Rightarrow> nat \<times> string list" where
  "eager_parts parts = fold eager_step (List.enumerate 0 parts) (0, [])"

definition norm_abs :: "norm_state \<Rightarrow> nat \<times> string list" where
  "norm_abs st =
     (length (final_components st) + (pop_dist st - length (components st)),
      take (length (components st) - pop_dist st) (components st))"

definition norm_inv :: "norm_state \<Rightarrow> bool" where
  "norm_inv st \<longleftrightarrow> (\<forall>p\<in>set (final_components st). p = dotdot)"

lemma norm_inv_step: "norm_inv st \<Longrightarrow> norm_inv (norm_step ip st)"
  by (cases ip) (auto simp: norm_inv_def norm_step_def Let_def)

lemma replicate_dots: "norm_inv st \<Longrightarrow>
    replicate (length (final_components st)) dotdot = final_components st"
  by (metis norm_inv_def replicate_length_same)

text \<open>The first component may be empty; then nothing has been read or removed before it.\<close>

lemma norm_abs_step:
  assumes "fst ip = 0 \<Longrightarrow> st = norm_init"
  shows "norm_abs (norm_step ip st) = eager_step ip (norm_abs st)"
proof -
  obtain idx part where ip: "ip = (idx, part)" by (cases ip)
  let ?c = "components st" and ?k = "pop_dist st"
  consider "part = []" | "part = dot" | "part = dotdot"
    | (ordinary) "part \<noteq> []" "part \<noteq> dot" "part \<noteq> dotdot" by blast
  then show ?thesis
  proof cases
    case 1
    with assms show ?thesis
      by (auto simp: ip norm_step_def eager_step_def norm_abs_def norm_init_def)
  next
    case 2
    then show ?thesis by (simp add: ip norm_step_def eager_step_def norm_abs_def)
  next
    case 3
    have "take (length ?c - Suc ?k) ?c = butlast (take (length ?c - ?k) ?c)"
      by (simp add: butlast_take)
    with 3 show ?thesis by (auto simp: ip norm_step_def eager_step_def norm_abs_def)
  next
    case ordinary
    consider "?k > length ?c" | "0 < ?k" "?k \<le> length ?c" | "?k = 0" by linarith
    then show ?thesis
    proof cases
      case 2
      have "take (Suc (length ?c - ?k)) ?c = take (length ?c - ?k) ?c @ [?c ! (length ?c - ?k)]"
        using 2 by (intro take_Suc_conv_app_nth) linarith
      with 2 ordinary show ?thesis
        by (simp add: ip norm_step_def eager_step_def norm_abs_def Let_def Suc_diff_le)
    qed (use ordinary in \<open>simp_all add: ip norm_step_def eager_step_def norm_abs_def Let_def\<close>)
  qed
qed

lemma norm_finish_abs:
  "norm_inv st \<Longrightarrow> norm_finish st = (case norm_abs st of (u, stack) \<Rightarrow> replicate u dotdot @ stack)"
  using replicate_dots [of st] by (auto simp: norm_finish_def norm_abs_def replicate_add)

lemma norm_fold:
  assumes "list_all (\<lambda>ip. fst ip \<noteq> 0) ips" "norm_inv st"
  shows "norm_abs (fold norm_step ips st) = fold eager_step ips (norm_abs st)
    \<and> norm_inv (fold norm_step ips st)"
  using assms
proof (induction ips arbitrary: st)
  case (Cons ip ips)
  then show ?case using norm_abs_step [of ip st] norm_inv_step [of st ip] by simp
qed simp

lemma enumerate_Suc_pos: "list_all (\<lambda>ip. fst ip \<noteq> 0) (List.enumerate (Suc n) xs)"
  by (auto simp: list_all_iff in_set_enumerate_eq)

lemma normalize_parts_eq:
  "normalize_parts parts = (case eager_parts parts of (u, stack) \<Rightarrow> replicate u dotdot @ stack)"
proof -
  have init: "norm_inv norm_init" "norm_abs norm_init = (0, [])"
    by (simp_all add: norm_inv_def norm_init_def norm_abs_def)
  show ?thesis
  proof (cases parts)
    case Nil
    then show ?thesis using init
      by (simp add: normalize_parts_def eager_parts_def norm_finish_abs)
  next
    case (Cons p ps)
    let ?ips = "List.enumerate (Suc 0) ps" and ?st = "norm_step (0, p) norm_init"
    have "norm_abs ?st = eager_step (0, p) (0, [])" "norm_inv ?st"
      using init by (simp_all add: norm_abs_step norm_inv_step)
    with norm_fold [OF enumerate_Suc_pos, of ?st 0 ps]
    show ?thesis by (simp add: normalize_parts_def eager_parts_def Cons norm_finish_abs)
  qed
qed

definition ordinary :: "string \<Rightarrow> bool" where
  "ordinary p \<longleftrightarrow> p \<noteq> [] \<and> p \<noteq> dot \<and> p \<noteq> dotdot"

lemma ordinary_neq_Nil [simp]: "\<not> ordinary []"
  by (simp add: ordinary_def)

lemma eager_step_simps:
  "eager_step (idx, dot) us = us"
  "eager_step (idx, dotdot) (u, stack) =
     (if stack = [] then (u + 1, []) else (u, butlast stack))"
  "eager_step (0, []) (u, stack) = (u, stack @ [[]])"
  "ordinary p \<Longrightarrow> eager_step (idx, p) (u, stack) = (u, stack @ [p])"
  by (simp_all add: eager_step_def ordinary_def split: prod.splits)

lemma eager_ordinary:
  "list_all ordinary xs \<Longrightarrow>
     fold eager_step (List.enumerate n xs) (u, stack) = (u, stack @ xs)"
  by (induction xs arbitrary: n stack) (auto simp: eager_step_simps)

lemma eager_dotdots:
  "fold eager_step (List.enumerate n (replicate k dotdot)) (u, []) = (u + k, [])"
  by (induction k arbitrary: n u) (auto simp: eager_step_simps)

lemma eager_pops:
  "fold eager_step (List.enumerate n (replicate k dotdot)) (u, stack) =
     (u + (k - length stack), take (length stack - k) stack)"
proof (induction k arbitrary: n u stack)
  case (Suc k)
  have "take (length stack - Suc k) stack = take (length (butlast stack) - k) (butlast stack)"
    by (simp add: butlast_conv_take min_def)
  then show ?case
    by (cases stack) (simp_all add: eager_step_simps Suc.IH)
qed simp

lemma enumerate_append: "List.enumerate n (xs @ ys) = List.enumerate n xs @ List.enumerate (n + length xs) ys"
  by (induction xs arbitrary: n) auto

text \<open>A stack in normal form: ordinary components, after an empty root where none was removed.\<close>

definition stack_ok :: "nat \<times> string list \<Rightarrow> bool" where
  "stack_ok us =
     (case us of (u, stack) \<Rightarrow>
        list_all ordinary stack
        \<or> (u = 0 \<and> stack \<noteq> [] \<and> hd stack = [] \<and> list_all ordinary (tl stack)))"

lemma stack_ok_step:
  assumes "stack_ok us" "fst ip = 0 \<Longrightarrow> us = (0, [])"
  shows "stack_ok (eager_step ip us)"
proof -
  obtain idx part u stack where eq: "ip = (idx, part)" "us = (u, stack)" by (cases ip; cases us)
  have butlast: "list_all ordinary xs \<Longrightarrow> list_all ordinary (butlast xs)" for xs
    by (auto simp: list_all_iff dest: in_set_butlastD)
  have "stack_ok (u, butlast stack)"
    using assms(1) butlast by (cases stack) (auto simp: stack_ok_def eq)
  with assms show ?thesis
    by (cases stack) (auto simp: eq eager_step_def stack_ok_def ordinary_def)
qed

lemma stack_ok_fold:
  "list_all (\<lambda>ip. fst ip \<noteq> 0) ips \<Longrightarrow> stack_ok us \<Longrightarrow> stack_ok (fold eager_step ips us)"
proof (induction ips arbitrary: us)
  case (Cons ip ips)
  then show ?case using stack_ok_step [of us ip] by simp
qed simp

lemma stack_ok_eager: "stack_ok (eager_parts parts)"
proof (cases parts)
  case Nil
  then show ?thesis by (simp add: eager_parts_def stack_ok_def)
next
  case (Cons p ps)
  have "stack_ok (eager_step (0, p) (0, []))"
    by (rule stack_ok_step) (simp_all add: stack_ok_def)
  then show ?thesis
    unfolding eager_parts_def Cons using stack_ok_fold [OF enumerate_Suc_pos] by simp
qed

lemma eager_of_stack:
  assumes "stack_ok (u, stack)"
  shows "eager_parts (replicate u dotdot @ stack) = (u, stack)"
proof (cases "list_all ordinary stack")
  case True
  then show ?thesis by (simp add: eager_parts_def enumerate_append eager_dotdots eager_ordinary)
next
  case False
  with assms have root: "u = 0" "stack = [] # tl stack" "list_all ordinary (tl stack)"
    by (auto simp: stack_ok_def) (metis list.collapse)
  have "eager_parts ([] # tl stack) = (0, [] # tl stack)"
    using root(3) by (simp add: eager_parts_def eager_step_simps eager_ordinary)
  with root(1,2) show ?thesis by simp
qed

lemma normalize_parts_of_stack:
  "stack_ok (u, stack) \<Longrightarrow> normalize_parts (replicate u dotdot @ stack) = replicate u dotdot @ stack"
  by (simp add: normalize_parts_eq eager_of_stack)

lemma common_len_le: "common_len xs ys \<le> length xs \<and> common_len xs ys \<le> length ys"
  by (induction xs ys rule: common_len.induct) auto

lemma common_len_take: "take (common_len xs ys) xs = take (common_len xs ys) ys"
  by (induction xs ys rule: common_len.induct) auto

lemma ordinary_single: "is_ascii_alphabetic c \<Longrightarrow> ordinary [c]"
  by (auto simp: ordinary_def dot_def dotdot_def is_ascii_alphabetic_def is_ascii_upper_def
      is_ascii_lower_def between_char_def)

section \<open>Properties of normalisation\<close>

text \<open>
  C5. \<open>normalize\<close> computes the textbook result: although it delays the removals that \<open>..\<close> asks for
  and may keep a component it is about to re-add, its components are those of the rule that pops
  one component at each \<open>..\<close>, and puts the \<open>..\<close> that found nothing to pop in front.
\<close>

theorem normalize_parts_eager:
  "normalize_parts parts = (case eager_parts parts of (u, stack) \<Rightarrow> replicate u dotdot @ stack)"
  by (rule normalize_parts_eq)

text \<open>
  Normalisation is idempotent, and its result is a run of \<open>..\<close> followed by components none of
  which is \<open>.\<close> or \<open>..\<close>, only the first of which may be empty (the root of an absolute path).
\<close>

theorem normalize_parts_normal_form:
  "normalize_parts (normalize_parts parts) = normalize_parts parts
   \<and> (\<exists>u stack. normalize_parts parts = replicate u dotdot @ stack \<and> dot \<notin> set stack
        \<and> dotdot \<notin> set stack \<and> [] \<notin> set (tl (normalize_parts parts)))"
proof -
  obtain u stack where e: "eager_parts parts = (u, stack)" by fastforce
  then have ok: "stack_ok (u, stack)" using stack_ok_eager [of parts] by simp
  have n: "normalize_parts parts = replicate u dotdot @ stack"
    by (simp add: normalize_parts_eq e)
  have mem: "x = [] \<or> ordinary x" if "x \<in> set stack" for x
    using ok that by (cases stack) (auto simp: stack_ok_def list_all_iff)
  have "dot \<notin> set stack" "dotdot \<notin> set stack"
    using mem [of dot] mem [of dotdot] by (auto simp: ordinary_def)
  moreover have "[] \<notin> set (tl (normalize_parts parts))"
    using ok ordinary_neq_Nil by (cases u; cases stack) (auto simp: n stack_ok_def list_all_iff)
  moreover have "normalize_parts (normalize_parts parts) = normalize_parts parts"
    unfolding n by (rule normalize_parts_of_stack [OF ok])
  ultimately show ?thesis using n by blast
qed

text \<open>
  A relative path leads back to its target: the components \<open>path_to\<close> computes from one
  directory to another, appended to the first and normalised, are the second.
\<close>

theorem rel_parts_resolve:
  assumes "list_all ordinary from_parts" "list_all ordinary to_parts"
  shows "normalize_parts (from_parts @ rel_parts from_parts to_parts) = to_parts"
proof -
  let ?c = "common_len from_parts to_parts"
  let ?n = "length from_parts"
  have c: "?c \<le> ?n" using common_len_le by blast
  have tail: "list_all ordinary (drop ?c to_parts)"
    using assms(2) by (auto simp: list_all_iff dest: in_set_dropD)
  have "eager_parts (from_parts @ rel_parts from_parts to_parts)
      = (0, take ?c from_parts @ drop ?c to_parts)"
    using assms(1) c tail
    by (simp add: eager_parts_def rel_parts_def Let_def enumerate_append eager_ordinary eager_pops)
  then have "normalize_parts (from_parts @ rel_parts from_parts to_parts)
      = take ?c from_parts @ drop ?c to_parts"
    by (simp add: normalize_parts_eq)
  also have "\<dots> = to_parts" by (metis common_len_take append_take_drop_id)
  finally show ?thesis .
qed

theorem rel_parts_resolve_witness:
  "normalize_parts ([''a'', ''b'', ''c''] @ [dotdot, dotdot, ''d'']) = [''a'', ''d'']"
proof -
  have "rel_parts [''a'', ''b'', ''c''] [''a'', ''d''] = [dotdot, dotdot, ''d'']"
    by (simp add: rel_parts_def numeral_2_eq_2)
  moreover have "list_all ordinary [''a'', ''b'', ''c'']" "list_all ordinary [''a'', ''d'']"
    by (simp_all add: ordinary_def dot_def dotdot_def)
  ultimately show ?thesis using rel_parts_resolve [of "[''a'', ''b'', ''c'']" "[''a'', ''d'']"]
    by simp
qed

text \<open>
  The leading empty component that stands for the root is popped by \<open>..\<close> like any other, so the
  normal form of an absolute path that climbs above its root is relative.
\<close>

lemma normalize_drops_root: "ap_path (normalize (ap_new ''/../a'')) = ''a''"
  by code_simp

section \<open>Properties of anchors\<close>

lemma dropWhile_idem: "dropWhile P (dropWhile P xs) = dropWhile P xs"
  by (induction xs) auto

lemma hd_dropWhile_not: "dropWhile P xs \<noteq> [] \<Longrightarrow> \<not> P (hd (dropWhile P xs))"
  by (rule hd_dropWhile)

lemma dropWhile_rev_suffix:
  "xs = [] \<or> \<not> P (hd xs) \<Longrightarrow> dropWhile P (rev (dropWhile P (rev xs))) = rev (dropWhile P (rev xs))"
proof (cases "rev (dropWhile P (rev xs))")
  case Nil
  show ?thesis unfolding Nil by simp
next
  case (Cons y ys)
  assume h: "xs = [] \<or> \<not> P (hd xs)"
  have "suffix (dropWhile P (rev xs)) (rev xs)" by (rule suffix_dropWhile)
  then have "prefix (rev (dropWhile P (rev xs))) xs" by (simp add: suffix_to_prefix)
  then have "hd xs = y" "xs \<noteq> []" using Cons by (auto simp: prefix_def)
  with h have "\<not> P y" by simp
  then show ?thesis by (simp only: Cons dropWhile.simps if_False)
qed

lemma trim_hyphens_idem: "trim_hyphens (trim_hyphens chs) = trim_hyphens chs"
proof -
  let ?P = "\<lambda>ch. ch = hyphen"
  let ?xs = "dropWhile ?P chs"
  have "?xs = [] \<or> \<not> ?P (hd ?xs)" using hd_dropWhile_not [of ?P chs] by blast
  from dropWhile_rev_suffix [of ?xs ?P, OF this] show ?thesis
    by (simp add: trim_hyphens_def dropWhile_idem)
qed

lemma collapse_idem: "collapse_hyphens b (collapse_hyphens b chs) = collapse_hyphens b chs"
  by (induction b chs rule: collapse_hyphens.induct) auto

lemma collapse_length: "length (collapse_hyphens b chs) \<le> length chs"
  by (induction b chs rule: collapse_hyphens.induct) auto

lemma collapse_too_long [simp]: "collapse_hyphens b chs \<noteq> x # chs"
  using collapse_length [of b chs] by (metis impossible_Cons)

lemma set_collapse: "set (collapse_hyphens b chs) \<subseteq> set chs"
  by (induction b chs rule: collapse_hyphens.induct) auto

lemma set_trim_hyphens: "set (trim_hyphens chs) \<subseteq> set chs"
  by (auto simp: trim_hyphens_def dest!: set_dropWhileD)

lemma collapse_weaken:
  "collapse_hyphens True chs = chs \<Longrightarrow> collapse_hyphens False chs = chs"
  by (cases chs) (auto split: if_splits)

lemma collapse_fixed_Cons:
  "collapse_hyphens b (ch # chs) = ch # chs \<Longrightarrow> collapse_hyphens (ch = hyphen) chs = chs"
  by (auto split: if_splits)

lemma collapse_fixed_tl:
  assumes "collapse_hyphens b (ch # chs) = ch # chs"
  shows "collapse_hyphens False chs = chs"
  using collapse_fixed_Cons [OF assms] by (cases "ch = hyphen") (auto intro: collapse_weaken)

lemma collapse_fixed_suffix:
  "collapse_hyphens False (xs @ ys) = xs @ ys \<Longrightarrow> collapse_hyphens False ys = ys"
proof (induction xs)
  case (Cons x xs)
  then have "collapse_hyphens False (xs @ ys) = xs @ ys"
    using collapse_fixed_tl [of False x "xs @ ys"] by simp
  then show ?case by (rule Cons.IH)
qed simp

lemma collapse_fixed_prefix:
  "collapse_hyphens b (xs @ ys) = xs @ ys \<Longrightarrow> collapse_hyphens b xs = xs"
  by (induction xs arbitrary: b) (auto split: if_splits)

lemma collapse_trim: "collapse_hyphens False chs = chs \<Longrightarrow>
    collapse_hyphens False (trim_hyphens chs) = trim_hyphens chs"
proof -
  let ?P = "\<lambda>ch :: string. ch = hyphen"
  assume fixed: "collapse_hyphens False chs = chs"
  have "suffix (dropWhile ?P chs) chs" by (rule suffix_dropWhile)
  with fixed have 1: "collapse_hyphens False (dropWhile ?P chs) = dropWhile ?P chs"
    by (metis suffix_def collapse_fixed_suffix)
  have "prefix (trim_hyphens chs) (dropWhile ?P chs)"
    using suffix_dropWhile [of ?P "rev (dropWhile ?P chs)"]
    by (simp add: trim_hyphens_def suffix_to_prefix)
  with 1 show ?thesis by (auto simp: prefix_def intro: collapse_fixed_prefix)
qed

lemma anchor_chars_fixed:
  "trim_hyphens (anchor_chars X title) = anchor_chars X title"
  "collapse_hyphens False (anchor_chars X title) = anchor_chars X title"
  by (simp_all add: anchor_chars_def Let_def trim_hyphens_idem collapse_trim collapse_idem)

lemma anchor_chars_kept: "list_all (anchor_char X) (anchor_chars X title)"
  using set_trim_hyphens set_collapse
  by (fastforce simp: anchor_chars_def Let_def list_all_iff)

text \<open>
  Whatever the title, an anchor consists of alphanumeric characters and the punctuation
  \<open>-._()[]@\<close> only, has no two hyphens in a row (collapsing changes nothing) and none at either end
  (trimming changes nothing); no white space is left in it.
\<close>

theorem anchor_chars_form:
  "list_all (anchor_char X) (anchor_chars X title)
   \<and> collapse_hyphens False (anchor_chars X title) = anchor_chars X title
   \<and> trim_hyphens (anchor_chars X title) = anchor_chars X title"
  using anchor_chars_fixed anchor_chars_kept by blast

lemma utf8_chars_ascii: "list_all is_ascii s \<Longrightarrow> utf8_chars s = map (\<lambda>c. [c]) s"
proof (induction s)
  case (Cons c s)
  then show ?case by (cases s) (auto simp: is_ascii_def is_continuation_def)
qed simp

lemma concat_singletons [simp]: "concat (map (\<lambda>c. [c]) s) = s"
  by (induction s) auto

lemma lower_ascii: "is_ascii c \<Longrightarrow> is_ascii (to_ascii_lower c)"
  by (auto simp: to_ascii_lower_def is_ascii_def is_ascii_upper_def between_char_def)

lemma lower_lower: "to_ascii_lower (to_ascii_lower c) = to_ascii_lower c"
  by (auto simp: to_ascii_lower_def is_ascii_upper_def between_char_def)

text \<open>White space is what \<open>anchor_char\<close> never keeps, so an ASCII anchor has nothing to trim.\<close>

lemma ascii_anchor_char_not_space:
  "is_ascii c \<Longrightarrow> anchor_char X [c] \<Longrightarrow> \<not> is_whitespace [c] \<and> whitespace_to_hyphen [c] = [c]"
  by (auto simp: anchor_char_def is_alphanumeric_def is_whitespace_def whitespace_to_hyphen_def
      is_ascii_whitespace_def is_ascii_alphabetic_def is_ascii_upper_def is_ascii_lower_def
      is_ascii_digit_def between_char_def)

lemma trim_no_space: "list_all (\<lambda>ch. \<not> is_whitespace ch) (utf8_chars s) \<Longrightarrow> concat (utf8_chars s) = s
    \<Longrightarrow> trim s = s"
proof -
  assume no: "list_all (\<lambda>ch. \<not> is_whitespace ch) (utf8_chars s)" and cat: "concat (utf8_chars s) = s"
  have "dropWhile is_whitespace xs = xs" if "set xs \<subseteq> set (utf8_chars s)" for xs
    using that no by (cases xs) (auto simp: list_all_iff)
  then show ?thesis by (simp add: trim_def cat)
qed

lemma hyphen_ascii: "is_ascii CHR ''-''" "to_ascii_lower CHR ''-'' = CHR ''-''"
  by code_simp+

lemma whitespace_to_hyphen_ascii:
  assumes "is_ascii c" "to_ascii_lower c = c"
  shows "\<exists>d. whitespace_to_hyphen [c] = [d] \<and> is_ascii d \<and> to_ascii_lower d = d"
  using assms hyphen_ascii by (simp add: whitespace_to_hyphen_def hyphen_def)

lemma anchor_chars_ascii:
  assumes "list_all is_ascii (nfkc X (trim title))"
  obtains a where "anchor_chars X title = map (\<lambda>c. [c]) a" "list_all is_ascii a"
    "list_all (\<lambda>c. to_ascii_lower c = c) a" "list_all (\<lambda>c. anchor_char X [c]) a"
proof -
  let ?s = "map to_ascii_lower (nfkc X (trim title))"
  let ?src = "map whitespace_to_hyphen (map (\<lambda>c. [c]) ?s)"
  have s: "list_all is_ascii ?s" using assms by (auto simp: list_all_iff lower_ascii)
  then have eq: "anchor_chars X title
      = trim_hyphens (collapse_hyphens False (filter (anchor_char X) ?src))"
    using assms by (simp add: anchor_chars_def to_lowercase_def utf8_chars_ascii)
  have sub: "set (anchor_chars X title) \<subseteq> set ?src"
    unfolding eq using set_trim_hyphens set_collapse by fastforce
  have single: "\<exists>c. ch = [c] \<and> is_ascii c \<and> to_ascii_lower c = c" if "ch \<in> set ?src" for ch
  proof -
    from that obtain c where c: "c \<in> set (nfkc X (trim title))"
        "ch = whitespace_to_hyphen [to_ascii_lower c]" by auto
    have "is_ascii c" using assms c(1) by (simp add: list_all_iff)
    from whitespace_to_hyphen_ascii [OF lower_ascii [OF this] lower_lower] show ?thesis
      unfolding c(2) .
  qed
  let ?a = "map hd (anchor_chars X title)"
  have mem: "[hd ch] = ch \<and> is_ascii (hd ch) \<and> to_ascii_lower (hd ch) = hd ch \<and> anchor_char X ch"
    if "ch \<in> set (anchor_chars X title)" for ch
  proof -
    from that sub have "ch \<in> set ?src" by (rule subsetD [rotated])
    from single [OF this] show ?thesis
      using that anchor_chars_kept [of X title] by (auto simp: list_all_iff)
  qed
  have "map (\<lambda>c. [c]) ?a = anchor_chars X title"
    using mem by (auto intro!: map_idI)
  moreover have "list_all is_ascii ?a" "list_all (\<lambda>c. to_ascii_lower c = c) ?a"
    "list_all (\<lambda>c. anchor_char X [c]) ?a"
    using mem by (auto simp: list_all_iff)
  ultimately show ?thesis using that [of ?a] by simp
qed

text \<open>
  Making an anchor of an anchor changes nothing, for a title whose normal form is ASCII and a
  normalisation that leaves the resulting anchor alone (NFKC fixes ASCII text).
\<close>

theorem to_anchor_idempotent:
  assumes "list_all is_ascii (nfkc X (trim title))"
    and "nfkc X (to_anchor X title) = to_anchor X title"
  shows "to_anchor X (to_anchor X title) = to_anchor X title"
proof -
  obtain a where a: "anchor_chars X title = map (\<lambda>c. [c]) a" "list_all is_ascii a"
      "list_all (\<lambda>c. to_ascii_lower c = c) a" "list_all (\<lambda>c. anchor_char X [c]) a"
    using anchor_chars_ascii [OF assms(1)] .
  have t: "to_anchor X title = a" by (simp add: to_anchor_def a(1))
  note u = utf8_chars_ascii [OF a(2)]
  have ns: "list_all (\<lambda>ch. \<not> is_whitespace ch) (utf8_chars a)"
    using a(2,4) by (auto simp: u list_all_iff ascii_anchor_char_not_space [of _ X])
  have "map whitespace_to_hyphen (map (\<lambda>c. [c]) a) = map (\<lambda>c. [c]) a"
    using a(2,4) by (auto simp: list_all_iff ascii_anchor_char_not_space [of _ X])
  moreover have "filter (anchor_char X) (map (\<lambda>c. [c]) a) = map (\<lambda>c. [c]) a"
    using a(4) by (simp add: list_all_iff)
  ultimately have kept:
      "filter (anchor_char X) (map whitespace_to_hyphen (map (\<lambda>c. [c]) a)) = map (\<lambda>c. [c]) a"
    by (simp only:)
  have trim: "trim a = a" by (rule trim_no_space [OF ns]) (simp add: u)
  have low: "map to_ascii_lower a = a" using a(3) by (auto simp: list_all_iff intro!: map_idI)
  have "anchor_chars X a = trim_hyphens (collapse_hyphens False (map (\<lambda>c. [c]) a))"
    using assms(2) a(2) kept unfolding t
    by (simp add: anchor_chars_def trim to_lowercase_def low u)
  also have "\<dots> = map (\<lambda>c. [c]) a"
    using anchor_chars_fixed [of X title] by (simp add: a(1))
  finally have "to_anchor X a = a" unfolding to_anchor_def by simp
  then show ?thesis unfolding t .
qed

definition text_ext_example :: text_ext where
  "text_ext_example =
     id_ext.extend id_ext_example
       (text_ext.fields (\<lambda>s. s) (\<lambda>s. map to_ascii_lower s) (\<lambda>ch. False))"

theorem to_anchor_idempotent_witness:
  "to_anchor text_ext_example (to_anchor text_ext_example '' A - B! '') = ''a-b''"
proof -
  let ?X = text_ext_example
  have n: "nfkc ?X s = s" for s by (simp add: text_ext_example_def text_ext.defs id_ext.defs)
  have a: "to_anchor ?X '' A - B! '' = ''a-b''" by code_simp
  have "list_all is_ascii (trim '' A - B! '')" by code_simp
  from to_anchor_idempotent [of ?X "'' A - B! ''"] this show ?thesis
    by (simp add: n a)
qed

end
