(* ===== verification/Weights.thy ===== *)
theory Weights
  imports PathOps
begin

text \<open>
  Edge weights (\<open>properties.rs\<close>): \<open>toml\<close> values, the \<open>Weight\<close> of one relationship (a TOML table),
  the \<open>WeightKind\<close>s, and the \<open>WeightSet\<close> that labels an edge of the graph.

  A \<open>toml::Table\<close> is an ordered map (the crate's \<open>preserve_order\<close> feature is off). An \<open>f64\<close> is kept
  as its bit pattern.
\<close>

section \<open>TOML values\<close>

datatype toml =
    TString string
  | TInteger int
  | TFloat "64 word"
  | TBoolean bool
  | TDatetime string
  | TArray "toml list"
  | TTable "(string \<times> toml) list"

type_synonym table = "(string, toml) bmap"

text \<open>\<open>PartialEq\<close> of \<open>toml::Value\<close>, which is structural but for \<open>f64\<close>.\<close>

definition float_is_nan :: "64 word \<Rightarrow> bool" where
  "float_is_nan w \<longleftrightarrow> drop_bit 52 (take_bit 63 w) = 2047 \<and> take_bit 52 w \<noteq> 0"

definition float_eq :: "64 word \<Rightarrow> 64 word \<Rightarrow> bool" where
  "float_eq a b \<longleftrightarrow>
     \<not> float_is_nan a \<and> \<not> float_is_nan b \<and> (a = b \<or> take_bit 63 a = 0 \<and> take_bit 63 b = 0)"

fun toml_eq :: "toml \<Rightarrow> toml \<Rightarrow> bool"
  and toml_list_eq :: "toml list \<Rightarrow> toml list \<Rightarrow> bool"
  and toml_table_eq :: "(string \<times> toml) list \<Rightarrow> (string \<times> toml) list \<Rightarrow> bool" where
  "toml_eq (TString a) w = (case w of TString b \<Rightarrow> a = b | _ \<Rightarrow> False)"
| "toml_eq (TInteger a) w = (case w of TInteger b \<Rightarrow> a = b | _ \<Rightarrow> False)"
| "toml_eq (TFloat a) w = (case w of TFloat b \<Rightarrow> float_eq a b | _ \<Rightarrow> False)"
| "toml_eq (TBoolean a) w = (case w of TBoolean b \<Rightarrow> a = b | _ \<Rightarrow> False)"
| "toml_eq (TDatetime a) w = (case w of TDatetime b \<Rightarrow> a = b | _ \<Rightarrow> False)"
| "toml_eq (TArray a) w = (case w of TArray b \<Rightarrow> toml_list_eq a b | _ \<Rightarrow> False)"
| "toml_eq (TTable a) w = (case w of TTable b \<Rightarrow> toml_table_eq a b | _ \<Rightarrow> False)"
| "toml_list_eq [] [] = True"
| "toml_list_eq (a # as) (b # bs) = (toml_eq a b \<and> toml_list_eq as bs)"
| "toml_list_eq _ _ = False"
| "toml_table_eq [] [] = True"
| "toml_table_eq ((k, a) # as) ((l, b) # bs) = (k = l \<and> toml_eq a b \<and> toml_table_eq as bs)"
| "toml_table_eq _ _ = False"

text \<open>\<open>Value::try_into\<close> at the three types the code reads.\<close>

definition to_u16 :: "toml \<Rightarrow> u16 option" where
  "to_u16 v =
     (case v of TInteger i \<Rightarrow> if 0 \<le> i \<and> i < 2 ^ 16 then Some (of_int i) else None | _ \<Rightarrow> None)"

definition to_text :: "toml \<Rightarrow> string option" where
  "to_text v = (case v of TString s \<Rightarrow> Some s | _ \<Rightarrow> None)"

fun collect_text :: "toml list \<Rightarrow> string list option" where
  "collect_text [] = Some []"
| "collect_text (v # vs) =
     (case (to_text v, collect_text vs) of (Some s, Some ss) \<Rightarrow> Some (s # ss) | _ \<Rightarrow> None)"

definition to_text_vec :: "toml \<Rightarrow> string list option" where
  "to_text_vec v = (case v of TArray vs \<Rightarrow> collect_text vs | _ \<Rightarrow> None)"

definition from_u16 :: "u16 \<Rightarrow> toml" where
  "from_u16 n = TInteger (uint n)"

definition from_text_vec :: "string list \<Rightarrow> toml" where
  "from_text_vec ss = TArray (map TString ss)"

section \<open>Weight\<close>

record weight =
  w_payload :: table

definition WEIGHT_OWNED_BY :: string where "WEIGHT_OWNED_BY = ''owned_by''"
definition WEIGHT_SORT_KEY :: string where "WEIGHT_SORT_KEY = ''sort_key''"
definition WEIGHT_DOC_PATH :: string where "WEIGHT_DOC_PATH = ''doc_path''"
definition WEIGHT_DOC_PATHS :: string where "WEIGHT_DOC_PATHS = ''doc_paths''"
definition WEIGHT_LINK_TITLE :: string where "WEIGHT_LINK_TITLE = ''title''"

definition weight_get :: "(toml \<Rightarrow> 'a option) \<Rightarrow> weight \<Rightarrow> string \<Rightarrow> 'a option" where
  "weight_get try_into w key = Option.bind (bm_get (w_payload w) key) try_into"

definition weight_set_key :: "string \<Rightarrow> toml \<Rightarrow> weight \<Rightarrow> weight" where
  "weight_set_key key v w = w\<lparr>w_payload := bm_insert key v (w_payload w)\<rparr>"

definition weight_contains_key :: "weight \<Rightarrow> string \<Rightarrow> bool" where
  "weight_contains_key w key = bm_contains (w_payload w) key"

definition weight_default :: weight where
  "weight_default = \<lparr>w_payload = []\<rparr>"

definition weight_full :: weight where
  "weight_full = weight_set_key WEIGHT_SORT_KEY (from_u16 (2 ^ 16 - 1)) weight_default"

definition get_doc_paths :: "weight \<Rightarrow> string list" where
  "get_doc_paths w =
     (case weight_get to_text_vec w WEIGHT_DOC_PATHS of
        Some paths \<Rightarrow> paths
      | None \<Rightarrow> (case weight_get to_text w WEIGHT_DOC_PATH of
                   Some path \<Rightarrow> [path]
                 | None \<Rightarrow> []))"

definition set_doc_paths :: "string list \<Rightarrow> weight \<Rightarrow> weight" where
  "set_doc_paths paths w = weight_set_key WEIGHT_DOC_PATHS (from_text_vec paths) w"

definition sort_key :: "weight \<Rightarrow> u16 option" where
  "sort_key w = weight_get to_u16 w WEIGHT_SORT_KEY"

definition weight_eq :: "weight \<Rightarrow> weight \<Rightarrow> bool" where
  "weight_eq a b \<longleftrightarrow> sort_key a = sort_key b"

text \<open>\<open>Ord for Weight\<close>: that of \<open>Option<u16>\<close>, where \<open>None\<close> is the least.\<close>

definition weight_less_eq :: "weight \<Rightarrow> weight \<Rightarrow> bool" where
  "weight_less_eq a b \<longleftrightarrow>
     (case (sort_key a, sort_key b) of
        (None, _) \<Rightarrow> True | (Some _, None) \<Rightarrow> False | (Some m, Some n) \<Rightarrow> m \<le> n)"

section \<open>WeightKind\<close>

datatype weight_kind = Epistemic | Section | Pragmatic

definition weight_kind_rank :: "weight_kind \<Rightarrow> nat" where
  "weight_kind_rank k = (case k of Epistemic \<Rightarrow> 0 | Section \<Rightarrow> 1 | Pragmatic \<Rightarrow> 2)"

instantiation weight_kind :: linorder
begin

definition less_eq_weight_kind :: "weight_kind \<Rightarrow> weight_kind \<Rightarrow> bool" where
  "less_eq_weight_kind a b \<longleftrightarrow> weight_kind_rank a \<le> weight_kind_rank b"

definition less_weight_kind :: "weight_kind \<Rightarrow> weight_kind \<Rightarrow> bool" where
  "less_weight_kind a b \<longleftrightarrow> weight_kind_rank a < weight_kind_rank b"

instance
  by standard
    (auto simp: less_eq_weight_kind_def less_weight_kind_def weight_kind_rank_def
      split: weight_kind.splits)

end

lemma less_weight_kind_simps [simp]:
  "Epistemic < Section" "Epistemic < Pragmatic" "Section < Pragmatic"
  "\<not> Section < Epistemic" "\<not> Pragmatic < Epistemic" "\<not> Pragmatic < Section"
  by (simp_all add: less_weight_kind_def weight_kind_rank_def)

definition weight_kind_all :: "weight_kind list" where
  "weight_kind_all = [Epistemic, Section, Pragmatic]"

definition weight_kind_display :: "weight_kind \<Rightarrow> string" where
  "weight_kind_display k =
     (case k of Epistemic \<Rightarrow> ''Epistemic'' | Section \<Rightarrow> ''Section'' | Pragmatic \<Rightarrow> ''Pragmatic'')"

definition weight_kind_to_u32 :: "weight_kind \<Rightarrow> 32 word" where
  "weight_kind_to_u32 k =
     (case k of Epistemic \<Rightarrow> 0 | Section \<Rightarrow> 65535 | Pragmatic \<Rightarrow> 2 * 65535)"

definition weight_kind_from_str :: "'a text_ext_scheme \<Rightarrow> string \<Rightarrow> buildonomy_error + weight_kind" where
  "weight_kind_from_str X src =
     (let s = to_lowercase X src
      in if s = ''epistemic'' then Inr Epistemic
         else if s = ''subsection'' then Inr Section
         else if s = ''pragmatic'' then Inr Pragmatic
         else Inl Custom)"

definition weight_kind_from_u32 :: "32 word \<Rightarrow> buildonomy_error + weight_kind" where
  "weight_kind_from_u32 src =
     (if src \<le> 255 then Inr Epistemic
      else if src \<le> 511 then Inr Section
      else if src \<le> 767 then Inr Pragmatic
      else Inl Custom)"

section \<open>WeightSet\<close>

record weight_set =
  weights :: "(weight_kind, weight) bmap"

definition ws_union :: "weight_set \<Rightarrow> weight_set \<Rightarrow> weight_set" where
  "ws_union a b =
     \<lparr>weights = fold (\<lambda>(kind, weight) m. bm_insert kind weight m) (weights b) (weights a)\<rparr>"

definition ws_intersection :: "weight_set \<Rightarrow> weight_set \<Rightarrow> weight_set" where
  "ws_intersection a b =
     \<lparr>weights = fold (\<lambda>(kind, weight) m.
        if bm_contains (weights b) kind then bm_insert kind weight m else m) (weights a) []\<rparr>"

definition ws_difference :: "weight_set \<Rightarrow> weight_set \<Rightarrow> weight_set" where
  "ws_difference a b =
     \<lparr>weights = fold (\<lambda>(kind, weight) m.
        if \<not> bm_contains (weights b) kind then bm_insert kind weight m else m) (weights a) []\<rparr>"

definition ws_get :: "weight_set \<Rightarrow> weight_kind \<Rightarrow> weight option" where
  "ws_get s kind = bm_get (weights s) kind"

definition ws_set :: "weight_kind \<Rightarrow> weight \<Rightarrow> weight_set \<Rightarrow> weight_set" where
  "ws_set kind weight s = s\<lparr>weights := bm_insert kind weight (weights s)\<rparr>"

definition ws_remove :: "weight_kind \<Rightarrow> weight_set \<Rightarrow> weight option \<times> weight_set" where
  "ws_remove kind s = (bm_get (weights s) kind, s\<lparr>weights := bm_remove kind (weights s)\<rparr>)"

definition ws_is_empty :: "weight_set \<Rightarrow> bool" where
  "ws_is_empty s \<longleftrightarrow> weights s = []"

definition ws_empty :: weight_set where
  "ws_empty = \<lparr>weights = []\<rparr>"

definition ws_full :: weight_set where
  "ws_full =
     \<lparr>weights = bm_insert Pragmatic weight_full
        (bm_insert Section weight_full (bm_insert Epistemic weight_full []))\<rparr>"

definition ws_from_kind :: "weight_kind \<Rightarrow> weight_set" where
  "ws_from_kind kind = \<lparr>weights = bm_insert kind weight_default []\<rparr>"

text \<open>The derived \<open>PartialEq\<close>, over \<open>Weight\<close>'s own.\<close>

definition ws_eq :: "weight_set \<Rightarrow> weight_set \<Rightarrow> bool" where
  "ws_eq a b \<longleftrightarrow>
     list_all2 (\<lambda>x y. fst x = fst y \<and> weight_eq (snd x) (snd y)) (weights a) (weights b)"

definition ws_ok :: "weight_set \<Rightarrow> bool" where
  "ws_ok s \<longleftrightarrow> bm_ok (weights s)"

section \<open>Lemmas\<close>

named_theorems ws_simps \<open>lookups in computed weight sets\<close>

lemma weight_keys_distinct [simp]:
  "WEIGHT_SORT_KEY \<noteq> WEIGHT_DOC_PATHS" "WEIGHT_DOC_PATHS \<noteq> WEIGHT_SORT_KEY"
  "WEIGHT_SORT_KEY \<noteq> WEIGHT_OWNED_BY" "WEIGHT_OWNED_BY \<noteq> WEIGHT_SORT_KEY"
  "WEIGHT_DOC_PATHS \<noteq> WEIGHT_OWNED_BY" "WEIGHT_OWNED_BY \<noteq> WEIGHT_DOC_PATHS"
  "WEIGHT_DOC_PATH \<noteq> WEIGHT_DOC_PATHS" "WEIGHT_DOC_PATHS \<noteq> WEIGHT_DOC_PATH"
  "WEIGHT_DOC_PATH \<noteq> WEIGHT_SORT_KEY" "WEIGHT_SORT_KEY \<noteq> WEIGHT_DOC_PATH"
  by (simp_all add: WEIGHT_SORT_KEY_def WEIGHT_DOC_PATHS_def WEIGHT_OWNED_BY_def WEIGHT_DOC_PATH_def)

lemma weight_get_set [simp]:
  "weight_get f (weight_set_key key v w) key' = (if key' = key then f v else weight_get f w key')"
  by (simp add: weight_get_def weight_set_key_def)

lemma to_u16_from_u16 [simp]: "to_u16 (from_u16 n) = Some n"
  using uint_bounded [of n] by (simp add: to_u16_def from_u16_def)

lemma collect_text_TString [simp]: "collect_text (map TString ss) = Some ss"
  by (induction ss) (auto simp: to_text_def)

lemma to_text_vec_from [simp]: "to_text_vec (from_text_vec ss) = Some ss"
  by (simp add: to_text_vec_def from_text_vec_def)

lemma sort_key_set [simp]: "sort_key (weight_set_key WEIGHT_SORT_KEY (from_u16 n) w) = Some n"
  by (simp add: sort_key_def)

lemma sort_key_set_doc_paths [simp]: "sort_key (set_doc_paths ps w) = sort_key w"
  by (simp add: sort_key_def set_doc_paths_def)

lemma get_set_doc_paths [simp]: "get_doc_paths (set_doc_paths ps w) = ps"
  by (simp add: get_doc_paths_def set_doc_paths_def)

lemma get_doc_paths_sort_key [simp]:
  "get_doc_paths (weight_set_key WEIGHT_SORT_KEY v w) = get_doc_paths w"
  by (simp add: get_doc_paths_def split: option.split)

text \<open>A fold that inserts the entries a predicate keeps.\<close>

lemma bm_get_fold_filter:
  "bm_get (fold (\<lambda>(k, v) m. if P k then bm_insert k v m else m) es m) k =
     (if P k then (case map_of (rev es) k of Some v \<Rightarrow> Some v | None \<Rightarrow> bm_get m k)
      else bm_get m k)"
  by (induction es arbitrary: m) (auto simp: map_add_def split: option.splits)

lemma bm_ok_fold_filter:
  "bm_ok m \<Longrightarrow> bm_ok (fold (\<lambda>(k, v) m. if P k then bm_insert k v m else m) es m)"
  by (induction es arbitrary: m) (simp_all add: case_prod_beta)

lemma map_of_rev: "bm_ok m \<Longrightarrow> map_of (rev m) k = bm_get m k"
proof -
  assume "bm_ok m"
  then have "distinct (map fst m)" by (rule bm_ok_distinct)
  then have "map_of (rev m) = map_of m"
    by (simp add: map_of_inject_set rev_map [symmetric])
  then show ?thesis by (simp add: bm_get_def)
qed

lemma ws_get_union [ws_simps]:
  "ws_ok b \<Longrightarrow> ws_get (ws_union a b) k = or_else (ws_get b k) (ws_get a k)"
  by (simp add: ws_get_def ws_union_def bm_get_fold_insert map_of_rev ws_ok_def or_else_def)

lemma ws_get_intersection [ws_simps]:
  "ws_ok a \<Longrightarrow> ws_get (ws_intersection a b) k = (if ws_get b k \<noteq> None then ws_get a k else None)"
  by (auto simp: ws_get_def ws_intersection_def bm_get_fold_filter map_of_rev ws_ok_def
      bm_contains_def split: option.splits)

lemma ws_get_difference [ws_simps]:
  "ws_ok a \<Longrightarrow> ws_get (ws_difference a b) k = (if ws_get b k = None then ws_get a k else None)"
  by (auto simp: ws_get_def ws_difference_def bm_get_fold_filter map_of_rev ws_ok_def
      bm_contains_def split: option.splits)

lemma ws_ok_ops [simp]:
  "ws_ok a \<Longrightarrow> ws_ok (ws_union a b)" "ws_ok (ws_intersection a b)" "ws_ok (ws_difference a b)"
  "ws_ok a \<Longrightarrow> ws_ok (ws_set k w a)" "ws_ok a \<Longrightarrow> ws_ok (snd (ws_remove k a))"
  "ws_ok ws_empty" "ws_ok ws_full" "ws_ok (ws_from_kind k)"
  by (simp_all add: ws_ok_def ws_union_def ws_intersection_def ws_difference_def ws_set_def
      ws_remove_def ws_empty_def ws_full_def ws_from_kind_def bm_ok_fold_insert bm_ok_fold_filter
      bm_ok_Cons)

lemma ws_get_set [simp]: "ws_get (ws_set k w s) k' = (if k' = k then Some w else ws_get s k')"
  by (simp add: ws_get_def ws_set_def)

lemma ws_get_remove [simp]: "ws_get (snd (ws_remove k s)) k' = (if k' = k then None else ws_get s k')"
  by (simp add: ws_get_def ws_remove_def)

lemma ws_ext: "ws_ok a \<Longrightarrow> ws_ok b \<Longrightarrow> (\<And>k. ws_get a k = ws_get b k) \<Longrightarrow> a = b"
  by (cases a; cases b) (auto simp: ws_ok_def ws_get_def intro!: bm.table_ext)

lemma weight_eq_refl [simp]: "weight_eq w w"
  by (simp add: weight_eq_def)

lemma ws_eq_refl [simp]: "ws_eq s s"
  by (simp add: ws_eq_def list_all2_same)

lemma ws_eq_get:
  "ws_eq a b \<Longrightarrow> rel_option weight_eq (ws_get a k) (ws_get b k)"
proof -
  have "list_all2 (\<lambda>x y. fst x = fst y \<and> weight_eq (snd x) (snd y)) m n \<Longrightarrow>
      rel_option weight_eq (bm_get m k) (bm_get n k)" for m n
    by (induction rule: list_all2_induct) (auto simp: bm_get_def)
  then show "ws_eq a b \<Longrightarrow> ?thesis" by (simp add: ws_eq_def ws_get_def)
qed

section \<open>Properties\<close>

text \<open>
  Union, intersection and difference of weight sets, kind by kind: the union takes the right
  weight where there is one; intersection and difference split the left set in two (the values of
  the intersection are the left ones), so that their union is the left set again.
\<close>

theorem weight_set_algebra:
  assumes "ws_ok a" "ws_ok b"
  shows "ws_get (ws_union a b) k = or_else (ws_get b k) (ws_get a k)
    \<and> ws_get (ws_intersection a b) k = (if ws_get b k \<noteq> None then ws_get a k else None)
    \<and> ws_get (ws_difference a b) k = (if ws_get b k = None then ws_get a k else None)
    \<and> ws_union (ws_intersection a b) (ws_difference a b) = a
    \<and> ws_union a (ws_intersection a b) = a"
proof -
  have 1: "ws_union (ws_intersection a b) (ws_difference a b) = a"
    using assms by (intro ws_ext) (simp_all add: ws_simps or_else_def split: option.splits)
  have 2: "ws_union a (ws_intersection a b) = a"
    using assms by (intro ws_ext) (simp_all add: ws_simps or_else_def split: option.splits)
  show ?thesis using assms 1 2 by (simp add: ws_simps)
qed

theorem weight_set_algebra_witness:
  "ws_union (ws_intersection ws_full (ws_from_kind Section)) (ws_difference ws_full (ws_from_kind Section))
     = ws_full
   \<and> ws_get (ws_intersection ws_full (ws_from_kind Section)) Section = Some weight_full"
proof -
  have ok: "ws_ok ws_full" "ws_ok (ws_from_kind Section)" by simp_all
  have "ws_get (ws_from_kind Section) Section \<noteq> None" "ws_get ws_full Section = Some weight_full"
    by (simp_all add: ws_get_def ws_from_kind_def ws_full_def bm_get_Cons)
  with weight_set_algebra [OF ok] show ?thesis by metis
qed

text \<open>
  Document paths written to a weight are the ones read back, whatever format the weight held
  before, and the sort key is untouched; a sort key written is the one read back at its 16 bits,
  and the document paths are untouched.
\<close>

theorem weight_payload_roundtrip:
  "get_doc_paths (set_doc_paths ps w) = ps \<and> sort_key (set_doc_paths ps w) = sort_key w
   \<and> sort_key (weight_set_key WEIGHT_SORT_KEY (from_u16 n) w) = Some n
   \<and> get_doc_paths (weight_set_key WEIGHT_SORT_KEY (from_u16 n) w) = get_doc_paths w"
  by simp

text \<open>
  \<open>Weight\<close> equality sees the sort key only: weights that differ in their document paths, or in
  any other entry, are equal, and so are the weight sets that hold them.
\<close>

theorem weight_eq_ignores_payload:
  "weight_eq (set_doc_paths ps w) w
   \<and> ws_eq (ws_set k (set_doc_paths ps w) s) (ws_set k w s)
   \<and> get_doc_paths (set_doc_paths ps w) = ps"
proof -
  have "list_all2 (\<lambda>x y. fst x = fst y \<and> weight_eq (snd x) (snd y))
      (bm_insert k v m) (bm_insert k w m)" if "weight_eq v w" for v and m :: "(weight_kind, weight) bmap"
    using that by (induction k w m rule: bm_insert.induct) (auto simp: list_all2_same)
  then show ?thesis by (simp add: ws_eq_def ws_set_def weight_eq_def)
qed

text \<open>
  Of the three kinds only \<open>Epistemic\<close> survives the conversion to \<open>u32\<close> and back (the codes are
  multiples of 65535, the ranges read back are 256 wide), and every kind but \<open>Section\<close> is read
  back from its display (which is not the word \<open>subsection\<close> that the parser accepts).
\<close>

theorem weight_kind_conversions:
  "(weight_kind_from_u32 (weight_kind_to_u32 k) = Inr k) = (k = Epistemic)
   \<and> (weight_kind_from_str X (weight_kind_display k) = Inr k) = (k \<noteq> Section)"
proof -
  have "list_all is_ascii ''Epistemic''" "list_all is_ascii ''Section''"
    "list_all is_ascii ''Pragmatic''" by code_simp+
  moreover have "map to_ascii_lower ''Epistemic'' = ''epistemic''"
    "map to_ascii_lower ''Section'' = ''section''"
    "map to_ascii_lower ''Pragmatic'' = ''pragmatic''" by code_simp+
  ultimately have low: "to_lowercase X ''Epistemic'' = ''epistemic''"
    "to_lowercase X ''Section'' = ''section''" "to_lowercase X ''Pragmatic'' = ''pragmatic''"
    unfolding to_lowercase_def by (simp_all only: if_True)
  show ?thesis
    by (cases k) (simp_all add: weight_kind_from_u32_def weight_kind_to_u32_def
        weight_kind_from_str_def weight_kind_display_def low Let_def)
qed

end
