(* ===== verification/Nodes.thy ===== *)
theory Nodes
  imports Weights
begin

text \<open>
  Belief nodes (\<open>properties.rs\<close>): the kinds of a node, the node record, the nodes the library makes
  for itself, node identifiers, and \<open>merge\<close>, which folds a later reading of a node into an earlier
  one. A \<open>BeliefKindSet\<close> (an \<open>EnumSet\<close>) is a set.
\<close>

section \<open>Kinds\<close>

datatype belief_kind = API | Network | Action | Core | Symbol | Document | External | Trace

type_synonym kind_set = "belief_kind set"

text \<open>
  \<open>BeliefKindSet::is_anchor\<close>: not a document of its own. (The accessor of the same name on paths is
  \<open>is_anchor\<close>.)
\<close>

definition kind_is_anchor :: "kind_set \<Rightarrow> bool" where
  "kind_is_anchor k \<longleftrightarrow> k \<inter> {API, Network, Document} = {}"

definition kind_is_document :: "kind_set \<Rightarrow> bool" where
  "kind_is_document k \<longleftrightarrow> \<not> kind_is_anchor k"

definition kind_is_network :: "kind_set \<Rightarrow> bool" where
  "kind_is_network k \<longleftrightarrow> k \<inter> {API, Network} \<noteq> {}"

definition kind_is_complete :: "kind_set \<Rightarrow> bool" where
  "kind_is_complete k \<longleftrightarrow> Trace \<notin> k"

definition kind_is_external :: "kind_set \<Rightarrow> bool" where
  "kind_is_external k \<longleftrightarrow> External \<in> k"

section \<open>Nodes\<close>

record node =
  nd_bid :: bid
  nd_kind :: kind_set
  nd_title :: string
  nd_schema :: "string option"
  nd_payload :: table
  nd_id :: "string option"

text \<open>\<open>PartialEq for BeliefNode\<close>: the payloads are compared as far as the shorter one goes.\<close>

definition node_eq :: "node \<Rightarrow> node \<Rightarrow> bool" where
  "node_eq a b \<longleftrightarrow>
     nd_bid a = nd_bid b \<and> nd_kind a = nd_kind b \<and> nd_title a = nd_title b
     \<and> nd_schema a = nd_schema b
     \<and> list_all (\<lambda>(x, y). fst x = fst y \<and> toml_eq (snd x) (snd y)) (zip (nd_payload a) (nd_payload b))
     \<and> nd_id a = nd_id b"

text \<open>\<open>env!\<close> values of the build: package name, version and authors.\<close>

record build_env =
  pkg_name :: string
  pkg_version :: string
  pkg_authors :: string

definition api_state :: "'a id_ext_scheme \<Rightarrow> build_env \<Rightarrow> node" where
  "api_state X env =
     (let table = bm_insert ''package'' (TString (pkg_name env)) [];
          table = bm_insert ''version'' (TString (pkg_version env)) table;
          table = bm_insert ''authors'' (TString (pkg_authors env)) table;
          table = bm_insert ''repository''
            (TString ''https:://gitlab.com/buildonomy/noet'') table;
          table = bm_insert ''license'' (TString ''UNLICENSED'') table
      in \<lparr>nd_bid = buildonomy_api_bid X (pkg_version env), nd_kind = {API, Trace},
          nd_title = ''Buildonomy API v'' @ pkg_version env, nd_schema = Some ''api'',
          nd_payload = table, nd_id = Some ''buildonomy_api''\<rparr>)"

definition href_network :: "'a id_ext_scheme \<Rightarrow> build_env \<Rightarrow> node" where
  "href_network X env =
     \<lparr>nd_bid = href_namespace, nd_kind = {Network, Trace},
      nd_title = ''Buildonomy href tracking network v'' @ pkg_version env,
      nd_schema = Some ''api'',
      nd_payload = bm_insert ''api'' (TString (bid_display X buildonomy_namespace)) [],
      nd_id = Some ''buildonomy_href_network''\<rparr>"

definition asset_network :: "'a id_ext_scheme \<Rightarrow> build_env \<Rightarrow> node" where
  "asset_network X env =
     \<lparr>nd_bid = asset_namespace, nd_kind = {Network, Trace},
      nd_title = ''Buildonomy asset tracking network v'' @ pkg_version env,
      nd_schema = Some ''api'',
      nd_payload = bm_insert ''api'' (TString (bid_display X buildonomy_namespace)) [],
      nd_id = Some ''buildonomy_asset_network''\<rparr>"

text \<open>\<open>BeliefNode::default()\<close> with a given identifier; the empty kind set is the default one.\<close>

definition unknown_node :: "bid \<Rightarrow> node" where
  "unknown_node b =
     \<lparr>nd_bid = b, nd_kind = {}, nd_title = [], nd_schema = None, nd_payload = [], nd_id = None\<rparr>"

definition display_title :: "'a id_ext_scheme \<Rightarrow> node \<Rightarrow> string" where
  "display_title X n =
     (if nd_title n = [] then bref_display (bref_of X (nd_bid n)) else nd_title n)"

definition node_id :: "'a text_ext_scheme \<Rightarrow> node \<Rightarrow> string" where
  "node_id X n =
     unwrap_or
       (or_else
          (case nd_id n of Some i \<Rightarrow> if i \<noteq> [] then Some i else None | None \<Rightarrow> None)
          (if nd_title n \<noteq> [] then Some (to_anchor X (nd_title n)) else None))
       (if \<not> is_nil (nd_bid n) then bref_display (bref_of X (nd_bid n)) else [])"

text \<open>\<open>BeliefNode::merge\<close>: the updated node and whether it changed.\<close>

definition merge_payload_step :: "table \<Rightarrow> string \<Rightarrow> table \<times> bool \<Rightarrow> table \<times> bool" where
  "merge_payload_step rhs key acc =
     (case acc of (payload, changed) \<Rightarrow>
        case (bm_get payload key, bm_get rhs key) of
          (Some lhs_value, Some rhs_value) \<Rightarrow>
            if \<not> toml_eq lhs_value rhs_value then (bm_insert key rhs_value payload, True) else acc
        | (None, Some rhs_value) \<Rightarrow> (bm_insert key rhs_value payload, True)
        | _ \<Rightarrow> acc)"

definition merge_payload :: "table \<Rightarrow> table \<Rightarrow> table \<times> bool" where
  "merge_payload lhs rhs =
     fold (merge_payload_step rhs) (bs_from_list (bm_keys lhs @ bm_keys rhs)) (lhs, False)"

definition merge_kind :: "kind_set \<Rightarrow> kind_set \<Rightarrow> kind_set" where
  "merge_kind a b =
     (let merged_kind = a \<union> b
      in if \<not> kind_is_complete merged_kind \<and> (kind_is_complete a \<or> kind_is_complete b)
         then merged_kind - {Trace} else merged_kind)"

definition node_merge :: "node \<Rightarrow> node \<Rightarrow> node \<times> bool" where
  "node_merge self rhs =
     (let changed = False;
          (self, changed) =
            (if nd_bid self \<noteq> nd_bid rhs then (self\<lparr>nd_bid := nd_bid rhs\<rparr>, True)
             else (self, changed));
          (self, changed) =
            (if nd_title self \<noteq> nd_title rhs then (self\<lparr>nd_title := nd_title rhs\<rparr>, True)
             else (self, changed));
          merged_kind = merge_kind (nd_kind self) (nd_kind rhs);
          (self, changed) =
            (if merged_kind \<noteq> nd_kind self then (self\<lparr>nd_kind := merged_kind\<rparr>, True)
             else (self, changed));
          (self, changed) =
            (if nd_schema self \<noteq> nd_schema rhs then (self\<lparr>nd_schema := nd_schema rhs\<rparr>, True)
             else (self, changed));
          (payload, payload_changed) = merge_payload (nd_payload self) (nd_payload rhs)
      in (self\<lparr>nd_payload := payload\<rparr>, changed \<or> payload_changed))"

text \<open>
  \<open>TryFrom<&IRNode>\<close> reads the leading fields out of the parsed document; what is left of the
  document is the payload. The \<open>toml_edit\<close> document is the table it denotes.
\<close>

definition take_text :: "string \<Rightarrow> table \<Rightarrow> string option \<times> table" where
  "take_text key doc = (Option.bind (bm_get doc key) to_text, bm_remove key doc)"

definition node_from_ir :: "'a id_ext_scheme \<Rightarrow> table \<Rightarrow> kind_set \<Rightarrow> buildonomy_error + node" where
  "node_from_ir X doc kind =
     (let (bid_text, doc) = take_text ''bid'' doc
      in case (case bid_text of Some s \<Rightarrow> bid_try_from X s | None \<Rightarrow> Inr nil_bid) of
           Inl e \<Rightarrow> Inl e
         | Inr b \<Rightarrow>
             (let (title, doc) = take_text ''title'' doc;
                  (schema, doc) = take_text ''schema'' doc;
                  (ident, doc) = take_text ''id'' doc
              in Inr \<lparr>nd_bid = b, nd_kind = kind, nd_title = unwrap_or title [],
                      nd_schema = schema, nd_payload = doc, nd_id = ident\<rparr>))"

section \<open>Lemmas on merging\<close>

text \<open>What merging leaves under one key: the right value, unless it equals the left one.\<close>

definition merged_value :: "toml option \<Rightarrow> toml option \<Rightarrow> toml option" where
  "merged_value l r =
     (case (l, r) of
        (Some lhs_value, Some rhs_value) \<Rightarrow>
          if toml_eq lhs_value rhs_value then Some lhs_value else Some rhs_value
      | _ \<Rightarrow> or_else r l)"

lemma merge_payload_step_get:
  "merge_payload_step rhs key (p, c) = (p', c') \<Longrightarrow>
     bm_get p' j = (if j = key then merged_value (bm_get p key) (bm_get rhs key) else bm_get p j)"
  by (auto simp: merge_payload_step_def merged_value_def split: option.splits if_splits)

lemma merge_payload_fold_get:
  assumes "distinct keys"
  shows "bm_get (fst (fold (merge_payload_step rhs) keys (p, c))) k =
     (if k \<in> set keys then merged_value (bm_get p k) (bm_get rhs k) else bm_get p k)"
  using assms
proof (induction keys arbitrary: p c)
  case (Cons key keys)
  obtain p' c' where step: "merge_payload_step rhs key (p, c) = (p', c')" by fastforce
  from Cons show ?case by (auto simp: step merge_payload_step_get [OF step])
qed simp

lemma merge_payload_fold_ok:
  "bm_ok p \<Longrightarrow> bm_ok (fst (fold (merge_payload_step rhs) keys (p, c)))"
proof (induction keys arbitrary: p c)
  case (Cons key keys)
  obtain p' c' where step: "merge_payload_step rhs key (p, c) = (p', c')" by fastforce
  then have "bm_ok p'"
    using Cons.prems by (auto simp: merge_payload_step_def split: option.splits if_splits)
  then show ?case by (simp add: step Cons.IH)
qed simp

lemma merge_payload_fold_unchanged:
  "snd (fold (merge_payload_step rhs) keys (p, c)) = False \<Longrightarrow>
     c = False \<and> fst (fold (merge_payload_step rhs) keys (p, c)) = p"
proof (induction keys arbitrary: p c)
  case (Cons key keys)
  obtain p' c' where step: "merge_payload_step rhs key (p, c) = (p', c')" by fastforce
  have tl: "c' = False" "fst (fold (merge_payload_step rhs) keys (p', c')) = p'"
    using Cons.IH [of p' c'] Cons.prems unfolding fold_simps step by blast+
  with step have same: "c = False" "p' = p"
    by (auto simp: merge_payload_step_def split: option.splits if_splits)
  with tl step have "merge_payload_step rhs key (p, False) = (p, False)" by simp
  with tl same show ?case by simp
qed simp

lemma bs_ok_distinct: "bs_ok xs \<Longrightarrow> distinct xs"
  by (simp add: bs_ok_def strict_sorted_iff)

lemma merge_payload_get:
  "bm_get (fst (merge_payload lhs rhs)) k = merged_value (bm_get lhs k) (bm_get rhs k)"
proof -
  let ?keys = "bs_from_list (bm_keys lhs @ bm_keys rhs)"
  have "distinct ?keys" by (simp add: bs_ok_distinct)
  moreover have "bm_get lhs k = None \<and> bm_get rhs k = None" if "k \<notin> set ?keys"
    using that by (auto simp: bm_keys_def bm_get_def map_of_eq_None_iff)
  ultimately show ?thesis
    by (auto simp: merge_payload_def merge_payload_fold_get merged_value_def)
qed

lemma merge_payload_ok: "bm_ok lhs \<Longrightarrow> bm_ok (fst (merge_payload lhs rhs))"
  by (simp add: merge_payload_def merge_payload_fold_ok)

lemma merge_payload_unchanged:
  "\<not> snd (merge_payload lhs rhs) \<Longrightarrow> fst (merge_payload lhs rhs) = lhs"
  using merge_payload_fold_unchanged [of rhs _ lhs False] unfolding merge_payload_def by simp

lemma merge_payload_fold_still:
  assumes "\<And>k. k \<in> set keys \<Longrightarrow> merged_value (bm_get p k) (bm_get rhs k) = bm_get p k
      \<and> rel_option toml_eq (if bm_get rhs k = None then None else bm_get p k) (bm_get rhs k)"
  shows "fold (merge_payload_step rhs) keys (p, c) = (p, c)"
  using assms
proof (induction keys)
  case (Cons key keys)
  have "merge_payload_step rhs key (p, c) = (p, c)"
    using Cons.prems [of key]
    by (auto simp: merge_payload_step_def merged_value_def split: option.splits if_splits)
  with Cons show ?case by simp
qed simp

lemma merge_payload_again:
  assumes "\<forall>v\<in>set (bm_values rhs). toml_eq v v"
  shows "merge_payload (fst (merge_payload lhs rhs)) rhs = (fst (merge_payload lhs rhs), False)"
proof -
  have refl: "toml_eq r r" if "bm_get rhs k = Some r" for k r
    using assms bm_get_in [OF that] by (force simp: bm_values_def)
  show ?thesis
    unfolding merge_payload_def [of "fst (merge_payload lhs rhs)"]
    by (rule merge_payload_fold_still)
      (auto simp: merge_payload_get merged_value_def refl split: option.splits)
qed

lemma merge_kind_again: "merge_kind (merge_kind a b) b = merge_kind a b"
  by (auto simp: merge_kind_def kind_is_complete_def Let_def)

lemma node_merge_fields:
  "nd_bid (fst (node_merge a b)) = nd_bid b" "nd_title (fst (node_merge a b)) = nd_title b"
  "nd_schema (fst (node_merge a b)) = nd_schema b"
  "nd_kind (fst (node_merge a b)) = merge_kind (nd_kind a) (nd_kind b)"
  "nd_payload (fst (node_merge a b)) = fst (merge_payload (nd_payload a) (nd_payload b))"
  "nd_id (fst (node_merge a b)) = nd_id a"
  by (simp_all add: node_merge_def Let_def case_prod_beta)

lemma node_merge_changed:
  "snd (node_merge a b) \<longleftrightarrow>
     nd_bid a \<noteq> nd_bid b \<or> nd_title a \<noteq> nd_title b \<or> merge_kind (nd_kind a) (nd_kind b) \<noteq> nd_kind a
     \<or> nd_schema a \<noteq> nd_schema b \<or> snd (merge_payload (nd_payload a) (nd_payload b))"
  by (simp add: node_merge_def Let_def case_prod_beta)

section \<open>Properties\<close>

text \<open>
  Merging a later reading into a node: identifier, title and schema are the later ones, a
  payload key of the later one wins, the kinds are united, a node is a \<open>Trace\<close> only if both were,
  and the semantic id of the node is kept. When merging reports no change, the node is as it was.
\<close>

theorem node_merge_spec:
  "nd_bid (fst (node_merge a b)) = nd_bid b \<and> nd_title (fst (node_merge a b)) = nd_title b
   \<and> nd_schema (fst (node_merge a b)) = nd_schema b \<and> nd_id (fst (node_merge a b)) = nd_id a
   \<and> nd_kind (fst (node_merge a b)) - {Trace} = (nd_kind a \<union> nd_kind b) - {Trace}
   \<and> (Trace \<in> nd_kind (fst (node_merge a b))) = (Trace \<in> nd_kind a \<and> Trace \<in> nd_kind b)
   \<and> bm_get (nd_payload (fst (node_merge a b))) k =
       merged_value (bm_get (nd_payload a) k) (bm_get (nd_payload b) k)
   \<and> (if snd (node_merge a b) then True else fst (node_merge a b) = a)"
proof -
  have "fst (node_merge a b) = a" if "\<not> snd (node_merge a b)"
    using that merge_payload_unchanged [of "nd_payload a" "nd_payload b"]
    by (simp add: node_merge_changed) (simp add: node_merge_def Let_def case_prod_beta)
  then show ?thesis
    by (auto simp: node_merge_fields merge_payload_get merge_kind_def kind_is_complete_def Let_def)
qed

text \<open>
  Merging is idempotent: merging the same reading a second time changes nothing and says so,
  for a payload without a NaN (the only TOML value that is not equal to itself).
\<close>

theorem node_merge_idempotent:
  assumes "list_all (\<lambda>v. toml_eq v v) (bm_values (nd_payload b))"
  shows "node_merge (fst (node_merge a b)) b = (fst (node_merge a b), False)"
proof -
  let ?n = "fst (node_merge a b)"
  have again: "merge_payload (nd_payload ?n) (nd_payload b) = (nd_payload ?n, False)"
    using merge_payload_again [of "nd_payload b"] assms by (simp add: node_merge_fields list_all_iff)
  have unchanged: "\<not> snd (node_merge ?n b)"
    by (simp add: node_merge_changed again [unfolded node_merge_fields] node_merge_fields
        merge_kind_again)
  have "fst (node_merge ?n b) = ?n"
    by (intro node.equality) (simp_all add: node_merge_fields merge_kind_again
        again [unfolded node_merge_fields])
  with unchanged show ?thesis by (metis prod.collapse)
qed

theorem node_merge_idempotent_witness:
  "snd (node_merge (fst (node_merge (unknown_node nil_bid)
     ((unknown_node nil_bid)\<lparr>nd_payload := [(''k'', TInteger 1)]\<rparr>)))
     ((unknown_node nil_bid)\<lparr>nd_payload := [(''k'', TInteger 1)]\<rparr>)) = False"
proof -
  let ?b = "(unknown_node nil_bid)\<lparr>nd_payload := [(''k'', TInteger 1)]\<rparr>"
  have "list_all (\<lambda>v. toml_eq v v) (bm_values (nd_payload ?b))" by (simp add: bm_values_def)
  from node_merge_idempotent [OF this, of "unknown_node nil_bid"] show ?thesis by simp
qed

end
