(* ===== verification/NodeKeys.thy ===== *)
theory NodeKeys
  imports Nodes
begin

text \<open>
  Node keys (\<open>nodekey.rs\<close>): the four ways a link names a node, their URL syntax (\<open>FromStr\<close> and
  \<open>Display\<close>), their resolution against a document and a network, and the codec registry
  (\<open>codec/mod.rs\<close>) that decides whether a path is a document or an asset.

  A codec factory is a function pointer the registry never calls: its type is a parameter.
\<close>

section \<open>The codec registry\<close>

type_synonym 'f codec_map = "(string option \<times> string option \<times> 'f) list"

fun codec_insert :: "'f codec_map \<Rightarrow> string option \<Rightarrow> string option \<Rightarrow> 'f \<Rightarrow> 'f codec_map" where
  "codec_insert [] stem extension factory = [(stem, extension, factory)]"
| "codec_insert ((s, e, f) # codecs) stem extension factory =
     (if s = stem \<and> e = extension then (s, e, factory) # codecs
      else (s, e, f) # codec_insert codecs stem extension factory)"

definition codec_get :: "'f codec_map \<Rightarrow> anchor_path \<Rightarrow> 'f option" where
  "codec_get codecs ap =
     (let (stem, extension) = path_parts ap
      in map_option (\<lambda>(_, _, factory). factory)
           (or_else
             (or_else
               (find (\<lambda>(codec_stem, codec_ext, _).
                  codec_stem = Some stem \<and> (codec_ext = Some extension \<or> codec_ext = None)) codecs)
               (find (\<lambda>(_, codec_ext, _). codec_ext = Some extension) codecs))
             (find (\<lambda>(codec_stem, codec_ext, _).
                codec_stem = None \<and> codec_ext = None \<and> stem = [] \<and> extension = []) codecs)))"

definition codec_extensions :: "'f codec_map \<Rightarrow> string list" where
  "codec_extensions codecs =
     List.map_filter (\<lambda>(codec_stem, codec_ext, _).
       case codec_ext of
         Some e \<Rightarrow> Some e
       | None \<Rightarrow> if codec_stem = None then Some [] else None) codecs"

text \<open>The built-in registry, for a markdown and a network factory.\<close>

definition codec_create :: "'f \<Rightarrow> 'f \<Rightarrow> 'f codec_map" where
  "codec_create md network =
     [(None, Some ''md'', md), (Some ''index'', Some ''md'', network), (None, None, network)]"

section \<open>Keys\<close>

datatype node_key =
    KBid bid
  | KBref bref
  | KPath bref string
  | KId bref string

datatype node_key_scheme =
  SchemeBid | SchemeBref | SchemePath | SchemeId | SchemeNone | SchemeExternal

definition scheme_from :: "'a text_ext_scheme \<Rightarrow> string \<Rightarrow> node_key_scheme" where
  "scheme_from X scheme_str =
     (let s = trim (to_lowercase X scheme_str)
      in if s = [] then SchemeNone
         else if s = ''bid'' then SchemeBid
         else if s = ''bref'' then SchemeBref
         else if s = ''id'' then SchemeId
         else if s = ''path'' then SchemePath
         else SchemeExternal)"

definition ok_of :: "'e + 'v \<Rightarrow> 'v option" where
  "ok_of r = (case r of Inl _ \<Rightarrow> None | Inr v \<Rightarrow> Some v)"

text \<open>\<open>Bid::try_from(s).ok().map(bref).or_else(Bref::try_from(s).ok())\<close>.\<close>

definition net_from :: "'a text_ext_scheme \<Rightarrow> string \<Rightarrow> bref option" where
  "net_from X s =
     or_else (map_option (bref_of X) (ok_of (bid_try_from X s))) (ok_of (bref_try_from X s))"

definition key_type_name :: "node_key_scheme \<Rightarrow> string" where
  "key_type_name scheme =
     (case scheme of
        SchemeBid \<Rightarrow> ''bid'' | SchemeBref \<Rightarrow> ''bref'' | SchemeId \<Rightarrow> ''id'' | SchemePath \<Rightarrow> ''path''
      | _ \<Rightarrow> ''unknown'')"

definition parse_network_and_value ::
    "'a text_ext_scheme \<Rightarrow> anchor_path \<Rightarrow> node_key_scheme \<Rightarrow> buildonomy_error + (bref \<times> string)" where
  "parse_network_and_value X ap scheme =
     (let parsed =
        (if has_hostname ap then
           (let host = hostname ap; res = trim_start_matches CHR ''/'' (resource ap)
            in if host = [] then Inr (bref_of X nil_bid, res)
               else case (net_from X host, res = []) of
                      (Some net, False) \<Rightarrow> Inr (net, res)
                    | (_, True) \<Rightarrow> Inr (bref_of X nil_bid, host)
                    | (None, False) \<Rightarrow> Inl (UnresolvedNetwork host (key_type_name scheme) res))
         else Inr (bref_of X nil_bid, path_after_schema ap))
      in case parsed of
           Inl e \<Rightarrow> Inl e
         | Inr (net, value) \<Rightarrow> if value = [] then Inl Serialization else Inr (net, value))"

text \<open>
  The tail that the \<open>Path\<close> scheme and bare strings share: drop one leading slash, normalise, and
  move a path whose extension no codec knows to the asset network. The second component is the
  normalised path.
\<close>

definition path_value :: "'a text_ext_scheme \<Rightarrow> 'f codec_map \<Rightarrow> bref \<Rightarrow> string \<Rightarrow> bref \<times> string" where
  "path_value X codecs net value =
     (let norm_input = unwrap_or (strip_prefix_str ''/'' value) value;
          norm_ap = ap_new norm_input;
          path_net = (if ext norm_ap \<noteq> [] \<and> codec_get codecs norm_ap = None
                      then bref_of X asset_namespace else net)
      in (path_net, ap_path (normalize norm_ap)))"

definition bare_key :: "'a text_ext_scheme \<Rightarrow> 'f codec_map \<Rightarrow> string \<Rightarrow> buildonomy_error + node_key" where
  "bare_key X codecs s =
     (case ok_of (bid_try_from X s) of
        Some b \<Rightarrow> Inr (KBid b)
      | None \<Rightarrow>
     (case ok_of (bref_try_from X s) of
        Some r \<Rightarrow> Inr (KBref r)
      | None \<Rightarrow>
          if \<not> list_ex (\<lambda>c. c \<in> set ''/#.'') s
          then Inr (KId (bref_default X) (to_anchor X s))
          else
            let remainder = path_after_schema (ap_new s);
                (candidate, rest) =
                  (case str_find CHR ''/'' remainder of
                     Some pos \<Rightarrow> (take pos remainder, drop (pos + 1) remainder)
                   | None \<Rightarrow> (remainder, []));
                (net, value) =
                  (if rest \<noteq> [] then
                     (case net_from X candidate of
                        Some parsed_net \<Rightarrow> (parsed_net, rest)
                      | None \<Rightarrow> (bref_of X nil_bid, remainder))
                   else (bref_of X nil_bid, remainder));
                (path_net, norm_path) = path_value X codecs net value
            in if norm_path = [] then Inl Serialization else Inr (KPath path_net norm_path)))"

definition key_from_str :: "'a text_ext_scheme \<Rightarrow> 'f codec_map \<Rightarrow> string \<Rightarrow> buildonomy_error + node_key" where
  "key_from_str X codecs s =
     (if s = [] then Inl Serialization
      else
        let ap = ap_new s; scheme = scheme_from X (schema ap)
        in case scheme of
             SchemeExternal \<Rightarrow> Inr (KPath (bref_of X href_namespace) s)
           | SchemeNone \<Rightarrow> bare_key X codecs s
           | _ \<Rightarrow>
               (case parse_network_and_value X ap scheme of
                  Inl e \<Rightarrow> Inl e
                | Inr (net, value) \<Rightarrow>
                    (case scheme of
                       SchemeBid \<Rightarrow>
                         (case bid_try_from X value of Inl e \<Rightarrow> Inl e | Inr b \<Rightarrow> Inr (KBid b))
                     | SchemeBref \<Rightarrow>
                         (case bref_try_from X value of Inl e \<Rightarrow> Inl e | Inr r \<Rightarrow> Inr (KBref r))
                     | SchemeId \<Rightarrow> Inr (KId net (to_anchor X value))
                     | _ \<Rightarrow>
                         (let (path_net, norm_path) = path_value X codecs net value
                          in Inr (KPath path_net norm_path)))))"

definition key_display :: "'a text_ext_scheme \<Rightarrow> node_key \<Rightarrow> string" where
  "key_display X key =
     (case key of
        KBid b \<Rightarrow> ''bid:'' @ bid_display X b
      | KBref r \<Rightarrow> ''bref:'' @ bref_display r
      | KId net i \<Rightarrow>
          if \<not> bref_is_default X net then ''id://'' @ bref_display net @ ''/'' @ i
          else ''id:'' @ i
      | KPath net path \<Rightarrow>
          if list_ex (\<lambda>ns. net = bref_of X ns) content_namespaces then path
          else if \<not> bref_is_default X net then ''path://'' @ bref_display net @ ''/'' @ path
          else ''path:'' @ path)"

definition href_to_nodekey :: "'a text_ext_scheme \<Rightarrow> 'f codec_map \<Rightarrow> string \<Rightarrow> node_key" where
  "href_to_nodekey X codecs link =
     (case key_from_str X codecs link of
        Inr key \<Rightarrow> key
      | Inl _ \<Rightarrow> KId (bref_of X nil_bid) link)"

section \<open>Resolution\<close>

definition resolve_against :: "'a text_ext_scheme \<Rightarrow> node_key \<Rightarrow> string \<Rightarrow> node_key" where
  "resolve_against X key doc_path =
     (case key of
        KPath net path \<Rightarrow>
          if net = bref_of X href_namespace then key
          else
            let normalized_link = normalize (ap_new path);
                resolved = join X (ap_new doc_path) (ap_path normalized_link)
            in if starts_with (ap_path resolved) ''../''
               then KPath net (ap_path normalized_link)
               else KPath net (ap_path resolved)
      | _ \<Rightarrow> key)"

definition regularize_unchecked ::
    "'a text_ext_scheme \<Rightarrow> node_key \<Rightarrow> bid \<Rightarrow> string \<Rightarrow> string \<Rightarrow> node_key" where
  "regularize_unchecked X key base_net owner_path base_abs_path =
     (let owner_ap = join X (ap_new base_abs_path) owner_path
      in case key of
           KPath link_base link_path \<Rightarrow>
             (let normalized_link = normalize (ap_new link_path);
                  needs_owner_join =
                    bref_is_default X link_base \<or> link_base = bref_of X asset_namespace
              in if link_base = bref_of X href_namespace
                 then KPath link_base (ap_path normalized_link)
                 else if \<not> needs_owner_join then KPath link_base (ap_path normalized_link)
                 else if is_absolute normalized_link
                         \<and> \<not> starts_with (ap_path normalized_link) base_abs_path
                 then KPath (bref_of X href_namespace) (ap_path normalized_link)
                 else
                   let join_path = join X owner_ap (ap_path normalized_link);
                       normalized_path = path_to X (ap_new base_abs_path) (ap_path join_path) False
                   in KPath (if bref_is_default X link_base then bref_of X base_net else link_base)
                        normalized_path)
         | KId net i \<Rightarrow> if bref_is_default X net then KId (bref_of X base_net) i else key
         | _ \<Rightarrow> key)"

text \<open>Network references that are names, looked up among the nodes of a base.\<close>

definition resolve_network_sync ::
    "'a text_ext_scheme \<Rightarrow> string \<Rightarrow> (bid, node) bmap \<Rightarrow> buildonomy_error + bid" where
  "resolve_network_sync X net_ref states =
     (case or_else
             (case ok_of (bref_try_from X net_ref) of
                Some r \<Rightarrow> find (\<lambda>n. bref_of X (nd_bid n) = r) (bm_values states)
              | None \<Rightarrow> None)
             (find (\<lambda>n. nd_id n = Some net_ref) (bm_values states)) of
        Some n \<Rightarrow> Inr (nd_bid n)
      | None \<Rightarrow> Inl NotFound)"

definition from_str_with_cache ::
    "'a text_ext_scheme \<Rightarrow> 'f codec_map \<Rightarrow> string \<Rightarrow> (bid, node) bmap \<Rightarrow> buildonomy_error + node_key" where
  "from_str_with_cache X codecs s states =
     (case key_from_str X codecs s of
        Inr key \<Rightarrow> Inr key
      | Inl (UnresolvedNetwork net_ref type_name value) \<Rightarrow>
          (case resolve_network_sync X net_ref states of
             Inl e \<Rightarrow> Inl e
           | Inr b \<Rightarrow>
               if type_name = ''id'' then Inr (KId (bref_of X b) value)
               else if type_name = ''path'' then Inr (KPath (bref_of X b) value)
               else Inl Serialization)
      | Inl e \<Rightarrow> Inl e)"

section \<open>Parsing a string with a scheme\<close>

lemma str_find_here: "c \<notin> set p \<Longrightarrow> str_find c (p @ c # s) = Some (length p)"
  by (induction p) auto

lemma str_find_skip: "c \<notin> set p \<Longrightarrow>
    str_find c (p @ s) = map_option (\<lambda>i. length p + i) (str_find c s)"
  by (simp add: str_find_append str_find_None [symmetric])

lemma str_find_after: "c \<notin> set p \<Longrightarrow> str_find c (p @ s) = Some i \<Longrightarrow> length p \<le> i"
  by (auto simp: str_find_skip)

lemma str_rfind_take_ge:
  assumes "c \<notin> set p" "str_rfind c (str_slice (p @ s) 0 n) = Some i"
  shows "length p \<le> i"
proof (rule ccontr)
  assume "\<not> length p \<le> i"
  moreover have "i < length (take n (p @ s))" "take n (p @ s) ! i = c"
    using str_rfind_Some [OF assms(2)] by (auto simp: str_slice_def)
  ultimately have "p ! i = c" "i < length p" by (auto simp: nth_append)
  with assms(1) show False by (metis nth_mem)
qed

text \<open>A scheme: at least two characters, none of them a separator.\<close>

definition scheme_ok :: "string \<Rightarrow> bool" where
  "scheme_ok sc \<longleftrightarrow> length sc > 1 \<and> list_all (\<lambda>c. c \<notin> set ''#?/:'') sc"

lemma scheme_okD:
  assumes "scheme_ok sc"
  shows "CHR ''#'' \<notin> set sc" "CHR ''?'' \<notin> set sc" "CHR ''/'' \<notin> set sc" "CHR '':'' \<notin> set sc"
    "length sc > 1"
  using assms by (auto simp: scheme_ok_def list_all_iff)

lemma seps_after:
  assumes "CHR ''#'' \<notin> set p" "CHR ''?'' \<notin> set p"
  shows "anc_sep (ap_new (p @ s)) = Some i \<Longrightarrow> length p \<le> i"
    and "param_sep (ap_new (p @ s)) = Some i \<Longrightarrow> length p \<le> i"
  using assms
  by (auto simp: anc_sep_new param_sep_new find_param_def dest: str_find_after str_rfind_take_ge)

lemma min_some_ge: "min_some xs = Some m \<Longrightarrow> \<forall>n. Some n \<in> set xs \<longrightarrow> b \<le> n \<Longrightarrow> b \<le> m"
proof (induction xs arbitrary: m rule: min_some.induct)
  case (3 k xs)
  then show ?case by (auto split: option.splits)
qed auto

lemma sch_sep_scheme:
  assumes "scheme_ok sc"
  shows "sch_sep (ap_new (sc @ CHR '':'' # v)) = Some (length sc)"
proof -
  note sc = scheme_okD [OF assms]
  let ?s = "sc @ CHR '':'' # v"
  let ?ap = "ap_new ?s"
  have colon: "str_find CHR '':'' ?s = Some (length sc)" by (rule str_find_here [OF sc(4)])
  have "Suc (length sc) \<le> i"
    if "i_opt = Some i" "i_opt \<in> {str_find CHR ''/'' ?s, param_sep ?ap, anc_sep ?ap}" for i i_opt
    using that sc seps_after [of "sc @ '':''" v i] str_find_after [of "CHR ''/''" "sc @ '':''" v i]
    by (auto simp: Suc_le_eq)
  then have "\<forall>n. Some n \<in> set [str_find CHR ''/'' ?s, param_sep ?ap, anc_sep ?ap] \<longrightarrow> Suc (length sc) \<le> n"
    by auto
  from min_some_ge [OF _ this]
  have "Suc (length sc) \<le> m"
    if "min_some [str_find CHR ''/'' ?s, param_sep ?ap, anc_sep ?ap] = Some m" for m
    using that .
  then show ?thesis
    using sc(5) by (auto simp: sch_sep_new find_schema_def colon Let_def Suc_le_eq split: option.splits)
qed

lemma scheme_parts:
  assumes "scheme_ok sc"
  shows "schema (ap_new (sc @ CHR '':'' # v)) = sc"
    and "path_after_schema (ap_new (sc @ CHR '':'' # v)) = trim_start_matches CHR ''/'' v"
  by (simp_all add: schema_def schema_range_def path_after_schema_def after_schema_range_def sub_def
      str_slice_def sch_sep_scheme [OF assms])

lemma host_sep_scheme:
  assumes "scheme_ok sc"
  shows "host_sep (ap_new (sc @ CHR '':'' # v)) = None \<longleftrightarrow> \<not> starts_with v ''//''"
proof -
  have "length sc \<noteq> 1" using assms by (simp add: scheme_ok_def)
  then show ?thesis
    using sch_sep_scheme [OF assms, of v]
    by (cases v; cases "tl v")
      (auto simp: host_sep_new find_host_def Let_def starts_with_def nth_append)
qed

lemma hierarchical_parts:
  fixes rest :: string
  assumes "scheme_ok sc" "list_all (\<lambda>c. c \<notin> set ''#?/'') net"
  defines "s \<equiv> sc @ CHR '':'' # CHR ''/'' # CHR ''/'' # net @ CHR ''/'' # rest"
  shows "has_hostname (ap_new s)" "hostname (ap_new s) = net" "resource (ap_new s) = CHR ''/'' # rest"
proof -
  let ?pre = "sc @ ''://'' @ net" and ?ap = "ap_new s"
  note sc = scheme_okD [OF assms(1)]
  have net: "CHR ''#'' \<notin> set net" "CHR ''?'' \<notin> set net" "CHR ''/'' \<notin> set net"
    using assms(2) by (auto simp: list_all_iff)
  have s: "s = (?pre @ ''/'') @ rest" "length s = length sc + length net + 4 + length rest"
    by (simp_all add: s_def)
  have "length (?pre @ ''/'') \<le> path_end ?ap"
    using seps_after [of "?pre @ ''/''" rest] sc net s(2) unfolding path_end_def ap_path_new s(1)
    by (cases "param_sep ?ap"; cases "anc_sep ?ap") (auto simp: s(1))
  then have pe: "length sc + length net + 4 \<le> path_end ?ap" by simp
  have sch: "sch_sep ?ap = Some (length sc)"
    unfolding s_def by (rule sch_sep_scheme [OF assms(1)])
  have drop3: "drop (length sc + 3) s = net @ CHR ''/'' # rest"
    by (simp add: s_def numeral_3_eq_3)
  have "str_slice s (length sc + 3) (path_end ?ap)
      = net @ take (path_end ?ap - (length sc + 3) - length net) (CHR ''/'' # rest)"
    using pe by (simp add: str_slice_def drop3)
  also have "path_end ?ap - (length sc + 3) - length net = Suc (path_end ?ap - (length sc + 4 + length net))"
    using pe by simp
  finally have "str_find CHR ''/'' (str_slice s (length sc + 3) (path_end ?ap)) = Some (length net)"
    using str_find_here [OF net(3)] by simp
  then have host: "host_sep ?ap = Some (length sc + 3 + length net)"
    using assms(1) sch
    by (auto simp: host_sep_new find_host_def Let_def scheme_ok_def s_def nth_append numeral_3_eq_3)
  show "has_hostname ?ap" by (simp add: has_hostname_def host)
  show "hostname ?ap = net"
    using drop3 by (simp add: hostname_def hostname_range_def sub_def str_slice_def sch host)
  show "resource ?ap = CHR ''/'' # rest"
    by (simp add: resource_def resource_range_def path_start_def start_of_def sub_def str_slice_def
        host) (simp add: s_def numeral_3_eq_3)
qed

lemma scheme_from_known [simp]:
  "scheme_from X ''bid'' = SchemeBid" "scheme_from X ''bref'' = SchemeBref"
  "scheme_from X ''id'' = SchemeId" "scheme_from X ''path'' = SchemePath"
proof -
  have ascii: "list_all is_ascii ''bid''" "list_all is_ascii ''bref''" "list_all is_ascii ''id''"
    "list_all is_ascii ''path''" by code_simp+
  have low: "trim (map to_ascii_lower ''bid'') = ''bid''" "trim (map to_ascii_lower ''bref'') = ''bref''"
    "trim (map to_ascii_lower ''id'') = ''id''" "trim (map to_ascii_lower ''path'') = ''path''"
    by code_simp+
  show "scheme_from X ''bid'' = SchemeBid" "scheme_from X ''bref'' = SchemeBref"
    "scheme_from X ''id'' = SchemeId" "scheme_from X ''path'' = SchemePath"
    unfolding scheme_from_def to_lowercase_def Let_def if_P [OF ascii(1)] if_P [OF ascii(2)]
      if_P [OF ascii(3)] if_P [OF ascii(4)] low by simp_all
qed

lemma scheme_ok_known [simp]:
  "scheme_ok ''bid''" "scheme_ok ''bref''" "scheme_ok ''id''" "scheme_ok ''path''"
  by (simp_all add: scheme_ok_def)

lemma trim_start_none: "\<not> starts_with v ''/'' \<Longrightarrow> trim_start_matches CHR ''/'' v = v"
  by (cases v) (auto simp: trim_start_matches_def starts_with_def)

lemma not_double: "\<not> starts_with v ''/'' \<Longrightarrow> \<not> starts_with v ''//''"
  by (cases v) (auto simp: starts_with_def)

lemma parse_flat:
  assumes "scheme_ok sc" "v \<noteq> []" "\<not> starts_with v ''/''"
  shows "parse_network_and_value X (ap_new (sc @ CHR '':'' # v)) scheme = Inr (bref_of X nil_bid, v)"
  using assms host_sep_scheme [of sc v]
  by (simp add: parse_network_and_value_def has_hostname_def scheme_parts trim_start_none
      not_double)

lemma parse_hierarchical:
  assumes "scheme_ok sc" "list_all (\<lambda>c. c \<notin> set ''#?/'') host" "host \<noteq> []"
    "net_from X host = Some net" "v \<noteq> []" "\<not> starts_with v ''/''"
  shows "parse_network_and_value X
    (ap_new (sc @ CHR '':'' # CHR ''/'' # CHR ''/'' # host @ CHR ''/'' # v)) scheme = Inr (net, v)"
proof -
  have "trim_start_matches CHR ''/'' (CHR ''/'' # v) = v"
    using trim_start_none [OF assms(6)] by (simp add: trim_start_matches_def)
  with assms hierarchical_parts [OF assms(1,2), of v] show ?thesis
    by (simp add: parse_network_and_value_def)
qed

lemma bref_display_plain: "list_all (\<lambda>c. c \<notin> set ''#?/'') (bref_display r)" "bref_display r \<noteq> []"
  "\<not> starts_with (bref_display r) ''/''"
proof -
  have hex: "is_hex_char c" if "c \<in> set (bref_display r)" for c using that by (rule bref_display_hex)
  then show "list_all (\<lambda>c. c \<notin> set ''#?/'') (bref_display r)"
    by (auto simp: list_all_iff is_hex_char_def)
  show ne: "bref_display r \<noteq> []" using length_bref_display [of r] by force
  then show "\<not> starts_with (bref_display r) ''/''"
    using hex [of "hd (bref_display r)"]
    by (cases "bref_display r") (auto simp: starts_with_def is_hex_char_def)
qed

section \<open>Properties\<close>

text \<open>
  The keys that \<open>from_str\<close> builds: identifiers in anchor form, normalised paths without a leading
  slash that a codec (or no extension) keeps out of the asset network, external URLs. For the
  identifiers and networks the crates must read back what they printed.
\<close>

definition net_reads_back :: "'a text_ext_scheme \<Rightarrow> bref \<Rightarrow> bool" where
  "net_reads_back X net \<longleftrightarrow> bref_is_default X net \<or> net_from X (bref_display net) = Some net"

definition canonical_key :: "'a text_ext_scheme \<Rightarrow> 'f codec_map \<Rightarrow> node_key \<Rightarrow> bool" where
  "canonical_key X codecs key =
     (case key of
        KBid b \<Rightarrow>
          uuid_parse X (uuid_hyphenated X (bid_uuid b)) = Some (bid_uuid b)
          \<and> uuid_hyphenated X (bid_uuid b) \<noteq> [] \<and> \<not> starts_with (uuid_hyphenated X (bid_uuid b)) ''/''
      | KBref r \<Rightarrow> hex_decode X (bref_display r) = Some (map char_of (bref_bytes r))
      | KId net i \<Rightarrow>
          net_reads_back X net \<and> i \<noteq> [] \<and> to_anchor X i = i \<and> \<not> starts_with i ''/''
      | KPath net path \<Rightarrow>
          if net = bref_of X href_namespace
          then scheme_from X (schema (ap_new path)) = SchemeExternal
          else net \<noteq> bref_of X asset_namespace \<and> net_reads_back X net
            \<and> path \<noteq> [] \<and> \<not> starts_with path ''/'' \<and> ap_path (normalize (ap_new path)) = path
            \<and> (ext (ap_new path) = [] \<or> codec_get codecs (ap_new path) \<noteq> None))"

lemma strip_prefix_none: "\<not> starts_with v p \<Longrightarrow> strip_prefix_str p v = None"
  by (simp add: strip_prefix_str_def)

lemma path_value_canonical:
  assumes "\<not> starts_with path ''/''" "ap_path (normalize (ap_new path)) = path"
    "ext (ap_new path) = [] \<or> codec_get codecs (ap_new path) \<noteq> None"
  shows "path_value X codecs net path = (net, path)"
  using assms by (auto simp: path_value_def strip_prefix_none)

lemma bref_reads_back:
  "hex_decode X (bref_display r) = Some (map char_of (bref_bytes r)) \<Longrightarrow>
     bref_try_from X (bref_display r) = Inr r"
proof -
  have "map (of_char :: char \<Rightarrow> nat) (map char_of (bref_bytes r)) = bref_bytes r"
    by (auto simp: bref_bytes_def)
  then show "hex_decode X (bref_display r) = Some (map char_of (bref_bytes r)) \<Longrightarrow> ?thesis"
    by (simp add: bref_try_from_def bref_from_bytes_bytes)
qed

text \<open>
  Both forms of a networked key parse to the network and the value, whatever the scheme: the flat
  form when the network is the default one, the hierarchical form otherwise.
\<close>

lemma parse_net_value:
  assumes "scheme_ok sc" "net_reads_back X net" "v \<noteq> []" "\<not> starts_with v ''/''"
  shows "parse_network_and_value X
      (ap_new (if \<not> bref_is_default X net
               then sc @ CHR '':'' # CHR ''/'' # CHR ''/'' # bref_display net @ CHR ''/'' # v
               else sc @ CHR '':'' # v)) scheme = Inr (net, v)"
proof (cases "bref_is_default X net")
  case True
  then show ?thesis
    using parse_flat [OF assms(1,3,4), of X scheme] by (simp add: bref_is_default_def)
next
  case False
  with assms(2) have "net_from X (bref_display net) = Some net" by (simp add: net_reads_back_def)
  from False parse_hierarchical [OF assms(1) bref_display_plain(1,2) this assms(3,4)]
  show ?thesis by simp
qed

lemma key_from_str_scheme:
  assumes "scheme_ok sc" "scheme_from X sc = scheme" "scheme \<noteq> SchemeNone" "scheme \<noteq> SchemeExternal"
  shows "key_from_str X codecs (sc @ CHR '':'' # v) =
    (case parse_network_and_value X (ap_new (sc @ CHR '':'' # v)) scheme of
       Inl e \<Rightarrow> Inl e
     | Inr (net, value) \<Rightarrow>
         (case scheme of
            SchemeBid \<Rightarrow> (case bid_try_from X value of Inl e \<Rightarrow> Inl e | Inr b \<Rightarrow> Inr (KBid b))
          | SchemeBref \<Rightarrow> (case bref_try_from X value of Inl e \<Rightarrow> Inl e | Inr r \<Rightarrow> Inr (KBref r))
          | SchemeId \<Rightarrow> Inr (KId net (to_anchor X value))
          | _ \<Rightarrow> (let (path_net, norm_path) = path_value X codecs net value
                  in Inr (KPath path_net norm_path))))"
proof -
  have sch: "scheme_from X (schema (ap_new (sc @ CHR '':'' # v))) = scheme"
    by (simp add: scheme_parts [OF assms(1)] assms(2))
  show ?thesis
    unfolding key_from_str_def Let_def sch using assms(3,4) by (cases scheme) simp_all
qed

lemma key_roundtrip:
  assumes "canonical_key X codecs key"
  shows "key_from_str X codecs (key_display X key) = Inr key"
proof (cases key)
  case (KBid b)
  let ?v = "uuid_hyphenated X (bid_uuid b)"
  have "parse_network_and_value X (ap_new (''bid'' @ CHR '':'' # ?v)) SchemeBid = Inr (bref_of X nil_bid, ?v)"
    using assms by (intro parse_flat) (simp_all add: canonical_key_def KBid)
  with assms show ?thesis
    using key_from_str_scheme [of "''bid''" X SchemeBid codecs ?v]
    by (simp add: KBid key_display_def bid_display_def bid_try_from_def canonical_key_def)
next
  case (KBref r)
  have "parse_network_and_value X (ap_new (''bref'' @ CHR '':'' # bref_display r)) SchemeBref
      = Inr (bref_of X nil_bid, bref_display r)"
    by (intro parse_flat) (simp_all add: bref_display_plain)
  with assms show ?thesis
    using key_from_str_scheme [of "''bref''" X SchemeBref codecs "bref_display r"]
    by (simp add: KBref key_display_def canonical_key_def bref_reads_back)
next
  case (KId net i)
  have "parse_network_and_value X (ap_new (key_display X key)) SchemeId = Inr (net, i)"
    using parse_net_value [of "''id''" X net i SchemeId] assms
    by (simp add: KId key_display_def canonical_key_def split: if_splits)
  with assms show ?thesis
    using key_from_str_scheme [of "''id''" X SchemeId codecs]
    by (simp add: KId key_display_def canonical_key_def split: if_splits)
next
  case (KPath net path)
  show ?thesis
  proof (cases "net = bref_of X href_namespace")
    case True
    with assms have e: "scheme_from X (schema (ap_new path)) = SchemeExternal"
      by (simp add: canonical_key_def KPath)
    have "path \<noteq> []"
    proof
      assume "path = []"
      then have "schema (ap_new path) = []"
        by (simp add: schema_def schema_range_def sch_sep_new find_schema_def sub_def str_slice_def)
      with e show False by (simp add: scheme_from_def to_lowercase_def trim_def)
    qed
    with e True show ?thesis
      by (simp add: KPath key_display_def content_namespaces_def key_from_str_def)
  next
    case False
    with assms have c: "net \<noteq> bref_of X asset_namespace" "net_reads_back X net" "path \<noteq> []"
        "\<not> starts_with path ''/''" "path_value X codecs net path = (net, path)"
      by (simp_all add: canonical_key_def KPath path_value_canonical)
    have "parse_network_and_value X (ap_new (key_display X key)) SchemePath = Inr (net, path)"
      using parse_net_value [of "''path''" X net path SchemePath] c False
      by (simp add: KPath key_display_def content_namespaces_def split: if_splits)
    with c False show ?thesis
      using key_from_str_scheme [of "''path''" X SchemePath codecs]
      by (simp add: KPath key_display_def content_namespaces_def split: if_splits)
  qed
qed

text \<open>
  C4. Printing and parsing a key: every canonical key is read back from its display, in flat form
  (\<open>id:value\<close>) when its network is implicit and in hierarchical form (\<open>id://network/value\<close>) when it
  is explicit.
\<close>

theorem node_key_roundtrip:
  assumes "canonical_key X codecs key"
  shows "key_from_str X codecs (key_display X key) = Inr key"
  using assms by (rule key_roundtrip)

theorem node_key_roundtrip_witness:
  "key_from_str text_ext_example (codec_create 0 (1 :: nat))
     (key_display text_ext_example (KId (Bref 42) ''ab'')) = Inr (KId (Bref 42) ''ab'')"
proof -
  let ?X = text_ext_example
  have d: "bref_display (Bref 42) = ''00000000002a''"
    by (simp add: bref_display_def bref_bytes_list hex_digit_def)
  have "net_from ?X ''00000000002a'' = Some (Bref 42)"
    by (simp add: net_from_def bid_try_from_def bref_try_from_def ok_of_def text_ext_example_def
        id_ext_example_def id_ext.defs text_ext.defs bref_from_bytes_def)
  moreover have "to_anchor ?X ''ab'' = ''ab''" by code_simp
  ultimately have "canonical_key ?X (codec_create 0 (1 :: nat)) (KId (Bref 42) ''ab'')"
    by (simp add: canonical_key_def net_reads_back_def d starts_with_def)
  from node_key_roundtrip [OF this] show ?thesis .
qed

text \<open>The network of a path or identifier key.\<close>

definition key_net :: "node_key \<Rightarrow> bref option" where
  "key_net key = (case key of KPath net _ \<Rightarrow> Some net | KId net _ \<Rightarrow> Some net | _ \<Rightarrow> None)"

text \<open>
  Regularising a key settles its network: a globally unique key is left alone; an explicit
  network is kept; the default network becomes the base network, or, for an absolute path outside
  the repository, the network of external links.
\<close>

theorem regularize_network:
  "(case key of
      KBid b \<Rightarrow> regularize_unchecked X key base owner root = key
    | KBref r \<Rightarrow> regularize_unchecked X key base owner root = key
    | KId net i \<Rightarrow>
        regularize_unchecked X key base owner root
          = KId (if bref_is_default X net then bref_of X base else net) i
    | KPath net path \<Rightarrow>
        key_net (regularize_unchecked X key base owner root) =
          Some (if net = bref_of X href_namespace then net
                else if (bref_is_default X net \<or> net = bref_of X asset_namespace)
                   \<and> is_absolute (normalize (ap_new path))
                   \<and> \<not> starts_with (ap_path (normalize (ap_new path))) root
                then bref_of X href_namespace
                else if bref_is_default X net then bref_of X base else net))"
  by (cases key) (auto simp: regularize_unchecked_def key_net_def Let_def)

text \<open>
  Resolving a link against a document keeps its network and returns a path that climbs out of
  the repository only when it is the normalised link itself.
\<close>

theorem resolve_against_bounded:
  "(case resolve_against X (KPath net path) doc of
      KPath net' path' \<Rightarrow>
        net' = net
        \<and> (net = bref_of X href_namespace \<or> path' = ap_path (normalize (ap_new path))
            \<or> (path' = ap_path (join X (ap_new doc) (ap_path (normalize (ap_new path))))
               \<and> starts_with path' ''../'' = False))
    | _ \<Rightarrow> False)"
  by (simp add: resolve_against_def Let_def)

text \<open>
  What the built-in registry returns for every path: the network codec for \<open>index.md\<close> and for
  bare directories, the markdown codec for every other \<open>.md\<close> file, nothing otherwise.
\<close>

theorem builtin_codecs:
  "codec_get (codec_create md network) ap =
     (if ext ap = ''md'' then Some (if filestem ap = ''index'' then network else md)
      else if filestem ap = [] \<and> ext ap = [] then Some network else None)"
proof -
  have [simp]: "\<And>e. ''md'' = e \<longleftrightarrow> e = ''md''" "\<And>e. ''index'' = e \<longleftrightarrow> e = ''index''"
    by (rule eq_commute)+
  show ?thesis
    by (simp add: codec_get_def codec_create_def path_parts_def or_else_def)
qed

text \<open>
  Registering a codec replaces the one with the same stem and extension or is added at the
  end: afterwards that pair is registered exactly once if no pair was registered twice before, and
  the entries of all other pairs are as they were.
\<close>

theorem codec_insert_spec:
  "map_of (map (\<lambda>(s, e, f). ((s, e), f)) (codec_insert codecs stem extension factory)) =
     (map_of (map (\<lambda>(s, e, f). ((s, e), f)) codecs)) ((stem, extension) \<mapsto> factory)
   \<and> distinct (map (\<lambda>(s, e, f). (s, e)) (codec_insert codecs stem extension factory))
     = distinct (map (\<lambda>(s, e, f). (s, e)) codecs)"
proof -
  have "map (\<lambda>(s, e, f). (s, e)) (codec_insert codecs stem extension factory) =
      (let ks = map (\<lambda>(s, e, f). (s, e)) codecs
       in if (stem, extension) \<in> set ks then ks else ks @ [(stem, extension)])"
    by (induction codecs) (auto simp: Let_def simp del: set_map split: if_splits)
  then have "distinct (map (\<lambda>(s, e, f). (s, e)) (codec_insert codecs stem extension factory))
      = distinct (map (\<lambda>(s, e, f). (s, e)) codecs)"
    by (simp add: Let_def del: set_map)
  moreover have "map_of (map (\<lambda>(s, e, f). ((s, e), f)) (codec_insert codecs stem extension factory)) =
     (map_of (map (\<lambda>(s, e, f). ((s, e), f)) codecs)) ((stem, extension) \<mapsto> factory)"
    by (induction codecs) (auto simp: fun_upd_twist)
  ultimately show ?thesis by blast
qed

end
