(* ===== verification/Events.thy ===== *)
theory Events
  imports NodeKeys
begin

text \<open>
  Events (\<open>event.rs\<close>): the changes that the components send each other, their origin, and the
  equality the test suites and queues compare them with. A node travels as its TOML text, a path of
  the file system as its text.
\<close>

datatype event_origin = Local | Remote

datatype belief_event =
    NodeUpdate "node_key list" string event_origin
  | NodesRemoved "bid list" event_origin
  | NodeRenamed bid bid event_origin
  | PathAdded bref string bid "u16 list" event_origin
  | PathUpdate bref string bid "u16 list" event_origin
  | PathsRemoved bref "string list" event_origin
  | RelationUpdate bid bid weight_set event_origin
  | RelationChange bid bid weight_kind "weight option" event_origin
  | RelationRemoved bid bid event_origin
  | FileParsed string
  | BatchStart
  | BatchEnd
  | BuiltInTest

definition origin :: "belief_event \<Rightarrow> event_origin option" where
  "origin ev =
     (case ev of
        NodeUpdate _ _ orig \<Rightarrow> Some orig
      | NodesRemoved _ orig \<Rightarrow> Some orig
      | NodeRenamed _ _ orig \<Rightarrow> Some orig
      | PathAdded _ _ _ _ orig \<Rightarrow> Some orig
      | PathUpdate _ _ _ _ orig \<Rightarrow> Some orig
      | PathsRemoved _ _ orig \<Rightarrow> Some orig
      | RelationUpdate _ _ _ orig \<Rightarrow> Some orig
      | RelationChange _ _ _ _ orig \<Rightarrow> Some orig
      | RelationRemoved _ _ orig \<Rightarrow> Some orig
      | FileParsed _ \<Rightarrow> None
      | BatchStart \<Rightarrow> None
      | BatchEnd \<Rightarrow> None
      | BuiltInTest \<Rightarrow> None)"

definition with_origin :: "belief_event \<Rightarrow> event_origin \<Rightarrow> belief_event" where
  "with_origin ev new_origin =
     (case ev of
        NodeUpdate k s _ \<Rightarrow> NodeUpdate k s new_origin
      | NodesRemoved b _ \<Rightarrow> NodesRemoved b new_origin
      | NodeRenamed f t _ \<Rightarrow> NodeRenamed f t new_origin
      | PathAdded n p b ord _ \<Rightarrow> PathAdded n p b ord new_origin
      | PathUpdate n p b ord _ \<Rightarrow> PathUpdate n p b ord new_origin
      | PathsRemoved n p _ \<Rightarrow> PathsRemoved n p new_origin
      | RelationUpdate s k w _ \<Rightarrow> RelationUpdate s k w new_origin
      | RelationChange s k wk p _ \<Rightarrow> RelationChange s k wk p new_origin
      | RelationRemoved s k _ \<Rightarrow> RelationRemoved s k new_origin
      | FileParsed p \<Rightarrow> FileParsed p
      | BatchStart \<Rightarrow> BatchStart
      | BatchEnd \<Rightarrow> BatchEnd
      | BuiltInTest \<Rightarrow> BuiltInTest)"

definition event_eq :: "belief_event \<Rightarrow> belief_event \<Rightarrow> bool" where
  "event_eq a b =
     (case (a, b) of
        (NodeUpdate l0 l1 l2, NodeUpdate r0 r1 r2) \<Rightarrow> l0 = r0 \<and> l1 = r1 \<and> l2 = r2
      | (NodesRemoved l0 l1, NodesRemoved r0 r1) \<Rightarrow> l0 = r0 \<and> l1 = r1
      | (NodeRenamed l0 l1 l2, NodeRenamed r0 r1 r2) \<Rightarrow> l0 = r0 \<and> l1 = r1 \<and> l2 = r2
      | (PathAdded l0 l1 l2 l3 l4, PathAdded r0 r1 r2 r3 r4) \<Rightarrow>
          l0 = r0 \<and> l1 = r1 \<and> l2 = r2 \<and> l3 = r3 \<and> l4 = r4
      | (PathUpdate l0 l1 l2 l3 l4, PathUpdate r0 r1 r2 r3 r4) \<Rightarrow>
          l0 = r0 \<and> l1 = r1 \<and> l2 = r2 \<and> l3 = r3 \<and> l4 = r4
      | (PathsRemoved l0 l1 l2, PathsRemoved r0 r1 r2) \<Rightarrow> l0 = r0 \<and> l1 = r1 \<and> l2 = r2
      | (RelationUpdate l0 l1 l2 l3, RelationUpdate r0 r1 r2 r3) \<Rightarrow>
          l0 = r0 \<and> l1 = r1 \<and> ws_eq l2 r2 \<and> l3 = r3
      | (RelationChange l0 l1 l2 l3 l4, RelationChange r0 r1 r2 r3 r4) \<Rightarrow>
          l0 = r0 \<and> l1 = r1 \<and> l2 = r2 \<and> rel_option weight_eq l3 r3 \<and> l4 = r4
      | (RelationRemoved l0 l1 l2, RelationRemoved r0 r1 r2) \<Rightarrow> l0 = r0 \<and> l1 = r1 \<and> l2 = r2
      | (FileParsed l0, FileParsed r0) \<Rightarrow> l0 = r0
      | _ \<Rightarrow> False)"

definition event_display :: "belief_event \<Rightarrow> string" where
  "event_display ev =
     (case ev of
        NodeUpdate _ _ _ \<Rightarrow> ''NodeUpdate''
      | NodesRemoved _ _ \<Rightarrow> ''NodesRemoved''
      | NodeRenamed _ _ _ \<Rightarrow> ''NodeRenamed''
      | PathAdded _ _ _ _ _ \<Rightarrow> ''PathAdded''
      | PathUpdate _ _ _ _ _ \<Rightarrow> ''PathUpdate''
      | PathsRemoved _ _ _ \<Rightarrow> ''PathsRemoved''
      | RelationUpdate _ _ _ _ \<Rightarrow> ''RelationUpdate''
      | RelationChange _ _ _ _ _ \<Rightarrow> ''RelationChange''
      | RelationRemoved _ _ _ \<Rightarrow> ''RelationRemoved''
      | FileParsed _ \<Rightarrow> ''FileParsed''
      | BatchStart \<Rightarrow> ''BatchStart''
      | BatchEnd \<Rightarrow> ''BatchEnd''
      | BuiltInTest \<Rightarrow> ''BuiltInTest'')"

section \<open>Properties\<close>

text \<open>
  Changing the origin of an event changes nothing else: the new origin is read back from every
  event that has one, an event without an origin is untouched, changing it back restores the event.
\<close>

theorem with_origin_spec:
  "origin (with_origin ev new) = map_option (\<lambda>_. new) (origin ev)
   \<and> with_origin (with_origin ev new) (unwrap_or (origin ev) new) = ev
   \<and> event_display (with_origin ev new) = event_display ev"
  by (cases ev) (simp_all add: origin_def with_origin_def event_display_def)

text \<open>
  Event equality is symmetric, and reflexive exactly on the events that carry data: a batch
  marker or a self-test request is not equal to itself, although the type claims \<open>Eq\<close>.
\<close>

theorem event_eq_reflexive:
  "event_eq ev ev = (ev \<noteq> BatchStart \<and> ev \<noteq> BatchEnd \<and> ev \<noteq> BuiltInTest)
   \<and> event_eq a b = event_eq b a"
proof -
  have sym: "weight_eq x y = weight_eq y x" for x y by (auto simp: weight_eq_def)
  have "ws_eq x y = ws_eq y x" for x y
    by (auto simp: ws_eq_def list_all2_conv_all_nth sym)
  moreover have "rel_option weight_eq x y = rel_option weight_eq y x" for x y
    by (cases x; cases y) (auto simp: sym)
  ultimately have "event_eq a b = event_eq b a"
    by (cases a; cases b) (auto simp: event_eq_def)
  moreover have "rel_option weight_eq x x" for x by (cases x) auto
  ultimately show ?thesis by (cases ev) (simp_all add: event_eq_def)
qed

end
