(* ===== verification/Queries.thy ===== *)
theory Queries
  imports Events
begin

text \<open>
  The query language (\<open>query.rs\<close>): predicates on nodes and relations, expressions, their evaluation
  on a single node or relation, their translation to SQL, traversals and the focus of a reader.

  An SQL builder is the list of what is pushed to it: text, bound strings and bound integers. The
  regular expression engine and the debug printer of a weight are the fields \<open>query_ext\<close> adds.
\<close>

section \<open>Expressions\<close>

record query_ext = text_ext +
  regex_is_match :: "string \<Rightarrow> toml \<Rightarrow> bool"
  weight_debug :: "weight \<Rightarrow> string"

definition DEFAULT_QUERY_DISTANCE :: nat where "DEFAULT_QUERY_DISTANCE = 5"
definition MAX_TRAVERSAL :: nat where "MAX_TRAVERSAL = 10"
definition BALANCE_CUTOFF :: nat where "BALANCE_CUTOFF = 10"
definition DEFAULT_LIMIT :: nat where "DEFAULT_LIMIT = 100"

datatype state_pred =
    PAny
  | PInNamespace "bref list"
  | PBid "bid list"
  | PBref "bref list"
  | PNetId bref string
  | PSchema string
  | PKind kind_set
  | PNetPath bref string
  | PNetPathIn bid
  | PPath "string list"
  | PPayload string string

datatype relation_pred =
    RAny
  | RSinkIn "bid list"
  | RSourceIn "bid list"
  | RNodeIn "bid list"
  | RKind weight_set

datatype set_op = SetUnion | SetIntersection | SetDifference | SetSymmetricDifference

datatype expression =
    StateIn state_pred
  | StateNotIn state_pred
  | RelationIn relation_pred
  | RelationNotIn relation_pred
  | Dyad expression set_op expression

definition key_expression :: "node_key \<Rightarrow> expression" where
  "key_expression key =
     (case key of
        KBid b \<Rightarrow> StateIn (PBid [b])
      | KBref r \<Rightarrow> StateIn (PBref [r])
      | KPath net path \<Rightarrow> StateIn (PNetPath net path)
      | KId net i \<Rightarrow> StateIn (PNetId net i))"

definition match_state :: "'a query_ext_scheme \<Rightarrow> state_pred \<Rightarrow> node \<Rightarrow> bool" where
  "match_state X pred n =
     (case pred of
        PAny \<Rightarrow> True
      | PInNamespace ns_vec \<Rightarrow> parent_bref (nd_bid n) \<in> set ns_vec
      | PBid _ \<Rightarrow> False
      | PBref bref_vec \<Rightarrow> bref_of X (nd_bid n) \<in> set bref_vec
      | PSchema s \<Rightarrow> nd_schema n = Some s
      | PNetId _ _ \<Rightarrow> False
      | PKind kinds \<Rightarrow> nd_kind n \<subseteq> kinds
      | PPath _ \<Rightarrow> False
      | PNetPath _ _ \<Rightarrow> False
      | PNetPathIn _ \<Rightarrow> False
      | PPayload key re \<Rightarrow>
          (case bm_get (nd_payload n) key of
             Some value \<Rightarrow> regex_is_match X re value
           | None \<Rightarrow> False))"

definition match_ref :: "relation_pred \<Rightarrow> bid \<Rightarrow> bid \<Rightarrow> weight_set \<Rightarrow> bool" where
  "match_ref pred source sink ws =
     (case pred of
        RAny \<Rightarrow> True
      | RSinkIn bids \<Rightarrow> sink \<in> set bids
      | RSourceIn bids \<Rightarrow> source \<in> set bids
      | RNodeIn bids \<Rightarrow> source \<in> set bids \<or> sink \<in> set bids
      | RKind kinds \<Rightarrow> \<not> ws_is_empty (ws_intersection ws kinds))"

section \<open>Translation to SQL\<close>

datatype sql_part = Push string | BindText string | BindInt nat

type_synonym query_builder = "sql_part list"

definition push_separated ::
    "(string \<Rightarrow> sql_part list) \<Rightarrow> sql_part \<Rightarrow> string list \<Rightarrow> query_builder" where
  "push_separated item sep items =
     (let last_sep = (if items \<noteq> [] then length items - 1 else 0)
      in concat (map (\<lambda>(idx, x). item x @ (if idx < last_sep then [sep] else []))
           (List.enumerate 0 items)))"

definition push_id_expr :: "string list \<Rightarrow> string \<Rightarrow> bool \<Rightarrow> query_builder" where
  "push_id_expr bids column match_pred =
     [Push column, Push (if match_pred then '' IN('' else '' NOT IN('')]
     @ push_separated (\<lambda>b. [BindText b]) (Push '', '') bids @ [Push '') '']"

definition push_string_expr :: "string list \<Rightarrow> string \<Rightarrow> bool \<Rightarrow> bool \<Rightarrow> query_builder" where
  "push_string_expr strings column match_pred by_prefix =
     push_separated
       (\<lambda>s. [Push (column @ '' ''
                  @ (if match_pred then [] else if by_prefix then ''NOT '' else ''!'')
                  @ (if by_prefix then ''GLOB concat('' else ''='') @ '' ''), BindText s]
            @ (if by_prefix then [Push ('', '' @ [CHR 0x27, CHR ''*'', CHR 0x27] @ '')'')] else []))
       (Push (if match_pred then '' OR '' else '' AND '')) strings"

definition push_namespace_expr :: "string list \<Rightarrow> string \<Rightarrow> bool \<Rightarrow> query_builder" where
  "push_namespace_expr namespaces column match_pred =
     push_separated
       (\<lambda>r. [Push (column @ '' '' @ (if match_pred then [] else ''NOT '')
                  @ ''LIKE concat('' @ [CHR 0x27, CHR ''%'', CHR 0x27] @ '', ''),
            BindText r, Push '') ''])
       (Push (if match_pred then '' OR '' else '' AND '')) namespaces"

text \<open>\<open>EnumSet::as_u32\<close>: one bit per kind, in declaration order.\<close>

definition kind_bit :: "belief_kind \<Rightarrow> nat" where
  "kind_bit k =
     (case k of
        API \<Rightarrow> 0 | Network \<Rightarrow> 1 | Action \<Rightarrow> 2 | Core \<Rightarrow> 3 | Symbol \<Rightarrow> 4 | Document \<Rightarrow> 5
      | External \<Rightarrow> 6 | Trace \<Rightarrow> 7)"

definition all_kinds :: "belief_kind list" where
  "all_kinds = [API, Network, Action, Core, Symbol, Document, External, Trace]"

definition kind_mask :: "kind_set \<Rightarrow> nat" where
  "kind_mask ks = sum_list (map (\<lambda>k. if k \<in> ks then 2 ^ kind_bit k else 0) all_kinds)"

definition state_sql :: "'a query_ext_scheme \<Rightarrow> state_pred \<Rightarrow> bool \<Rightarrow> query_builder" where
  "state_sql X pred match_pred =
     (case pred of
        PPath _ \<Rightarrow> [Push ''SELECT DISTINCT target as bid FROM paths WHERE '']
      | PNetPath _ _ \<Rightarrow> [Push ''SELECT DISTINCT target as bid FROM paths WHERE '']
      | PNetPathIn _ \<Rightarrow> [Push ''SELECT DISTINCT target as bid FROM paths WHERE '']
      | _ \<Rightarrow> [Push ''SELECT DISTINCT bid FROM beliefs WHERE ''])
     @ (case pred of
          PAny \<Rightarrow>
            [Push (''bid '' @ (if match_pred then [] else ''NOT '') @ ''LIKE ''
                   @ [CHR 0x27, CHR ''%'', CHR 0x27])]
        | PInNamespace ns_vec \<Rightarrow> push_namespace_expr (map bref_display ns_vec) ''bid'' match_pred
        | PBid bids \<Rightarrow> push_id_expr (map (bid_display X) bids) ''bid'' match_pred
        | PBref brefs \<Rightarrow> push_id_expr (map bref_display brefs) ''bref'' match_pred
        | PNetId _ i \<Rightarrow> [Push ''id = '', BindText i]
        | PSchema s \<Rightarrow> push_id_expr [s] ''schema'' match_pred
        | PKind kinds \<Rightarrow>
            [Push ''kind & '', BindInt (kind_mask kinds), Push (if match_pred then '' = '' else '' != ''),
             BindInt (kind_mask kinds)]
        | PNetPath net path \<Rightarrow>
            [Push ''path = '', BindText path, Push '' AND net = '', BindText (bref_display net)]
        | PNetPathIn net \<Rightarrow> [Push ''net = '', BindText (bid_display X net)]
        | PPath paths \<Rightarrow> push_string_expr paths ''path'' match_pred False
        | PPayload _ _ \<Rightarrow> [])"

text \<open>
  The kind clause iterates over the weight set, so what it prints as a column name is the debug form
  of a kind and its weight.
\<close>

definition kind_column :: "'a query_ext_scheme \<Rightarrow> weight_kind \<times> weight \<Rightarrow> string" where
  "kind_column X kw =
     to_lowercase X (''('' @ weight_kind_display (fst kw) @ '', '' @ weight_debug X (snd kw) @ '')'')"

definition relation_where :: "'a query_ext_scheme \<Rightarrow> relation_pred \<Rightarrow> bool \<Rightarrow> query_builder" where
  "relation_where X pred match_pred =
     (case pred of
        RAny \<Rightarrow>
          [Push (''source '' @ (if match_pred then [] else ''NOT '') @ ''LIKE ''
                 @ [CHR 0x27, CHR ''%'', CHR 0x27])]
      | RSinkIn bids \<Rightarrow> push_id_expr (map (bid_display X) bids) ''sink'' match_pred
      | RSourceIn bids \<Rightarrow> push_id_expr (map (bid_display X) bids) ''source'' match_pred
      | RNodeIn _ \<Rightarrow> []
      | RKind kinds \<Rightarrow>
          [Push (str_join '' AND ''
             (map (\<lambda>kw. kind_column X kw @ '' IS'' @ (if \<not> match_pred then [] else '' NOT'')
                        @ '' NULL'') (weights kinds)))])"

definition select_relations :: "query_builder \<Rightarrow> query_builder" where
  "select_relations clause =
     [Push ''SELECT DISTINCT source as bid FROM relations WHERE ''] @ clause
     @ [Push ''UNION SELECT DISTINCT sink as bid FROM relations WHERE ''] @ clause"

text \<open>The clause of \<open>NodeIn\<close> is built from two whole queries.\<close>

definition relation_sql :: "'a query_ext_scheme \<Rightarrow> relation_pred \<Rightarrow> bool \<Rightarrow> query_builder" where
  "relation_sql X pred match_pred =
     select_relations
       (case pred of
          RNodeIn bids \<Rightarrow>
            select_relations (relation_where X (RSourceIn bids) match_pred)
            @ [Push '' OR ''] @ select_relations (relation_where X (RSinkIn bids) match_pred)
        | _ \<Rightarrow> relation_where X pred match_pred)"

definition set_op_sql :: "set_op \<Rightarrow> query_builder \<Rightarrow> query_builder \<Rightarrow> query_builder" where
  "set_op_sql op_name lhs rhs =
     [Push ''SELECT * FROM ( ''] @ lhs @ [Push '') '']
     @ [Push (case op_name of
                SetUnion \<Rightarrow> ''UNION '' | SetIntersection \<Rightarrow> ''INTERSECT ''
              | SetDifference \<Rightarrow> ''EXCEPT '' | SetSymmetricDifference \<Rightarrow> ''EXCEPT '')]
     @ [Push ''SELECT * FROM ( ''] @ rhs @ [Push '')'']"

fun expression_sql :: "'a query_ext_scheme \<Rightarrow> expression \<Rightarrow> bool \<Rightarrow> query_builder" where
  "expression_sql X (StateIn pred) match_pred = state_sql X pred match_pred"
| "expression_sql X (StateNotIn pred) match_pred = state_sql X pred (\<not> match_pred)"
| "expression_sql X (RelationIn pred) match_pred = relation_sql X pred match_pred"
| "expression_sql X (RelationNotIn pred) match_pred = relation_sql X pred (\<not> match_pred)"
| "expression_sql X (Dyad lhs SetSymmetricDifference rhs) match_pred =
     (let l = expression_sql X lhs match_pred; r = expression_sql X rhs match_pred
      in [Push ''SELECT * FROM ( ''] @ set_op_sql SetDifference l r
         @ [Push '') UNION SELECT * FROM ( ''] @ set_op_sql SetDifference r l @ [Push '')''])"
| "expression_sql X (Dyad lhs op_name rhs) match_pred =
     set_op_sql op_name (expression_sql X lhs match_pred) (expression_sql X rhs match_pred)"

section \<open>Traversals and focus\<close>

record neighbors_expression =
  nb_filter :: "weight_set option"
  nb_upstream :: nat
  nb_downstream :: nat

record belief_query =
  q_seed :: expression
  q_traverse :: "neighbors_expression option"

record 'b results_page =
  rp_count :: nat
  rp_start :: nat
  rp_results :: 'b

text \<open>\<open>AsRun\<close>, of which \<open>Focus\<close> reads the document path.\<close>

record as_run =
  ar_doc_path :: string

record focus =
  fc_awareness :: "bid list"
  fc_radius :: nat
  fc_attention :: "as_run list"

definition focus_default :: focus where
  "focus_default =
     \<lparr>fc_awareness = [], fc_radius = DEFAULT_QUERY_DISTANCE, fc_attention = []\<rparr>"

definition as_query :: "focus \<Rightarrow> belief_query option" where
  "as_query f =
     (if fc_awareness f \<noteq> []
      then Some \<lparr>q_seed = StateIn (PBid (fc_awareness f)),
                 q_traverse = Some \<lparr>nb_filter = None, nb_upstream = fc_radius f,
                                    nb_downstream = fc_radius f\<rparr>\<rparr>
      else None)"

definition get_run :: "focus \<Rightarrow> string \<Rightarrow> as_run option" where
  "get_run f path = find (\<lambda>ar. ar_doc_path ar = path) (fc_attention f)"

section \<open>Lemmas\<close>

fun bindings :: "query_builder \<Rightarrow> string list" where
  "bindings [] = []"
| "bindings (BindText s # qb) = s # bindings qb"
| "bindings (_ # qb) = bindings qb"

lemma bindings_append [simp]: "bindings (a @ b) = bindings a @ bindings b"
  by (induction a rule: bindings.induct) auto

lemma bindings_separated_aux:
  assumes "\<And>x. bindings (item x) = [x]"
  shows "bindings (concat (map (\<lambda>(idx, x). item x @ (if idx < (n :: nat) then [Push sep] else []))
    (List.enumerate k xs))) = xs"
  by (induction xs arbitrary: k) (auto simp: assms)

lemma bindings_separated:
  "(\<And>x. bindings (item x) = [x]) \<Longrightarrow> bindings (push_separated item (Push sep) xs) = xs"
  unfolding push_separated_def Let_def by (rule bindings_separated_aux)

text \<open>The separators stand between the items: one fewer of them than items.\<close>

fun between_items :: "(string \<Rightarrow> sql_part list) \<Rightarrow> sql_part \<Rightarrow> string list \<Rightarrow> query_builder" where
  "between_items item sep [] = []"
| "between_items item sep [x] = item x"
| "between_items item sep (x # xs) = item x @ sep # between_items item sep xs"

lemma separated_between_aux:
  "concat (map (\<lambda>(idx, x). item x @ (if idx < k + (length xs - 1) then [sep] else []))
    (List.enumerate k xs)) = between_items item sep xs"
proof (induction item sep xs arbitrary: k rule: between_items.induct)
  case (3 item sep x y xs)
  from "3.IH" [of "Suc k"] show ?case by simp
qed simp_all

lemma separated_between: "push_separated item sep xs = between_items item sep xs"
proof (cases xs)
  case (Cons x ys)
  then show ?thesis
    using separated_between_aux [of item 0 xs sep] by (simp add: push_separated_def Let_def)
qed (simp add: push_separated_def)

lemma all_kinds_complete: "k \<in> set all_kinds"
  by (cases k) (simp_all add: all_kinds_def)

lemma length_all_kinds: "length all_kinds = 8"
  by (simp add: all_kinds_def)

lemma bm_get_empty_iff: "m = [] \<longleftrightarrow> (\<forall>k. bm_get m k = None)"
proof (cases m)
  case (Cons e es)
  then have "bm_get m (fst e) \<noteq> None" by (cases e) (simp add: bm_get_def)
  with Cons show ?thesis by auto
qed simp

lemma match_kind_iff:
  "match_ref (RKind kinds) source sink ws \<longleftrightarrow> (\<exists>k. ws_get ws k \<noteq> None \<and> ws_get kinds k \<noteq> None)"
proof -
  have "ws_get (ws_intersection ws kinds) k = None \<longleftrightarrow> ws_get ws k = None \<or> ws_get kinds k = None" for k
  proof -
    have rev: "map_of (rev (weights ws)) k = None \<longleftrightarrow> bm_get (weights ws) k = None"
      by (simp add: bm_get_def map_of_eq_None_iff)
    show ?thesis
      using rev by (cases "map_of (rev (weights ws)) k")
        (auto simp: ws_get_def ws_intersection_def bm_get_fold_filter bm_contains_def)
  qed
  moreover have "ws_is_empty s \<longleftrightarrow> (\<forall>k. ws_get s k = None)" for s
    unfolding ws_is_empty_def ws_get_def by (rule bm_get_empty_iff)
  ultimately have "ws_is_empty (ws_intersection ws kinds) \<longleftrightarrow>
      (\<forall>k. ws_get ws k = None \<or> ws_get kinds k = None)" by simp
  then show ?thesis by (auto simp: match_ref_def)
qed

lemma kind_mask_horner: "kind_mask ks = horner_sum of_bool 2 (map (\<lambda>k. k \<in> ks) all_kinds)"
  by (simp add: kind_mask_def all_kinds_def kind_bit_def)

lemma kind_mask_bit: "bit (kind_mask ks) i \<longleftrightarrow> i < 8 \<and> all_kinds ! i \<in> ks"
proof -
  show ?thesis
    unfolding kind_mask_horner bit_horner_sum_bit_iff by (auto simp: length_all_kinds)
qed

lemma kind_mask_subset: "kind_mask a AND kind_mask b = kind_mask a \<longleftrightarrow> a \<subseteq> b"
proof
  assume "a \<subseteq> b"
  then show "kind_mask a AND kind_mask b = kind_mask a"
    by (intro bit_eqI) (auto simp: bit_and_iff kind_mask_bit)
next
  assume eq: "kind_mask a AND kind_mask b = kind_mask a"
  show "a \<subseteq> b"
  proof
    fix k assume "k \<in> a"
    obtain i where i: "i < 8" "all_kinds ! i = k"
      using all_kinds_complete [of k] length_all_kinds unfolding in_set_conv_nth by auto
    with \<open>k \<in> a\<close> have "bit (kind_mask a AND kind_mask b) i"
      unfolding eq by (simp add: kind_mask_bit)
    with i show "k \<in> b" by (simp add: bit_and_iff kind_mask_bit)
  qed
qed

section \<open>Properties\<close>

text \<open>
  The SQL membership test binds exactly the identifiers asked for, in order, with a comma
  between two of them and none after the last.
\<close>

theorem id_expr_bindings:
  "bindings (push_id_expr ids column m) = ids
   \<and> push_id_expr ids column m =
       [Push column, Push (if m then '' IN('' else '' NOT IN('')]
       @ between_items (\<lambda>b. [BindText b]) (Push '', '') ids @ [Push '') '']"
proof -
  have "bindings (push_separated (\<lambda>b. [BindText b]) (Push '', '') ids) = ids"
    by (rule bindings_separated) simp
  then show ?thesis by (simp add: push_id_expr_def separated_between)
qed

text \<open>
  The two evaluations of a \<open>Kind\<close> predicate differ: the SQL test \<open>kind & m = m\<close> selects the
  nodes whose kinds include the predicate's, the in-memory match the nodes whose kinds are included
  in it.
\<close>

theorem kind_predicate_readings:
  "state_sql X (PKind kinds) True =
     [Push ''SELECT DISTINCT bid FROM beliefs WHERE '', Push ''kind & '', BindInt (kind_mask kinds),
      Push '' = '', BindInt (kind_mask kinds)]
   \<and> (kind_mask (nd_kind n) AND kind_mask kinds = kind_mask kinds) = (kinds \<subseteq> nd_kind n)
   \<and> match_state X (PKind kinds) n = (nd_kind n \<subseteq> kinds)"
proof -
  have "kind_mask (nd_kind n) AND kind_mask kinds = kind_mask kinds \<longleftrightarrow> kinds \<subseteq> nd_kind n"
    using kind_mask_subset [of kinds "nd_kind n"] by (simp add: and.commute)
  then show ?thesis by (simp add: state_sql_def match_state_def)
qed

text \<open>
  C28. The negation of a network predicate is lost in SQL: \<open>StateNotIn\<close> of a network identifier, a
  network path or all paths of a network is the same query as \<open>StateIn\<close>; and the query of \<open>NodeIn\<close>
  nests a whole \<open>SELECT\<close> behind a \<open>WHERE\<close>.
\<close>

theorem sql_negation_lost:
  "expression_sql X (StateNotIn (PNetId net i)) m = expression_sql X (StateIn (PNetId net i)) m
   \<and> expression_sql X (StateNotIn (PNetPath net p)) m = expression_sql X (StateIn (PNetPath net p)) m
   \<and> expression_sql X (StateNotIn (PNetPathIn b)) m = expression_sql X (StateIn (PNetPathIn b)) m
   \<and> take 2 (expression_sql X (RelationIn (RNodeIn bids)) m) =
       [Push ''SELECT DISTINCT source as bid FROM relations WHERE '',
        Push ''SELECT DISTINCT source as bid FROM relations WHERE '']"
  by (simp add: state_sql_def relation_sql_def select_relations_def)

end
