(* ===== verification/Graphs.thy ===== *)
theory Graphs
  imports Queries
begin

text \<open>
  Graphs (\<open>beliefbase/graph.rs\<close>): the relation graph \<open>BidGraph\<close>, the pair of states and relations
  \<open>BeliefGraph\<close> that queries return, its set operations and the operations that merge it into a base.

  A \<open>petgraph::Graph\<close> is its nodes and its edges in insertion order; node indices are replaced by the
  \<open>Bid\<close>s they stand for, which the code keeps unique per graph. The depth-first search of the crate
  is an argument of the definitions that call it: \<open>discover\<close> lists the nodes it discovers from the
  given seeds along the given edges, \<open>tree_edges\<close> the edges by which it discovers them.
\<close>

section \<open>Relation graphs\<close>

type_synonym edge = "bid \<times> bid \<times> weight_set"

record bid_graph =
  g_nodes :: "bid list"
  g_edges :: "edge list"

definition bg_empty :: bid_graph where
  "bg_empty = \<lparr>g_nodes = [], g_edges = []\<rparr>"

definition e_source :: "edge \<Rightarrow> bid" where "e_source e = fst e"
definition e_sink :: "edge \<Rightarrow> bid" where "e_sink e = fst (snd e)"
definition e_weights :: "edge \<Rightarrow> weight_set" where "e_weights e = snd (snd e)"

definition add_node :: "bid \<Rightarrow> bid list \<Rightarrow> bid list" where
  "add_node b nodes = (if b \<in> set nodes then nodes else nodes @ [b])"

definition from_edges :: "edge list \<Rightarrow> bid_graph" where
  "from_edges es =
     \<lparr>g_nodes = fold (\<lambda>e nodes. add_node (e_sink e) (add_node (e_source e) nodes)) es [],
      g_edges = es\<rparr>"

definition graph_filter :: "bid_graph \<Rightarrow> relation_pred \<Rightarrow> bool \<Rightarrow> bid_graph" where
  "graph_filter g pred invert =
     from_edges (filter (\<lambda>e.
       let is_match = match_ref pred (e_source e) (e_sink e) (e_weights e)
       in is_match \<and> \<not> invert \<or> \<not> is_match \<and> invert) (g_edges g))"

text \<open>
  \<open>Graph::remove_edge\<close>: the last edge takes the index of the removed one; an index past the end
  removes nothing. \<open>retain\<close> collects the indices first.
\<close>

definition remove_edge_at :: "nat \<Rightarrow> 'e list \<Rightarrow> 'e list" where
  "remove_edge_at i es =
     (if i < length es then butlast (es[i := last es]) else es)"

definition retain :: "(bid \<Rightarrow> bid \<Rightarrow> weight_set \<Rightarrow> bool) \<Rightarrow> bid_graph \<Rightarrow> bid_graph" where
  "retain f g =
     (let to_remove = filter (\<lambda>i. let e = g_edges g ! i
                                  in \<not> f (e_source e) (e_sink e) (e_weights e))
                        [0..<length (g_edges g)]
      in g\<lparr>g_edges := fold remove_edge_at to_remove (g_edges g)\<rparr>)"

text \<open>The edges of one kind, with their sort key and paths, possibly reversed.\<close>

definition as_subgraph :: "bid_graph \<Rightarrow> weight_kind \<Rightarrow> bool \<Rightarrow> (bid \<times> bid \<times> u16 \<times> string list) list" where
  "as_subgraph g kind rev_edges =
     List.map_filter (\<lambda>e.
       map_option (\<lambda>w.
         let paths = get_doc_paths w; key = unwrap_or (sort_key w) 0
         in if rev_edges then (e_sink e, e_source e, key, paths)
            else (e_source e, e_sink e, key, paths)) (ws_get (e_weights e) kind)) (g_edges g)"

definition subgraph_arcs :: "(bid \<times> bid \<times> 'w) list \<Rightarrow> (bid \<times> bid) list" where
  "subgraph_arcs es = map (\<lambda>(s, t, _). (s, t)) es"

definition subgraph_nodes :: "(bid \<times> bid) list \<Rightarrow> bid list" where
  "subgraph_nodes arcs = bs_from_list (map fst arcs @ map snd arcs)"

type_synonym discover = "(bid \<times> bid) list \<Rightarrow> bid list \<Rightarrow> bid list"

definition reach_in :: "discover \<Rightarrow> (bid \<times> bid) list \<Rightarrow> bid \<Rightarrow> bid list" where
  "reach_in D arcs start_node =
     (if start_node \<in> set (subgraph_nodes arcs) then bs_from_list (D arcs [start_node]) else [])"

definition sink_subgraph :: "discover \<Rightarrow> bid_graph \<Rightarrow> bid \<Rightarrow> weight_kind \<Rightarrow> bid list" where
  "sink_subgraph D g start_node kind =
     reach_in D (subgraph_arcs (as_subgraph g kind False)) start_node"

definition source_subgraph :: "discover \<Rightarrow> bid_graph \<Rightarrow> bid \<Rightarrow> weight_kind \<Rightarrow> bid list" where
  "source_subgraph D g start_node kind =
     reach_in D (subgraph_arcs (as_subgraph g kind True)) start_node"

section \<open>Belief graphs\<close>

record belief_graph =
  states :: "(bid, node) bmap"
  relations :: bid_graph

definition belief_graph_empty :: belief_graph where
  "belief_graph_empty = \<lparr>states = [], relations = bg_empty\<rparr>"

definition belief_graph_is_empty :: "belief_graph \<Rightarrow> bool" where
  "belief_graph_is_empty g \<longleftrightarrow> states g = [] \<and> g_nodes (relations g) = []"

text \<open>\<open>Graph::update_edge\<close>: replaces the weight of the edge between the two nodes, or adds one.\<close>

fun update_edge :: "bid \<Rightarrow> bid \<Rightarrow> weight_set \<Rightarrow> edge list \<Rightarrow> edge list" where
  "update_edge s t w [] = [(s, t, w)]"
| "update_edge s t w (e # es) =
     (if e_source e = s \<and> e_sink e = t then (s, t, w) # es else e # update_edge s t w es)"

definition connect :: "bid \<Rightarrow> bid \<Rightarrow> weight_set \<Rightarrow> bid_graph \<Rightarrow> bid_graph" where
  "connect s t w g =
     \<lparr>g_nodes = add_node t (add_node s (g_nodes g)), g_edges = update_edge s t w (g_edges g)\<rparr>"

definition fill_state ::
    "(bid, node) bmap \<Rightarrow> bid \<Rightarrow> (bid, node) bmap \<Rightarrow> (bid, node) bmap" where
  "fill_state rhs b sts =
     (if bm_contains sts b then sts
      else case bm_get rhs b of Some n \<Rightarrow> bm_insert b n sts | None \<Rightarrow> sts)"

definition arcs :: "bid_graph \<Rightarrow> (bid \<times> bid) list" where
  "arcs g = map (\<lambda>e. (e_source e, e_sink e)) (g_edges g)"

definition merge_edge :: "(bid, node) bmap \<Rightarrow> edge \<Rightarrow> belief_graph \<Rightarrow> belief_graph" where
  "merge_edge rhs_states e g =
     (let source = e_source e; sink = e_sink e
      in if source = sink then g
         else if bm_contains (states g) source \<or> bm_contains (states g) sink
         then
           let sts = fill_state rhs_states source (fill_state rhs_states sink (states g))
           in if bm_contains sts source \<and> bm_contains sts sink
              then \<lparr>states = sts, relations = connect source sink (e_weights e) (relations g)\<rparr>
              else g\<lparr>states := sts\<rparr>
         else g)"

definition add_relations_seeded ::
    "discover \<Rightarrow> belief_graph \<Rightarrow> belief_graph \<Rightarrow> bid list option \<Rightarrow> belief_graph" where
  "add_relations_seeded D self rhs seed_bids =
     (let seeds = bs_from_list (filter (\<lambda>b. case seed_bids of
                      Some allowed \<Rightarrow> b \<in> set allowed
                    | None \<Rightarrow> bm_contains (states self) b) (g_nodes (relations rhs)));
          forward = fold (fill_state (states rhs)) (D (arcs (relations rhs)) seeds) (states self);
          both = fold (fill_state (states rhs))
                   (D (map prod.swap (arcs (relations rhs))) seeds) forward
      in fold (merge_edge (states rhs)) (g_edges (relations rhs)) (self\<lparr>states := both\<rparr>))"

definition add_relations :: "discover \<Rightarrow> belief_graph \<Rightarrow> belief_graph \<Rightarrow> belief_graph" where
  "add_relations D self rhs = add_relations_seeded D self rhs None"

definition complete_nodes :: "belief_graph \<Rightarrow> node list" where
  "complete_nodes g = filter (\<lambda>n. kind_is_complete (nd_kind n)) (bm_values (states g))"

definition insert_nodes :: "node list \<Rightarrow> (bid, node) bmap \<Rightarrow> (bid, node) bmap" where
  "insert_nodes ns sts = fold (\<lambda>n. bm_insert (nd_bid n) n) ns sts"

definition union_mut :: "discover \<Rightarrow> belief_graph \<Rightarrow> belief_graph \<Rightarrow> belief_graph" where
  "union_mut D self rhs =
     add_relations D (self\<lparr>states := insert_nodes (complete_nodes rhs) (states self)\<rparr>) rhs"

definition union :: "discover \<Rightarrow> belief_graph \<Rightarrow> belief_graph \<Rightarrow> belief_graph" where
  "union D self rhs = union_mut D self rhs"

definition union_mut_from :: "discover \<Rightarrow> belief_graph \<Rightarrow> belief_graph \<Rightarrow> bid list \<Rightarrow> belief_graph" where
  "union_mut_from D self rhs seed_bids =
     add_relations_seeded D (self\<lparr>states := insert_nodes (complete_nodes rhs) (states self)\<rparr>) rhs
       (Some seed_bids)"

definition upsert_with_trace :: "node \<Rightarrow> (bid, node) bmap \<Rightarrow> (bid, node) bmap" where
  "upsert_with_trace n sts =
     (case bm_get sts (nd_bid n) of
        None \<Rightarrow> bm_insert (nd_bid n) n sts
      | Some existing \<Rightarrow>
          if \<not> (Trace \<in> nd_kind n \<and> kind_is_complete (nd_kind existing))
          then bm_insert (nd_bid n) n sts else sts)"

definition union_mut_with_trace :: "discover \<Rightarrow> belief_graph \<Rightarrow> belief_graph \<Rightarrow> belief_graph" where
  "union_mut_with_trace D self rhs =
     add_relations D (self\<lparr>states := fold upsert_with_trace (bm_values (states rhs)) (states self)\<rparr>) rhs"

definition select_states :: "belief_graph \<Rightarrow> bid list \<Rightarrow> belief_graph" where
  "select_states g bids =
     \<lparr>states = bm_from_list (List.map_filter (\<lambda>b.
                 map_option (\<lambda>n. (nd_bid n, n)) (bm_get (states g) b)) bids),
      relations = bg_empty\<rparr>"

definition complete_bids :: "belief_graph \<Rightarrow> bid list" where
  "complete_bids g = bs_from_list (map nd_bid (complete_nodes g))"

definition intersection :: "discover \<Rightarrow> belief_graph \<Rightarrow> belief_graph \<Rightarrow> belief_graph" where
  "intersection D self rhs =
     (let common = filter (\<lambda>b. b \<in> set (complete_bids rhs)) (complete_bids self)
      in add_relations D (add_relations D (select_states self common) self) rhs)"

definition difference :: "discover \<Rightarrow> belief_graph \<Rightarrow> belief_graph \<Rightarrow> belief_graph" where
  "difference D self rhs =
     (let only = filter (\<lambda>b. b \<notin> set (complete_bids rhs)) (complete_bids self)
      in add_relations D (add_relations D (select_states self only) self) rhs)"

definition symmetric_difference :: "discover \<Rightarrow> belief_graph \<Rightarrow> belief_graph \<Rightarrow> belief_graph" where
  "symmetric_difference D self rhs = union D (difference D self rhs) (difference D rhs self)"

definition belief_graph_eq :: "belief_graph \<Rightarrow> belief_graph \<Rightarrow> bool" where
  "belief_graph_eq a b \<longleftrightarrow>
     length (states a) = length (filter (\<lambda>k. k \<in> set (bm_keys (states b))) (bm_keys (states a)))"

section \<open>Missing ends\<close>

definition find_orphaned_edges :: "belief_graph \<Rightarrow> bid list" where
  "find_orphaned_edges g =
     bs_from_list (concat (map (\<lambda>e.
       (if bm_contains (states g) (e_source e) then [] else [e_source e])
       @ (if bm_contains (states g) (e_sink e) then [] else [e_sink e])) (g_edges (relations g))))"

datatype direction = Incoming | Outgoing

text \<open>\<open>Graph::externals\<close>: the nodes without edges to them, or from them.\<close>

definition externals :: "bid_graph \<Rightarrow> direction \<Rightarrow> bid list" where
  "externals g d =
     filter (\<lambda>b. \<not> list_ex (\<lambda>e. (case d of Incoming \<Rightarrow> e_sink e | Outgoing \<Rightarrow> e_source e) = b) (g_edges g))
       (g_nodes g)"

definition find_externals :: "belief_graph \<Rightarrow> weight_set option \<Rightarrow> direction \<Rightarrow> bid list" where
  "find_externals g maybe_weights d =
     (let filter_weights = unwrap_or maybe_weights ws_full;
          filtered = graph_filter (relations g) (RKind filter_weights) False;
          other = (case d of Incoming \<Rightarrow> Outgoing | Outgoing \<Rightarrow> Incoming)
      in bs_from_list (filter (\<lambda>b. b \<notin> set (externals filtered other)) (externals filtered d)))"

definition build_upstream_expr :: "belief_graph \<Rightarrow> weight_set option \<Rightarrow> expression option" where
  "build_upstream_expr g ws =
     (let bids = find_externals g ws Incoming
      in if bids = [] then None else Some (StateIn (PBid bids)))"

definition build_downstream_expr :: "belief_graph \<Rightarrow> weight_set option \<Rightarrow> expression option" where
  "build_downstream_expr g ws =
     (let bids = find_externals g ws Outgoing
      in if bids = [] then None else Some (StateIn (PBid bids)))"

definition build_balance_expr :: "belief_graph \<Rightarrow> expression option" where
  "build_balance_expr g = build_downstream_expr g (Some (ws_from_kind Section))"

section \<open>Pages\<close>

text \<open>
  \<open>count - start\<close> is a \<open>usize\<close> subtraction: \<open>None\<close> is its overflow panic.
\<close>

definition paginate :: "belief_graph \<Rightarrow> nat option \<Rightarrow> nat option \<Rightarrow> belief_graph results_page option" where
  "paginate g limit offset =
     (let count = length (states g); start = unwrap_or offset 0;
          page_limit = unwrap_or limit DEFAULT_LIMIT
      in if start > count then None
         else
           let page_limit = (if page_limit > count - start then count else page_limit);
               page =
                 (if count > page_limit \<or> start > 0
                  then
                    let sts = map snd (filter (\<lambda>(idx, _). \<not> idx < start \<and> idx < start + page_limit)
                                (List.enumerate 0 (states g)))
                    in \<lparr>states = bm_from_list sts,
                        relations = from_edges (filter (\<lambda>e.
                          bm_contains sts (e_source e) \<and> bm_contains sts (e_sink e))
                          (g_edges (relations g)))\<rparr>
                  else g)
           in Some \<lparr>rp_count = count, rp_start = start, rp_results = page\<rparr>)"

section \<open>Merging into a base\<close>

datatype merge_op =
    NodeUpsert node
  | MergeRelation bid bid weight_set

definition to_belief_event :: "(node \<Rightarrow> string) \<Rightarrow> merge_op \<Rightarrow> belief_event" where
  "to_belief_event to_toml op_val =
     (case op_val of
        NodeUpsert n \<Rightarrow> NodeUpdate [KBid (nd_bid n)] (to_toml n) Remote
      | MergeRelation s t w \<Rightarrow> RelationUpdate s t w Remote)"

definition halo :: "belief_graph \<Rightarrow> bid list \<Rightarrow> bid list" where
  "halo rhs seeds =
     fold (\<lambda>e h. if e_source e \<in> set seeds \<or> e_sink e \<in> set seeds
                 then bs_insert (e_sink e) (bs_insert (e_source e) h) else h)
       (g_edges (relations rhs)) seeds"

definition restrict_edges :: "belief_graph \<Rightarrow> bid list \<Rightarrow> bid_graph" where
  "restrict_edges rhs bids =
     from_edges (filter (\<lambda>e. e_source e \<in> set bids \<and> e_sink e \<in> set bids) (g_edges (relations rhs)))"

definition restrict_states :: "belief_graph \<Rightarrow> bid list \<Rightarrow> (bid, node) bmap" where
  "restrict_states rhs bids =
     bm_from_list (List.map_filter (\<lambda>b. map_option (Pair b) (bm_get (states rhs) b)) bids)"

definition fetch_missing ::
    "(bid, node) bmap \<Rightarrow> bid list \<Rightarrow> (bid, node) bmap \<Rightarrow> (bid, node) bmap \<times> bool" where
  "fetch_missing rhs_states missing sts =
     fold (\<lambda>b (sts, added).
       case bm_get rhs_states b of
         None \<Rightarrow> (sts, added)
       | Some n \<Rightarrow> if bm_contains sts b then (sts, added) else (bm_insert b n sts, True))
       missing (sts, False)"

definition unfetched :: "belief_graph \<Rightarrow> belief_graph \<Rightarrow> nat" where
  "unfetched rhs balanced =
     length (filter (\<lambda>k. \<not> bm_contains (states balanced) k) (bm_keys (states rhs)))"

lemma fetch_missing_acc:
  defines "step \<equiv> \<lambda>rhs_states b (sts, added).
     case bm_get rhs_states b of
       None \<Rightarrow> (sts, added)
     | Some n \<Rightarrow> if bm_contains sts b then (sts, added) else (bm_insert b n sts, True)"
  assumes "fold (step rhs_states) missing (sts, added) = (sts', added')"
  shows "(\<forall>k. bm_contains sts k \<longrightarrow> bm_contains sts' k)
    \<and> (added' \<and> \<not> added \<longrightarrow> (\<exists>k. bm_contains rhs_states k \<and> \<not> bm_contains sts k \<and> bm_contains sts' k))"
  using assms(2)
proof (induction missing arbitrary: sts added)
  case (Cons b missing)
  obtain sts1 added1 where s1: "step rhs_states b (sts, added) = (sts1, added1)" by fastforce
  then have one: "(\<forall>k. bm_contains sts k \<longrightarrow> bm_contains sts1 k)
      \<and> (added1 \<and> \<not> added \<longrightarrow> (\<exists>k. bm_contains rhs_states k \<and> \<not> bm_contains sts k \<and> bm_contains sts1 k))"
    by (auto simp: step_def bm_contains_def split: option.splits if_splits)
  from Cons.prems s1 have "fold (step rhs_states) missing (sts1, added1) = (sts', added')" by simp
  note rest = Cons.IH [OF this]
  show ?case using one rest by metis
qed simp

lemma fetch_missing_progress:
  assumes "fetch_missing rhs_states missing sts = (sts', True)"
  shows "(\<forall>k. bm_contains sts k \<longrightarrow> bm_contains sts' k)
    \<and> (\<exists>k. bm_contains rhs_states k \<and> \<not> bm_contains sts k \<and> bm_contains sts' k)"
  using fetch_missing_acc [OF assms [unfolded fetch_missing_def]] by blast

lemma filter_count_le:
  "(\<And>x. x \<in> set xs \<Longrightarrow> P x \<Longrightarrow> Q x) \<Longrightarrow> length (filter P xs) \<le> length (filter Q xs)"
proof (induction xs)
  case (Cons x xs)
  then have "length (filter P xs) \<le> length (filter Q xs)" by simp
  with Cons.prems [of x] show ?case by auto
qed simp

lemma filter_count_less:
  assumes "\<And>x. x \<in> set xs \<Longrightarrow> P x \<Longrightarrow> Q x" "y \<in> set xs" "Q y" "\<not> P y"
  shows "length (filter P xs) < length (filter Q xs)"
  using assms
proof (induction xs)
  case (Cons x xs)
  have le: "length (filter P xs) \<le> length (filter Q xs)"
    using Cons.prems(1) by (intro filter_count_le) auto
  show ?case
  proof (cases "x = y")
    case True
    with Cons.prems le show ?thesis by simp
  next
    case False
    with Cons.prems have "length (filter P xs) < length (filter Q xs)"
      by (intro Cons.IH) auto
    with Cons.prems(1) [of x] show ?thesis by auto
  qed
qed simp

text \<open>The balance loop: it ends because every round but the last fetches a node of \<open>rhs\<close>.\<close>

function balance_within :: "belief_graph \<Rightarrow> belief_graph \<Rightarrow> belief_graph" where
  "balance_within rhs balanced =
     (case build_balance_expr balanced of
        Some (StateIn (PBid missing)) \<Rightarrow>
          (let (sts, added) = fetch_missing (states rhs) missing (states balanced);
               next_graph = \<lparr>states = sts, relations = restrict_edges rhs (bm_keys sts)\<rparr>
           in if \<not> added then next_graph else balance_within rhs next_graph)
      | _ \<Rightarrow> balanced)"
  by pat_completeness auto

lemma unfetched_less:
  assumes "fetch_missing (states rhs) missing (states balanced) = (sts, True)"
  shows "unfetched rhs \<lparr>states = sts, relations = r\<rparr> < unfetched rhs balanced"
proof -
  from fetch_missing_progress [OF assms] obtain k where
    k: "bm_contains (states rhs) k" "\<not> bm_contains (states balanced) k" "bm_contains sts k"
    and mono: "\<And>j. bm_contains (states balanced) j \<Longrightarrow> bm_contains sts j" by blast
  from k(1) have "k \<in> set (bm_keys (states rhs))" by (simp add: bm_contains_iff bm_keys_def)
  then show ?thesis
    unfolding unfetched_def using k mono by (intro filter_count_less [where y = k]) auto
qed

termination balance_within
proof (relation "measure (\<lambda>(rhs, balanced). unfetched rhs balanced)", goal_cases)
  case 1
  show ?case by simp
next
  case (2 rhs balanced x2 x1 missing p sts added next_graph)
  then show ?case using unfetched_less by simp
qed

declare balance_within.simps [simp del]

definition scoped_bids :: "belief_graph \<Rightarrow> bid list option \<Rightarrow> bid list" where
  "scoped_bids rhs seed_bids =
     (case seed_bids of
        None \<Rightarrow> bm_keys (states rhs)
      | Some seeds \<Rightarrow>
          let h = halo rhs seeds
          in bm_keys (states (balance_within rhs
               \<lparr>states = restrict_states rhs h, relations = restrict_edges rhs h\<rparr>)))"

text \<open>The first pass: nodes the base lacks or has only as a trace.\<close>

definition node_ops :: "belief_graph \<Rightarrow> belief_graph \<Rightarrow> bid list \<Rightarrow> merge_op list" where
  "node_ops rhs lhs scoped =
     map NodeUpsert (filter (\<lambda>n.
       nd_bid n \<in> set scoped
       \<and> (case bm_get (states lhs) (nd_bid n) of
            Some existing \<Rightarrow> Trace \<in> nd_kind existing
          | None \<Rightarrow> True)) (bm_values (states rhs)))"

definition section_arcs :: "belief_graph \<Rightarrow> bid list \<Rightarrow> (bid \<times> bid) list" where
  "section_arcs rhs scoped =
     List.map_filter (\<lambda>e.
       if e_source e \<notin> set scoped \<and> e_sink e \<notin> set scoped then None
       else map_option (\<lambda>_. (e_sink e, e_source e)) (ws_get (e_weights e) Section))
       (g_edges (relations rhs))"

definition edge_weight :: "edge list \<Rightarrow> bid \<Rightarrow> bid \<Rightarrow> weight_set option" where
  "edge_weight es s t = map_option e_weights (find (\<lambda>e. e_source e = s \<and> e_sink e = t) es)"

text \<open>The second pass: section edges by which the search discovers a node, then the others.\<close>

definition to_event_stream ::
    "discover \<times> ((bid \<times> bid) list \<Rightarrow> bid list \<Rightarrow> (bid \<times> bid) list) \<Rightarrow> belief_graph \<Rightarrow> belief_graph
      \<Rightarrow> bid list option \<Rightarrow> merge_op list" where
  "to_event_stream DT rhs lhs seed_bids =
     (let scoped = scoped_bids rhs seed_bids;
          tree = section_arcs rhs scoped;
          seeds = filter (\<lambda>b. b \<notin> set (map snd tree)) (subgraph_nodes tree);
          section_ops =
            List.map_filter (\<lambda>(sink, source).
              map_option (\<lambda>w. ((source, sink), MergeRelation source sink w))
                (edge_weight (g_edges (relations rhs)) source sink)) (snd DT tree seeds);
          emitted = map fst section_ops;
          other_ops =
            List.map_filter (\<lambda>e.
              if e_source e \<notin> set scoped \<and> e_sink e \<notin> set scoped then None
              else if (e_source e, e_sink e) \<in> set emitted then None
              else if list_ex (\<lambda>le. e_source le = e_source e \<and> e_sink le = e_sink e
                                   \<and> ws_eq (e_weights le) (e_weights e)) (g_edges (relations lhs))
              then None
              else Some (MergeRelation (e_source e) (e_sink e) (e_weights e)))
              (g_edges (relations rhs))
      in node_ops rhs lhs scoped @ map snd section_ops @ other_ops)"

end
