(* ===== verification/GraphProps.thy ===== *)
theory GraphProps
  imports Graphs
begin

text \<open>
  What the graph operations of theory \<open>Graphs\<close> guarantee: the shape of a belief graph and that every
  operation keeps it, which side wins where two graphs meet, what is reached, pages, the removal of
  edges, and the events a merge produces.
\<close>

section \<open>The shape of a graph\<close>

definition keys :: "belief_graph \<Rightarrow> bid set" where
  "keys g = fst ` set (states g)"

lemma contains_keys [simp]: "bm_contains (states g) b \<longleftrightarrow> b \<in> keys g"
  by (simp add: bm_contains_iff keys_def)

lemma in_keys_get: "b \<in> keys g \<longleftrightarrow> bm_get (states g) b \<noteq> None"
  by (simp add: contains_keys [symmetric] bm_contains_def del: contains_keys)

definition graph_ok :: "belief_graph \<Rightarrow> bool" where
  "graph_ok g \<longleftrightarrow>
     bm_ok (states g) \<and> distinct (g_nodes (relations g)) \<and> set (g_nodes (relations g)) \<subseteq> keys g
     \<and> distinct (arcs (relations g))
     \<and> list_all (\<lambda>e. e_source e \<noteq> e_sink e \<and> e_source e \<in> set (g_nodes (relations g))
                   \<and> e_sink e \<in> set (g_nodes (relations g))) (g_edges (relations g))"

lemma find_orphaned_edges_iff:
  "find_orphaned_edges g = [] \<longleftrightarrow>
     list_all (\<lambda>e. e_source e \<in> keys g \<and> e_sink e \<in> keys g) (g_edges (relations g))"
proof -
  have "bs_from_list xs = [] \<longleftrightarrow> xs = []" for xs :: "bid list"
    using set_bs_from_list [of xs] by (metis set_empty)
  then show ?thesis by (auto simp: find_orphaned_edges_def list_all_iff split: if_splits)
qed

lemma graph_ok_no_orphans: "graph_ok g \<Longrightarrow> find_orphaned_edges g = []"
  by (auto simp: graph_ok_def find_orphaned_edges_iff list_all_iff)

lemma e_simps [simp]: "e_source (s, t, w) = s" "e_sink (s, t, w) = t" "e_weights (s, t, w) = w"
  by (simp_all add: e_source_def e_sink_def e_weights_def)

lemma edge_eq: "(e_source e, e_sink e, e_weights e) = e"
  by (simp add: e_source_def e_sink_def e_weights_def)

lemma set_add_node [simp]: "set (add_node b ns) = insert b (set ns)"
  by (auto simp: add_node_def)

lemma distinct_add_node [simp]: "distinct ns \<Longrightarrow> distinct (add_node b ns)"
  by (auto simp: add_node_def)

lemma arcs_update_edge:
  "map (\<lambda>e. (e_source e, e_sink e)) (update_edge s t w es) =
     (let as = map (\<lambda>e. (e_source e, e_sink e)) es in if (s, t) \<in> set as then as else as @ [(s, t)])"
  by (induction s t w es rule: update_edge.induct) (auto simp: Let_def simp del: set_map split: if_splits)

lemma set_update_edge: "set (update_edge s t w es) \<subseteq> insert (s, t, w) (set es)"
  by (induction s t w es rule: update_edge.induct) auto

lemma distinct_arcs_connect:
  "distinct (arcs g) \<Longrightarrow> distinct (arcs (connect s t w g))"
  unfolding arcs_def connect_def by (simp add: arcs_update_edge Let_def)

lemma edge_weight_update:
  "edge_weight (update_edge s t w es) s' t' = (if s' = s \<and> t' = t then Some w else edge_weight es s' t')"
  by (induction s t w es rule: update_edge.induct) (auto simp: edge_weight_def)

lemma edge_weight_in:
  "distinct (map (\<lambda>e. (e_source e, e_sink e)) es) \<Longrightarrow>
     edge_weight es s t = Some w \<longleftrightarrow> (s, t, w) \<in> set es"
proof (induction es)
  case (Cons e es)
  obtain a b c where e: "e = (a, b, c)" by (cases e)
  have "(s, t, x) \<in> set es \<Longrightarrow> (s, t) \<in> (\<lambda>e. (e_source e, e_sink e)) ` set es" for x
    by (force simp: image_iff)
  with Cons show ?case by (auto simp: edge_weight_def e)
qed (simp add: edge_weight_def)

lemma edge_weight_none:
  "edge_weight es s t = None \<longleftrightarrow> (s, t) \<notin> set (map (\<lambda>e. (e_source e, e_sink e)) es)"
  by (force simp: edge_weight_def find_None_iff image_iff)

section \<open>Filling in states\<close>

lemma fill_state_get:
  "bm_get (fill_state rhs b sts) k =
     (if k = b then or_else (bm_get sts b) (bm_get rhs b) else bm_get sts k)"
  by (auto simp: fill_state_def bm_contains_def or_else_def split: option.splits)

lemma fill_state_ok [simp]: "bm_ok sts \<Longrightarrow> bm_ok (fill_state rhs b sts)"
  by (auto simp: fill_state_def split: option.splits)

lemma fill_states_get:
  "bm_get (fold (fill_state rhs) bs sts) k =
     (if k \<in> set bs then or_else (bm_get sts k) (bm_get rhs k) else bm_get sts k)"
  by (induction bs arbitrary: sts) (auto simp: fill_state_get or_else_def split: option.splits)

lemma fill_states_ok: "bm_ok sts \<Longrightarrow> bm_ok (fold (fill_state rhs) bs sts)"
  by (induction bs arbitrary: sts) auto

text \<open>Every state of a filled map is the old one or, where there was none, the one of \<open>rhs\<close>.\<close>

definition fills :: "(bid, node) bmap \<Rightarrow> (bid, node) bmap \<Rightarrow> (bid, node) bmap \<Rightarrow> bool" where
  "fills rhs old new \<longleftrightarrow>
     (\<forall>k. bm_get new k = bm_get old k \<or> (bm_get old k = None \<and> bm_get new k = bm_get rhs k))"

lemma fills_refl [simp]: "fills rhs sts sts"
  by (simp add: fills_def)

lemma fills_trans: "fills rhs a b \<Longrightarrow> fills rhs b c \<Longrightarrow> fills rhs a c"
  unfolding fills_def by metis

lemma fills_fill_state: "fills rhs sts (fill_state rhs b sts)"
  by (auto simp: fills_def fill_state_get or_else_def split: option.splits)

lemma fills_fold: "fills rhs sts (fold (fill_state rhs) bs sts)"
  by (auto simp: fills_def fill_states_get or_else_def split: option.splits)

lemma merge_edge_fills: "fills rhs (states g) (states (merge_edge rhs e g))"
  using fills_trans [OF fills_fill_state fills_fill_state]
  by (auto simp: merge_edge_def Let_def)

lemma merge_edges_fills: "fills rhs (states g) (states (fold (merge_edge rhs) es g))"
proof (induction es arbitrary: g)
  case (Cons e es)
  from fills_trans [OF merge_edge_fills Cons.IH] show ?case by simp
qed simp

lemma add_relations_fills:
  "fills (states rhs) (states self) (states (add_relations_seeded D self rhs seeds))"
proof -
  have "fills (states rhs) (states self)
      (fold (fill_state (states rhs)) bs (fold (fill_state (states rhs)) as (states self)))" for as bs
    by (rule fills_trans [OF fills_fold fills_fold])
  then show ?thesis
    unfolding add_relations_seeded_def Let_def
    by (rule fills_trans [OF _ merge_edges_fills [of _ "self\<lparr>states := _\<rparr>", simplified]])
qed

lemma fills_keys: "fills rhs (states a) (states b) \<Longrightarrow> keys a \<subseteq> keys b"
  unfolding fills_def by (auto simp: in_keys_get) (metis option.distinct(1))

section \<open>Keeping the shape\<close>

lemma keys_update: "bm_ok sts \<Longrightarrow> fills rhs (states g) sts \<Longrightarrow> graph_ok g \<Longrightarrow> graph_ok (g\<lparr>states := sts\<rparr>)"
proof -
  assume "bm_ok sts" and f: "fills rhs (states g) sts" and ok: "graph_ok g"
  from f have "keys g \<subseteq> keys (g\<lparr>states := sts\<rparr>)" by (intro fills_keys [of rhs]) simp
  with \<open>bm_ok sts\<close> ok show ?thesis by (auto simp: graph_ok_def)
qed

lemma connect_ok:
  assumes "graph_ok g" "s \<noteq> t" "s \<in> keys g" "t \<in> keys g"
  shows "graph_ok (g\<lparr>relations := connect s t w (relations g)\<rparr>)"
proof -
  have "keys (g\<lparr>relations := r\<rparr>) = keys g" for r by (simp add: keys_def)
  then show ?thesis
    using assms set_update_edge [of s t w "g_edges (relations g)"]
    by (fastforce simp: graph_ok_def distinct_arcs_connect connect_def [of s t w "relations g"]
        list_all_iff distinct_arcs_connect [of "relations g" s t w, unfolded connect_def])
qed

lemma merge_edge_ok: "graph_ok g \<Longrightarrow> graph_ok (merge_edge rhs e g)"
proof -
  assume ok: "graph_ok g"
  let ?s = "e_source e" and ?t = "e_sink e"
  let ?sts = "fill_state rhs ?s (fill_state rhs ?t (states g))"
  have "bm_ok ?sts" using ok by (simp add: graph_ok_def)
  moreover have "fills rhs (states g) ?sts" by (rule fills_trans [OF fills_fill_state fills_fill_state])
  ultimately have ok': "graph_ok (g\<lparr>states := ?sts\<rparr>)" using ok by (rule keys_update)
  have "graph_ok (g\<lparr>states := ?sts, relations := connect ?s ?t (e_weights e) (relations g)\<rparr>)"
    if "?s \<noteq> ?t" "bm_contains ?sts ?s" "bm_contains ?sts ?t"
    using connect_ok [OF ok' that(1)] that by (simp add: keys_def bm_contains_iff)
  then show ?thesis using ok ok' by (cases g) (auto simp: merge_edge_def Let_def)
qed

lemma merge_edges_ok: "graph_ok g \<Longrightarrow> graph_ok (fold (merge_edge rhs) es g)"
  by (induction es arbitrary: g) (simp_all add: merge_edge_ok)

lemma add_relations_ok: "graph_ok self \<Longrightarrow> graph_ok (add_relations_seeded D self rhs seeds)"
proof -
  assume ok: "graph_ok self"
  have "graph_ok (self\<lparr>states := fold (fill_state (states rhs)) bs
      (fold (fill_state (states rhs)) as (states self))\<rparr>)" for as bs
    using ok by (intro keys_update [OF _ fills_trans [OF fills_fold fills_fold]])
      (simp_all add: fill_states_ok graph_ok_def)
  then show ?thesis unfolding add_relations_seeded_def Let_def by (rule merge_edges_ok)
qed

lemma insert_nodes_ok: "bm_ok sts \<Longrightarrow> bm_ok (insert_nodes ns sts)"
  unfolding insert_nodes_def by (induction ns arbitrary: sts) auto

lemma insert_nodes_keys: "fst ` set sts \<subseteq> fst ` set (insert_nodes ns sts)"
  unfolding insert_nodes_def
proof (induction ns arbitrary: sts)
  case (Cons n ns)
  from Cons [of "bm_insert (nd_bid n) n sts"] show ?case by (auto simp: keys_bm_insert)
qed simp

lemma upsert_ok: "bm_ok sts \<Longrightarrow> bm_ok (fold upsert_with_trace ns sts)"
proof (induction ns arbitrary: sts)
  case (Cons n ns)
  have "bm_ok (upsert_with_trace n sts)"
    using Cons.prems by (auto simp: upsert_with_trace_def split: option.splits)
  then show ?case by (simp add: Cons.IH)
qed simp

lemma upsert_keys: "fst ` set sts \<subseteq> fst ` set (fold upsert_with_trace ns sts)"
proof (induction ns arbitrary: sts)
  case (Cons n ns)
  have "fst ` set sts \<subseteq> fst ` set (upsert_with_trace n sts)"
    by (auto simp: upsert_with_trace_def keys_bm_insert split: option.splits)
  with Cons [of "upsert_with_trace n sts"] show ?case by simp
qed simp

lemma grow_states_ok:
  assumes "graph_ok g" "bm_ok sts" "fst ` set (states g) \<subseteq> fst ` set sts"
  shows "graph_ok (g\<lparr>states := sts\<rparr>)"
  using assms by (auto simp: graph_ok_def keys_def)

lemma union_ops_ok:
  assumes "graph_ok self"
  shows "graph_ok (union_mut D self rhs)" "graph_ok (union_mut_from D self rhs seeds)"
    "graph_ok (union_mut_with_trace D self rhs)"
proof -
  have b: "bm_ok (states self)" using assms by (simp add: graph_ok_def)
  note g = grow_states_ok [OF assms insert_nodes_ok [OF b] insert_nodes_keys]
    grow_states_ok [OF assms upsert_ok [OF b] upsert_keys]
  show "graph_ok (union_mut D self rhs)" "graph_ok (union_mut_from D self rhs seeds)"
    "graph_ok (union_mut_with_trace D self rhs)"
    unfolding union_mut_def union_mut_from_def union_mut_with_trace_def add_relations_def
    by (intro add_relations_ok g)+
qed

lemma select_states_ok: "graph_ok (select_states g bids)"
  by (simp add: graph_ok_def select_states_def bg_empty_def arcs_def)

lemma set_ops_ok:
  "graph_ok (intersection D a b)" "graph_ok (difference D a b)" "graph_ok (symmetric_difference D a b)"
proof -
  show "graph_ok (intersection D a b)" "graph_ok (difference D a b)" for a b
    unfolding intersection_def difference_def Let_def add_relations_def
    by (intro add_relations_ok select_states_ok)+
  then show "graph_ok (symmetric_difference D a b)"
    unfolding symmetric_difference_def union_def by (intro union_ops_ok)
qed

section \<open>The contract of a merge\<close>

text \<open>
  What the query engine relies on when it accumulates results: a merge keeps the shape of the
  accumulated graph and loses none of its nodes.
\<close>

locale merge_contract =
  fixes merge :: "belief_graph \<Rightarrow> belief_graph \<Rightarrow> belief_graph"
  assumes merge_ok: "graph_ok a \<Longrightarrow> graph_ok (merge a b)"
    and merge_keys: "keys a \<subseteq> keys (merge a b)"
begin

lemma merge_all_ok: "graph_ok a \<Longrightarrow> graph_ok (fold (\<lambda>b acc. merge acc b) bs a)"
  by (induction bs arbitrary: a) (simp_all add: merge_ok)

lemma merge_all_keys: "keys a \<subseteq> keys (fold (\<lambda>b acc. merge acc b) bs a)"
proof (induction bs arbitrary: a)
  case (Cons b bs)
  from merge_keys [of a b] Cons [of "merge a b"] show ?case by simp
qed simp

end

lemma add_relations_keys: "keys self \<subseteq> keys (add_relations_seeded D self rhs seeds)"
  by (rule fills_keys [OF add_relations_fills])

lemma union_ops_keys:
  "keys self \<subseteq> keys (union_mut D self rhs)" "keys self \<subseteq> keys (union_mut_from D self rhs seeds)"
  "keys self \<subseteq> keys (union_mut_with_trace D self rhs)"
proof -
  have "keys self \<subseteq> keys (self\<lparr>states := insert_nodes ns (states self)\<rparr>)" for ns
    using insert_nodes_keys by (simp add: keys_def)
  moreover have "keys self \<subseteq> keys (self\<lparr>states := fold upsert_with_trace ns (states self)\<rparr>)" for ns
    using upsert_keys by (simp add: keys_def)
  ultimately show "keys self \<subseteq> keys (union_mut D self rhs)"
    "keys self \<subseteq> keys (union_mut_from D self rhs seeds)"
    "keys self \<subseteq> keys (union_mut_with_trace D self rhs)"
    unfolding union_mut_def union_mut_from_def union_mut_with_trace_def add_relations_def
    using add_relations_keys by blast+
qed

interpretation union: merge_contract "union_mut D" for D
  by unfold_locales (rule union_ops_ok, assumption, rule union_ops_keys)

interpretation trace_union: merge_contract "union_mut_with_trace D" for D
  by unfold_locales (rule union_ops_ok, assumption, rule union_ops_keys)

section \<open>Which side wins\<close>

text \<open>The invariant of \<open>BeliefGraph::states\<close>: a node is stored under its own identifier.\<close>

definition keyed :: "belief_graph \<Rightarrow> bool" where
  "keyed g \<longleftrightarrow> bm_ok (states g) \<and> list_all (\<lambda>(k, n). nd_bid n = k) (states g)"

lemma keyed_bids: "keyed g \<Longrightarrow> map nd_bid (bm_values (states g)) = map fst (states g)"
  by (auto simp: keyed_def bm_values_def list_all_iff)

lemma keyed_distinct: "keyed g \<Longrightarrow> distinct (map nd_bid (bm_values (states g)))"
  by (simp add: keyed_bids bm_ok_distinct keyed_def)

lemma keyed_get: "keyed g \<Longrightarrow> n \<in> set (bm_values (states g)) \<longleftrightarrow> bm_get (states g) (nd_bid n) = Some n"
  by (auto simp: keyed_def bm_values_def bm_ok_get_iff list_all_iff intro: rev_image_eqI)

lemma insert_nodes_other: "k \<notin> nd_bid ` set ns \<Longrightarrow> bm_get (insert_nodes ns sts) k = bm_get sts k"
  unfolding insert_nodes_def by (induction ns arbitrary: sts) auto

lemma insert_nodes_mem:
  "distinct (map nd_bid ns) \<Longrightarrow> n \<in> set ns \<Longrightarrow> bm_get (insert_nodes ns sts) (nd_bid n) = Some n"
proof (induction ns arbitrary: sts)
  case (Cons m ns)
  have split: "insert_nodes (m # ns) sts = insert_nodes ns (bm_insert (nd_bid m) m sts)" for sts
    by (simp add: insert_nodes_def)
  show ?case
  proof (cases "n = m")
    case True
    with Cons.prems have "nd_bid n \<notin> nd_bid ` set ns" by simp
    with True show ?thesis by (simp add: split insert_nodes_other)
  next
    case False
    with Cons show ?thesis by (simp add: split)
  qed
qed simp

lemma insert_complete_get:
  assumes "keyed rhs"
  shows "bm_get (insert_nodes (complete_nodes rhs) sts) k =
    (case bm_get (states rhs) k of
       Some n \<Rightarrow> if kind_is_complete (nd_kind n) then Some n else bm_get sts k
     | None \<Rightarrow> bm_get sts k)"
proof -
  have bid: "bm_get (states rhs) k = Some n \<Longrightarrow> nd_bid n = k" for n
    using assms bm_get_in [of "states rhs" k n] by (auto simp: keyed_def list_all_iff)
  have mem: "n \<in> set (complete_nodes rhs) \<longleftrightarrow>
      bm_get (states rhs) (nd_bid n) = Some n \<and> kind_is_complete (nd_kind n)" for n
    by (simp add: complete_nodes_def keyed_get [OF assms] conj_commute)
  have dist: "distinct (map nd_bid (complete_nodes rhs))"
    unfolding complete_nodes_def by (intro distinct_map_filter keyed_distinct assms)
  show ?thesis
  proof (cases "\<exists>n. bm_get (states rhs) k = Some n \<and> kind_is_complete (nd_kind n)")
    case True
    then obtain n where n: "bm_get (states rhs) k = Some n" "kind_is_complete (nd_kind n)" by blast
    with bid mem have "n \<in> set (complete_nodes rhs)" by simp
    from insert_nodes_mem [OF dist this] n bid show ?thesis by simp
  next
    case False
    then have "k \<notin> nd_bid ` set (complete_nodes rhs)" using mem by auto
    then show ?thesis using False by (auto simp: insert_nodes_other split: option.splits)
  qed
qed

lemma union_get:
  assumes "keyed rhs"
  shows "case bm_get (states rhs) k of
      None \<Rightarrow> bm_get (states (union_mut D self rhs)) k = bm_get (states self) k
    | Some n \<Rightarrow>
        if kind_is_complete (nd_kind n) then bm_get (states (union_mut D self rhs)) k = Some n
        else if k \<in> keys self then bm_get (states (union_mut D self rhs)) k = bm_get (states self) k
        else bm_get (states (union_mut D self rhs)) k \<in> {None, Some n}"
proof -
  let ?mid = "self\<lparr>states := insert_nodes (complete_nodes rhs) (states self)\<rparr>"
  have "fills (states rhs) (states ?mid) (states (union_mut D self rhs))"
    unfolding union_mut_def add_relations_def by (rule add_relations_fills)
  then have f: "bm_get (states (union_mut D self rhs)) k = bm_get (states ?mid) k
      \<or> bm_get (states ?mid) k = None
        \<and> bm_get (states (union_mut D self rhs)) k = bm_get (states rhs) k"
    by (simp add: fills_def)
  have "bm_get (states ?mid) k = (case bm_get (states rhs) k of
       Some n \<Rightarrow> if kind_is_complete (nd_kind n) then Some n else bm_get (states self) k
     | None \<Rightarrow> bm_get (states self) k)"
    using insert_complete_get [OF assms] by simp
  with f show ?thesis by (auto simp: in_keys_get split: option.splits)
qed

text \<open>What a graph that may hold traces keeps of two versions of a node.\<close>

definition newer_or_complete :: "node option \<Rightarrow> node \<Rightarrow> node" where
  "newer_or_complete old n =
     (case old of
        Some m \<Rightarrow> if Trace \<in> nd_kind n \<and> kind_is_complete (nd_kind m) then m else n
      | None \<Rightarrow> n)"

lemma upsert_get:
  "bm_get (upsert_with_trace n sts) k =
     (if k = nd_bid n then Some (newer_or_complete (bm_get sts k) n) else bm_get sts k)"
  by (auto simp: upsert_with_trace_def newer_or_complete_def split: option.splits)

lemma upsert_other: "k \<notin> nd_bid ` set ns \<Longrightarrow> bm_get (fold upsert_with_trace ns sts) k = bm_get sts k"
  by (induction ns arbitrary: sts) (auto simp: upsert_get)

lemma upsert_mem:
  "distinct (map nd_bid ns) \<Longrightarrow> n \<in> set ns \<Longrightarrow>
     bm_get (fold upsert_with_trace ns sts) (nd_bid n)
       = Some (newer_or_complete (bm_get sts (nd_bid n)) n)"
proof (induction ns arbitrary: sts)
  case (Cons m ns)
  show ?case
  proof (cases "n = m")
    case True
    with Cons.prems have "nd_bid n \<notin> nd_bid ` set ns" by simp
    with True show ?thesis by (simp add: upsert_other upsert_get)
  next
    case False
    with Cons.prems have "nd_bid n \<noteq> nd_bid m" by (metis distinct.simps(2) image_eqI list.simps(9) set_ConsD set_map)
    with False Cons show ?thesis by (auto simp: upsert_get)
  qed
qed simp

lemma trace_union_get:
  assumes "keyed rhs"
  shows "bm_get (states (union_mut_with_trace D self rhs)) k =
    (case bm_get (states rhs) k of
       Some n \<Rightarrow> Some (newer_or_complete (bm_get (states self) k) n)
     | None \<Rightarrow> bm_get (states self) k)"
proof -
  let ?mid = "self\<lparr>states := fold upsert_with_trace (bm_values (states rhs)) (states self)\<rparr>"
  have "fills (states rhs) (states ?mid) (states (union_mut_with_trace D self rhs))"
    unfolding union_mut_with_trace_def add_relations_def by (rule add_relations_fills)
  then have f: "bm_get (states (union_mut_with_trace D self rhs)) k = bm_get (states ?mid) k
      \<or> bm_get (states ?mid) k = None
        \<and> bm_get (states (union_mut_with_trace D self rhs)) k = bm_get (states rhs) k"
    by (simp add: fills_def)
  have "bm_get (states ?mid) k = (case bm_get (states rhs) k of
       Some n \<Rightarrow> Some (newer_or_complete (bm_get (states self) k) n)
     | None \<Rightarrow> bm_get (states self) k)"
  proof (cases "bm_get (states rhs) k")
    case None
    then have "k \<notin> nd_bid ` set (bm_values (states rhs))"
      using keyed_get [OF assms] by auto
    with None show ?thesis by (simp add: upsert_other)
  next
    case (Some n)
    then have "nd_bid n = k"
      using assms bm_get_in [of "states rhs" k n] by (auto simp: keyed_def list_all_iff)
    with Some keyed_get [OF assms, of n] have "n \<in> set (bm_values (states rhs))" by simp
    from upsert_mem [OF keyed_distinct [OF assms] this, of "states self"] Some \<open>nd_bid n = k\<close>
    show ?thesis by simp
  qed
  with f show ?thesis by (cases "bm_get (states rhs) k") auto
qed

section \<open>Relations of a merge\<close>

definition weight_of :: "belief_graph \<Rightarrow> bid \<Rightarrow> bid \<Rightarrow> weight_set option" where
  "weight_of g s t = edge_weight (g_edges (relations g)) s t"

lemma merge_edge_weight_other:
  "(e_source e, e_sink e) \<noteq> (s, t) \<Longrightarrow> weight_of (merge_edge rhs e g) s t = weight_of g s t"
  by (auto simp: merge_edge_def Let_def weight_of_def connect_def edge_weight_update)

lemma merge_edge_weight_same:
  "weight_of (merge_edge rhs e g) (e_source e) (e_sink e) \<in>
     {weight_of g (e_source e) (e_sink e), Some (e_weights e)}"
  by (auto simp: merge_edge_def Let_def weight_of_def connect_def edge_weight_update)

lemma merge_edge_weight_in:
  assumes "e_source e \<noteq> e_sink e" "e_source e \<in> keys g" "e_sink e \<in> keys g"
  shows "weight_of (merge_edge rhs e g) (e_source e) (e_sink e) = Some (e_weights e)"
  using assms
  by (simp add: merge_edge_def Let_def weight_of_def connect_def edge_weight_update fill_state_def)

lemma merge_edge_keys: "keys g \<subseteq> keys (merge_edge rhs e g)"
  by (rule fills_keys [OF merge_edge_fills])

lemma merge_edges_weight_other:
  "(s, t) \<notin> set (map (\<lambda>e. (e_source e, e_sink e)) es) \<Longrightarrow>
     weight_of (fold (merge_edge rhs) es g) s t = weight_of g s t"
  by (induction es arbitrary: g) (auto simp: merge_edge_weight_other)

lemma merge_edges_weight:
  assumes "distinct (map (\<lambda>e. (e_source e, e_sink e)) es)" "(s, t, w) \<in> set es"
  shows "weight_of (fold (merge_edge rhs) es g) s t \<in> {weight_of g s t, Some w}"
    and "s \<noteq> t \<Longrightarrow> s \<in> keys g \<Longrightarrow> t \<in> keys g \<Longrightarrow> weight_of (fold (merge_edge rhs) es g) s t = Some w"
  using assms
proof (induction es arbitrary: g)
  case (Cons e es)
  {
    case 1
    show ?case
    proof (cases "e = (s, t, w)")
      case True
      with 1 have "(s, t) \<notin> set (map (\<lambda>e. (e_source e, e_sink e)) es)" by simp
      with True merge_edge_weight_same [of rhs e g] show ?thesis
        by (simp add: merge_edges_weight_other)
    next
      case False
      with 1 have m: "(s, t, w) \<in> set es" by auto
      with 1 have "(e_source e, e_sink e) \<noteq> (s, t)" by (force simp: image_iff)
      with Cons.IH(1) [of "merge_edge rhs e g"] 1 m show ?thesis
        by (simp add: merge_edge_weight_other)
    qed
  next
    case 2
    show ?case
    proof (cases "e = (s, t, w)")
      case True
      with 2 have "(s, t) \<notin> set (map (\<lambda>e. (e_source e, e_sink e)) es)" by simp
      with True 2 merge_edge_weight_in [of e g rhs] show ?thesis
        by (simp add: merge_edges_weight_other)
    next
      case False
      with 2 have "(s, t, w) \<in> set es" by auto
      with Cons.IH(2) [of "merge_edge rhs e g"] 2 merge_edge_keys [of g rhs e] show ?thesis
        by auto
    qed
  }
qed simp_all

lemma add_relations_weight:
  assumes "graph_ok rhs"
  shows "(s, t) \<notin> set (arcs (relations rhs)) \<Longrightarrow>
      weight_of (add_relations_seeded D self rhs seeds) s t = weight_of self s t"
    and "weight_of rhs s t = Some w \<Longrightarrow>
      weight_of (add_relations_seeded D self rhs seeds) s t \<in> {weight_of self s t, Some w}"
    and "weight_of rhs s t = Some w \<Longrightarrow> s \<in> keys self \<Longrightarrow> t \<in> keys self \<Longrightarrow>
      weight_of (add_relations_seeded D self rhs seeds) s t = Some w"
proof -
  let ?m = "\<lambda>sts. self\<lparr>states := sts\<rparr>"
  have w: "weight_of (?m sts) s t = weight_of self s t" for sts by (simp add: weight_of_def)
  have d: "distinct (map (\<lambda>e. (e_source e, e_sink e)) (g_edges (relations rhs)))"
    using assms by (simp add: graph_ok_def arcs_def)
  have mem: "weight_of rhs s t = Some w \<Longrightarrow> (s, t, w) \<in> set (g_edges (relations rhs))"
    by (simp add: weight_of_def edge_weight_in [OF d])
  have ne: "s \<noteq> t" if "weight_of rhs s t = Some w"
    using mem [OF that] assms by (force simp: graph_ok_def list_all_iff)
  show "(s, t) \<notin> set (arcs (relations rhs)) \<Longrightarrow>
      weight_of (add_relations_seeded D self rhs seeds) s t = weight_of self s t"
    unfolding add_relations_seeded_def Let_def arcs_def by (simp add: merge_edges_weight_other w)
  have either: "weight_of rhs s t = Some w \<Longrightarrow>
      weight_of (fold (merge_edge r) (g_edges (relations rhs)) (?m sts)) s t
        \<in> {weight_of self s t, Some w}" for r sts
    using merge_edges_weight(1) [OF d mem, of r "?m sts"] unfolding w .
  show "weight_of rhs s t = Some w \<Longrightarrow>
      weight_of (add_relations_seeded D self rhs seeds) s t \<in> {weight_of self s t, Some w}"
    unfolding add_relations_seeded_def Let_def by (rule either)
  have k: "keys self \<subseteq> keys (?m (fold (fill_state (states rhs)) bs
      (fold (fill_state (states rhs)) as (states self))))" for as bs
    by (rule fills_keys [of "states rhs"]) (simp add: fills_trans [OF fills_fold fills_fold])
  show "weight_of rhs s t = Some w \<Longrightarrow> s \<in> keys self \<Longrightarrow> t \<in> keys self \<Longrightarrow>
      weight_of (add_relations_seeded D self rhs seeds) s t = Some w"
    unfolding add_relations_seeded_def Let_def
    using merge_edges_weight(2) [OF d mem ne] k by blast
qed

section \<open>Reachable states\<close>

text \<open>What the depth-first search discovers, on the two directions of the relations of a graph.\<close>

definition discovers :: "discover \<Rightarrow> (bid \<times> bid) list \<Rightarrow> bid list \<Rightarrow> bool" where
  "discovers D es seeds \<longleftrightarrow> set (D es seeds) = (set es)\<^sup>* `` set seeds"

definition merge_seeds :: "belief_graph \<Rightarrow> belief_graph \<Rightarrow> bid list option \<Rightarrow> bid list" where
  "merge_seeds self rhs seed_bids =
     bs_from_list (filter (\<lambda>b. case seed_bids of
        Some allowed \<Rightarrow> b \<in> set allowed
      | None \<Rightarrow> bm_contains (states self) b) (g_nodes (relations rhs)))"

lemma add_relations_reach:
  assumes "discovers D (arcs (relations rhs)) (merge_seeds self rhs seeds)"
    and "discovers D (map prod.swap (arcs (relations rhs))) (merge_seeds self rhs seeds)"
    and "b \<in> set (merge_seeds self rhs seeds)"
    and "(b, v) \<in> (set (arcs (relations rhs)))\<^sup>* \<or> (v, b) \<in> (set (arcs (relations rhs)))\<^sup>*"
    and "v \<in> keys rhs"
  shows "v \<in> keys (add_relations_seeded D self rhs seeds)"
proof -
  let ?E = "arcs (relations rhs)" and ?S = "merge_seeds self rhs seeds"
  let ?sts = "fold (fill_state (states rhs)) (D (map prod.swap ?E) ?S)
    (fold (fill_state (states rhs)) (D ?E ?S) (states self))"
  have swap: "set (map prod.swap ?E) = (set ?E)\<inverse>" by auto
  have "v \<in> set (D ?E ?S) \<or> v \<in> set (D (map prod.swap ?E) ?S)"
    using assms(1-4) unfolding discovers_def swap by (auto simp: rtrancl_converse)
  moreover from assms(5) obtain n where "bm_get (states rhs) v = Some n" by (auto simp: in_keys_get)
  ultimately have "bm_get ?sts v \<noteq> None" by (auto simp: fill_states_get or_else_def split: option.splits)
  then have "v \<in> keys (self\<lparr>states := ?sts\<rparr>)" by (simp add: in_keys_get)
  then have "v \<in> keys (fold (merge_edge (states rhs)) (g_edges (relations rhs)) (self\<lparr>states := ?sts\<rparr>))"
    using fills_keys [OF merge_edges_fills] by blast
  then show ?thesis
    unfolding add_relations_seeded_def merge_seeds_def Let_def .
qed

section \<open>Properties\<close>

text \<open>
  C1. Merging never leaves a dangling relation: from a graph in shape (every end of a relation has a
  state, one relation per pair, no loop), all four ways to merge another graph in, whatever that
  graph holds and whatever order the search uses, give a graph in shape with no orphaned end.
\<close>

theorem merges_keep_shape:
  assumes "graph_ok self"
  shows "graph_ok (add_relations_seeded D self rhs seeds) \<and> graph_ok (union_mut D self rhs)
    \<and> graph_ok (union_mut_from D self rhs bids) \<and> graph_ok (union_mut_with_trace D self rhs)
    \<and> find_orphaned_edges (union_mut D self rhs) = []"
  using add_relations_ok [OF assms] union.merge_ok [OF assms] trace_union.merge_ok [OF assms]
    union_ops_ok(2) [OF assms] graph_ok_no_orphans by blast

theorem merges_keep_shape_witness:
  "find_orphaned_edges (union_mut (\<lambda>es seeds. seeds) belief_graph_empty
     \<lparr>states = [], relations = from_edges [(Bid 1, Bid 2, ws_full)]\<rparr>) = []"
proof -
  have "graph_ok belief_graph_empty"
    by (simp add: graph_ok_def belief_graph_empty_def bg_empty_def arcs_def)
  from merges_keep_shape [OF this] show ?thesis by blast
qed

text \<open>
  Intersection, difference and symmetric difference are in shape and without orphaned ends for
  any two graphs, broken ones included.
\<close>

theorem set_operations_no_orphans:
  "graph_ok (intersection D a b) \<and> graph_ok (difference D a b) \<and> graph_ok (symmetric_difference D a b)
   \<and> find_orphaned_edges (intersection D a b) = [] \<and> find_orphaned_edges (difference D a b) = []
   \<and> find_orphaned_edges (symmetric_difference D a b) = []"
  using set_ops_ok graph_ok_no_orphans by blast

text \<open>
  C2. Which node a union keeps: a complete node of the right graph replaces the left one; a node
  the left graph has is otherwise kept; a trace of the right graph is only ever added where the left
  graph has nothing. The union that admits traces takes the right node always, but never a trace
  over a complete left node.
\<close>

theorem union_precedence:
  assumes "keyed rhs"
  shows "(case bm_get (states rhs) k of
      None \<Rightarrow> bm_get (states (union D self rhs)) k = bm_get (states self) k
    | Some n \<Rightarrow>
        if kind_is_complete (nd_kind n) then bm_get (states (union D self rhs)) k = Some n
        else if k \<in> keys self then bm_get (states (union D self rhs)) k = bm_get (states self) k
        else bm_get (states (union D self rhs)) k \<in> {None, Some n})
    \<and> bm_get (states (union_mut_with_trace D self rhs)) k =
        (case bm_get (states rhs) k of
           Some n \<Rightarrow> Some (newer_or_complete (bm_get (states self) k) n)
         | None \<Rightarrow> bm_get (states self) k)"
  unfolding union_def using union_get [OF assms] trace_union_get [OF assms] by blast

theorem union_precedence_witness:
  "bm_get (states (union (\<lambda>es seeds. seeds)
      \<lparr>states = [(Bid 1, unknown_node (Bid 1))], relations = bg_empty\<rparr>
      \<lparr>states = [(Bid 1, (unknown_node (Bid 1))\<lparr>nd_title := ''new''\<rparr>)], relations = bg_empty\<rparr>)) (Bid 1)
    = Some ((unknown_node (Bid 1))\<lparr>nd_title := ''new''\<rparr>)"
proof -
  let ?r = "\<lparr>states = [(Bid 1, (unknown_node (Bid 1))\<lparr>nd_title := ''new''\<rparr>)], relations = bg_empty\<rparr>"
  have "keyed ?r" by (simp add: keyed_def unknown_node_def bm_ok_Cons)
  from union_precedence [OF this, where k = "Bid 1" and D = "\<lambda>es seeds. seeds"
      and self = "\<lparr>states = [(Bid 1, unknown_node (Bid 1))], relations = bg_empty\<rparr>"]
  show ?thesis by (simp add: bm_get_def unknown_node_def kind_is_complete_def)
qed

text \<open>
  Which relation a merge keeps: a relation the right graph does not have keeps its weights, a
  relation of the right graph replaces or is added to the left one, and does so for certain when the
  left graph has both ends; no other weights appear.
\<close>

theorem merge_relations:
  assumes "graph_ok rhs"
  shows "case weight_of rhs s t of
      None \<Rightarrow> weight_of (add_relations_seeded D self rhs seeds) s t = weight_of self s t
    | Some w \<Rightarrow>
        weight_of (add_relations_seeded D self rhs seeds) s t \<in> {weight_of self s t, Some w}
        \<and> (if s \<in> keys self \<and> t \<in> keys self
           then weight_of (add_relations_seeded D self rhs seeds) s t = Some w else True)"
  using add_relations_weight [OF assms, of s t]
  by (auto simp: weight_of_def edge_weight_none arcs_def split: option.splits)

theorem merge_relations_witness:
  "weight_of (add_relations_seeded (\<lambda>es seeds. seeds)
     \<lparr>states = [(Bid 1, unknown_node (Bid 1)), (Bid 2, unknown_node (Bid 2))], relations = bg_empty\<rparr>
     \<lparr>states = [(Bid 1, unknown_node (Bid 1)), (Bid 2, unknown_node (Bid 2))],
      relations = from_edges [(Bid 1, Bid 2, ws_full)]\<rparr> None) (Bid 1) (Bid 2) = Some ws_full"
proof -
  let ?s = "[(Bid 1, unknown_node (Bid 1)), (Bid 2, unknown_node (Bid 2))]"
  let ?r = "\<lparr>states = ?s, relations = from_edges [(Bid 1, Bid 2, ws_full)]\<rparr>"
  have "graph_ok ?r"
    by (simp add: graph_ok_def keys_def from_edges_def add_node_def arcs_def bm_ok_Cons)
  from merge_relations [OF this, where s = "Bid 1" and t = "Bid 2" and D = "\<lambda>es seeds. seeds"
      and self = "\<lparr>states = ?s, relations = bg_empty\<rparr>" and seeds = None]
  show ?thesis by (simp add: weight_of_def edge_weight_def from_edges_def keys_def)
qed

text \<open>
  A merge pulls in what it can reach: given a search that discovers exactly the reachable
  nodes, every node of the right graph that is upstream or downstream of a node both graphs share
  (or of an allowed seed) is in the result.
\<close>

theorem merge_reaches:
  assumes "discovers D (arcs (relations rhs)) (merge_seeds self rhs seeds)"
    and "discovers D (map prod.swap (arcs (relations rhs))) (merge_seeds self rhs seeds)"
    and "b \<in> set (merge_seeds self rhs seeds)"
    and "(b, v) \<in> (set (arcs (relations rhs)))\<^sup>* \<or> (v, b) \<in> (set (arcs (relations rhs)))\<^sup>*"
    and "v \<in> keys rhs"
  shows "bm_contains (states (add_relations_seeded D self rhs seeds)) v"
  using add_relations_reach [OF assms] by simp

theorem merge_reaches_witness:
  "bm_contains (states (add_relations_seeded
     (\<lambda>es seeds. if es = [(Bid 1, Bid 2)] then [Bid 1, Bid 2] else [Bid 1])
     \<lparr>states = [(Bid 1, unknown_node (Bid 1))], relations = bg_empty\<rparr>
     \<lparr>states = [(Bid 2, unknown_node (Bid 2))], relations = from_edges [(Bid 1, Bid 2, ws_full)]\<rparr> None))
     (Bid 2)"
proof -
  let ?D = "\<lambda>es seeds :: bid list. if es = [(Bid 1, Bid 2)] then [Bid 1, Bid 2] else [Bid 1]"
  let ?l = "\<lparr>states = [(Bid 1, unknown_node (Bid 1))], relations = bg_empty\<rparr>"
  let ?r = "\<lparr>states = [(Bid 2, unknown_node (Bid 2))], relations = from_edges [(Bid 1, Bid 2, ws_full)]\<rparr>"
  have arcs: "arcs (relations ?r) = [(Bid 1, Bid 2)]" by (simp add: arcs_def from_edges_def)
  have seeds: "merge_seeds ?l ?r None = [Bid 1]"
    by (simp add: merge_seeds_def from_edges_def add_node_def bm_contains_iff bs_from_list_def)
  have star: "{(Bid 1, Bid 2)}\<^sup>* `` {Bid 1} = {Bid 1, Bid 2}" "{(Bid 2, Bid 1)}\<^sup>* `` {Bid 1} = {Bid 1}"
    by (auto elim: rtranclE converse_rtranclE)
  have "discovers ?D (arcs (relations ?r)) (merge_seeds ?l ?r None)"
    "discovers ?D (map prod.swap (arcs (relations ?r))) (merge_seeds ?l ?r None)"
    unfolding arcs seeds discovers_def using star by simp_all
  moreover have "(Bid 1, Bid 2) \<in> (set (arcs (relations ?r)))\<^sup>*" unfolding arcs by auto
  moreover have "Bid 1 \<in> set (merge_seeds ?l ?r None)" "Bid 2 \<in> keys ?r"
    unfolding seeds by (simp_all add: keys_def)
  ultimately show ?thesis by (intro merge_reaches [where b = "Bid 1"]) blast+
qed

end
