(* ===== verification/GraphMerge.thy ===== *)
theory GraphMerge
  imports GraphProps
begin

text \<open>
  The remaining operations on graphs: the removal of edges, comparison, pages, and the list of
  operations by which one graph is merged into a base.
\<close>

section \<open>Removing edges\<close>

lemma remove_edge_at_nth:
  "i < length es \<Longrightarrow> j < length (remove_edge_at i es) \<Longrightarrow>
     remove_edge_at i es ! j = (if j = i then last es else es ! j)"
  by (auto simp: remove_edge_at_def nth_butlast nth_list_update)

lemma remove_edge_at_keeps:
  assumes "i < length es" "e \<in> set es" "e \<noteq> es ! i"
  shows "e \<in> set (remove_edge_at i es)"
proof -
  from assms(2) obtain p where p: "p < length es" "es ! p = e" by (auto simp: in_set_conv_nth)
  with assms(3) have "p \<noteq> i" by auto
  let ?n = "length es - 1"
  have len: "length (remove_edge_at i es) = ?n" using assms(1) by (simp add: remove_edge_at_def)
  show ?thesis
  proof (cases "p = ?n")
    case True
    with p have "last es = e" by (metis last_conv_nth length_0_conv less_nat_zero_code)
    moreover have "i < ?n" using True p \<open>p \<noteq> i\<close> assms(1) by linarith
    ultimately have "remove_edge_at i es ! i = e" using remove_edge_at_nth assms(1) len by metis
    with \<open>i < ?n\<close> len show ?thesis by (metis nth_mem)
  next
    case False
    with p have "p < ?n" by linarith
    then have "remove_edge_at i es ! p = e"
      using remove_edge_at_nth [OF assms(1)] len p \<open>p \<noteq> i\<close> by simp
    with \<open>p < ?n\<close> len show ?thesis by (metis nth_mem)
  qed
qed

text \<open>Indices in ascending order, each of which is stale or still that of a failing edge.\<close>

lemma remove_all_keeps:
  assumes "sorted_wrt (<) is" "\<forall>i\<in>set is. i < length es \<longrightarrow> \<not> P (es ! i)" "e \<in> set es" "P e"
  shows "e \<in> set (fold remove_edge_at is es)"
  using assms
proof (induction "is" arbitrary: es)
  case (Cons i js)
  let ?es = "remove_edge_at i es"
  have "e \<in> set ?es"
  proof (cases "i < length es")
    case True
    with Cons.prems have "e \<noteq> es ! i" by auto
    with True Cons.prems show ?thesis by (intro remove_edge_at_keeps)
  next
    case False
    with Cons.prems show ?thesis by (simp add: remove_edge_at_def)
  qed
  moreover have "\<not> P (?es ! j)" if "j \<in> set js" "j < length ?es" for j
  proof -
    have "j \<noteq> i" "j < length es" "j = i \<or> ?es ! j = es ! j"
      using that Cons.prems(1) remove_edge_at_nth [of i es j]
      by (auto simp: remove_edge_at_def split: if_splits)
    with Cons.prems(2) that show ?thesis by auto
  qed
  ultimately show ?case using Cons by simp
qed simp

text \<open>
  \<open>retain\<close> keeps every relation that satisfies the predicate, but not only those: removing a
  relation moves the last one into its place, and the indices collected before are stale, so asked to
  remove everything it leaves the second of two relations.
\<close>

theorem retain_leaks:
  "Set.filter (\<lambda>e. f (e_source e) (e_sink e) (e_weights e)) (set (g_edges g))
     \<subseteq> set (g_edges (retain f g))
   \<and> g_edges (retain (\<lambda>_ _ _. False) (from_edges [e1, e2])) = [e2]"
proof
  let ?P = "\<lambda>e. f (e_source e) (e_sink e) (e_weights e)"
  let ?is = "filter (\<lambda>i. \<not> ?P (g_edges g ! i)) [0..<length (g_edges g)]"
  have r: "g_edges (retain f g) = fold remove_edge_at ?is (g_edges g)"
    by (simp add: retain_def Let_def)
  have "sorted_wrt (<) ?is" by (intro sorted_wrt_filter) simp
  then have "e \<in> set (g_edges (retain f g))" if "e \<in> set (g_edges g)" "?P e" for e
    unfolding r using that by (intro remove_all_keeps [where P = ?P]) auto
  then show "Set.filter ?P (set (g_edges g)) \<subseteq> set (g_edges (retain f g))" by auto
  show "g_edges (retain (\<lambda>_ _ _. False) (from_edges [e1, e2])) = [e2]"
    by (simp add: retain_def from_edges_def remove_edge_at_def Let_def)
qed

section \<open>Comparison\<close>

text \<open>
  Two graphs compare equal as soon as the nodes of the left one are among those of the right
  one: neither their relations nor the contents of the nodes count, and the comparison is not
  symmetric.
\<close>

theorem belief_graph_eq_is_subset:
  "belief_graph_eq a b = (keys a \<subseteq> keys b)
   \<and> belief_graph_eq belief_graph_empty a
   \<and> belief_graph_eq \<lparr>states = [(k, n)], relations = r\<rparr> belief_graph_empty = False"
proof -
  have "length xs = length (filter P xs) \<longleftrightarrow> (\<forall>x\<in>set xs. P x)" for xs :: "bid list" and P
    by (metis List.length_filter_less filter_True less_irrefl)
  from this [of "bm_keys (states a)"] have "belief_graph_eq a b = (keys a \<subseteq> keys b)" for b
    by (auto simp: belief_graph_eq_def bm_keys_def keys_def)
  then show ?thesis by (simp add: belief_graph_eq_def belief_graph_empty_def bm_keys_def)
qed

section \<open>Pages\<close>

lemma window_enumerate:
  "map snd (filter (\<lambda>(idx, _). \<not> idx < start \<and> idx < start + n) (List.enumerate k xs)) =
     take (start + n - max k start) (drop (start - k) xs)"
proof (induction xs arbitrary: k)
  case (Cons x xs)
  consider "k < start" | "start \<le> k" "k < start + n" | "start \<le> k" "start + n \<le> k" by linarith
  then show ?case
  proof cases
    case 1
    then have "start - k = Suc (start - Suc k)" "max (Suc k) start = start" "max k start = start"
      by simp_all
    with 1 Cons [of "Suc k"] show ?thesis by simp
  next
    case 2
    then have "start + n - k = Suc (start + n - Suc k)" "max (Suc k) start = Suc k" "max k start = k"
      by simp_all
    with 2 Cons [of "Suc k"] show ?thesis by simp
  next
    case 3
    then have "max (Suc k) start = Suc k" "max k start = k" by simp_all
    with 3 Cons [of "Suc k"] show ?thesis by simp
  qed
qed simp

lemma bm_ok_take: "bm_ok m \<Longrightarrow> bm_ok (take n m)"
  by (simp add: bm_ok_def take_map [symmetric] sorted_wrt_take)

lemma bm_ok_drop: "bm_ok m \<Longrightarrow> bm_ok (drop n m)"
  by (simp add: bm_ok_def drop_map [symmetric] sorted_wrt_drop)

lemma bm_from_list_id: "bm_ok m \<Longrightarrow> bm_from_list m = m"
proof (rule bm.table_ext)
  assume "bm_ok m"
  then show "bm_ok m" "\<And>k. bm_get (bm_from_list m) k = bm_get m k"
    by (simp_all add: bm_get_from_list map_of_rev)
qed simp

text \<open>
  Paging: an offset beyond the number of nodes is a subtraction overflow (the page is not
  computed); any other offset gives the nodes from the offset on, in key order, at most as many as
  the limit (100 by default), and only relations between nodes of the page.
\<close>

theorem paginate_spec:
  assumes "graph_ok g"
  shows "case paginate g limit offset of
      None \<Rightarrow> unwrap_or offset 0 > length (states g)
    | Some page \<Rightarrow>
        unwrap_or offset 0 \<le> length (states g) \<and> rp_count page = length (states g)
        \<and> rp_start page = unwrap_or offset 0
        \<and> states (rp_results page)
            = take (unwrap_or limit DEFAULT_LIMIT) (drop (unwrap_or offset 0) (states g))
        \<and> find_orphaned_edges (rp_results page) = []"
proof (cases "unwrap_or offset 0 > length (states g)")
  case True
  then show ?thesis by (simp add: paginate_def Let_def)
next
  case False
  let ?count = "length (states g)" and ?start = "unwrap_or offset 0"
  let ?lim = "unwrap_or limit DEFAULT_LIMIT"
  let ?pl = "if ?lim > ?count - ?start then ?count else ?lim"
  have win: "map snd (filter (\<lambda>(idx, _). \<not> idx < ?start \<and> idx < ?start + ?pl)
      (List.enumerate 0 (states g))) = take ?pl (drop ?start (states g))"
    by (simp add: window_enumerate)
  have take: "take ?pl (drop ?start (states g)) = take ?lim (drop ?start (states g))"
    by (simp add: min_def)
  have ok: "bm_ok (take ?lim (drop ?start (states g)))"
    using assms by (simp add: graph_ok_def bm_ok_take bm_ok_drop)
  have all: "take ?lim (drop ?start (states g)) = states g" if "\<not> (?count > ?pl \<or> ?start > 0)"
    using that by (auto split: if_splits)
  show ?thesis
  proof (cases "?count > ?pl \<or> ?start > 0")
    case True
    with False show ?thesis
      by (simp add: paginate_def Let_def win [unfolded take] bm_from_list_id [OF ok]
          find_orphaned_edges_iff keys_def list_all_iff from_edges_def bm_contains_iff
          del: contains_keys if_split)
  next
    case whole: False
    then show ?thesis
      using False all [OF whole] graph_ok_no_orphans [OF assms]
      by (simp add: paginate_def Let_def del: if_split)
  qed
qed

theorem paginate_spec_witness:
  "map_option (\<lambda>page. states (rp_results page))
     (paginate \<lparr>states = [(Bid 1, unknown_node (Bid 1)), (Bid 2, unknown_node (Bid 2))],
                relations = bg_empty\<rparr> (Some 1) (Some 1))
   = Some [(Bid 2, unknown_node (Bid 2))]"
proof -
  let ?g = "\<lparr>states = [(Bid 1, unknown_node (Bid 1)), (Bid 2, unknown_node (Bid 2))],
             relations = bg_empty\<rparr>"
  have "graph_ok ?g" by (simp add: graph_ok_def bg_empty_def arcs_def bm_ok_Cons)
  from paginate_spec [OF this, of "Some 1" "Some 1"] show ?thesis
    by (simp split: option.splits)
qed

section \<open>The scope of a merge\<close>

lemma nodes_from_edges: "set (g_nodes (from_edges es)) = e_source ` set es \<union> e_sink ` set es"
proof -
  have "set (fold (\<lambda>e nodes. add_node (e_sink e) (add_node (e_source e) nodes)) es ns)
      = set ns \<union> e_source ` set es \<union> e_sink ` set es" for ns
    by (induction es arbitrary: ns) auto
  then show ?thesis by (simp add: from_edges_def)
qed

lemma find_externals_ends:
  "b \<in> set (find_externals g ws d) \<Longrightarrow>
     \<exists>e\<in>set (g_edges (relations g)). b = e_source e \<or> b = e_sink e"
  by (fastforce simp: find_externals_def externals_def graph_filter_def nodes_from_edges Let_def)

lemma build_balance_expr_ends:
  assumes "build_balance_expr g = Some expr"
  shows "\<exists>missing. expr = StateIn (PBid missing)
    \<and> (\<forall>b\<in>set missing. \<exists>e\<in>set (g_edges (relations g)). b = e_source e \<or> b = e_sink e)"
  using assms find_externals_ends
  by (fastforce simp: build_balance_expr_def build_downstream_expr_def Let_def split: if_splits)

lemma fetch_missing_nothing:
  "(\<And>b. b \<in> set missing \<Longrightarrow> bm_get rhs_states b = None \<or> bm_contains sts b) \<Longrightarrow>
     fetch_missing rhs_states missing sts = (sts, False)"
proof -
  have "fold (\<lambda>b (sts, added).
       case bm_get rhs_states b of
         None \<Rightarrow> (sts, added)
       | Some n \<Rightarrow> if bm_contains sts b then (sts, added) else (bm_insert b n sts, True))
       missing (sts, added) = (sts, added)"
    if "\<And>b. b \<in> set missing \<Longrightarrow> bm_get rhs_states b = None \<or> bm_contains sts b" for added
    using that
  proof (induction missing)
    case (Cons a missing)
    note IH = Cons.IH [OF Cons.prems [OF list.set_intros(2)]]
    have "bm_get rhs_states a = None \<or> bm_contains sts a" using Cons.prems [of a] by simp
    with IH show ?case by (auto split: option.splits)
  qed simp
  then show "(\<And>b. b \<in> set missing \<Longrightarrow> bm_get rhs_states b = None \<or> bm_contains sts b) \<Longrightarrow> ?thesis"
    unfolding fetch_missing_def by blast
qed

lemma balance_within_settled:
  assumes "\<And>e b. e \<in> set (g_edges (relations g)) \<Longrightarrow> b = e_source e \<or> b = e_sink e \<Longrightarrow>
      bm_get (states rhs) b = None \<or> bm_contains (states g) b"
  shows "states (balance_within rhs g) = states g"
proof (cases "build_balance_expr g")
  case None
  then show ?thesis by (simp add: balance_within.simps)
next
  case (Some expr)
  from build_balance_expr_ends [OF Some] obtain missing where m: "expr = StateIn (PBid missing)"
      "\<forall>b\<in>set missing. \<exists>e\<in>set (g_edges (relations g)). b = e_source e \<or> b = e_sink e"
    by blast
  have "fetch_missing (states rhs) missing (states g) = (states g, False)"
  proof (rule fetch_missing_nothing)
    fix b assume "b \<in> set missing"
    with m(2) obtain e where "e \<in> set (g_edges (relations g))" "b = e_source e \<or> b = e_sink e"
      by blast
    then show "bm_get (states rhs) b = None \<or> bm_contains (states g) b" by (rule assms)
  qed
  with Some m(1) show ?thesis by (simp add: balance_within.simps)
qed

lemma restrict_states_get:
  "bm_get (restrict_states rhs bids) k = (if k \<in> set bids then bm_get (states rhs) k else None)"
proof -
  have "map_of (rev (List.map_filter (\<lambda>b. map_option (Pair b) (bm_get (states rhs) b)) bids)) k
      = (if k \<in> set bids then bm_get (states rhs) k else None)" for bids
  proof (induction bids rule: rev_induct)
    case (snoc b bids)
    have "List.map_filter f (xs @ [x]) = List.map_filter f xs @ (case f x of Some y \<Rightarrow> [y] | None \<Rightarrow> [])"
      for f :: "bid \<Rightarrow> (bid \<times> node) option" and xs x
      by (induction xs) (auto simp: List.map_filter_simps split: option.splits)
    with snoc show ?case by (auto split: option.splits)
  qed (simp add: List.map_filter_simps)
  then show ?thesis by (simp add: restrict_states_def bm_get_from_list)
qed

lemma mem_bm_keys: "k \<in> set (bm_keys m) \<longleftrightarrow> bm_get m k \<noteq> None"
  by (simp add: bm_keys_def bm_get_def map_of_eq_None_iff)

lemma set_halo: "set seeds \<subseteq> set (halo rhs seeds)"
proof -
  have "set h \<subseteq> set (fold (\<lambda>e h. if e_source e \<in> set seeds \<or> e_sink e \<in> set seeds
      then bs_insert (e_sink e) (bs_insert (e_source e) h) else h) es h)" for es h
  proof (induction es arbitrary: h)
    case (Cons e es)
    show ?case using Cons.IH [of h] Cons.IH [of "bs_insert (e_sink e) (bs_insert (e_source e) h)"]
      by auto
  qed simp
  then show ?thesis unfolding halo_def .
qed

lemma set_halo_eq:
  "set (halo rhs seeds) = set seeds \<union>
     (\<Union>e\<in>{e \<in> set (g_edges (relations rhs)). e_source e \<in> set seeds \<or> e_sink e \<in> set seeds}.
        {e_source e, e_sink e})"
proof -
  have "set (fold (\<lambda>e h. if e_source e \<in> set seeds \<or> e_sink e \<in> set seeds
      then bs_insert (e_sink e) (bs_insert (e_source e) h) else h) es h) = set h \<union>
        (\<Union>e\<in>{e \<in> set es. e_source e \<in> set seeds \<or> e_sink e \<in> set seeds}. {e_source e, e_sink e})" for es h
  proof (induction es arbitrary: h)
    case (Cons e es)
    show ?case
      by (cases "e_source e \<in> set seeds \<or> e_sink e \<in> set seeds") (auto simp: Cons.IH)
  qed simp
  then show ?thesis unfolding halo_def .
qed

lemma scoped_bids_halo:
  "set (scoped_bids rhs (Some seeds)) = set (halo rhs seeds) \<inter> keys rhs"
proof -
  let ?h = "halo rhs seeds"
  let ?g = "\<lparr>states = restrict_states rhs ?h, relations = restrict_edges rhs ?h\<rparr>"
  have "bm_get (states rhs) b = None \<or> bm_contains (states ?g) b"
    if "e \<in> set (g_edges (relations ?g))" "b = e_source e \<or> b = e_sink e" for e b
  proof -
    from that have "b \<in> set ?h" by (auto simp: restrict_edges_def from_edges_def)
    then show ?thesis
      by (cases "bm_get (states rhs) b") (simp_all add: bm_contains_def restrict_states_get)
  qed
  from balance_within_settled [OF this]
  have "states (balance_within rhs ?g) = restrict_states rhs ?h" by simp
  moreover have "set (bm_keys (restrict_states rhs ?h)) = set ?h \<inter> keys rhs"
    by (auto simp: mem_bm_keys restrict_states_get in_keys_get split: if_splits)
  ultimately show ?thesis by (simp add: scoped_bids_def Let_def)
qed

text \<open>
  The scope of a merge is the seeds and their direct neighbours, as far as the merged graph has
  their states: the loop that should walk on to the roots of the sections fetches nothing, because it
  looks at relations between nodes it already holds.
\<close>

theorem scope_is_halo:
  "set (scoped_bids rhs (Some seeds)) =
     (set seeds \<union>
       (\<Union>e\<in>{e \<in> set (g_edges (relations rhs)). e_source e \<in> set seeds \<or> e_sink e \<in> set seeds}.
          {e_source e, e_sink e}))
     \<inter> keys rhs"
  unfolding scoped_bids_halo set_halo_eq ..

section \<open>The operations of a merge\<close>

lemma mem_map_filter: "y \<in> set (List.map_filter f xs) \<longleftrightarrow> (\<exists>x\<in>set xs. f x = Some y)"
  by (induction xs) (auto simp: List.map_filter_simps split: option.splits)

text \<open>
  C3. What a merge emits, for any search: an upsert for exactly the scoped nodes that the base lacks
  or has only as a trace (never over a complete node), before any relation; and for every relation
  with an end in scope either its own update with its weights, or the base has that relation with
  weights that compare equal.
\<close>

theorem event_stream_complete:
  assumes "graph_ok rhs" "(s, t, w) \<in> set (g_edges (relations rhs))"
    and "s \<in> set (scoped_bids rhs seeds) \<or> t \<in> set (scoped_bids rhs seeds)"
  shows "(MergeRelation s t w \<in> set (to_event_stream DT rhs lhs seeds)
      \<or> list_ex (\<lambda>le. e_source le = s \<and> e_sink le = t \<and> ws_eq (e_weights le) w) (g_edges (relations lhs)))
    \<and> (NodeUpsert n \<in> set (to_event_stream DT rhs lhs seeds)) =
        (n \<in> set (bm_values (states rhs)) \<and> nd_bid n \<in> set (scoped_bids rhs seeds)
         \<and> (case bm_get (states lhs) (nd_bid n) of Some m \<Rightarrow> Trace \<in> nd_kind m | None \<Rightarrow> True))"
proof -
  have d: "distinct (map (\<lambda>e. (e_source e, e_sink e)) (g_edges (relations rhs)))"
    using assms(1) by (simp add: graph_ok_def arcs_def)
  then have w: "edge_weight (g_edges (relations rhs)) s t = Some w"
    using assms(2) by (simp add: edge_weight_in)
  let ?sc = "scoped_bids rhs seeds"
  let ?tree = "section_arcs rhs ?sc"
  let ?seeds = "filter (\<lambda>b. b \<notin> set (map snd ?tree)) (subgraph_nodes ?tree)"
  let ?sec = "List.map_filter (\<lambda>(sink, source).
      map_option (\<lambda>w. ((source, sink), MergeRelation source sink w))
        (edge_weight (g_edges (relations rhs)) source sink)) (snd DT ?tree ?seeds)"
  let ?other = "\<lambda>e. if e_source e \<notin> set ?sc \<and> e_sink e \<notin> set ?sc then None
      else if (e_source e, e_sink e) \<in> set (map fst ?sec) then None
      else if list_ex (\<lambda>le. e_source le = e_source e \<and> e_sink le = e_sink e
                           \<and> ws_eq (e_weights le) (e_weights e)) (g_edges (relations lhs))
      then None
      else Some (MergeRelation (e_source e) (e_sink e) (e_weights e))"
  have stream: "to_event_stream DT rhs lhs seeds = node_ops rhs lhs ?sc @ map snd ?sec
      @ List.map_filter ?other (g_edges (relations rhs))"
    unfolding to_event_stream_def Let_def ..
  have sec_ops: "op_val \<in> snd ` set ?sec \<Longrightarrow> \<exists>a b v. op_val = MergeRelation a b v" for op_val
    by (auto simp: mem_map_filter)
  have "((s, t), MergeRelation s t w) \<in> set ?sec" if "(s, t) \<in> set (map fst ?sec)"
  proof -
    from that obtain p x where p: "p \<in> set (snd DT ?tree ?seeds)"
        "(case p of (sink, source) \<Rightarrow> map_option (\<lambda>w. ((source, sink), MergeRelation source sink w))
          (edge_weight (g_edges (relations rhs)) source sink)) = Some ((s, t), x)"
      by (auto simp: mem_map_filter)
    then have "p = (t, s)" by (auto split: prod.splits)
    with p(1) w show ?thesis unfolding mem_map_filter by (intro bexI [of _ "(t, s)"]) simp_all
  qed
  then have 1: "(s, t) \<in> set (map fst ?sec) \<Longrightarrow> MergeRelation s t w \<in> set (map snd ?sec)" by force
  have 2: "MergeRelation s t w \<in> set (List.map_filter ?other (g_edges (relations rhs)))"
    if "(s, t) \<notin> set (map fst ?sec)"
      "\<not> list_ex (\<lambda>le. e_source le = s \<and> e_sink le = t \<and> ws_eq (e_weights le) w) (g_edges (relations lhs))"
  proof -
    have "?other (s, t, w) = Some (MergeRelation s t w)" using that assms(3) by simp
    with assms(2) show ?thesis unfolding mem_map_filter by blast
  qed
  have 3: "NodeUpsert n \<in> set (to_event_stream DT rhs lhs seeds) \<longleftrightarrow> NodeUpsert n \<in> set (node_ops rhs lhs ?sc)"
    using sec_ops [of "NodeUpsert n"] unfolding stream by (auto simp: mem_map_filter split: if_splits)
  show ?thesis
    using 1 2 unfolding 3 by (auto simp: stream node_ops_def)
qed

theorem event_stream_complete_witness:
  "MergeRelation (Bid 1) (Bid 2) ws_full \<in> set (to_event_stream (\<lambda>es s. s, \<lambda>es s. [])
     \<lparr>states = [(Bid 1, unknown_node (Bid 1)), (Bid 2, unknown_node (Bid 2))],
      relations = from_edges [(Bid 1, Bid 2, ws_full)]\<rparr> belief_graph_empty None)"
proof -
  let ?s = "[(Bid 1, unknown_node (Bid 1)), (Bid 2, unknown_node (Bid 2))]"
  let ?r = "\<lparr>states = ?s, relations = from_edges [(Bid 1, Bid 2, ws_full)]\<rparr>"
  have ok: "graph_ok ?r"
    by (simp add: graph_ok_def keys_def from_edges_def add_node_def arcs_def bm_ok_Cons)
  have "(Bid 1, Bid 2, ws_full) \<in> set (g_edges (relations ?r))" by (simp add: from_edges_def)
  moreover have "Bid 1 \<in> set (scoped_bids ?r None) \<or> Bid 2 \<in> set (scoped_bids ?r None)"
    by (simp add: scoped_bids_def bm_keys_def)
  ultimately show ?thesis
    using event_stream_complete [OF ok, of "Bid 1" "Bid 2" ws_full None "(\<lambda>es s. s, \<lambda>es s. [])"
        belief_graph_empty] by (simp add: belief_graph_empty_def bg_empty_def)
qed

end
