(* ===== verification/Sources.thy ===== *)
theory Sources
  imports GraphMerge
begin

text \<open>
  Sources of beliefs (the trait \<open>BeliefSource\<close> of \<open>query.rs\<close>): what a query engine asks of a store,
  as a locale, and the trait's own methods on top of the two evaluation functions a store provides:
  \<open>balance\<close>, \<open>eval\<close> and \<open>eval_query\<close>.

  A store answers or fails, with failures of any type \<open>'e\<close>: the errors of the code, or, in
  \<open>StoreLookups\<close>, an evaluation that never answers. A failure is passed on at once. \<open>balance\<close> works on a mutable graph, so its
  result is paired with the graph it leaves behind. The other methods drop their graph on a failure.
\<close>

section \<open>Methods of the trait\<close>

type_synonym 'e evaluator = "expression \<Rightarrow> 'e + belief_graph"
type_synonym 'e tracer = "expression \<Rightarrow> weight_set \<Rightarrow> 'e + belief_graph"

function balance_loop ::
    "discover \<Rightarrow> 'e tracer \<Rightarrow> nat \<Rightarrow> expression option \<Rightarrow> belief_graph
      \<Rightarrow> ('e + unit) \<times> belief_graph" where
  "balance_loop D eval_trace loop_iter balance_expr g =
     (case balance_expr of
        None \<Rightarrow> (Inr (), g)
      | Some expr \<Rightarrow>
          if loop_iter > BALANCE_CUTOFF then (Inr (), g)
          else case eval_trace expr (ws_from_kind Section) of
              Inl err \<Rightarrow> (Inl err, g)
            | Inr balance_set \<Rightarrow>
                let g = union_mut D g balance_set; next_expr = build_balance_expr g
                in if next_expr = Some expr then (Inr (), g)
                   else balance_loop D eval_trace (Suc loop_iter) next_expr g)"
  by pat_completeness auto
termination
  by (relation "measure (\<lambda>(_, _, loop_iter, _, _). Suc BALANCE_CUTOFF - loop_iter)") auto

declare balance_loop.simps [simp del]

definition balance ::
    "discover \<Rightarrow> 'e tracer \<Rightarrow> belief_graph \<Rightarrow> ('e + unit) \<times> belief_graph" where
  "balance D eval_trace g = balance_loop D eval_trace 0 (build_downstream_expr g None) g"

definition balanced_result ::
    "discover \<Rightarrow> 'e tracer \<Rightarrow> belief_graph \<Rightarrow> 'e + belief_graph" where
  "balanced_result D eval_trace g =
     (case balance D eval_trace g of
        (Inl err, _) \<Rightarrow> Inl err
      | (Inr _, g') \<Rightarrow> Inr g')"

definition eval :: "discover \<Rightarrow> 'e evaluator \<Rightarrow> 'e tracer \<Rightarrow> 'e evaluator" where
  "eval D eval_unbalanced eval_trace expr =
     (case eval_unbalanced expr of
        Inl err \<Rightarrow> Inl err
      | Inr g \<Rightarrow> balanced_result D eval_trace g)"

text \<open>
  One direction of a walk: \<open>walk_set\<close> is made from the seed's answer in the first round. The walks
  upstream and downstream differ in the expression they build only.
\<close>

function walk_loop ::
    "discover \<Rightarrow> 'e evaluator \<Rightarrow> (belief_graph \<Rightarrow> expression option) \<Rightarrow> nat \<Rightarrow> belief_graph \<Rightarrow> nat
      \<Rightarrow> expression option \<Rightarrow> belief_graph option \<Rightarrow> 'e + belief_graph option" where
  "walk_loop D eval_unbalanced build_expr cutoff bg walked walk_expr walk_set =
     (case walk_expr of
        None \<Rightarrow> Inr walk_set
      | Some expr \<Rightarrow>
          if walked \<ge> cutoff then Inr walk_set
          else case eval_unbalanced expr of
              Inl err \<Rightarrow> Inl err
            | Inr answer \<Rightarrow>
                let g = union_mut_with_trace D (unwrap_or walk_set bg) answer; next_expr = build_expr g
                in if next_expr = Some expr then Inr (Some g)
                   else walk_loop D eval_unbalanced build_expr cutoff bg (Suc walked) next_expr (Some g))"
  by pat_completeness auto
termination
  by (relation "measure (\<lambda>(_, _, _, cutoff, _, walked, _, _). cutoff - walked)") auto

declare walk_loop.simps [simp del]

definition walk ::
    "discover \<Rightarrow> 'e evaluator \<Rightarrow> (belief_graph \<Rightarrow> expression option) \<Rightarrow> nat \<Rightarrow> belief_graph
      \<Rightarrow> 'e + belief_graph option" where
  "walk D eval_unbalanced build_expr distance bg =
     walk_loop D eval_unbalanced build_expr (min MAX_TRAVERSAL distance) bg 0 (build_expr bg) None"

definition join_walks ::
    "discover \<Rightarrow> belief_graph \<Rightarrow> belief_graph option \<Rightarrow> belief_graph option \<Rightarrow> belief_graph" where
  "join_walks D bg up down =
     (case (up, down) of
        (Some u, Some d) \<Rightarrow> union_mut D u d
      | (Some u, None) \<Rightarrow> u
      | (None, Some d) \<Rightarrow> d
      | (None, None) \<Rightarrow> bg)"

definition traverse ::
    "discover \<Rightarrow> 'e evaluator \<Rightarrow> neighbors_expression option \<Rightarrow> belief_graph
      \<Rightarrow> 'e + belief_graph" where
  "traverse D eval_unbalanced neighbor_walk bg =
     (case neighbor_walk of
        None \<Rightarrow> Inr bg
      | Some nb \<Rightarrow>
          (case walk D eval_unbalanced (\<lambda>g. build_upstream_expr g (nb_filter nb)) (nb_upstream nb) bg of
             Inl err \<Rightarrow> Inl err
           | Inr up \<Rightarrow>
               (case walk D eval_unbalanced (\<lambda>g. build_downstream_expr g (nb_filter nb))
                       (nb_downstream nb) bg of
                  Inl err \<Rightarrow> Inl err
                | Inr down \<Rightarrow> Inr (join_walks D bg up down))))"

definition eval_query ::
    "discover \<Rightarrow> 'e evaluator \<Rightarrow> 'e tracer \<Rightarrow> belief_query \<Rightarrow> bool \<Rightarrow> 'e + belief_graph" where
  "eval_query D eval_unbalanced eval_trace query all_or_none =
     (case eval_unbalanced (q_seed query) of
        Inl err \<Rightarrow> Inl err
      | Inr bg \<Rightarrow>
          if all_or_none \<and> states bg = [] then Inr belief_graph_empty
          else case traverse D eval_unbalanced (q_traverse query) bg of
              Inl err \<Rightarrow> Inl err
            | Inr walked \<Rightarrow>
                if states walked = [] then Inr walked else balanced_result D eval_trace walked)"

section \<open>What is drawn from a store\<close>

text \<open>
  A graph is drawn from a store when each of its nodes is the store's, at most with the mark
  \<open>Trace\<close> added, and each of its relations is a relation of the store with the same weights.
\<close>

definition mark_trace :: "node \<Rightarrow> node" where
  "mark_trace n = n\<lparr>nd_kind := insert Trace (nd_kind n)\<rparr>"

definition drawn_state :: "(bid, node) bmap \<Rightarrow> bid \<Rightarrow> node \<Rightarrow> bool" where
  "drawn_state base k n \<longleftrightarrow>
     (case bm_get base k of None \<Rightarrow> False | Some m \<Rightarrow> n = m \<or> n = mark_trace m)"

text \<open>Graphs whose nodes satisfy \<open>Q\<close> and whose relations are in \<open>E\<close>: closed under merging.\<close>

definition states_all :: "(bid \<Rightarrow> node \<Rightarrow> bool) \<Rightarrow> (bid, node) bmap \<Rightarrow> bool" where
  "states_all Q sts \<longleftrightarrow> list_all (\<lambda>(k, n). Q k n) sts"

definition within :: "(bid \<Rightarrow> node \<Rightarrow> bool) \<Rightarrow> edge set \<Rightarrow> belief_graph \<Rightarrow> bool" where
  "within Q E g \<longleftrightarrow> states_all Q (states g) \<and> set (g_edges (relations g)) \<subseteq> E"

definition drawn_from :: "belief_graph \<Rightarrow> belief_graph \<Rightarrow> bool" where
  "drawn_from base g \<longleftrightarrow> within (drawn_state (states base)) (set (g_edges (relations base))) g"

lemma states_all_mem: "states_all Q sts \<longleftrightarrow> (\<forall>(k, n)\<in>set sts. Q k n)"
  by (simp add: states_all_def list_all_iff)

lemma states_all_Nil [simp]: "states_all Q []"
  by (simp add: states_all_def)

lemma set_bm_insert: "set (bm_insert k v m) \<subseteq> insert (k, v) (set m)"
  by (induction k v m rule: bm_insert.induct) auto

lemma states_all_insert: "states_all Q sts \<Longrightarrow> Q k n \<Longrightarrow> states_all Q (bm_insert k n sts)"
  using set_bm_insert [of k n sts] unfolding states_all_mem by blast

lemma states_all_get: "states_all Q sts \<Longrightarrow> bm_get sts k = Some n \<Longrightarrow> Q k n"
  unfolding states_all_mem by (drule bm_get_in) blast

lemma states_all_fill:
  "states_all Q rhs \<Longrightarrow> states_all Q sts \<Longrightarrow> states_all Q (fill_state rhs b sts)"
  by (auto simp: fill_state_def intro: states_all_insert states_all_get split: option.splits)

lemma states_all_fills:
  "states_all Q rhs \<Longrightarrow> states_all Q sts \<Longrightarrow> states_all Q (fold (fill_state rhs) bs sts)"
  by (induction bs arbitrary: sts) (simp_all add: states_all_fill)

lemma within_merge_edge:
  assumes "states_all Q rhs" "e \<in> E" "within Q E g"
  shows "within Q E (merge_edge rhs e g)"
proof -
  let ?sts = "fill_state rhs (e_source e) (fill_state rhs (e_sink e) (states g))"
  have s: "states_all Q ?sts" using assms by (simp add: states_all_fill within_def)
  have "set (update_edge (e_source e) (e_sink e) (e_weights e) (g_edges (relations g))) \<subseteq> E"
    using set_update_edge [of "e_source e" "e_sink e" "e_weights e" "g_edges (relations g)"] assms
    unfolding edge_eq within_def by blast
  with s assms show ?thesis
    by (simp add: merge_edge_def Let_def within_def connect_def)
qed

lemma within_merge_edges:
  assumes "states_all Q rhs" "set es \<subseteq> E" "within Q E g"
  shows "within Q E (fold (merge_edge rhs) es g)"
  using assms(2,3) by (induction es arbitrary: g) (simp_all add: within_merge_edge assms(1))

lemma within_add_relations:
  assumes "within Q E self" "within Q E rhs"
  shows "within Q E (add_relations_seeded D self rhs seeds)"
proof -
  have r: "states_all Q (states rhs)" "set (g_edges (relations rhs)) \<subseteq> E"
    using assms(2) by (simp_all add: within_def)
  have "within Q E (self\<lparr>states := fold (fill_state (states rhs)) bs
      (fold (fill_state (states rhs)) as (states self))\<rparr>)" for as bs
    using assms(1) r(1) by (simp add: within_def states_all_fills)
  then show ?thesis
    unfolding add_relations_seeded_def Let_def by (rule within_merge_edges [OF r])
qed

lemma states_all_upserts:
  assumes "\<And>n. n \<in> set ns \<Longrightarrow> Q (nd_bid n) n" "states_all Q sts"
  shows "states_all Q (insert_nodes ns sts)" "states_all Q (fold upsert_with_trace ns sts)"
proof -
  show "states_all Q (insert_nodes ns sts)"
    using assms unfolding insert_nodes_def
    by (induction ns arbitrary: sts) (simp_all add: states_all_insert)
  show "states_all Q (fold upsert_with_trace ns sts)"
    using assms
  proof (induction ns arbitrary: sts)
    case (Cons n ns)
    then have "states_all Q (upsert_with_trace n sts)"
      by (auto simp: upsert_with_trace_def intro: states_all_insert split: option.splits)
    with Cons show ?case by simp
  qed simp
qed

definition binds_bid :: "(bid \<Rightarrow> node \<Rightarrow> bool) \<Rightarrow> bool" where
  "binds_bid Q \<longleftrightarrow> (\<forall>k n. Q k n \<longrightarrow> nd_bid n = k)"

lemma states_all_values:
  "binds_bid Q \<Longrightarrow> states_all Q sts \<Longrightarrow> n \<in> set (bm_values sts) \<Longrightarrow> Q (nd_bid n) n"
  by (fastforce simp: bm_values_def states_all_mem binds_bid_def)

lemma within_unions:
  assumes "binds_bid Q" "within Q E self" "within Q E rhs"
  shows "within Q E (union_mut D self rhs)" "within Q E (union_mut_with_trace D self rhs)"
proof -
  have "n \<in> set (bm_values (states rhs)) \<Longrightarrow> Q (nd_bid n) n" for n
    using assms(1,3) states_all_values unfolding within_def by blast
  then have
    "within Q E (self\<lparr>states := insert_nodes (complete_nodes rhs) (states self)\<rparr>)"
    "within Q E (self\<lparr>states := fold upsert_with_trace (bm_values (states rhs)) (states self)\<rparr>)"
    using assms(2) by (auto simp: within_def complete_nodes_def intro!: states_all_upserts)
  then show "within Q E (union_mut D self rhs)" "within Q E (union_mut_with_trace D self rhs)"
    unfolding union_mut_def union_mut_with_trace_def add_relations_def
    using assms(3) by (simp_all add: within_add_relations)
qed

lemma states_all_from_list:
  assumes "\<And>k n. (k, n) \<in> set es \<Longrightarrow> Q k n"
  shows "states_all Q (bm_from_list es)"
proof -
  have "states_all Q (fold (\<lambda>(k, v) m. bm_insert k v m) es sts)" if "states_all Q sts" for sts
    using assms that by (induction es arbitrary: sts) (auto simp: states_all_insert)
  from this [of "[]"] show ?thesis by (simp add: bm_from_list_def)
qed

lemma within_select:
  assumes "binds_bid Q" "within Q E g"
  shows "within Q E (select_states g bids)"
proof -
  have "Q (nd_bid n) n" if "bm_get (states g) k = Some n" for k n
    using that assms states_all_get [of Q "states g"] by (fastforce simp: within_def binds_bid_def)
  then have "states_all Q (states (select_states g bids))"
    unfolding select_states_def belief_graph.simps
    by (intro states_all_from_list) (auto simp: mem_map_filter)
  then show ?thesis by (simp add: within_def select_states_def bg_empty_def)
qed

lemma within_set_ops:
  assumes "binds_bid Q" "within Q E a" "within Q E b"
  shows "within Q E (intersection D a b)" "within Q E (difference D a b)"
    "within Q E (symmetric_difference D a b)"
proof -
  have d: "within Q E (difference D x y)" if "within Q E x" "within Q E y" for x y
    unfolding difference_def Let_def add_relations_def
    by (intro within_add_relations within_select assms(1) that)
  show "within Q E (intersection D a b)"
    unfolding intersection_def Let_def add_relations_def
    by (intro within_add_relations within_select assms)
  show "within Q E (difference D a b)" by (intro d assms)
  show "within Q E (symmetric_difference D a b)"
    unfolding symmetric_difference_def union_def by (intro within_unions assms d)
qed

lemma mark_trace_bid [simp]: "nd_bid (mark_trace n) = nd_bid n"
  by (simp add: mark_trace_def)

lemma keyed_bid: "keyed base \<Longrightarrow> bm_get (states base) k = Some n \<Longrightarrow> nd_bid n = k"
  by (drule bm_get_in) (auto simp: keyed_def list_all_iff)

lemma drawn_binds: "keyed base \<Longrightarrow> binds_bid (drawn_state (states base))"
  by (auto simp: binds_bid_def drawn_state_def keyed_bid split: option.splits)

lemma drawn_unions:
  assumes "keyed base" "drawn_from base a" "drawn_from base b"
  shows "drawn_from base (union_mut D a b)" "drawn_from base (union_mut_with_trace D a b)"
  using assms within_unions [OF drawn_binds] unfolding drawn_from_def by blast+

section \<open>The loops\<close>

text \<open>Each loop merges the answers it got, in order, into the graph it started with.\<close>

definition merge_answers ::
    "(belief_graph \<Rightarrow> belief_graph \<Rightarrow> belief_graph) \<Rightarrow> belief_graph list \<Rightarrow> belief_graph \<Rightarrow> belief_graph" where
  "merge_answers merge bs g = fold (\<lambda>b acc. merge acc b) bs g"

lemma merge_answers_simps [simp]:
  "merge_answers merge [] g = g"
  "merge_answers merge (b # bs) g = merge_answers merge bs (merge g b)"
  by (simp_all add: merge_answers_def)

text \<open>Nothing is asked for, or what is asked for has been answered before.\<close>

definition settled :: "'e tracer \<Rightarrow> expression option \<Rightarrow> belief_graph list \<Rightarrow> bool" where
  "settled eval_trace outstanding bs \<longleftrightarrow>
     (case outstanding of
        None \<Rightarrow> True
      | Some expr \<Rightarrow> list_ex (\<lambda>b. eval_trace expr (ws_from_kind Section) = Inr b) bs)"

lemma settled_more: "settled eval_trace e bs \<Longrightarrow> settled eval_trace e (b # bs)"
  by (auto simp: settled_def split: option.splits)

definition loop_outcome ::
    "discover \<Rightarrow> 'e tracer \<Rightarrow> nat \<Rightarrow> expression option \<Rightarrow> belief_graph \<Rightarrow> belief_graph list
      \<Rightarrow> ('e + unit) \<times> belief_graph \<Rightarrow> bool" where
  "loop_outcome D eval_trace rounds balance_expr g bs r \<longleftrightarrow>
     length bs \<le> rounds
     \<and> (\<forall>b\<in>set bs. \<exists>expr. eval_trace expr (ws_from_kind Section) = Inr b)
     \<and> snd r = merge_answers (union_mut D) bs g
     \<and> (fst r = Inr () \<longrightarrow> length bs < rounds \<longrightarrow>
          settled eval_trace (if bs = [] then balance_expr else build_balance_expr (snd r)) bs)"

lemma balance_loop_answers:
  "\<exists>bs. loop_outcome D eval_trace (Suc BALANCE_CUTOFF - loop_iter) balance_expr g bs
     (balance_loop D eval_trace loop_iter balance_expr g)"
proof (induction D eval_trace loop_iter balance_expr g rule: balance_loop.induct)
  case (1 D eval_trace loop_iter balance_expr g)
  show ?case
  proof (cases "\<exists>expr b. balance_expr = Some expr \<and> \<not> loop_iter > BALANCE_CUTOFF
      \<and> eval_trace expr (ws_from_kind Section) = Inr b")
    case False
    then have "loop_outcome D eval_trace (Suc BALANCE_CUTOFF - loop_iter) balance_expr g []
        (balance_loop D eval_trace loop_iter balance_expr g)"
      by (subst balance_loop.simps)
        (auto simp: loop_outcome_def settled_def split: option.splits sum.splits)
    then show ?thesis by blast
  next
    case True
    then obtain expr b where b: "balance_expr = Some expr" "\<not> loop_iter > BALANCE_CUTOFF"
      "eval_trace expr (ws_from_kind Section) = Inr b" by blast
    let ?g = "union_mut D g b"
    let ?next = "balance_loop D eval_trace (Suc loop_iter) (build_balance_expr ?g) ?g"
    have step: "balance_loop D eval_trace loop_iter balance_expr g =
        (if build_balance_expr ?g = Some expr then (Inr (), ?g) else ?next)"
      using b by (subst balance_loop.simps) (simp add: Let_def)
    show ?thesis
    proof (cases "build_balance_expr ?g = Some expr")
      case True
      with step b have "loop_outcome D eval_trace (Suc BALANCE_CUTOFF - loop_iter) balance_expr g [b]
          (balance_loop D eval_trace loop_iter balance_expr g)"
        by (auto simp: loop_outcome_def settled_def)
      then show ?thesis by blast
    next
      case False
      from "1.IH" [OF b refl refl False] obtain bs where bs:
        "loop_outcome D eval_trace (Suc BALANCE_CUTOFF - Suc loop_iter) (build_balance_expr ?g) ?g bs ?next"
        by blast
      have "loop_outcome D eval_trace (Suc BALANCE_CUTOFF - loop_iter) balance_expr g (b # bs) ?next"
      proof -
        have "settled eval_trace (build_balance_expr (snd ?next)) (b # bs)"
          if "fst ?next = Inr ()" "length bs < Suc BALANCE_CUTOFF - Suc loop_iter"
        proof -
          have "settled eval_trace (if bs = [] then build_balance_expr ?g else build_balance_expr (snd ?next)) bs"
            using bs that unfolding loop_outcome_def by blast
          moreover have "bs = [] \<Longrightarrow> snd ?next = ?g" using bs by (simp add: loop_outcome_def)
          ultimately have "settled eval_trace (build_balance_expr (snd ?next)) bs"
            by (cases "bs = []") simp_all
          then show ?thesis by (rule settled_more)
        qed
        moreover have "length (b # bs) \<le> Suc BALANCE_CUTOFF - loop_iter
            \<and> (\<forall>b\<in>set (b # bs). \<exists>expr. eval_trace expr (ws_from_kind Section) = Inr b)
            \<and> snd ?next = merge_answers (union_mut D) (b # bs) g"
          using bs b by (auto simp: loop_outcome_def)
        moreover have "length (b # bs) < Suc BALANCE_CUTOFF - loop_iter \<Longrightarrow>
            length bs < Suc BALANCE_CUTOFF - Suc loop_iter" by simp
        ultimately show ?thesis unfolding loop_outcome_def by simp
      qed
      with False step show ?thesis by auto
    qed
  qed
qed

lemma balance_loop_error:
  "fst (balance_loop D eval_trace loop_iter balance_expr g) = Inl err \<Longrightarrow>
     \<exists>expr. eval_trace expr (ws_from_kind Section) = Inl err"
proof (induction D eval_trace loop_iter balance_expr g rule: balance_loop.induct)
  case (1 D eval_trace loop_iter balance_expr g)
  from "1.prems" show ?case
    by (subst (asm) balance_loop.simps)
      (auto simp: Let_def split: option.splits sum.splits if_splits dest: "1.IH")
qed

lemma walk_loop_error:
  "walk_loop D eval_unbalanced build_expr cutoff bg walked walk_expr walk_set = Inl err \<Longrightarrow>
     \<exists>expr. eval_unbalanced expr = Inl err"
proof (induction D eval_unbalanced build_expr cutoff bg walked walk_expr walk_set rule: walk_loop.induct)
  case (1 D eval_unbalanced build_expr cutoff bg walked walk_expr walk_set)
  from "1.prems" show ?case
    by (subst (asm) walk_loop.simps)
      (auto simp: Let_def split: option.splits sum.splits if_splits dest: "1.IH")
qed

lemma walk_loop_answers:
  assumes "walk_loop D eval_unbalanced build_expr cutoff bg walked walk_expr walk_set = Inr res"
  shows "res = walk_set \<or> (\<exists>bs. bs \<noteq> [] \<and> length bs \<le> cutoff - walked
     \<and> (\<forall>b\<in>set bs. \<exists>expr. eval_unbalanced expr = Inr b)
     \<and> res = Some (merge_answers (union_mut_with_trace D) bs (unwrap_or walk_set bg)))"
  using assms
proof (induction D eval_unbalanced build_expr cutoff bg walked walk_expr walk_set rule: walk_loop.induct)
  case (1 D eval_unbalanced build_expr cutoff bg walked walk_expr walk_set)
  show ?case
  proof (cases "\<exists>expr b. walk_expr = Some expr \<and> \<not> walked \<ge> cutoff \<and> eval_unbalanced expr = Inr b")
    case False
    with "1.prems" show ?thesis
      by (subst (asm) walk_loop.simps) (auto split: option.splits sum.splits if_splits)
  next
    case True
    then obtain expr b where b: "walk_expr = Some expr" "\<not> walked \<ge> cutoff"
      "eval_unbalanced expr = Inr b" by blast
    let ?g = "union_mut_with_trace D (unwrap_or walk_set bg) b"
    have step: "walk_loop D eval_unbalanced build_expr cutoff bg walked walk_expr walk_set =
        (if build_expr ?g = Some expr then Inr (Some ?g)
         else walk_loop D eval_unbalanced build_expr cutoff bg (Suc walked) (build_expr ?g) (Some ?g))"
      using b by (subst walk_loop.simps) (simp add: Let_def)
    have one: "length [b] \<le> cutoff - walked" using b by simp
    show ?thesis
    proof (cases "build_expr ?g = Some expr")
      case True
      with step "1.prems" have "res = Some ?g" by simp
      then show ?thesis using one b by (intro disjI2 exI [of _ "[b]"]) auto
    next
      case False
      with step "1.prems" "1.IH" [OF b refl refl False] obtain bs where
        "res = Some ?g \<or> (bs \<noteq> [] \<and> length bs \<le> cutoff - Suc walked
          \<and> (\<forall>b\<in>set bs. \<exists>expr. eval_unbalanced expr = Inr b)
          \<and> res = Some (merge_answers (union_mut_with_trace D) bs ?g))" by auto
      then show ?thesis
      proof
        assume "res = Some ?g"
        then show ?thesis using one b by (intro disjI2 exI [of _ "[b]"]) auto
      next
        assume "bs \<noteq> [] \<and> length bs \<le> cutoff - Suc walked
          \<and> (\<forall>b\<in>set bs. \<exists>expr. eval_unbalanced expr = Inr b)
          \<and> res = Some (merge_answers (union_mut_with_trace D) bs ?g)"
        then show ?thesis using b by (intro disjI2 exI [of _ "b # bs"]) auto
      qed
    qed
  qed
qed

section \<open>The contract of a store\<close>

lemma graph_ok_empty [simp]: "graph_ok belief_graph_empty"
  by (simp add: graph_ok_def belief_graph_empty_def bg_empty_def arcs_def)

lemma drawn_from_empty [simp]: "drawn_from base belief_graph_empty"
  by (simp add: drawn_from_def within_def belief_graph_empty_def bg_empty_def)

definition all_trace :: "belief_graph \<Rightarrow> bool" where
  "all_trace g \<longleftrightarrow> list_all (\<lambda>n. Trace \<in> nd_kind n) (bm_values (states g))"

lemma complete_nodes_trace: "all_trace g \<Longrightarrow> complete_nodes g = []"
  by (auto simp: all_trace_def complete_nodes_def list_all_iff kind_is_complete_def filter_empty_conv)

lemma union_trace_keeps:
  assumes "all_trace rhs" "bm_get (states self) k = Some n"
  shows "bm_get (states (union_mut D self rhs)) k = Some n"
proof -
  have "fills (states rhs) (states self) (states (union_mut D self rhs))"
    using add_relations_fills [of rhs self D None]
    by (simp add: union_mut_def add_relations_def complete_nodes_trace [OF assms(1)] insert_nodes_def)
  with assms(2) show ?thesis unfolding fills_def by (metis option.distinct(1))
qed

lemma balanced_result_Inr:
  "balanced_result D eval_trace g = Inr g' \<longleftrightarrow> balance D eval_trace g = (Inr (), g')"
  by (auto simp: balanced_result_def split: prod.splits sum.splits)

text \<open>What the engine relies on: well-formed answers drawn from what the store holds.\<close>

locale belief_store =
  fixes store_ok :: "'s \<Rightarrow> bool"
    and content :: "'s \<Rightarrow> belief_graph"
    and unbalanced :: "'s \<Rightarrow> 'e evaluator"
    and trace :: "'s \<Rightarrow> 'e tracer"
  assumes content_keyed: "store_ok s \<Longrightarrow> keyed (content s)"
    and unbalanced_ok: "store_ok s \<Longrightarrow> unbalanced s expr = Inr g \<Longrightarrow> graph_ok g"
    and unbalanced_drawn: "store_ok s \<Longrightarrow> unbalanced s expr = Inr g \<Longrightarrow> drawn_from (content s) g"
    and trace_drawn: "store_ok s \<Longrightarrow> trace s expr ws = Inr g \<Longrightarrow> drawn_from (content s) g"
    and trace_marked: "store_ok s \<Longrightarrow> trace s expr ws = Inr g \<Longrightarrow> all_trace g"
begin

lemma merge_answers_sound:
  assumes "store_ok s" "graph_ok g" "drawn_from (content s) g" "\<forall>b\<in>set bs. drawn_from (content s) b"
  shows "graph_ok (merge_answers (union_mut D) bs g) \<and> drawn_from (content s) (merge_answers (union_mut D) bs g)"
    "graph_ok (merge_answers (union_mut_with_trace D) bs g)
     \<and> drawn_from (content s) (merge_answers (union_mut_with_trace D) bs g)"
  using assms(2-4)
  by (induction bs arbitrary: g)
    (simp_all add: union_ops_ok drawn_unions [OF content_keyed [OF assms(1)]])

lemma balance_sound:
  assumes "store_ok s" "graph_ok g" "drawn_from (content s) g" "balance D (trace s) g = (r, g')"
  shows "graph_ok g' \<and> drawn_from (content s) g'
    \<and> (\<forall>k n. bm_get (states g) k = Some n \<longrightarrow> bm_get (states g') k = Some n)"
proof -
  obtain bs where bs: "\<forall>b\<in>set bs. \<exists>expr. trace s expr (ws_from_kind Section) = Inr b"
    and g': "g' = merge_answers (union_mut D) bs g"
    using assms(4) balance_loop_answers [of D "trace s" 0 "build_downstream_expr g None" g]
    by (auto simp: balance_def loop_outcome_def)
  from bs have b: "\<forall>b\<in>set bs. drawn_from (content s) b" "\<forall>b\<in>set bs. all_trace b"
    using trace_drawn [OF assms(1)] trace_marked [OF assms(1)] by blast+
  have "bm_get (states (merge_answers (union_mut D) bs g)) k = Some n"
    if "bm_get (states g) k = Some n" for k n
    using b(2) that by (induction bs arbitrary: g) (simp_all add: union_trace_keeps)
  with merge_answers_sound(1) [OF assms(1-3) b(1)] show ?thesis by (simp add: g')
qed

lemma walk_sound:
  assumes "store_ok s" "graph_ok bg" "drawn_from (content s) bg"
    "walk D (unbalanced s) build_expr n bg = Inr (Some g)"
  shows "graph_ok g \<and> drawn_from (content s) g"
proof -
  obtain bs where bs: "\<forall>b\<in>set bs. \<exists>expr. unbalanced s expr = Inr b"
    "g = merge_answers (union_mut_with_trace D) bs bg"
    using assms(4) by (auto simp: walk_def dest!: walk_loop_answers)
  then have "\<forall>b\<in>set bs. drawn_from (content s) b" using unbalanced_drawn [OF assms(1)] by blast
  from merge_answers_sound(2) [OF assms(1-3) this] bs(2) show ?thesis by simp
qed

lemma traverse_sound:
  assumes "store_ok s" "graph_ok bg" "drawn_from (content s) bg"
    "traverse D (unbalanced s) nb bg = Inr g"
  shows "graph_ok g \<and> drawn_from (content s) g"
  using assms(4) walk_sound [OF assms(1-3)] assms(2,3)
    drawn_unions(1) [OF content_keyed [OF assms(1)]] union_ops_ok(1)
  by (auto simp: traverse_def join_walks_def split: option.splits sum.splits)

lemma eval_query_sound:
  assumes "store_ok s" "eval_query D (unbalanced s) (trace s) q all_or_none = Inr g"
  shows "graph_ok g \<and> drawn_from (content s) g"
proof -
  obtain bg where bg: "unbalanced s (q_seed q) = Inr bg"
    using assms(2) by (auto simp: eval_query_def split: sum.splits)
  note ok = unbalanced_ok [OF assms(1) bg] and dr = unbalanced_drawn [OF assms(1) bg]
  show ?thesis
  proof (cases "all_or_none \<and> states bg = []")
    case True
    with bg assms(2) show ?thesis by (simp add: eval_query_def)
  next
    case False
    with bg assms(2) obtain walked where w: "traverse D (unbalanced s) (q_traverse q) bg = Inr walked"
      and g: "g = walked \<or> balanced_result D (trace s) walked = Inr g"
      by (auto simp: eval_query_def split: sum.splits if_splits)
    have sound: "graph_ok walked" "drawn_from (content s) walked"
      using traverse_sound [OF assms(1) ok dr w] by blast+
    show ?thesis using g
    proof
      assume "balanced_result D (trace s) walked = Inr g"
      then have "balance D (trace s) walked = (Inr (), g)" by (simp add: balanced_result_Inr)
      from balance_sound [OF assms(1) sound this] show ?thesis by blast
    qed (use sound in simp)
  qed
qed

lemma eval_sound:
  assumes "store_ok s" "eval D (unbalanced s) (trace s) expr = Inr g"
  shows "graph_ok g \<and> drawn_from (content s) g"
proof -
  obtain bg where bg: "unbalanced s expr = Inr bg" "balance D (trace s) bg = (Inr (), g)"
    using assms(2) by (auto simp: eval_def balanced_result_Inr split: sum.splits)
  from balance_sound [OF assms(1) unbalanced_ok [OF assms(1) bg(1)] unbalanced_drawn [OF assms(1) bg(1)]
      bg(2)] show ?thesis by blast
qed

lemma eval_keeps_answer:
  assumes "store_ok s" "unbalanced s expr = Inr bg" "eval D (unbalanced s) (trace s) expr = Inr g"
    "bm_get (states bg) k = Some n"
  shows "bm_get (states g) k = Some n"
proof -
  from assms(2,3) have "balance D (trace s) bg = (Inr (), g)" by (simp add: eval_def balanced_result_Inr)
  from balance_sound [OF assms(1) unbalanced_ok [OF assms(1,2)] unbalanced_drawn [OF assms(1,2)] this]
    assms(4) show ?thesis by blast
qed

end

text \<open>A store that always answers makes the methods total.\<close>

lemma balanced_result_total:
  assumes "\<And>expr ws. \<exists>g. eval_trace expr ws = Inr g"
  shows "\<exists>g'. balanced_result D eval_trace g = Inr g'"
proof (cases "balance D eval_trace g")
  case (Pair r g')
  have "r \<noteq> Inl err" for err
    using balance_loop_error [of D eval_trace 0 "build_downstream_expr g None" g err] assms Pair
    unfolding balance_def by (metis Inl_Inr_False fst_conv)
  then show ?thesis using Pair by (cases r) (auto simp: balanced_result_def)
qed

lemma eval_query_total:
  assumes "\<And>expr. \<exists>g. eval_unbalanced expr = Inr g" "\<And>expr ws. \<exists>g. eval_trace expr ws = Inr g"
  shows "\<exists>g. eval_query D eval_unbalanced eval_trace q all_or_none = Inr g"
proof -
  have w: "\<exists>res. walk D eval_unbalanced build_expr n bg = Inr res" for build_expr n bg
    using walk_loop_error [of D eval_unbalanced build_expr "min MAX_TRAVERSAL n" bg 0 "build_expr bg" None]
      assms(1) unfolding walk_def by (metis Inl_Inr_False sumE)
  have t: "\<exists>g. traverse D eval_unbalanced nb bg = Inr g" for nb bg
  proof (cases nb)
    case (Some n)
    obtain up where up: "walk D eval_unbalanced (\<lambda>g. build_upstream_expr g (nb_filter n))
        (nb_upstream n) bg = Inr up" using w by blast
    obtain down where "walk D eval_unbalanced (\<lambda>g. build_downstream_expr g (nb_filter n))
        (nb_downstream n) bg = Inr down" using w by blast
    with up Some show ?thesis by (simp add: traverse_def)
  qed (simp add: traverse_def)
  obtain bg where "eval_unbalanced (q_seed q) = Inr bg" using assms(1) by blast
  moreover obtain g where "traverse D eval_unbalanced (q_traverse q) bg = Inr g" using t by blast
  ultimately show ?thesis using balanced_result_total [OF assms(2)] by (simp add: eval_query_def)
qed

section \<open>Properties\<close>

text \<open>
  C12. Balancing a graph merges into it, in order, at most 11 answers of the store (\<open>BALANCE_CUTOFF\<close> and
  one more), keeps its shape, leaves no orphaned relation and drops no node, and it fails only with an
  error of the store. When it ends without one and before the cutoff, no node is missing any more or the
  question that is still open is one the store has answered already.
\<close>

theorem balance_rounds:
  assumes "graph_ok g" "balance D eval_trace g = (r, g')"
  shows "(\<exists>bs. loop_outcome D eval_trace 11 (build_downstream_expr g None) g bs (r, g'))
    \<and> graph_ok g' \<and> find_orphaned_edges g' = [] \<and> keys g \<subseteq> keys g'
    \<and> r \<in> insert (Inr ()) {Inl err |err. \<exists>expr. eval_trace expr (ws_from_kind Section) = Inl err}"
proof -
  have run: "balance_loop D eval_trace 0 (build_downstream_expr g None) g = (r, g')"
    using assms(2) by (simp add: balance_def)
  have ex: "\<exists>bs. loop_outcome D eval_trace 11 (build_downstream_expr g None) g bs (r, g')"
    using balance_loop_answers [of D eval_trace 0 "build_downstream_expr g None" g]
    by (simp add: run BALANCE_CUTOFF_def)
  then obtain bs where bs: "g' = merge_answers (union_mut D) bs g" by (auto simp: loop_outcome_def)
  have shape: "graph_ok g'" "keys g \<subseteq> keys g'"
    unfolding bs merge_answers_def using union.merge_all_ok [OF assms(1)] union.merge_all_keys by blast+
  have "r \<in> insert (Inr ()) {Inl err |err. \<exists>expr. eval_trace expr (ws_from_kind Section) = Inl err}"
    using balance_loop_error [of D eval_trace 0 "build_downstream_expr g None" g]
    by (cases r) (auto simp: run)
  with ex shape show ?thesis by (simp add: graph_ok_no_orphans)
qed

theorem balance_rounds_witness:
  "keys \<lparr>states = [(Bid 1, unknown_node (Bid 1)), (Bid 2, unknown_node (Bid 2))],
         relations = from_edges [(Bid 1, Bid 2, ws_full)]\<rparr>
   \<subseteq> keys (snd (balance (\<lambda>es seeds. seeds) (\<lambda>expr ws. Inr belief_graph_empty)
       \<lparr>states = [(Bid 1, unknown_node (Bid 1)), (Bid 2, unknown_node (Bid 2))],
        relations = from_edges [(Bid 1, Bid 2, ws_full)]\<rparr>))"
proof -
  let ?g = "\<lparr>states = [(Bid 1, unknown_node (Bid 1)), (Bid 2, unknown_node (Bid 2))],
      relations = from_edges [(Bid 1, Bid 2, ws_full)]\<rparr>"
  have "graph_ok ?g"
    by (simp add: graph_ok_def keys_def from_edges_def add_node_def arcs_def bm_ok_Cons)
  from balance_rounds [OF this surjective_pairing] show ?thesis by blast
qed

text \<open>
  A walk in one direction merges between one and \<open>min 10 n\<close> answers of the store into the seed's
  answer, or does nothing: a distance of 0 never asks the store.
\<close>

theorem walk_rounds:
  assumes "walk D eval_unbalanced build_expr n bg = Inr res"
  shows "(res = None \<or> (\<exists>bs. bs \<noteq> [] \<and> length bs \<le> min 10 n
      \<and> (\<forall>b\<in>set bs. \<exists>expr. eval_unbalanced expr = Inr b)
      \<and> res = Some (merge_answers (union_mut_with_trace D) bs bg)))
    \<and> walk D eval_unbalanced build_expr 0 bg = Inr None"
proof
  show "res = None \<or> (\<exists>bs. bs \<noteq> [] \<and> length bs \<le> min 10 n
      \<and> (\<forall>b\<in>set bs. \<exists>expr. eval_unbalanced expr = Inr b)
      \<and> res = Some (merge_answers (union_mut_with_trace D) bs bg))"
    using walk_loop_answers [OF assms [unfolded walk_def]] by (simp add: MAX_TRAVERSAL_def)
  show "walk D eval_unbalanced build_expr 0 bg = Inr None"
    by (simp add: walk_def walk_loop.simps split: option.splits)
qed

theorem walk_rounds_witness:
  "walk (\<lambda>es seeds. seeds) (\<lambda>expr. Inr belief_graph_empty) (\<lambda>g. Some (StateIn PAny)) 255
     belief_graph_empty
   = Inr (Some (merge_answers (union_mut_with_trace (\<lambda>es seeds. seeds)) [belief_graph_empty]
       belief_graph_empty))
   \<and> walk (\<lambda>es seeds. seeds) (\<lambda>expr. Inr belief_graph_empty) (\<lambda>g. Some (StateIn PAny)) 0
     belief_graph_empty = Inr None"
proof -
  have "walk (\<lambda>es seeds. seeds) (\<lambda>expr. Inr belief_graph_empty) (\<lambda>g. Some (StateIn PAny)) 255
      belief_graph_empty
    = Inr (Some (merge_answers (union_mut_with_trace (\<lambda>es seeds. seeds)) [belief_graph_empty]
        belief_graph_empty))"
    by (simp add: walk_def walk_loop.simps MAX_TRAVERSAL_def)
  with walk_rounds [OF this] show ?thesis by blast
qed

end
