(* ===== verification/Evaluate.thy ===== *)
theory Evaluate
  imports Sources
begin

text \<open>
  The in-memory store (\<open>BeliefBase\<close> of \<open>beliefbase/base.rs\<close>), first part: its state, and the
  evaluation of expressions on it, which makes it a \<open>BeliefSource\<close>.

  The locks and interior mutability of the struct are left out: each operation runs alone. The index
  \<open>bid_to_index\<close> holds the nodes it knows; the position of a node is its place in \<open>g_nodes\<close>. The path
  maps (\<open>paths/pathmap.rs\<close>) are a value of any type \<open>'p\<close> with the lookups \<open>path_ops\<close>, which return
  here: what is proved holds whatever they return. The lookups of the code need not return;
  \<open>StoreLookups\<close> has the evaluation on the real maps, shows that it agrees with this one where it
  returns, and says when it does.
\<close>

section \<open>State\<close>

text \<open>What the built-in test reports; the message texts are replaced by constructors.\<close>

datatype base_error =
    StatelessNodes "bid list"
  | PathlessNodes "bid list"
  | CycleIn weight_kind "bid list"
  | NotContiguous bid weight_kind "u16 list"
  | DuplicateIndices bid weight_kind "u16 list"
  | PathsDiffer "string list" "string list"

record 'p belief_base =
  bb_states :: "(bid, node) bmap"
  bb_relations :: bid_graph
  bb_index :: "bid list"
  bb_index_dirty :: bool
  bb_brefs :: "(bref, bid) bmap"
  bb_paths :: 'p
  bb_errors :: "base_error list"
  bb_api :: node

record 'p path_ops =
  pm_default :: 'p
  pm_new :: "(bid, node) bmap \<Rightarrow> bid_graph \<Rightarrow> 'p"
  pm_api_get :: "'p \<Rightarrow> string \<Rightarrow> bid option"
  pm_net_path :: "'p \<Rightarrow> bref \<Rightarrow> string \<Rightarrow> bid option"
  pm_net_paths_in :: "'p \<Rightarrow> bref \<Rightarrow> (string \<times> bid \<times> u16 list) list"
  pm_net_id :: "'p \<Rightarrow> bref \<Rightarrow> string \<Rightarrow> bid option"
  pm_order :: "'p \<Rightarrow> bid \<Rightarrow> u16 list option"
  pm_has_path :: "'p \<Rightarrow> bref \<Rightarrow> bid \<Rightarrow> bool"
  pm_nets :: "'p \<Rightarrow> bid list"
  pm_docs :: "'p \<Rightarrow> bid list"
  pm_all_paths :: "'p \<Rightarrow> string list"
  pm_process :: "'p \<Rightarrow> belief_event list \<Rightarrow> bid_graph \<Rightarrow> 'p \<times> belief_event list"

definition bb_graph :: "'p belief_base \<Rightarrow> belief_graph" where
  "bb_graph B = \<lparr>states = bb_states B, relations = bb_relations B\<rparr>"

lemma bb_graph_simps [simp]:
  "states (bb_graph B) = bb_states B" "relations (bb_graph B) = bb_relations B"
  by (simp_all add: bb_graph_def)

section \<open>Evaluation\<close>

definition pick_states :: "(bid, node) bmap \<Rightarrow> bid list \<Rightarrow> (bid, node) bmap" where
  "pick_states sts bids =
     bm_from_list (List.map_filter (\<lambda>b. map_option (Pair b) (bm_get sts b)) bids)"

definition pick_nodes :: "(bid, node) bmap \<Rightarrow> bid list \<Rightarrow> (bid, node) bmap" where
  "pick_nodes sts bids =
     bm_from_list (List.map_filter (\<lambda>b. map_option (\<lambda>n. (nd_bid n, n)) (bm_get sts b)) bids)"

definition filter_states ::
    "'a query_ext_scheme \<Rightarrow> ('p, 'c) path_ops_scheme \<Rightarrow> 'p belief_base \<Rightarrow> state_pred
      \<Rightarrow> (bid, node) bmap option \<Rightarrow> bool \<Rightarrow> (bid, node) bmap" where
  "filter_states X P B pred rhs invert =
     (case pred of
        PPath paths \<Rightarrow>
          pick_states (bb_states B) (bs_from_list (List.map_filter (pm_api_get P (bb_paths B)) paths))
      | PNetPath net path \<Rightarrow>
          pick_states (bb_states B) (case pm_net_path P (bb_paths B) net path of Some b \<Rightarrow> [b] | None \<Rightarrow> [])
      | PNetPathIn net \<Rightarrow>
          pick_states (bb_states B)
            (map (\<lambda>(_, b, _). b) (pm_net_paths_in P (bb_paths B) (bref_of X net)))
      | PNetId net i \<Rightarrow>
          pick_nodes (bb_states B) (case pm_net_id P (bb_paths B) net i of Some b \<Rightarrow> [b] | None \<Rightarrow> [])
      | PBid bids \<Rightarrow> pick_nodes (bb_states B) bids
      | _ \<Rightarrow>
          bm_from_list (filter (\<lambda>(_, n).
              let is_match = match_state X pred n
              in is_match \<and> \<not> invert \<or> \<not> is_match \<and> invert) (bb_states B @ unwrap_or rhs [])))"

definition add_trace :: "(bid, node) bmap \<Rightarrow> bid \<Rightarrow> (bid, node) bmap \<Rightarrow> (bid, node) bmap" where
  "add_trace base b sts =
     (if bm_contains sts b then sts
      else case bm_get base b of None \<Rightarrow> sts | Some n \<Rightarrow> bm_insert b (mark_trace n) sts)"

definition add_ends :: "(bid, node) bmap \<Rightarrow> edge list \<Rightarrow> (bid, node) bmap \<Rightarrow> (bid, node) bmap" where
  "add_ends base es sts = fold (\<lambda>e acc. add_trace base (e_source e) (add_trace base (e_sink e) acc)) es sts"

definition add_sinks :: "(bid, node) bmap \<Rightarrow> edge list \<Rightarrow> (bid, node) bmap \<Rightarrow> (bid, node) bmap" where
  "add_sinks base es sts = fold (\<lambda>e. add_trace base (e_sink e)) es sts"

definition answer_states :: "'p belief_base \<Rightarrow> (bid, node) bmap \<Rightarrow> belief_graph" where
  "answer_states B sts =
     (let rels = graph_filter (bb_relations B) (RNodeIn (bm_keys sts)) False
      in \<lparr>states = add_ends (bb_states B) (g_edges rels) sts, relations = rels\<rparr>)"

definition answer_relations :: "'p belief_base \<Rightarrow> (edge \<Rightarrow> bool) \<Rightarrow> belief_graph" where
  "answer_relations B keep =
     (let es = filter keep (g_edges (bb_relations B))
      in \<lparr>states = add_ends (bb_states B) es [], relations = from_edges es\<rparr>)"

definition apply_set_op :: "discover \<Rightarrow> set_op \<Rightarrow> belief_graph \<Rightarrow> belief_graph \<Rightarrow> belief_graph" where
  "apply_set_op D op_name lhs rhs =
     (case op_name of
        SetUnion \<Rightarrow> union_mut D lhs rhs
      | SetIntersection \<Rightarrow> intersection D lhs rhs
      | SetDifference \<Rightarrow> difference D lhs rhs
      | SetSymmetricDifference \<Rightarrow> symmetric_difference D lhs rhs)"

fun evaluate_expression ::
    "'a query_ext_scheme \<Rightarrow> ('p, 'c) path_ops_scheme \<Rightarrow> discover \<Rightarrow> 'p belief_base \<Rightarrow> expression \<Rightarrow> belief_graph" where
  "evaluate_expression X P D B (StateIn pred) = answer_states B (filter_states X P B pred None False)"
| "evaluate_expression X P D B (StateNotIn pred) = answer_states B (filter_states X P B pred None True)"
| "evaluate_expression X P D B (RelationIn pred) =
     answer_relations B (\<lambda>e. match_ref pred (e_source e) (e_sink e) (e_weights e))"
| "evaluate_expression X P D B (RelationNotIn pred) =
     answer_relations B (\<lambda>e. \<not> match_ref pred (e_source e) (e_sink e) (e_weights e))"
| "evaluate_expression X P D B (Dyad lhs op_name rhs) =
     apply_set_op D op_name (evaluate_expression X P D B lhs) (evaluate_expression X P D B rhs)"

definition mark_all :: "(bid, node) bmap \<Rightarrow> (bid, node) bmap" where
  "mark_all sts = map (\<lambda>(k, n). (k, mark_trace n)) sts"

definition answer_trace :: "'p belief_base \<Rightarrow> weight_set \<Rightarrow> (bid, node) bmap \<Rightarrow> belief_graph" where
  "answer_trace B ws sts =
     (let rels = graph_filter (graph_filter (bb_relations B) (RSourceIn (bm_keys sts)) False) (RKind ws) False
      in \<lparr>states = add_sinks (bb_states B) (g_edges rels) (mark_all sts), relations = rels\<rparr>)"

fun evaluate_expression_as_trace ::
    "'a query_ext_scheme \<Rightarrow> ('p, 'c) path_ops_scheme \<Rightarrow> discover \<Rightarrow> 'p belief_base \<Rightarrow> expression \<Rightarrow> weight_set
      \<Rightarrow> belief_graph" where
  "evaluate_expression_as_trace X P D B (StateIn pred) ws =
     answer_trace B ws (filter_states X P B pred None False)"
| "evaluate_expression_as_trace X P D B (StateNotIn pred) ws =
     answer_trace B ws (filter_states X P B pred None True)"
| "evaluate_expression_as_trace X P D B (RelationIn pred) ws =
     evaluate_expression X P D B (RelationIn pred)"
| "evaluate_expression_as_trace X P D B (RelationNotIn pred) ws =
     evaluate_expression X P D B (RelationNotIn pred)"
| "evaluate_expression_as_trace X P D B (Dyad lhs op_name rhs) ws =
     apply_set_op D op_name (evaluate_expression_as_trace X P D B lhs ws)
       (evaluate_expression_as_trace X P D B rhs ws)"

definition base_unbalanced ::
    "'a query_ext_scheme \<Rightarrow> ('p, 'c) path_ops_scheme \<Rightarrow> discover \<Rightarrow> 'p belief_base \<Rightarrow> buildonomy_error evaluator" where
  "base_unbalanced X P D B expr = Inr (evaluate_expression X P D B expr)"

definition base_trace ::
    "'a query_ext_scheme \<Rightarrow> ('p, 'c) path_ops_scheme \<Rightarrow> discover \<Rightarrow> 'p belief_base \<Rightarrow> buildonomy_error tracer" where
  "base_trace X P D B expr weight_filter = Inr (evaluate_expression_as_trace X P D B expr weight_filter)"

definition base_all_paths ::
    "'a query_ext_scheme \<Rightarrow> ('p, 'c) path_ops_scheme \<Rightarrow> 'p belief_base \<Rightarrow> bid \<Rightarrow> bool \<Rightarrow> (string \<times> bid) list" where
  "base_all_paths X P B network_bid include_index =
     List.map_filter (\<lambda>(path, b, order).
       if \<not> include_index \<and> 2 ^ 16 - 1 \<in> set order then None else Some (path, b))
       (pm_net_paths_in P (bb_paths B) (bref_of X network_bid))"

text \<open>The second implementation of the trait, on a reference, which drops empty paths as well.\<close>

definition ref_base_all_paths ::
    "'a query_ext_scheme \<Rightarrow> ('p, 'c) path_ops_scheme \<Rightarrow> 'p belief_base \<Rightarrow> bid \<Rightarrow> bool \<Rightarrow> (string \<times> bid) list" where
  "ref_base_all_paths X P B network_bid include_index =
     List.map_filter (\<lambda>(path, b, order).
       if path = [] \<or> \<not> include_index \<and> 2 ^ 16 - 1 \<in> set order then None else Some (path, b))
       (pm_net_paths_in P (bb_paths B) (bref_of X network_bid))"

section \<open>Answers\<close>

text \<open>
  The store is in shape: each node under its own identifier, each relation between two different
  nodes it has, at most one relation per pair.
\<close>

definition base_ok :: "'p belief_base \<Rightarrow> bool" where
  "base_ok B \<longleftrightarrow> keyed (bb_graph B) \<and> graph_ok (bb_graph B)"

lemma base_keyed: "base_ok B \<Longrightarrow> keyed (bb_graph B)"
  by (simp add: base_ok_def)

lemma base_get_bid: "base_ok B \<Longrightarrow> bm_get (bb_states B) k = Some n \<Longrightarrow> nd_bid n = k"
  using keyed_bid [of "bb_graph B"] by (simp add: base_ok_def)

lemma base_edges:
  assumes "base_ok B"
  shows "distinct (arcs (bb_relations B))"
    and "e \<in> set (g_edges (bb_relations B)) \<Longrightarrow>
      e_source e \<noteq> e_sink e \<and> bm_get (bb_states B) (e_source e) \<noteq> None
      \<and> bm_get (bb_states B) (e_sink e) \<noteq> None"
  using assms in_keys_get [of _ "bb_graph B"]
  by (auto simp: base_ok_def graph_ok_def list_all_iff)

lemma bm_ok_filter_states [simp]:
  "bm_ok (filter_states X P B pred rhs invert)"
  by (cases pred) (simp_all add: filter_states_def pick_states_def pick_nodes_def)

lemma states_all_base: "base_ok B \<Longrightarrow> states_all (drawn_state (bb_states B)) (bb_states B)"
  by (auto simp: states_all_mem drawn_state_def base_ok_def keyed_def bm_ok_get_iff [symmetric]
      split: option.splits)

lemma filter_states_drawn:
  assumes "base_ok B"
  shows "states_all (\<lambda>k n. bm_get (bb_states B) k = Some n) (filter_states X P B pred None invert)"
proof -
  have ok: "bm_ok (bb_states B)" using assms by (simp add: base_ok_def keyed_def)
  have 1: "states_all (\<lambda>k n. bm_get (bb_states B) k = Some n) (pick_states (bb_states B) bs)" for bs
    unfolding pick_states_def by (rule states_all_from_list) (auto simp: mem_map_filter)
  have 2: "states_all (\<lambda>k n. bm_get (bb_states B) k = Some n) (pick_nodes (bb_states B) bs)" for bs
    unfolding pick_nodes_def
    by (rule states_all_from_list) (auto simp: mem_map_filter dest: base_get_bid [OF assms])
  have 3: "states_all (\<lambda>k n. bm_get (bb_states B) k = Some n) (bm_from_list (filter f (bb_states B)))" for f
    by (rule states_all_from_list) (simp add: bm_ok_get_iff [OF ok])
  show ?thesis by (cases pred) (simp_all add: filter_states_def 1 2 3)
qed

lemma add_trace_get:
  "bm_get (add_trace base b sts) k =
     (if k = b then or_else (bm_get sts b) (map_option mark_trace (bm_get base b)) else bm_get sts k)"
  by (auto simp: add_trace_def bm_contains_def or_else_def split: option.splits)

lemma add_trace_ok: "bm_ok sts \<Longrightarrow> bm_ok (add_trace base b sts)"
  by (auto simp: add_trace_def split: option.splits)

lemma add_ends_fold:
  "add_ends base es sts = fold (add_trace base) (concat (map (\<lambda>e. [e_sink e, e_source e]) es)) sts"
  "add_sinks base es sts = fold (add_trace base) (map e_sink es) sts"
  unfolding add_ends_def add_sinks_def by (induction es arbitrary: sts) simp_all

lemma add_traces_get:
  "bm_get (fold (add_trace base) bs sts) k =
     (if k \<in> set bs then or_else (bm_get sts k) (map_option mark_trace (bm_get base k))
      else bm_get sts k)"
proof (induction bs arbitrary: sts)
  case (Cons b bs)
  show ?case by (simp add: Cons.IH add_trace_get) (auto simp: or_else_def split: option.splits)
qed simp

lemma add_traces_ok: "bm_ok sts \<Longrightarrow> bm_ok (fold (add_trace base) bs sts)"
  by (induction bs arbitrary: sts) (simp_all add: add_trace_ok)

lemma add_traces_all:
  assumes "states_all Q sts" "\<And>k n. bm_get base k = Some n \<Longrightarrow> Q k (mark_trace n)"
  shows "states_all Q (fold (add_trace base) bs sts)"
proof -
  have "states_all Q (add_trace base b sts)" if "states_all Q sts" for b sts
    using that assms(2) by (auto simp: add_trace_def intro: states_all_insert split: option.splits)
  then show ?thesis using assms(1) by (induction bs arbitrary: sts) simp_all
qed

lemma add_traces_have:
  "b \<in> set bs \<Longrightarrow> bm_get base b \<noteq> None \<Longrightarrow> bm_get (fold (add_trace base) bs sts) b \<noteq> None"
  by (simp add: add_traces_get del: not_None_eq)

lemma add_traces_keep: "bm_get sts k = Some n \<Longrightarrow> bm_get (fold (add_trace base) bs sts) k = Some n"
  by (simp add: add_traces_get or_else_def)

lemma add_ends_have:
  "e \<in> set es \<Longrightarrow> bm_get base (e_source e) \<noteq> None \<and> bm_get base (e_sink e) \<noteq> None \<Longrightarrow>
     bm_get (add_ends base es sts) (e_source e) \<noteq> None \<and> bm_get (add_ends base es sts) (e_sink e) \<noteq> None"
proof -
  assume e: "e \<in> set es" and b: "bm_get base (e_source e) \<noteq> None \<and> bm_get base (e_sink e) \<noteq> None"
  from e have "e_source e \<in> set (concat (map (\<lambda>e. [e_sink e, e_source e]) es))"
    "e_sink e \<in> set (concat (map (\<lambda>e. [e_sink e, e_source e]) es))" by (simp_all, blast+)
  with b show ?thesis unfolding add_ends_fold by (meson add_traces_have)
qed

lemma from_edges_edges [simp]: "g_edges (from_edges es) = es"
  by (simp add: from_edges_def)

text \<open>A graph made of some relations of a base and of states that hold their ends is in shape.\<close>

lemma part_graph_ok:
  assumes "base_ok B" "bm_ok sts" "set es \<subseteq> set (g_edges (bb_relations B))"
    and "distinct (map (\<lambda>e. (e_source e, e_sink e)) es)"
    and "\<And>e. e \<in> set es \<Longrightarrow> bm_get sts (e_source e) \<noteq> None \<and> bm_get sts (e_sink e) \<noteq> None"
  shows "graph_ok \<lparr>states = sts, relations = from_edges es\<rparr>"
proof -
  have n: "set (g_nodes (from_edges es)) = e_source ` set es \<union> e_sink ` set es"
    by (rule nodes_from_edges)
  have d: "distinct (g_nodes (from_edges es))"
  proof -
    have "distinct ns \<Longrightarrow>
        distinct (fold (\<lambda>e nodes. add_node (e_sink e) (add_node (e_source e) nodes)) es ns)" for ns
      by (induction es arbitrary: ns) simp_all
    from this [of "[]"] show ?thesis by (simp add: from_edges_def)
  qed
  have k: "keys \<lparr>states = sts, relations = from_edges es\<rparr> = {k. bm_get sts k \<noteq> None}"
    by (auto simp: in_keys_get)
  have ends: "e_source ` set es \<union> e_sink ` set es \<subseteq> {k. bm_get sts k \<noteq> None}"
    using assms(5) by blast
  have each: "list_all (\<lambda>e. e_source e \<noteq> e_sink e \<and> e_source e \<in> e_source ` set es \<union> e_sink ` set es
      \<and> e_sink e \<in> e_source ` set es \<union> e_sink ` set es) es"
    using assms(3) base_edges(2) [OF assms(1)] unfolding list_all_iff by blast
  show ?thesis
    unfolding graph_ok_def k using assms(2,4) ends each d by (simp add: n arcs_def del: not_None_eq)
qed

lemma graph_filter_edges:
  "\<exists>keep. graph_filter g pred invert = from_edges (filter keep (g_edges g))"
  unfolding graph_filter_def by blast

lemma distinct_arcs_filter:
  "distinct (arcs g) \<Longrightarrow> distinct (map (\<lambda>e. (e_source e, e_sink e)) (filter keep (g_edges g)))"
  unfolding arcs_def by (rule distinct_map_filter)

lemma answer_states_ok:
  assumes "base_ok B" "bm_ok sts"
  shows "graph_ok (answer_states B sts)"
proof -
  obtain keep where keep: "graph_filter (bb_relations B) (RNodeIn (bm_keys sts)) False
      = from_edges (filter keep (g_edges (bb_relations B)))" using graph_filter_edges by blast
  let ?es = "filter keep (g_edges (bb_relations B))"
  have "graph_ok \<lparr>states = add_ends (bb_states B) ?es sts, relations = from_edges ?es\<rparr>"
  proof (rule part_graph_ok [OF assms(1)])
    show "bm_ok (add_ends (bb_states B) ?es sts)" by (simp add: add_ends_fold add_traces_ok assms(2))
    show "e \<in> set ?es \<Longrightarrow> bm_get (add_ends (bb_states B) ?es sts) (e_source e) \<noteq> None
        \<and> bm_get (add_ends (bb_states B) ?es sts) (e_sink e) \<noteq> None" for e
      using base_edges(2) [OF assms(1), of e] by (intro add_ends_have) simp_all
  qed (simp_all add: distinct_arcs_filter [OF base_edges(1) [OF assms(1)]])
  then show ?thesis by (simp add: answer_states_def keep Let_def)
qed

lemma answer_relations_ok:
  assumes "base_ok B"
  shows "graph_ok (answer_relations B keep)"
  unfolding answer_relations_def Let_def
proof (rule part_graph_ok [OF assms])
  let ?es = "filter keep (g_edges (bb_relations B))"
  show "bm_ok (add_ends (bb_states B) ?es [])" by (simp add: add_ends_fold add_traces_ok)
  show "e \<in> set ?es \<Longrightarrow> bm_get (add_ends (bb_states B) ?es []) (e_source e) \<noteq> None
      \<and> bm_get (add_ends (bb_states B) ?es []) (e_sink e) \<noteq> None" for e
    using base_edges(2) [OF assms, of e] by (intro add_ends_have) simp_all
qed (simp_all add: distinct_arcs_filter [OF base_edges(1) [OF assms]])

lemma graph_filter_sub: "set (g_edges (graph_filter g pred invert)) \<subseteq> set (g_edges g)"
  by (auto simp: graph_filter_def)

definition marks_in :: "(bid \<Rightarrow> node \<Rightarrow> bool) \<Rightarrow> (bid, node) bmap \<Rightarrow> bool" where
  "marks_in Q base \<longleftrightarrow> (\<forall>k n. bm_get base k = Some n \<longrightarrow> Q k (mark_trace n))"

definition holds_in :: "(bid \<Rightarrow> node \<Rightarrow> bool) \<Rightarrow> (bid, node) bmap \<Rightarrow> bool" where
  "holds_in Q base \<longleftrightarrow> (\<forall>k n. bm_get base k = Some n \<longrightarrow> Q k n)"

lemma within_answer_relations:
  assumes "marks_in Q (bb_states B)"
  shows "within Q (set (g_edges (bb_relations B))) (answer_relations B keep)"
  using assms unfolding answer_relations_def Let_def within_def add_ends_fold marks_in_def
  by (auto intro!: add_traces_all)

lemma within_answer_states:
  assumes "base_ok B" "marks_in Q (bb_states B)" "holds_in Q (bb_states B)"
  shows "within Q (set (g_edges (bb_relations B))) (answer_states B (filter_states X P B pred None invert))"
proof -
  have "states_all Q (filter_states X P B pred None invert)"
    using filter_states_drawn [OF assms(1)] assms(3)
    unfolding states_all_mem holds_in_def by blast
  with assms(2) graph_filter_sub show ?thesis
    unfolding answer_states_def Let_def within_def add_ends_fold marks_in_def
    by (auto intro!: add_traces_all)
qed

lemma within_answer_trace:
  assumes "base_ok B" "marks_in Q (bb_states B)"
  shows "within Q (set (g_edges (bb_relations B))) (answer_trace B ws (filter_states X P B pred None invert))"
proof -
  have "states_all Q (mark_all (filter_states X P B pred None invert))"
    using filter_states_drawn [OF assms(1)] assms(2)
    unfolding states_all_mem marks_in_def mark_all_def by fastforce
  moreover have "set (g_edges (graph_filter (graph_filter (bb_relations B) a c) b d))
      \<subseteq> set (g_edges (bb_relations B))" for a b c d
    using graph_filter_sub by blast
  ultimately show ?thesis
    using assms(2) unfolding answer_trace_def Let_def within_def add_ends_fold marks_in_def
    by (simp add: add_traces_all)
qed

lemma within_apply_set_op:
  "binds_bid Q \<Longrightarrow> within Q E a \<Longrightarrow> within Q E b \<Longrightarrow> within Q E (apply_set_op D op_name a b)"
  by (cases op_name) (simp_all add: apply_set_op_def within_unions within_set_ops)

lemma apply_set_op_ok: "graph_ok a \<Longrightarrow> graph_ok (apply_set_op D op_name a b)"
  by (cases op_name) (simp_all add: apply_set_op_def union_ops_ok set_ops_ok)

lemma within_evaluate:
  assumes "base_ok B" "binds_bid Q" "marks_in Q (bb_states B)" "holds_in Q (bb_states B)"
  shows "within Q (set (g_edges (bb_relations B))) (evaluate_expression X P D B expr)"
  by (induction expr)
    (simp_all add: within_answer_states within_answer_relations within_apply_set_op assms)

lemma within_evaluate_trace:
  assumes "base_ok B" "binds_bid Q" "marks_in Q (bb_states B)"
  shows "within Q (set (g_edges (bb_relations B))) (evaluate_expression_as_trace X P D B expr ws)"
  by (induction expr)
    (simp_all add: within_answer_trace within_answer_relations within_apply_set_op assms)

lemma evaluate_ok: "base_ok B \<Longrightarrow> graph_ok (evaluate_expression X P D B expr)"
  by (induction expr) (simp_all add: answer_states_ok answer_relations_ok apply_set_op_ok)

lemma drawn_state_base:
  "marks_in (drawn_state base) base" "holds_in (drawn_state base) base"
  by (auto simp: marks_in_def holds_in_def drawn_state_def)

lemma evaluate_drawn:
  assumes "base_ok B"
  shows "drawn_from (bb_graph B) (evaluate_expression X P D B expr)"
    "drawn_from (bb_graph B) (evaluate_expression_as_trace X P D B expr ws)"
  using within_evaluate [OF assms drawn_binds [OF base_keyed [OF assms], simplified] drawn_state_base]
    within_evaluate_trace [OF assms drawn_binds [OF base_keyed [OF assms], simplified] drawn_state_base(1)]
  by (simp_all add: drawn_from_def)

lemma evaluate_trace_marked:
  assumes "base_ok B"
  shows "all_trace (evaluate_expression_as_trace X P D B expr ws)"
proof -
  let ?Q = "\<lambda>k n. nd_bid n = k \<and> Trace \<in> nd_kind n"
  have "binds_bid ?Q" by (simp add: binds_bid_def)
  moreover have "marks_in ?Q (bb_states B)"
    using base_get_bid [OF assms] by (auto simp: marks_in_def) (simp add: mark_trace_def)
  ultimately have "within ?Q (set (g_edges (bb_relations B))) (evaluate_expression_as_trace X P D B expr ws)"
    by (rule within_evaluate_trace [OF assms])
  then show ?thesis
    by (force simp: within_def states_all_mem all_trace_def bm_values_def list_all_iff)
qed

text \<open>The in-memory base is a store in the sense of the query engine.\<close>

interpretation base_store: belief_store base_ok bb_graph "base_unbalanced X P D" "base_trace X P D" for X P D
  by unfold_locales
    (auto simp: base_keyed base_unbalanced_def base_trace_def evaluate_ok evaluate_drawn
      evaluate_trace_marked)

section \<open>Set operations on traces\<close>

lemma add_relations_nothing:
  assumes "\<And>es. D es [] = []"
  shows "add_relations D belief_graph_empty rhs = belief_graph_empty"
proof -
  have e: "merge_edge r e belief_graph_empty = belief_graph_empty" for r e
    by (simp add: merge_edge_def belief_graph_empty_def bm_contains_def Let_def)
  have "fold (merge_edge r) es belief_graph_empty = belief_graph_empty" for r es
    by (induction es) (simp_all add: e)
  moreover have "filter (\<lambda>b. bm_contains (states belief_graph_empty) b) ns = []" for ns
    by (simp add: belief_graph_empty_def bm_contains_def)
  ultimately show ?thesis
    by (simp add: add_relations_def add_relations_seeded_def bs_from_list_def assms)
qed

lemma select_none: "select_states g [] = belief_graph_empty"
  by (simp add: select_states_def belief_graph_empty_def bm_from_list_def List.map_filter_def)

lemma set_ops_trace:
  assumes "\<And>es. D es [] = []"
  shows "all_trace a \<Longrightarrow> intersection D a b = belief_graph_empty"
    "all_trace b \<Longrightarrow> intersection D a b = belief_graph_empty"
    "all_trace a \<Longrightarrow> difference D a b = belief_graph_empty"
  by (simp_all add: intersection_def difference_def complete_bids_def complete_nodes_trace
      bs_from_list_def select_none add_relations_nothing assms Let_def)

lemma answer_relations_trace:
  assumes "base_ok B"
  shows "all_trace (answer_relations B keep)"
proof -
  have "within (\<lambda>k n. Trace \<in> nd_kind n) (set (g_edges (bb_relations B))) (answer_relations B keep)"
    by (rule within_answer_relations) (simp add: marks_in_def mark_trace_def)
  then show ?thesis by (force simp: within_def states_all_mem all_trace_def bm_values_def list_all_iff)
qed

section \<open>Properties\<close>

text \<open>Two documents and a relation between them, for the instances below.\<close>

definition pair_base :: "unit belief_base" where
  "pair_base =
     \<lparr>bb_states = [(Bid 1, unknown_node (Bid 1)), (Bid 2, unknown_node (Bid 2))],
      bb_relations = from_edges [(Bid 1, Bid 2, ws_full)], bb_index = [], bb_index_dirty = True,
      bb_brefs = [], bb_paths = (), bb_errors = [], bb_api = unknown_node nil_bid\<rparr>"

lemma pair_base_ok: "base_ok pair_base"
  by (simp add: base_ok_def pair_base_def keyed_def graph_ok_def keys_def from_edges_def add_node_def
      arcs_def bm_ok_Cons unknown_node_def)

text \<open>
  With lookups that return, a query on the in-memory store returns, and its result is in shape and drawn
  from the store.
\<close>

theorem total_query_sound:
  assumes "base_ok B"
  shows "\<exists>g. eval_query D (base_unbalanced X P D B) (base_trace X P D B) q all_or_none = Inr g
    \<and> graph_ok g \<and> find_orphaned_edges g = [] \<and> drawn_from (bb_graph B) g"
proof -
  obtain g where g: "eval_query D (base_unbalanced X P D B) (base_trace X P D B) q all_or_none = Inr g"
    using eval_query_total [of "base_unbalanced X P D B" "base_trace X P D B" D q all_or_none]
    unfolding base_unbalanced_def base_trace_def by blast
  with base_store.eval_query_sound [OF assms g] show ?thesis by (auto simp: graph_ok_no_orphans)
qed

text \<open>
  Balancing the answer to an expression adds to it and changes no node of it: what the expression
  selected is in the balanced result as it was selected.
\<close>

theorem base_eval_keeps:
  assumes "base_ok B" "bm_get (states (evaluate_expression X P D B expr)) k = Some n"
  shows "\<exists>g. eval D (base_unbalanced X P D B) (base_trace X P D B) expr = Inr g
    \<and> bm_get (states g) k = Some n"
proof -
  obtain g where g: "eval D (base_unbalanced X P D B) (base_trace X P D B) expr = Inr g"
    using balanced_result_total [of "base_trace X P D B" D "evaluate_expression X P D B expr"]
    by (auto simp: eval_def base_unbalanced_def base_trace_def)
  moreover have "base_unbalanced X P D B expr = Inr (evaluate_expression X P D B expr)"
    by (simp add: base_unbalanced_def)
  ultimately show ?thesis using base_store.eval_keeps_answer [OF assms(1)] assms(2) by blast
qed

text \<open>
  What an expression on states answers: the nodes \<open>filter_states\<close> selects, the relations that
  touch one of them, and the other ends of those relations, marked \<open>Trace\<close>.
\<close>

theorem state_query_answer:
  "g_edges (relations (evaluate_expression X P D B (StateIn pred))) =
     filter (\<lambda>e. bm_contains (filter_states X P B pred None False) (e_source e)
               \<or> bm_contains (filter_states X P B pred None False) (e_sink e)) (g_edges (bb_relations B))
   \<and> bm_get (states (evaluate_expression X P D B (StateIn pred))) k =
       (case bm_get (filter_states X P B pred None False) k of
          Some n \<Rightarrow> Some n
        | None \<Rightarrow>
            if list_ex (\<lambda>e. k = e_source e \<or> k = e_sink e)
                 (g_edges (relations (evaluate_expression X P D B (StateIn pred))))
            then map_option mark_trace (bm_get (bb_states B) k) else None)"
proof -
  let ?sel = "filter_states X P B pred None False"
  let ?es = "g_edges (relations (evaluate_expression X P D B (StateIn pred)))"
  have es: "?es = filter (\<lambda>e. bm_contains ?sel (e_source e) \<or> bm_contains ?sel (e_sink e))
      (g_edges (bb_relations B))"
    by (auto simp: answer_states_def graph_filter_def match_ref_def Let_def mem_bm_keys bm_contains_def
        intro!: filter_cong)
  have "states (evaluate_expression X P D B (StateIn pred)) = add_ends (bb_states B) ?es ?sel"
    by (simp add: answer_states_def Let_def)
  moreover have "k \<in> set (concat (map (\<lambda>e. [e_sink e, e_source e]) ?es)) \<longleftrightarrow>
      list_ex (\<lambda>e. k = e_source e \<or> k = e_sink e) ?es"
    by (auto simp: list_ex_iff)
  ultimately have "bm_get (states (evaluate_expression X P D B (StateIn pred))) k =
      (case bm_get ?sel k of Some n \<Rightarrow> Some n
        | None \<Rightarrow> if list_ex (\<lambda>e. k = e_source e \<or> k = e_sink e) ?es
            then map_option mark_trace (bm_get (bb_states B) k) else None)"
    by (simp only: add_ends_fold add_traces_get or_else_def split: option.split) simp
  with es show ?thesis by blast
qed

text \<open>
  Negating a predicate on identifiers or paths changes nothing: in memory, \<open>StateNotIn\<close> of such a
  predicate answers the same graph as \<open>StateIn\<close>.
\<close>

theorem negation_ignored:
  "list_all (\<lambda>pred.
     evaluate_expression X P D B (StateNotIn pred) = evaluate_expression X P D B (StateIn pred)
     \<and> evaluate_expression_as_trace X P D B (StateNotIn pred) ws
        = evaluate_expression_as_trace X P D B (StateIn pred) ws)
     [PBid bids, PNetId net i, PNetPath net path, PNetPathIn b, PPath paths]"
  by (simp add: filter_states_def)

text \<open>
  Set operations look at complete nodes only, and whatever a relation predicate selects is marked
  \<open>Trace\<close>: intersecting with such an answer, or subtracting from it, always gives the empty graph.
  Evaluated as a trace, every intersection and every difference is empty.
\<close>

theorem relation_dyads_empty:
  assumes "base_ok B" "\<And>es. D es [] = []"
  shows "list_all (\<lambda>dyad. evaluate_expression X P D B dyad = belief_graph_empty)
      [Dyad (RelationIn p) SetIntersection expr, Dyad expr SetIntersection (RelationIn p),
       Dyad (RelationIn p) SetDifference expr, Dyad (RelationNotIn p) SetIntersection expr]
    \<and> list_all (\<lambda>op_name. evaluate_expression_as_trace X P D B (Dyad expr op_name expr') ws
        = belief_graph_empty) [SetIntersection, SetDifference]"
  by (simp add: apply_set_op_def set_ops_trace [where D = D] assms(2) answer_relations_trace [OF assms(1)]
      evaluate_trace_marked [OF assms(1)])

theorem total_query_sound_witness:
  "\<forall>X P. \<exists>g. eval_query (\<lambda>es seeds. seeds) (base_unbalanced X P (\<lambda>es seeds. seeds) pair_base)
       (base_trace X P (\<lambda>es seeds. seeds) pair_base)
       \<lparr>q_seed = StateIn (PBid [Bid 1]), q_traverse = None\<rparr> True = Inr g
     \<and> find_orphaned_edges g = []"
  using total_query_sound [OF pair_base_ok] by blast

theorem relation_dyads_empty_witness:
  "\<forall>X P. evaluate_expression X P (\<lambda>es seeds. seeds) pair_base
     (Dyad (RelationIn RAny) SetIntersection (StateIn PAny)) = belief_graph_empty
   \<and> bb_states pair_base \<noteq> []"
proof -
  have "bb_states pair_base \<noteq> []" by (simp add: pair_base_def)
  moreover have "evaluate_expression X P (\<lambda>es seeds. seeds) pair_base
      (Dyad (RelationIn RAny) SetIntersection (StateIn PAny)) = belief_graph_empty"
    for X :: "'a query_ext_scheme" and P
    using relation_dyads_empty [OF pair_base_ok, where D = "\<lambda>es seeds. seeds" and p = RAny
        and expr = "StateIn PAny" and X = X and P = P] by (simp only: list.pred_inject)
  ultimately show ?thesis by blast
qed

theorem base_eval_keeps_witness:
  "\<forall>X P. \<exists>g. eval (\<lambda>es seeds. seeds) (base_unbalanced X P (\<lambda>es seeds. seeds) pair_base)
       (base_trace X P (\<lambda>es seeds. seeds) pair_base) (StateIn (PBid [Bid 1])) = Inr g
     \<and> bm_get (states g) (Bid 1) = Some (unknown_node (Bid 1))"
proof (intro allI base_eval_keeps [OF pair_base_ok])
  fix X :: "'a query_ext_scheme" and P :: "(unit, 'c) path_ops_scheme"
  have "filter_states X P pair_base (PBid [Bid 1]) None False = [(Bid 1, unknown_node (Bid 1))]"
    by (simp add: filter_states_def pick_nodes_def pair_base_def bm_from_list_def List.map_filter_def
        unknown_node_def bm_get_def)
  then show "bm_get (states (evaluate_expression X P (\<lambda>es seeds. seeds) pair_base
      (StateIn (PBid [Bid 1])))) (Bid 1) = Some (unknown_node (Bid 1))"
    by (simp add: answer_states_def Let_def add_ends_fold add_traces_get bm_get_Cons)
qed

end
