(* ===== verification/Base.thy ===== *)
theory Base
  imports Evaluate
begin

text \<open>
  The in-memory store (\<open>BeliefBase\<close> of \<open>beliefbase/base.rs\<close>), second part: the operations that
  change it, from the index to the processing of events.

  Node indices are positions in \<open>g_nodes\<close>. \<open>petgraph\<close> decides in which order it lists the edges into
  a node and which edges a walker visits while edges are being removed, and how it permutes nodes and
  edges when it removes nodes; the first two are the arguments \<open>edges_in\<close> and \<open>walk_edges\<close>, the last
  is not modelled (the remaining ones keep their order here), and no lemma depends on it. Writing and
  reading a node as TOML are arguments too.
\<close>

record 'p base_ops = "'p path_ops" +
  edges_in :: "edge list \<Rightarrow> bid \<Rightarrow> edge list"
  walk_edges :: "edge list \<Rightarrow> bid \<Rightarrow> direction \<Rightarrow> bid list"
  node_toml :: "node \<Rightarrow> string"
  parse_node :: "string \<Rightarrow> buildonomy_error + node"
  cycles :: "(bid \<times> bid) list \<Rightarrow> bid list list"

section \<open>The index\<close>

definition index_nodes :: "'p belief_base \<Rightarrow> 'p belief_base" where
  "index_nodes B =
     (let nodes = g_nodes (bb_relations B)
                  @ filter (\<lambda>b. b \<notin> set (g_nodes (bb_relations B))) (bm_keys (bb_states B))
      in B\<lparr>bb_relations := (bb_relations B)\<lparr>g_nodes := nodes\<rparr>, bb_index := bs_from_list nodes,
           bb_index_dirty := False\<rparr>)"

text \<open>\<open>index_sync(false)\<close>; with \<open>true\<close> it is \<open>index_sync_test\<close> below.\<close>

definition index_sync :: "'p belief_base \<Rightarrow> 'p belief_base" where
  "index_sync B = (if \<not> bb_index_dirty B then B else index_nodes B)"

definition base_empty :: "'a id_ext_scheme \<Rightarrow> build_env \<Rightarrow> ('p, 'c) path_ops_scheme \<Rightarrow> 'p belief_base" where
  "base_empty X env P =
     \<lparr>bb_states = [], bb_relations = bg_empty, bb_index = [], bb_index_dirty = False, bb_brefs = [],
      bb_paths = pm_default P, bb_errors = [], bb_api = api_state X env\<rparr>"

text \<open>
  \<open>BeliefBase::is_empty\<close> subtracts up to three from a length, and \<open>contains_key\<close> guards each step.
\<close>

definition base_is_empty :: "'p belief_base \<Rightarrow> bool" where
  "base_is_empty B \<longleftrightarrow>
     length (bb_states B)
     - (if bm_contains (bb_states B) (nd_bid (bb_api B)) then 1 else 0)
     - (if bm_contains (bb_states B) asset_namespace then 1 else 0)
     - (if bm_contains (bb_states B) href_namespace then 1 else 0) = 0"

definition base_eq :: "'p belief_base \<Rightarrow> 'p belief_base \<Rightarrow> bool" where
  "base_eq a b \<longleftrightarrow>
     length (bb_states a)
     = length (filter (\<lambda>k. k \<in> set (bm_keys (bb_states b))) (bm_keys (bb_states a)))"

definition is_balanced :: "'p belief_base \<Rightarrow> buildonomy_error + unit" where
  "is_balanced B = (if bb_errors B \<noteq> [] then Inl Custom else Inr ())"

definition base_get ::
    "('p, 'c) path_ops_scheme \<Rightarrow> 'p belief_base \<Rightarrow> node_key \<Rightarrow> node option" where
  "base_get P B key =
     (case key of
        KBid b \<Rightarrow> bm_get (bb_states B) b
      | KBref r \<Rightarrow> Option.bind (bm_get (bb_brefs B) r) (bm_get (bb_states B))
      | KId net i \<Rightarrow> Option.bind (pm_net_id P (bb_paths B) net i) (bm_get (bb_states B))
      | KPath net path \<Rightarrow> Option.bind (pm_net_path P (bb_paths B) net path) (bm_get (bb_states B)))"

section \<open>Relations of a sink\<close>

definition edge_key :: "weight_kind \<Rightarrow> edge \<Rightarrow> u16 option" where
  "edge_key kind e = Option.bind (ws_get (e_weights e) kind) sort_key"

text \<open>The edges of one kind into a sink by their old sort key, and the ones whose place differs from it.\<close>

definition kind_set_of :: "weight_kind \<Rightarrow> edge list \<Rightarrow> (bid \<times> u16) list" where
  "kind_set_of kind incoming =
     linorder_class.sort_key snd
       (List.map_filter (\<lambda>e. map_option (Pair (e_source e)) (edge_key kind e)) incoming)"

definition moved_keys :: "weight_kind \<Rightarrow> edge list \<Rightarrow> (bid \<times> u16) list" where
  "moved_keys kind incoming =
     List.map_filter (\<lambda>(new_idx, source, old_idx).
       if of_nat new_idx \<noteq> old_idx then Some (source, of_nat new_idx) else None)
       (List.enumerate 0 (kind_set_of kind incoming))"

definition changed_indices :: "weight_kind list \<Rightarrow> edge list \<Rightarrow> bid \<Rightarrow> (weight_kind \<times> u16) list" where
  "changed_indices kinds incoming source =
     List.map_filter (\<lambda>kind. map_option (Pair kind) (map_of (moved_keys kind incoming) source)) kinds"

definition set_indices :: "(weight_kind \<times> u16) list \<Rightarrow> weight_set \<Rightarrow> weight_set" where
  "set_indices changed ws =
     fold (\<lambda>(kind, new_idx) acc.
       case ws_get acc kind of
         Some w \<Rightarrow> ws_set kind (weight_set_key WEIGHT_SORT_KEY (from_u16 new_idx) w) acc
       | None \<Rightarrow> acc) changed ws"

text \<open>One changed edge: its weights with the new indices, and the event that announces them.\<close>

definition reindex_edge ::
    "weight_kind list \<Rightarrow> edge list \<Rightarrow> bid \<Rightarrow> bid \<Rightarrow> edge list \<times> belief_event list
      \<Rightarrow> edge list \<times> belief_event list" where
  "reindex_edge kinds incoming sink source acc =
     (case acc of (es, events) \<Rightarrow>
        (case edge_weight es source sink of
           None \<Rightarrow> (es, events)
         | Some ws \<Rightarrow>
             let ws' = set_indices (changed_indices kinds incoming source) ws
             in (update_edge source sink ws' es, events @ [RelationUpdate source sink ws' Local])))"

fun position :: "'x \<Rightarrow> 'x list \<Rightarrow> nat" where
  "position x [] = 0"
| "position x (y # ys) = (if x = y then 0 else Suc (position x ys))"

definition changed_sources :: "weight_kind list \<Rightarrow> edge list \<Rightarrow> bid list \<Rightarrow> bid list" where
  "changed_sources kinds incoming nodes =
     linorder_class.sort_key (\<lambda>b. position b nodes)
       (filter (\<lambda>b. changed_indices kinds incoming b \<noteq> []) (remdups (map e_source incoming)))"

definition reindex_sink_edges ::
    "('p, 'c) base_ops_scheme \<Rightarrow> bid \<Rightarrow> weight_kind list \<Rightarrow> 'p belief_base
      \<Rightarrow> 'p belief_base \<times> belief_event list" where
  "reindex_sink_edges P sink kinds B =
     (if kinds = [] then (B, [])
      else
        let B = index_sync B
        in if sink \<notin> set (bb_index B) then (B, [])
           else
             let incoming = edges_in P (g_edges (bb_relations B)) sink;
                 (es, events) = fold (reindex_edge kinds incoming sink)
                   (changed_sources kinds incoming (g_nodes (bb_relations B)))
                   (g_edges (bb_relations B), [])
             in (B\<lparr>bb_relations := (bb_relations B)\<lparr>g_edges := es\<rparr>\<rparr>, events))"

definition remove_edge :: "bid \<Rightarrow> bid \<Rightarrow> edge list \<Rightarrow> edge list" where
  "remove_edge s t es =
     remove_edge_at (position (s, t) (map (\<lambda>e. (e_source e, e_sink e)) es)) es"

definition update_relation ::
    "('p, 'c) base_ops_scheme \<Rightarrow> bid \<Rightarrow> bid \<Rightarrow> weight_set \<Rightarrow> 'p belief_base
      \<Rightarrow> 'p belief_base \<times> belief_event list" where
  "update_relation P source sink new_weight_set B =
     (let B = index_sync B; es = g_edges (bb_relations B)
      in if source \<notin> set (bb_index B) \<or> sink \<notin> set (bb_index B) then (B, [])
         else
           let old_weight_set = unwrap_or (edge_weight es source sink) ws_empty;
               affected_kinds = bm_keys (weights (ws_difference old_weight_set new_weight_set));
               es' = (if ws_is_empty new_weight_set
                      then (if edge_weight es source sink \<noteq> None then remove_edge source sink es else es)
                      else update_edge source sink new_weight_set es)
           in reindex_sink_edges P sink affected_kinds
                (B\<lparr>bb_relations := (bb_relations B)\<lparr>g_edges := es'\<rparr>\<rparr>))"

section \<open>One kind of an edge\<close>

text \<open>
  Merging the payload of a change into a weight: document paths are collected as a set, other entries
  are replaced. The flag records whether anything changed.
\<close>

definition merge_payload_entry :: "string \<times> toml \<Rightarrow> weight \<times> bool \<Rightarrow> weight \<times> bool" where
  "merge_payload_entry entry acc =
     (case (entry, acc) of ((k, new_v), (e, changed)) \<Rightarrow>
        if k = WEIGHT_DOC_PATHS \<or> k = WEIGHT_DOC_PATH then
          let incoming_paths =
                (if k = WEIGHT_DOC_PATHS then unwrap_or (to_text_vec new_v) []
                 else case to_text new_v of Some path \<Rightarrow> [path] | None \<Rightarrow> []);
              merged = bs_from_list (get_doc_paths e);
              before_len = length merged;
              merged = fold bs_insert incoming_paths merged
          in if length merged \<noteq> before_len then (set_doc_paths merged e, True) else (e, changed)
        else case bm_get (w_payload e) k of
            Some present_v \<Rightarrow>
              if \<not> toml_eq new_v present_v then (weight_set_key k new_v e, True) else (e, changed)
          | None \<Rightarrow> (weight_set_key k new_v e, True))"

definition normalize_weight :: "weight \<Rightarrow> weight" where
  "normalize_weight w =
     (if weight_contains_key w WEIGHT_DOC_PATH
      then case weight_get to_text w WEIGHT_DOC_PATH of
          Some path \<Rightarrow> set_doc_paths [path] (w\<lparr>w_payload := bm_remove WEIGHT_DOC_PATH (w_payload w)\<rparr>)
        | None \<Rightarrow> w
      else w)"

definition max_key :: "weight_kind \<Rightarrow> edge list \<Rightarrow> u16 option" where
  "max_key kind incoming =
     (case List.map_filter (edge_key kind) incoming of [] \<Rightarrow> None | k # ks \<Rightarrow> Some (fold max ks k))"

text \<open>
  \<open>RelationChange\<close> to \<open>RelationUpdate\<close>. A kind without a sort key gets one past the greatest key of
  its kind into the sink: a \<open>u16\<close> addition, whose overflow panic is the outer \<open>None\<close>.
\<close>

definition change_weight ::
    "('p, 'c) base_ops_scheme \<Rightarrow> 'p belief_base \<Rightarrow> bid \<Rightarrow> weight_kind \<Rightarrow> weight option \<Rightarrow> bool \<Rightarrow> weight
      \<Rightarrow> (weight \<times> bool) option" where
  "change_weight P B sink kind present is_new weight_val =
     (let (new_weight, changed) =
            (case present of
               Some e \<Rightarrow> fold merge_payload_entry (w_payload weight_val) (e, False)
             | None \<Rightarrow> (normalize_weight weight_val, True));
          changed = (changed \<or> is_new)
      in if weight_contains_key new_weight WEIGHT_SORT_KEY then Some (new_weight, changed)
         else
           let top_key = (if sink \<in> set (bb_index B)
                          then max_key kind (edges_in P (g_edges (bb_relations B)) sink) else None)
           in case top_key of
               None \<Rightarrow> Some (weight_set_key WEIGHT_SORT_KEY (from_u16 0) new_weight, True)
             | Some w \<Rightarrow>
                 if w = 2 ^ 16 - 1 then None
                 else Some (weight_set_key WEIGHT_SORT_KEY (from_u16 (w + 1)) new_weight, True))"

definition generate_edge_update ::
    "('p, 'c) base_ops_scheme \<Rightarrow> 'p belief_base \<Rightarrow> belief_event \<Rightarrow> belief_event option option" where
  "generate_edge_update P B event =
     (case event of
        RelationChange source sink kind maybe_weight orig \<Rightarrow>
          (let B = index_sync B;
               present_weight =
                 (if source \<in> set (bb_index B) \<and> sink \<in> set (bb_index B)
                  then edge_weight (g_edges (bb_relations B)) source sink else None);
               new_weights = unwrap_or present_weight ws_empty
           in case maybe_weight of
               None \<Rightarrow>
                 let (removed, new_weights) = ws_remove kind new_weights
                 in Some (if removed \<noteq> None then Some (RelationUpdate source sink new_weights orig) else None)
             | Some weight_val \<Rightarrow>
                 (case change_weight P B sink kind (ws_get new_weights kind) (present_weight = None) weight_val of
                    None \<Rightarrow> None
                  | Some (new_weight, changed) \<Rightarrow>
                      Some (if changed
                            then Some (RelationUpdate source sink (ws_set kind new_weight new_weights) orig)
                            else None)))
      | _ \<Rightarrow> Some None)"

section \<open>Nodes\<close>

text \<open>\<open>Graph::remove_node\<close> and \<open>retain_nodes\<close>: nodes go with the edges at them.\<close>

definition remove_graph_nodes :: "bid list \<Rightarrow> bid_graph \<Rightarrow> bid_graph" where
  "remove_graph_nodes bids g =
     \<lparr>g_nodes = filter (\<lambda>b. b \<notin> set bids) (g_nodes g),
      g_edges = filter (\<lambda>e. e_source e \<notin> set bids \<and> e_sink e \<notin> set bids) (g_edges g)\<rparr>"

definition forget_states ::
    "'a id_ext_scheme \<Rightarrow> bid list \<Rightarrow> 'p belief_base \<Rightarrow> 'p belief_base" where
  "forget_states X bids B =
     fold (\<lambda>b B. if bm_contains (bb_states B) b
                 then B\<lparr>bb_states := bm_remove b (bb_states B),
                        bb_brefs := bm_remove (bref_of X b) (bb_brefs B)\<rparr>
                 else B) bids B"

text \<open>The sinks that lose an edge, with the kinds of the edges they lose.\<close>

definition sinks_of :: "bid list \<Rightarrow> edge list \<Rightarrow> (bid, weight_kind list) bmap" where
  "sinks_of bids es =
     fold (\<lambda>b m. fold (\<lambda>e m.
         bm_insert (e_sink e)
           (fold bs_insert (bm_keys (weights (e_weights e))) (unwrap_or (bm_get m (e_sink e)) [])) m)
       (filter (\<lambda>e. e_source e = b) es) m) bids []"

definition reindex_sinks ::
    "('p, 'c) base_ops_scheme \<Rightarrow> (bid, weight_kind list) bmap \<Rightarrow> 'p belief_base \<times> belief_event list
      \<Rightarrow> 'p belief_base \<times> belief_event list" where
  "reindex_sinks P sink_kinds acc =
     fold (\<lambda>(sink, kinds) (B, events).
       let (B, more) = reindex_sink_edges P sink kinds B in (B, events @ more)) sink_kinds acc"

definition remove_nodes ::
    "'a id_ext_scheme \<Rightarrow> ('p, 'c) base_ops_scheme \<Rightarrow> bid list \<Rightarrow> 'p belief_base
      \<Rightarrow> 'p belief_base \<times> belief_event list" where
  "remove_nodes X P bids B =
     (if bids = [] then (B, [])
      else
        let B = index_sync B;
            sink_kinds = sinks_of (filter (\<lambda>b. b \<in> set (bb_index B)) bids) (g_edges (bb_relations B));
            B = forget_states X bids B;
            B = B\<lparr>bb_relations := remove_graph_nodes bids (bb_relations B), bb_index_dirty := True\<rparr>
        in reindex_sinks P sink_kinds (B, []))"

text \<open>
  \<open>replace_bid\<close> moves the edges of a node to another one, all but their \<open>Section\<close> weights. The walker of
  \<open>petgraph\<close>, which goes on while edges are removed, is the argument \<open>walk_edges\<close>: it yields the other ends of
  the edges it visits, in any order, some of them twice or not at all.
\<close>

definition other_arc :: "direction \<Rightarrow> bid \<Rightarrow> bid \<Rightarrow> bid \<times> bid" where
  "other_arc d b other = (case d of Outgoing \<Rightarrow> (b, other) | Incoming \<Rightarrow> (other, b))"

definition move_edge ::
    "direction \<Rightarrow> bid \<Rightarrow> bid \<Rightarrow> bid \<Rightarrow> edge list \<times> belief_event list \<Rightarrow> edge list \<times> belief_event list" where
  "move_edge d replaced new other acc =
     (case acc of (es, events) \<Rightarrow>
        let (s, t) = other_arc d replaced other; (s', t') = other_arc d new other
        in case edge_weight es s t of
            None \<Rightarrow> (es, events)
          | Some w \<Rightarrow>
              let es = remove_edge s t es;
                  from_weight = snd (ws_remove Section w);
                  events = events @ [RelationRemoved s t Local]
              in case edge_weight es s' t' of
                  Some existing \<Rightarrow> (update_edge s' t' (ws_union existing from_weight) es, events)
                | None \<Rightarrow>
                    if \<not> ws_is_empty from_weight then (update_edge s' t' from_weight es, events)
                    else (es, events))"

definition replace_bid ::
    "('p, 'c) base_ops_scheme \<Rightarrow> bid \<Rightarrow> bid \<Rightarrow> 'p belief_base \<Rightarrow> 'p belief_base \<times> belief_event list" where
  "replace_bid P replaced_bid new_bid B =
     (let B = index_sync B
      in if replaced_bid \<notin> set (bb_index B) then (B, [])
         else
           let g = bb_relations B;
               nodes = (if new_bid \<in> set (bb_index B) then g_nodes g else g_nodes g @ [new_bid]);
               (es, events) = fold (move_edge Outgoing replaced_bid new_bid)
                 (walk_edges P (g_edges g) replaced_bid Outgoing) (g_edges g, []);
               (es, events) = fold (move_edge Incoming replaced_bid new_bid)
                 (walk_edges P es replaced_bid Incoming) (es, events)
           in (B\<lparr>bb_relations := remove_graph_nodes [replaced_bid] \<lparr>g_nodes = nodes, g_edges = es\<rparr>,
                 bb_index_dirty := True\<rparr>, events))"

definition put_state :: "'a id_ext_scheme \<Rightarrow> node \<Rightarrow> 'p belief_base \<Rightarrow> 'p belief_base \<times> bool" where
  "put_state X n B =
     (let updated = (case bm_get (bb_states B) (nd_bid n) of
                       None \<Rightarrow> True | Some old \<Rightarrow> \<not> node_eq old n)
      in if updated
         then (B\<lparr>bb_states := bm_insert (nd_bid n) n (bb_states B),
                 bb_brefs := bm_insert (bref_of X (nd_bid n)) (nd_bid n) (bb_brefs B)\<rparr>, True)
         else (B, False))"

text \<open>A base made of a graph: \<open>new_unbalanced\<close>, with or without the API node.\<close>

definition new_unbalanced ::
    "'a id_ext_scheme \<Rightarrow> build_env \<Rightarrow> ('p, 'c) path_ops_scheme \<Rightarrow> (bid, node) bmap \<Rightarrow> bid_graph \<Rightarrow> bool
      \<Rightarrow> 'p belief_base" where
  "new_unbalanced X env P sts rels inject_api =
     (let B = (base_empty X env P)\<lparr>bb_relations := rels, bb_states := sts,
                bb_brefs := bm_from_list (map (\<lambda>b. (bref_of X b, b)) (bm_keys sts))\<rparr>;
          B = (if inject_api then fst (put_state X (bb_api B) B) else B);
          B = index_sync (B\<lparr>bb_index_dirty := True\<rparr>)
      in B\<lparr>bb_paths := pm_new P (bb_states B) (bb_relations B)\<rparr>)"

definition base_from ::
    "'a id_ext_scheme \<Rightarrow> build_env \<Rightarrow> ('p, 'c) path_ops_scheme \<Rightarrow> belief_graph \<Rightarrow> 'p belief_base" where
  "base_from X env P g = new_unbalanced X env P (states g) (relations g) False"

definition base_default ::
    "'a id_ext_scheme \<Rightarrow> build_env \<Rightarrow> ('p, 'c) path_ops_scheme \<Rightarrow> 'p belief_base" where
  "base_default X env P = new_unbalanced X env P [] bg_empty True"

text \<open>\<open>consume\<close> leaves a default base behind.\<close>

definition consume ::
    "'a id_ext_scheme \<Rightarrow> build_env \<Rightarrow> ('p, 'c) path_ops_scheme \<Rightarrow> 'p belief_base
      \<Rightarrow> belief_graph \<times> 'p belief_base" where
  "consume X env P B = (bb_graph B, base_default X env P)"

definition set_merge ::
    "'a id_ext_scheme \<Rightarrow> build_env \<Rightarrow> ('p, 'c) path_ops_scheme \<Rightarrow> discover \<Rightarrow> 'p belief_base
      \<Rightarrow> 'p belief_base \<Rightarrow> 'p belief_base \<times> 'p belief_base" where
  "set_merge X env P D B rhs_set =
     (let (lhs, _) = consume X env P B; (rhs, rhs_set') = consume X env P rhs_set
      in (base_from X env P (union_mut D lhs rhs), rhs_set'))"

definition into_state ::
    "'a id_ext_scheme \<Rightarrow> build_env \<Rightarrow> ('p, 'c) path_ops_scheme \<Rightarrow> 'p belief_base
      \<Rightarrow> node option \<times> 'p belief_base" where
  "into_state X env P B =
     (let (g, B') = consume X env P B
      in (find (\<lambda>n. nd_bid n \<noteq> nd_bid (bb_api B')) (bm_values (states g)), B'))"

text \<open>The nodes other than the inserted one that answer to one of the merge keys.\<close>

definition nodes_to_replace ::
    "'a query_ext_scheme \<Rightarrow> build_env \<Rightarrow> ('p, 'c) path_ops_scheme \<Rightarrow> discover \<Rightarrow> 'p belief_base \<Rightarrow> bid
      \<Rightarrow> node_key list \<Rightarrow> bid list" where
  "nodes_to_replace X env P D B b merge_keys =
     filter (\<lambda>r. r \<noteq> b) (bs_from_list (List.map_filter (\<lambda>key.
       map_option nd_bid (base_get P (base_from X env P (evaluate_expression X P D B (key_expression key))) key))
       merge_keys))"

definition replace_node ::
    "'a id_ext_scheme \<Rightarrow> ('p, 'c) base_ops_scheme \<Rightarrow> bid \<Rightarrow> bid \<Rightarrow> 'p belief_base \<times> belief_event list
      \<Rightarrow> 'p belief_base \<times> belief_event list" where
  "replace_node X P b replaced acc =
     (case acc of (B, events) \<Rightarrow>
        let (B, moved) = replace_bid P replaced b B
        in (B\<lparr>bb_states := bm_remove replaced (bb_states B),
              bb_brefs := bm_remove (bref_of X replaced) (bb_brefs B)\<rparr>,
            events @ [NodeRenamed replaced b Local] @ moved))"

definition insert_state ::
    "'a query_ext_scheme \<Rightarrow> build_env \<Rightarrow> ('p, 'c) base_ops_scheme \<Rightarrow> discover \<Rightarrow> node \<Rightarrow> node_key list
      \<Rightarrow> 'p belief_base \<Rightarrow> 'p belief_base \<times> belief_event list" where
  "insert_state X env P D n merge_keys B =
     (let B = (if merge_keys = [] then B else index_sync B);
          to_replace = nodes_to_replace X env P D B (nd_bid n) merge_keys;
          (B, updated) = put_state X n B;
          (B, events) = fold (replace_node X P (nd_bid n)) to_replace (B, []);
          B = (if updated \<or> to_replace \<noteq> [] then B\<lparr>bb_index_dirty := True\<rparr> else B)
      in (B, events @ (if to_replace \<noteq> [] then [NodesRemoved to_replace Local] else [])))"

section \<open>Invariant test\<close>

definition check_path_invariants ::
    "'a id_ext_scheme \<Rightarrow> ('p, 'c) path_ops_scheme \<Rightarrow> 'p belief_base \<Rightarrow> base_error list" where
  "check_path_invariants X P B =
     (let nodes = g_nodes (bb_relations (index_sync B));
          api_nodes = map fst (filter (\<lambda>(_, n). API \<in> nd_kind n) (bb_states B));
          stateless = bs_from_list (filter (\<lambda>b. \<not> bm_contains (bb_states B) b) nodes);
          pathless = bs_from_list (filter (\<lambda>b.
            \<not> list_ex (\<lambda>a. pm_has_path P (bb_paths B) (bref_of X a) b) api_nodes) nodes)
      in (if stateless \<noteq> [] then [StatelessNodes stateless] else [])
         @ (if pathless \<noteq> [] then [PathlessNodes pathless] else []))"

definition cycle_errors :: "('p, 'c) base_ops_scheme \<Rightarrow> bid_graph \<Rightarrow> weight_kind \<Rightarrow> base_error list" where
  "cycle_errors P g kind =
     map (CycleIn kind) (filter (\<lambda>scc. length scc > 1)
       (cycles P (subgraph_arcs (as_subgraph g kind False))))"

definition keys_of_kind :: "weight_kind \<Rightarrow> edge list \<Rightarrow> u16 list" where
  "keys_of_kind kind es =
     List.map_filter (\<lambda>e. map_option (\<lambda>w. unwrap_or (sort_key w) 0) (ws_get (e_weights e) kind)) es"

text \<open>\<open>0..indices.len() as u16\<close>: the length is truncated to 16 bits.\<close>

definition contiguous :: "u16 list \<Rightarrow> bool" where
  "contiguous ks \<longleftrightarrow> sort ks = map of_nat [0..<unat (of_nat (length ks) :: u16)]"

definition order_errors :: "bid \<Rightarrow> edge list \<Rightarrow> base_error list" where
  "order_errors b es =
     List.map_filter (\<lambda>kind.
       let ks = keys_of_kind kind es
       in if contiguous ks then None else Some (NotContiguous b kind (sort ks))) weight_kind_all"

definition trace_errors :: "bid \<Rightarrow> edge list \<Rightarrow> base_error list" where
  "trace_errors b es =
     List.map_filter (\<lambda>kind.
       let ks = keys_of_kind kind es
       in if distinct ks then None else Some (DuplicateIndices b kind (sort ks))) weight_kind_all"

definition node_order_errors ::
    "('p, 'c) base_ops_scheme \<Rightarrow> 'p belief_base \<Rightarrow> node \<Rightarrow> base_error list" where
  "node_order_errors P B n =
     (let incoming = (if nd_bid n \<in> set (bb_index B)
                      then edges_in P (g_edges (bb_relations B)) (nd_bid n) else []);
          is_doc = (\<lambda>e. e_source e \<in> set (pm_docs P (bb_paths B)))
      in if nd_bid n \<in> set (pm_nets P (bb_paths B))
         then order_errors (nd_bid n) (filter is_doc incoming)
              @ order_errors (nd_bid n) (filter (\<lambda>e. \<not> is_doc e) incoming)
         else if Trace \<in> nd_kind n then trace_errors (nd_bid n) incoming
         else order_errors (nd_bid n) incoming)"

definition built_in_test ::
    "'a id_ext_scheme \<Rightarrow> ('p, 'c) base_ops_scheme \<Rightarrow> 'p belief_base \<Rightarrow> bool \<Rightarrow> base_error list" where
  "built_in_test X P B full_test =
     (let errors = check_path_invariants X P B; B = index_sync B
      in if \<not> full_test then errors
         else errors
           @ concat (map (cycle_errors P (bb_relations B)) [Epistemic, Pragmatic, Section])
           @ concat (map (node_order_errors P B) (bm_values (bb_states B))))"

text \<open>
  The lock on \<open>errors\<close>: a read waits while the same thread holds the write guard, so it never
  returns (\<open>None\<close>). \<open>index_sync(true)\<close> takes the write guard, keeps it to the end of the block, and
  reads under it: in \<open>built_in_test\<close> when a node has no path (the message clones the base), and after.
\<close>

datatype guard = Unlocked | WriteLocked

definition read_errors :: "guard \<Rightarrow> 'p belief_base \<Rightarrow> base_error list option" where
  "read_errors g B = (case g of Unlocked \<Rightarrow> Some (bb_errors B) | WriteLocked \<Rightarrow> None)"

definition built_in_test_under ::
    "guard \<Rightarrow> 'a id_ext_scheme \<Rightarrow> ('p, 'c) base_ops_scheme \<Rightarrow> 'p belief_base \<Rightarrow> base_error list option" where
  "built_in_test_under g X P B =
     (let errors = built_in_test X P B True
      in if list_ex (\<lambda>e. case e of PathlessNodes _ \<Rightarrow> True | _ \<Rightarrow> False) errors
         then map_option (\<lambda>_. errors) (read_errors g B)
         else Some errors)"

definition index_sync_test ::
    "'a id_ext_scheme \<Rightarrow> ('p, 'c) base_ops_scheme \<Rightarrow> 'p belief_base \<Rightarrow> 'p belief_base option" where
  "index_sync_test X P B =
     (if \<not> bb_index_dirty B then Some B
      else
        let B = index_nodes B;
            constructor_paths = bs_from_list (pm_all_paths P (pm_new P (bb_states B) (bb_relations B)));
            event_paths = bs_from_list (pm_all_paths P (bb_paths B));
            g = WriteLocked
        in Option.bind (built_in_test_under g X P B) (\<lambda>errors.
             let B = B\<lparr>bb_errors := errors
                   @ (if event_paths \<noteq> constructor_paths then [PathsDiffer event_paths constructor_paths]
                      else [])\<rparr>
             in Option.bind (read_errors g B) (\<lambda>_. Some B)))"

section \<open>Events\<close>

text \<open>
  \<open>process_event\<close> without the path events at its end. The outer \<open>None\<close> is a panic (the overflow of a
  sort key) or a thread that waits for itself. A \<open>Local\<close> event has been applied already; the
  consistency check of debug builds is left out.
\<close>

definition apply_event ::
    "'a query_ext_scheme \<Rightarrow> build_env \<Rightarrow> ('p, 'c) base_ops_scheme \<Rightarrow> discover \<Rightarrow> 'p belief_base
      \<Rightarrow> belief_event \<Rightarrow> (buildonomy_error + 'p belief_base \<times> belief_event list) option" where
  "apply_event X env P D B event =
     (case event of
        NodeUpdate merge_keys toml_str _ \<Rightarrow>
          (case parse_node P toml_str of
             Inl err \<Rightarrow> Some (Inl err)
           | Inr n \<Rightarrow> Some (Inr (insert_state X env P D n merge_keys B)))
      | NodesRemoved bids _ \<Rightarrow> Some (Inr (remove_nodes X P (bs_from_list bids) B))
      | RelationUpdate source sink ws _ \<Rightarrow> Some (Inr (update_relation P source sink ws B))
      | RelationChange _ _ _ _ _ \<Rightarrow>
          (case generate_edge_update P B event of
             None \<Rightarrow> None
           | Some None \<Rightarrow> Some (Inr (index_sync B, []))
           | Some (Some update) \<Rightarrow>
               (case update of
                  RelationUpdate source sink ws _ \<Rightarrow>
                    let (B, reindexed) = update_relation P source sink ws B
                    in Some (Inr (B, update # reindexed))
                | _ \<Rightarrow> None))
      | RelationRemoved source sink _ \<Rightarrow> Some (Inr (update_relation P source sink ws_empty B))
      | BuiltInTest \<Rightarrow> map_option (\<lambda>B. Inr (B, [])) (index_sync_test X P B)
      | _ \<Rightarrow> Some (Inr (B, [])))"

definition process_event ::
    "'a query_ext_scheme \<Rightarrow> build_env \<Rightarrow> ('p, 'c) base_ops_scheme \<Rightarrow> discover \<Rightarrow> 'p belief_base
      \<Rightarrow> belief_event \<Rightarrow> (buildonomy_error + 'p belief_base \<times> belief_event list) option" where
  "process_event X env P D B event =
     (if origin event = Some Local then Some (Inr (B, []))
      else case apply_event X env P D B event of
          None \<Rightarrow> None
        | Some (Inl err) \<Rightarrow> Some (Inl err)
        | Some (Inr (B, derivative_events)) \<Rightarrow>
            let (paths, path_events) = pm_process P (bb_paths B) (event # derivative_events) (bb_relations B)
            in Some (Inr (B\<lparr>bb_paths := paths\<rparr>, derivative_events @ path_events)))"

section \<open>Merging and trimming\<close>

definition merge_op_nodes :: "merge_op list \<Rightarrow> node list" where
  "merge_op_nodes ops = List.map_filter (\<lambda>op_val. case op_val of NodeUpsert n \<Rightarrow> Some n | _ \<Rightarrow> None) ops"

definition merge_op_relations :: "merge_op list \<Rightarrow> edge list" where
  "merge_op_relations ops =
     List.map_filter (\<lambda>op_val. case op_val of MergeRelation s t w \<Rightarrow> Some (s, t, w) | _ \<Rightarrow> None) ops"

definition put_states :: "'a id_ext_scheme \<Rightarrow> node list \<Rightarrow> 'p belief_base \<Rightarrow> 'p belief_base \<times> bool" where
  "put_states X ns B =
     fold (\<lambda>n (B, changed). let (B, updated) = put_state X n B in (B, changed \<or> updated)) ns (B, False)"

definition update_relations ::
    "('p, 'c) base_ops_scheme \<Rightarrow> edge list \<Rightarrow> 'p belief_base \<Rightarrow> 'p belief_base" where
  "update_relations P es B =
     fold (\<lambda>e B. fst (update_relation P (e_source e) (e_sink e) (e_weights e) B)) es B"

definition merge_graph ::
    "'a id_ext_scheme \<Rightarrow> ('p, 'c) base_ops_scheme
      \<Rightarrow> discover \<times> ((bid \<times> bid) list \<Rightarrow> bid list \<Rightarrow> (bid \<times> bid) list) \<Rightarrow> belief_graph \<Rightarrow> bid list option
      \<Rightarrow> 'p belief_base \<Rightarrow> 'p belief_base" where
  "merge_graph X P DT rhs seed_bids B =
     (let ops = to_event_stream DT rhs (bb_graph B) seed_bids
      in if ops = [] then B
         else
           let (B, any_node_change) = put_states X (merge_op_nodes ops) B;
               B = (if any_node_change then B\<lparr>bb_index_dirty := True\<rparr> else B);
               B = update_relations P (merge_op_relations ops) (index_sync B);
               (paths, _) = pm_process P (bb_paths B) (map (to_belief_event (node_toml P)) ops)
                 (bb_relations B)
           in B\<lparr>bb_paths := paths\<rparr>)"

text \<open>The removal events \<open>trim\<close> collects are dropped at its end.\<close>

definition trim :: "bid list option \<Rightarrow> 'p belief_base \<Rightarrow> 'p belief_base" where
  "trim to_retain B =
     (let retainable_set = unwrap_or to_retain (bm_keys (bb_states B));
          es = g_edges (bb_relations B);
          to_remove = filter (\<lambda>i. e_source (es ! i) \<notin> set retainable_set
                                 \<or> e_sink (es ! i) \<notin> set retainable_set) [0..<length es]
      in B\<lparr>bb_relations := (bb_relations B)\<lparr>g_edges := fold remove_edge_at (rev to_remove) es\<rparr>\<rparr>)"

end
