(* ===== verification/BaseProps.thy ===== *)
theory BaseProps
  imports Base "HOL-Library.Multiset"
begin

text \<open>
  What the operations of theory \<open>Base\<close> guarantee: the shape of the store after each of them, the
  order of the relations of a sink, removal, trimming, the empty store and the invariant test.
\<close>

section \<open>Trimming\<close>

text \<open>Removing from the back leaves the other indices alone, unlike \<open>retain\<close>, which removes from the front.\<close>

lemma mset_remove_edge_at:
  "i < length es \<Longrightarrow> mset (remove_edge_at i es) = mset es - {#es ! i#}"
proof -
  assume i: "i < length es"
  then have ne: "es \<noteq> []" by auto
  have "mset (butlast (es[i := last es])) = mset (es[i := last es]) - {#last (es[i := last es])#}"
    using ne by (cases "es[i := last es]" rule: rev_cases) auto
  moreover have "last (es[i := last es]) = last es"
    using ne i by (cases "i = length es - 1") (simp_all add: last_conv_nth nth_list_update)
  ultimately have "mset (butlast (es[i := last es])) = mset (es[i := last es]) - {#last es#}" by simp
  also have "mset (es[i := last es]) = mset es - {#es ! i#} + {#last es#}"
    using i by (simp add: mset_update)
  finally show ?thesis using i by (simp add: remove_edge_at_def)
qed

lemma mset_remove_back:
  assumes "sorted_wrt (>) is" "\<forall>i\<in>set is. i < length es"
  shows "mset (fold remove_edge_at is es) = mset es - mset (map ((!) es) is)"
  using assms
proof (induction "is" arbitrary: es)
  case (Cons i js)
  let ?es = "remove_edge_at i es"
  have i: "i < length es" and js: "\<forall>j\<in>set js. j < i" using Cons.prems by auto
  then have len: "length ?es = length es - 1" by (simp add: remove_edge_at_def)
  with i js have less: "\<forall>j\<in>set js. j < length ?es" by fastforce
  then have "?es ! j = es ! j" if "j \<in> set js" for j
    using js that remove_edge_at_nth [OF i, of j] by auto
  then have same: "map ((!) ?es) js = map ((!) es) js" by simp
  have "mset (fold remove_edge_at js ?es) = mset ?es - mset (map ((!) es) js)"
    using Cons.IH [OF _ less] Cons.prems(1) unfolding same by simp
  then show ?case by (simp add: mset_remove_edge_at [OF i])
qed simp

lemma filter_nth_upt: "filter P xs = map ((!) xs) (filter (\<lambda>i. P (xs ! i)) [0..<length xs])"
  by (metis (no_types, lifting) filter_cong filter_map comp_apply map_nth)

lemma mset_filter_compl: "mset xs - mset (filter (\<lambda>x. \<not> P x) xs) = mset (filter P xs)"
  by (metis add_diff_cancel_right' multiset_partition mset_filter)

lemma trim_edges:
  "mset (g_edges (bb_relations (trim to_retain B))) =
     mset (filter (\<lambda>e. e_source e \<in> set (unwrap_or to_retain (bm_keys (bb_states B)))
                     \<and> e_sink e \<in> set (unwrap_or to_retain (bm_keys (bb_states B))))
       (g_edges (bb_relations B)))"
proof -
  let ?r = "set (unwrap_or to_retain (bm_keys (bb_states B)))"
  let ?es = "g_edges (bb_relations B)"
  let ?bad = "\<lambda>e. e_source e \<notin> ?r \<or> e_sink e \<notin> ?r"
  let ?is = "filter (\<lambda>i. ?bad (?es ! i)) [0..<length ?es]"
  have "sorted_wrt (<) ?is" by (intro sorted_wrt_filter) simp
  then have "sorted_wrt (>) (rev ?is)" by (simp add: sorted_wrt_rev)
  then have "mset (fold remove_edge_at (rev ?is) ?es) = mset ?es - mset (map ((!) ?es) (rev ?is))"
    by (rule mset_remove_back) simp
  also have "mset (map ((!) ?es) (rev ?is)) = mset (filter ?bad ?es)"
    by (subst filter_nth_upt [of ?bad]) (simp add: rev_map [symmetric])
  also have "mset ?es - mset (filter ?bad ?es) = mset (filter (\<lambda>e. e_source e \<in> ?r \<and> e_sink e \<in> ?r) ?es)"
    using mset_filter_compl [of ?es "\<lambda>e. e_source e \<in> ?r \<and> e_sink e \<in> ?r"] by (simp add: de_Morgan_conj)
  finally show ?thesis by (simp add: trim_def Let_def)
qed

section \<open>Reindexing a sink\<close>

text \<open>What \<open>petgraph\<close> documents of \<open>edges_directed\<close>: each edge into the node, in some order.\<close>

definition edges_in_ok :: "('p, 'c) base_ops_scheme \<Rightarrow> bool" where
  "edges_in_ok P \<longleftrightarrow> (\<forall>es b. mset (edges_in P es b) = mset (filter (\<lambda>e. e_sink e = b) es))"

definition rank :: "weight_kind \<Rightarrow> edge list \<Rightarrow> bid \<Rightarrow> nat" where
  "rank kind incoming source = position source (map fst (kind_set_of kind incoming))"

lemma position_less: "x \<in> set xs \<Longrightarrow> position x xs < length xs"
  by (induction xs) auto

lemma position_nth: "distinct xs \<Longrightarrow> i < length xs \<Longrightarrow> position (xs ! i) xs = i"
  by (induction xs arbitrary: i) (auto simp: nth_Cons split: nat.splits)

lemma nth_position: "x \<in> set xs \<Longrightarrow> xs ! position x xs = x"
  by (induction xs) auto

lemma map_of_moved:
  assumes "distinct (map fst ks)"
  shows "map_of (List.map_filter (\<lambda>(i, source, old).
       if of_nat i \<noteq> old then Some (source, of_nat i) else None) (List.enumerate n ks)) source =
     (case map_of ks source of
        None \<Rightarrow> None
      | Some old \<Rightarrow>
          let i = of_nat (n + position source (map fst ks))
          in if i \<noteq> (old :: u16) then Some i else None)"
  using assms
proof (induction ks arbitrary: n)
  case (Cons k ks)
  obtain s old where k: "k = (s, old)" by (cases k)
  let ?f = "\<lambda>(i, source, old). if of_nat i \<noteq> (old :: u16) then Some (source, of_nat i) else None"
  have fresh: "s \<notin> fst ` set ks" using Cons.prems k by auto
  then have none: "map_of ks s = None" by (simp add: map_of_eq_None_iff)
  have step: "List.map_filter ?f (List.enumerate n (k # ks)) =
      (if of_nat n \<noteq> old then [(s, of_nat n)] else []) @ List.map_filter ?f (List.enumerate (Suc n) ks)"
    by (simp add: k List.map_filter_def)
  have "distinct (map fst ks)" using Cons.prems by simp
  note IH = Cons.IH [OF this, of "Suc n"]
  show ?case
  proof (cases "source = s")
    case True
    then show ?thesis unfolding step using IH none by (auto simp: k map_add_def)
  next
    case False
    then show ?thesis unfolding step using IH
      by (auto simp: k map_add_def Let_def split: option.split)
  qed
qed (simp add: List.map_filter_def)

lemma map_filter_Cons:
  "List.map_filter f (x # xs) = (case f x of None \<Rightarrow> [] | Some y \<Rightarrow> [y]) @ List.map_filter f xs"
  by (simp add: List.map_filter_def split: option.split)

lemma map_filter_Nil [simp]: "List.map_filter f [] = []"
  by (simp add: List.map_filter_def)

lemma map_filter_eq:
  "(\<And>x. x \<in> set xs \<Longrightarrow> f x = g x) \<Longrightarrow> List.map_filter f xs = List.map_filter g xs"
  by (induction xs) (auto simp: map_filter_Cons split: option.split)

lemma kind_set_distinct:
  assumes "distinct (map e_source incoming)"
  shows "distinct (map fst (kind_set_of kind incoming))"
proof -
  let ?l = "List.map_filter (\<lambda>e. map_option (Pair (e_source e)) (edge_key kind e)) incoming"
  have "set (map fst ?l) \<subseteq> e_source ` set incoming" by (auto simp: mem_map_filter)
  have "distinct (map fst ?l)"
    using assms
  proof (induction incoming)
    case (Cons e es)
    have "fst ` set (List.map_filter (\<lambda>e. map_option (Pair (e_source e)) (edge_key kind e)) es)
        \<subseteq> e_source ` set es" by (auto simp: mem_map_filter)
    moreover have "e_source e \<notin> e_source ` set es" using Cons.prems by simp
    ultimately have "e_source e \<notin>
        fst ` set (List.map_filter (\<lambda>e. map_option (Pair (e_source e)) (edge_key kind e)) es)" by blast
    with Cons show ?case by (auto simp: map_filter_Cons split: option.split)
  qed (simp add: List.map_filter_def)
  moreover have "mset (map fst (kind_set_of kind incoming)) = mset (map fst ?l)"
    by (simp add: kind_set_of_def)
  ultimately show ?thesis using mset_eq_imp_distinct_iff by blast
qed

lemma set_kind_set:
  "(s, k) \<in> set (kind_set_of kind incoming) \<longleftrightarrow>
     (\<exists>e\<in>set incoming. e_source e = s \<and> edge_key kind e = Some k)"
  by (auto simp: kind_set_of_def mem_map_filter)

lemma map_of_kind_set:
  assumes "distinct (map e_source incoming)" "e \<in> set incoming"
  shows "map_of (kind_set_of kind incoming) (e_source e) = edge_key kind e"
proof (cases "edge_key kind e")
  case None
  have "(e_source e, k) \<notin> set (kind_set_of kind incoming)" for k
  proof
    assume "(e_source e, k) \<in> set (kind_set_of kind incoming)"
    then obtain e' where e': "e' \<in> set incoming" "e_source e' = e_source e" "edge_key kind e' = Some k"
      unfolding set_kind_set by blast
    then have "e' = e" using assms by (metis distinct_map inj_onD)
    with None e' show False by simp
  qed
  then have "e_source e \<notin> fst ` set (kind_set_of kind incoming)" by force
  with None show ?thesis by (simp add: map_of_eq_None_iff)
next
  case (Some k)
  with assms(2) have "(e_source e, k) \<in> set (kind_set_of kind incoming)" unfolding set_kind_set by blast
  with Some kind_set_distinct [OF assms(1)] show ?thesis by simp
qed

lemma moved_key:
  assumes "distinct (map e_source incoming)" "e \<in> set incoming"
  shows "map_of (moved_keys kind incoming) (e_source e) =
    (case edge_key kind e of
       None \<Rightarrow> None
     | Some old \<Rightarrow>
         if of_nat (rank kind incoming (e_source e)) \<noteq> old
         then Some (of_nat (rank kind incoming (e_source e))) else None)"
proof -
  have "moved_keys kind incoming = List.map_filter (\<lambda>(i, source, old).
      if of_nat i \<noteq> old then Some (source, of_nat i) else None)
      (List.enumerate 0 (kind_set_of kind incoming))"
    unfolding moved_keys_def by (rule arg_cong [of _ _ "\<lambda>f. List.map_filter f _"]) auto
  then show ?thesis
    using map_of_moved [OF kind_set_distinct [OF assms(1), of kind], of 0 "e_source e"]
      map_of_kind_set [OF assms, of kind]
    by (cases "edge_key kind e") (simp_all add: rank_def Let_def)
qed

lemma changed_indices_of:
  assumes "distinct kinds"
  shows "distinct (map fst (changed_indices kinds incoming s))"
    "map_of (changed_indices kinds incoming s) kind =
       (if kind \<in> set kinds then map_of (moved_keys kind incoming) s else None)"
proof -
  have sub: "set (map fst (changed_indices kinds incoming s)) \<subseteq> set kinds" for kinds
    by (auto simp: changed_indices_def mem_map_filter)
  have step: "changed_indices (k # ks) incoming s =
      (case map_of (moved_keys k incoming) s of None \<Rightarrow> [] | Some i \<Rightarrow> [(k, i)])
      @ changed_indices ks incoming s" for k ks
    by (simp add: changed_indices_def map_filter_Cons split: option.split)
  show "distinct (map fst (changed_indices kinds incoming s))"
    using assms
  proof (induction kinds)
    case (Cons k ks)
    then show ?case using sub [of ks] by (auto simp: step split: option.split)
  qed (simp add: changed_indices_def List.map_filter_def)
  show "map_of (changed_indices kinds incoming s) kind =
       (if kind \<in> set kinds then map_of (moved_keys kind incoming) s else None)"
    using assms
  proof (induction kinds)
    case (Cons k ks)
    have none: "map_of (changed_indices ks incoming s) k = None"
      using sub [of ks] Cons.prems by (auto simp: map_of_eq_None_iff)
    show ?case
    proof (cases "kind = k")
      case True
      with none show ?thesis by (auto simp: step map_add_def split: option.split)
    next
      case False
      then have "map_of (changed_indices (k # ks) incoming s) kind
          = map_of (changed_indices ks incoming s) kind"
        by (auto simp: step map_add_def split: option.split)
      with False Cons show ?thesis by simp
    qed
  qed (simp add: changed_indices_def List.map_filter_def)
qed

lemma ws_get_set_indices:
  assumes "distinct (map fst changed)"
  shows "ws_get (set_indices changed ws) kind =
    (case map_of changed kind of
       None \<Rightarrow> ws_get ws kind
     | Some i \<Rightarrow> map_option (weight_set_key WEIGHT_SORT_KEY (from_u16 i)) (ws_get ws kind))"
  using assms
proof (induction changed arbitrary: ws)
  case (Cons c changed)
  obtain k i where c: "c = (k, i)" by (cases c)
  let ?ws = "case ws_get ws k of Some w \<Rightarrow> ws_set k (weight_set_key WEIGHT_SORT_KEY (from_u16 i) w) ws
      | None \<Rightarrow> ws"
  have step: "set_indices (c # changed) ws = set_indices changed ?ws"
    by (simp add: set_indices_def c)
  have none: "map_of changed k = None" using Cons.prems c by (auto simp: map_of_eq_None_iff)
  have "distinct (map fst changed)" using Cons.prems by simp
  note IH = Cons.IH [OF this, of ?ws]
  show ?case unfolding step using IH none
    by (cases "kind = k"; cases "ws_get ws k") (auto simp: c split: option.split)
qed (simp add: set_indices_def)

lemma edge_key_reindexed:
  assumes "distinct (map e_source incoming)" "(s, t, w) \<in> set incoming" "distinct kinds"
  shows "edge_key kind (s, t, set_indices (changed_indices kinds incoming s) w) =
    (if kind \<in> set kinds
     then map_option (\<lambda>_. of_nat (rank kind incoming s)) (edge_key kind (s, t, w))
     else edge_key kind (s, t, w))"
proof -
  have "map_of (changed_indices kinds incoming s) kind =
      (if kind \<in> set kinds then (case edge_key kind (s, t, w) of
         None \<Rightarrow> None
       | Some old \<Rightarrow> if of_nat (rank kind incoming s) \<noteq> old then Some (of_nat (rank kind incoming s)) else None)
       else None)"
    using changed_indices_of(2) [OF assms(3)] moved_key [OF assms(1,2), of kind, unfolded e_simps]
    by simp
  with ws_get_set_indices [OF changed_indices_of(1) [OF assms(3)], of incoming s w kind] show ?thesis
    by (cases "ws_get w kind") (auto simp: edge_key_def split: option.split)
qed

text \<open>The edges of a sink after all their changes: one map over the list.\<close>

definition reindexed :: "weight_kind list \<Rightarrow> edge list \<Rightarrow> bid \<Rightarrow> edge \<Rightarrow> edge" where
  "reindexed kinds incoming sink e =
     (if e_sink e = sink
      then (e_source e, e_sink e, set_indices (changed_indices kinds incoming (e_source e)) (e_weights e))
      else e)"

lemma reindexed_ends [simp]:
  "e_source (reindexed kinds incoming sink e) = e_source e"
  "e_sink (reindexed kinds incoming sink e) = e_sink e"
  by (simp_all add: reindexed_def)

lemma arc_mem:
  "e \<in> set es \<Longrightarrow> e_source e = s \<Longrightarrow> e_sink e = t \<Longrightarrow>
     (s, t) \<in> (\<lambda>e. (e_source e, e_sink e)) ` set es"
  by (rule rev_image_eqI [of e]) simp_all

lemma update_edge_map:
  assumes "distinct (map (\<lambda>e. (e_source e, e_sink e)) es)"
    "(s, t) \<in> set (map (\<lambda>e. (e_source e, e_sink e)) es)"
  shows "update_edge s t w es = map (\<lambda>e. if e_source e = s \<and> e_sink e = t then (s, t, w) else e) es"
  using assms
proof (induction s t w es rule: update_edge.induct)
  case (2 s t w e es)
  show ?case
  proof (cases "e_source e = s \<and> e_sink e = t")
    case True
    with 2 have "(s, t) \<notin> (\<lambda>e. (e_source e, e_sink e)) ` set es" by simp
    then have "\<forall>e'\<in>set es. \<not> (e_source e' = s \<and> e_sink e' = t)" by (blast intro: arc_mem)
    then have "map (\<lambda>e. if e_source e = s \<and> e_sink e = t then (s, t, w) else e) es = es"
      by (intro map_idI) auto
    with True show ?thesis by simp
  next
    case False
    with 2 show ?thesis by auto
  qed
qed simp

lemma reindex_edges:
  assumes "distinct (map (\<lambda>e. (e_source e, e_sink e)) es)" "distinct ss"
    "\<forall>s\<in>set ss. (s, sink) \<in> set (map (\<lambda>e. (e_source e, e_sink e)) es)"
  shows "fst (fold (reindex_edge kinds incoming sink) ss (es, events)) =
    map (\<lambda>e. if e_source e \<in> set ss then reindexed kinds incoming sink e else e) es"
  using assms
proof (induction ss arbitrary: es events)
  case (Cons s ss)
  from Cons.prems obtain e where e: "e \<in> set es" "e_source e = s" "e_sink e = sink" by auto
  then have "(s, sink, e_weights e) \<in> set es" using edge_eq [of e] by metis
  then have w: "edge_weight es s sink = Some (e_weights e)"
    using edge_weight_in [OF Cons.prems(1)] by blast
  let ?w = "set_indices (changed_indices kinds incoming s) (e_weights e)"
  let ?es = "update_edge s sink ?w es"
  have upd: "?es = map (\<lambda>e. if e_source e = s \<and> e_sink e = sink then (s, sink, ?w) else e) es"
    using Cons.prems by (intro update_edge_map) auto
  have uniq: "e' = e" if "e' \<in> set es" "e_source e' = s" "e_sink e' = sink" for e'
    using that e Cons.prems(1) by (auto simp: distinct_map inj_on_def)
  have arcs: "map (\<lambda>e. (e_source e, e_sink e)) ?es = map (\<lambda>e. (e_source e, e_sink e)) es"
    unfolding upd by auto
  have "fst (fold (reindex_edge kinds incoming sink) (s # ss) (es, events)) =
      fst (fold (reindex_edge kinds incoming sink) ss (?es, events @ [RelationUpdate s sink ?w Local]))"
    by (simp add: reindex_edge_def w Let_def)
  also have "\<dots> = map (\<lambda>e. if e_source e \<in> set ss then reindexed kinds incoming sink e else e) ?es"
    using Cons.prems unfolding arcs [symmetric] by (intro Cons.IH) auto
  also have "\<dots> = map (\<lambda>e. if e_source e \<in> set (s # ss) then reindexed kinds incoming sink e else e) es"
    unfolding upd map_map
  proof (rule map_cong)
    fix e' assume e': "e' \<in> set es"
    show "((\<lambda>e. if e_source e \<in> set ss then reindexed kinds incoming sink e else e) \<circ>
          (\<lambda>e. if e_source e = s \<and> e_sink e = sink then (s, sink, ?w) else e)) e' =
        (if e_source e' \<in> set (s # ss) then reindexed kinds incoming sink e' else e')"
    proof (cases "e_source e' = s \<and> e_sink e' = sink")
      case True
      with uniq e' have "e' = e" by blast
      with True Cons.prems(2) show ?thesis by (simp add: reindexed_def)
    next
      case False
      then show ?thesis by (auto simp: reindexed_def)
    qed
  qed simp
  finally show ?case .
qed simp

lemma changed_sources_mem:
  "b \<in> set (changed_sources kinds incoming nodes) \<longleftrightarrow>
     b \<in> e_source ` set incoming \<and> changed_indices kinds incoming b \<noteq> []"
  by (auto simp: changed_sources_def)

lemma reindex_all_edges:
  assumes "distinct (map (\<lambda>e. (e_source e, e_sink e)) es)" "set incoming \<subseteq> {e \<in> set es. e_sink e = sink}"
    "{e \<in> set es. e_sink e = sink} \<subseteq> set incoming"
  shows "fst (fold (reindex_edge kinds incoming sink) (changed_sources kinds incoming nodes) (es, events)) =
    map (reindexed kinds incoming sink) es"
proof -
  have "fst (fold (reindex_edge kinds incoming sink) (changed_sources kinds incoming nodes) (es, events)) =
      map (\<lambda>e. if e_source e \<in> set (changed_sources kinds incoming nodes)
               then reindexed kinds incoming sink e else e) es"
  proof (rule reindex_edges [OF assms(1)])
    show "distinct (changed_sources kinds incoming nodes)" by (simp add: changed_sources_def)
    show "\<forall>s\<in>set (changed_sources kinds incoming nodes).
        (s, sink) \<in> set (map (\<lambda>e. (e_source e, e_sink e)) es)"
    proof
      fix s assume "s \<in> set (changed_sources kinds incoming nodes)"
      then obtain e where "e \<in> set incoming" "e_source e = s" by (auto simp: changed_sources_mem)
      with assms(2) have "e \<in> set es" "e_sink e = sink" by blast+
      from arc_mem [OF this(1) \<open>e_source e = s\<close> this(2)]
      show "(s, sink) \<in> set (map (\<lambda>e. (e_source e, e_sink e)) es)" by simp
    qed
  qed
  also have "\<dots> = map (reindexed kinds incoming sink) es"
  proof (rule map_cong)
    fix e assume e: "e \<in> set es"
    show "(if e_source e \<in> set (changed_sources kinds incoming nodes)
           then reindexed kinds incoming sink e else e) = reindexed kinds incoming sink e"
    proof (cases "e_sink e = sink")
      case True
      with e assms(3) have "e \<in> set incoming" by blast
      then have "e_source e \<notin> set (changed_sources kinds incoming nodes) \<Longrightarrow>
          changed_indices kinds incoming (e_source e) = []" by (auto simp: changed_sources_mem)
      then show ?thesis by (auto simp: reindexed_def set_indices_def edge_eq)
    qed (simp add: reindexed_def)
  qed simp
  finally show ?thesis .
qed

definition sink_keys :: "weight_kind \<Rightarrow> bid \<Rightarrow> edge list \<Rightarrow> u16 list" where
  "sink_keys kind sink es = List.map_filter (edge_key kind) (filter (\<lambda>e. e_sink e = sink) es)"

lemma mset_map_filter: "mset xs = mset ys \<Longrightarrow> mset (List.map_filter f xs) = mset (List.map_filter f ys)"
  by (metis List.map_filter_def mset_filter mset_map)

lemma incoming_distinct:
  assumes "distinct (map (\<lambda>e. (e_source e, e_sink e)) es)" "mset incoming = mset (filter (\<lambda>e. e_sink e = sink) es)"
  shows "distinct (map e_source incoming)" "set incoming = {e \<in> set es. e_sink e = sink}"
proof -
  let ?f = "filter (\<lambda>e. e_sink e = sink) es"
  show set: "set incoming = {e \<in> set es. e_sink e = sink}"
    using mset_eq_setD [OF assms(2)] by auto
  have "distinct (map (\<lambda>e. (e_source e, e_sink e)) ?f)" by (rule distinct_map_filter [OF assms(1)])
  moreover have "map (\<lambda>e. (e_source e, e_sink e)) ?f = map (\<lambda>s. (s, sink)) (map e_source ?f)" by simp
  ultimately have "distinct (map e_source ?f)" by (metis distinct_map)
  moreover have "mset (map e_source incoming) = mset (map e_source ?f)" using assms(2) by simp
  ultimately show "distinct (map e_source incoming)" using mset_eq_imp_distinct_iff by blast
qed

lemma ranks_enumerate:
  assumes "distinct (map fst ks)"
  shows "map (\<lambda>(s, _). position s (map fst ks)) ks = [0..<length ks]"
proof (rule nth_equalityI)
  fix i assume "i < length (map (\<lambda>(s, _). position s (map fst ks)) ks)"
  then have i: "i < length ks" by simp
  with position_nth [OF assms, of i]
  show "map (\<lambda>(s, _). position s (map fst ks)) ks ! i = [0..<length ks] ! i"
    by (simp add: case_prod_beta)
qed simp

lemma map_filter_keys:
  "List.map_filter (\<lambda>e. map_option (\<lambda>_. g (e_source e)) (edge_key kind e)) es =
     map (\<lambda>(s, _). g s) (List.map_filter (\<lambda>e. map_option (Pair (e_source e)) (edge_key kind e)) es)"
  by (induction es) (auto simp: map_filter_Cons split: option.split)

lemma reindexed_keys:
  assumes "distinct (map (\<lambda>e. (e_source e, e_sink e)) es)" "mset incoming = mset (filter (\<lambda>e. e_sink e = sink) es)"
    "distinct kinds"
  shows "e \<in> set es \<Longrightarrow> e_sink e = sink \<Longrightarrow>
      edge_key kind (reindexed kinds incoming sink e) =
        (if kind \<in> set kinds then map_option (\<lambda>_. of_nat (rank kind incoming (e_source e))) (edge_key kind e)
         else edge_key kind e)"
proof -
  assume e: "e \<in> set es" "e_sink e = sink"
  obtain s t w where st: "e = (s, t, w)" by (cases e)
  with e incoming_distinct(2) [OF assms(1,2)] have "(s, t, w) \<in> set incoming" by simp
  from edge_key_reindexed [OF incoming_distinct(1) [OF assms(1,2)] this assms(3), of kind] e(2)
  show ?thesis by (simp add: reindexed_def st)
qed

text \<open>After reindexing, the keys of each of the kinds are \<open>0, 1, ..., n - 1\<close>, one for each relation.\<close>

lemma reindexed_contiguous:
  assumes "distinct (map (\<lambda>e. (e_source e, e_sink e)) es)" "mset incoming = mset (filter (\<lambda>e. e_sink e = sink) es)"
    "distinct kinds" "kind \<in> set kinds"
  shows "mset (sink_keys kind sink (map (reindexed kinds incoming sink) es)) =
    mset (map of_nat [0..<length (sink_keys kind sink es)])"
proof -
  let ?in = "filter (\<lambda>e. e_sink e = sink) es"
  let ?ks = "kind_set_of kind incoming"
  let ?r = "\<lambda>e. map_option (\<lambda>_. of_nat (rank kind incoming (e_source e)) :: u16) (edge_key kind e)"
  have "sink_keys kind sink (map (reindexed kinds incoming sink) es) =
      List.map_filter (\<lambda>e. edge_key kind (reindexed kinds incoming sink e)) ?in"
    by (simp add: sink_keys_def filter_map comp_def List.map_filter_def)
  also have "\<dots> = List.map_filter ?r ?in"
    using reindexed_keys [OF assms(1-3), of _ kind] assms(4)
    by (intro map_filter_eq) simp
  finally have "mset (sink_keys kind sink (map (reindexed kinds incoming sink) es)) =
      mset (List.map_filter ?r incoming)"
    using mset_map_filter [OF assms(2), of ?r] by simp
  also have "\<dots> = mset (map (\<lambda>(s, _). of_nat (rank kind incoming s) :: u16) ?ks)"
    using map_filter_keys [of "\<lambda>s. of_nat (rank kind incoming s) :: u16" kind incoming]
    by (simp add: kind_set_of_def)
  also have "map (\<lambda>(s, _). of_nat (rank kind incoming s) :: u16) ?ks = map of_nat [0..<length ?ks]"
    using ranks_enumerate [OF kind_set_distinct [OF incoming_distinct(1) [OF assms(1,2)], of kind], symmetric]
    by (simp add: rank_def comp_def case_prod_beta)
  also have "length ?ks = length (sink_keys kind sink es)"
  proof -
    have "size (mset (List.map_filter (edge_key kind) incoming)) = size (mset (List.map_filter (edge_key kind) ?in))"
      by (rule arg_cong [OF mset_map_filter [OF assms(2)]])
    moreover have "length ?ks = length (List.map_filter (edge_key kind) incoming)"
      by (simp add: kind_set_of_def List.map_filter_def comp_def option.map_disc_iff)
    ultimately show ?thesis by (simp add: sink_keys_def)
  qed
  finally show ?thesis .
qed

section \<open>The shape of the store\<close>

text \<open>
  Between two operations a clean index knows exactly the nodes of the graph, and these are the nodes
  with a state. Inside one, a state may be new to a clean index.
\<close>

definition base_shape :: "'p belief_base \<Rightarrow> bool" where
  "base_shape B \<longleftrightarrow>
     keyed (bb_graph B) \<and> distinct (g_nodes (bb_relations B))
     \<and> set (g_nodes (bb_relations B)) \<subseteq> keys (bb_graph B)
     \<and> distinct (arcs (bb_relations B))
     \<and> list_all (\<lambda>e. e_source e \<in> set (g_nodes (bb_relations B)) \<and> e_sink e \<in> set (g_nodes (bb_relations B)))
         (g_edges (bb_relations B))
     \<and> (bb_index_dirty B \<or> set (bb_index B) = set (g_nodes (bb_relations B)))"

definition base_inv :: "'p belief_base \<Rightarrow> bool" where
  "base_inv B \<longleftrightarrow>
     base_shape B \<and> (bb_index_dirty B \<or> keys (bb_graph B) \<subseteq> set (g_nodes (bb_relations B)))"

lemma keys_bb: "keys (bb_graph B) = fst ` set (bb_states B)"
  by (simp add: keys_def)

lemma base_inv_ok:
  "base_inv B \<Longrightarrow> list_all (\<lambda>e. e_source e \<noteq> e_sink e) (g_edges (bb_relations B)) \<Longrightarrow> base_ok B"
  by (auto simp: base_inv_def base_shape_def base_ok_def graph_ok_def keyed_def list_all_iff)

lemma index_nodes_inv:
  assumes "base_shape B"
  shows "base_inv (index_nodes B) \<and> set (bb_index (index_nodes B)) = keys (bb_graph B)"
proof -
  have "distinct (map fst (bb_states B))"
    using assms bm_ok_distinct by (auto simp: base_shape_def keyed_def)
  then show ?thesis
    using assms unfolding base_inv_def base_shape_def index_nodes_def keyed_def keys_def
    by (auto simp: bm_keys_def Let_def list_all_iff arcs_def)
qed

lemma index_sync_fields [simp]:
  "bb_states (index_sync B) = bb_states B" "g_edges (bb_relations (index_sync B)) = g_edges (bb_relations B)"
  "bb_paths (index_sync B) = bb_paths B" "bb_brefs (index_sync B) = bb_brefs B"
  "\<not> bb_index_dirty (index_sync B)" "bb_errors (index_sync B) = bb_errors B"
  by (simp_all add: index_sync_def index_nodes_def Let_def)

lemma index_sync_inv:
  assumes "base_inv B"
  shows "base_inv (index_sync B)" "set (bb_index (index_sync B)) = keys (bb_graph B)"
    "set (g_nodes (bb_relations (index_sync B))) = keys (bb_graph B)"
proof -
  show 1: "base_inv (index_sync B)" and 2: "set (bb_index (index_sync B)) = keys (bb_graph B)"
    using assms index_nodes_inv [of B] unfolding index_sync_def base_inv_def base_shape_def by auto
  have "keys (bb_graph (index_sync B)) = keys (bb_graph B)" by (simp add: keys_def)
  then show "set (g_nodes (bb_relations (index_sync B))) = keys (bb_graph B)"
    using 1 2 unfolding base_inv_def base_shape_def by auto
qed

definition set_edges :: "edge list \<Rightarrow> 'p belief_base \<Rightarrow> 'p belief_base" where
  "set_edges es B = B\<lparr>bb_relations := (bb_relations B)\<lparr>g_edges := es\<rparr>\<rparr>"

lemma set_edges_fields [simp]:
  "bb_states (set_edges es B) = bb_states B" "g_edges (bb_relations (set_edges es B)) = es"
  "g_nodes (bb_relations (set_edges es B)) = g_nodes (bb_relations B)"
  "bb_index (set_edges es B) = bb_index B" "bb_index_dirty (set_edges es B) = bb_index_dirty B"
  "bb_brefs (set_edges es B) = bb_brefs B" "bb_paths (set_edges es B) = bb_paths B"
  by (simp_all add: set_edges_def)

lemma set_edges_inv:
  assumes "base_inv B" "distinct (map (\<lambda>e. (e_source e, e_sink e)) es)"
    "\<And>e. e \<in> set es \<Longrightarrow> e_source e \<in> set (g_nodes (bb_relations B)) \<and> e_sink e \<in> set (g_nodes (bb_relations B))"
  shows "base_inv (set_edges es B)"
  using assms unfolding base_inv_def base_shape_def keyed_def keys_def
  by (simp add: arcs_def list_all_iff)

lemma base_inv_edges:
  assumes "base_inv B"
  shows "distinct (map (\<lambda>e. (e_source e, e_sink e)) (g_edges (bb_relations B)))"
    "e \<in> set (g_edges (bb_relations B)) \<Longrightarrow>
      e_source e \<in> set (g_nodes (bb_relations B)) \<and> e_sink e \<in> set (g_nodes (bb_relations B))"
  using assms unfolding base_inv_def base_shape_def by (auto simp: arcs_def list_all_iff)

lemma reindexed_none [simp]: "reindexed [] incoming sink e = e"
  using edge_eq [of e] by (auto simp: reindexed_def changed_indices_def set_indices_def)

lemma set_edges_self: "g_edges (bb_relations B) = es \<Longrightarrow> set_edges es B = B"
  by (auto simp: set_edges_def)

text \<open>Reindexing changes the weights of the edges into the sink, and nothing else.\<close>

lemma reindex_sink_edges_eq:
  assumes "base_inv B" "edges_in_ok P"
  shows "\<exists>incoming. mset incoming = mset (filter (\<lambda>e. e_sink e = sink) (g_edges (bb_relations B)))
    \<and> fst (reindex_sink_edges P sink kinds B) =
        set_edges (map (reindexed kinds incoming sink) (g_edges (bb_relations B)))
          (if kinds = [] then B else index_sync B)"
proof -
  let ?es = "g_edges (bb_relations B)"
  let ?in = "edges_in P ?es sink"
  have inc: "mset ?in = mset (filter (\<lambda>e. e_sink e = sink) ?es)"
    using assms(2) by (simp add: edges_in_ok_def)
  have self: "set_edges ?es B = B" "set_edges ?es (index_sync B) = index_sync B"
    by (simp_all add: set_edges_self)
  consider "kinds = []" | "kinds \<noteq> []" "sink \<notin> keys (bb_graph B)" | "kinds \<noteq> []" "sink \<in> keys (bb_graph B)"
    by blast
  then have "fst (reindex_sink_edges P sink kinds B) =
      set_edges (map (reindexed kinds ?in sink) ?es) (if kinds = [] then B else index_sync B)"
  proof cases
    case 1
    have "map (reindexed [] ?in sink) ?es = ?es" by (intro map_idI) simp
    with 1 self show ?thesis by (simp add: reindex_sink_edges_def)
  next
    case 2
    have "e_sink e \<noteq> sink" if "e \<in> set ?es" for e
      using base_inv_edges(2) [OF assms(1) that] 2(2) assms(1)
      unfolding base_inv_def base_shape_def by blast
    then have "map (reindexed kinds ?in sink) ?es = ?es"
      by (intro map_idI) (simp add: reindexed_def)
    with 2 self index_sync_inv(2) [OF assms(1)] show ?thesis
      by (simp add: reindex_sink_edges_def Let_def)
  next
    case 3
    have "fst (fold (reindex_edge kinds ?in sink)
        (changed_sources kinds ?in (g_nodes (bb_relations (index_sync B)))) (?es, []))
      = map (reindexed kinds ?in sink) ?es"
      using incoming_distinct(2) [OF base_inv_edges(1) [OF assms(1)] inc]
      by (intro reindex_all_edges [OF base_inv_edges(1) [OF assms(1)]]) simp_all
    with 3 index_sync_inv(2) [OF assms(1)] show ?thesis
      by (simp add: reindex_sink_edges_def Let_def set_edges_def case_prod_beta)
  qed
  with inc show ?thesis by blast
qed

lemma map_reindexed_arcs [simp]:
  "map (\<lambda>e. (e_source e, e_sink e)) (map (reindexed kinds incoming sink) es) =
     map (\<lambda>e. (e_source e, e_sink e)) es"
  by simp

lemma reindex_sink_edges_inv:
  assumes "base_inv B" "edges_in_ok P"
  shows "base_inv (fst (reindex_sink_edges P sink kinds B))"
proof -
  obtain incoming where eq: "fst (reindex_sink_edges P sink kinds B) =
        set_edges (map (reindexed kinds incoming sink) (g_edges (bb_relations B)))
          (if kinds = [] then B else index_sync B)"
    using reindex_sink_edges_eq [OF assms] by blast
  have i: "base_inv (if kinds = [] then B else index_sync B)"
    using assms(1) index_sync_inv(1) by auto
  have "g_edges (bb_relations (if kinds = [] then B else index_sync B)) = g_edges (bb_relations B)" by simp
  then show ?thesis unfolding eq
    using base_inv_edges [OF i] by (intro set_edges_inv [OF i]) (auto simp: comp_def)
qed

section \<open>Updating a relation\<close>

lemma remove_edge_at_perm: "i < length es \<Longrightarrow> mset (es ! i # remove_edge_at i es) = mset es"
  by (simp add: mset_remove_edge_at)

lemma remove_edge_at_sub:
  "set (remove_edge_at i es) \<subseteq> set es"
  "distinct (map f es) \<Longrightarrow> distinct (map f (remove_edge_at i es))"
proof -
  have "set (remove_edge_at i es) \<subseteq> set es \<and> (distinct (map f es) \<longrightarrow> distinct (map f (remove_edge_at i es)))"
  proof (cases "i < length es")
    case True
    note perm = remove_edge_at_perm [OF True]
    have "set (es ! i # remove_edge_at i es) = set es" using mset_eq_setD [OF perm] .
    moreover have "mset (map f (es ! i # remove_edge_at i es)) = mset (map f es)"
      using perm by (metis mset_map)
    then have "distinct (map f (es ! i # remove_edge_at i es)) = distinct (map f es)"
      by (rule mset_eq_imp_distinct_iff)
    ultimately show ?thesis by auto
  next
    case False
    then show ?thesis by (simp add: remove_edge_at_def)
  qed
  then show "set (remove_edge_at i es) \<subseteq> set es"
    "distinct (map f es) \<Longrightarrow> distinct (map f (remove_edge_at i es))" by blast+
qed

lemma remove_edge_sub:
  "set (remove_edge s t es) \<subseteq> set es"
  "distinct (map f es) \<Longrightarrow> distinct (map f (remove_edge s t es))"
  unfolding remove_edge_def by (rule remove_edge_at_sub(1), rule remove_edge_at_sub(2))

definition relation_edges :: "bid \<Rightarrow> bid \<Rightarrow> weight_set \<Rightarrow> edge list \<Rightarrow> edge list" where
  "relation_edges s t ws es =
     (if ws_is_empty ws then (if edge_weight es s t \<noteq> None then remove_edge s t es else es)
      else update_edge s t ws es)"

definition lost_kinds :: "bid \<Rightarrow> bid \<Rightarrow> weight_set \<Rightarrow> edge list \<Rightarrow> weight_kind list" where
  "lost_kinds s t ws es = bm_keys (weights (ws_difference (unwrap_or (edge_weight es s t) ws_empty) ws))"

lemma lost_kinds_distinct: "distinct (lost_kinds s t ws es)"
proof -
  have "bm_ok (weights (ws_difference a ws))" for a using ws_ok_ops(3) by (simp add: ws_ok_def)
  from bm_ok_distinct [OF this] show ?thesis by (simp add: lost_kinds_def bm_keys_def)
qed

lemma lost_kinds_mem:
  "edge_weight es s t = Some old \<Longrightarrow> ws_ok old \<Longrightarrow>
     kind \<in> set (lost_kinds s t ws es) \<longleftrightarrow> ws_get old kind \<noteq> None \<and> ws_get ws kind = None"
  using ws_get_difference [of old ws kind]
  by (simp add: lost_kinds_def mem_bm_keys ws_get_def split: if_splits)

lemma relation_edges_ok:
  assumes "distinct (map (\<lambda>e. (e_source e, e_sink e)) es)"
  shows "distinct (map (\<lambda>e. (e_source e, e_sink e)) (relation_edges s t ws es))"
    "set (relation_edges s t ws es) \<subseteq> insert (s, t, ws) (set es)"
proof -
  have "distinct (map (\<lambda>e. (e_source e, e_sink e)) (update_edge s t ws es))"
    using assms by (simp add: arcs_update_edge Let_def)
  then show "distinct (map (\<lambda>e. (e_source e, e_sink e)) (relation_edges s t ws es))"
    using assms by (simp add: relation_edges_def remove_edge_sub(2))
  show "set (relation_edges s t ws es) \<subseteq> insert (s, t, ws) (set es)"
    using remove_edge_sub(1) [of s t es] set_update_edge [of s t ws es]
    by (auto simp: relation_edges_def)
qed

lemma update_relation_unfold:
  assumes "base_inv B"
  shows "update_relation P s t ws B =
    (if s \<in> keys (bb_graph B) \<and> t \<in> keys (bb_graph B)
     then reindex_sink_edges P t (lost_kinds s t ws (g_edges (bb_relations B)))
       (set_edges (relation_edges s t ws (g_edges (bb_relations B))) (index_sync B))
     else (index_sync B, []))"
  using index_sync_inv(2) [OF assms]
  by (auto simp: update_relation_def Let_def lost_kinds_def relation_edges_def set_edges_def)

lemma updated_edges_inv:
  assumes "base_inv B" "s \<in> keys (bb_graph B)" "t \<in> keys (bb_graph B)"
  shows "base_inv (set_edges (relation_edges s t ws (g_edges (bb_relations B))) (index_sync B))"
proof (rule set_edges_inv [OF index_sync_inv(1) [OF assms(1)]])
  let ?es = "g_edges (bb_relations B)"
  show "distinct (map (\<lambda>e. (e_source e, e_sink e)) (relation_edges s t ws ?es))"
    by (rule relation_edges_ok(1) [OF base_inv_edges(1) [OF assms(1)]])
  fix e assume "e \<in> set (relation_edges s t ws ?es)"
  then have "e = (s, t, ws) \<or> e \<in> set (g_edges (bb_relations (index_sync B)))"
    using relation_edges_ok(2) [OF base_inv_edges(1) [OF assms(1)]] by auto
  then show "e_source e \<in> set (g_nodes (bb_relations (index_sync B)))
      \<and> e_sink e \<in> set (g_nodes (bb_relations (index_sync B)))"
    using base_inv_edges(2) [OF index_sync_inv(1) [OF assms(1)], of e] index_sync_inv(3) [OF assms(1)] assms(2,3)
    by (elim disjE) simp_all
qed

lemma update_relation_inv:
  assumes "base_inv B" "edges_in_ok P"
  shows "base_inv (fst (update_relation P s t ws B))"
proof (cases "s \<in> keys (bb_graph B) \<and> t \<in> keys (bb_graph B)")
  case True
  then have "base_inv (set_edges (relation_edges s t ws (g_edges (bb_relations B))) (index_sync B))"
    using updated_edges_inv [OF assms(1)] by blast
  from reindex_sink_edges_inv [OF this assms(2)] True show ?thesis
    by (simp add: update_relation_unfold [OF assms(1)])
next
  case False
  then show ?thesis
    by (simp only: update_relation_unfold [OF assms(1)] if_False fst_conv index_sync_inv(1) [OF assms(1)])
qed

lemma reindexed_sink_keys:
  assumes "base_inv B" "edges_in_ok P" "distinct kinds"
  shows "kind \<in> set kinds \<Longrightarrow>
      mset (sink_keys kind t (g_edges (bb_relations (fst (reindex_sink_edges P t kinds B))))) =
      mset (map of_nat [0..<length (sink_keys kind t (g_edges (bb_relations B)))])"
    "u \<noteq> t \<Longrightarrow>
      sink_keys kind u (g_edges (bb_relations (fst (reindex_sink_edges P t kinds B)))) =
      sink_keys kind u (g_edges (bb_relations B))"
proof -
  let ?es = "g_edges (bb_relations B)"
  obtain incoming where inc: "mset incoming = mset (filter (\<lambda>e. e_sink e = t) ?es)"
    and eq: "fst (reindex_sink_edges P t kinds B) =
        set_edges (map (reindexed kinds incoming t) ?es) (if kinds = [] then B else index_sync B)"
    using reindex_sink_edges_eq [OF assms(1,2)] by blast
  show "kind \<in> set kinds \<Longrightarrow>
      mset (sink_keys kind t (g_edges (bb_relations (fst (reindex_sink_edges P t kinds B))))) =
      mset (map of_nat [0..<length (sink_keys kind t ?es)])"
    unfolding eq using reindexed_contiguous [OF base_inv_edges(1) [OF assms(1)] inc assms(3)] by simp
  assume "u \<noteq> t"
  then have "filter (\<lambda>e. e_sink e = u) (map (reindexed kinds incoming t) es) = filter (\<lambda>e. e_sink e = u) es" for es
    by (induction es) (auto simp: reindexed_def)
  then show "sink_keys kind u (g_edges (bb_relations (fst (reindex_sink_edges P t kinds B)))) =
      sink_keys kind u ?es" unfolding eq sink_keys_def by simp
qed

lemma contiguous_mset:
  assumes "mset ks = mset (map of_nat [0..<length ks])" "length ks < 2 ^ 16"
  shows "contiguous (ks :: u16 list)"
proof -
  have "sorted (map (of_nat :: nat \<Rightarrow> u16) [0..<length ks])"
    unfolding sorted_wrt_iff_nth_less
    using assms(2) by (auto simp: word_le_nat_alt unat_of_nat take_bit_nat_eq_self)
  from properties_for_sort [OF assms(1) [symmetric] this]
  have "sort ks = map of_nat [0..<length ks]" .
  moreover have "unat (of_nat (length ks) :: u16) = length ks"
    using assms(2) by (simp add: unat_of_nat take_bit_nat_eq_self)
  ultimately show ?thesis by (simp add: contiguous_def)
qed

lemma mset_upt_self:
  "mset ks = mset (map f [0..<n]) \<Longrightarrow> mset ks = mset (map f [0..<length ks])"
  using mset_eq_length [of ks "map f [0..<n]"] by simp

section \<open>Removing nodes\<close>

text \<open>The two loops of \<open>sinks_of\<close> are one loop over the edges they visit.\<close>

definition note_kinds :: "edge \<Rightarrow> (bid, weight_kind list) bmap \<Rightarrow> (bid, weight_kind list) bmap" where
  "note_kinds e m =
     bm_insert (e_sink e)
       (fold bs_insert (bm_keys (weights (e_weights e))) (unwrap_or (bm_get m (e_sink e)) [])) m"

lemma sinks_of_fold:
  "sinks_of bids es = fold note_kinds (concat (map (\<lambda>b. filter (\<lambda>e. e_source e = b) es) bids)) []"
proof -
  have "fold (\<lambda>b m. fold note_kinds (filter (\<lambda>e. e_source e = b) es) m) bids m =
      fold note_kinds (concat (map (\<lambda>b. filter (\<lambda>e. e_source e = b) es) bids)) m" for m
    by (induction bids arbitrary: m) simp_all
  then show ?thesis unfolding sinks_of_def note_kinds_def by blast
qed

lemma note_kinds_fold:
  "bm_ok m \<Longrightarrow> bm_ok (fold note_kinds es m)"
  "set (unwrap_or (bm_get (fold note_kinds es m) t) []) =
     set (unwrap_or (bm_get m t) []) \<union> (\<Union>e\<in>{e \<in> set es. e_sink e = t}. set (bm_keys (weights (e_weights e))))"
  "\<forall>t. bs_ok (unwrap_or (bm_get m t) []) \<Longrightarrow> bs_ok (unwrap_or (bm_get (fold note_kinds es m) t) [])"
proof -
  show "bm_ok m \<Longrightarrow> bm_ok (fold note_kinds es m)"
    by (induction es arbitrary: m) (simp_all add: note_kinds_def)
  show "set (unwrap_or (bm_get (fold note_kinds es m) t) []) =
     set (unwrap_or (bm_get m t) []) \<union> (\<Union>e\<in>{e \<in> set es. e_sink e = t}. set (bm_keys (weights (e_weights e))))"
  proof (induction es arbitrary: m)
    case (Cons e es)
    have "set (unwrap_or (bm_get (note_kinds e m) t) []) =
        set (unwrap_or (bm_get m t) []) \<union> (if e_sink e = t then set (bm_keys (weights (e_weights e))) else {})"
      by (auto simp: note_kinds_def set_fold_bs_insert)
    with Cons [of "note_kinds e m"] show ?case by auto
  qed simp
  show "\<forall>t. bs_ok (unwrap_or (bm_get m t) []) \<Longrightarrow> bs_ok (unwrap_or (bm_get (fold note_kinds es m) t) [])"
  proof (induction es arbitrary: m)
    case (Cons e es)
    have "\<forall>t. bs_ok (unwrap_or (bm_get (note_kinds e m) t) [])"
      using Cons.prems by (auto simp: note_kinds_def intro: bs_ok_fold_insert)
    from Cons.IH [OF this] show ?case by simp
  qed simp
qed

lemma bs_ok_Nil [simp]: "bs_ok []"
  by (simp add: bs_ok_def)

lemma sinks_of_spec:
  "distinct (map fst (sinks_of bids es))"
  "(t, kinds) \<in> set (sinks_of bids es) \<Longrightarrow> distinct kinds"
  "e \<in> set es \<Longrightarrow> e_source e \<in> set bids \<Longrightarrow> ws_get (e_weights e) kind \<noteq> None \<Longrightarrow>
     \<exists>kinds. (e_sink e, kinds) \<in> set (sinks_of bids es) \<and> kind \<in> set kinds"
proof -
  let ?es = "concat (map (\<lambda>b. filter (\<lambda>e. e_source e = b) es) bids)"
  have ok: "bm_ok (sinks_of bids es)" unfolding sinks_of_fold by (rule note_kinds_fold(1)) simp
  then show "distinct (map fst (sinks_of bids es))" by (rule bm_ok_distinct)
  show "distinct kinds" if "(t, kinds) \<in> set (sinks_of bids es)"
  proof -
    have "bs_ok (unwrap_or (bm_get (sinks_of bids es) t) [])"
      unfolding sinks_of_fold by (rule note_kinds_fold(3)) simp
    with that ok show ?thesis by (simp add: bm_ok_get_iff [symmetric] bs_ok_distinct)
  qed
  show "\<exists>kinds. (e_sink e, kinds) \<in> set (sinks_of bids es) \<and> kind \<in> set kinds"
    if e: "e \<in> set es" "e_source e \<in> set bids" "ws_get (e_weights e) kind \<noteq> None"
  proof -
    have "e \<in> set ?es" using e by auto
    moreover have "kind \<in> set (bm_keys (weights (e_weights e)))" using e(3) by (simp add: mem_bm_keys ws_get_def)
    ultimately have "kind \<in> set (unwrap_or (bm_get (sinks_of bids es) (e_sink e)) [])"
      unfolding sinks_of_fold note_kinds_fold(2) by blast
    then obtain kinds where "bm_get (sinks_of bids es) (e_sink e) = Some kinds" "kind \<in> set kinds"
      by (cases "bm_get (sinks_of bids es) (e_sink e)") simp_all
    with bm_get_in show ?thesis by fast
  qed
qed

lemma reindex_sinks_step:
  "fst (reindex_sinks P ((t, kinds) # sks) (B, events)) =
     fst (reindex_sinks P sks (fst (reindex_sink_edges P t kinds B), events @ snd (reindex_sink_edges P t kinds B)))"
  by (simp add: reindex_sinks_def case_prod_beta)

lemma reindex_sink_fields:
  assumes "base_inv B" "edges_in_ok P"
  shows "bb_states (fst (reindex_sink_edges P t kinds B)) = bb_states B"
    "arcs (bb_relations (fst (reindex_sink_edges P t kinds B))) = arcs (bb_relations B)"
    "bb_brefs (fst (reindex_sink_edges P t kinds B)) = bb_brefs B"
proof -
  obtain incoming where eq: "fst (reindex_sink_edges P t kinds B) =
        set_edges (map (reindexed kinds incoming t) (g_edges (bb_relations B)))
          (if kinds = [] then B else index_sync B)"
    using reindex_sink_edges_eq [OF assms] by blast
  show "bb_states (fst (reindex_sink_edges P t kinds B)) = bb_states B"
    "arcs (bb_relations (fst (reindex_sink_edges P t kinds B))) = arcs (bb_relations B)"
    "bb_brefs (fst (reindex_sink_edges P t kinds B)) = bb_brefs B"
    unfolding eq by (simp_all add: arcs_def)
qed

lemma reindex_sinks_inv:
  assumes "base_inv B" "edges_in_ok P"
  shows "base_inv (fst (reindex_sinks P sks (B, events)))
    \<and> bb_states (fst (reindex_sinks P sks (B, events))) = bb_states B
    \<and> arcs (bb_relations (fst (reindex_sinks P sks (B, events)))) = arcs (bb_relations B)
    \<and> bb_brefs (fst (reindex_sinks P sks (B, events))) = bb_brefs B"
  using assms(1)
proof (induction sks arbitrary: B events)
  case Nil
  then show ?case by (simp add: reindex_sinks_def)
next
  case (Cons sk sks)
  obtain t kinds where sk: "sk = (t, kinds)" by (cases sk)
  show ?case unfolding sk reindex_sinks_step
    using Cons.IH [OF reindex_sink_edges_inv [OF Cons.prems assms(2)]]
      reindex_sink_fields [OF Cons.prems assms(2)] by simp
qed

lemma reindex_sinks_keys:
  assumes "base_inv B" "edges_in_ok P" "distinct (map fst sks)" "\<forall>(t, kinds)\<in>set sks. distinct kinds"
  shows "t \<notin> fst ` set sks \<Longrightarrow>
      sink_keys kind t (g_edges (bb_relations (fst (reindex_sinks P sks (B, events))))) =
      sink_keys kind t (g_edges (bb_relations B))"
    and "(t, kinds) \<in> set sks \<Longrightarrow> kind \<in> set kinds \<Longrightarrow>
      mset (sink_keys kind t (g_edges (bb_relations (fst (reindex_sinks P sks (B, events)))))) =
      mset (map of_nat [0..<length (sink_keys kind t (g_edges (bb_relations B)))])"
  using assms(1,3,4)
proof (induction sks arbitrary: B events)
  case Nil
  { case 1 then show ?case by (simp add: reindex_sinks_def) next case 2 then show ?case by simp }
next
  case (Cons sk sks)
  obtain u ks where sk: "sk = (u, ks)" by (cases sk)
  {
    case 1
    then have "base_inv B" "distinct ks" by (auto simp: sk)
    with 1 Cons.IH(1) [of "fst (reindex_sink_edges P u ks B)"] reindexed_sink_keys(2) [OF _ assms(2), of B ks t u kind]
      reindex_sink_edges_inv [OF _ assms(2)]
    show ?case unfolding sk reindex_sinks_step by simp
  next
    case 2
    then have inv: "base_inv B" and d: "distinct ks" by (auto simp: sk)
    note inv' = reindex_sink_edges_inv [OF inv assms(2), of u ks]
    show ?case
    proof (cases "t = u")
      case True
      with 2 have "kinds = ks" by (auto simp: sk rev_image_eqI)
      have "t \<notin> fst ` set sks" using 2 True by (simp add: sk)
      with 2 Cons.IH(1) [OF this inv'] reindexed_sink_keys(1) [OF inv assms(2) d, of kind u] True \<open>kinds = ks\<close>
      show ?thesis unfolding sk reindex_sinks_step by simp
    next
      case False
      with 2 have "(t, kinds) \<in> set sks" by (simp add: sk)
      from Cons.IH(2) [OF this _ inv'] 2 reindexed_sink_keys(2) [OF inv assms(2) d False, of kind]
      show ?thesis unfolding sk reindex_sinks_step by simp
    qed
  }
qed

lemma forget_states_fields:
  "bb_states (forget_states X bids B) = filter (\<lambda>(k, _). k \<notin> set bids) (bb_states B)"
  "bb_relations (forget_states X bids B) = bb_relations B"
  "bb_index (forget_states X bids B) = bb_index B"
  "bb_index_dirty (forget_states X bids B) = bb_index_dirty B"
  "bb_paths (forget_states X bids B) = bb_paths B"
proof -
  have one: "(if bm_contains m b then bm_remove b m else m) = filter (\<lambda>(k, _). k \<noteq> b) m"
    for b and m :: "(bid, node) bmap"
  proof (cases "b \<in> fst ` set m")
    case True
    then show ?thesis by (auto simp: bm_remove_def bm_contains_iff intro!: filter_cong)
  next
    case False
    then have "filter (\<lambda>(k, _). k \<noteq> b) m = m" by (intro filter_True) force
    with False show ?thesis by (simp add: bm_contains_iff)
  qed
  show "bb_states (forget_states X bids B) = filter (\<lambda>(k, _). k \<notin> set bids) (bb_states B)"
  proof (induction bids arbitrary: B)
    case (Cons b bids)
    let ?B = "if bm_contains (bb_states B) b
        then B\<lparr>bb_states := bm_remove b (bb_states B), bb_brefs := bm_remove (bref_of X b) (bb_brefs B)\<rparr>
        else B"
    have "bb_states ?B = filter (\<lambda>(k, _). k \<noteq> b) (bb_states B)"
      using one [of "bb_states B" b] by (auto split: if_splits)
    moreover have "forget_states X (b # bids) B = forget_states X bids ?B" by (simp add: forget_states_def)
    ultimately show ?case using Cons [of ?B]
      by (auto simp: case_prod_beta intro!: filter_cong)
  qed (simp add: forget_states_def)
  show "bb_relations (forget_states X bids B) = bb_relations B"
    "bb_index (forget_states X bids B) = bb_index B"
    "bb_index_dirty (forget_states X bids B) = bb_index_dirty B"
    "bb_paths (forget_states X bids B) = bb_paths B"
    by (induction bids arbitrary: B; simp add: forget_states_def)+
qed

definition without_nodes :: "'a id_ext_scheme \<Rightarrow> bid list \<Rightarrow> 'p belief_base \<Rightarrow> 'p belief_base" where
  "without_nodes X bids B =
     (let B = forget_states X bids (index_sync B)
      in B\<lparr>bb_relations := remove_graph_nodes bids (bb_relations B), bb_index_dirty := True\<rparr>)"

lemma without_nodes_inv:
  assumes "base_inv B"
  shows "base_inv (without_nodes X bids B)"
proof -
  have k: "fst ` {x \<in> S. case x of (k, _) \<Rightarrow> k \<notin> A} = fst ` S - A" for S :: "(bid \<times> node) set" and A
    by force
  show ?thesis
    using index_sync_inv(1) [OF assms] distinct_map_filter
    unfolding base_inv_def base_shape_def keyed_def keys_def without_nodes_def
    by (auto simp: Let_def forget_states_fields remove_graph_nodes_def list_all_iff arcs_def k)
qed

lemma remove_nodes_unfold:
  "bids \<noteq> [] \<Longrightarrow> remove_nodes X P bids B =
     reindex_sinks P (sinks_of (filter (\<lambda>b. b \<in> set (bb_index (index_sync B))) bids)
       (g_edges (bb_relations B))) (without_nodes X bids B, [])"
  by (simp add: remove_nodes_def without_nodes_def Let_def forget_states_fields)

lemma remove_nodes_inv:
  assumes "base_inv B" "edges_in_ok P"
  shows "base_inv (fst (remove_nodes X P bids B))"
proof (cases "bids = []")
  case False
  show ?thesis
    unfolding remove_nodes_unfold [OF False]
    using reindex_sinks_inv [OF without_nodes_inv [OF assms(1)] assms(2)] by blast
qed (simp add: remove_nodes_def assms)

lemma remove_nodes_fields:
  assumes "base_inv B" "edges_in_ok P"
  shows "bb_states (fst (remove_nodes X P bids B)) = filter (\<lambda>(k, _). k \<notin> set bids) (bb_states B)"
    "arcs (bb_relations (fst (remove_nodes X P bids B))) =
       filter (\<lambda>(s, t). s \<notin> set bids \<and> t \<notin> set bids) (arcs (bb_relations B))"
proof -
  note r = reindex_sinks_inv [OF without_nodes_inv [OF assms(1), of X bids] assms(2)]
  have a: "arcs (remove_graph_nodes bids g) = filter (\<lambda>(s, t). s \<notin> set bids \<and> t \<notin> set bids) (arcs g)" for g
    by (simp add: arcs_def remove_graph_nodes_def filter_map comp_def)
  show "bb_states (fst (remove_nodes X P bids B)) = filter (\<lambda>(k, _). k \<notin> set bids) (bb_states B)"
    using r by (cases "bids = []")
      (simp_all add: remove_nodes_unfold, simp_all add: remove_nodes_def without_nodes_def Let_def forget_states_fields)
  have "arcs (bb_relations (without_nodes X bids B)) =
      filter (\<lambda>(s, t). s \<notin> set bids \<and> t \<notin> set bids) (arcs (bb_relations B))"
    by (simp add: without_nodes_def Let_def forget_states_fields a) (simp add: arcs_def)
  then show "arcs (bb_relations (fst (remove_nodes X P bids B))) =
       filter (\<lambda>(s, t). s \<notin> set bids \<and> t \<notin> set bids) (arcs (bb_relations B))"
    using r by (cases "bids = []") (simp_all add: remove_nodes_unfold, simp add: remove_nodes_def)
qed

text \<open>The sinks that lose a relation to the removal keep contiguous keys.\<close>

lemma remove_nodes_keys:
  assumes "base_inv B" "edges_in_ok P"
    "e \<in> set (g_edges (bb_relations B))" "e_source e \<in> set bids" "ws_get (e_weights e) kind \<noteq> None"
  shows "mset (sink_keys kind (e_sink e) (g_edges (bb_relations (fst (remove_nodes X P bids B))))) =
    mset (map of_nat [0..<length (sink_keys kind (e_sink e)
      (g_edges (bb_relations (fst (remove_nodes X P bids B)))))])"
proof -
  let ?W = "without_nodes X bids B"
  let ?sks = "sinks_of (filter (\<lambda>b. b \<in> set (bb_index (index_sync B))) bids) (g_edges (bb_relations B))"
  have "e_source e \<in> set (g_nodes (bb_relations B))" using base_inv_edges(2) [OF assms(1,3)] by blast
  then have "e_source e \<in> set (bb_index (index_sync B))"
    using assms(1) index_sync_inv(2) [OF assms(1)] by (auto simp: base_inv_def base_shape_def)
  with assms(4) have src: "e_source e \<in> set (filter (\<lambda>b. b \<in> set (bb_index (index_sync B))) bids)" by simp
  obtain kinds where k: "(e_sink e, kinds) \<in> set ?sks" "kind \<in> set kinds"
    using sinks_of_spec(3) [OF assms(3) src assms(5)] by blast
  have d: "\<forall>(t, kinds)\<in>set ?sks. distinct kinds" using sinks_of_spec(2) by blast
  have "mset (sink_keys kind (e_sink e) (g_edges (bb_relations (fst (reindex_sinks P ?sks (?W, []))))))
      = mset (map of_nat [0..<length (sink_keys kind (e_sink e) (g_edges (bb_relations ?W)))])"
    by (rule reindex_sinks_keys(2) [OF without_nodes_inv [OF assms(1)] assms(2) sinks_of_spec(1) d k])
  from mset_upt_self [OF this] show ?thesis
    using assms(4) by (cases "bids = []") (simp_all only: remove_nodes_unfold not_False_eq_True list.set empty_iff)
qed

section \<open>Inserting nodes\<close>

definition edges_good :: "bid list \<Rightarrow> edge list \<Rightarrow> bool" where
  "edges_good nodes es \<longleftrightarrow>
     distinct (map (\<lambda>e. (e_source e, e_sink e)) es)
     \<and> list_all (\<lambda>e. e_source e \<in> set nodes \<and> e_sink e \<in> set nodes) es"

lemma edges_good_sub:
  "edges_good nodes es \<Longrightarrow> edges_good nodes (remove_edge s t es)"
  using remove_edge_sub(1) [of s t es] remove_edge_sub(2) [of "\<lambda>e. (e_source e, e_sink e)" es s t]
  by (auto simp: edges_good_def list_all_iff)

lemma edges_good_update:
  "edges_good nodes es \<Longrightarrow> s \<in> set nodes \<Longrightarrow> t \<in> set nodes \<Longrightarrow> edges_good nodes (update_edge s t w es)"
  using set_update_edge [of s t w es]
  by (fastforce simp: edges_good_def list_all_iff arcs_update_edge Let_def simp del: split_paired_All)

lemma edge_weight_good:
  assumes "edges_good nodes es" "edge_weight es s t = Some w"
  shows "s \<in> set nodes \<and> t \<in> set nodes"
proof -
  from assms have "(s, t, w) \<in> set es" using edge_weight_in by (auto simp: edges_good_def)
  with assms(1) show ?thesis by (fastforce simp: edges_good_def list_all_iff)
qed

lemma move_edge_good:
  assumes "edges_good nodes es" "new \<in> set nodes"
  shows "edges_good nodes (fst (move_edge d replaced new other (es, events)))"
proof -
  obtain s t s' t' where a: "other_arc d replaced other = (s, t)" "other_arc d new other = (s', t')"
    by (cases "other_arc d replaced other"; cases "other_arc d new other")
  show ?thesis
  proof (cases "edge_weight es s t")
    case None
    with a assms show ?thesis by (simp add: move_edge_def)
  next
    case (Some w)
    have "s' \<in> set nodes" "t' \<in> set nodes"
      using a edge_weight_good [OF assms(1) Some] assms(2)
      by (auto simp: other_arc_def split: direction.splits)
    with a Some edges_good_sub [OF assms(1), of s t] show ?thesis
      by (auto simp: move_edge_def Let_def edges_good_update split: option.split)
  qed
qed

lemma move_edges_good:
  assumes "edges_good nodes es" "new \<in> set nodes"
  shows "edges_good nodes (fst (fold (move_edge d replaced new) others (es, events)))"
  using assms(1)
proof (induction others arbitrary: es events)
  case (Cons other others)
  show ?case
    using Cons.IH [OF move_edge_good [OF Cons.prems assms(2)]]
    by (cases "move_edge d replaced new other (es, events)") (metis fold_simps(2) fst_conv surjective_pairing)
qed simp

lemma base_shape_alt:
  "base_shape B \<longleftrightarrow>
     keyed (bb_graph B) \<and> distinct (g_nodes (bb_relations B))
     \<and> set (g_nodes (bb_relations B)) \<subseteq> keys (bb_graph B)
     \<and> edges_good (g_nodes (bb_relations B)) (g_edges (bb_relations B))
     \<and> (bb_index_dirty B \<or> set (bb_index B) = set (g_nodes (bb_relations B)))"
  by (auto simp: base_shape_def edges_good_def arcs_def)

lemma index_sync_shape:
  assumes "base_shape B"
  shows "base_shape (index_sync B)"
    "set (bb_index (index_sync B)) = set (g_nodes (bb_relations (index_sync B)))"
proof -
  show 1: "base_shape (index_sync B)"
    using assms index_nodes_inv [OF assms] by (auto simp: index_sync_def base_inv_def)
  then show "set (bb_index (index_sync B)) = set (g_nodes (bb_relations (index_sync B)))"
    by (simp add: base_shape_def)
qed

text \<open>One replaced node: its edges move or go, then its state goes.\<close>

lemma replace_node_shape:
  assumes "base_shape B" "new \<in> keys (bb_graph B)" "replaced \<noteq> new"
  shows "base_shape (fst (replace_node X P new replaced (B, events)))
    \<and> new \<in> keys (bb_graph (fst (replace_node X P new replaced (B, events))))"
proof -
  let ?B = "index_sync B"
  note sh = index_sync_shape(1) [OF assms(1), unfolded base_shape_alt]
  have ks: "keys (bb_graph ?B) = keys (bb_graph B)" by (simp add: keys_def)
  have rem: "fst ` set (bm_remove replaced m) = fst ` set m - {replaced}" for m :: "(bid, node) bmap"
    by (rule keys_bm_remove)
  have keyed: "bm_ok (bm_remove replaced (bb_states B))
      \<and> list_all (\<lambda>(k, n). nd_bid n = k) (bm_remove replaced (bb_states B))"
    using assms(1) by (auto simp: base_shape_def keyed_def bm_remove_def list_all_iff)
  show ?thesis
  proof (cases "replaced \<in> set (bb_index ?B)")
    case False
    then have "replaced \<notin> set (g_nodes (bb_relations ?B))" using index_sync_shape(2) [OF assms(1)] by simp
    with False sh keyed assms(2,3) show ?thesis
      by (auto simp: replace_node_def replace_bid_def Let_def base_shape_alt keyed_def keys_def rem)
  next
    case True
    let ?nodes = "if new \<in> set (bb_index ?B) then g_nodes (bb_relations ?B)
        else g_nodes (bb_relations ?B) @ [new]"
    have nodes: "distinct ?nodes" "set ?nodes \<subseteq> keys (bb_graph B)" "new \<in> set ?nodes"
      using sh index_sync_shape(2) [OF assms(1)] assms(2) ks by auto
    have good: "edges_good ?nodes (g_edges (bb_relations B))"
      using sh by (auto simp: edges_good_def list_all_iff)
    obtain es1 ev1 where e1: "fold (move_edge Outgoing replaced new)
        (walk_edges P (g_edges (bb_relations B)) replaced Outgoing) (g_edges (bb_relations B), []) = (es1, ev1)"
      by fastforce
    obtain es2 ev2 where e2: "fold (move_edge Incoming replaced new)
        (walk_edges P es1 replaced Incoming) (es1, ev1) = (es2, ev2)" by fastforce
    have "edges_good ?nodes es1" using move_edges_good [OF good nodes(3)] e1 by (metis fst_conv)
    then have "edges_good ?nodes es2" using move_edges_good [OF _ nodes(3)] e2 by (metis fst_conv)
    then have kept: "edges_good (filter (\<lambda>b. b \<noteq> replaced) ?nodes)
        (filter (\<lambda>e. e_source e \<noteq> replaced \<and> e_sink e \<noteq> replaced) es2)"
      by (auto simp: edges_good_def list_all_iff intro: distinct_map_filter)
    have eq: "fst (replace_node X P new replaced (B, events)) =
        ?B\<lparr>bb_relations := \<lparr>g_nodes = filter (\<lambda>b. b \<noteq> replaced) ?nodes,
             g_edges = filter (\<lambda>e. e_source e \<noteq> replaced \<and> e_sink e \<noteq> replaced) es2\<rparr>,
           bb_index_dirty := True, bb_states := bm_remove replaced (bb_states B),
           bb_brefs := bm_remove (bref_of X replaced) (bb_brefs B)\<rparr>"
      using True e1 e2 by (simp add: replace_node_def replace_bid_def Let_def remove_graph_nodes_def)
    show ?thesis
      using kept nodes keyed assms(2,3) unfolding eq base_shape_alt keyed_def keys_def
      by (auto simp: rem)
  qed
qed

lemma replace_nodes_shape:
  assumes "base_shape B" "new \<in> keys (bb_graph B)" "new \<notin> set rs"
  shows "base_shape (fst (fold (replace_node X P new) rs (B, events)))"
  using assms
proof (induction rs arbitrary: B events)
  case (Cons r rs)
  obtain B' ev' where step: "replace_node X P new r (B, events) = (B', ev')" by fastforce
  have "base_shape B' \<and> new \<in> keys (bb_graph B')"
    using replace_node_shape [OF Cons.prems(1,2), of r X P events] Cons.prems(3) step by auto
  with Cons step show ?case by simp
qed simp

lemma put_state_shape:
  assumes "base_shape B"
  shows "base_shape (fst (put_state X n B))" "nd_bid n \<in> keys (bb_graph (fst (put_state X n B)))"
    "\<not> snd (put_state X n B) \<Longrightarrow> fst (put_state X n B) = B"
proof -
  have "bm_ok (bm_insert (nd_bid n) n (bb_states B)) \<and> list_all (\<lambda>(k, n). nd_bid n = k) (bm_insert (nd_bid n) n (bb_states B))"
    using assms set_bm_insert [of "nd_bid n" n "bb_states B"]
    by (fastforce simp: base_shape_def keyed_def list_all_iff)
  then show "base_shape (fst (put_state X n B))"
    using assms unfolding put_state_def base_shape_def keyed_def keys_def
    by (auto simp: Let_def keys_bm_insert)
  show "nd_bid n \<in> keys (bb_graph (fst (put_state X n B)))"
  proof (cases "bm_get (bb_states B) (nd_bid n)")
    case (Some m)
    from bm_get_in [OF this] Some show ?thesis
      by (auto simp: put_state_def keys_def Let_def keys_bm_insert rev_image_eqI)
  qed (simp add: put_state_def keys_def keys_bm_insert)
  show "\<not> snd (put_state X n B) \<Longrightarrow> fst (put_state X n B) = B"
    by (auto simp: put_state_def Let_def)
qed

lemma dirty_inv: "base_shape B \<Longrightarrow> base_inv (B\<lparr>bb_index_dirty := True\<rparr>)"
  by (simp add: base_inv_def base_shape_def keyed_def keys_def)

lemma insert_state_inv:
  assumes "base_inv B"
  shows "base_inv (fst (insert_state X env P D n merge_keys B))"
proof -
  let ?B = "if merge_keys = [] then B else index_sync B"
  let ?rs = "nodes_to_replace X env P D ?B (nd_bid n) merge_keys"
  let ?B1 = "fst (put_state X n ?B)" and ?up = "snd (put_state X n ?B)"
  let ?B2 = "fst (fold (replace_node X P (nd_bid n)) ?rs (?B1, []))"
  have inv: "base_inv ?B" using assms index_sync_inv(1) by auto
  then have sh: "base_shape ?B" by (simp add: base_inv_def)
  have eq: "fst (insert_state X env P D n merge_keys B) =
      (if ?up \<or> ?rs \<noteq> [] then ?B2\<lparr>bb_index_dirty := True\<rparr> else ?B2)"
    by (simp add: insert_state_def Let_def case_prod_beta)
  have "base_shape ?B2"
    by (rule replace_nodes_shape [OF put_state_shape(1,2) [OF sh]]) (simp add: nodes_to_replace_def)
  then have dirty: "base_inv (?B2\<lparr>bb_index_dirty := True\<rparr>)" by (rule dirty_inv)
  have same: "?B2 = ?B" if "?rs = []" "\<not> ?up"
  proof -
    have "?B2 = ?B1" unfolding that(1) by simp
    also have "?B1 = ?B" by (rule put_state_shape(3) [OF sh that(2)])
    finally show ?thesis .
  qed
  show ?thesis
  proof (cases "?up \<or> ?rs \<noteq> []")
    case True
    show ?thesis unfolding eq if_P [OF True] by (rule dirty)
  next
    case False
    then have "?B2 = ?B" by (intro same) blast+
    then show ?thesis unfolding eq if_not_P [OF False] using inv by (rule ssubst)
  qed
qed

end
