(* ===== verification/BaseEvents.thy ===== *)
theory BaseEvents
  imports BaseProps
begin

text \<open>
  The properties of the in-memory store: every way to change it keeps its shape, the order of the
  relations of a sink, removal and trimming, the sort key a new relation gets, and what becomes of the
  invariant test.
\<close>

section \<open>Shape\<close>

lemma base_inv_paths [simp]: "base_inv (B\<lparr>bb_paths := p\<rparr>) = base_inv B"
  by (simp add: base_inv_def base_shape_def keyed_def keys_def)

lemma apply_event_inv:
  assumes "base_inv B" "edges_in_ok P" "apply_event X env P D B event = Some (Inr (B', events))"
  shows "base_inv B'"
proof -
  have up: "base_inv (fst (update_relation P s t ws B))" for s t ws
    by (rule update_relation_inv [OF assms(1,2)])
  have rem: "base_inv (fst (remove_nodes X P bids B))" for bids
    by (rule remove_nodes_inv [OF assms(1,2)])
  have ins: "base_inv (fst (insert_state X env P D n ks B))" for n ks
    by (rule insert_state_inv [OF assms(1)])
  have test: "index_sync_test X P B = Some B' \<Longrightarrow> B' = B"
    by (auto simp: index_sync_test_def read_errors_def Let_def split: if_splits bind_splits)
  show ?thesis
    using assms(3)
  proof (cases event)
    case (RelationChange s t k w orig)
    have "\<exists>s t ws. B' = fst (update_relation P s t ws B) \<or> B' = index_sync B"
      using assms(3) RelationChange
      by (auto simp: apply_event_def case_prod_beta Let_def
          split: option.splits belief_event.splits)
    then show ?thesis using up index_sync_inv(1) [OF assms(1)] by auto
  next
    case (NodeUpdate ks toml orig)
    then show ?thesis using assms(3) ins
      by (auto simp: apply_event_def split: sum.splits) (metis fst_conv)
  next
    case (NodesRemoved bids orig)
    then have "B' = fst (remove_nodes X P (bs_from_list bids) B)"
      using assms(3) by (auto simp: apply_event_def)
    with rem show ?thesis by simp
  next
    case (RelationUpdate s t w orig)
    then have "B' = fst (update_relation P s t w B)"
      using assms(3) by (auto simp: apply_event_def)
    with up show ?thesis by simp
  next
    case (RelationRemoved s t orig)
    then have "B' = fst (update_relation P s t ws_empty B)"
      using assms(3) by (auto simp: apply_event_def)
    with up show ?thesis by simp
  next
    case BuiltInTest
    then show ?thesis using assms(1,3) test by (auto simp: apply_event_def)
  qed (use assms(1,3) in \<open>auto simp: apply_event_def\<close>)
qed

lemma process_event_inv:
  assumes "base_inv B" "edges_in_ok P" "process_event X env P D B event = Some (Inr (B', events))"
  shows "base_inv B'"
  using assms(1,3) apply_event_inv [OF assms(1,2), of X env D event]
  by (auto simp: process_event_def case_prod_beta Let_def split: if_splits option.splits sum.splits)

lemma trim_inv:
  assumes "base_inv B"
  shows "base_inv (trim to_retain B)"
proof -
  let ?es = "g_edges (bb_relations B)"
  obtain "is" where eq: "trim to_retain B = set_edges (fold remove_edge_at is ?es) B"
    by (simp add: trim_def Let_def set_edges_def)
  have "edges_good ns (fold remove_edge_at is es)" if "edges_good ns es" for ns es
    using that
  proof (induction "is" arbitrary: es)
    case (Cons i "is")
    have "edges_good ns (remove_edge_at i es)"
      using Cons.prems remove_edge_at_sub(1) [of i es] remove_edge_at_sub(2) [of "\<lambda>e. (e_source e, e_sink e)" es i]
      by (auto simp: edges_good_def list_all_iff)
    from Cons.IH [OF this] show ?case by simp
  qed simp
  moreover have "edges_good (g_nodes (bb_relations B)) ?es"
    using assms by (simp add: base_inv_def base_shape_alt)
  ultimately have "edges_good (g_nodes (bb_relations B)) (fold remove_edge_at is ?es)" by blast
  then show ?thesis unfolding eq
    by (intro set_edges_inv [OF assms]) (auto simp: edges_good_def list_all_iff)
qed

lemma put_states_shape:
  assumes "base_shape B"
  shows "base_shape (fst (put_states X ns B))"
    "\<not> snd (put_states X ns B) \<Longrightarrow> fst (put_states X ns B) = B"
proof -
  let ?f = "\<lambda>n (B, changed). let (B, updated) = put_state X n B in (B, changed \<or> updated)"
  have "base_shape (fst (fold ?f ns (B, c))) \<and>
      (\<not> snd (fold ?f ns (B, c)) \<longrightarrow> fst (fold ?f ns (B, c)) = B \<and> \<not> c)" for c
    using assms
  proof (induction ns arbitrary: B c)
    case (Cons n ns)
    obtain B1 u where p: "put_state X n B = (B1, u)" by fastforce
    have "base_shape B1" "\<not> u \<Longrightarrow> B1 = B"
      using put_state_shape(1,3) [OF Cons.prems, of X n] p by auto
    with Cons.IH [of B1 "c \<or> u"] p show ?case by auto
  qed simp
  from this [of False] show "base_shape (fst (put_states X ns B))"
    "\<not> snd (put_states X ns B) \<Longrightarrow> fst (put_states X ns B) = B"
    unfolding put_states_def by blast+
qed

lemma update_relations_inv:
  assumes "edges_in_ok P" "base_inv B"
  shows "base_inv (update_relations P es B)"
  using assms(2) unfolding update_relations_def
  by (induction es arbitrary: B) (simp_all add: update_relation_inv [OF _ assms(1)])

lemma merge_graph_inv:
  assumes "base_inv B" "edges_in_ok P"
  shows "base_inv (merge_graph X P DT rhs seeds B)"
proof -
  let ?ops = "to_event_stream DT rhs (bb_graph B) seeds"
  obtain B1 c where p: "put_states X (merge_op_nodes ?ops) B = (B1, c)" by fastforce
  have sh: "base_shape B" using assms(1) by (simp add: base_inv_def)
  have "base_shape B1" "\<not> c \<Longrightarrow> B1 = B" using put_states_shape [OF sh, of X "merge_op_nodes ?ops"] p by auto
  then have "base_inv (if c then B1\<lparr>bb_index_dirty := True\<rparr> else B1)"
    using assms(1) by (auto intro: dirty_inv)
  from update_relations_inv [OF assms(2) index_sync_inv(1) [OF this], of "merge_op_relations ?ops"]
  show ?thesis using assms(1) p by (auto simp: merge_graph_def Let_def case_prod_beta)
qed

lemma new_unbalanced_inv:
  assumes "keyed g" "graph_ok g"
  shows "base_inv (new_unbalanced X env P (states g) (relations g) inject_api)"
proof -
  let ?B0 = "(base_empty X env P)\<lparr>bb_relations := relations g, bb_states := states g,
      bb_brefs := bm_from_list (map (\<lambda>b. (bref_of X b, b)) (bm_keys (states g)))\<rparr>"
  have "base_shape (?B0\<lparr>bb_index_dirty := True\<rparr>)"
    using assms by (auto simp: base_shape_def keyed_def graph_ok_def keys_def list_all_iff)
  then have "base_shape (fst (put_state X n (?B0\<lparr>bb_index_dirty := True\<rparr>)))" for n
    by (rule put_state_shape(1))
  moreover have "fst (put_state X n (?B0\<lparr>bb_index_dirty := True\<rparr>)) = (fst (put_state X n ?B0))\<lparr>bb_index_dirty := True\<rparr>"
    for n by (simp add: put_state_def Let_def)
  ultimately have "base_shape ((fst (put_state X n ?B0))\<lparr>bb_index_dirty := True\<rparr>)" for n by simp
  then have "base_shape ((if inject_api then fst (put_state X (bb_api ?B0) ?B0) else ?B0)\<lparr>bb_index_dirty := True\<rparr>)"
    using \<open>base_shape (?B0\<lparr>bb_index_dirty := True\<rparr>)\<close> by (cases inject_api) simp_all
  then have "base_inv (index_sync ((if inject_api then fst (put_state X (bb_api ?B0) ?B0) else ?B0)\<lparr>bb_index_dirty := True\<rparr>))"
    by (intro index_sync_inv(1)) (simp add: base_inv_def)
  then show ?thesis by (simp add: new_unbalanced_def Let_def)
qed

lemma base_inv_no_orphans: "base_inv B \<Longrightarrow> find_orphaned_edges (bb_graph B) = []"
  by (auto simp: base_inv_def base_shape_def find_orphaned_edges_iff list_all_iff)

section \<open>Sort keys\<close>

lemma fold_max: "fold max ks (k :: u16) = Max (insert k (set ks))"
  by (simp add: Max.set_eq_fold flip: list.set(2))

lemma set_sink_keys:
  assumes "edges_in_ok P"
  shows "set (List.map_filter (edge_key kind) (edges_in P es sink)) = set (sink_keys kind sink es)"
  unfolding sink_keys_def
  by (rule mset_eq_setD [OF mset_map_filter]) (use assms in \<open>simp add: edges_in_ok_def\<close>)

lemma max_key_spec:
  "case max_key kind incoming of
     None \<Rightarrow> List.map_filter (edge_key kind) incoming = []
   | Some k \<Rightarrow> k \<in> set (List.map_filter (edge_key kind) incoming)
       \<and> (\<forall>k'\<in>set (List.map_filter (edge_key kind) incoming). k' \<le> k)"
proof (cases "List.map_filter (edge_key kind) incoming")
  case (Cons k ks)
  have "Max (insert k (set ks)) \<in> insert k (set ks)" by (rule Max_in) simp_all
  then show ?thesis by (auto simp: max_key_def Cons fold_max)
qed (simp add: max_key_def)

lemma normalize_weight_key:
  "weight_contains_key (normalize_weight w) WEIGHT_SORT_KEY = weight_contains_key w WEIGHT_SORT_KEY"
  by (auto simp: normalize_weight_def weight_contains_key_def bm_contains_def set_doc_paths_def
      weight_set_key_def split: option.split)

lemma word_successor:
  fixes k :: u16
  assumes "k \<noteq> 2 ^ 16 - 1" "k' \<le> k"
  shows "k' < k + 1"
proof -
  have "k \<noteq> 65535" using assms(1) by simp
  then show ?thesis using assms(2) by (unat_arith, auto)
qed

section \<open>Runs\<close>

text \<open>
  A base in use: made from a graph in shape, then changed by events, merges and trims in any order. An
  event that fails or never returns leaves no new base.
\<close>

inductive base_step ::
    "'a query_ext_scheme \<Rightarrow> build_env \<Rightarrow> ('p, 'c) base_ops_scheme \<Rightarrow> discover
      \<Rightarrow> discover \<times> ((bid \<times> bid) list \<Rightarrow> bid list \<Rightarrow> (bid \<times> bid) list)
      \<Rightarrow> 'p belief_base \<Rightarrow> 'p belief_base \<Rightarrow> bool"
  for X env P D DT where
  on_event: "process_event X env P D B event = Some (Inr (B', events)) \<Longrightarrow> base_step X env P D DT B B'"
| on_merge: "base_step X env P D DT B (merge_graph X P DT rhs seed_bids B)"
| on_trim: "base_step X env P D DT B (trim to_retain B)"

inductive base_reachable ::
    "'a query_ext_scheme \<Rightarrow> build_env \<Rightarrow> ('p, 'c) base_ops_scheme \<Rightarrow> discover
      \<Rightarrow> discover \<times> ((bid \<times> bid) list \<Rightarrow> bid list \<Rightarrow> (bid \<times> bid) list) \<Rightarrow> 'p belief_base \<Rightarrow> bool"
  for X env P D DT where
  start: "keyed g \<Longrightarrow> graph_ok g \<Longrightarrow>
    base_reachable X env P D DT (new_unbalanced X env P (states g) (relations g) inject_api)"
| step: "base_reachable X env P D DT B \<Longrightarrow> base_step X env P D DT B B' \<Longrightarrow> base_reachable X env P D DT B'"

lemma base_step_inv:
  assumes "base_step X env P D DT B B'" "edges_in_ok P" "base_inv B"
  shows "base_inv B'"
  using assms by cases (auto intro: process_event_inv merge_graph_inv trim_inv)

lemma reachable_inv: "base_reachable X env P D DT B \<Longrightarrow> edges_in_ok P \<Longrightarrow> base_inv B"
  by (induction rule: base_reachable.induct) (auto intro: new_unbalanced_inv base_step_inv)

lemma reindex_sink_edges_errors [simp]: "bb_errors (fst (reindex_sink_edges P t ks B)) = bb_errors B"
  by (simp add: reindex_sink_edges_def index_sync_def index_nodes_def Let_def case_prod_beta)

lemma update_relation_errors [simp]: "bb_errors (fst (update_relation P s t ws B)) = bb_errors B"
  by (simp add: update_relation_def Let_def)

lemma reindex_sinks_errors: "bb_errors (fst (reindex_sinks P sks acc)) = bb_errors (fst acc)"
  unfolding reindex_sinks_def
  by (induction sks arbitrary: acc) (auto simp: case_prod_beta Let_def)

lemma forget_states_errors: "bb_errors (forget_states X bids B) = bb_errors B"
  unfolding forget_states_def by (induction bids arbitrary: B) auto

lemma remove_nodes_errors [simp]: "bb_errors (fst (remove_nodes X P bids B)) = bb_errors B"
  by (simp add: remove_nodes_def Let_def reindex_sinks_errors forget_states_errors)

lemma replace_node_errors: "bb_errors (fst (replace_node X P b r acc)) = bb_errors (fst acc)"
  by (cases acc) (simp add: replace_node_def replace_bid_def Let_def case_prod_beta)

lemma insert_state_errors [simp]: "bb_errors (fst (insert_state X env P D n ks B)) = bb_errors B"
proof -
  have "bb_errors (fst (fold (replace_node X P b) rs acc)) = bb_errors (fst acc)" for b rs acc
    by (induction rs arbitrary: acc) (simp_all add: replace_node_errors)
  then show ?thesis
    by (simp add: insert_state_def put_state_def Let_def case_prod_beta)
qed

lemma read_under_guard: "index_sync_test X P B = (if bb_index_dirty B then None else Some B)"
  by (simp add: index_sync_test_def read_errors_def Let_def)

lemma apply_event_errors:
  assumes "apply_event X env P D B event = Some (Inr (B', events))"
  shows "bb_errors B' = bb_errors B"
proof -
  have r: "bb_errors B' = bb_errors B" if "update_relation P s t ws B = (B', evs)" for s t ws evs
    using update_relation_errors [of P s t ws B] that by simp
  have d: "bb_errors B' = bb_errors B" if "remove_nodes X P bids B = (B', evs)" for bids evs
    using remove_nodes_errors [of X P bids B] that by simp
  have i: "bb_errors B' = bb_errors B" if "insert_state X env P D n ks B = (B', evs)" for n ks evs
    using insert_state_errors [of X env P D n ks B] that by simp
  show ?thesis
    using assms
    by (cases event) (auto simp: apply_event_def read_under_guard Let_def case_prod_beta
        split: sum.splits option.splits belief_event.splits if_splits dest: r d i)
qed

section \<open>Instances\<close>

text \<open>An instance of the parameters, and three documents of which two are sections of the third.\<close>

definition plain_ops :: "unit base_ops" where
  "plain_ops =
     \<lparr>pm_default = (), pm_new = \<lambda>sts rels. (), pm_api_get = \<lambda>p path. None, pm_net_path = \<lambda>p net path. None,
      pm_net_paths_in = \<lambda>p net. [], pm_net_id = \<lambda>p net i. None, pm_order = \<lambda>p b. None,
      pm_has_path = \<lambda>p api b. True, pm_nets = \<lambda>p. [], pm_docs = \<lambda>p. [], pm_all_paths = \<lambda>p. [],
      pm_process = \<lambda>p events rels. (p, []),
      edges_in = \<lambda>es b. filter (\<lambda>e. e_sink e = b) es,
      walk_edges = \<lambda>es b d. (case d of Outgoing \<Rightarrow> map e_sink (filter (\<lambda>e. e_source e = b) es)
                                   | Incoming \<Rightarrow> map e_source (filter (\<lambda>e. e_sink e = b) es)),
      node_toml = \<lambda>n. [], parse_node = \<lambda>s. Inl Custom, cycles = \<lambda>arcs. []\<rparr>"

lemma plain_ops_edges: "edges_in_ok plain_ops"
  by (simp add: edges_in_ok_def plain_ops_def)

definition keyed_section :: "u16 \<Rightarrow> weight_set" where
  "keyed_section k = ws_set Section (weight_set_key WEIGHT_SORT_KEY (from_u16 k) \<lparr>w_payload = []\<rparr>) ws_empty"

definition section_graph :: belief_graph where
  "section_graph =
     \<lparr>states = map (\<lambda>b. (b, unknown_node b)) [Bid 1, Bid 2, Bid 3],
      relations = from_edges [(Bid 1, Bid 3, keyed_section 0), (Bid 2, Bid 3, keyed_section 1)]\<rparr>"

lemma section_graph_ok: "keyed section_graph" "graph_ok section_graph"
  by (simp_all add: section_graph_def keyed_def graph_ok_def keys_def from_edges_def add_node_def arcs_def
      bm_ok_Cons unknown_node_def)

definition section_base :: "unit belief_base" where
  "section_base =
     \<lparr>bb_states = states section_graph, bb_relations = relations section_graph, bb_index = [],
      bb_index_dirty = True, bb_brefs = [], bb_paths = (), bb_errors = [], bb_api = unknown_node nil_bid\<rparr>"

lemma section_base_inv: "base_inv section_base"
  using section_graph_ok by (auto simp: base_inv_def base_shape_def section_base_def graph_ok_def keyed_def
      keys_def section_graph_def from_edges_def add_node_def list_all_iff)

lemma relation_edges_others:
  assumes "u \<noteq> t"
  shows "mset (filter (\<lambda>e. e_sink e = u) (relation_edges s t ws es)) = mset (filter (\<lambda>e. e_sink e = u) es)"
proof -
  have up: "filter (\<lambda>e. e_sink e = u) (update_edge s t ws es) = filter (\<lambda>e. e_sink e = u) es"
    using assms by (induction s t ws es rule: update_edge.induct) auto
  have "mset (filter (\<lambda>e. e_sink e = u) (remove_edge s t es)) = mset (filter (\<lambda>e. e_sink e = u) es)"
    if "edge_weight es s t \<noteq> None"
  proof -
    let ?i = "position (s, t) (map (\<lambda>e. (e_source e, e_sink e)) es)"
    have m: "(s, t) \<in> set (map (\<lambda>e. (e_source e, e_sink e)) es)" using that edge_weight_none by metis
    have i: "?i < length es" using position_less [OF m] by simp
    have "map (\<lambda>e. (e_source e, e_sink e)) es ! ?i = (s, t)" by (rule nth_position [OF m])
    then have "e_sink (es ! ?i) = t" using i by simp
    then have "filter_mset (\<lambda>e. e_sink e = u) (mset (es ! ?i # remove_edge_at ?i es)) =
        filter_mset (\<lambda>e. e_sink e = u) (mset (remove_edge_at ?i es))"
      using assms by simp
    then show ?thesis by (simp only: remove_edge_at_perm [OF i] remove_edge_def mset_filter)
  qed
  with up show ?thesis unfolding relation_edges_def by (auto simp del: mset_filter)
qed

text \<open>
  The two sort spaces of a network: relations of a kind from its documents and from other nodes. A
  network is mixed when, the source \<open>s\<close> aside, both hold a relation, and each weight of the kind into it has a sort key.
\<close>

definition keyed_into :: "weight_kind \<Rightarrow> bid \<Rightarrow> edge list \<Rightarrow> edge list" where
  "keyed_into kind t es = filter (\<lambda>e. e_sink e = t \<and> edge_key kind e \<noteq> None) es"

definition mixed_network :: "('p, 'c) base_ops_scheme \<Rightarrow> 'p belief_base \<Rightarrow> weight_kind \<Rightarrow> bid \<Rightarrow> bid \<Rightarrow> bool" where
  "mixed_network P B kind s t \<longleftrightarrow>
     t \<in> set (pm_nets P (bb_paths B))
     \<and> list_ex (\<lambda>e. e_source e \<noteq> s \<and> e_source e \<in> set (pm_docs P (bb_paths B)))
         (keyed_into kind t (g_edges (bb_relations B)))
     \<and> list_ex (\<lambda>e. e_source e \<noteq> s \<and> e_source e \<notin> set (pm_docs P (bb_paths B)))
         (keyed_into kind t (g_edges (bb_relations B)))
     \<and> list_all (\<lambda>e. e_sink e = t \<and> ws_get (e_weights e) kind \<noteq> None \<longrightarrow> edge_key kind e \<noteq> None)
         (g_edges (bb_relations B))"

lemma contiguous_zero:
  assumes "contiguous ks" "ks \<noteq> []" "length ks < 2 ^ 16"
  shows "0 \<in> set ks"
proof -
  have "sort ks = map of_nat [0..<length ks]"
    using assms(1,3) by (simp add: contiguous_def unat_of_nat take_bit_nat_eq_self)
  then have "set (sort ks) = of_nat ` {0..<length ks}" by (simp only: set_map set_upt)
  then have "set ks = of_nat ` {0..<length ks}" by simp
  moreover have "(0 :: u16) = of_nat 0" by simp
  moreover have "(0 :: nat) \<in> {0..<length ks}" using assms(2) by simp
  ultimately show ?thesis by blast
qed

lemma keys_of_kind_keyed:
  assumes "\<And>e. e \<in> set es \<Longrightarrow> ws_get (e_weights e) kind \<noteq> None \<Longrightarrow> edge_key kind e \<noteq> None"
  shows "keys_of_kind kind es = List.map_filter (edge_key kind) es"
proof -
  have "map_option (\<lambda>w. unwrap_or (sort_key w) 0) (ws_get (e_weights e) kind) = edge_key kind e" if "e \<in> set es" for e
    using assms [OF that] by (cases "ws_get (e_weights e) kind") (auto simp: edge_key_def)
  then show ?thesis unfolding keys_of_kind_def by (intro map_filter_eq) simp
qed

lemma order_errors_none: "order_errors b es = [] \<Longrightarrow> contiguous (keys_of_kind kind es)"
  by (cases kind) (auto simp: order_errors_def Let_def weight_kind_all_def List.map_filter_def split: if_splits)

lemma map_filter_part:
  "mset (List.map_filter f xs) =
     mset (List.map_filter f (filter p xs)) + mset (List.map_filter f (filter (\<lambda>x. \<not> p x) xs))"
  by (induction xs) (auto simp: map_filter_Cons split: option.split)

text \<open>One numbering for both sort spaces leaves one of them without the key 0.\<close>

lemma one_numbering_two_spaces:
  fixes B :: "'p belief_base"
  assumes inv: "base_inv B" and ops: "edges_in_ok P"
    and c: "mset (sink_keys kind t (g_edges (bb_relations B))) =
      mset (map of_nat [0..<length (sink_keys kind t (g_edges (bb_relations B)))])"
    and len: "length (sink_keys kind t (g_edges (bb_relations B))) < 2 ^ 16"
    and mixed: "mixed_network P B kind s t"
  shows "list_ex (\<lambda>n. nd_bid n = t \<and> node_order_errors P (index_sync B) n \<noteq> []) (bm_values (bb_states B))"
proof -
  let ?es = "g_edges (bb_relations B)" and ?in = "edges_in P (g_edges (bb_relations B)) t"
  let ?doc = "\<lambda>e. e_source e \<in> set (pm_docs P (bb_paths B))"
  let ?D = "filter ?doc ?in" and ?A = "filter (\<lambda>e. \<not> ?doc e) ?in"
  have min: "mset ?in = mset (filter (\<lambda>e. e_sink e = t) ?es)" using ops by (simp add: edges_in_ok_def)
  then have sin: "set ?in = {e \<in> set ?es. e_sink e = t}" by (metis mset_eq_setD set_filter)
  have keyed: "edge_key kind e \<noteq> None" if "e \<in> set ?in" "ws_get (e_weights e) kind \<noteq> None" for e
    using mixed that sin by (auto simp: mixed_network_def list_all_iff)
  obtain d where d: "d \<in> set ?in" "?doc d" "edge_key kind d \<noteq> None"
    using mixed sin by (auto simp: mixed_network_def keyed_into_def list_ex_iff)
  obtain a where a: "a \<in> set ?in" "\<not> ?doc a" "edge_key kind a \<noteq> None"
    using mixed sin by (auto simp: mixed_network_def keyed_into_def list_ex_iff)
  have kD: "keys_of_kind kind ?D = List.map_filter (edge_key kind) ?D"
    and kA: "keys_of_kind kind ?A = List.map_filter (edge_key kind) ?A"
    using keyed by (auto intro!: keys_of_kind_keyed)
  have nD: "keys_of_kind kind ?D \<noteq> []" and nA: "keys_of_kind kind ?A \<noteq> []"
    unfolding kD kA using d a by (auto simp: List.map_filter_def filter_empty_conv)
  have all: "mset (sink_keys kind t ?es) = mset (keys_of_kind kind ?D) + mset (keys_of_kind kind ?A)"
    unfolding kD kA sink_keys_def map_filter_part [of _ ?in ?doc, symmetric]
    by (rule mset_map_filter [OF min [symmetric]])
  have "distinct (map of_nat [0..<length (sink_keys kind t ?es)] :: u16 list)"
    using len by (auto simp: distinct_map inj_on_def unat_of_nat take_bit_nat_eq_self
      dest!: arg_cong [where f = unat])
  then have dis: "distinct (keys_of_kind kind ?D @ keys_of_kind kind ?A)"
    using c all by (metis mset_append mset_eq_imp_distinct_iff)
  have l: "length (keys_of_kind kind ?D) < 2 ^ 16" "length (keys_of_kind kind ?A) < 2 ^ 16"
    using len arg_cong [OF all, of size] by simp_all
  have "\<not> (contiguous (keys_of_kind kind ?D) \<and> contiguous (keys_of_kind kind ?A))"
    using contiguous_zero [OF _ nD l(1)] contiguous_zero [OF _ nA l(2)] dis by auto
  then have bad: "order_errors t ?D @ order_errors t ?A \<noteq> []"
    using order_errors_none by blast
  have tk: "t \<in> keys (bb_graph B)"
    using d(1) sin base_inv_edges(2) [OF inv, of d] inv by (auto simp: base_inv_def base_shape_def)
  then obtain n where n: "(t, n) \<in> set (bb_states B)" by (auto simp: keys_bb)
  then have nv: "n \<in> set (bm_values (bb_states B))" by (force simp: bm_values_def)
  have "keyed (bb_graph B)" using inv by (simp add: base_inv_def base_shape_def)
  then have nb: "nd_bid n = t" using n by (auto simp: keyed_def list_all_iff)
  have "g_edges (bb_relations (index_sync B)) = ?es" by simp
  then have "node_order_errors P (index_sync B) n = order_errors t ?D @ order_errors t ?A"
    using mixed nb tk index_sync_inv(2) [OF inv]
    by (simp add: node_order_errors_def mixed_network_def Let_def)
  with bad nb nv show ?thesis by (auto simp: list_ex_iff)
qed

lemma relation_edges_kept:
  assumes "e \<in> set es" "e_source e \<noteq> s"
  shows "e \<in> set (relation_edges s t ws es)"
proof -
  have up: "e \<in> set (update_edge s t ws es)"
    using assms by (induction s t ws es rule: update_edge.induct) auto
  have "e \<in> set (remove_edge s t es)" if "edge_weight es s t \<noteq> None"
  proof -
    let ?i = "position (s, t) (map (\<lambda>e. (e_source e, e_sink e)) es)"
    have m: "(s, t) \<in> set (map (\<lambda>e. (e_source e, e_sink e)) es)" using that edge_weight_none by metis
    have i: "?i < length es" using position_less [OF m] by simp
    have "map (\<lambda>e. (e_source e, e_sink e)) es ! ?i = (s, t)" by (rule nth_position [OF m])
    then have "e_source (es ! ?i) = s" using i by simp
    then have "es ! ?i \<noteq> e" using assms(2) by blast
    moreover have "e \<in> set (es ! ?i # remove_edge_at ?i es)"
      using assms(1) mset_eq_setD [OF remove_edge_at_perm [OF i]] by blast
    ultimately show ?thesis unfolding remove_edge_def by simp
  qed
  with up assms(1) show ?thesis unfolding relation_edges_def by auto
qed

lemma ws_get_set_indices_none: "ws_get (set_indices changed ws) kind = None \<longleftrightarrow> ws_get ws kind = None"
proof (induction changed arbitrary: ws)
  case (Cons c changed)
  obtain k i where c: "c = (k, i)" by (cases c)
  let ?ws = "case ws_get ws k of Some w \<Rightarrow> ws_set k (weight_set_key WEIGHT_SORT_KEY (from_u16 i) w) ws
      | None \<Rightarrow> ws"
  have "set_indices (c # changed) ws = set_indices changed ?ws" by (simp add: set_indices_def c)
  then show ?case using Cons.IH [of ?ws] by (cases "kind = k"; cases "ws_get ws k") simp_all
qed (simp add: set_indices_def)

lemma update_relation_length:
  assumes "base_inv B" "edges_in_ok P" "s \<in> keys (bb_graph B)" "t \<in> keys (bb_graph B)"
  shows "length (sink_keys kind u (g_edges (bb_relations (fst (update_relation P s t ws B)))))
    \<le> Suc (length (g_edges (bb_relations B)))"
proof -
  let ?es = "g_edges (bb_relations B)" and ?es' = "g_edges (bb_relations (fst (update_relation P s t ws B)))"
  let ?B = "set_edges (relation_edges s t ws ?es) (index_sync B)"
  have unf: "fst (update_relation P s t ws B) = fst (reindex_sink_edges P t (lost_kinds s t ws ?es) ?B)"
    using assms(3,4) by (simp add: update_relation_unfold [OF assms(1)])
  obtain inc where "fst (update_relation P s t ws B) =
      set_edges (map (reindexed (lost_kinds s t ws ?es) inc t) (relation_edges s t ws ?es))
        (if lost_kinds s t ws ?es = [] then ?B else index_sync ?B)"
    using reindex_sink_edges_eq [OF updated_edges_inv [OF assms(1,3,4)] assms(2), where sink = t and kinds = "lost_kinds s t ws ?es"]
    unfolding unf set_edges_fields by blast
  then have "length ?es' = length (relation_edges s t ws ?es)" by simp
  moreover have "length (update_edge s t ws es) \<le> Suc (length es)" for es
    by (induction s t ws es rule: update_edge.induct) auto
  then have "length (relation_edges s t ws ?es) \<le> Suc (length ?es)"
    by (simp add: relation_edges_def remove_edge_def remove_edge_at_def le_diff_conv)
  moreover have "length (sink_keys kind u ?es') \<le> length ?es'"
    unfolding sink_keys_def List.map_filter_def by (metis length_filter_le length_map le_trans)
  ultimately show ?thesis by linarith
qed

lemma mixed_network_kept:
  assumes "base_inv B" "edges_in_ok P" "base_inv (set_edges (relation_edges s t ws (g_edges (bb_relations B))) (index_sync B))"
    "s \<in> keys (bb_graph B)" "t \<in> keys (bb_graph B)" "ws_get ws kind = None" "mixed_network P B kind s t"
  shows "mixed_network P (fst (update_relation P s t ws B)) kind s t"
proof -
  let ?old = "g_edges (bb_relations B)" and ?ks = "lost_kinds s t ws (g_edges (bb_relations B))"
  let ?B = "set_edges (relation_edges s t ws ?old) (index_sync B)" and ?B' = "fst (update_relation P s t ws B)"
  have unf: "?B' = fst (reindex_sink_edges P t ?ks ?B)"
    using assms(4,5) by (simp add: update_relation_unfold [OF assms(1)])
  obtain inc where inc: "mset inc = mset (filter (\<lambda>e. e_sink e = t) (relation_edges s t ws ?old))"
    and eq: "?B' = set_edges (map (reindexed ?ks inc t) (relation_edges s t ws ?old))
        (if ?ks = [] then ?B else index_sync ?B)"
    using reindex_sink_edges_eq [OF assms(3,2), of t ?ks] unfolding unf set_edges_fields by blast
  note r = reindexed_keys [OF base_inv_edges(1) [OF assms(3)], unfolded set_edges_fields, OF inc lost_kinds_distinct]
  have p: "bb_paths ?B' = bb_paths B" unfolding eq by simp
  have es: "g_edges (bb_relations ?B') = map (reindexed ?ks inc t) (relation_edges s t ws ?old)"
    unfolding eq by simp
  have kept: "\<exists>e'\<in>set (keyed_into kind t (g_edges (bb_relations ?B'))). e_source e' = e_source e"
    if "e \<in> set (keyed_into kind t ?old)" "e_source e \<noteq> s" for e
  proof -
    have e: "e \<in> set (relation_edges s t ws ?old)" "e_sink e = t" "edge_key kind e \<noteq> None"
      using that relation_edges_kept [of e ?old s t ws] by (auto simp: keyed_into_def)
    have "edge_key kind (reindexed ?ks inc t e) \<noteq> None" using r [OF e(1,2), of kind] e(3) by simp
    then show ?thesis unfolding es keyed_into_def using e(1,2)
      by (intro bexI [where x = "reindexed ?ks inc t e"]) auto
  qed
  have key: "edge_key kind e' \<noteq> None"
    if e': "e' \<in> set (g_edges (bb_relations ?B'))" "e_sink e' = t" "ws_get (e_weights e') kind \<noteq> None" for e'
  proof -
    obtain e where e: "e \<in> set (relation_edges s t ws ?old)" "e' = reindexed ?ks inc t e"
      using e'(1) unfolding es set_map by blast
    have "e_sink e = t" using e'(2) unfolding e(2) reindexed_ends .
    note e = e this
    have w: "ws_get (e_weights e) kind \<noteq> None"
      using e'(3) e(2,3) by (simp add: reindexed_def ws_get_set_indices_none)
    have "e \<noteq> (s, t, ws)" using w assms(6) by auto
    then have "e \<in> set ?old" using e(1) relation_edges_ok(2) [OF base_inv_edges(1) [OF assms(1)]] by blast
    then have "edge_key kind e \<noteq> None" using assms(7) e(3) w by (auto simp: mixed_network_def list_all_iff)
    then show ?thesis unfolding e(2) using r [OF e(1,3), of kind] by simp
  qed
  from assms(7) kept key p show ?thesis
    unfolding mixed_network_def list_ex_iff list_all_iff by (metis (no_types, lifting))
qed

section \<open>Properties\<close>

text \<open>
  C8. Whatever sequence of events, merges and trims a base goes through, it stays in shape: each node is
  stored under its own identifier, each relation ends in nodes the base has, no pair of nodes has two
  relations, and a clean index lists exactly the nodes.
\<close>

theorem reachable_base_shape:
  assumes "base_reachable X env P D DT B" "edges_in_ok P"
  shows "keyed (bb_graph B) \<and> find_orphaned_edges (bb_graph B) = [] \<and> distinct (arcs (bb_relations B))
    \<and> (bb_index_dirty B \<or> set (bb_index B) = keys (bb_graph B))"
  using reachable_inv [OF assms] base_inv_no_orphans [OF reachable_inv [OF assms]]
  by (auto simp: base_inv_def base_shape_def)

theorem reachable_base_shape_witness:
  "\<forall>(X :: 'a query_ext_scheme) env DT. find_orphaned_edges (bb_graph (trim None (merge_graph X plain_ops DT section_graph None
       (new_unbalanced X env plain_ops (states section_graph) (relations section_graph) True)))) = []"
proof (intro allI)
  fix X :: "'a query_ext_scheme" and env DT
  have "base_reachable X env plain_ops (\<lambda>es seeds. seeds) DT (trim None (merge_graph X plain_ops DT section_graph None
      (new_unbalanced X env plain_ops (states section_graph) (relations section_graph) True)))"
    by (rule base_reachable.step [OF base_reachable.step [OF base_reachable.start [OF section_graph_ok]
          base_step.on_merge] base_step.on_trim])
  from reachable_base_shape [OF this plain_ops_edges]
  show "find_orphaned_edges (bb_graph (trim None (merge_graph X plain_ops DT section_graph None
       (new_unbalanced X env plain_ops (states section_graph) (relations section_graph) True)))) = []"
    by blast
qed

text \<open>A network with two documents and a heading: each of its sort spaces is numbered from 0.\<close>

definition network_ops :: "unit base_ops" where
  "network_ops = plain_ops\<lparr>pm_nets := \<lambda>p. [Bid 3], pm_docs := \<lambda>p. [Bid 1, Bid 4]\<rparr>"

definition network_graph :: belief_graph where
  "network_graph =
     \<lparr>states = map (\<lambda>b. (b, unknown_node b)) [Bid 1, Bid 2, Bid 3, Bid 4],
      relations = from_edges [(Bid 1, Bid 3, keyed_section 0), (Bid 4, Bid 3, keyed_section 1),
                              (Bid 2, Bid 3, keyed_section 0)]\<rparr>"

definition network_base :: "unit belief_base" where
  "network_base =
     \<lparr>bb_states = states network_graph, bb_relations = relations network_graph, bb_index = [],
      bb_index_dirty = True, bb_brefs = [], bb_paths = (), bb_errors = [], bb_api = unknown_node nil_bid\<rparr>"

lemma network_base_inv: "base_inv network_base"
  by (auto simp: base_inv_def base_shape_def network_base_def network_graph_def keyed_def keys_def
      from_edges_def add_node_def list_all_iff arcs_def bm_ok_Cons unknown_node_def)

lemma network_ops_edges: "edges_in_ok network_ops"
  by (simp add: edges_in_ok_def network_ops_def plain_ops_def)

lemma keys_of_keyed_section:
  "keys_of_kind kind [] = []"
  "keys_of_kind kind ((b, c, keyed_section k) # es) = (if kind = Section then [k] else []) @ keys_of_kind kind es"
proof -
  have "ws_get ws_empty kind = None" by (simp add: ws_get_def ws_empty_def)
  then show "keys_of_kind kind ((b, c, keyed_section k) # es) = (if kind = Section then [k] else []) @ keys_of_kind kind es"
    by (simp add: keys_of_kind_def map_filter_Cons keyed_section_def)
qed (simp add: keys_of_kind_def)

lemma keyed_section_facts:
  "ws_get (keyed_section k) Section \<noteq> None" "edge_key Section (b, c, keyed_section k) = Some k"
  by (simp_all add: keyed_section_def edge_key_def)

text \<open>
  C9. When a relation loses a kind, the sort keys of that kind into its sink are numbered again from 0
  without gaps, whatever they were; the keys into other nodes stay the same. Fewer than \<open>2 ^ 16\<close> of
  them are \<open>contiguous\<close>, which \<open>built_in_test\<close> asks of a sink that is no network. For a network it asks
  that documents and other nodes are numbered each from 0; the code numbers them as one, so
  a network that has a relation of the kind of both sorts besides the changed one fails the test of its
  node afterwards, also when it passed before.
\<close>

theorem update_relation_order:
  fixes B :: "'p belief_base"
  assumes "base_inv B" "edges_in_ok P" "edge_weight (g_edges (bb_relations B)) s t = Some old" "ws_ok old"
    "ws_get old kind \<noteq> None" "ws_get ws kind = None"
  defines "B' \<equiv> fst (update_relation P s t ws B)"
  defines "es \<equiv> g_edges (bb_relations B')"
  shows "mset (sink_keys kind t es) = mset (map of_nat [0..<length (sink_keys kind t es)])
    \<and> (length (sink_keys kind t es) < 2 ^ 16 \<longrightarrow> contiguous (sink_keys kind t es))
    \<and> (\<forall>u. u \<noteq> t \<longrightarrow> mset (sink_keys kind u es) = mset (sink_keys kind u (g_edges (bb_relations B))))
    \<and> (mixed_network P B kind s t \<and> length (sink_keys kind t es) < 2 ^ 16 \<longrightarrow>
        list_ex (\<lambda>n. nd_bid n = t \<and> node_order_errors P (index_sync B') n \<noteq> []) (bm_values (bb_states B')))"
proof -
  let ?old = "g_edges (bb_relations B)"
  let ?B = "set_edges (relation_edges s t ws ?old) (index_sync B)"
  have "(s, t, old) \<in> set ?old"
    using assms(3) edge_weight_in [OF base_inv_edges(1) [OF assms(1)]] by blast
  then have st: "s \<in> keys (bb_graph B)" "t \<in> keys (bb_graph B)"
    using base_inv_edges(2) [OF assms(1)] assms(1) by (fastforce simp: base_inv_def base_shape_def)+
  have inv: "base_inv ?B" by (rule updated_edges_inv [OF assms(1) st])
  have es: "es = g_edges (bb_relations (fst (reindex_sink_edges P t (lost_kinds s t ws ?old) ?B)))"
    using st by (simp add: es_def B'_def update_relation_unfold [OF assms(1)])
  have k: "kind \<in> set (lost_kinds s t ws ?old)"
    using lost_kinds_mem [OF assms(3,4)] assms(5,6) by blast
  note r = reindexed_sink_keys [OF inv assms(2) lost_kinds_distinct]
  have c: "mset (sink_keys kind t es) = mset (map of_nat [0..<length (sink_keys kind t es)])"
    by (rule mset_upt_self) (use r(1) [OF k] es in simp)
  have o: "mset (sink_keys kind u es) = mset (sink_keys kind u ?old)" if "u \<noteq> t" for u
  proof -
    have "mset (sink_keys kind u es) = mset (sink_keys kind u (relation_edges s t ws ?old))"
      using r(2) [OF that] es by simp
    also have "\<dots> = mset (sink_keys kind u ?old)"
      unfolding sink_keys_def by (rule mset_map_filter [OF relation_edges_others [OF that]])
    finally show ?thesis .
  qed
  have n: "list_ex (\<lambda>n. nd_bid n = t \<and> node_order_errors P (index_sync B') n \<noteq> []) (bm_values (bb_states B'))"
    if "mixed_network P B kind s t" "length (sink_keys kind t es) < 2 ^ 16"
    using one_numbering_two_spaces [OF update_relation_inv [OF assms(1,2)] assms(2)]
      mixed_network_kept [OF assms(1,2) inv st assms(6) that(1)] c that(2)
    unfolding es_def B'_def by blast
  from c o contiguous_mset [OF c] n show ?thesis by blast
qed

theorem update_relation_order_witness:
  "node_order_errors network_ops (index_sync network_base) (unknown_node (Bid 3)) = []
   \<and> list_ex (\<lambda>n. nd_bid n = Bid 3 \<and> node_order_errors network_ops
        (index_sync (fst (update_relation network_ops (Bid 4) (Bid 3) ws_empty network_base))) n \<noteq> [])
      (bm_values (bb_states (fst (update_relation network_ops (Bid 4) (Bid 3) ws_empty network_base))))"
proof -
  have edges: "g_edges (bb_relations network_base) =
      [(Bid 1, Bid 3, keyed_section 0), (Bid 4, Bid 3, keyed_section 1), (Bid 2, Bid 3, keyed_section 0)]"
    by (simp add: network_base_def network_graph_def from_edges_def)
  have old: "edge_weight (g_edges (bb_relations network_base)) (Bid 4) (Bid 3) = Some (keyed_section 1)"
    by (simp add: edges edge_weight_def)
  have ok: "ws_ok (keyed_section 1)" "ws_get ws_empty Section = None"
    by (simp_all add: keyed_section_def) (simp add: ws_get_def ws_empty_def)
  have mixed: "mixed_network network_ops network_base Section (Bid 4) (Bid 3)"
    by (simp add: mixed_network_def keyed_into_def edges keyed_section_facts) (simp add: network_ops_def)
  note r = update_relation_order [OF network_base_inv network_ops_edges old ok(1) keyed_section_facts(1) ok(2)]
  have before: "node_order_errors network_ops (index_sync network_base) (unknown_node (Bid 3)) = []"
  proof -
    have "Bid 3 \<in> set (bb_index (index_sync network_base))"
      using index_sync_inv(2) [OF network_base_inv] by (simp add: network_base_def network_graph_def keys_def)
    then show ?thesis
      by (simp add: node_order_errors_def edges order_errors_def weight_kind_all_def List.map_filter_def [of _ "[_, _, _]"]
          keys_of_keyed_section contiguous_def network_ops_def plain_ops_def unknown_node_def upt_conv_Cons)
  qed
  have "length (sink_keys Section (Bid 3)
     (g_edges (bb_relations (fst (update_relation network_ops (Bid 4) (Bid 3) ws_empty network_base))))) < 2 ^ 16"
    using update_relation_length [OF network_base_inv network_ops_edges, of "Bid 4" "Bid 3" Section "Bid 3" ws_empty]
    by (simp add: edges) (simp add: network_base_def network_graph_def keys_def)
  with r mixed before show ?thesis by blast
qed

text \<open>
  Removing nodes removes exactly their states and the relations at them, and the sinks that lose a
  relation have their sort keys numbered again, for each kind the lost relations had.
\<close>

theorem remove_nodes_spec:
  assumes "base_inv B" "edges_in_ok P"
  shows "bb_states (fst (remove_nodes X P bids B)) = filter (\<lambda>(k, _). k \<notin> set bids) (bb_states B)
    \<and> arcs (bb_relations (fst (remove_nodes X P bids B))) =
        filter (\<lambda>(s, t). s \<notin> set bids \<and> t \<notin> set bids) (arcs (bb_relations B))
    \<and> (\<forall>e\<in>set (g_edges (bb_relations B)). \<forall>kind. e_source e \<in> set bids \<and> ws_get (e_weights e) kind \<noteq> None \<longrightarrow>
        (let ks = sink_keys kind (e_sink e) (g_edges (bb_relations (fst (remove_nodes X P bids B))))
         in mset ks = mset (map of_nat [0..<length ks])))"
  using remove_nodes_fields [OF assms] remove_nodes_keys [OF assms] by (metis (lifting))

theorem remove_nodes_spec_witness:
  "\<forall>X. map fst (bb_states (fst (remove_nodes X plain_ops [Bid 1] section_base))) = [Bid 2, Bid 3]
     \<and> arcs (bb_relations (fst (remove_nodes X plain_ops [Bid 1] section_base))) = [(Bid 2, Bid 3)]"
proof -
  have "map fst (bb_states section_base) = [Bid 1, Bid 2, Bid 3]"
    "arcs (bb_relations section_base) = [(Bid 1, Bid 3), (Bid 2, Bid 3)]"
    by (simp_all add: section_base_def section_graph_def arcs_def from_edges_def)
  moreover have "map fst (filter (\<lambda>(k, _). k \<notin> set [Bid 1]) xs) = filter (\<lambda>k. k \<noteq> Bid 1) (map fst xs)"
    for xs :: "(bid, node) bmap"
    by (induction xs) auto
  ultimately show ?thesis
    by (simp add: remove_nodes_spec [OF section_base_inv plain_ops_edges, THEN conjunct1]
        remove_nodes_spec [OF section_base_inv plain_ops_edges, THEN conjunct2, THEN conjunct1])
qed

text \<open>
  \<open>trim\<close> keeps exactly the relations whose two ends are in the set to retain, which is the set of
  stored nodes when none is given.
\<close>

theorem trim_exact:
  "mset (g_edges (bb_relations (trim to_retain B))) =
     {#e \<in># mset (g_edges (bb_relations B)).
       e_source e \<in> set (unwrap_or to_retain (bm_keys (bb_states B)))
       \<and> e_sink e \<in> set (unwrap_or to_retain (bm_keys (bb_states B)))#}
   \<and> bb_states (trim to_retain B) = bb_states B
   \<and> g_nodes (bb_relations (trim to_retain B)) = g_nodes (bb_relations B)"
  using trim_edges [of to_retain B] by (simp add: trim_def Let_def)

text \<open>
  The test that should report an unbalanced base cannot: no event changes the recorded errors, a
  base made from a graph has none, so \<open>is_balanced\<close> always says yes; and \<open>BuiltInTest\<close> never returns when
  the index is dirty, since it waits for the lock it holds, and does nothing when it is clean.
\<close>

theorem balance_test_vacuous:
  "(case process_event X env P D B event of
      Some (Inr (B', _)) \<Rightarrow> is_balanced B' = is_balanced B | _ \<Rightarrow> True)
   \<and> is_balanced (base_from X env P g) = Inr ()
   \<and> (process_event X env P D B BuiltInTest = None \<longleftrightarrow> bb_index_dirty B)
   \<and> (bb_index_dirty B \<or>
       (case process_event X env P D B BuiltInTest of
          Some (Inr (B', _)) \<Rightarrow> B' = B\<lparr>bb_paths := bb_paths B'\<rparr> | _ \<Rightarrow> False))"
proof -
  have "bb_errors B' = bb_errors B" if "process_event X env P D B event = Some (Inr (B', evs))" for B' evs
    using that apply_event_errors [of X env P D B event]
    by (fastforce simp: process_event_def case_prod_beta Let_def split: if_splits option.splits sum.splits)
  then have "case process_event X env P D B event of
      Some (Inr (B', _)) \<Rightarrow> is_balanced B' = is_balanced B | _ \<Rightarrow> True"
    by (auto simp: is_balanced_def split: option.split sum.split)
  moreover have "is_balanced (base_from X env P g) = Inr ()"
    by (simp add: is_balanced_def base_from_def new_unbalanced_def base_empty_def Let_def)
  moreover have "process_event X env P D B BuiltInTest = None \<longleftrightarrow> bb_index_dirty B"
    by (simp add: process_event_def apply_event_def read_under_guard origin_def case_prod_beta)
  moreover have "bb_index_dirty B \<or>
       (case process_event X env P D B BuiltInTest of
          Some (Inr (B', _)) \<Rightarrow> B' = B\<lparr>bb_paths := bb_paths B'\<rparr> | _ \<Rightarrow> False)"
    by (simp add: process_event_def apply_event_def read_under_guard origin_def case_prod_beta Let_def)
  ultimately show ?thesis by blast
qed

text \<open>
  C10. A change that gives a relation a kind it did not have, without a sort key, gets the key 0 when its
  sink has no key of that kind yet, else one past the greatest: greater than every key in use. Where
  65535 is in use the addition overflows instead, and no other change panics.
\<close>

theorem new_relation_key:
  fixes kind :: weight_kind
  assumes "base_inv B" "edges_in_ok P" "s \<in> keys (bb_graph B)" "t \<in> keys (bb_graph B)"
    "edge_weight (g_edges (bb_relations B)) s t = None"
    "\<not> weight_contains_key w WEIGHT_SORT_KEY"
  defines "ks \<equiv> sink_keys kind t (g_edges (bb_relations B))"
  shows "case generate_edge_update P B (RelationChange s t kind (Some w) orig) of
      None \<Rightarrow> 65535 \<in> set ks
    | Some update \<Rightarrow> 65535 \<notin> set ks \<and> (\<exists>ws k. update = Some (RelationUpdate s t ws orig)
        \<and> Option.bind (ws_get ws kind) sort_key = Some k
        \<and> (\<forall>k'\<in>set ks. k' < k) \<and> (ks = [] \<longrightarrow> k = 0))"
proof -
  let ?in = "edges_in P (g_edges (bb_relations B)) t"
  have idx: "s \<in> set (bb_index (index_sync B))" "t \<in> set (bb_index (index_sync B))"
    using index_sync_inv(2) [OF assms(1)] assms(3,4) by simp_all
  have rel: "g_edges (bb_relations (index_sync B)) = g_edges (bb_relations B)" by simp
  have ks: "set (List.map_filter (edge_key kind) ?in) = set ks"
    unfolding ks_def by (rule set_sink_keys [OF assms(2)])
  have sk: "Option.bind (ws_get (ws_set kind (weight_set_key WEIGHT_SORT_KEY (from_u16 k) v) ws_empty) kind) sort_key
      = Some k" for k v by simp
  have g: "generate_edge_update P B (RelationChange s t kind (Some w) orig) =
      (case max_key kind ?in of
         None \<Rightarrow> Some (Some (RelationUpdate s t
           (ws_set kind (weight_set_key WEIGHT_SORT_KEY (from_u16 0) (normalize_weight w)) ws_empty) orig))
       | Some k \<Rightarrow> if k = 65535 then None else Some (Some (RelationUpdate s t
           (ws_set kind (weight_set_key WEIGHT_SORT_KEY (from_u16 (k + 1)) (normalize_weight w)) ws_empty) orig)))"
    using idx assms(5,6)
    by (simp add: generate_edge_update_def change_weight_def Let_def rel normalize_weight_key ws_get_def ws_empty_def
        split: option.split)
  show ?thesis
  proof (cases "max_key kind ?in")
    case None
    then have "set ks = {}" using max_key_spec [of kind ?in] ks by simp
    then show ?thesis by (simp add: g None)
  next
    case (Some k)
    then have k: "k \<in> set ks" "\<forall>k'\<in>set ks. k' \<le> k" using max_key_spec [of kind ?in] ks by simp_all
    show ?thesis
    proof (cases "k = 65535")
      case False
      have "65535 \<notin> set ks"
      proof
        assume "65535 \<in> set ks"
        then have "65535 \<le> k" using k(2) by blast
        with False show False using word_successor [of k 65535] by (unat_arith, auto)
      qed
      moreover have "\<forall>k'\<in>set ks. k' < k + 1" using word_successor [of k] k(2) False by simp
      ultimately show ?thesis using k(1) False by (auto simp: g Some)
    qed (use k in \<open>simp add: g Some\<close>)
  qed
qed

theorem new_relation_key_witness:
  "\<exists>ws. generate_edge_update plain_ops section_base
        (RelationChange (Bid 1) (Bid 2) Section (Some \<lparr>w_payload = []\<rparr>) Remote)
      = Some (Some (RelationUpdate (Bid 1) (Bid 2) ws Remote))
    \<and> Option.bind (ws_get ws Section) sort_key = Some 0"
proof -
  have b: "Bid 1 \<in> keys (bb_graph section_base)" "Bid 2 \<in> keys (bb_graph section_base)"
    "edge_weight (g_edges (bb_relations section_base)) (Bid 1) (Bid 2) = None"
    by (simp_all add: section_base_def section_graph_def keys_def from_edges_def edge_weight_def)
  have k: "\<not> weight_contains_key \<lparr>w_payload = []\<rparr> WEIGHT_SORT_KEY"
    by (simp add: weight_contains_key_def bm_contains_def)
  have ks: "sink_keys Section (Bid 2) (g_edges (bb_relations section_base)) = []"
    by (simp add: sink_keys_def section_base_def section_graph_def from_edges_def)
  show ?thesis
    using new_relation_key [OF section_base_inv plain_ops_edges b k, of Section Remote]
    unfolding ks by (auto split: option.splits)
qed

end
