(* ===== verification/Pathmaps.thy ===== *)
theory Pathmaps
  imports GraphMerge "HOL-Library.Product_Lexorder"
begin

text \<open>
  Path maps (\<open>paths/pathmap.rs\<close>), first part: the identifier table \<open>IdMap\<close>, the order of entries, the
  path map of one network (\<open>PathMap\<close>), the collection of all of them (\<open>PathMapMap\<close>), how both are built
  from a graph, and the lookups.

  The locks are left out, as is the copy of the relation graph a \<open>PathMapMap\<close> shares with its base: the
  functions that read it take it as an argument. The depth-first search of \<open>petgraph\<close> is an argument:
  it lists the events of a search from a start node along the given arcs, without entering the sources
  the visitor prunes. \<open>None\<close> is a panic of \<open>expect\<close> or of an index.
\<close>

section \<open>Identifiers\<close>

record id_map =
  id_to_bid :: "(string, bid) bmap"
  bid_to_id :: "(bid, string) bmap"

definition id_map_empty :: id_map where
  "id_map_empty = \<lparr>id_to_bid = [], bid_to_id = []\<rparr>"

definition id_insert :: "string \<Rightarrow> bid \<Rightarrow> id_map \<Rightarrow> id_map" where
  "id_insert i b m =
     (let m = (case bm_get (bid_to_id m) b of
                 Some old_id \<Rightarrow> if old_id \<noteq> i then m\<lparr>id_to_bid := bm_remove old_id (id_to_bid m)\<rparr> else m
               | None \<Rightarrow> m);
          m = (case bm_get (id_to_bid m) i of
                 Some old_bid \<Rightarrow> if old_bid \<noteq> b then m\<lparr>bid_to_id := bm_remove old_bid (bid_to_id m)\<rparr> else m
               | None \<Rightarrow> m)
      in \<lparr>id_to_bid = bm_insert i b (id_to_bid m), bid_to_id = bm_insert b i (bid_to_id m)\<rparr>)"

definition get_bid :: "id_map \<Rightarrow> string \<Rightarrow> bid option" where
  "get_bid m i = bm_get (id_to_bid m) i"

text \<open>The regular expression is given by what it matches.\<close>

definition get_bid_from_regex :: "id_map \<Rightarrow> (string \<Rightarrow> bool) \<Rightarrow> bid option" where
  "get_bid_from_regex m re = map_option snd (find (\<lambda>(i, _). re i) (id_to_bid m))"

definition get_id :: "id_map \<Rightarrow> bid \<Rightarrow> string option" where
  "get_id m b = bm_get (bid_to_id m) b"

definition id_remove :: "bid \<Rightarrow> id_map \<Rightarrow> string option \<times> id_map" where
  "id_remove b m =
     (case bm_get (bid_to_id m) b of
        Some i \<Rightarrow> (Some i, \<lparr>id_to_bid = bm_remove i (id_to_bid m), bid_to_id = bm_remove b (bid_to_id m)\<rparr>)
      | None \<Rightarrow> (None, m))"

section \<open>Entries and their order\<close>

type_synonym entry = "string \<times> bid \<times> u16 list"

definition NETWORK_SECTION_SORT_KEY :: u16 where
  "NETWORK_SECTION_SORT_KEY = 2 ^ 16 - 1"

definition NETWORK_NAME :: string where
  "NETWORK_NAME = ''index.md''"

datatype ordering = Less | Equal | Greater

definition compare :: "'x::linorder \<Rightarrow> 'x \<Rightarrow> ordering" where
  "compare a b = (if a < b then Less else if a = b then Equal else Greater)"

fun first_difference :: "u16 list \<Rightarrow> u16 list \<Rightarrow> ordering option" where
  "first_difference (a # as) (b # bs) =
     (case compare a b of Equal \<Rightarrow> first_difference as bs | cmp \<Rightarrow> Some cmp)"
| "first_difference _ _ = None"

definition pathmap_order :: "u16 list \<Rightarrow> u16 list \<Rightarrow> ordering" where
  "pathmap_order a b =
     (case first_difference a b of Some cmp \<Rightarrow> cmp | None \<Rightarrow> compare (length a) (length b))"

definition entry_order :: "entry \<Rightarrow> entry \<Rightarrow> ordering" where
  "entry_order a b =
     (case (a, b) of ((_, bid_a, order_a), (_, bid_b, order_b)) \<Rightarrow>
        case pathmap_order order_a order_b of Equal \<Rightarrow> compare bid_a bid_b | cmp \<Rightarrow> cmp)"

text \<open>\<open>sort_by\<close> is stable.\<close>

fun insert_by :: "('x \<Rightarrow> 'x \<Rightarrow> ordering) \<Rightarrow> 'x \<Rightarrow> 'x list \<Rightarrow> 'x list" where
  "insert_by cmp x [] = [x]"
| "insert_by cmp x (y # ys) = (if cmp x y = Greater then y # insert_by cmp x ys else x # y # ys)"

definition sort_by :: "('x \<Rightarrow> 'x \<Rightarrow> ordering) \<Rightarrow> 'x list \<Rightarrow> 'x list" where
  "sort_by cmp xs = foldr (insert_by cmp) xs []"

definition order_key :: "u16 list \<Rightarrow> string" where
  "order_key order = str_join ''.'' (map (\<lambda>sk. show_nat (unat sk)) order)"

section \<open>The records\<close>

record path_map =
  p_map :: "entry list"
  p_bid_map :: "(bid, nat list) bmap"
  p_path_map :: "(string, nat) bmap"
  p_order_map :: "(string, nat) bmap"
  p_id_map :: id_map
  p_title_map :: id_map
  p_kind :: weight_kind
  p_net :: bid
  p_subnets :: "bid list"
  p_loops :: "(bid \<times> bid) list"

record path_map_map =
  n_map :: "(bref, path_map) bmap"
  n_root :: bid
  n_nets :: "bid list"
  n_docs :: "bid list"
  n_apis :: "bid list"
  n_titles :: "(bid, string) bmap"
  n_ids :: "(bid, string) bmap"

definition bs_remove :: "'x \<Rightarrow> 'x list \<Rightarrow> 'x list" where
  "bs_remove x xs = filter (\<lambda>y. y \<noteq> x) xs"

definition nets_is_anchor :: "path_map_map \<Rightarrow> bid \<Rightarrow> bool" where
  "nets_is_anchor nets b \<longleftrightarrow> b \<notin> set (n_docs nets)"

definition anchorize :: "'a text_ext_scheme \<Rightarrow> path_map_map \<Rightarrow> bid \<Rightarrow> string \<Rightarrow> string" where
  "anchorize X nets b subpath = (if \<not> nets_is_anchor nets b then subpath else as_anchor X subpath)"

definition generate_terminal_path ::
    "'a text_ext_scheme \<Rightarrow> bid \<Rightarrow> bid \<Rightarrow> string option \<Rightarrow> u16 \<Rightarrow> path_map_map \<Rightarrow> string" where
  "generate_terminal_path X source sink explicit_path index nets =
     (if sink \<in> set (n_apis nets) \<and> source \<in> set (n_nets nets) then bid_display X source
      else
        let given = (case explicit_path of Some p \<Rightarrow> if p \<noteq> [] then Some p else None | None \<Rightarrow> None);
            by_id = (case bm_get (n_ids nets) source of
                       Some i \<Rightarrow> if i \<noteq> bref_display (bref_of X source) then Some i else None
                     | None \<Rightarrow> None);
            by_title = (case bm_get (n_titles nets) source of
                          Some t \<Rightarrow> if to_anchor X t \<noteq> [] then Some (to_anchor X t) else None
                        | None \<Rightarrow> None)
        in unwrap_or (or_else (or_else given by_id) by_title) (show_nat (unat index)))"

text \<open>The assertion of debug builds at its end is left out.\<close>

definition generate_path_name ::
    "'a text_ext_scheme \<Rightarrow> bid \<Rightarrow> bid \<Rightarrow> string \<Rightarrow> string option \<Rightarrow> u16 \<Rightarrow> path_map_map \<Rightarrow> entry list
      \<Rightarrow> string" where
  "generate_path_name X source sink sink_path explicit_path index nets existing_map =
     (let terminal_path = generate_terminal_path X source sink explicit_path index nets;
          sink_ap = ap_new sink_path;
          full_path = ap_path (join X sink_ap (anchorize X nets source terminal_path));
          has_collision = list_ex (\<lambda>(path, b, _). path = full_path \<and> b \<noteq> source) existing_map;
          terminal_path = (if has_collision then bref_display (bref_of X source) else terminal_path)
      in ap_path (join X sink_ap (anchorize X nets source terminal_path)))"

section \<open>Indices\<close>

definition index_entry ::
    "nat \<times> entry \<Rightarrow> (bid, nat list) bmap \<times> (string, nat) bmap \<times> (string, nat) bmap
      \<Rightarrow> (bid, nat list) bmap \<times> (string, nat) bmap \<times> (string, nat) bmap" where
  "index_entry ie acc =
     (case (ie, acc) of ((idx, path, b, order), (bids, paths, orders)) \<Rightarrow>
        (bm_insert b (unwrap_or (bm_get bids b) [] @ [idx]) bids, bm_insert path idx paths,
         bm_insert (order_key order) idx orders))"

definition index_entries ::
    "entry list \<Rightarrow> (bid, nat list) bmap \<times> (string, nat) bmap \<times> (string, nat) bmap" where
  "index_entries es = fold index_entry (List.enumerate 0 es) ([], [], [])"

definition regenerate :: "path_map \<Rightarrow> path_map" where
  "regenerate pm =
     (case index_entries (p_map pm) of (bids, paths, orders) \<Rightarrow>
        pm\<lparr>p_bid_map := bids, p_path_map := paths, p_order_map := orders\<rparr>)"

definition sort_entries :: "path_map \<Rightarrow> path_map" where
  "sort_entries pm = pm\<lparr>p_map := sort_by entry_order (p_map pm)\<rparr>"

definition title_entry :: "'a text_ext_scheme \<Rightarrow> path_map_map \<Rightarrow> bid \<Rightarrow> id_map \<Rightarrow> id_map" where
  "title_entry X nets b m =
     (case bm_get (n_titles nets) b of
        Some title \<Rightarrow>
          if \<not> nets_is_anchor nets b \<and> to_anchor X title \<noteq> [] then id_insert title b m else m
      | None \<Rightarrow> m)"

definition id_entry :: "path_map_map \<Rightarrow> bid \<Rightarrow> id_map \<Rightarrow> id_map" where
  "id_entry nets b m = (case bm_get (n_ids nets) b of Some i \<Rightarrow> id_insert i b m | None \<Rightarrow> m)"

section \<open>Building a path map\<close>

datatype dfs_event =
    Discover bid
  | TreeEdge bid bid
  | BackEdge bid bid
  | CrossForwardEdge bid bid
  | Finish bid

type_synonym dfs = "(bid \<times> bid) list \<Rightarrow> (bid \<Rightarrow> bool) \<Rightarrow> bid \<Rightarrow> dfs_event list"

text \<open>
  The visitor's state: for each node on the stack its sinks, and the order and paths of what is below
  it; and the edges that close a loop.
\<close>

type_synonym sub_paths = "(bid, u16 list \<times> string list) bmap"

record visit_state =
  v_stack :: "(bid, bid list \<times> sub_paths) bmap"
  v_loops :: "(bid \<times> bid) list"

text \<open>
  The order and paths of a source below its sink. Below the root of the network, headings go under the
  reserved sort key and the file \<open>index.md\<close>.
\<close>

definition sub_path_info ::
    "'a text_ext_scheme \<Rightarrow> path_map_map \<Rightarrow> bid \<Rightarrow> bid \<Rightarrow> bid \<Rightarrow> u16 \<times> string list
      \<Rightarrow> u16 list \<times> string list" where
  "sub_path_info X nets net sink source edge_val =
     (case edge_val of (weight, paths) \<Rightarrow>
        let all_paths =
              (if paths \<noteq> [] then paths
               else [anchorize X nets source (generate_terminal_path X source sink None weight nets)])
        in if sink = net \<and> nets_is_anchor nets source
           then ([NETWORK_SECTION_SORT_KEY, weight], map (\<lambda>p. NETWORK_NAME @ p) all_paths)
           else ([weight], all_paths))"

definition visit_edge ::
    "'a text_ext_scheme \<Rightarrow> path_map_map \<Rightarrow> bid \<Rightarrow> ((bid \<times> bid) \<times> u16 \<times> string list) list
      \<Rightarrow> bool \<Rightarrow> bid \<Rightarrow> bid \<Rightarrow> visit_state \<Rightarrow> visit_state option" where
  "visit_edge X nets net edge_map back sink source st =
     (let loops = (if back then bs_insert (sink, source) (v_loops st) else v_loops st)
      in case (map_of edge_map (sink, source), bm_get (v_stack st) sink) of
           (Some edge_val, Some (sinks, subs)) \<Rightarrow>
             let info = sub_path_info X nets net sink source edge_val;
                 stack = bm_insert sink (sinks, bm_insert source info subs) (v_stack st);
                 (source_sinks, source_subs) = unwrap_or (bm_get stack source) ([], []);
                 stack = bm_insert source (bs_insert sink source_sinks, source_subs) stack
             in Some \<lparr>v_stack = (if source \<in> set (n_nets nets) \<and> source \<noteq> net
                                 then bm_remove source stack else stack),
                      v_loops = loops\<rparr>
         | _ \<Rightarrow> None)"

text \<open>What is below a finished source goes below one of its sinks.\<close>

definition hang_sub_paths ::
    "'a text_ext_scheme \<Rightarrow> u16 list \<times> string list \<Rightarrow> sub_paths \<Rightarrow> sub_paths \<Rightarrow> sub_paths" where
  "hang_sub_paths X base source_sub_paths sink_paths =
     fold (\<lambda>(b, path_order, subs).
         bm_insert b (fst base @ path_order,
           concat (map (\<lambda>base_path. map (\<lambda>sub_path. ap_path (join X (ap_new_dir base_path) sub_path)) subs)
             (snd base))))
       source_sub_paths sink_paths"

fun hang_on_sinks ::
    "'a text_ext_scheme \<Rightarrow> (bid \<times> bid) list \<Rightarrow> bid \<Rightarrow> sub_paths \<Rightarrow> bid list
      \<Rightarrow> (bid, bid list \<times> sub_paths) bmap \<Rightarrow> (bid, bid list \<times> sub_paths) bmap option" where
  "hang_on_sinks X loops source subs [] stack = Some stack"
| "hang_on_sinks X loops source subs (sink # sinks) stack =
     (if (sink, source) \<in> set loops then hang_on_sinks X loops source subs sinks stack
      else case bm_get stack sink of
          None \<Rightarrow> None
        | Some (sink_sinks, sink_paths) \<Rightarrow>
            (case bm_get sink_paths source of
               None \<Rightarrow> None
             | Some base \<Rightarrow>
                 hang_on_sinks X loops source subs sinks
                   (bm_insert sink (sink_sinks, hang_sub_paths X base subs sink_paths) stack)))"

definition visit_finish ::
    "'a text_ext_scheme \<Rightarrow> bid \<Rightarrow> bid \<Rightarrow> visit_state \<Rightarrow> visit_state option" where
  "visit_finish X net source st =
     (if source = net then Some st
      else case bm_get (v_stack st) source of
          None \<Rightarrow> None
        | Some (sinks, subs) \<Rightarrow>
            map_option (\<lambda>stack. st\<lparr>v_stack := stack\<rparr>)
              (hang_on_sinks X (v_loops st) source subs sinks (bm_remove source (v_stack st))))"

definition visit ::
    "'a text_ext_scheme \<Rightarrow> path_map_map \<Rightarrow> bid \<Rightarrow> ((bid \<times> bid) \<times> u16 \<times> string list) list
      \<Rightarrow> dfs_event \<Rightarrow> visit_state \<Rightarrow> visit_state option" where
  "visit X nets net edge_map event st =
     (case event of
        Discover sink \<Rightarrow>
          Some (if bm_contains (v_stack st) sink then st
                else st\<lparr>v_stack := bm_insert sink ([], []) (v_stack st)\<rparr>)
      | TreeEdge sink source \<Rightarrow> visit_edge X nets net edge_map False sink source st
      | CrossForwardEdge sink source \<Rightarrow> visit_edge X nets net edge_map False sink source st
      | BackEdge sink source \<Rightarrow> visit_edge X nets net edge_map True sink source st
      | Finish source \<Rightarrow> visit_finish X net source st)"

fun visit_all ::
    "'a text_ext_scheme \<Rightarrow> path_map_map \<Rightarrow> bid \<Rightarrow> ((bid \<times> bid) \<times> u16 \<times> string list) list
      \<Rightarrow> dfs_event list \<Rightarrow> visit_state \<Rightarrow> visit_state option" where
  "visit_all X nets net edge_map [] st = Some st"
| "visit_all X nets net edge_map (event # events) st =
     Option.bind (visit X nets net edge_map event st) (visit_all X nets net edge_map events)"

definition new_entries :: "bid \<Rightarrow> sub_paths \<Rightarrow> entry list" where
  "new_entries net inverted_path_map =
     sort_by entry_order
       ([([], net, []), (NETWORK_NAME, net, [NETWORK_SECTION_SORT_KEY])]
        @ concat (map (\<lambda>(b, order, paths). map (\<lambda>path. (path, b, order)) paths) inverted_path_map))"

definition path_map_new ::
    "'a text_ext_scheme \<Rightarrow> dfs \<Rightarrow> weight_kind \<Rightarrow> bid \<Rightarrow> path_map_map \<Rightarrow> bid_graph \<Rightarrow> path_map option" where
  "path_map_new X dfs_events kind net nets rels =
     (let tree_graph = map (\<lambda>(sink, source, weight, paths). ((sink, source), weight, paths))
            (as_subgraph rels kind True);
          prune = (\<lambda>source. source \<in> set (n_nets nets) \<and> source \<noteq> net);
          events = dfs_events (map fst tree_graph) prune net
      in Option.bind (visit_all X nets net (rev tree_graph) events \<lparr>v_stack = [], v_loops = []\<rparr>) (\<lambda>st.
           map_option (\<lambda>(_, inverted_path_map).
               let entries = new_entries net inverted_path_map;
                   (bids, paths, orders) = index_entries entries
               in sort_entries
                    \<lparr>p_map = entries, p_bid_map = bids, p_path_map = paths, p_order_map = orders,
                     p_id_map = fold (\<lambda>(_, b, _). id_entry nets b) entries id_map_empty,
                     p_title_map = fold (\<lambda>(_, b, _). title_entry X nets b) entries id_map_empty,
                     p_kind = kind, p_net = net,
                     p_subnets = bs_from_list (filter (\<lambda>b. b \<in> set (n_nets nets) \<and> b \<noteq> net)
                       (bm_keys inverted_path_map)),
                     p_loops = v_loops st\<rparr>)
             (bm_get (v_stack st) net)))"

section \<open>Building the collection\<close>

text \<open>\<open>PathMapMap::default\<close>, before its first path map.\<close>

definition no_maps :: "'a id_ext_scheme \<Rightarrow> build_env \<Rightarrow> path_map_map" where
  "no_maps X env =
     \<lparr>n_map = [], n_root = nd_bid (api_state X env), n_nets = [nd_bid (api_state X env)], n_docs = [],
      n_apis = [], n_titles = [], n_ids = []\<rparr>"

definition pmm_default :: "'a text_ext_scheme \<Rightarrow> build_env \<Rightarrow> dfs \<Rightarrow> path_map_map option" where
  "pmm_default X env dfs_events =
     (let pmm = no_maps X env
      in map_option (\<lambda>api_pm. pmm\<lparr>n_map := bm_insert (bref_of X (n_root pmm)) api_pm (n_map pmm)\<rparr>)
           (path_map_new X dfs_events Section (n_root pmm) pmm bg_empty))"

text \<open>What a node adds to the collection: shared by the constructor and the events.\<close>

definition note_node :: "'a text_ext_scheme \<Rightarrow> node \<Rightarrow> path_map_map \<Rightarrow> path_map_map" where
  "note_node X n pmm =
     (let b = nd_bid n;
          pmm = pmm\<lparr>n_titles := bm_insert b (nd_title n) (n_titles pmm),
                    n_ids := bm_insert b (node_id X n) (n_ids pmm)\<rparr>;
          pmm = (if API \<in> nd_kind n then pmm\<lparr>n_apis := bs_insert b (n_apis pmm)\<rparr> else pmm);
          pmm = (if kind_is_network (nd_kind n) then pmm\<lparr>n_nets := bs_insert b (n_nets pmm)\<rparr> else pmm)
      in if kind_is_document (nd_kind n) \<or> kind_is_external (nd_kind n)
         then pmm\<lparr>n_docs := bs_insert b (n_docs pmm)\<rparr> else pmm)"

definition note_network :: "node \<Rightarrow> path_map_map \<Rightarrow> path_map_map" where
  "note_network n pmm =
     pmm\<lparr>n_nets := bs_insert (nd_bid n) (n_nets pmm),
         n_titles := bm_insert (nd_bid n) (nd_title n) (n_titles pmm)\<rparr>"

definition add_new_map ::
    "'a text_ext_scheme \<Rightarrow> dfs \<Rightarrow> bid_graph \<Rightarrow> bid \<Rightarrow> path_map_map \<Rightarrow> path_map_map option" where
  "add_new_map X dfs_events rels net pmm =
     (if bm_contains (n_map pmm) (bref_of X net) then Some pmm
      else map_option (\<lambda>pm. pmm\<lparr>n_map := bm_insert (bref_of X net) pm (n_map pmm)\<rparr>)
             (path_map_new X dfs_events Section net pmm rels))"

fun add_new_maps ::
    "'a text_ext_scheme \<Rightarrow> dfs \<Rightarrow> bid_graph \<Rightarrow> bid list \<Rightarrow> path_map_map \<Rightarrow> path_map_map option" where
  "add_new_maps X dfs_events rels [] pmm = Some pmm"
| "add_new_maps X dfs_events rels (net # nets) pmm =
     Option.bind (add_new_map X dfs_events rels net pmm) (add_new_maps X dfs_events rels nets)"

definition pmm_new ::
    "'a text_ext_scheme \<Rightarrow> build_env \<Rightarrow> dfs \<Rightarrow> (bid, node) bmap \<Rightarrow> bid_graph \<Rightarrow> path_map_map option" where
  "pmm_new X env dfs_events sts rels =
     Option.bind (pmm_default X env dfs_events) (\<lambda>pmm.
       let pmm = fold (note_node X) (bm_values sts) pmm;
           pmm = pmm\<lparr>n_nets := bs_insert (n_root pmm) (n_nets pmm)\<rparr>;
           pmm = note_network (href_network X env) (note_network (asset_network X env) pmm);
           pmm = pmm\<lparr>n_map := []\<rparr>
       in add_new_maps X dfs_events rels (n_nets pmm) pmm)"

section \<open>Lookups in one map\<close>

definition order_for :: "path_map \<Rightarrow> u16 list \<Rightarrow> (bid \<times> string) option" where
  "order_for pm order =
     (if order = [] then None
      else map_option (\<lambda>idx. case p_map pm ! idx of (path, b, _) \<Rightarrow> (b, path))
             (bm_get (p_order_map pm) (order_key order)))"

definition order_for_bid :: "path_map \<Rightarrow> bid \<Rightarrow> (u16 list \<times> string) option" where
  "order_for_bid pm b =
     Option.bind (bm_get (p_bid_map pm) b) (\<lambda>idxs.
       case idxs of [] \<Rightarrow> None | idx # _ \<Rightarrow> (case p_map pm ! idx of (path, _, order) \<Rightarrow> Some (order, path)))"

definition bid_has_path :: "path_map \<Rightarrow> bid \<Rightarrow> bool" where
  "bid_has_path pm b = bm_contains (p_bid_map pm) b"

definition all_local_paths :: "path_map \<Rightarrow> bid \<Rightarrow> (bid \<times> string list) option" where
  "all_local_paths pm b =
     (let paths = map fst (filter (\<lambda>(_, a_bid, _). b = a_bid) (p_map pm))
      in if paths = [] then None else Some (p_net pm, paths))"

section \<open>Lookups across networks\<close>

text \<open>
  Lookups that fail in one map go on in the maps of its subnets, without a guard against networks that
  contain each other. \<open>net_search\<close> is their common shape: the first map that answers, in the order of the
  subnets; \<open>descend\<close> says how the question and the answer change on the way. Its first argument bounds
  the depth: \<open>None\<close> is a search that goes deeper, or a panic.
\<close>

definition get_map :: "'a id_ext_scheme \<Rightarrow> path_map_map \<Rightarrow> bref \<Rightarrow> path_map option" where
  "get_map X nets net =
     bm_get (n_map nets) (if net = bref_default X then bref_of X (n_root nets) else net)"

fun find_map_opt :: "('x \<Rightarrow> 'r option option) \<Rightarrow> 'x list \<Rightarrow> 'r option option" where
  "find_map_opt f [] = Some None"
| "find_map_opt f (x # xs) =
     (case f x of None \<Rightarrow> None | Some None \<Rightarrow> find_map_opt f xs | Some (Some r) \<Rightarrow> Some (Some r))"

fun net_search ::
    "nat \<Rightarrow> (bref \<Rightarrow> path_map option) \<Rightarrow> (bid \<Rightarrow> bref) \<Rightarrow> (path_map \<Rightarrow> 'q \<Rightarrow> 'r option)
      \<Rightarrow> (path_map \<Rightarrow> bid \<Rightarrow> 'q \<Rightarrow> ('q \<times> ('r \<Rightarrow> 'r)) option option) \<Rightarrow> path_map \<Rightarrow> 'q \<Rightarrow> 'r option option" where
  "net_search 0 map_of_net to_bref here descend pm q = None"
| "net_search (Suc depth) map_of_net to_bref here descend pm q =
     (case here pm q of
        Some r \<Rightarrow> Some (Some r)
      | None \<Rightarrow>
          find_map_opt (\<lambda>net_bid.
            case descend pm net_bid q of
              None \<Rightarrow> None
            | Some None \<Rightarrow> Some None
            | Some (Some (q', back)) \<Rightarrow>
                (case map_of_net (to_bref net_bid) of
                   None \<Rightarrow> Some None
                 | Some subnet \<Rightarrow> map_option (map_option back)
                     (net_search depth map_of_net to_bref here descend subnet q')))
            (p_subnets pm))"

definition same_question :: "path_map \<Rightarrow> bid \<Rightarrow> 'q \<Rightarrow> ('q \<times> ('r \<Rightarrow> 'r)) option option" where
  "same_question pm net_bid q = Some (Some (q, \<lambda>r. r))"

definition get_from_id ::
    "'a id_ext_scheme \<Rightarrow> path_map_map \<Rightarrow> nat \<Rightarrow> path_map \<Rightarrow> string \<Rightarrow> (bid \<times> bid) option option" where
  "get_from_id X nets depth =
     net_search depth (get_map X nets) (bref_of X)
       (\<lambda>pm i. map_option (Pair (p_net pm)) (get_bid (p_id_map pm) i)) same_question"

text \<open>The title is made an anchor before each lookup in a table whose keys are titles.\<close>

definition get_from_title ::
    "'a text_ext_scheme \<Rightarrow> path_map_map \<Rightarrow> nat \<Rightarrow> path_map \<Rightarrow> string \<Rightarrow> (bid \<times> bid) option option" where
  "get_from_title X nets depth =
     net_search depth (get_map X nets) (bref_of X)
       (\<lambda>pm title. map_option (Pair (p_net pm)) (get_bid (p_title_map pm) (to_anchor X title)))
       (\<lambda>pm net_bid title. Some (Some (to_anchor X title, \<lambda>r. r)))"

definition get_from_title_regex ::
    "'a id_ext_scheme \<Rightarrow> path_map_map \<Rightarrow> nat \<Rightarrow> path_map \<Rightarrow> (string \<Rightarrow> bool) \<Rightarrow> (bid \<times> bid) option option" where
  "get_from_title_regex X nets depth =
     net_search depth (get_map X nets) (bref_of X)
       (\<lambda>pm re. map_option (Pair (p_net pm)) (get_bid_from_regex (p_title_map pm) re)) same_question"

definition find_path :: "path_map \<Rightarrow> string \<Rightarrow> (bid \<times> bid \<times> u16 list) option" where
  "find_path pm path =
     map_option (\<lambda>(_, b, order). (p_net pm, b, order)) (find (\<lambda>(a_path, _, _). a_path = path) (p_map pm))"

text \<open>The first mount point of the subnet that the path starts with, and the rest of the path.\<close>

definition descend_path ::
    "path_map \<Rightarrow> bid \<Rightarrow> string
      \<Rightarrow> (string \<times> (bid \<times> bid \<times> u16 list \<Rightarrow> bid \<times> bid \<times> u16 list)) option option" where
  "descend_path pm net_bid path =
     (case find (\<lambda>idx. starts_with path (fst (p_map pm ! idx))) (unwrap_or (bm_get (p_bid_map pm) net_bid) []) of
        None \<Rightarrow> Some None
      | Some idx \<Rightarrow>
          (case p_map pm ! idx of (subnet_path, _, net_order) \<Rightarrow>
             Some (map_option (\<lambda>sub_path. (sub_path, \<lambda>(home_net, b, home_order). (home_net, b, net_order @ home_order)))
               (ap_strip_prefix (ap_new path) subnet_path))))"

definition indexed_get ::
    "'a id_ext_scheme \<Rightarrow> path_map_map \<Rightarrow> nat \<Rightarrow> path_map \<Rightarrow> string \<Rightarrow> (bid \<times> bid \<times> u16 list) option option" where
  "indexed_get X nets depth = net_search depth (get_map X nets) (bref_of X) find_path descend_path"

definition path_get ::
    "'a id_ext_scheme \<Rightarrow> path_map_map \<Rightarrow> nat \<Rightarrow> path_map \<Rightarrow> string \<Rightarrow> (bid \<times> bid) option option" where
  "path_get X nets depth pm path =
     map_option (map_option (\<lambda>(net_bid, path_bid, _). (net_bid, path_bid))) (indexed_get X nets depth pm path)"

definition find_bid :: "path_map \<Rightarrow> bid \<Rightarrow> (bid \<times> string \<times> u16 list) option" where
  "find_bid pm b =
     map_option (\<lambda>(a_path, _, order). (p_net pm, a_path, order)) (find (\<lambda>(_, a_bid, _). b = a_bid) (p_map pm))"

text \<open>A subnet without an entry of its own is a panic.\<close>

definition descend_bid ::
    "'a text_ext_scheme \<Rightarrow> path_map \<Rightarrow> bid \<Rightarrow> bid
      \<Rightarrow> (bid \<times> (bid \<times> string \<times> u16 list \<Rightarrow> bid \<times> string \<times> u16 list)) option option" where
  "descend_bid X pm net_bid b =
     (case bm_get (p_bid_map pm) net_bid of
        Some (first_idx # _) \<Rightarrow>
          (case p_map pm ! first_idx of (subnet_path, _, net_order) \<Rightarrow>
             Some (Some (b, \<lambda>(home_net, home_path, home_order).
               (home_net, ap_path (join X (ap_new_dir subnet_path) home_path), net_order @ home_order))))
      | _ \<Rightarrow> None)"

definition pm_path ::
    "'a text_ext_scheme \<Rightarrow> path_map_map \<Rightarrow> nat \<Rightarrow> path_map \<Rightarrow> bid \<Rightarrow> (bid \<times> string \<times> u16 list) option option" where
  "pm_path X nets depth = net_search depth (get_map X nets) (bref_of X) find_bid (descend_bid X)"

definition home_path ::
    "'a id_ext_scheme \<Rightarrow> path_map_map \<Rightarrow> nat \<Rightarrow> path_map \<Rightarrow> bid \<Rightarrow> (bid \<times> string) option option" where
  "home_path X nets depth =
     net_search depth (get_map X nets) (bref_of X)
       (\<lambda>pm b. if b \<in> set (n_nets nets) then Some (b, [])
               else map_option (\<lambda>(_, a_path, _). (p_net pm, a_path)) (find_bid pm b))
       same_question"

definition get_doc_from_id ::
    "'a text_ext_scheme \<Rightarrow> path_map_map \<Rightarrow> nat \<Rightarrow> path_map \<Rightarrow> bid \<Rightarrow> (string \<times> bid \<times> u16 list) option option" where
  "get_doc_from_id X nets depth pm b =
     (case pm_path X nets depth pm b of
        None \<Rightarrow> None
      | Some None \<Rightarrow> Some None
      | Some (Some (_, path_ref, _)) \<Rightarrow>
          (let file_path = filepath (ap_new path_ref)
           in map_option (map_option (\<lambda>(_, doc, order). (file_path, doc, order)))
                (indexed_get X nets depth pm file_path)))"

section \<open>Lists of paths\<close>

text \<open>
  \<open>all_paths\<close> and \<open>recursive_map\<close> follow the subnets too, with the set of networks visited so far: it is
  passed on from one subnet to the next.
\<close>

fun all_paths ::
    "'a text_ext_scheme \<Rightarrow> path_map_map \<Rightarrow> nat \<Rightarrow> path_map \<Rightarrow> bid list \<Rightarrow> (string list \<times> bid list) option"
  and all_paths_from ::
    "'a text_ext_scheme \<Rightarrow> path_map_map \<Rightarrow> nat \<Rightarrow> entry list \<Rightarrow> bid list \<Rightarrow> (string list \<times> bid list) option" where
  "all_paths X nets 0 pm visited = None"
| "all_paths X nets (Suc depth) pm visited =
     (if p_net pm \<in> set visited then Some ([], visited)
      else all_paths_from X nets depth (p_map pm) (bs_insert (p_net pm) visited))"
| "all_paths_from X nets depth [] visited = Some ([], visited)"
| "all_paths_from X nets depth ((a_path, a_bid, _) # es) visited =
     Option.bind
       (if a_bid \<in> set (n_nets nets) \<and> a_bid \<notin> set visited
        then case get_map X nets (bref_of X a_bid) of
            None \<Rightarrow> Some ([], visited)
          | Some subnet \<Rightarrow> map_option (\<lambda>(subs, visited).
              (map (\<lambda>subnet_path. ap_path (join X (ap_new_dir a_path) subnet_path)) subs, visited))
              (all_paths X nets depth subnet visited)
        else Some ([a_path], visited))
       (\<lambda>(paths, visited). map_option (\<lambda>(more, visited). (paths @ more, visited))
          (all_paths_from X nets depth es visited))"

definition subnet_indices :: "path_map \<Rightarrow> nat list" where
  "subnet_indices pm =
     List.map_filter (\<lambda>net_bid. case bm_get (p_bid_map pm) net_bid of Some (idx # _) \<Rightarrow> Some idx | _ \<Rightarrow> None)
       (p_subnets pm)"

fun recursive_map ::
    "'a text_ext_scheme \<Rightarrow> path_map_map \<Rightarrow> nat \<Rightarrow> path_map \<Rightarrow> bid list \<Rightarrow> (entry list \<times> bid list) option"
  and recursive_entries ::
    "'a text_ext_scheme \<Rightarrow> path_map_map \<Rightarrow> nat \<Rightarrow> nat list \<Rightarrow> (nat \<times> entry) list \<Rightarrow> bid list
      \<Rightarrow> (entry list \<times> bid list) option" where
  "recursive_map X nets 0 pm visited = None"
| "recursive_map X nets (Suc depth) pm visited =
     (if p_net pm \<in> set visited then Some ([], visited)
      else recursive_entries X nets depth (subnet_indices pm) (List.enumerate 0 (p_map pm))
             (bs_insert (p_net pm) visited))"
| "recursive_entries X nets depth idxs [] visited = Some ([], visited)"
| "recursive_entries X nets depth idxs ((idx, elem_path, elem_bid, elem_order) # es) visited =
     Option.bind
       (if idx \<in> set idxs
        then Option.bind (get_map X nets (bref_of X elem_bid)) (\<lambda>subnet.
               map_option (\<lambda>(subs, visited).
                 (map (\<lambda>(path, b, order). (ap_path (join X (ap_new_dir elem_path) path), b, elem_order @ order)) subs,
                  visited))
                 (recursive_map X nets depth subnet visited))
        else Some ([(elem_path, elem_bid, elem_order)], visited))
       (\<lambda>(paths, visited). map_option (\<lambda>(more, visited). (paths @ more, visited))
          (recursive_entries X nets depth idxs es visited))"

section \<open>Lookups in the collection\<close>

definition root_map_bref :: "'a id_ext_scheme \<Rightarrow> path_map_map \<Rightarrow> bref \<Rightarrow> bref" where
  "root_map_bref X nets net = (if net = bref_default X then bref_of X (n_root nets) else net)"

text \<open>A lookup in one network: nothing when it has no map.\<close>

definition in_net ::
    "'a id_ext_scheme \<Rightarrow> path_map_map \<Rightarrow> bref \<Rightarrow> (path_map \<Rightarrow> 'r option option) \<Rightarrow> 'r option option" where
  "in_net X nets net f =
     (case get_map X nets (root_map_bref X nets net) of None \<Rightarrow> Some None | Some pm \<Rightarrow> f pm)"

definition net_get_doc ::
    "'a text_ext_scheme \<Rightarrow> path_map_map \<Rightarrow> nat \<Rightarrow> bref \<Rightarrow> bid \<Rightarrow> (string \<times> bid \<times> u16 list) option option" where
  "net_get_doc X nets depth net b =
     (case get_map X nets net of None \<Rightarrow> Some None | Some pm \<Rightarrow> get_doc_from_id X nets depth pm b)"

definition get_doc ::
    "'a text_ext_scheme \<Rightarrow> path_map_map \<Rightarrow> nat \<Rightarrow> bid \<Rightarrow> (string \<times> bid \<times> u16 list) option option" where
  "get_doc X nets depth b = find_map_opt (\<lambda>pm. get_doc_from_id X nets depth pm b) (bm_values (n_map nets))"

definition net_get_from_path ::
    "'a id_ext_scheme \<Rightarrow> path_map_map \<Rightarrow> nat \<Rightarrow> bref \<Rightarrow> string \<Rightarrow> (bid \<times> bid) option option" where
  "net_get_from_path X nets depth net path = in_net X nets net (\<lambda>pm. path_get X nets depth pm path)"

definition net_get_from_title ::
    "'a text_ext_scheme \<Rightarrow> path_map_map \<Rightarrow> nat \<Rightarrow> bref \<Rightarrow> string \<Rightarrow> (bid \<times> bid) option option" where
  "net_get_from_title X nets depth net title = in_net X nets net (\<lambda>pm. get_from_title X nets depth pm title)"

definition net_get_from_id ::
    "'a id_ext_scheme \<Rightarrow> path_map_map \<Rightarrow> nat \<Rightarrow> bref \<Rightarrow> string \<Rightarrow> (bid \<times> bid) option option" where
  "net_get_from_id X nets depth net i = in_net X nets net (\<lambda>pm. get_from_id X nets depth pm i)"

definition pmm_get ::
    "'a id_ext_scheme \<Rightarrow> path_map_map \<Rightarrow> nat \<Rightarrow> string \<Rightarrow> (bid \<times> bid) option option" where
  "pmm_get X nets depth path = find_map_opt (\<lambda>pm. path_get X nets depth pm path) (bm_values (n_map nets))"

definition net_indexed_path ::
    "'a text_ext_scheme \<Rightarrow> path_map_map \<Rightarrow> nat \<Rightarrow> bref \<Rightarrow> bid \<Rightarrow> (bid \<times> string \<times> u16 list) option option" where
  "net_indexed_path X nets depth net b = in_net X nets net (\<lambda>pm. pm_path X nets depth pm b)"

definition net_path ::
    "'a text_ext_scheme \<Rightarrow> path_map_map \<Rightarrow> nat \<Rightarrow> bref \<Rightarrow> bid \<Rightarrow> (bid \<times> string) option option" where
  "net_path X nets depth net b =
     map_option (map_option (\<lambda>(net_bid, path, _). (net_bid, path))) (net_indexed_path X nets depth net b)"

definition indexed_path ::
    "'a text_ext_scheme \<Rightarrow> path_map_map \<Rightarrow> nat \<Rightarrow> bid \<Rightarrow> (bid \<times> string \<times> u16 list) option option" where
  "indexed_path X nets depth b = find_map_opt (\<lambda>pm. pm_path X nets depth pm b) (bm_values (n_map nets))"

definition pmm_path ::
    "'a text_ext_scheme \<Rightarrow> path_map_map \<Rightarrow> nat \<Rightarrow> bid \<Rightarrow> (bid \<times> string) option option" where
  "pmm_path X nets depth b =
     map_option (map_option (\<lambda>(home_net, path, _). (home_net, path))) (indexed_path X nets depth b)"

definition pmm_all_local_paths :: "path_map_map \<Rightarrow> bid \<Rightarrow> (bid \<times> string list) list" where
  "pmm_all_local_paths nets b = List.map_filter (\<lambda>pm. all_local_paths pm b) (bm_values (n_map nets))"

definition pmm_all_paths :: "path_map_map \<Rightarrow> (bref, entry list) bmap" where
  "pmm_all_paths nets = map (\<lambda>(net, pm). (net, p_map pm)) (n_map nets)"

text \<open>
  The maps of the three networks every collection has; when one is missing, a map made for the occasion
  from the relations given.
\<close>

definition map_or_new ::
    "'a text_ext_scheme \<Rightarrow> dfs \<Rightarrow> bid_graph \<Rightarrow> path_map_map \<Rightarrow> bid \<Rightarrow> path_map option" where
  "map_or_new X dfs_events rels nets net =
     (case bm_get (n_map nets) (bref_of X net) of
        Some pm \<Rightarrow> Some pm
      | None \<Rightarrow> path_map_new X dfs_events Section net nets rels)"

definition api_map :: "'a text_ext_scheme \<Rightarrow> dfs \<Rightarrow> bid_graph \<Rightarrow> path_map_map \<Rightarrow> path_map option" where
  "api_map X dfs_events rels nets = map_or_new X dfs_events rels nets (n_root nets)"

definition asset_map :: "'a text_ext_scheme \<Rightarrow> dfs \<Rightarrow> bid_graph \<Rightarrow> path_map_map \<Rightarrow> path_map option" where
  "asset_map X dfs_events rels nets = map_or_new X dfs_events rels nets asset_namespace"

definition href_map :: "'a text_ext_scheme \<Rightarrow> dfs \<Rightarrow> bid_graph \<Rightarrow> path_map_map \<Rightarrow> path_map option" where
  "href_map X dfs_events rels nets = map_or_new X dfs_events rels nets href_namespace"

end
