(* ===== verification/PathEvents.thy ===== *)
theory PathEvents
  imports Pathmaps
begin

text \<open>
  Path maps (\<open>paths/pathmap.rs\<close>), second part: what events change. A relation update is worked on a
  list of entries with the indices taken before the first change, from back to front; an index that has
  gone stale on the way is a panic (\<open>None\<close>) where the list has become too short for it.
\<close>

section \<open>Entries below an entry\<close>

definition entry_at :: "entry list \<Rightarrow> nat \<Rightarrow> entry option" where
  "entry_at es i = (if i < length es then Some (es ! i) else None)"

definition insert_at :: "nat \<Rightarrow> entry \<Rightarrow> entry list \<Rightarrow> entry list option" where
  "insert_at i e es = (if i \<le> length es then Some (take i es @ e # drop i es) else None)"

definition remove_at :: "nat \<Rightarrow> entry list \<Rightarrow> entry list" where
  "remove_at i es = take i es @ drop (Suc i) es"

fun sub_indices_from :: "bool \<Rightarrow> u16 list \<Rightarrow> nat \<Rightarrow> entry list \<Rightarrow> nat list" where
  "sub_indices_from direct sink_order idx [] = []"
| "sub_indices_from direct sink_order idx ((_, _, order) # es) =
     (if \<not> prefix sink_order order then []
      else if sink_order = order \<or> length order \<noteq> length sink_order + 1 \<and> direct
      then sub_indices_from direct sink_order (Suc idx) es
      else idx # sub_indices_from direct sink_order (Suc idx) es)"

text \<open>For each entry of a node its index and the indices of what is below it.\<close>

definition source_sub_indices :: "path_map \<Rightarrow> bid \<Rightarrow> bool \<Rightarrow> (nat \<times> nat list) list" where
  "source_sub_indices pm source direct =
     map (\<lambda>start. (start, sub_indices_from direct (snd (snd (p_map pm ! start))) start (drop start (p_map pm))))
       (unwrap_or (bm_get (p_bid_map pm) source) [])"

section \<open>Removing a relation\<close>

fun remove_below :: "u16 list \<Rightarrow> nat list \<Rightarrow> entry list \<times> string list \<Rightarrow> (entry list \<times> string list) option" where
  "remove_below source_order [] acc = Some acc"
| "remove_below source_order (idx # idxs) (es, paths) =
     (case entry_at es idx of
        None \<Rightarrow> None
      | Some (path, _, order) \<Rightarrow>
          if prefix source_order order
          then remove_below source_order idxs (remove_at idx es, paths @ [path])
          else remove_below source_order idxs (es, paths))"

definition remove_source ::
    "bid \<Rightarrow> nat list \<Rightarrow> entry list \<times> string list \<Rightarrow> (entry list \<times> string list) option" where
  "remove_source source sub_indices acc =
     (case find_map_opt (\<lambda>idx. map_option (\<lambda>(_, b, order). if source = b then Some order else None)
             (entry_at (fst acc) idx)) sub_indices of
        None \<Rightarrow> None
      | Some None \<Rightarrow> Some acc
      | Some (Some source_order) \<Rightarrow> remove_below source_order (rev sub_indices) acc)"

fun remove_sources ::
    "bid \<Rightarrow> (nat \<times> nat list) list \<Rightarrow> entry list \<times> string list \<Rightarrow> (entry list \<times> string list) option" where
  "remove_sources source [] acc = Some acc"
| "remove_sources source ((_, sub_indices) # rest) acc =
     Option.bind (remove_source source sub_indices acc) (remove_sources source rest)"

definition keep_subnets :: "path_map \<Rightarrow> path_map" where
  "keep_subnets pm = pm\<lparr>p_subnets := filter (\<lambda>b. bm_contains (p_bid_map pm) b) (p_subnets pm)\<rparr>"

definition relation_removed ::
    "'a id_ext_scheme \<Rightarrow> bid \<Rightarrow> (nat \<times> nat list) list \<Rightarrow> path_map \<Rightarrow> (path_map \<times> belief_event list) option" where
  "relation_removed X source sink_sub_indices pm =
     map_option (\<lambda>(es, paths).
         if paths \<noteq> []
         then (keep_subnets (regenerate (pm\<lparr>p_map := es\<rparr>)),
               [PathsRemoved (bref_of X (p_net pm)) paths Local])
         else (pm\<lparr>p_map := es\<rparr>, []))
       (remove_sources source (rev sink_sub_indices) (p_map pm, []))"

section \<open>Adding or changing a relation\<close>

record update_state =
  u_entries :: "entry list"
  u_processed :: "string list"
  u_events :: "belief_event list"

fun insert_paths ::
    "bref \<Rightarrow> bid \<Rightarrow> u16 list \<Rightarrow> nat \<Rightarrow> string list \<Rightarrow> update_state \<Rightarrow> update_state option" where
  "insert_paths net source new_order insert_idx [] st = Some st"
| "insert_paths net source new_order insert_idx (new_path # paths) st =
     (case insert_at insert_idx (new_path, source, new_order) (u_entries st) of
        None \<Rightarrow> None
      | Some es \<Rightarrow>
          insert_paths net source new_order (Suc insert_idx) paths
            (st\<lparr>u_entries := es, u_events := u_events st @ [PathAdded net new_path source new_order Local]\<rparr>))"

text \<open>The entries after a moved one and below it get its new order in front.\<close>

fun retarget :: "u16 list \<Rightarrow> u16 list \<Rightarrow> entry list \<Rightarrow> entry list" where
  "retarget old_order new_order [] = []"
| "retarget old_order new_order ((path, b, order) # es) =
     (if \<not> prefix old_order order then (path, b, order) # es
      else (path, b, if length order \<ge> length new_order then new_order @ drop (length new_order) order else order)
           # retarget old_order new_order es)"

definition keep_path ::
    "bref \<Rightarrow> bid \<Rightarrow> u16 list \<Rightarrow> string list \<Rightarrow> nat \<times> string \<times> u16 list \<Rightarrow> update_state \<Rightarrow> update_state" where
  "keep_path net source new_order new_paths old st =
     (case old of (old_idx, old_path, _) \<Rightarrow>
        if old_path \<in> set new_paths
        then st\<lparr>u_entries := (u_entries st)[old_idx := (let (p, b, _) = u_entries st ! old_idx in (p, b, new_order))],
                u_events := u_events st @ [PathUpdate net old_path source new_order Local]\<rparr>
        else st)"

definition drop_path :: "bid \<Rightarrow> string \<Rightarrow> entry list \<Rightarrow> entry list" where
  "drop_path source path es =
     (case find (\<lambda>i. fst (es ! i) = path \<and> fst (snd (es ! i)) = source) [0..<length es] of
        Some pos \<Rightarrow> remove_at pos es
      | None \<Rightarrow> es)"

definition replace_paths ::
    "bref \<Rightarrow> bid \<Rightarrow> u16 list \<Rightarrow> string list \<Rightarrow> string list \<Rightarrow> nat list \<Rightarrow> update_state \<Rightarrow> update_state option" where
  "replace_paths net source new_order new_paths deduped_paths idxs st =
     (let old_entries = map (\<lambda>idx. (idx, fst (u_entries st ! idx), snd (snd (u_entries st ! idx)))) idxs;
          (first_idx, _, old_order) = hd old_entries;
          st = (if old_order \<noteq> new_order
                then st\<lparr>u_entries := take (Suc first_idx) (u_entries st)
                        @ retarget old_order new_order (drop (Suc first_idx) (u_entries st))\<rparr>
                else st);
          old_paths = bs_from_list (map (\<lambda>(_, p, _). p) old_entries);
          new_paths_set = bs_from_list new_paths;
          paths_to_remove = filter (\<lambda>p. p \<notin> set new_paths_set \<and> p \<notin> set deduped_paths) old_paths;
          paths_to_add = filter (\<lambda>p. p \<notin> set old_paths) new_paths_set;
          st = st\<lparr>u_events := u_events st @ map (\<lambda>p. PathsRemoved net [p] Local) paths_to_remove\<rparr>;
          st = fold (keep_path net source new_order new_paths_set) old_entries st
      in map_option (\<lambda>st. st\<lparr>u_entries := fold (drop_path source) (rev paths_to_remove) (u_entries st)\<rparr>)
           (insert_paths net source new_order (Suc (last idxs)) paths_to_add st))"

definition relation_paths ::
    "'a text_ext_scheme \<Rightarrow> path_map_map \<Rightarrow> bid \<Rightarrow> bid \<Rightarrow> weight \<Rightarrow> u16 \<Rightarrow> string \<Rightarrow> entry list \<Rightarrow> string list" where
  "relation_paths X nets source sink new_weight new_idx sink_path es =
     (let sink_path_without_anchor = filepath (ap_new sink_path);
          paths = get_doc_paths new_weight;
          name = (\<lambda>p. generate_path_name X source sink sink_path_without_anchor p new_idx nets es)
      in sort (if paths = [] then [name None] else map (\<lambda>p. name (Some p)) paths))"

definition update_sink_entry ::
    "'a text_ext_scheme \<Rightarrow> path_map_map \<Rightarrow> bref \<Rightarrow> bid \<Rightarrow> bid \<Rightarrow> weight \<Rightarrow> u16 \<Rightarrow> nat \<times> nat list
      \<Rightarrow> update_state \<Rightarrow> update_state option" where
  "update_sink_entry X nets net source sink new_weight new_idx si st =
     (case si of (sink_index, sub_indices) \<Rightarrow>
        case entry_at (u_entries st) sink_index of
          None \<Rightarrow> None
        | Some (sink_path, _, sink_order) \<Rightarrow>
            let new_order = sink_order @ [new_idx];
                new_paths = relation_paths X nets source sink new_weight new_idx sink_path (u_entries st);
                deduped_paths = filter (\<lambda>p. p \<in> set (u_processed st)) new_paths;
                new_paths = filter (\<lambda>p. p \<notin> set (u_processed st)) new_paths;
                st = st\<lparr>u_processed := u_processed st @ new_paths\<rparr>
            in if \<not> list_all (\<lambda>idx. idx < length (u_entries st)) sub_indices then None
               else
                 let idxs = filter (\<lambda>idx. fst (snd (u_entries st ! idx)) = source) (rev sub_indices)
                 in if idxs = []
                    then insert_paths net source new_order
                           (Suc (if sub_indices = [] then sink_index else last sub_indices)) new_paths st
                    else replace_paths net source new_order new_paths deduped_paths idxs st)"

fun update_sink_entries ::
    "'a text_ext_scheme \<Rightarrow> path_map_map \<Rightarrow> bref \<Rightarrow> bid \<Rightarrow> bid \<Rightarrow> weight \<Rightarrow> u16 \<Rightarrow> (nat \<times> nat list) list
      \<Rightarrow> update_state \<Rightarrow> update_state option" where
  "update_sink_entries X nets net source sink new_weight new_idx [] st = Some st"
| "update_sink_entries X nets net source sink new_weight new_idx (si # sis) st =
     Option.bind (update_sink_entry X nets net source sink new_weight new_idx si st)
       (update_sink_entries X nets net source sink new_weight new_idx sis)"

definition is_path_added :: "belief_event \<Rightarrow> bool" where
  "is_path_added ev = (case ev of PathAdded _ _ _ _ _ \<Rightarrow> True | _ \<Rightarrow> False)"

definition finish_update ::
    "'a text_ext_scheme \<Rightarrow> path_map_map \<Rightarrow> bid \<Rightarrow> path_map \<Rightarrow> update_state \<Rightarrow> path_map \<times> belief_event list" where
  "finish_update X nets source pm st =
     (let pm = pm\<lparr>p_map := u_entries st\<rparr>
      in if u_events st = [] then (pm, [])
         else
           let pm = regenerate pm;
               pm = (if source \<in> set (n_nets nets) \<and> p_net pm \<noteq> source
                     then pm\<lparr>p_subnets := bs_insert source (p_subnets pm)\<rparr> else pm);
               pm = keep_subnets pm
           in if list_ex is_path_added (u_events st)
              then (pm\<lparr>p_title_map := title_entry X nets source (p_title_map pm),
                       p_id_map := id_entry nets source (p_id_map pm)\<rparr>, u_events st)
              else (pm, u_events st))"

text \<open>
  The root of the network has two entries, \<open>""\<close> for documents and \<open>index.md\<close> for headings: only the one
  that suits the source counts.
\<close>

definition suitable_sinks :: "path_map_map \<Rightarrow> bid \<Rightarrow> bid \<Rightarrow> path_map \<Rightarrow> (nat \<times> nat list) list" where
  "suitable_sinks nets source sink pm =
     (let sis = source_sub_indices pm sink False
      in if sink = p_net pm \<and> length sis > 1
         then filter (\<lambda>(sink_index, _).
             let sink_order = snd (snd (p_map pm ! sink_index))
             in if nets_is_anchor nets source
                then sink_order \<noteq> [] \<and> hd sink_order = NETWORK_SECTION_SORT_KEY else sink_order = []) sis
         else sis)"

definition process_relation_update ::
    "'a text_ext_scheme \<Rightarrow> bid \<Rightarrow> bid \<Rightarrow> weight_set \<Rightarrow> path_map_map \<Rightarrow> path_map
      \<Rightarrow> (path_map \<times> belief_event list) option" where
  "process_relation_update X source sink weightset nets pm =
     (if source_sub_indices pm sink False = [] then Some (pm, [])
      else if sink \<in> set (n_nets nets) \<and> p_net pm \<noteq> sink then Some (pm, [])
      else
        let sink_sub_indices = suitable_sinks nets source sink pm
        in case ws_get weightset (p_kind pm) of
             None \<Rightarrow> relation_removed X source sink_sub_indices pm
           | Some new_weight \<Rightarrow>
               (case sort_key new_weight of
                  None \<Rightarrow> Some (pm, [])
                | Some new_idx \<Rightarrow>
                    map_option (finish_update X nets source pm)
                      (update_sink_entries X nets (bref_of X (p_net pm)) source sink new_weight new_idx
                        (rev sink_sub_indices) \<lparr>u_entries = p_map pm, u_processed = [], u_events = []\<rparr>)))"

section \<open>Renaming and events\<close>

definition rename_entries :: "bid \<Rightarrow> bid \<Rightarrow> entry list \<Rightarrow> entry list" where
  "rename_entries from_bid to_bid es =
     map (\<lambda>(path, b, order). (path, if b = from_bid then to_bid else b, order)) es"

definition rename_id :: "bid \<Rightarrow> bid \<Rightarrow> id_map \<Rightarrow> id_map" where
  "rename_id from_bid to_bid m =
     (case id_remove from_bid m of (Some i, m) \<Rightarrow> id_insert i to_bid m | (None, m) \<Rightarrow> m)"

definition node_renamed ::
    "'a id_ext_scheme \<Rightarrow> bid \<Rightarrow> bid \<Rightarrow> path_map \<Rightarrow> path_map \<times> belief_event list" where
  "node_renamed X from_bid to_bid pm =
     (let other = (\<lambda>b. if b = from_bid then to_bid else b);
          events = map (\<lambda>(path, _, order). PathUpdate (bref_of X (p_net pm)) path to_bid order Local)
            (filter (\<lambda>(_, b, _). b = from_bid) (p_map pm));
          bids = (case bm_get (p_bid_map pm) from_bid of
                    Some idxs \<Rightarrow> bm_insert to_bid idxs (bm_remove from_bid (p_bid_map pm))
                  | None \<Rightarrow> p_bid_map pm)
      in (pm\<lparr>p_map := rename_entries from_bid to_bid (p_map pm), p_bid_map := bids,
             p_id_map := rename_id from_bid to_bid (p_id_map pm),
             p_title_map := rename_id from_bid to_bid (p_title_map pm),
             p_subnets := (if from_bid \<in> set (p_subnets pm)
                           then bs_insert to_bid (bs_remove from_bid (p_subnets pm)) else p_subnets pm),
             p_loops := bs_from_list (map (\<lambda>(s, t). (other s, other t)) (p_loops pm))\<rparr>, events))"

definition pm_process_event ::
    "'a text_ext_scheme \<Rightarrow> belief_event \<Rightarrow> path_map_map \<Rightarrow> path_map \<Rightarrow> (path_map \<times> belief_event list) option" where
  "pm_process_event X event nets pm =
     (case event of
        NodeRenamed from_bid to_bid _ \<Rightarrow> Some (node_renamed X from_bid to_bid pm)
      | RelationUpdate source sink weightset _ \<Rightarrow> process_relation_update X source sink weightset nets pm
      | RelationRemoved source sink _ \<Rightarrow> process_relation_update X source sink ws_empty nets pm
      | _ \<Rightarrow> Some (pm, []))"

text \<open>An event is given to the map of each network in turn.\<close>

fun process_in_maps ::
    "'a text_ext_scheme \<Rightarrow> belief_event \<Rightarrow> path_map_map \<Rightarrow> (bref, path_map) bmap
      \<Rightarrow> ((bref, path_map) bmap \<times> belief_event list) option" where
  "process_in_maps X event nets [] = Some ([], [])"
| "process_in_maps X event nets ((net, pm) # maps) =
     Option.bind (pm_process_event X event nets pm) (\<lambda>(pm, events).
       map_option (\<lambda>(maps, more). ((net, pm) # maps, events @ more)) (process_in_maps X event nets maps))"

definition process_nodes_removed :: "'a id_ext_scheme \<Rightarrow> bid list \<Rightarrow> path_map_map \<Rightarrow> path_map_map" where
  "process_nodes_removed X bids pmm =
     fold (\<lambda>b pmm. pmm\<lparr>n_nets := bs_remove b (n_nets pmm), n_ids := bm_remove b (n_ids pmm),
                        n_docs := bs_remove b (n_docs pmm), n_titles := bm_remove b (n_titles pmm),
                        n_map := bm_remove (bref_of X b) (n_map pmm)\<rparr>) bids pmm"

definition move_key :: "'k::linorder \<Rightarrow> 'k \<Rightarrow> ('k, 'v) bmap \<Rightarrow> ('k, 'v) bmap" where
  "move_key from_key to_key m =
     (case bm_get m from_key of Some v \<Rightarrow> bm_insert to_key v (bm_remove from_key m) | None \<Rightarrow> m)"

definition move_member :: "'k::linorder \<Rightarrow> 'k \<Rightarrow> 'k list \<Rightarrow> 'k list" where
  "move_member from_key to_key xs =
     (if from_key \<in> set xs then bs_insert to_key (bs_remove from_key xs) else xs)"

definition process_node_renamed :: "'a id_ext_scheme \<Rightarrow> bid \<Rightarrow> bid \<Rightarrow> path_map_map \<Rightarrow> path_map_map" where
  "process_node_renamed X from_bid to_bid pmm =
     pmm\<lparr>n_nets := move_member from_bid to_bid (n_nets pmm), n_ids := move_key from_bid to_bid (n_ids pmm),
         n_docs := move_member from_bid to_bid (n_docs pmm),
         n_titles := move_key from_bid to_bid (n_titles pmm),
         n_map := move_key (bref_of X from_bid) (bref_of X to_bid) (n_map pmm)\<rparr>"

definition first_pass ::
    "'a text_ext_scheme \<Rightarrow> (string \<Rightarrow> buildonomy_error + node) \<Rightarrow> belief_event \<Rightarrow> path_map_map \<Rightarrow> path_map_map" where
  "first_pass X parse event pmm =
     (case event of
        NodeUpdate _ toml_str _ \<Rightarrow> (case parse toml_str of Inr n \<Rightarrow> note_node X n pmm | Inl _ \<Rightarrow> pmm)
      | NodesRemoved bids _ \<Rightarrow> process_nodes_removed X bids pmm
      | _ \<Rightarrow> pmm)"

definition second_pass ::
    "'a text_ext_scheme \<Rightarrow> dfs \<Rightarrow> (string \<Rightarrow> buildonomy_error + node) \<Rightarrow> bid_graph \<Rightarrow> belief_event
      \<Rightarrow> path_map_map \<Rightarrow> (path_map_map \<times> belief_event list) option" where
  "second_pass X dfs_events parse rels event pmm =
     (let in_maps = (\<lambda>pmm. map_option (\<lambda>(maps, events). (pmm\<lparr>n_map := maps\<rparr>, events))
            (process_in_maps X event pmm (n_map pmm)))
      in case event of
           NodeUpdate _ toml_str _ \<Rightarrow>
             (case parse toml_str of
                Inl _ \<Rightarrow> Some (pmm, [])
              | Inr n \<Rightarrow>
                  if kind_is_network (nd_kind n)
                     \<and> \<not> (Trace \<in> nd_kind n \<and> bm_contains (n_map pmm) (bref_of X (nd_bid n)))
                  then map_option (\<lambda>pm. (pmm\<lparr>n_map := bm_insert (bref_of X (nd_bid n)) pm (n_map pmm)\<rparr>, []))
                         (path_map_new X dfs_events Section (nd_bid n) pmm rels)
                  else Some (pmm, []))
         | NodeRenamed from_bid to_bid _ \<Rightarrow> in_maps (process_node_renamed X from_bid to_bid pmm)
         | RelationUpdate _ _ _ _ \<Rightarrow> in_maps pmm
         | RelationRemoved _ _ _ \<Rightarrow> in_maps pmm
         | _ \<Rightarrow> Some (pmm, []))"

fun second_passes ::
    "'a text_ext_scheme \<Rightarrow> dfs \<Rightarrow> (string \<Rightarrow> buildonomy_error + node) \<Rightarrow> bid_graph \<Rightarrow> belief_event list
      \<Rightarrow> path_map_map \<times> belief_event list \<Rightarrow> (path_map_map \<times> belief_event list) option" where
  "second_passes X dfs_events parse rels [] acc = Some acc"
| "second_passes X dfs_events parse rels (event # events) (pmm, path_events) =
     Option.bind (second_pass X dfs_events parse rels event pmm) (\<lambda>(pmm, more).
       second_passes X dfs_events parse rels events (pmm, path_events @ more))"

definition sort_and_regenerate :: "path_map \<Rightarrow> path_map" where
  "sort_and_regenerate pm = regenerate (sort_entries pm)"

definition process_event_queue ::
    "'a text_ext_scheme \<Rightarrow> dfs \<Rightarrow> (string \<Rightarrow> buildonomy_error + node) \<Rightarrow> belief_event list \<Rightarrow> bid_graph
      \<Rightarrow> path_map_map \<Rightarrow> (path_map_map \<times> belief_event list) option" where
  "process_event_queue X dfs_events parse events rels pmm =
     map_option (\<lambda>(pmm, path_events).
         (pmm\<lparr>n_map := map (\<lambda>(net, pm). (net, sort_and_regenerate pm)) (n_map pmm)\<rparr>, path_events))
       (second_passes X dfs_events parse rels events (fold (first_pass X parse) events pmm, []))"

end
