(* ===== verification/PathProps.thy ===== *)
theory PathProps
  imports PathEvents
begin

text \<open>
  What holds of path maps: the identifier table is one to one, entries are sorted lexicographically, the
  indices agree with the entries, which lookups return for every collection, and what removals leave.
\<close>

section \<open>Identifiers\<close>

definition id_ok :: "id_map \<Rightarrow> bool" where
  "id_ok m \<longleftrightarrow> bm_ok (id_to_bid m) \<and> bm_ok (bid_to_id m)
     \<and> (\<forall>i b. bm_get (id_to_bid m) i = Some b \<longleftrightarrow> bm_get (bid_to_id m) b = Some i)"

lemma id_ok_empty: "id_ok id_map_empty"
  by (simp add: id_ok_def id_map_empty_def)

lemma id_okD:
  assumes "id_ok m"
  shows "bm_get (id_to_bid m) i = Some b \<longleftrightarrow> bm_get (bid_to_id m) b = Some i"
    "bm_get (bid_to_id m) b = Some i \<Longrightarrow> bm_get (bid_to_id m) c = Some i \<Longrightarrow> b = c"
proof -
  show r: "bm_get (id_to_bid m) i = Some b \<longleftrightarrow> bm_get (bid_to_id m) b = Some i" for i b
    using assms by (simp add: id_ok_def)
  show "bm_get (bid_to_id m) b = Some i \<Longrightarrow> bm_get (bid_to_id m) c = Some i \<Longrightarrow> b = c"
    unfolding r [symmetric] by simp
qed

lemma id_insert_get:
  assumes "id_ok m"
  shows "bm_get (id_to_bid (id_insert i b m)) j =
      (if j = i then Some b else if bm_get (id_to_bid m) j = Some b then None else bm_get (id_to_bid m) j)"
    "bm_get (bid_to_id (id_insert i b m)) c =
      (if c = b then Some i else if bm_get (bid_to_id m) c = Some i then None else bm_get (bid_to_id m) c)"
proof -
  note u = id_okD [OF assms]
  show "bm_get (id_to_bid (id_insert i b m)) j =
      (if j = i then Some b else if bm_get (id_to_bid m) j = Some b then None else bm_get (id_to_bid m) j)"
    using u by (auto simp: id_insert_def Let_def split: option.split)
  show "bm_get (bid_to_id (id_insert i b m)) c =
      (if c = b then Some i else if bm_get (bid_to_id m) c = Some i then None else bm_get (bid_to_id m) c)"
    using u(2) by (auto simp: id_insert_def Let_def u(1) split: option.split)
      (metis u not_None_eq option.inject)+
qed

lemma id_insert_ok:
  assumes "id_ok m"
  shows "id_ok (id_insert i b m)"
proof -
  have "bm_ok (id_to_bid (id_insert i b m)) \<and> bm_ok (bid_to_id (id_insert i b m))"
    using assms by (auto simp: id_ok_def id_insert_def Let_def split: option.split)
  moreover have "bm_get (id_to_bid (id_insert i b m)) j = Some c \<longleftrightarrow> bm_get (bid_to_id (id_insert i b m)) c = Some j"
    for j c
    unfolding id_insert_get [OF assms] using id_okD [OF assms] by auto
  ultimately show ?thesis by (simp add: id_ok_def)
qed

lemma id_remove_ok:
  assumes "id_ok m"
  shows "id_ok (snd (id_remove b m))"
proof (cases "bm_get (bid_to_id m) b")
  case (Some i)
  have "bm_ok (bm_remove i (id_to_bid m))" "bm_ok (bm_remove b (bid_to_id m))"
    using assms by (auto simp: id_ok_def)
  moreover have "bm_get (bm_remove i (id_to_bid m)) j = Some c \<longleftrightarrow> bm_get (bm_remove b (bid_to_id m)) c = Some j" for j c
    using id_okD [OF assms] Some by auto
  ultimately show ?thesis by (simp add: id_ok_def id_remove_def Some)
qed (simp add: id_remove_def assms)

section \<open>Order\<close>

lemma pathmap_order_less:
  "pathmap_order a b = Less \<longleftrightarrow> a < b" "pathmap_order a b = Equal \<longleftrightarrow> a = b"
  "pathmap_order a b = Greater \<longleftrightarrow> b < a"
proof -
  have "(pathmap_order a b = Less \<longleftrightarrow> a < b) \<and> (pathmap_order a b = Equal \<longleftrightarrow> a = b)
      \<and> (pathmap_order a b = Greater \<longleftrightarrow> b < a)"
    unfolding pathmap_order_def
    by (induction a b rule: first_difference.induct)
      (auto simp: compare_def neq_Nil_conv split: ordering.splits option.splits)
  then show "pathmap_order a b = Less \<longleftrightarrow> a < b" "pathmap_order a b = Equal \<longleftrightarrow> a = b"
    "pathmap_order a b = Greater \<longleftrightarrow> b < a" by blast+
qed

definition entry_rank :: "entry \<Rightarrow> u16 list \<times> bid" where
  "entry_rank e = (snd (snd e), fst (snd e))"

lemma entry_order_rank: "entry_order a b = Greater \<longleftrightarrow> entry_rank b < entry_rank a"
proof -
  obtain p q bid_a bid_b oa ob where ab: "a = (p, bid_a, oa)" "b = (q, bid_b, ob)"
    by (cases a, cases b) auto
  show ?thesis
    unfolding ab entry_order_def entry_rank_def using pathmap_order_less [of oa ob]
    by (auto simp: compare_def less_prod_def' split: ordering.splits)
qed

lemma insert_by_rank: "insert_by entry_order x ys = insort_key entry_rank x ys"
  by (induction ys) (auto simp: entry_order_rank not_less)

lemma sort_by_rank: "sort_by entry_order es = linorder_class.sort_key entry_rank es"
proof -
  have "insert_by entry_order = insort_key entry_rank" by (intro ext) (rule insert_by_rank)
  then show ?thesis by (simp add: sort_by_def linorder_class.sort_key_def)
qed

section \<open>Indices\<close>

definition positions :: "('x \<Rightarrow> bool) \<Rightarrow> 'x list \<Rightarrow> nat list" where
  "positions P xs = filter (\<lambda>i. P (xs ! i)) [0..<length xs]"

text \<open>The indices of a path map agree with its entries.\<close>

definition indexed :: "entry list \<Rightarrow> (bid, nat list) bmap \<times> (string, nat) bmap \<times> (string, nat) bmap \<Rightarrow> bool" where
  "indexed es ix \<longleftrightarrow>
     (case ix of (bids, paths, orders) \<Rightarrow>
        (\<forall>b. bm_get bids b =
          (let idxs = positions (\<lambda>e. fst (snd e) = b) es in if idxs = [] then None else Some idxs))
        \<and> (\<forall>p. bm_get paths p =
          (let idxs = positions (\<lambda>e. fst e = p) es in if idxs = [] then None else Some (last idxs)))
        \<and> (\<forall>k. bm_get orders k =
          (let idxs = positions (\<lambda>e. order_key (snd (snd e)) = k) es in if idxs = [] then None else Some (last idxs))))"

lemma positions_append: "positions P (xs @ [x]) = positions P xs @ (if P x then [length xs] else [])"
  by (auto simp: positions_def nth_append intro!: filter_cong)

lemma indexed_snoc:
  assumes "indexed es ix"
  shows "indexed (es @ [e]) (index_entry (length es, e) ix)"
proof -
  obtain bids paths orders where ix: "ix = (bids, paths, orders)" by (cases ix)
  obtain p b or where e: "e = (p, b, or)" by (cases e)
  show ?thesis
    using assms unfolding indexed_def ix e index_entry_def
    by (simp add: positions_append Let_def)
qed

lemma indexed_entries: "indexed es (index_entries es)"
proof (induction es rule: rev_induct)
  case Nil
  show ?case by (simp add: indexed_def index_entries_def positions_def)
next
  case (snoc e es)
  have "index_entries (es @ [e]) = index_entry (length es, e) (index_entries es)"
    by (simp add: index_entries_def enumerate_append_eq)
  with indexed_snoc [OF snoc.IH, of e] show ?case by simp
qed

definition map_in_sync :: "path_map \<Rightarrow> bool" where
  "map_in_sync pm \<longleftrightarrow>
     sorted (map entry_rank (p_map pm))
     \<and> indexed (p_map pm) (p_bid_map pm, p_path_map pm, p_order_map pm)"

lemma sort_and_regenerate_sync: "map_in_sync (sort_and_regenerate pm)"
proof -
  obtain bids paths orders where ix: "index_entries (sort_by entry_order (p_map pm)) = (bids, paths, orders)"
    by (cases "index_entries (sort_by entry_order (p_map pm))")
  have "indexed (sort_by entry_order (p_map pm)) (bids, paths, orders)"
    using indexed_entries [of "sort_by entry_order (p_map pm)"] by (simp add: ix)
  then show ?thesis
    by (simp add: map_in_sync_def sort_and_regenerate_def regenerate_def sort_entries_def ix [unfolded sort_by_rank] sort_by_rank)
qed

lemma path_map_new_sync:
  assumes "path_map_new X dfs_events kind net nets rels = Some pm"
  shows "map_in_sync pm"
proof -
  have "\<exists>subs pm0. pm = sort_entries pm0 \<and> p_map pm0 = new_entries net subs
      \<and> (p_bid_map pm0, p_path_map pm0, p_order_map pm0) = index_entries (new_entries net subs)"
    using assms
    by (clarsimp simp: path_map_new_def Let_def bind_eq_Some_conv case_prod_beta)
      (intro exI conjI, rule refl, simp_all)
  then obtain subs pm0 where pm: "pm = sort_entries pm0" "p_map pm0 = new_entries net subs"
    "(p_bid_map pm0, p_path_map pm0, p_order_map pm0) = index_entries (new_entries net subs)"
    by blast
  have sorted: "sorted (map entry_rank (new_entries net subs))"
    by (simp add: new_entries_def sort_by_rank del: append_Cons)
  then have "sort_by entry_order (new_entries net subs) = new_entries net subs"
    by (simp add: sort_by_rank sort_key_id_if_sorted)
  then have "sort_entries pm0 = pm0" by (simp add: sort_entries_def pm(2))
  with sorted indexed_entries [of "new_entries net subs"] show ?thesis
    by (simp add: pm map_in_sync_def)
qed

section \<open>Keys of orders\<close>

definition read_nat :: "string \<Rightarrow> nat" where
  "read_nat s = foldl (\<lambda>n c. 10 * n + (of_char c - 48)) 0 s"

lemma read_show_nat: "read_nat (show_nat n) = n"
proof (induction n rule: show_nat.induct)
  case (1 n)
  show ?case
  proof (cases "n < 10")
    case True
    then show ?thesis by (subst show_nat.simps) (simp add: read_nat_def)
  next
    case False
    with 1 have "read_nat (show_nat (n div 10)) = n div 10" by blast
    with False show ?thesis
      by (subst show_nat.simps) (simp add: read_nat_def)
  qed
qed

lemma show_nat_no_dot: "CHR ''.'' \<notin> set (show_nat n)" "show_nat n \<noteq> []"
proof -
  have "CHR ''.'' \<notin> set (show_nat n) \<and> show_nat n \<noteq> []"
  proof (induction n rule: show_nat.induct)
    case (1 n)
    have d: "CHR ''.'' \<noteq> char_of (48 + k)" if "k < 10" for k :: nat
    proof
      assume "CHR ''.'' = char_of (48 + k)"
      then have "of_char CHR ''.'' = (of_char (char_of (48 + k :: nat)) :: nat)" by simp
      then show False using that by simp
    qed
    show ?case
      using 1 d [of "n mod 10"] d [of n] by (cases "n < 10"; subst (1 2) show_nat.simps) auto
  qed
  then show "CHR ''.'' \<notin> set (show_nat n)" "show_nat n \<noteq> []" by blast+
qed

lemma order_key_inj: "order_key a = order_key b \<longleftrightarrow> a = b"
proof
  let ?show = "map (\<lambda>sk :: u16. show_nat (unat sk))"
  have split: "str_split CHR ''.'' (order_key xs) = ?show xs" if "xs \<noteq> []" for xs
    unfolding order_key_def by (rule str_split_join) (use that show_nat_no_dot(1) in auto)
  have nil: "order_key xs = [] \<longleftrightarrow> xs = []" for xs
    by (cases xs; cases "tl xs") (auto simp: order_key_def str_join_Cons show_nat_no_dot(2))
  assume eq: "order_key a = order_key b"
  show "a = b"
  proof (cases "a = [] \<or> b = []")
    case True
    then show ?thesis using eq nil by metis
  next
    case False
    then have "?show a = ?show b" using eq split by metis
    then have "map read_nat (?show a) = map read_nat (?show b)" by simp
    then have "map unat a = map unat b" by (simp add: comp_def read_show_nat)
    then show ?thesis by (metis (no_types, lifting) inj_map_eq_map inj_def word_unat_eq_iff)
  qed
qed simp

section \<open>Lookups in one map\<close>

lemma positions_mem: "i \<in> set (positions P xs) \<longleftrightarrow> i < length xs \<and> P (xs ! i)"
  by (auto simp: positions_def)

lemma positions_sorted: "sorted_wrt (<) (positions P xs)"
  unfolding positions_def by (rule sorted_wrt_filter) simp

lemma positions_Nil: "positions P xs = [] \<longleftrightarrow> (\<forall>x\<in>set xs. \<not> P x)"
  by (auto simp: positions_def filter_empty_conv all_set_conv_all_nth)

lemma positions_hd:
  assumes "positions P xs = i # is"
  shows "find P xs = Some (xs ! i)"
proof -
  have i: "i < length xs" "P (xs ! i)" using positions_mem [of i P xs] assms by simp_all
  have "\<not> P (xs ! j)" if "j < i" for j
  proof
    assume "P (xs ! j)"
    with that i have "j \<in> set (i # is)" using positions_mem [of j P xs] assms by simp
    with that show False using positions_sorted [of P xs] assms by auto
  qed
  with i show ?thesis by (auto simp: find_Some_iff)
qed

lemma order_for_bid_find:
  assumes "map_in_sync pm"
  shows "order_for_bid pm b =
    map_option (\<lambda>(path, _, order). (order, path)) (find (\<lambda>e. fst (snd e) = b) (p_map pm))"
proof -
  let ?is = "positions (\<lambda>e. fst (snd e) = b) (p_map pm)"
  have g: "bm_get (p_bid_map pm) b = (if ?is = [] then None else Some ?is)"
    using assms by (simp add: map_in_sync_def indexed_def Let_def)
  show ?thesis
  proof (cases ?is)
    case Nil
    then have "find (\<lambda>e. fst (snd e) = b) (p_map pm) = None"
      by (auto simp: find_None_iff positions_Nil)
    with Nil g show ?thesis by (simp add: order_for_bid_def)
  next
    case (Cons i "is")
    with g positions_hd [OF Cons] show ?thesis
      by (simp add: order_for_bid_def case_prod_beta)
  qed
qed

lemma order_for_entry:
  assumes "map_in_sync pm" "order \<noteq> []"
  shows "order_for pm order = Some (b, path) \<Longrightarrow> (path, b, order) \<in> set (p_map pm)"
    "order_for pm order = None \<Longrightarrow> (path, b, order) \<notin> set (p_map pm)"
proof -
  let ?is = "positions (\<lambda>e. snd (snd e) = order) (p_map pm)"
  have g: "bm_get (p_order_map pm) (order_key order) = (if ?is = [] then None else Some (last ?is))"
    using assms by (simp add: map_in_sync_def indexed_def Let_def order_key_inj)
  show "order_for pm order = Some (b, path) \<Longrightarrow> (path, b, order) \<in> set (p_map pm)"
  proof -
    assume "order_for pm order = Some (b, path)"
    then have n: "?is \<noteq> []" and p: "p_map pm ! last ?is = (path, b, snd (snd (p_map pm ! last ?is)))"
      using assms(2) g by (auto simp: order_for_def split: if_splits prod.splits)
    have "last ?is \<in> set ?is" using n by simp
    then have l: "last ?is < length (p_map pm)" "snd (snd (p_map pm ! last ?is)) = order"
      unfolding positions_mem by simp_all
    with p show "(path, b, order) \<in> set (p_map pm)" by (metis nth_mem)
  qed
  show "order_for pm order = None \<Longrightarrow> (path, b, order) \<notin> set (p_map pm)"
    using assms(2) g by (auto simp: order_for_def positions_Nil split: if_splits)
qed

section \<open>Searches across networks\<close>

lemma find_map_opt_returns: "(\<And>x. x \<in> set xs \<Longrightarrow> f x \<noteq> None) \<Longrightarrow> find_map_opt f xs \<noteq> None"
  by (induction xs) (fastforce split: option.splits)+

lemma find_map_opt_cong [fundef_cong]:
  "xs = ys \<Longrightarrow> (\<And>x. x \<in> set ys \<Longrightarrow> f x = g x) \<Longrightarrow> find_map_opt f xs = find_map_opt g ys"
  by (induction ys arbitrary: xs) (auto split: option.splits)

lemma find_map_opt_mono:
  "(\<And>x r. x \<in> set xs \<Longrightarrow> f x = Some r \<Longrightarrow> g x = Some r) \<Longrightarrow> find_map_opt f xs = Some r \<Longrightarrow>
     find_map_opt g xs = Some r"
  by (induction xs) (auto split: option.splits)

text \<open>A search that returns returns the same at every greater depth.\<close>

lemma net_search_deeper:
  "net_search depth maps to_bref here descend pm q = Some r \<Longrightarrow>
     net_search (depth + k) maps to_bref here descend pm q = Some r"
proof (induction depth arbitrary: pm q r)
  case (Suc depth)
  let ?step = "\<lambda>d net_bid. case descend pm net_bid q of
              None \<Rightarrow> None
            | Some None \<Rightarrow> Some None
            | Some (Some (q', back)) \<Rightarrow>
                (case maps (to_bref net_bid) of
                   None \<Rightarrow> Some None
                 | Some subnet \<Rightarrow> map_option (map_option back)
                     (net_search d maps to_bref here descend subnet q'))"
  show ?case
  proof (cases "here pm q")
    case None
    then have "find_map_opt (?step depth) (p_subnets pm) = Some r" using Suc.prems by simp
    then have "find_map_opt (?step (depth + k)) (p_subnets pm) = Some r"
    proof (rule find_map_opt_mono [rotated])
      show "?step (depth + k) x = Some r'" if "?step depth x = Some r'" for x r'
        using that Suc.IH by (auto split: option.splits)
    qed
    with None show ?thesis by simp
  next
    case (Some a)
    then have "r = Some a" using Suc.prems by simp
    then show ?thesis by (simp add: Some)
  qed
qed simp

text \<open>Networks that do not contain each other: the search returns when the depth exceeds the rank.\<close>

lemma net_search_returns:
  assumes "\<And>pm b q. pm \<in> S \<Longrightarrow> b \<in> set (p_subnets pm) \<Longrightarrow> descend pm b q \<noteq> None"
    "\<And>pm b subnet. pm \<in> S \<Longrightarrow> b \<in> set (p_subnets pm) \<Longrightarrow> maps (to_bref b) = Some subnet \<Longrightarrow>
      subnet \<in> S \<and> rank subnet < rank pm"
  shows "pm \<in> S \<Longrightarrow> rank pm < depth \<Longrightarrow> net_search depth maps to_bref here descend pm q \<noteq> None"
proof (induction depth arbitrary: pm q)
  case (Suc depth)
  have "find_map_opt (\<lambda>net_bid. case descend pm net_bid q of
              None \<Rightarrow> None
            | Some None \<Rightarrow> Some None
            | Some (Some (q', back)) \<Rightarrow>
                (case maps (to_bref net_bid) of
                   None \<Rightarrow> Some None
                 | Some subnet \<Rightarrow> map_option (map_option back)
                     (net_search depth maps to_bref here descend subnet q'))) (p_subnets pm) \<noteq> None"
  proof (rule find_map_opt_returns)
    fix b assume b: "b \<in> set (p_subnets pm)"
    have "net_search depth maps to_bref here descend subnet q' \<noteq> None" if "maps (to_bref b) = Some subnet" for subnet q'
      using Suc.IH [of subnet q'] assms(2) [OF Suc.prems(1) b that] Suc.prems by simp
    with assms(1) [OF Suc.prems(1) b, of q] show "(case descend pm b q of
              None \<Rightarrow> None
            | Some None \<Rightarrow> Some None
            | Some (Some (q', back)) \<Rightarrow>
                (case maps (to_bref b) of
                   None \<Rightarrow> Some None
                 | Some subnet \<Rightarrow> map_option (map_option back)
                     (net_search depth maps to_bref here descend subnet q'))) \<noteq> None"
      by (auto split: option.split)
  qed
  then show ?case by (auto split: option.split)
qed simp

text \<open>Networks that contain each other: a search that finds nothing there goes round for ever.\<close>

lemma net_search_loops:
  assumes "\<And>pm. pm \<in> S \<Longrightarrow> here pm q = None"
    "\<And>pm. pm \<in> S \<Longrightarrow> \<exists>b bs. p_subnets pm = b # bs \<and> (\<exists>back subnet.
       descend pm b q = Some (Some (q, back)) \<and> maps (to_bref b) = Some subnet \<and> subnet \<in> S)"
  shows "pm \<in> S \<Longrightarrow> net_search depth maps to_bref here descend pm q = None"
proof (induction depth arbitrary: pm)
  case (Suc depth)
  from assms(2) [OF Suc.prems] obtain b bs bk subnet where
    s: "p_subnets pm = b # bs" "descend pm b q = Some (Some (q, bk))"
       "maps (to_bref b) = Some subnet" "subnet \<in> S" by blast
  with Suc.IH assms(1) [OF Suc.prems] show ?case by simp
qed simp

section \<open>Lists of all paths\<close>

definition unvisited :: "path_map_map \<Rightarrow> bid list \<Rightarrow> nat" where
  "unvisited nets visited = card (p_net ` set (bm_values (n_map nets)) - set visited)"

lemma get_map_values: "get_map X nets net = Some pm \<Longrightarrow> pm \<in> set (bm_values (n_map nets))"
  by (force simp: get_map_def bm_values_def dest: bm_get_in split: if_splits)

lemma unvisited_mono: "set visited \<subseteq> set visited' \<Longrightarrow> unvisited nets visited' \<le> unvisited nets visited"
  unfolding unvisited_def by (intro card_mono) auto

lemma unvisited_visit:
  assumes "pm \<in> set (bm_values (n_map nets))" "p_net pm \<notin> set visited"
  shows "unvisited nets (bs_insert (p_net pm) visited) < unvisited nets visited"
  unfolding unvisited_def using assms by (intro psubset_card_mono) auto

lemma all_paths_returns:
  "pm \<in> set (bm_values (n_map nets)) \<Longrightarrow> unvisited nets visited < depth \<Longrightarrow>
     \<exists>ps visited'. all_paths X nets depth pm visited = Some (ps, visited') \<and> set visited \<subseteq> set visited'"
  "unvisited nets visited < depth \<Longrightarrow>
     \<exists>ps visited'. all_paths_from X nets depth es visited = Some (ps, visited') \<and> set visited \<subseteq> set visited'"
proof (induction X nets depth pm visited and X nets depth es visited rule: all_paths_all_paths_from.induct)
  case (2 X nets depth pm visited)
  show ?case
  proof (cases "p_net pm \<in> set visited")
    case False
    have "unvisited nets (bs_insert (p_net pm) visited) < depth"
      using unvisited_visit [OF 2(2) False] 2(3) by simp
    with 2(1) [OF False] obtain ps v where
      "all_paths_from X nets depth (p_map pm) (bs_insert (p_net pm) visited) = Some (ps, v)"
      "set (bs_insert (p_net pm) visited) \<subseteq> set v" by blast
    with False show ?thesis by auto
  qed simp
next
  case (4 X nets depth a_path a_bid uu es visited)
  let ?first = "if a_bid \<in> set (n_nets nets) \<and> a_bid \<notin> set visited
        then case get_map X nets (bref_of X a_bid) of
            None \<Rightarrow> Some ([], visited)
          | Some subnet \<Rightarrow> map_option (\<lambda>(subs, visited).
              (map (\<lambda>subnet_path. ap_path (join X (ap_new_dir a_path) subnet_path)) subs, visited))
              (all_paths X nets depth subnet visited)
        else Some ([a_path], visited)"
  have "\<exists>ps v. ?first = Some (ps, v) \<and> set visited \<subseteq> set v"
  proof (cases "a_bid \<in> set (n_nets nets) \<and> a_bid \<notin> set visited")
    case True
    show ?thesis
    proof (cases "get_map X nets (bref_of X a_bid)")
      case (Some subnet)
      from 4(1) [OF True Some get_map_values [OF Some] 4(3)] True Some show ?thesis by auto
    qed (use True in simp)
  qed auto
  then obtain ps v where f: "?first = Some (ps, v)" "set visited \<subseteq> set v" by blast
  have "unvisited nets v < depth" using unvisited_mono [OF f(2), of nets] 4(3) by simp
  with 4(2) [OF f(1)] obtain qs w where "all_paths_from X nets depth es v = Some (qs, w)" "set v \<subseteq> set w"
    by blast
  with f show ?case by auto
qed auto

text \<open>\<open>recursive_map\<close> panics on a subnet that has no map.\<close>

definition mounted :: "'a id_ext_scheme \<Rightarrow> path_map_map \<Rightarrow> nat list \<Rightarrow> (nat \<times> entry) list \<Rightarrow> bool" where
  "mounted X nets idxs es \<longleftrightarrow>
     list_all (\<lambda>(idx, _, b, _). idx \<in> set idxs \<longrightarrow> get_map X nets (bref_of X b) \<noteq> None) es"

lemma recursive_map_returns:
  assumes "\<And>pm. pm \<in> set (bm_values (n_map nets)) \<Longrightarrow>
    mounted X nets (subnet_indices pm) (List.enumerate 0 (p_map pm))"
  shows "pm \<in> set (bm_values (n_map nets)) \<Longrightarrow> unvisited nets visited < depth \<Longrightarrow>
     \<exists>ps visited'. recursive_map X nets depth pm visited = Some (ps, visited') \<and> set visited \<subseteq> set visited'"
  "mounted X nets idxs es \<Longrightarrow> unvisited nets visited < depth \<Longrightarrow>
     \<exists>ps visited'. recursive_entries X nets depth idxs es visited = Some (ps, visited') \<and> set visited \<subseteq> set visited'"
  using assms
proof (induction X nets depth pm visited and X nets depth idxs es visited
    rule: recursive_map_recursive_entries.induct)
  case (2 X nets depth pm visited)
  show ?case
  proof (cases "p_net pm \<in> set visited")
    case False
    have "unvisited nets (bs_insert (p_net pm) visited) < depth"
      using unvisited_visit [OF 2(2) False] 2(3) by simp
    with 2(1) [OF False] 2(4) [OF 2(2)] 2(4) obtain ps v where
      "recursive_entries X nets depth (subnet_indices pm) (List.enumerate 0 (p_map pm))
         (bs_insert (p_net pm) visited) = Some (ps, v)"
      "set (bs_insert (p_net pm) visited) \<subseteq> set v" by blast
    with False show ?thesis by auto
  qed simp
next
  case (4 X nets depth idxs idx elem_path elem_bid elem_order es visited)
  let ?first = "if idx \<in> set idxs
        then Option.bind (get_map X nets (bref_of X elem_bid)) (\<lambda>subnet.
               map_option (\<lambda>(subs, visited).
                 (map (\<lambda>(path, b, order). (ap_path (join X (ap_new_dir elem_path) path), b, elem_order @ order)) subs,
                  visited))
                 (recursive_map X nets depth subnet visited))
        else Some ([(elem_path, elem_bid, elem_order)], visited)"
  have m: "mounted X nets idxs es" "idx \<in> set idxs \<Longrightarrow> get_map X nets (bref_of X elem_bid) \<noteq> None"
    using 4(3) by (simp_all add: mounted_def)
  have "\<exists>ps v. ?first = Some (ps, v) \<and> set visited \<subseteq> set v"
  proof (cases "idx \<in> set idxs")
    case True
    with m(2) obtain subnet where s: "get_map X nets (bref_of X elem_bid) = Some subnet" by blast
    from 4(1) [OF True s get_map_values [OF s] 4(4,5)] True s show ?thesis by auto
  qed auto
  then obtain ps v where f: "?first = Some (ps, v)" "set visited \<subseteq> set v" by blast
  have "unvisited nets v < depth" using unvisited_mono [OF f(2), of nets] 4(4) by simp
  with 4(2) [OF f(1) refl m(1)] 4(5) obtain qs w where
    "recursive_entries X nets depth idxs es v = Some (qs, w)" "set v \<subseteq> set w"
    by blast
  with f show ?case by auto
qed auto

lemma recursive_entries_panics:
  "(idx, path, b, order) \<in> set es \<Longrightarrow> idx \<in> set idxs \<Longrightarrow> get_map X nets (bref_of X b) = None \<Longrightarrow>
     recursive_entries X nets depth idxs es visited = None"
proof (induction es arbitrary: visited)
  case (Cons e es)
  obtain idx' path' b' order' where e: "e = (idx', path', b', order')" by (cases e)
  show ?case
  proof (cases "e = (idx, path, b, order)")
    case True
    with Cons.prems show ?thesis by simp
  next
    case False
    then have IH: "recursive_entries X nets depth idxs es v = None" for v using Cons by auto
    show ?thesis unfolding e by (simp add: IH split: option.split bind_split)
  qed
qed simp

section \<open>Removing a relation\<close>

definition entry_order_of :: "entry \<Rightarrow> u16 list" where
  "entry_order_of e = snd (snd e)"

lemma entry_order_of_simp [simp]: "entry_order_of (path, b, order) = order"
  by (simp add: entry_order_of_def)

lemma prefix_between:
  fixes p :: "'x::linorder list"
  shows "prefix p b \<Longrightarrow> p \<le> a \<Longrightarrow> a \<le> b \<Longrightarrow> prefix p a"
proof (induction p arbitrary: a b)
  case (Cons x p)
  then obtain b' where b: "b = x # b'" "prefix p b'" by (cases b) auto
  from Cons.prems(2) obtain y a' where a: "a = y # a'" by (cases a) auto
  with Cons.prems b have "y = x" "p \<le> a'" "a' \<le> b'" by auto
  with Cons.IH b a show ?case by auto
qed simp

definition below :: "u16 list \<Rightarrow> entry \<Rightarrow> bool" where
  "below sink_order e \<longleftrightarrow> prefix sink_order (entry_order_of e) \<and> sink_order \<noteq> entry_order_of e"

lemma below_simp [simp]: "below sink_order (path, b, order) \<longleftrightarrow> prefix sink_order order \<and> sink_order \<noteq> order"
  by (simp add: below_def)

lemma positions_nil [simp]: "positions P [] = []"
  by (simp add: positions_def)

lemma entry_at_mid [simp]: "entry_at (xs @ e # ys) (length xs) = Some e"
  by (simp add: entry_at_def)

lemma positions_Cons: "positions P (x # xs) = (if P x then [0] else []) @ map Suc (positions P xs)"
proof -
  have "[0..<length (x # xs)] = 0 # map Suc [0..<length xs]" 
    by (metis length_Cons map_Suc_upt upt_conv_Cons zero_less_Suc)
  then show ?thesis by (simp add: positions_def filter_map comp_def del: upt_Suc)
qed

lemma positions_split: "positions P (xs @ ys) = positions P xs @ map ((+) (length xs)) (positions P ys)"
  by (induction xs) (simp_all add: positions_Cons comp_def map_idI)

lemma prefix_less: "prefix (p :: 'x::linorder list) b \<Longrightarrow> p \<noteq> b \<Longrightarrow> p < b"
proof -
  have "p < p @ c" if "c \<noteq> []" for c
    using that by (induction p) (auto simp: neq_Nil_conv)
  then show "prefix p b \<Longrightarrow> p \<noteq> b \<Longrightarrow> p < b" by (auto simp: prefix_def)
qed

lemma sub_indices_positions:
  assumes "sorted (map entry_order_of es)" "\<forall>e\<in>set es. sink_order \<le> entry_order_of e"
  shows "sub_indices_from False sink_order n es = map ((+) n) (positions (below sink_order) es)"
  using assms
proof (induction es arbitrary: n)
  case Nil
  show ?case by (simp add: positions_def)
next
  case (Cons e es)
  obtain p b or where e: "e = (p, b, or)" by (cases e)
  have IH: "sub_indices_from False sink_order (Suc n) es = map ((+) (Suc n)) (positions (below sink_order) es)"
    using Cons by simp
  show ?case
  proof (cases "prefix sink_order or")
    case True
    then show ?thesis by (cases "or = sink_order") (simp_all add: e IH positions_Cons comp_def)
  next
    case False
    have "\<not> prefix sink_order (entry_order_of x)" if "x \<in> set es" for x
      using False Cons.prems prefix_between [of sink_order "entry_order_of x" or] that e by auto
    then have "positions (below sink_order) es = []" by (simp add: positions_Nil below_def)
    with False show ?thesis by (simp add: e positions_Cons)
  qed
qed

lemma remove_below_filter:
  "remove_below ro (rev (positions P xs)) (xs @ ys, paths) =
     Some (filter (\<lambda>e. \<not> (P e \<and> prefix ro (entry_order_of e))) xs @ ys,
       paths @ rev (map fst (filter (\<lambda>e. P e \<and> prefix ro (entry_order_of e)) xs)))"
proof (induction xs arbitrary: ys paths rule: rev_induct)
  case (snoc e xs)
  obtain p b or where e: "e = (p, b, or)" by (cases e)
  have rm: "remove_at (length xs) (xs @ (p, b, or) # ys) = xs @ ys" by (simp add: remove_at_def)
  show ?case
    using snoc [of ys "paths @ [p]"] snoc [of "(p, b, or) # ys" paths]
    by (simp add: positions_append rm e)
qed (simp add: positions_def)

lemma find_map_opt_positions:
  "find_map_opt (\<lambda>idx. map_option (\<lambda>(_, b, order). if source = b then Some order else None)
       (entry_at es idx)) (positions P es) =
     Some (map_option entry_order_of (find (\<lambda>e. P e \<and> fst (snd e) = source) es))"
proof -
  have "find_map_opt (\<lambda>idx. map_option (\<lambda>(_, b, order). if source = b then Some order else None)
       (entry_at (xs @ es) idx)) (map ((+) (length xs)) (positions P es)) =
     Some (map_option entry_order_of (find (\<lambda>e. P e \<and> fst (snd e) = source) es))" for xs
  proof (induction es arbitrary: xs)
    case (Cons e es)
    obtain p b or where e: "e = (p, b, or)" by (cases e)
    have sh: "map ((+) (length xs)) (map Suc (positions P es)) = map ((+) (length (xs @ [e]))) (positions P es)"
      by simp
    have "xs @ e # es = (xs @ [e]) @ es" by simp
    with Cons.IH [of "xs @ [e]"] have IH: "find_map_opt (\<lambda>idx. map_option (\<lambda>(_, b, order). if source = b then Some order else None)
         (entry_at (xs @ e # es) idx)) (map ((+) (length xs)) (map Suc (positions P es))) =
       Some (map_option entry_order_of (find (\<lambda>e. P e \<and> fst (snd e) = source) es))"
      by (simp only: sh)
    show ?case
      using IH by (auto simp: positions_Cons e simp del: map_map)
  qed (simp add: positions_def)
  from this [of "[]"] have r: "find_map_opt (\<lambda>idx. map_option (\<lambda>(_, b, order). if source = b then Some order else None)
       (entry_at es idx)) (map ((+) 0) (positions P es)) =
     Some (map_option entry_order_of (find (\<lambda>e. P e \<and> fst (snd e) = source) es))"
    by (simp only: append_Nil list.size)
  have "map ((+) 0) ns = ns" for ns :: "nat list" by (induction ns) simp_all
  with r show ?thesis by (simp only:)
qed

lemma sub_indices_in_sync:
  assumes "map_in_sync pm" "i < length (p_map pm)"
  shows "sub_indices_from False (entry_order_of (p_map pm ! i)) i (drop i (p_map pm)) =
    positions (below (entry_order_of (p_map pm ! i))) (p_map pm)"
proof -
  let ?es = "p_map pm"
  let ?so = "entry_order_of (?es ! i)"
  have sorted: "sorted (map entry_order_of ?es)"
  proof -
    have "sorted (map entry_rank ?es)" using assms(1) by (simp add: map_in_sync_def)
    then show ?thesis
      unfolding sorted_iff_nth_mono by (fastforce simp: entry_rank_def entry_order_of_def less_eq_prod_def)
  qed
  have d: "drop i ?es = ?es ! i # drop (Suc i) ?es" using assms(2) by (simp add: Cons_nth_drop_Suc)
  have s: "sorted (map entry_order_of (drop i ?es))" using sorted_wrt_drop [OF sorted, of i] by (simp add: drop_map)
  have ge: "\<forall>e\<in>set (drop i ?es). ?so \<le> entry_order_of e"
    using s unfolding d by auto
  have nb: "positions (below ?so) (take i ?es) = []"
  proof -
    have "\<not> below ?so e" if e: "e \<in> set (take i ?es)" for e
    proof -
      obtain j where j: "j < i" "e = ?es ! j" using e by (auto simp: in_set_conv_nth)
      then have "entry_order_of e \<le> ?so"
        using sorted assms(2) by (auto simp: sorted_iff_nth_mono)
      moreover have "?so < entry_order_of e" if "below ?so e"
        using that by (simp add: below_def prefix_less)
      ultimately show ?thesis by auto
    qed
    then show ?thesis by (simp add: positions_Nil)
  qed
  have "positions (below ?so) ?es = map ((+) i) (positions (below ?so) (drop i ?es))"
    using nb positions_split [of "below ?so" "take i ?es" "drop i ?es"] assms(2) by simp
  with sub_indices_positions [OF s ge] show ?thesis by simp
qed

section \<open>Instances\<close>

text \<open>
  Identifiers whose reference is their last byte, and two networks mounted in each other under the path
  \<open>n\<close>.
\<close>

definition byte_ext :: text_ext where
  "byte_ext =
     \<lparr>uuid_new_v5 = (\<lambda>ns s. if s = [] then 0 else of_nat (of_char (last s))),
      uuid_now_v6 = (\<lambda>now ns. 0), uuid_parse = (\<lambda>s. None), uuid_hyphenated = (\<lambda>w. []),
      hex_decode = (\<lambda>s. None), nfkc = (\<lambda>s. s), lowercase_wide = (\<lambda>s. s), alphanumeric_wide = (\<lambda>s. False)\<rparr>"

lemma byte_brefs: "bref_of byte_ext (Bid 1) = Bref 1" "bref_of byte_ext (Bid 2) = Bref 2"
  "bref_default byte_ext = Bref 0"
  by (simp_all add: bref_of_def bref_default_def generate_namespace_def parent_bref_def byte_ext_def
      uuid_as_bytes_def nil_bid_def upt_rec)

definition mount :: "bid \<Rightarrow> bid \<Rightarrow> path_map" where
  "mount net subnet =
     regenerate \<lparr>p_map = [([], net, []), (''n'', subnet, [0])], p_bid_map = [], p_path_map = [],
       p_order_map = [], p_id_map = id_map_empty, p_title_map = id_map_empty, p_kind = Section,
       p_net = net, p_subnets = [subnet], p_loops = []\<rparr>"

definition two_networks :: path_map_map where
  "two_networks =
     \<lparr>n_map = [(Bref 1, mount (Bid 1) (Bid 2)), (Bref 2, mount (Bid 2) (Bid 1))], n_root = Bid 1,
      n_nets = [Bid 1, Bid 2], n_docs = [], n_apis = [], n_titles = [], n_ids = []\<rparr>"

lemma mount_fields [simp]:
  "p_map (mount net subnet) = [([], net, []), (''n'', subnet, [0])]" "p_net (mount net subnet) = net"
  "p_subnets (mount net subnet) = [subnet]"
  by (simp_all add: mount_def regenerate_def split: prod.split)

lemma mount_sync: "map_in_sync (mount net subnet)"
proof -
  have "indexed (p_map (mount net subnet)) (index_entries (p_map (mount net subnet)))"
    by (rule indexed_entries)
  moreover have "(p_bid_map (mount net subnet), p_path_map (mount net subnet), p_order_map (mount net subnet))
      = index_entries (p_map (mount net subnet))"
    by (simp add: mount_def regenerate_def split: prod.split)
  ultimately show ?thesis by (simp add: map_in_sync_def entry_rank_def less_eq_prod_def)
qed

lemma mount_index: "net \<noteq> subnet \<Longrightarrow> bm_get (p_bid_map (mount net subnet)) subnet = Some [1]"
  using mount_sync [of net subnet] by (simp add: map_in_sync_def indexed_def Let_def positions_def upt_rec)

section \<open>Properties\<close>

text \<open>
  C16. The identifier table of a network is one to one: inserting a pair forgets the pairs that share its
  identifier or its node, removing a node forgets its identifier, and both directions of the table agree
  after either.
\<close>

theorem id_map_one_to_one:
  assumes "id_ok m"
  shows "id_ok (id_insert i b m) \<and> id_ok (snd (id_remove b m))
    \<and> get_bid (id_insert i b m) i = Some b \<and> get_id (id_insert i b m) b = Some i
    \<and> (\<forall>j. j \<noteq> i \<longrightarrow> get_bid (id_insert i b m) j = (if get_bid m j = Some b then None else get_bid m j))
    \<and> get_id (snd (id_remove b m)) b = None"
  using id_insert_ok [OF assms] id_remove_ok [OF assms] id_insert_get [OF assms]
  by (auto simp: get_bid_def get_id_def id_remove_def split: option.split)

theorem id_map_one_to_one_witness:
  "get_bid (id_insert ''b'' (Bid 1) (id_insert ''a'' (Bid 1) id_map_empty)) ''a'' = None
   \<and> get_bid (id_insert ''b'' (Bid 1) (id_insert ''a'' (Bid 1) id_map_empty)) ''b'' = Some (Bid 1)"
  using id_map_one_to_one [OF id_insert_ok [OF id_ok_empty]]
    id_map_one_to_one [OF id_ok_empty, of "''a''" "Bid 1"]
  by simp

text \<open>
  The order of entries is the lexicographic order on sort keys, a parent before what is below it, and
  sorting by it is sorting by order and then by node.
\<close>

theorem pathmap_order_lexicographic:
  "(pathmap_order a b = Less \<longleftrightarrow> a < b) \<and> (pathmap_order a b = Equal \<longleftrightarrow> a = b)
   \<and> (pathmap_order a b = Greater \<longleftrightarrow> b < a)
   \<and> sort_by entry_order es = linorder_class.sort_key (\<lambda>(_, b, order). (order, b)) es"
proof -
  have "entry_rank = (\<lambda>(_, b, order). (order, b))" by (auto simp: entry_rank_def)
  then show ?thesis by (simp add: pathmap_order_less sort_by_rank)
qed

text \<open>
  C13. Whatever the events, every map of the collection that comes out of \<open>process_event_queue\<close> is sorted
  and its indices by node, path and order agree with its entries, and so does every map that is built
  from a graph.
\<close>

theorem path_maps_in_sync:
  "(case process_event_queue X dfs_events parse events rels pmm of
      None \<Rightarrow> True | Some (pmm', _) \<Rightarrow> list_all map_in_sync (bm_values (n_map pmm')))
   \<and> (case path_map_new X dfs_events kind net nets rels of None \<Rightarrow> True | Some pm \<Rightarrow> map_in_sync pm)"
  by (auto simp: process_event_queue_def bm_values_def list_all_iff sort_and_regenerate_sync
      dest: path_map_new_sync split: option.split)

text \<open>
  In such a map, \<open>order_for_bid\<close> returns the first entry of a node, and \<open>order_for\<close> an entry with the
  order asked for, whenever there is one.
\<close>

theorem order_lookups_exact:
  assumes "map_in_sync pm" "order \<noteq> []"
  shows "order_for_bid pm b =
      map_option (\<lambda>(path, _, order). (order, path)) (find (\<lambda>e. fst (snd e) = b) (p_map pm))
    \<and> (case order_for pm order of
         Some (b, path) \<Rightarrow> (path, b, order) \<in> set (p_map pm)
       | None \<Rightarrow> order \<notin> (\<lambda>(_, _, order). order) ` set (p_map pm))"
  using order_for_bid_find [OF assms(1)] order_for_entry [OF assms]
  by (auto split: option.split)

theorem order_lookups_exact_witness:
  "order_for_bid (mount (Bid 1) (Bid 2)) (Bid 2) = Some ([0], ''n'')"
  using order_lookups_exact [OF mount_sync, of "[0]" "Bid 1" "Bid 2" "Bid 2"] by simp

text \<open>
  The list of all paths of a network is computed in finitely many steps, even where networks contain
  each other: a depth of one more than the number of maps is enough. So is the map across subnets, where
  every mounted subnet has a map.
\<close>

theorem all_paths_terminates:
  assumes "get_map X nets net = Some pm" "length (n_map nets) < depth"
  shows "all_paths X nets depth pm visited \<noteq> None
    \<and> ((\<forall>pm\<in>set (bm_values (n_map nets)). mounted X nets (subnet_indices pm) (List.enumerate 0 (p_map pm)))
        \<longrightarrow> recursive_map X nets depth pm visited \<noteq> None)"
proof -
  have "unvisited nets visited \<le> card (p_net ` set (bm_values (n_map nets)))"
    unfolding unvisited_def by (intro card_mono) auto
  also have "\<dots> \<le> length (n_map nets)"
    using card_image_le card_length by (metis bm_values_def finite_set le_trans length_map)
  finally have u: "unvisited nets visited < depth" using assms(2) by simp
  show ?thesis
    using all_paths_returns(1) [OF get_map_values [OF assms(1)] u]
      recursive_map_returns(1) [OF _ get_map_values [OF assms(1)] u] by blast
qed

theorem all_paths_terminates_witness:
  "all_paths byte_ext two_networks 3 (mount (Bid 1) (Bid 2)) [] \<noteq> None"
  by (rule all_paths_terminates [where net = "Bref 1", THEN conjunct1])
    (simp_all add: get_map_def two_networks_def byte_brefs bm_get_Cons)

text \<open>
  C14. The lookup of a path by node has no such guard: where two networks contain each other, looking up a
  node that neither of them has never returns, at any depth.
\<close>

theorem path_lookup_loops:
  assumes "get_map X nets (bref_of X a) = Some pa" "get_map X nets (bref_of X b) = Some pb"
    "p_subnets pa = b # bs" "p_subnets pb = a # as"
    "bm_get (p_bid_map pa) b = Some (i # is)" "bm_get (p_bid_map pb) a = Some (j # js)"
    "find_bid pa c = None" "find_bid pb c = None"
  shows "\<forall>depth. pm_path X nets depth pa c = None"
proof
  fix depth
  show "pm_path X nets depth pa c = None"
    unfolding pm_path_def
    by (rule net_search_loops [where S = "{pa, pb}"])
      (use assms in \<open>auto simp: descend_bid_def split: prod.split\<close>)
qed

theorem path_lookup_loops_witness:
  "\<forall>depth. pm_path byte_ext two_networks depth (mount (Bid 1) (Bid 2)) (Bid 3) = None"
  by (rule path_lookup_loops [where a = "Bid 1" and b = "Bid 2" and pb = "mount (Bid 2) (Bid 1)"])
    (simp_all add: get_map_def two_networks_def byte_brefs bm_get_Cons mount_index find_bid_def)

text \<open>
  When a network is removed, the maps that mount it keep their entry for it but its own map is gone:
  listing the paths of such a network panics from then on.
\<close>

theorem removed_subnet_panics:
  assumes "(net, pm) \<in> set (n_map nets)" "net \<noteq> bref_of X b" "bref_of X b \<noteq> bref_default X"
    "b \<in> set (p_subnets pm)" "b \<in> (\<lambda>(_, b, _). b) ` set (p_map pm)" "p_net pm \<notin> set visited"
  shows "\<exists>nets'. process_event_queue X dfs_events parse [NodesRemoved [b] orig] rels nets = Some (nets', [])
    \<and> (net, sort_and_regenerate pm) \<in> set (n_map nets')
    \<and> recursive_map X nets' depth (sort_and_regenerate pm) visited = None"
proof -
  let ?nets = "process_nodes_removed X [b] nets"
  let ?nets' = "?nets\<lparr>n_map := map (\<lambda>(net, pm). (net, sort_and_regenerate pm)) (n_map ?nets)\<rparr>"
  let ?pm = "sort_and_regenerate pm"
  have maps: "n_map ?nets' = map (\<lambda>(net, pm). (net, sort_and_regenerate pm)) (bm_remove (bref_of X b) (n_map nets))"
    by (simp add: process_nodes_removed_def)
  have q: "process_event_queue X dfs_events parse [NodesRemoved [b] orig] rels nets = Some (?nets', [])"
    by (simp add: process_event_queue_def first_pass_def second_pass_def)
  have mem: "(net, ?pm) \<in> set (n_map ?nets')"
    unfolding maps using assms(1,2) by (force simp: bm_remove_def)
  have "bm_get (map (\<lambda>(net, pm). (net, sort_and_regenerate pm)) m) k = map_option sort_and_regenerate (bm_get m k)"
    for m :: "(bref, path_map) bmap" and k
    by (induction m) (auto simp: bm_get_Cons)
  then have gone: "get_map X ?nets' (bref_of X b) = None"
    using assms(3) by (simp add: get_map_def maps)
  have fields: "p_net ?pm = p_net pm" "p_subnets ?pm = p_subnets pm" "set (p_map ?pm) = set (p_map pm)"
    by (simp_all add: sort_and_regenerate_def regenerate_def sort_entries_def sort_by_rank split: prod.split)
  let ?is = "positions (\<lambda>e. fst (snd e) = b) (p_map ?pm)"
  have "?is \<noteq> []" using assms(5) by (fastforce simp: positions_Nil fields)
  then obtain i "is" where i: "?is = i # is" by (cases ?is) auto
  then have "i \<in> set ?is" by simp
  then have at: "i < length (p_map ?pm)" "fst (snd (p_map ?pm ! i)) = b" unfolding positions_mem by simp_all
  have "bm_get (p_bid_map ?pm) b = Some ?is"
    using sort_and_regenerate_sync [of pm] i by (simp add: map_in_sync_def indexed_def Let_def)
  then have "i \<in> set (subnet_indices ?pm)"
    using assms(4) i by (force simp: subnet_indices_def mem_map_filter fields)
  moreover obtain p or where "p_map ?pm ! i = (p, b, or)" using at(2) by (cases "p_map ?pm ! i") auto
  then have "(i, p, b, or) \<in> set (List.enumerate 0 (p_map ?pm))"
    using at(1) by (auto simp: in_set_enumerate_eq)
  ultimately have "recursive_entries X ?nets' d (subnet_indices ?pm) (List.enumerate 0 (p_map ?pm)) v = None" for d v
    using recursive_entries_panics gone by metis
  then have "recursive_map X ?nets' depth ?pm visited = None"
    using assms(6) by (cases depth) (simp_all add: fields)
  with q mem show ?thesis by blast
qed

theorem removed_subnet_panics_witness:
  "\<exists>nets'. process_event_queue byte_ext (\<lambda>as p b. []) (\<lambda>s. Inl Custom) [NodesRemoved [Bid 2] Remote] bg_empty
       two_networks = Some (nets', [])
     \<and> recursive_map byte_ext nets' 9 (sort_and_regenerate (mount (Bid 1) (Bid 2))) [] = None"
  using removed_subnet_panics [where net = "Bref 1" and pm = "mount (Bid 1) (Bid 2)" and nets = two_networks
      and X = byte_ext and b = "Bid 2" and visited = "[]"]
  by (simp add: two_networks_def byte_brefs) blast

text \<open>
  C19. Removing a relation from a map whose indices agree with its entries, where the sink is no other network and
  has one entry that suits the source, with the source below it, removes exactly the entries at
  and below the place of its source, announces their paths, last one first, and leaves a map whose
  indices agree with its entries; a subnet stays registered only while it has an entry.
\<close>

theorem relation_removed_exact:
  assumes "map_in_sync pm" "\<not> (sink \<in> set (n_nets nets) \<and> p_net pm \<noteq> sink)"
    "map fst (suitable_sinks nets source sink pm) = [i]" "i < length (p_map pm)"
    "find (\<lambda>e. below (entry_order_of (p_map pm ! i)) e \<and> fst (snd e) = source) (p_map pm) = Some (path, source, order)"
  shows "\<exists>pm'. process_relation_update X source sink ws_empty nets pm =
      Some (pm', [PathsRemoved (bref_of X (p_net pm))
        (rev (map fst (filter (\<lambda>(_, _, or). prefix order or) (p_map pm)))) Local])
    \<and> p_map pm' = filter (\<lambda>(_, _, or). \<not> prefix order or) (p_map pm) \<and> map_in_sync pm'
    \<and> (\<forall>b\<in>set (p_subnets pm'). b \<in> (\<lambda>(_, b, _). b) ` set (p_map pm'))"
proof -
  let ?es = "p_map pm"
  let ?so = "entry_order_of (?es ! i)"
  let ?kept = "filter (\<lambda>(_, _, or). \<not> prefix order or) ?es"
  let ?pm' = "keep_subnets (regenerate (pm\<lparr>p_map := ?kept\<rparr>))"
  have below: "below ?so (path, source, order)"
    using assms(5) by (metis (no_types, lifting) find_Some_iff)
  then have mem: "(path, source, order) \<in> set ?es"
    using assms(5) by (metis (no_types, lifting) find_Some_iff nth_mem)
  from below have so: "prefix ?so order" "?so \<noteq> order" by simp_all
  have pre: "below ?so e \<and> prefix order (entry_order_of e) \<longleftrightarrow> prefix order (entry_order_of e)" for e
    unfolding below_def using so prefix_order.trans [OF so(1)] prefix_order.antisym [OF so(1)] by metis
  have f: "(\<lambda>e. prefix order (entry_order_of e)) = (\<lambda>(_, _, or). prefix order or)"
    "(\<lambda>e. \<not> prefix order (entry_order_of e)) = (\<lambda>(_, _, or). \<not> prefix order or)" by auto
  obtain sub where sub: "suitable_sinks nets source sink pm = [(i, sub)]" using assms(3) by auto
  then have "(i, sub) \<in> set (source_sub_indices pm sink False)"
    by (auto simp: suitable_sinks_def Let_def split: if_splits dest: filter_eq_ConsD)
  then have "sub = sub_indices_from False ?so i (drop i ?es)"
    by (auto simp: source_sub_indices_def entry_order_of_def)
  then have subs: "sub = positions (below ?so) ?es" using sub_indices_in_sync [OF assms(1,4)] by simp
  have ne: "source_sub_indices pm sink False \<noteq> []" using sub by (auto simp: suitable_sinks_def Let_def split: if_splits)
  have "remove_source source sub (?es, []) =
      Some (?kept, rev (map fst (filter (\<lambda>(_, _, or). prefix order or) ?es)))"
    unfolding remove_source_def subs fst_conv find_map_opt_positions assms(5)
    using remove_below_filter [of order "below ?so" ?es "[]" "[]"] by (simp add: pre f)
  moreover have "filter (\<lambda>(_, _, or). prefix order or) ?es \<noteq> []"
    using mem by (force simp: filter_empty_conv)
  ultimately have run: "process_relation_update X source sink ws_empty nets pm =
      Some (?pm', [PathsRemoved (bref_of X (p_net pm)) (rev (map fst (filter (\<lambda>(_, _, or). prefix order or) ?es))) Local])"
    using ne assms(2) sub by (auto simp: process_relation_update_def relation_removed_def ws_get_def ws_empty_def)
  have "sorted (map entry_rank ?kept)"
    using assms(1) by (simp add: map_in_sync_def sorted_wrt_filter sorted_wrt_map)
  moreover have fields: "p_map ?pm' = ?kept" "indexed ?kept (p_bid_map ?pm', p_path_map ?pm', p_order_map ?pm')"
    using indexed_entries [of ?kept]
    by (cases "index_entries ?kept"; simp add: keep_subnets_def regenerate_def)+
  ultimately have sync: "map_in_sync ?pm'" by (simp add: map_in_sync_def)
  have "b \<in> (\<lambda>(_, b, _). b) ` set ?kept" if "b \<in> set (p_subnets ?pm')" for b
  proof -
    have "bm_contains (p_bid_map ?pm') b" using that by (simp add: keep_subnets_def)
    then have "positions (\<lambda>e. fst (snd e) = b) ?kept \<noteq> []"
      using fields(2) by (auto simp: indexed_def bm_contains_def Let_def split: if_splits)
    then show ?thesis by (force simp: positions_Nil)
  qed
  with run fields(1) sync show ?thesis by auto
qed

theorem relation_removed_exact_witness:
  "\<exists>pm'. process_relation_update byte_ext (Bid 2) (Bid 1) ws_empty two_networks (mount (Bid 1) (Bid 2)) =
      Some (pm', [PathsRemoved (Bref 1) [''n''] Local]) \<and> p_map pm' = [([], Bid 1, [])]"
proof -
  have ix: "bm_get (p_bid_map (mount (Bid 1) (Bid 2))) (Bid 1) = Some [0]"
    using mount_sync [of "Bid 1" "Bid 2"] by (simp add: map_in_sync_def indexed_def Let_def positions_def upt_rec)
  have "map fst (suitable_sinks two_networks (Bid 2) (Bid 1) (mount (Bid 1) (Bid 2))) = [0]"
    by (simp add: suitable_sinks_def source_sub_indices_def ix Let_def)
  then have "\<exists>pm'. process_relation_update byte_ext (Bid 2) (Bid 1) ws_empty two_networks (mount (Bid 1) (Bid 2)) =
      Some (pm', [PathsRemoved (bref_of byte_ext (p_net (mount (Bid 1) (Bid 2))))
        (rev (map fst (filter (\<lambda>(_, _, or). prefix [0] or) (p_map (mount (Bid 1) (Bid 2)))))) Local])
    \<and> p_map pm' = filter (\<lambda>(_, _, or). \<not> prefix [0] or) (p_map (mount (Bid 1) (Bid 2))) \<and> map_in_sync pm'
    \<and> (\<forall>b\<in>set (p_subnets pm'). b \<in> (\<lambda>(_, b, _). b) ` set (p_map pm'))"
    by (intro relation_removed_exact [OF mount_sync, where i = 0 and path = "''n''"]) simp_all
  then show ?thesis by (simp add: byte_brefs) blast
qed

end
