(* ===== verification/Diff.thy ===== *)
theory Diff
  imports BaseEvents PathProps
begin

text \<open>
  \<open>BeliefBase::compute_diff\<close> (\<open>beliefbase/base.rs\<close>): the events that bring the store of a session up to
  the freshly parsed content of one document.

  The parsed content is a \<open>BTreeSet\<close>. A visit of the search that answers \<open>Prune\<close> does not follow the
  edges of its node, so the search runs here on the edges that do not leave such nodes.
\<close>

section \<open>What a document owns\<close>

definition owner_of :: "bid \<Rightarrow> bid \<Rightarrow> weight \<Rightarrow> bid" where
  "owner_of source sink weight =
     (case weight_get to_text weight WEIGHT_OWNED_BY of
        Some v \<Rightarrow> if v = ''source'' then source else sink
      | None \<Rightarrow> sink)"

definition is_owned :: "bid list \<Rightarrow> bid \<Rightarrow> bid \<Rightarrow> weight_kind \<Rightarrow> weight \<Rightarrow> bool" where
  "is_owned scope source sink kind weight \<longleftrightarrow>
     kind = Section \<and> source \<in> set scope
     \<or> kind \<noteq> Section \<and> owner_of source sink weight \<in> set scope"

definition owned_edge :: "bid list \<Rightarrow> edge \<Rightarrow> edge option" where
  "owned_edge scope e =
     (case e of (source, sink, ws) \<Rightarrow>
        if \<not> (source \<in> set scope \<or> sink \<in> set scope) then None
        else
          let weightset = \<lparr>weights = fold (\<lambda>(kind, weight) m.
                if is_owned scope source sink kind weight then bm_insert kind weight m else m)
                (weights ws) []\<rparr>
          in if ws_is_empty weightset then None else Some (source, sink, weightset))"

definition edge_map :: "edge list \<Rightarrow> (bid \<times> bid, weight_set) bmap" where
  "edge_map es = bm_from_list (map (\<lambda>(source, sink, ws). ((source, sink), ws)) es)"

definition parsed_edges :: "bid list \<Rightarrow> bid_graph \<Rightarrow> (bid \<times> bid, weight_set) bmap" where
  "parsed_edges scope rels =
     edge_map (g_edges (from_edges (List.map_filter (owned_edge scope) (g_edges rels))))"

section \<open>The phases\<close>

text \<open>Phase 1: what hung below parsed content and is gone.\<close>

definition removed_content ::
    "discover \<Rightarrow> 'p belief_base \<Rightarrow> 'p belief_base \<Rightarrow> bid list \<Rightarrow> bid list" where
  "removed_content D old new parsed =
     (let old_structure = subgraph_arcs (as_subgraph (bb_relations old) Section True);
          followed = filter (\<lambda>(a, _). \<not> bm_contains (bb_states new) a) old_structure;
          old_content = bs_from_list (filter (\<lambda>b. \<not> bm_contains (bb_states new) b) (D followed parsed))
      in filter (\<lambda>b. b \<notin> set parsed) old_content)"

text \<open>Phase 2: parsed nodes whose text form differs; the \<open>Trace\<close> mark of the old one is not compared.\<close>

definition strip_trace :: "node \<Rightarrow> node" where
  "strip_trace n = n\<lparr>nd_kind := nd_kind n - {Trace}\<rparr>"

definition node_changed :: "(node \<Rightarrow> string) \<Rightarrow> 'p belief_base \<Rightarrow> node \<Rightarrow> bid \<Rightarrow> bool" where
  "node_changed to_toml old new_node b =
     (case bm_get (bb_states old) b of
        Some old_node \<Rightarrow> to_toml new_node \<noteq> to_toml (strip_trace old_node)
      | None \<Rightarrow> True)"

definition node_updates ::
    "(node \<Rightarrow> string) \<Rightarrow> 'p belief_base \<Rightarrow> 'p belief_base \<Rightarrow> bid list \<Rightarrow> belief_event list" where
  "node_updates to_toml old new parsed =
     List.map_filter (\<lambda>b.
       case bm_get (bb_states new) b of
         Some new_node \<Rightarrow>
           if node_changed to_toml old new_node b
           then Some (NodeUpdate [KBid b] (to_toml new_node) Remote) else None
       | None \<Rightarrow> None) parsed"

text \<open>Phase 3: relations that are gone, into nodes the old set knew completely.\<close>

definition relations_gone ::
    "'p belief_base \<Rightarrow> (bid \<times> bid, weight_set) bmap \<Rightarrow> (bid \<times> bid, weight_set) bmap \<Rightarrow> belief_event list" where
  "relations_gone old old_edges new_edges =
     List.map_filter (\<lambda>((source, sink), _).
       if bm_contains new_edges (source, sink) then None
       else case bm_get (bb_states old) sink of
           Some n \<Rightarrow>
             if kind_is_complete (nd_kind n) then Some (RelationRemoved source sink Remote) else None
         | None \<Rightarrow> None) old_edges"

text \<open>Phase 4: new relations, in the order of their sinks.\<close>

definition relations_new ::
    "(bid \<Rightarrow> u16 list option) \<Rightarrow> (bid \<times> bid, weight_set) bmap \<Rightarrow> (bid \<times> bid, weight_set) bmap
      \<Rightarrow> belief_event list" where
  "relations_new order_of old_edges new_edges =
     map fst (sort_by (\<lambda>a b. pathmap_order (snd a) (snd b))
       (map (\<lambda>((source, sink), ws). (RelationUpdate source sink ws Remote, unwrap_or (order_of sink) []))
          (filter (\<lambda>(key, _). \<not> bm_contains old_edges key) new_edges)))"

text \<open>Phase 5: weights of kept relations that differ.\<close>

definition kind_changes :: "bid \<Rightarrow> bid \<Rightarrow> weight_set \<Rightarrow> weight_set \<Rightarrow> belief_event list" where
  "kind_changes source sink old_ws ws =
     List.map_filter (\<lambda>(kind, new_weight).
       if (case ws_get old_ws kind of Some w \<Rightarrow> weight_eq w new_weight | None \<Rightarrow> False) then None
       else Some (RelationChange source sink kind (Some new_weight) Remote)) (weights ws)"

definition weights_changed ::
    "(bid \<times> bid, weight_set) bmap \<Rightarrow> (bid \<times> bid, weight_set) bmap \<Rightarrow> belief_event list" where
  "weights_changed old_edges new_edges =
     concat (map (\<lambda>((source, sink), ws).
       case bm_get old_edges (source, sink) of
         Some old_ws \<Rightarrow> kind_changes source sink old_ws ws
       | None \<Rightarrow> []) new_edges)"

definition compute_diff ::
    "('p, 'c) base_ops_scheme \<Rightarrow> discover \<Rightarrow> 'p belief_base \<Rightarrow> 'p belief_base \<Rightarrow> bid list
      \<Rightarrow> belief_event list" where
  "compute_diff P D old new parsed =
     (let old = index_sync old; new = index_sync new;
          removed = removed_content D old new parsed;
          new_edges = parsed_edges parsed (bb_relations new);
          old_edges = parsed_edges (parsed @ removed) (bb_relations old)
      in (if removed = [] then [] else [NodesRemoved removed Remote])
         @ node_updates (node_toml P) old new parsed
         @ relations_gone old old_edges new_edges
         @ relations_new (pm_order P (bb_paths new)) old_edges new_edges
         @ weights_changed old_edges new_edges)"

section \<open>Lemmas\<close>

lemma fold_insert_filter:
  "fold (\<lambda>(k, v) m. if Q k v then bm_insert k v m else m) es m =
     fold (\<lambda>(k, v) m. bm_insert k v m) (filter (\<lambda>(k, v). Q k v) es) m"
  by (induction es arbitrary: m) auto

lemma fold_insert_ok:
  "bm_ok es \<Longrightarrow> fold (\<lambda>(k, v) m. if Q k v then bm_insert k v m else m) es [] = filter (\<lambda>(k, v). Q k v) es"
  by (simp add: fold_insert_filter bm_from_list_def [symmetric] bm_from_list_id bm_ok_filter)

text \<open>The weights of a relation that belong to a scope.\<close>

definition owned_ws :: "bid list \<Rightarrow> bid \<Rightarrow> bid \<Rightarrow> weight_set \<Rightarrow> weight_set" where
  "owned_ws scope s t ws = \<lparr>weights = filter (\<lambda>(kind, w). is_owned scope s t kind w) (weights ws)\<rparr>"

lemma owned_ws_in_scope:
  assumes "owned_ws scope s t ws \<noteq> ws_empty"
  shows "s \<in> set scope \<or> t \<in> set scope"
proof -
  obtain kind w where "is_owned scope s t kind w"
    using assms by (fastforce simp: owned_ws_def ws_empty_def filter_empty_conv)
  then show ?thesis by (auto simp: is_owned_def owner_of_def split: option.splits if_splits)
qed

lemma owned_edge_eq:
  assumes "ws_ok ws"
  shows "owned_edge scope (s, t, ws) =
    (if owned_ws scope s t ws = ws_empty then None else Some (s, t, owned_ws scope s t ws))"
  using assms owned_ws_in_scope [of scope s t ws]
  by (auto simp: owned_edge_def Let_def fold_insert_ok ws_ok_def owned_ws_def ws_is_empty_def ws_empty_def)

text \<open>What a scope owns of the relation of two nodes.\<close>

definition owned :: "bid list \<Rightarrow> bid_graph \<Rightarrow> bid \<Rightarrow> bid \<Rightarrow> weight_set option" where
  "owned scope rels s t =
     (case edge_weight (g_edges rels) s t of
        None \<Rightarrow> None
      | Some ws \<Rightarrow> if owned_ws scope s t ws = ws_empty then None else Some (owned_ws scope s t ws))"

definition rels_ok :: "bid_graph \<Rightarrow> bool" where
  "rels_ok rels \<longleftrightarrow> distinct (arcs rels) \<and> list_all (\<lambda>e. ws_ok (e_weights e)) (g_edges rels)"

lemma owned_edges_in:
  assumes "rels_ok rels"
  shows "(s, t, ws) \<in> set (List.map_filter (owned_edge scope) (g_edges rels)) \<longleftrightarrow> owned scope rels s t = Some ws"
proof -
  have d: "distinct (map (\<lambda>e. (e_source e, e_sink e)) (g_edges rels))"
    using assms by (simp add: rels_ok_def arcs_def)
  have ok: "ws_ok w" if "(a, b, w) \<in> set (g_edges rels)" for a b w
    using assms that by (auto simp: rels_ok_def list_all_iff e_weights_def)
  have *: "(s, t, ws) \<in> set (List.map_filter (owned_edge scope) (g_edges rels)) \<longleftrightarrow>
      (\<exists>w. (s, t, w) \<in> set (g_edges rels) \<and> owned_ws scope s t w \<noteq> ws_empty \<and> ws = owned_ws scope s t w)"
    using ok by (force simp: mem_map_filter owned_edge_eq split: if_splits)
  show ?thesis
    unfolding * edge_weight_in [OF d, symmetric] by (auto simp: owned_def split: option.splits)
qed

lemma distinct_map_filter:
  assumes "\<And>x y. f x = Some y \<Longrightarrow> key y = key x" "distinct (map key xs)"
  shows "distinct (map key (List.map_filter f xs))"
  using assms(2)
proof (induction xs)
  case (Cons x xs)
  have "key ` set (List.map_filter f xs) \<subseteq> key ` set xs"
    using assms(1) by (fastforce simp: mem_map_filter)
  with Cons assms(1) show ?case by (auto simp: map_filter_Cons split: option.splits)
qed simp

lemma owned_edges_distinct:
  assumes "rels_ok rels"
  shows "distinct (map (\<lambda>e. (e_source e, e_sink e)) (List.map_filter (owned_edge scope) (g_edges rels)))"
proof (rule distinct_map_filter)
  show "owned_edge scope e = Some e' \<Longrightarrow> (e_source e', e_sink e') = (e_source e, e_sink e)" for e e'
    by (cases e) (auto simp: owned_edge_def Let_def split: if_splits)
qed (use assms in \<open>simp add: rels_ok_def arcs_def\<close>)

lemma parsed_edges_get:
  assumes "rels_ok rels"
  shows "bm_get (parsed_edges scope rels) (s, t) = owned scope rels s t"
proof -
  let ?f = "\<lambda>(source, sink, ws). ((source, sink), ws)"
  let ?es = "map ?f (List.map_filter (owned_edge scope) (g_edges rels))"
  have "fst (?f e) = (e_source e, e_sink e)" for e by (cases e) simp
  then have d: "distinct (map fst ?es)"
    using owned_edges_distinct [OF assms, of scope] by (simp add: comp_def)
  then have "map_of (rev ?es) = map_of ?es" by (simp add: map_of_inject_set rev_map [symmetric])
  then have 1: "bm_get (parsed_edges scope rels) (s, t) = map_of ?es (s, t)"
    by (simp add: parsed_edges_def edge_map_def bm_get_from_list from_edges_def)
  have "((s, t), ws) \<in> set ?es \<longleftrightarrow> (s, t, ws) \<in> set (List.map_filter (owned_edge scope) (g_edges rels))" for ws
    by force
  then have "map_of ?es (s, t) = Some ws \<longleftrightarrow> owned scope rels s t = Some ws" for ws
    using map_of_eq_Some_iff [OF d] owned_edges_in [OF assms, of s t ws scope] by metis
  with 1 show ?thesis by (cases "owned scope rels s t"; cases "map_of ?es (s, t)") auto
qed

lemma parsed_edges_ok: "bm_ok (parsed_edges scope rels)"
  by (simp add: parsed_edges_def edge_map_def)


lemma owned_ws_ok:
  assumes "rels_ok rels" "owned scope rels s t = Some ws"
  shows "ws_ok ws"
proof -
  obtain w where w: "edge_weight (g_edges rels) s t = Some w" "ws = owned_ws scope s t w"
    using assms(2) by (auto simp: owned_def split: option.splits if_splits)
  then have "(s, t, w) \<in> set (g_edges rels)"
    using assms(1) edge_weight_in [of "g_edges rels" s t w] by (simp add: rels_ok_def arcs_def)
  then have "ws_ok w" using assms(1) by (auto simp: rels_ok_def list_all_iff e_weights_def)
  then show ?thesis by (simp add: w(2) owned_ws_def ws_ok_def bm_ok_filter)
qed

text \<open>The events of each phase.\<close>

lemma set_insert_by: "set (insert_by cmp x ys) = insert x (set ys)"
  by (induction ys) auto

lemma set_sort_by [simp]: "set (sort_by cmp xs) = set xs"
  by (induction xs) (simp_all add: sort_by_def set_insert_by)

lemma node_updates_mem:
  "ev \<in> set (node_updates to_toml old new parsed) \<longleftrightarrow>
     (\<exists>b n. b \<in> set parsed \<and> bm_get (bb_states new) b = Some n \<and> node_changed to_toml old n b
        \<and> ev = NodeUpdate [KBid b] (to_toml n) Remote)"
  by (auto simp: node_updates_def mem_map_filter split: option.splits if_splits)

lemma relations_gone_mem:
  assumes "bm_ok olds"
  shows "ev \<in> set (relations_gone old olds news) \<longleftrightarrow>
     (\<exists>s t. ev = RelationRemoved s t Remote \<and> bm_get olds (s, t) \<noteq> None \<and> bm_get news (s, t) = None
        \<and> (\<exists>n. bm_get (bb_states old) t = Some n \<and> kind_is_complete (nd_kind n)))"
  using bm_ok_get_iff [OF assms]
  by (force simp: relations_gone_def mem_map_filter bm_contains_def split: option.splits if_splits)

lemma relations_new_mem:
  assumes "bm_ok news"
  shows "ev \<in> set (relations_new order_of olds news) \<longleftrightarrow>
     (\<exists>s t ws. ev = RelationUpdate s t ws Remote \<and> bm_get olds (s, t) = None
        \<and> bm_get news (s, t) = Some ws)"
  unfolding relations_new_def bm_ok_get_iff [OF assms] by (force simp: bm_contains_def)

lemma kind_changes_mem:
  assumes "ws_ok nw"
  shows "ev \<in> set (kind_changes s t ow nw) \<longleftrightarrow>
     (\<exists>k w. ev = RelationChange s t k (Some w) Remote \<and> ws_get nw k = Some w
        \<and> \<not> rel_option weight_eq (ws_get ow k) (Some w))"
proof -
  have *: "ws_get nw k = Some w \<longleftrightarrow> (k, w) \<in> set (weights nw)" for k w
    using assms by (simp add: ws_ok_def ws_get_def bm_ok_get_iff)
  have **: "(case x of Some v \<Rightarrow> weight_eq v w | None \<Rightarrow> False) \<longleftrightarrow> rel_option weight_eq x (Some w)" for x w
    by (cases x) simp_all
  show ?thesis
    unfolding kind_changes_def * ** mem_map_filter by (force split: if_splits)
qed

lemma mem_case_list: "y \<in> set (case x of Some v \<Rightarrow> f v | None \<Rightarrow> []) \<longleftrightarrow> (\<exists>v. x = Some v \<and> y \<in> set (f v))"
  by (cases x) simp_all

lemma weights_changed_mem:
  assumes "bm_ok news" "\<And>s t ws. bm_get news (s, t) = Some ws \<Longrightarrow> ws_ok ws"
  shows "ev \<in> set (weights_changed olds news) \<longleftrightarrow>
     (\<exists>s t k w ow nw. ev = RelationChange s t k (Some w) Remote
        \<and> bm_get olds (s, t) = Some ow \<and> bm_get news (s, t) = Some nw \<and> ws_get nw k = Some w
        \<and> \<not> rel_option weight_eq (ws_get ow k) (Some w))"
proof -
  have "ev \<in> set (weights_changed olds news) \<longleftrightarrow>
      (\<exists>e. e \<in> set news \<and> (\<exists>ow. bm_get olds (fst e) = Some ow
        \<and> ev \<in> set (kind_changes (fst (fst e)) (snd (fst e)) ow (snd e))))"
    unfolding weights_changed_def set_concat set_map image_image UN_iff case_prod_beta mem_case_list
    by (simp add: Bex_def)
  then have "ev \<in> set (weights_changed olds news) \<longleftrightarrow>
      (\<exists>s t nw ow. bm_get news (s, t) = Some nw \<and> bm_get olds (s, t) = Some ow
        \<and> ev \<in> set (kind_changes s t ow nw))"
    unfolding bm_ok_get_iff [OF assms(1)] by (simp add: split_paired_Ex)
  then show ?thesis
    using kind_changes_mem [OF assms(2), of _ _ _ ev] by (simp cong: conj_cong) blast
qed

section \<open>The difference as a patch\<close>

text \<open>What one event does to the weight of a kind between two nodes, if anything.\<close>

definition effect :: "belief_event \<Rightarrow> bid \<Rightarrow> bid \<Rightarrow> weight_kind \<Rightarrow> weight option option" where
  "effect ev s t k =
     (case ev of
        RelationUpdate a b ws _ \<Rightarrow> if a = s \<and> b = t then Some (ws_get ws k) else None
      | RelationRemoved a b _ \<Rightarrow> if a = s \<and> b = t then Some None else None
      | RelationChange a b k' w _ \<Rightarrow> if a = s \<and> b = t \<and> k' = k then Some w else None
      | _ \<Rightarrow> None)"

type_synonym relation_view = "bid \<Rightarrow> bid \<Rightarrow> weight_kind \<Rightarrow> weight option"

definition patch :: "belief_event \<Rightarrow> relation_view \<Rightarrow> relation_view" where
  "patch ev v = (\<lambda>s t k. unwrap_or (effect ev s t k) (v s t k))"

definition owned_view :: "bid list \<Rightarrow> bid_graph \<Rightarrow> relation_view" where
  "owned_view scope rels = (\<lambda>s t k. Option.bind (owned scope rels s t) (\<lambda>ws. ws_get ws k))"

lemma fold_patch:
  assumes "\<And>ev w. ev \<in> set es \<Longrightarrow> effect ev s t k = Some w \<Longrightarrow> w = x"
  shows "fold patch es v s t k = (if \<exists>ev\<in>set es. effect ev s t k \<noteq> None then x else v s t k)"
  using assms
proof (induction es arbitrary: v)
  case (Cons ev es)
  have "fold patch es (patch ev v) s t k =
      (if \<exists>ev\<in>set es. effect ev s t k \<noteq> None then x else patch ev v s t k)"
    by (rule Cons.IH) (rule Cons.prems, simp_all)
  moreover have "patch ev v s t k = (if effect ev s t k = None then v s t k else x)"
    using Cons.prems [of ev] by (auto simp: patch_def unwrap_or_def)
  ultimately show ?case by auto
qed simp

lemma index_sync_kept [simp]:
  "bb_states (index_sync B) = bb_states B" "g_edges (bb_relations (index_sync B)) = g_edges (bb_relations B)"
  by (simp_all add: index_sync_def index_nodes_def Let_def)

lemma rels_ok_sync [simp]: "rels_ok (bb_relations (index_sync B)) = rels_ok (bb_relations B)"
  by (simp add: rels_ok_def arcs_def)

lemma owned_sync [simp]: "owned scope (bb_relations (index_sync B)) = owned scope (bb_relations B)"
  by (intro ext) (simp add: owned_def)

lemma node_changed_sync [simp]: "node_changed f (index_sync B) = node_changed f B"
  by (intro ext) (simp add: node_changed_def)

lemma removed_content_sync [simp]:
  "removed_content D (index_sync old) (index_sync new) parsed = removed_content D old new parsed"
  by (simp add: removed_content_def as_subgraph_def)

definition old_scope :: "discover \<Rightarrow> 'p belief_base \<Rightarrow> 'p belief_base \<Rightarrow> bid list \<Rightarrow> bid list" where
  "old_scope D old new parsed = parsed @ removed_content D old new parsed"

text \<open>What \<open>compute_diff\<close> emits, by kind of event.\<close>

lemma diff_mem:
  assumes "rels_ok (bb_relations old)" "rels_ok (bb_relations new)"
  shows "ev \<in> set (compute_diff P D old new parsed) \<longleftrightarrow>
    (case ev of
       NodesRemoved bids og \<Rightarrow> og = Remote \<and> bids \<noteq> [] \<and> bids = removed_content D old new parsed
     | NodeUpdate ks txt og \<Rightarrow> og = Remote \<and> (\<exists>b n. b \<in> set parsed \<and> bm_get (bb_states new) b = Some n
         \<and> node_changed (node_toml P) old n b \<and> ks = [KBid b] \<and> txt = node_toml P n)
     | RelationRemoved s t og \<Rightarrow> og = Remote
         \<and> owned (old_scope D old new parsed) (bb_relations old) s t \<noteq> None
         \<and> owned parsed (bb_relations new) s t = None
         \<and> (\<exists>n. bm_get (bb_states old) t = Some n \<and> kind_is_complete (nd_kind n))
     | RelationUpdate s t ws og \<Rightarrow> og = Remote
         \<and> owned (old_scope D old new parsed) (bb_relations old) s t = None
         \<and> owned parsed (bb_relations new) s t = Some ws
     | RelationChange s t k w og \<Rightarrow> og = Remote \<and> (\<exists>ow nw.
         owned (old_scope D old new parsed) (bb_relations old) s t = Some ow
         \<and> owned parsed (bb_relations new) s t = Some nw \<and> w \<noteq> None \<and> ws_get nw k = w
         \<and> \<not> rel_option weight_eq (ws_get ow k) w)
     | _ \<Rightarrow> False)"
proof -
  let ?so = "old_scope D old new parsed"
  let ?old = "parsed_edges ?so (bb_relations (index_sync old))"
  let ?new = "parsed_edges parsed (bb_relations (index_sync new))"
  have get: "bm_get ?old (s, t) = owned ?so (bb_relations old) s t"
    "bm_get ?new (s, t) = owned parsed (bb_relations new) s t" for s t
    using assms by (simp_all add: parsed_edges_get)
  have ok: "bm_get ?new (s, t) = Some ws \<Longrightarrow> ws_ok ws" for s t ws
    using owned_ws_ok [OF assms(2)] by (simp add: get)
  have diff: "set (compute_diff P D old new parsed) =
      (if removed_content D old new parsed = [] then {} else {NodesRemoved (removed_content D old new parsed) Remote})
      \<union> set (node_updates (node_toml P) (index_sync old) (index_sync new) parsed)
      \<union> set (relations_gone (index_sync old) ?old ?new)
      \<union> set (relations_new (pm_order P (bb_paths (index_sync new))) ?old ?new)
      \<union> set (weights_changed ?old ?new)"
    by (simp add: compute_diff_def Let_def old_scope_def Un_assoc)
  have changed: "ev \<in> set (weights_changed ?old ?new) \<longleftrightarrow>
     (\<exists>s t k w ow nw. ev = RelationChange s t k (Some w) Remote
        \<and> bm_get ?old (s, t) = Some ow \<and> bm_get ?new (s, t) = Some nw \<and> ws_get nw k = Some w
        \<and> \<not> rel_option weight_eq (ws_get ow k) (Some w))"
    by (rule weights_changed_mem [OF parsed_edges_ok]) (rule ok)
  show ?thesis
    unfolding diff Un_iff node_updates_mem relations_gone_mem [OF parsed_edges_ok]
      relations_new_mem [OF parsed_edges_ok] changed get
    by (cases ev) auto
qed


lemma diff_effect:
  assumes "rels_ok (bb_relations old)" "rels_ok (bb_relations new)"
    and "ev \<in> set (compute_diff P D old new parsed)" "effect ev s t k = Some x"
  shows "x = owned_view parsed (bb_relations new) s t k"
  using assms(4) unfolding diff_mem [OF assms(1,2)] effect_def
  using assms(3) unfolding diff_mem [OF assms(1,2)]
  by (cases ev) (auto simp: owned_view_def split: if_splits)

lemma diff_silent:
  fixes old new :: "'p belief_base" and D :: discover and parsed :: "bid list" and s t :: bid
  assumes "rels_ok (bb_relations old)" "rels_ok (bb_relations new)"
  defines "ow \<equiv> owned (old_scope D old new parsed) (bb_relations old) s t"
    and "nw \<equiv> owned parsed (bb_relations new) s t"
  assumes "\<forall>ev\<in>set (compute_diff P D old new parsed). effect ev s t k = None"
  shows "ow = None \<longrightarrow> nw = None"
    "ow \<noteq> None \<and> nw = None \<longrightarrow> \<not> (\<exists>n. bm_get (bb_states old) t = Some n \<and> kind_is_complete (nd_kind n))"
    "ow = Some a \<and> nw = Some b \<and> ws_get b k \<noteq> None \<longrightarrow> rel_option weight_eq (ws_get a k) (ws_get b k)"
proof -
  note mem = diff_mem [OF assms(1,2), of _ P D parsed]
  have "RelationUpdate s t w Remote \<notin> set (compute_diff P D old new parsed)" for w
    using assms(5) by (auto simp: effect_def)
  then show "ow = None \<longrightarrow> nw = None" by (cases nw) (auto simp: mem ow_def nw_def)
  have "RelationRemoved s t Remote \<notin> set (compute_diff P D old new parsed)"
    using assms(5) by (auto simp: effect_def)
  then show "ow \<noteq> None \<and> nw = None \<longrightarrow>
      \<not> (\<exists>n. bm_get (bb_states old) t = Some n \<and> kind_is_complete (nd_kind n))"
    by (auto simp: mem ow_def nw_def)
  have "RelationChange s t k (ws_get b k) Remote \<notin> set (compute_diff P D old new parsed)"
    using assms(5) by (auto simp: effect_def)
  then show "ow = Some a \<and> nw = Some b \<and> ws_get b k \<noteq> None \<longrightarrow> rel_option weight_eq (ws_get a k) (ws_get b k)"
    by (auto simp: mem ow_def nw_def)
qed

text \<open>
  C17. The relation events of \<open>compute_diff\<close> are a patch: applied to the weights the document owned
  in the old set, they give the weights it owns in the new one, up to the equality of weights, which
  compares sort keys. Two things are needed: relations that vanish point at nodes the old set knows
  completely, and relations that stay lose no kind.
\<close>

theorem diff_is_patch:
  fixes old new :: "'p belief_base" and D :: discover and parsed :: "bid list"
  assumes "rels_ok (bb_relations old)" "rels_ok (bb_relations new)"
  defines "before \<equiv> owned (old_scope D old new parsed) (bb_relations old)"
    and "after \<equiv> owned parsed (bb_relations new)"
  assumes "\<And>s t. before s t \<noteq> None \<Longrightarrow> after s t = None \<Longrightarrow>
      \<exists>n. bm_get (bb_states old) t = Some n \<and> kind_is_complete (nd_kind n)"
    and "\<And>s t ow nw k. before s t = Some ow \<Longrightarrow> after s t = Some nw \<Longrightarrow> ws_get nw k = None \<Longrightarrow> ws_get ow k = None"
  shows "rel_option weight_eq
      (fold patch (compute_diff P D old new parsed)
        (owned_view (old_scope D old new parsed) (bb_relations old)) s t k)
      (owned_view parsed (bb_relations new) s t k)"
proof -
  let ?es = "compute_diff P D old new parsed"
  let ?b = "owned_view (old_scope D old new parsed) (bb_relations old) s t k"
  let ?a = "owned_view parsed (bb_relations new) s t k"
  have refl: "rel_option weight_eq x x" for x by (rule option.rel_refl) (simp add: weight_eq_def)
  have fold: "fold patch ?es (owned_view (old_scope D old new parsed) (bb_relations old)) s t k =
      (if \<exists>ev\<in>set ?es. effect ev s t k \<noteq> None then ?a else ?b)"
    by (rule fold_patch) (rule diff_effect [OF assms(1,2)])
  show ?thesis
  proof (cases "\<exists>ev\<in>set ?es. effect ev s t k \<noteq> None")
    case False
    then have none: "\<forall>ev\<in>set ?es. effect ev s t k = None" by simp
    note silent = diff_silent [OF assms(1,2) none, folded before_def after_def]
    have "rel_option weight_eq ?b ?a"
    proof (cases "before s t")
      case None
      with silent(1) show ?thesis by (simp add: owned_view_def before_def after_def)
    next
      case (Some ow)
      then obtain nw where nw: "after s t = Some nw" using silent(2) assms(5) [of s t] by auto
      from silent(3) [of ow nw] assms(6) [OF Some nw, of k] Some nw show ?thesis
        by (cases "ws_get nw k") (simp_all add: owned_view_def before_def after_def)
    qed
    with False show ?thesis unfolding fold by simp
  qed (simp add: fold refl)
qed

text \<open>
  A kind that a relation loses while it keeps another one is not reported: after the events of
  \<open>compute_diff\<close> the weight of that kind is what it was.
\<close>

theorem lost_kind_survives:
  assumes "rels_ok (bb_relations old)" "rels_ok (bb_relations new)"
    and "owned (old_scope D old new parsed) (bb_relations old) s t = Some ow" "ws_get ow k = Some w"
    and "owned parsed (bb_relations new) s t = Some nw" "ws_get nw k = None"
  shows "fold patch (compute_diff P D old new parsed)
      (owned_view (old_scope D old new parsed) (bb_relations old)) s t k = Some w"
proof -
  have "effect ev s t k = None" if "ev \<in> set (compute_diff P D old new parsed)" for ev
    using that assms(3-6) unfolding diff_mem [OF assms(1,2)] effect_def
    by (cases ev) (auto split: if_splits)
  then have "fold patch (compute_diff P D old new parsed) v s t k = v s t k" for v
    by (subst fold_patch [where x = None]) auto
  then show ?thesis using assms(3,4) by (simp add: owned_view_def)
qed


text \<open>The phases come one after the other, and the new relations in the order of their sinks.\<close>

definition phase :: "belief_event \<Rightarrow> nat" where
  "phase ev =
     (case ev of
        NodesRemoved _ _ \<Rightarrow> 1 | NodeUpdate _ _ _ \<Rightarrow> 2 | RelationRemoved _ _ _ \<Rightarrow> 3
      | RelationUpdate _ _ _ _ \<Rightarrow> 4 | RelationChange _ _ _ _ _ \<Rightarrow> 5 | _ \<Rightarrow> 0)"

lemma sorted_phases:
  fixes f :: "'x \<Rightarrow> nat"
  assumes "\<forall>x\<in>set as. f x = 1" "\<forall>x\<in>set bs. f x = 2" "\<forall>x\<in>set cs. f x = 3" "\<forall>x\<in>set ds. f x = 4"
    "\<forall>x\<in>set es. f x = 5"
  shows "sorted (map f (as @ bs @ cs @ ds @ es)) \<and> filter (\<lambda>x. f x = 4) (as @ bs @ cs @ ds @ es) = ds"
proof -
  have "sorted (map f xs)" if "\<forall>x\<in>set xs. f x = n" for xs n
    using that by (induction xs) auto
  then show ?thesis using assms by (auto simp: sorted_append filter_empty_conv filter_id_conv)
qed

lemma sort_by_order_key: "sort_by (\<lambda>a b. pathmap_order (g a) (g b)) xs = linorder_class.sort_key g xs"
proof -
  have "insert_by (\<lambda>a b. pathmap_order (g a) (g b)) x ys = insort_key g x ys" for x ys
    by (induction ys) (auto simp: pathmap_order_less not_less)
  then have "insert_by (\<lambda>a b. pathmap_order (g a) (g b)) = insort_key g" by (intro ext)
  then show ?thesis by (simp add: sort_by_def linorder_class.sort_key_def)
qed

definition sink_order :: "(bid \<Rightarrow> u16 list option) \<Rightarrow> belief_event \<Rightarrow> u16 list" where
  "sink_order order_of ev = (case ev of RelationUpdate _ t _ _ \<Rightarrow> unwrap_or (order_of t) [] | _ \<Rightarrow> [])"

lemma relations_new_sorted: "sorted (map (sink_order order_of) (relations_new order_of olds news))"
proof -
  let ?xs = "map (\<lambda>((source, sink), ws). (RelationUpdate source sink ws Remote, unwrap_or (order_of sink) []))
      (filter (\<lambda>(key, _). \<not> bm_contains olds key) news)"
  have "\<forall>x\<in>set ?xs. sink_order order_of (fst x) = snd x" by (auto simp: sink_order_def)
  then have "\<forall>x\<in>set (linorder_class.sort_key snd ?xs). sink_order order_of (fst x) = snd x" by simp
  then have "map (sink_order order_of \<circ> fst) (linorder_class.sort_key snd ?xs) = map snd (linorder_class.sort_key snd ?xs)"
    by simp
  then show ?thesis by (simp add: relations_new_def sort_by_order_key del: map_map map_eq_conv) (simp del: map_eq_conv)
qed

text \<open>
  The events come phase by phase - removed nodes, changed nodes, removed relations, new relations,
  changed weights - and new relations come in the order of their sinks in the path map of the new set,
  so that a relation into a node never precedes those into its ancestors.
\<close>

theorem diff_in_order:
  assumes "rels_ok (bb_relations old)" "rels_ok (bb_relations new)"
  shows "sorted (map phase (compute_diff P D old new parsed))
    \<and> sorted (map (sink_order (pm_order P (bb_paths new)))
        (filter (\<lambda>ev. phase ev = 4) (compute_diff P D old new parsed)))"
proof -
  let ?so = "old_scope D old new parsed"
  let ?old = "parsed_edges ?so (bb_relations (index_sync old))"
  let ?new = "parsed_edges parsed (bb_relations (index_sync new))"
  let ?r = "if removed_content D old new parsed = [] then [] else [NodesRemoved (removed_content D old new parsed) Remote]"
  let ?n = "node_updates (node_toml P) (index_sync old) (index_sync new) parsed"
  let ?g = "relations_gone (index_sync old) ?old ?new"
  let ?u = "relations_new (pm_order P (bb_paths new)) ?old ?new"
  let ?c = "weights_changed ?old ?new"
  have paths: "bb_paths (index_sync new) = bb_paths new" by (simp add: index_sync_def index_nodes_def Let_def)
  have diff: "compute_diff P D old new parsed = ?r @ ?n @ ?g @ ?u @ ?c"
    by (simp add: compute_diff_def Let_def old_scope_def paths)
  have ok: "bm_get ?new (s, t) = Some ws \<Longrightarrow> ws_ok ws" for s t ws
    using owned_ws_ok [OF assms(2)] assms by (simp add: parsed_edges_get)
  have p: "\<forall>x\<in>set ?r. phase x = 1" "\<forall>x\<in>set ?n. phase x = 2" "\<forall>x\<in>set ?g. phase x = 3"
    "\<forall>x\<in>set ?u. phase x = 4"
    by (auto simp: phase_def node_updates_mem relations_gone_mem [OF parsed_edges_ok]
        relations_new_mem [OF parsed_edges_ok])
  have "ev \<in> set ?c \<longleftrightarrow> (\<exists>s t k w ow nw. ev = RelationChange s t k (Some w) Remote
        \<and> bm_get ?old (s, t) = Some ow \<and> bm_get ?new (s, t) = Some nw \<and> ws_get nw k = Some w
        \<and> \<not> rel_option weight_eq (ws_get ow k) (Some w))" for ev
    by (rule weights_changed_mem [OF parsed_edges_ok]) (rule ok)
  then have c: "\<forall>x\<in>set ?c. phase x = 5" by (auto simp: phase_def)
  show ?thesis
    unfolding diff using sorted_phases [OF p c] relations_new_sorted [of "pm_order P (bb_paths new)" ?old ?new]
    by simp
qed

text \<open>
  Nodes that left a document are never removed by the difference: the search for them starts at the
  parsed nodes and does not go on from a node that the new set contains, and it contains the parsed
  ones. Without such nodes, the difference of a set to itself is empty, apart from nodes marked as
  traces.
\<close>

theorem diff_never_removes:
  assumes "discovers D (filter (\<lambda>(a, _). \<not> bm_contains (bb_states new) a)
      (subgraph_arcs (as_subgraph (bb_relations old) Section True))) parsed"
    and "set parsed \<subseteq> set (bm_keys (bb_states new))"
  shows "removed_content D old new parsed = []"
proof -
  let ?es = "filter (\<lambda>(a, _). \<not> bm_contains (bb_states new) a)
      (subgraph_arcs (as_subgraph (bb_relations old) Section True))"
  have keys: "bm_contains (bb_states new) b" if "b \<in> set parsed" for b
    using assms(2) that by (auto simp: bm_contains_iff bm_keys_def)
  have "(set ?es)\<^sup>* `` set parsed \<subseteq> set parsed"
  proof clarify
    fix a b
    assume "(a, b) \<in> (set ?es)\<^sup>*" "a \<in> set parsed"
    then show "b \<in> set parsed" using keys by (induction rule: converse_rtrancl_induct) auto
  qed
  then have "set (D ?es parsed) \<subseteq> set parsed" using assms(1) by (simp add: discovers_def)
  then have "filter (\<lambda>b. \<not> bm_contains (bb_states new) b) (D ?es parsed) = []"
    using keys by (auto simp: filter_empty_conv)
  then show ?thesis by (simp add: removed_content_def bs_from_list_def)
qed

section \<open>Instances\<close>

definition one_relation :: "bid \<Rightarrow> weight_set \<Rightarrow> unit belief_base" where
  "one_relation s ws = section_base\<lparr>bb_relations := from_edges [(s, Bid 3, ws)]\<rparr>"

definition two_kinds :: weight_set where
  "two_kinds = ws_set Epistemic \<lparr>w_payload = []\<rparr> (keyed_section 0)"

lemma one_relation_ok: "rels_ok (bb_relations (one_relation s (keyed_section 0)))"
  "rels_ok (bb_relations (one_relation s two_kinds))"
  by (simp_all add: one_relation_def rels_ok_def arcs_def from_edges_def two_kinds_def keyed_section_def)

lemma one_relation_owned:
  assumes "Bid 3 \<in> set scope" "s \<in> set scope" "ws \<noteq> ws_empty"
  shows "owned scope (bb_relations (one_relation s ws)) a b = (if a = s \<and> b = Bid 3 then Some ws else None)"
proof -
  have "is_owned scope s (Bid 3) k w" for k w
    using assms by (auto simp: is_owned_def owner_of_def split: option.splits)
  then show ?thesis using assms(3)
    by (auto simp: owned_def one_relation_def from_edges_def edge_weight_def owned_ws_def ws_empty_def)
qed

abbreviation three :: "bid list" where "three \<equiv> [Bid 1, Bid 2, Bid 3]"

lemma one_relation_scope:
  "removed_content (\<lambda>es seeds. seeds) (one_relation s v) (one_relation t w) three = []"
  by (simp add: removed_content_def one_relation_def section_base_def section_graph_def bm_contains_def
      bm_get_def bs_from_list_def)

lemma one_relation_states: "bm_get (bb_states (one_relation s v)) (Bid 3) = Some (unknown_node (Bid 3))"
  by (simp add: one_relation_def section_base_def section_graph_def bm_get_def)

lemma two_kinds_get: "two_kinds \<noteq> ws_empty" "keyed_section n \<noteq> ws_empty"
  "ws_get two_kinds Epistemic = Some \<lparr>w_payload = []\<rparr>" "ws_get (keyed_section n) Epistemic = None"
  by (simp_all add: two_kinds_def keyed_section_def ws_empty_def ws_set_def ws_get_def bm_get_def)

lemma all_owned: "removed_content (\<lambda>es seeds. seeds) (one_relation s v) (one_relation t w) three = [] \<Longrightarrow>
    old_scope (\<lambda>es seeds. seeds) (one_relation s v) (one_relation t w) three = three"
  by (simp add: old_scope_def)

theorem diff_is_patch_witness:
  "rel_option weight_eq
     (fold patch (compute_diff plain_ops (\<lambda>es seeds. seeds) (one_relation (Bid 1) (keyed_section 0))
         (one_relation (Bid 2) two_kinds) three)
       (owned_view (old_scope (\<lambda>es seeds. seeds) (one_relation (Bid 1) (keyed_section 0))
         (one_relation (Bid 2) two_kinds) three) (bb_relations (one_relation (Bid 1) (keyed_section 0))))
       (Bid 2) (Bid 3) Epistemic)
     (owned_view three (bb_relations (one_relation (Bid 2) two_kinds)) (Bid 2) (Bid 3) Epistemic)"
  using one_relation_scope [of "Bid 1" "keyed_section 0" "Bid 2" two_kinds]
  by (intro diff_is_patch one_relation_ok)
    (auto simp: old_scope_def one_relation_owned two_kinds_get one_relation_states kind_is_complete_def
      unknown_node_def split: if_splits)

theorem lost_kind_survives_witness:
  "fold patch (compute_diff plain_ops (\<lambda>es seeds. seeds) (one_relation (Bid 1) two_kinds)
      (one_relation (Bid 1) (keyed_section 0)) three)
     (owned_view (old_scope (\<lambda>es seeds. seeds) (one_relation (Bid 1) two_kinds)
       (one_relation (Bid 1) (keyed_section 0)) three) (bb_relations (one_relation (Bid 1) two_kinds)))
     (Bid 1) (Bid 3) Epistemic = Some \<lparr>w_payload = []\<rparr>"
  using one_relation_scope [of "Bid 1" two_kinds "Bid 1" "keyed_section 0"]
  by (intro lost_kind_survives [where ow = two_kinds and nw = "keyed_section 0"] one_relation_ok)
    (simp_all add: old_scope_def one_relation_owned two_kinds_get)

theorem diff_in_order_witness:
  "sorted (map phase (compute_diff plain_ops (\<lambda>es seeds. seeds) (one_relation (Bid 1) two_kinds)
     (one_relation (Bid 2) (keyed_section 0)) three))"
  using diff_in_order [OF one_relation_ok(2,1)] by blast

theorem diff_never_removes_witness:
  "removed_content (\<lambda>es seeds. seeds) (one_relation (Bid 1) two_kinds) (one_relation (Bid 1) two_kinds) three = []"
  by (rule diff_never_removes)
    (simp_all add: discovers_def one_relation_def section_base_def section_graph_def bm_keys_def
      bm_contains_def bm_get_def as_subgraph_def from_edges_def subgraph_arcs_def
      map_filter_Cons split: option.split)

end
