(* ===== verification/Diagnostics.thy ===== *)
theory Diagnostics
  imports Graphs
begin

text \<open>
  Diagnostics (\<open>codec/diagnostic.rs\<close>): references that could not be resolved yet, the messages of a parse,
  and the line and column of a byte offset. Their \<open>Display\<close> form is left out.
\<close>

section \<open>Unresolved references\<close>

record unresolved_reference =
  ur_direction :: direction
  ur_self_bid :: bid
  ur_self_net :: bid
  ur_self_path :: string
  ur_other_keys :: "node_key list"
  ur_weight_kind :: weight_kind
  ur_weight_data :: "table option"
  ur_location :: "(nat \<times> nat) option"

definition unresolved_default :: unresolved_reference where
  "unresolved_default =
     \<lparr>ur_direction = Incoming, ur_self_bid = nil_bid, ur_self_net = nil_bid, ur_self_path = [],
      ur_other_keys = [], ur_weight_kind = Epistemic, ur_weight_data = None, ur_location = None\<rparr>"

definition unresolved_new ::
    "direction \<Rightarrow> bid \<Rightarrow> bid \<Rightarrow> string \<Rightarrow> node_key list \<Rightarrow> weight_kind \<Rightarrow> unresolved_reference" where
  "unresolved_new direction self_bid self_net self_path other_keys weight_kind =
     \<lparr>ur_direction = direction, ur_self_bid = self_bid, ur_self_net = self_net, ur_self_path = self_path,
      ur_other_keys = other_keys, ur_weight_kind = weight_kind, ur_weight_data = None, ur_location = None\<rparr>"

definition unresolved_with_weight ::
    "direction \<Rightarrow> bid \<Rightarrow> bid \<Rightarrow> string \<Rightarrow> node_key list \<Rightarrow> weight_kind \<Rightarrow> table \<Rightarrow> unresolved_reference" where
  "unresolved_with_weight direction self_bid self_net self_path other_keys weight_kind weight_data =
     \<lparr>ur_direction = direction, ur_self_bid = self_bid, ur_self_net = self_net, ur_self_path = self_path,
      ur_other_keys = other_keys, ur_weight_kind = weight_kind, ur_weight_data = Some weight_data,
      ur_location = None\<rparr>"

definition unresolved_with_location :: "nat \<Rightarrow> nat \<Rightarrow> unresolved_reference \<Rightarrow> unresolved_reference" where
  "unresolved_with_location line column u = u\<lparr>ur_location := Some (line, column)\<rparr>"

definition is_unresolved_source :: "unresolved_reference \<Rightarrow> bool" where
  "is_unresolved_source u \<longleftrightarrow> ur_direction u = Incoming"

definition is_path_key :: "node_key \<Rightarrow> bool" where
  "is_path_key key = (case key of KPath _ _ \<Rightarrow> True | _ \<Rightarrow> False)"

definition as_unresolved_source :: "unresolved_reference \<Rightarrow> (string \<times> bref) option" where
  "as_unresolved_source u =
     (if ur_direction u = Incoming
      then case find is_path_key (ur_other_keys u) of
          Some (KPath net path) \<Rightarrow> Some (filepath (ap_new path), net)
        | _ \<Rightarrow> None
      else None)"

section \<open>Diagnostics of a parse\<close>

datatype parse_diagnostic =
    Unresolved unresolved_reference
  | ReparseLimitExceeded
  | ParseError string nat "(nat \<times> nat) option"
  | Warning string "(nat \<times> nat) option"
  | Info string "(nat \<times> nat) option"

definition parse_error :: "string \<Rightarrow> nat \<Rightarrow> parse_diagnostic" where
  "parse_error message attempt_count = ParseError message attempt_count None"

definition warning :: "string \<Rightarrow> parse_diagnostic" where
  "warning message = Warning message None"

definition info :: "string \<Rightarrow> parse_diagnostic" where
  "info message = Info message None"

fun with_location :: "parse_diagnostic \<Rightarrow> nat \<Rightarrow> nat \<Rightarrow> parse_diagnostic" where
  "with_location (Warning message _) line column = Warning message (Some (line, column))"
| "with_location (Info message _) line column = Info message (Some (line, column))"
| "with_location (ParseError message attempt_count _) line column =
     ParseError message attempt_count (Some (line, column))"
| "with_location other _ _ = other"

fun location :: "parse_diagnostic \<Rightarrow> (nat \<times> nat) option" where
  "location (Warning _ loc) = loc"
| "location (Info _ loc) = loc"
| "location (ParseError _ _ loc) = loc"
| "location (Unresolved u) = ur_location u"
| "location ReparseLimitExceeded = None"

definition is_parse_error :: "parse_diagnostic \<Rightarrow> bool" where
  "is_parse_error d = (case d of ParseError _ _ _ \<Rightarrow> True | _ \<Rightarrow> False)"

definition as_parse_error :: "parse_diagnostic \<Rightarrow> (string \<times> nat) option" where
  "as_parse_error d =
     (case d of ParseError message attempt_count _ \<Rightarrow> Some (message, attempt_count) | _ \<Rightarrow> None)"

definition is_unresolved_reference :: "parse_diagnostic \<Rightarrow> bool" where
  "is_unresolved_reference d = (case d of Unresolved _ \<Rightarrow> True | _ \<Rightarrow> False)"

definition as_unresolved_reference :: "parse_diagnostic \<Rightarrow> unresolved_reference option" where
  "as_unresolved_reference d = (case d of Unresolved u \<Rightarrow> Some u | _ \<Rightarrow> None)"

section \<open>Positions in a source text\<close>

text \<open>Slicing inside a character panics: \<open>None\<close>.\<close>

abbreviation newline :: char where "newline \<equiv> CHR 0x0A"

definition char_boundary :: "string \<Rightarrow> nat \<Rightarrow> bool" where
  "char_boundary s i \<longleftrightarrow> i = 0 \<or> i = length s \<or> i < length s \<and> \<not> is_continuation (s ! i)"

definition byte_offset_to_location :: "string \<Rightarrow> nat \<Rightarrow> (nat \<times> nat) option" where
  "byte_offset_to_location source offset =
     (let clamped = min offset (length source)
      in if \<not> char_boundary source clamped then None
         else
           let before = str_slice source 0 clamped;
               line = length (filter (\<lambda>c. c = newline) before) + 1;
               col = (case str_rfind newline before of
                        Some i \<Rightarrow> clamped - i - 1
                      | None \<Rightarrow> clamped) + 1
           in Some (line, col))"

section \<open>Lemmas\<close>

text \<open>The offset a line and a column stand for.\<close>

definition line_start :: "string \<Rightarrow> nat \<Rightarrow> nat" where
  "line_start source n = sum_list (map (\<lambda>l. length l + 1) (take n (str_split newline source)))"


lemma str_split_append: "str_split c (u @ c # v) = str_split c u @ str_split c v"
  by (induction u) (auto split: list.splits)

lemma length_str_split: "length (str_split c s) = length (filter (\<lambda>x. x = c) s) + 1"
  by (induction s) (auto split: list.splits)

lemma sum_str_split: "sum_list (map (\<lambda>l. length l + 1) (str_split c s)) = length s + 1"
  by (induction s) (auto split: list.splits)

lemma str_split_hd_length: "c \<notin> set q \<Longrightarrow> length q \<le> length (hd (str_split c (q @ s)))"
  by (induction q) (auto split: list.splits)

text \<open>
  Lines and columns are positions: both count from one, the column stays inside its line, and the
  lines before it together with the column give the offset back, cut at the end of the text.
\<close>

theorem location_roundtrip:
  assumes "byte_offset_to_location source offset = Some (line, col)"
  shows "1 \<le> line \<and> line \<le> length (str_split newline source) \<and> 1 \<le> col
    \<and> col - 1 \<le> length (str_split newline source ! (line - 1))
    \<and> line_start source (line - 1) + (col - 1) = min offset (length source)"
proof -
  let ?c = "min offset (length source)"
  let ?b = "take ?c source" and ?a = "drop ?c source"
  have s: "source = ?b @ ?a" by simp
  show ?thesis
  proof (cases "str_rfind newline ?b")
    case None
    then have nl: "newline \<notin> set ?b" using str_rfind_None by metis
    then have "filter (\<lambda>c. c = newline) ?b = []" unfolding filter_empty_conv by metis
    with assms None have lc: "line = 1" "col = ?c + 1"
      by (auto simp: byte_offset_to_location_def str_slice_def Let_def split: if_splits)
    have "length ?b \<le> length (hd (str_split newline (?b @ ?a)))" by (rule str_split_hd_length [OF nl])
    then have "?c \<le> length (str_split newline source ! 0)" by (simp add: hd_conv_nth)
    with lc show ?thesis by (simp add: line_start_def Suc_le_eq)
  next
    case (Some i)
    then have i: "i < ?c" "?b ! i = newline" "newline \<notin> set (drop (Suc i) ?b)"
      using str_rfind_Some [OF Some] by simp_all
    let ?u = "take i ?b" and ?q = "drop (Suc i) ?b"
    have b: "?b = ?u @ newline # ?q" using id_take_nth_drop [of i ?b] i by simp
    have "filter (\<lambda>c. c = newline) ?q = []" using i(3) unfolding filter_empty_conv by metis
    then have "length (filter (\<lambda>c. c = newline) ?b) = length (str_split newline ?u)"
      by (subst b) (simp add: length_str_split)
    with assms Some i have lc: "line = length (str_split newline ?u) + 1" "col = ?c - i - 1 + 1"
      by (auto simp: byte_offset_to_location_def str_slice_def Let_def split: if_splits)
    have "source = ?u @ newline # (?q @ ?a)" using s b by (metis append_Cons append_assoc)
    then have sp: "str_split newline source = str_split newline ?u @ str_split newline (?q @ ?a)"
      using str_split_append by metis
    have "line_start source (line - 1) = i + 1"
      unfolding line_start_def sp lc using sum_str_split [of newline ?u] i(1) by simp
    moreover have "length ?q \<le> length (hd (str_split newline (?q @ ?a)))"
      by (rule str_split_hd_length [OF i(3)])
    then have "col - 1 \<le> length (str_split newline source ! (line - 1))"
      unfolding sp lc by (simp add: nth_append hd_conv_nth)
    moreover have "line \<le> length (str_split newline source)"
      unfolding sp lc by (simp add: Suc_le_eq)
    moreover have "1 \<le> line" "1 \<le> col" using lc by simp_all
    moreover have "line_start source (line - 1) + (col - 1) = ?c"
      using \<open>line_start source (line - 1) = i + 1\<close> lc(2) i(1) by linarith
    ultimately show ?thesis by blast
  qed
qed

theorem location_roundtrip_witness:
  "line_start [CHR ''a'', newline, CHR ''b''] 1 + (2 - 1) = min 9 3"
  using location_roundtrip [of "[CHR ''a'', newline, CHR ''b'']" 9 2 2]
  by (simp add: byte_offset_to_location_def char_boundary_def str_slice_def)

end
