(* ===== verification/IRNodes.thy ===== *)
theory IRNodes
  imports Diagnostics
begin

text \<open>
  The intermediate representation (\<open>codec/belief_ir.rs\<close>, \<open>codec/schema_registry.rs\<close>): metadata in JSON,
  YAML or TOML becomes a document, a document with its relations an \<open>IRNode\<close>; schemas name the fields
  that are relations.

  The \<open>toml_edit\<close> document is the ordered map of its items; comments and layout are left out, so that
  its printed form is a function of the items. An item is a value, a table or an array of tables; inline
  tables are values. Parsing and printing of the three formats are the fields of \<open>doc_ops\<close>, arguments
  of what uses them.
\<close>

section \<open>Documents\<close>

datatype item = Val toml | Tab "(string \<times> item) list" | Tabs "(string \<times> item) list list"

type_synonym document = "(string, item) bmap"

datatype json_number = PosInt "64 word" | NegInt int | Float "64 word"

datatype json =
    JNull
  | JBool bool
  | JNumber json_number
  | JString string
  | JArray "json list"
  | JObject "(string \<times> json) list"

text \<open>
  \<open>reparse\<close> parses the printed form of an item as a TOML document, \<open>as_f64\<close> rounds an unsigned number to
  a float, \<open>trim_ws\<close> is \<open>str::trim\<close>.
\<close>

record doc_ops =
  reparse :: "item \<Rightarrow> toml option"
  json_parse :: "string \<Rightarrow> buildonomy_error + json"
  yaml_parse :: "string \<Rightarrow> buildonomy_error + json"
  toml_print :: "toml \<Rightarrow> buildonomy_error + string"
  toml_parse :: "string \<Rightarrow> buildonomy_error + toml"
  doc_parse :: "string \<Rightarrow> buildonomy_error + document"
  doc_print :: "document \<Rightarrow> string"
  as_f64 :: "64 word \<Rightarrow> 64 word"
  trim_ws :: "string \<Rightarrow> string"

fun item_toml :: "item \<Rightarrow> toml"
  and doc_table :: "(string \<times> item) list \<Rightarrow> table"
  and doc_tables :: "(string \<times> item) list list \<Rightarrow> toml list" where
  "item_toml (Val v) = v"
| "item_toml (Tab es) = TTable (doc_table es)"
| "item_toml (Tabs ts) = TArray (doc_tables ts)"
| "doc_table [] = []"
| "doc_table ((k, i) # es) = (k, item_toml i) # doc_table es"
| "doc_tables [] = []"
| "doc_tables (t # ts) = TTable (doc_table t) # doc_tables ts"

text \<open>\<open>Item::as_str\<close>.\<close>

definition item_text :: "item \<Rightarrow> string option" where
  "item_text i = (case i of Val v \<Rightarrow> to_text v | _ \<Rightarrow> None)"

text \<open>
  \<open>toml_edit_value_to_toml_value\<close>: strings, numbers, booleans, arrays and inline tables; an entry of an
  inline table that cannot be converted is dropped, in an array it fails the array.
\<close>

fun value_to_toml :: "(item \<Rightarrow> toml option) \<Rightarrow> toml \<Rightarrow> toml option"
  and values_to_toml :: "(item \<Rightarrow> toml option) \<Rightarrow> toml list \<Rightarrow> toml list option"
  and entries_to_toml :: "(item \<Rightarrow> toml option) \<Rightarrow> (string \<times> toml) list \<Rightarrow> table" where
  "value_to_toml rp (TString s) = Some (TString s)"
| "value_to_toml rp (TInteger i) = Some (TInteger i)"
| "value_to_toml rp (TFloat f) = Some (TFloat f)"
| "value_to_toml rp (TBoolean b) = Some (TBoolean b)"
| "value_to_toml rp (TArray vs) = map_option TArray (values_to_toml rp vs)"
| "value_to_toml rp (TTable es) = Some (TTable (entries_to_toml rp es))"
| "value_to_toml rp (TDatetime d) = rp (Val (TDatetime d))"
| "values_to_toml rp [] = Some []"
| "values_to_toml rp (v # vs) =
     (case (value_to_toml rp v, values_to_toml rp vs) of
        (Some w, Some ws) \<Rightarrow> Some (w # ws)
      | _ \<Rightarrow> None)"
| "entries_to_toml rp [] = []"
| "entries_to_toml rp ((k, v) # es) =
     (let rest = entries_to_toml rp es
      in case value_to_toml rp v of
           Some w \<Rightarrow> if bm_contains rest k then rest else bm_insert k w rest
         | None \<Rightarrow> rest)"

definition item_to_toml :: "(item \<Rightarrow> toml option) \<Rightarrow> item \<Rightarrow> toml option" where
  "item_to_toml rp i = (case i of Val v \<Rightarrow> value_to_toml rp v | _ \<Rightarrow> rp i)"

section \<open>The three formats\<close>

definition number_to_toml :: "(64 word \<Rightarrow> 64 word) \<Rightarrow> json_number \<Rightarrow> toml" where
  "number_to_toml f64 n =
     (case n of
        PosInt w \<Rightarrow> if unat w < 2 ^ 63 then TInteger (uint w) else TFloat (f64 w)
      | NegInt i \<Rightarrow> TInteger i
      | Float f \<Rightarrow> TFloat f)"

text \<open>TOML has no null: it becomes the empty string, and is skipped in objects.\<close>

fun json_to_toml :: "(64 word \<Rightarrow> 64 word) \<Rightarrow> json \<Rightarrow> toml"
  and jsons_to_toml :: "(64 word \<Rightarrow> 64 word) \<Rightarrow> json list \<Rightarrow> toml list"
  and object_to_toml :: "(64 word \<Rightarrow> 64 word) \<Rightarrow> (string \<times> json) list \<Rightarrow> table" where
  "json_to_toml f64 JNull = TString []"
| "json_to_toml f64 (JBool b) = TBoolean b"
| "json_to_toml f64 (JNumber n) = number_to_toml f64 n"
| "json_to_toml f64 (JString s) = TString s"
| "json_to_toml f64 (JArray js) = TArray (jsons_to_toml f64 js)"
| "json_to_toml f64 (JObject es) = TTable (object_to_toml f64 es)"
| "jsons_to_toml f64 [] = []"
| "jsons_to_toml f64 (j # js) = json_to_toml f64 j # jsons_to_toml f64 js"
| "object_to_toml f64 [] = []"
| "object_to_toml f64 ((k, j) # es) =
     (if j = JNull then object_to_toml f64 es
      else let rest = object_to_toml f64 es
           in if bm_contains rest k then rest else bm_insert k (json_to_toml f64 j) rest)"


datatype metadata_format = Json | Toml | Yaml

definition parse_json_to_document :: "'z doc_ops_scheme \<Rightarrow> string \<Rightarrow> buildonomy_error + document" where
  "parse_json_to_document Z s =
     (case json_parse Z s of
        Inl _ \<Rightarrow> Inl Codec
      | Inr j \<Rightarrow>
          (case toml_print Z (json_to_toml (as_f64 Z) j) of
             Inl _ \<Rightarrow> Inl Codec
           | Inr text \<Rightarrow> (case doc_parse Z text of Inl _ \<Rightarrow> Inl Codec | Inr doc \<Rightarrow> Inr doc)))"

definition parse_toml_to_document :: "'z doc_ops_scheme \<Rightarrow> string \<Rightarrow> buildonomy_error + document" where
  "parse_toml_to_document Z s = (case doc_parse Z s of Inl _ \<Rightarrow> Inl Codec | Inr doc \<Rightarrow> Inr doc)"

definition parse_yaml_to_document :: "'z doc_ops_scheme \<Rightarrow> string \<Rightarrow> buildonomy_error + document" where
  "parse_yaml_to_document Z s =
     (case yaml_parse Z s of
        Inl _ \<Rightarrow> Inl Codec
      | Inr j \<Rightarrow>
          (case toml_print Z (json_to_toml (as_f64 Z) j) of
             Inl _ \<Rightarrow> Inl Codec
           | Inr text \<Rightarrow> (case doc_parse Z text of Inl _ \<Rightarrow> Inl Codec | Inr doc \<Rightarrow> Inr doc)))"

definition parse_with_fallback ::
    "'z doc_ops_scheme \<Rightarrow> string \<Rightarrow> metadata_format \<Rightarrow> buildonomy_error + document" where
  "parse_with_fallback Z content primary =
     (case primary of
        Json \<Rightarrow>
          (case parse_json_to_document Z content of
             Inr doc \<Rightarrow> Inr doc
           | Inl _ \<Rightarrow>
               (case parse_yaml_to_document Z content of
                  Inr doc \<Rightarrow> Inr doc
                | Inl _ \<Rightarrow>
                    (case parse_toml_to_document Z content of Inr doc \<Rightarrow> Inr doc | Inl _ \<Rightarrow> Inl Codec)))
      | Toml \<Rightarrow>
          (case parse_toml_to_document Z content of
             Inr doc \<Rightarrow> Inr doc
           | Inl _ \<Rightarrow>
               (case parse_yaml_to_document Z content of
                  Inr doc \<Rightarrow> Inr doc
                | Inl _ \<Rightarrow>
                    (case parse_json_to_document Z content of Inr doc \<Rightarrow> Inr doc | Inl _ \<Rightarrow> Inl Codec)))
      | Yaml \<Rightarrow>
          (case parse_yaml_to_document Z content of
             Inr doc \<Rightarrow> Inr doc
           | Inl _ \<Rightarrow>
               (case parse_json_to_document Z content of
                  Inr doc \<Rightarrow> Inr doc
                | Inl _ \<Rightarrow>
                    (case parse_toml_to_document Z content of Inr doc \<Rightarrow> Inr doc | Inl _ \<Rightarrow> Inl Codec))))"

section \<open>Relations and nodes\<close>

record intermediate_relation =
  ir_key :: node_key
  ir_rel_kind :: weight_kind
  ir_weight :: "weight option"
  ir_location :: "nat option"

definition relation_new :: "node_key \<Rightarrow> weight_kind \<Rightarrow> weight option \<Rightarrow> intermediate_relation" where
  "relation_new key kind weight =
     \<lparr>ir_key = key, ir_rel_kind = kind, ir_weight = weight, ir_location = None\<rparr>"

definition relation_with_location :: "nat \<Rightarrow> intermediate_relation \<Rightarrow> intermediate_relation" where
  "relation_with_location byte_offset r = r\<lparr>ir_location := Some byte_offset\<rparr>"

definition relation_eq :: "intermediate_relation \<Rightarrow> intermediate_relation \<Rightarrow> bool" where
  "relation_eq a b \<longleftrightarrow>
     ir_key a = ir_key b \<and> ir_rel_kind a = ir_rel_kind b
     \<and> rel_option weight_eq (ir_weight a) (ir_weight b) \<and> ir_location a = ir_location b"

record ir_node =
  ir_accumulator :: "string option"
  ir_content :: string
  ir_document :: document
  ir_upstream :: "intermediate_relation list"
  ir_downstream :: "intermediate_relation list"
  ir_path :: string
  ir_kind :: kind_set
  ir_errors :: "buildonomy_error list"
  ir_heading :: nat

definition ir_default :: ir_node where
  "ir_default =
     \<lparr>ir_accumulator = None, ir_content = [], ir_document = [], ir_upstream = [], ir_downstream = [],
      ir_path = [], ir_kind = {}, ir_errors = [], ir_heading = 0\<rparr>"

definition ir_eq :: "'z doc_ops_scheme \<Rightarrow> ir_node \<Rightarrow> ir_node \<Rightarrow> bool" where
  "ir_eq Z a b \<longleftrightarrow>
     doc_print Z (ir_document a) = doc_print Z (ir_document b) \<and> ir_kind a = ir_kind b
     \<and> list_all2 relation_eq (ir_upstream a) (ir_upstream b)
     \<and> list_all2 relation_eq (ir_downstream a) (ir_downstream b)"

definition ir_title :: "ir_node \<Rightarrow> string option" where
  "ir_title p = Option.bind (bm_get (ir_document p) ''title'') item_text"

text \<open>An empty \<open>id\<close> suppresses the one made from the title.\<close>

definition ir_id :: "'a text_ext_scheme \<Rightarrow> ir_node \<Rightarrow> string option" where
  "ir_id X p =
     (case Option.bind (bm_get (ir_document p) ''id'') item_text of
        Some explicit \<Rightarrow> if explicit = [] then None else Some explicit
      | None \<Rightarrow>
          let slug = to_anchor X (unwrap_or (ir_title p) [])
          in if slug = [] then None else Some slug)"

definition merge_entry ::
    "(item \<Rightarrow> toml option) \<Rightarrow> string \<times> item \<Rightarrow> document \<times> bool \<Rightarrow> document \<times> bool" where
  "merge_entry rp entry acc =
     (case (entry, acc) of ((key, new_item), (doc, changed)) \<Rightarrow>
        case bm_get doc key of
          Some current_item \<Rightarrow>
            if rel_option toml_eq (item_to_toml rp current_item) (item_to_toml rp new_item) then (doc, changed)
            else (bm_insert key new_item doc, True)
        | None \<Rightarrow> (bm_insert key new_item doc, True))"

text \<open>
  \<open>IRNode::merge\<close>. The upstream relations of the other node are taken out before they are looked at,
  so that the comparison that follows sees none.
\<close>

definition ir_merge :: "(item \<Rightarrow> toml option) \<Rightarrow> ir_node \<Rightarrow> ir_node \<Rightarrow> ir_node \<times> bool" where
  "ir_merge rp self other =
     (let (self, changed) =
            (if ir_kind self \<noteq> ir_kind other
             then (self\<lparr>ir_kind := ir_kind self \<union> ir_kind other\<rparr>, True) else (self, False));
          (doc, changed) = fold (merge_entry rp) (ir_document other) (ir_document self, changed);
          self = self\<lparr>ir_document := doc\<rparr>;
          other_upstream = ir_upstream other; other = other\<lparr>ir_upstream := []\<rparr>;
          (self, changed) =
            (if \<not> list_all2 relation_eq (ir_upstream self) (ir_upstream other) \<and> ir_upstream other \<noteq> []
             then (self\<lparr>ir_upstream := ir_upstream self @ other_upstream\<rparr>, True) else (self, changed));
          (self, changed) =
            (if \<not> list_all2 relation_eq (ir_downstream self) (ir_downstream other) \<and> ir_downstream other \<noteq> []
             then (self\<lparr>ir_downstream := ir_downstream self @ ir_downstream other\<rparr>, True)
             else (self, changed));
          (self, changed) =
            (if ir_heading other \<noteq> 0 then (self\<lparr>ir_heading := ir_heading other\<rparr>, True) else (self, changed));
          (self, changed) =
            (if ir_errors self \<noteq> ir_errors other \<and> ir_errors other \<noteq> []
             then (self\<lparr>ir_errors := ir_errors self @ ir_errors other\<rparr>, True) else (self, changed))
      in if ir_path self \<noteq> ir_path other \<and> ir_path other \<noteq> []
         then (self\<lparr>ir_path := ir_path other\<rparr>, True) else (self, changed))"

definition as_frontmatter :: "'z doc_ops_scheme \<Rightarrow> ir_node \<Rightarrow> string" where
  "as_frontmatter Z p = doc_print Z (bm_remove ''text'' (ir_document p))"

definition as_subsection :: "'z doc_ops_scheme \<Rightarrow> ir_node \<Rightarrow> string" where
  "as_subsection Z p = doc_print Z (bm_remove ''title'' (bm_remove ''text'' (ir_document p)))"

text \<open>
  \<open>from_str_with_format\<close>: identifiers of the reserved namespaces are refused, \<open>kind\<close> is dropped, and the
  entries of \<open>payload\<close> move to the top.
\<close>

definition reserved_bid :: "'a id_ext_scheme \<Rightarrow> document \<Rightarrow> bool" where
  "reserved_bid X doc =
     (case Option.bind (bm_get doc ''bid'') item_text of
        Some bid_str \<Rightarrow> (case bid_try_from X bid_str of Inr b \<Rightarrow> is_reserved X b | Inl _ \<Rightarrow> False)
      | None \<Rightarrow> False)"

definition flatten_payload :: "document \<Rightarrow> document" where
  "flatten_payload doc =
     (let doc = bm_remove ''kind'' doc
      in case bm_get doc ''payload'' of
           None \<Rightarrow> doc
         | Some payload \<Rightarrow>
             let doc = bm_remove ''payload'' doc
             in case payload of
                  Tab t \<Rightarrow> fold (\<lambda>(key, i). bm_insert key i) t doc
                | _ \<Rightarrow> doc)"

definition from_str_with_format ::
    "'a id_ext_scheme \<Rightarrow> 'z doc_ops_scheme \<Rightarrow> string \<Rightarrow> metadata_format \<Rightarrow> buildonomy_error + ir_node" where
  "from_str_with_format X Z s preferred_format =
     (let content = trim_ws Z s
      in case parse_with_fallback Z content preferred_format of
           Inl e \<Rightarrow> Inl e
         | Inr doc \<Rightarrow>
             if reserved_bid X doc then Inl Codec
             else Inr (ir_default\<lparr>ir_content := content, ir_document := flatten_payload doc\<rparr>))"

definition ir_from_str :: "'a id_ext_scheme \<Rightarrow> 'z doc_ops_scheme \<Rightarrow> string \<Rightarrow> buildonomy_error + ir_node" where
  "ir_from_str X Z s = from_str_with_format X Z s Json"

text \<open>\<open>node_text\<close> is the serialisation of a node.\<close>

definition ir_from_node ::
    "'a id_ext_scheme \<Rightarrow> 'z doc_ops_scheme \<Rightarrow> (node \<Rightarrow> buildonomy_error + string) \<Rightarrow> node
      \<Rightarrow> buildonomy_error + ir_node" where
  "ir_from_node X Z node_text src =
     (case node_text src of
        Inl e \<Rightarrow> Inl e
      | Inr content \<Rightarrow>
          (case ir_from_str X Z content of
             Inl e \<Rightarrow> Inl e
           | Inr proto \<Rightarrow> Inr (proto\<lparr>ir_kind := nd_kind src\<rparr>)))"

definition node_from_proto :: "'a id_ext_scheme \<Rightarrow> ir_node \<Rightarrow> buildonomy_error + node" where
  "node_from_proto X p = node_from_ir X (doc_table (ir_document p)) (ir_kind p)"

text \<open>\<open>update_from_context\<close>, given the node and the path of the context; \<open>update_schema\<close> does nothing.\<close>

definition update_from_context ::
    "'a id_ext_scheme \<Rightarrow> 'z doc_ops_scheme \<Rightarrow> (node \<Rightarrow> buildonomy_error + string) \<Rightarrow> node \<Rightarrow> string
      \<Rightarrow> ir_node \<Rightarrow> ir_node \<times> (buildonomy_error + node option)" where
  "update_from_context X Z node_text ctx_node ctx_root_path self =
     (case ir_from_node X Z node_text ctx_node of
        Inl e \<Rightarrow> (self, Inl e)
      | Inr other \<Rightarrow>
          let (self, changed) = ir_merge (reparse Z) self other;
              self = (if ir_heading self > 2 then self\<lparr>ir_path := ctx_root_path\<rparr> else self)
          in (self, if changed then (case node_from_proto X self of Inl e \<Rightarrow> Inl e | Inr n \<Rightarrow> Inr (Some n))
                    else Inr None))"


section \<open>Schemas\<close>

datatype edge_direction = Upstream | Downstream

record graph_field =
  gf_field_name :: string
  gf_direction :: edge_direction
  gf_weight_kind :: weight_kind
  gf_required :: bool
  gf_payload_fields :: "string list"

type_synonym schema_definition = "graph_field list"
type_synonym schema_registry = "(string, schema_definition) bmap"

definition schema_register :: "string \<Rightarrow> schema_definition \<Rightarrow> schema_registry \<Rightarrow> schema_registry" where
  "schema_register name def_val reg = bm_insert name def_val reg"

definition schema_get :: "schema_registry \<Rightarrow> string \<Rightarrow> schema_definition option" where
  "schema_get reg name = bm_get reg name"

definition list_schemas :: "schema_registry \<Rightarrow> string list" where
  "list_schemas reg = bm_keys reg"

definition schema_create :: schema_registry where
  "schema_create =
     schema_register ''noet.network_config'' []
       (schema_register ''intention_lattice.intention''
          [\<lparr>gf_field_name = ''parent_connections'', gf_direction = Downstream, gf_weight_kind = Pragmatic,
            gf_required = False,
            gf_payload_fields = [''relationship_semantics'', ''motivation_kinds'', ''notes'']\<rparr>] [])"

text \<open>A float that is greater than zero: not negative, not a zero, not a NaN.\<close>

definition float_positive :: "64 word \<Rightarrow> bool" where
  "float_positive f \<longleftrightarrow> \<not> bit f 63 \<and> f \<noteq> 0 \<and> \<not> float_is_nan f"

definition profile_kind :: "table \<Rightarrow> string \<times> string \<Rightarrow> toml option" where
  "profile_kind profile names =
     (case bm_get profile (fst names) of
        Some (TFloat v) \<Rightarrow> if float_positive v then Some (TString (snd names)) else None
      | _ \<Rightarrow> None)"

definition migrate_relationship_profile :: "toml \<Rightarrow> toml \<times> bool" where
  "migrate_relationship_profile item =
     (case item of
        TTable tbl \<Rightarrow>
          (case bm_get tbl ''relationship_profile'' of
             Some (TTable profile) \<Rightarrow>
               let semantics = List.map_filter (profile_kind profile)
                     [(''constitutive'', ''Constitutive''), (''instrumental'', ''Instrumental''),
                      (''expressive'', ''Expressive''), (''exploratory'', ''Exploratory'')]
               in if semantics \<noteq> []
                  then (TTable (bm_remove ''relationship_profile''
                          (bm_insert ''relationship_semantics'' (TArray semantics) tbl)), True)
                  else (item, False)
           | _ \<Rightarrow> (item, False))
      | _ \<Rightarrow> (item, False))"

definition migrate_array_field :: "toml list \<Rightarrow> toml list \<times> bool" where
  "migrate_array_field vs =
     (map (fst \<circ> migrate_relationship_profile) vs, list_ex (snd \<circ> migrate_relationship_profile) vs)"

definition migrate_schema :: "string \<Rightarrow> toml \<Rightarrow> toml \<times> bool" where
  "migrate_schema schema_name doc =
     (if schema_name = ''intention_lattice.intention'' then
        (case doc of
           TTable tbl \<Rightarrow>
             (case bm_get tbl ''parent_connections'' of
                Some (TArray connections) \<Rightarrow>
                  let (connections, migrated) = migrate_array_field connections
                  in (TTable (bm_insert ''parent_connections'' (TArray connections) tbl), migrated)
              | _ \<Rightarrow> (doc, False))
         | _ \<Rightarrow> (doc, False))
      else (doc, False))"

text \<open>\<open>traverse_schema\<close>: the relations a field of the document stands for.\<close>

definition reference_key :: "'a text_ext_scheme \<Rightarrow> 'f codec_map \<Rightarrow> string \<Rightarrow> node_key" where
  "reference_key X codecs id_str =
     (case key_from_str X codecs id_str of Inr key \<Rightarrow> key | Inl _ \<Rightarrow> KId (bref_of X nil_bid) id_str)"

definition item_payload :: "graph_field \<Rightarrow> table \<Rightarrow> weight option" where
  "item_payload field tbl =
     (let payload_table = fold (\<lambda>name pt. case bm_get tbl name of
            Some v \<Rightarrow> bm_insert name v pt | None \<Rightarrow> pt) (gf_payload_fields field) []
      in if payload_table = [] then None else Some \<lparr>w_payload = payload_table\<rparr>)"

definition item_reference ::
    "'a text_ext_scheme \<Rightarrow> 'f codec_map \<Rightarrow> graph_field \<Rightarrow> toml \<Rightarrow> (node_key \<times> weight option) option" where
  "item_reference X codecs field item =
     (case item of
        TString id_str \<Rightarrow> Some (reference_key X codecs id_str, None)
      | TTable tbl \<Rightarrow>
          (case Option.bind (bm_get tbl ''parent_id'') to_text of
             Some id_str \<Rightarrow> Some (reference_key X codecs id_str, item_payload field tbl)
           | None \<Rightarrow> None)
      | _ \<Rightarrow> None)"

definition push_directed :: "graph_field \<Rightarrow> node_key \<times> weight option \<Rightarrow> ir_node \<Rightarrow> ir_node" where
  "push_directed field reference p =
     (case reference of (key, payload) \<Rightarrow>
        let r = relation_new key (gf_weight_kind field) payload
        in case gf_direction field of
             Downstream \<Rightarrow> p\<lparr>ir_downstream := ir_downstream p @ [r]\<rparr>
           | Upstream \<Rightarrow> p\<lparr>ir_upstream := ir_upstream p @ [r]\<rparr>)"

definition traverse_field ::
    "'a text_ext_scheme \<Rightarrow> 'f codec_map \<Rightarrow> toml \<Rightarrow> graph_field \<Rightarrow> ir_node \<Rightarrow> ir_node" where
  "traverse_field X codecs doc field p =
     (case doc of
        TTable tbl \<Rightarrow>
          (case bm_get tbl (gf_field_name field) of
             Some (TArray items) \<Rightarrow>
               fold (push_directed field) (List.map_filter (item_reference X codecs field) items) p
           | Some (TString id_str) \<Rightarrow> push_directed field (reference_key X codecs id_str, None) p
           | _ \<Rightarrow> p)
      | _ \<Rightarrow> p)"

definition traverse_schema ::
    "'a text_ext_scheme \<Rightarrow> 'z doc_ops_scheme \<Rightarrow> 'f codec_map \<Rightarrow> schema_registry \<Rightarrow> ir_node
      \<Rightarrow> ir_node \<times> (buildonomy_error + unit)" where
  "traverse_schema X Z codecs schemas p =
     (case Option.bind (bm_get (ir_document p) ''schema'') item_text of
        None \<Rightarrow> (p, Inr ())
      | Some schema_name \<Rightarrow>
          (case toml_parse Z (doc_print Z (ir_document p)) of
             Inl _ \<Rightarrow> (p, Inl Codec)
           | Inr toml_value \<Rightarrow>
               let (toml_value, migrated) = migrate_schema schema_name toml_value;
                   document = (if \<not> migrated then Inr (ir_document p)
                     else case toml_print Z toml_value of
                         Inl _ \<Rightarrow> Inl Codec
                       | Inr text \<Rightarrow> (case doc_parse Z text of Inl _ \<Rightarrow> Inl Codec | Inr doc \<Rightarrow> Inr doc))
               in case document of
                    Inl e \<Rightarrow> (p, Inl e)
                  | Inr doc \<Rightarrow>
                      let p = (if migrated then p\<lparr>ir_document := doc, ir_content := doc_print Z doc\<rparr> else p)
                      in case schema_get schemas schema_name of
                           None \<Rightarrow> (p, Inr ())
                         | Some graph_fields \<Rightarrow> (fold (traverse_field X codecs toml_value) graph_fields p, Inr ())))"


section \<open>Properties\<close>

lemma fold_pair_flag:
  assumes "\<And>x a b. snd (f x (a, b)) = False \<Longrightarrow> f x (a, b) = (a, b)"
  shows "snd (fold f xs (a, b)) = False \<Longrightarrow> fold f xs (a, b) = (a, b) \<and> b = False"
proof (induction xs arbitrary: a b)
  case (Cons x xs)
  obtain a' b' where f: "f x (a, b) = (a', b')" by (cases "f x (a, b)")
  then have "\<not> snd (fold f xs (a', b'))" using Cons.prems by simp
  then have r: "fold f xs (a', b') = (a', b')" "\<not> b'" using Cons.IH by blast+
  with f assms [of x a b] have "f x (a, b) = (a, b)" by simp
  with f r show ?case by simp
qed simp

lemma merge_entry_unchanged:
  "\<not> snd (merge_entry rp e (d, c)) \<Longrightarrow> merge_entry rp e (d, c) = (d, c)"
  by (cases e) (auto simp: merge_entry_def split: option.splits if_splits)

lemma ir_merge_eq:
  assumes "fold (merge_entry rp) (ir_document other) (ir_document self, ir_kind self \<noteq> ir_kind other) = (doc, ch)"
  defines "d \<equiv> \<not> list_all2 relation_eq (ir_downstream self) (ir_downstream other) \<and> ir_downstream other \<noteq> []"
    and "e \<equiv> ir_errors self \<noteq> ir_errors other \<and> ir_errors other \<noteq> []"
    and "p \<equiv> ir_path self \<noteq> ir_path other \<and> ir_path other \<noteq> []"
  shows "ir_merge rp self other =
    (self\<lparr>ir_kind := ir_kind self \<union> ir_kind other, ir_document := doc,
       ir_downstream := (if d then ir_downstream self @ ir_downstream other else ir_downstream self),
       ir_heading := (if ir_heading other \<noteq> 0 then ir_heading other else ir_heading self),
       ir_errors := (if e then ir_errors self @ ir_errors other else ir_errors self),
       ir_path := (if p then ir_path other else ir_path self)\<rparr>,
     ch \<or> d \<or> ir_heading other \<noteq> 0 \<or> e \<or> p)"
proof (cases "ir_kind self = ir_kind other")
  case True
  with assms(1) have "fold (merge_entry rp) (ir_document other) (ir_document self, False) = (doc, ch)" by simp
  with True show ?thesis by (cases self) (simp add: ir_merge_def Let_def d_def e_def p_def)
next
  case False
  with assms(1) have "fold (merge_entry rp) (ir_document other) (ir_document self, True) = (doc, ch)" by simp
  with False show ?thesis by (cases self) (simp add: ir_merge_def Let_def d_def e_def p_def)
qed

lemma from_str_heading: "ir_from_str X Z t = Inr p \<Longrightarrow> ir_heading p = 0"
  by (auto simp: ir_from_str_def from_str_with_format_def ir_default_def Let_def split: sum.splits if_splits)

lemma merge_heading: "ir_heading other = 0 \<Longrightarrow> ir_heading (fst (ir_merge rp p other)) = ir_heading p"
proof -
  obtain doc ch where "fold (merge_entry rp) (ir_document other) (ir_document p, ir_kind p \<noteq> ir_kind other) = (doc, ch)"
    by fastforce
  from ir_merge_eq [OF this] show "ir_heading other = 0 \<Longrightarrow> ?thesis" by simp
qed

text \<open>
  The flag of \<open>IRNode::merge\<close> can be trusted: when it says that nothing changed, the node is what it
  was. The merge unites the kinds, lets a heading level, a path and other entries of the document through,
  and never takes over a single upstream relation.
\<close>

theorem merge_flag_sound:
  "(\<not> snd (ir_merge rp self other) \<longrightarrow> fst (ir_merge rp self other) = self)
   \<and> ir_upstream (fst (ir_merge rp self other)) = ir_upstream self
   \<and> ir_kind (fst (ir_merge rp self other)) = ir_kind self \<union> ir_kind other
   \<and> (\<forall>k. bm_get (ir_document other) k = None \<longrightarrow>
       bm_get (ir_document (fst (ir_merge rp self other))) k = bm_get (ir_document self) k)"
proof -
  let ?c = "ir_kind self \<noteq> ir_kind other"
  obtain doc ch where m: "fold (merge_entry rp) (ir_document other) (ir_document self, ?c) = (doc, ch)"
    by (cases "fold (merge_entry rp) (ir_document other) (ir_document self, ?c)")
  have same: "\<not> ch \<Longrightarrow> doc = ir_document self \<and> \<not> ?c"
    using fold_pair_flag [where f = "merge_entry rp" and xs = "ir_document other" and a = "ir_document self"
        and b = ?c] merge_entry_unchanged m by fastforce
  have get: "bm_get (fst (fold (merge_entry rp) es (d, c))) k = bm_get d k" if "k \<notin> fst ` set es" for es d c k
    using that
  proof (induction es arbitrary: d c)
    case (Cons e es)
    obtain d' c' where e: "merge_entry rp e (d, c) = (d', c')" by (cases "merge_entry rp e (d, c)")
    with Cons.prems have "bm_get d' k = bm_get d k"
      by (cases e) (auto simp: merge_entry_def split: option.splits if_splits)
    with Cons e show ?case by simp
  qed simp
  have "bm_get doc k = bm_get (ir_document self) k" if "bm_get (ir_document other) k = None" for k
    using get [of k "ir_document other" "ir_document self" ?c] that m
    by (simp add: bm_get_def map_of_eq_None_iff)
  with same show ?thesis unfolding ir_merge_eq [OF m] by (cases self) (auto split: if_splits)
qed

lemma profile_migrated:
  "migrate_relationship_profile (fst (migrate_relationship_profile v)) = (fst (migrate_relationship_profile v), False)"
  by (auto simp: migrate_relationship_profile_def Let_def split: toml.splits option.splits)

lemma bm_insert_twice [simp]: "bm_insert k v (bm_insert k w m) = bm_insert k v m"
  by (induction m) auto

text \<open>
  A migration is done once: a second one leaves the migrated document as it is and reports no change.
\<close>

theorem migrate_idempotent:
  "migrate_schema name (fst (migrate_schema name doc)) = (fst (migrate_schema name doc), False)"
proof -
  have "migrate_array_field (fst (migrate_array_field vs)) = (fst (migrate_array_field vs), False)" for vs
    by (simp add: migrate_array_field_def profile_migrated list_ex_iff)
  then show ?thesis
    by (auto simp: migrate_schema_def Let_def case_prod_beta split: toml.splits option.splits)
qed


text \<open>What a field adds to the relations of one direction.\<close>

definition field_references ::
    "'a text_ext_scheme \<Rightarrow> 'f codec_map \<Rightarrow> toml \<Rightarrow> graph_field \<Rightarrow> (node_key \<times> weight option) list" where
  "field_references X codecs doc field =
     (case doc of
        TTable tbl \<Rightarrow>
          (case bm_get tbl (gf_field_name field) of
             Some (TArray items) \<Rightarrow> List.map_filter (item_reference X codecs field) items
           | Some (TString id_str) \<Rightarrow> [(reference_key X codecs id_str, None)]
           | _ \<Rightarrow> [])
      | _ \<Rightarrow> [])"

definition directed :: "edge_direction \<Rightarrow> 'a text_ext_scheme \<Rightarrow> 'f codec_map \<Rightarrow> toml \<Rightarrow> graph_field list
    \<Rightarrow> intermediate_relation list" where
  "directed d X codecs doc fs =
     concat (map (\<lambda>f. map (\<lambda>(key, payload). relation_new key (gf_weight_kind f) payload)
       (field_references X codecs doc f)) (filter (\<lambda>f. gf_direction f = d) fs))"

definition add_relations_to ::
    "intermediate_relation list \<Rightarrow> intermediate_relation list \<Rightarrow> ir_node \<Rightarrow> ir_node" where
  "add_relations_to us ds p =
     p\<lparr>ir_upstream := ir_upstream p @ us, ir_downstream := ir_downstream p @ ds\<rparr>"

lemma push_all:
  "fold (push_directed f) refs p =
     (let rs = map (\<lambda>(key, payload). relation_new key (gf_weight_kind f) payload) refs
      in if gf_direction f = Upstream then add_relations_to rs [] p else add_relations_to [] rs p)"
  by (induction refs arbitrary: p)
    (auto simp: push_directed_def add_relations_to_def Let_def split: edge_direction.splits)

lemma traverse_field_eq:
  "traverse_field X codecs doc f p = fold (push_directed f) (field_references X codecs doc f) p"
  by (auto simp: traverse_field_def field_references_def split: toml.splits option.splits)

lemma traverse_fields:
  "fold (traverse_field X codecs doc) fs p =
     add_relations_to (directed Upstream X codecs doc fs) (directed Downstream X codecs doc fs) p"
proof (induction fs arbitrary: p)
  case (Cons f fs)
  then show ?case
    by (cases "gf_direction f")
      (simp_all add: traverse_field_eq push_all Let_def directed_def add_relations_to_def)
qed (simp add: directed_def add_relations_to_def)

text \<open>
  Traversing the schema of a node that needs no migration adds exactly the references of its graph
  fields, in the order of the schema and of the document, behind the relations it had, each in the
  direction and with the kind of its field; everything else stays.
\<close>

theorem schema_relations:
  assumes "Option.bind (bm_get (ir_document p) ''schema'') item_text = Some name"
    "toml_parse Z (doc_print Z (ir_document p)) = Inr doc" "migrate_schema name doc = (doc', False)"
    "schema_get schemas name = Some fs"
  shows "traverse_schema X Z codecs schemas p =
    (p\<lparr>ir_upstream := ir_upstream p @ directed Upstream X codecs doc' fs,
       ir_downstream := ir_downstream p @ directed Downstream X codecs doc' fs\<rparr>, Inr ())"
  using assms by (simp add: traverse_schema_def traverse_fields add_relations_to_def)

text \<open>The attempts of \<open>parse_with_fallback\<close>, in their order.\<close>

definition attempts :: "'z doc_ops_scheme \<Rightarrow> metadata_format \<Rightarrow> (string \<Rightarrow> buildonomy_error + document) list" where
  "attempts Z primary =
     (case primary of
        Json \<Rightarrow> [parse_json_to_document Z, parse_yaml_to_document Z, parse_toml_to_document Z]
      | Toml \<Rightarrow> [parse_toml_to_document Z, parse_yaml_to_document Z, parse_json_to_document Z]
      | Yaml \<Rightarrow> [parse_yaml_to_document Z, parse_json_to_document Z, parse_toml_to_document Z])"

lemma fallback_first:
  "parse_with_fallback Z s primary =
     (case find (\<lambda>r. \<not> isl r) (map (\<lambda>f. f s) (attempts Z primary)) of Some r \<Rightarrow> r | None \<Rightarrow> Inl Codec)"
  by (auto simp: parse_with_fallback_def attempts_def split: metadata_format.splits sum.splits)

text \<open>
  Metadata is read by the first of the three formats that accepts it, in the order of preference, and
  refused only where none does or where its \<open>bid\<close> is a reserved one. That check comes before the entries
  of \<open>payload\<close> move to the top, so a \<open>bid\<close> in the payload takes effect unchecked.
\<close>

theorem metadata_parse:
  "(case from_str_with_format X Z s primary of
      Inl e \<Rightarrow> e = Codec \<and> (\<forall>f\<in>set (attempts Z primary). isl (f (trim_ws Z s)))
        \<or> e = Codec \<and> (\<exists>doc. parse_with_fallback Z (trim_ws Z s) primary = Inr doc \<and> reserved_bid X doc)
    | Inr p \<Rightarrow> \<exists>f doc. f \<in> set (attempts Z primary) \<and> f (trim_ws Z s) = Inr doc \<and> \<not> reserved_bid X doc
        \<and> parse_with_fallback Z (trim_ws Z s) primary = Inr doc \<and> ir_document p = flatten_payload doc
        \<and> (\<forall>t i. bm_get doc ''payload'' = Some (Tab t) \<and> bm_ok t \<and> bm_get t ''bid'' = Some i
            \<longrightarrow> bm_get (ir_document p) ''bid'' = Some i))"
proof -
  let ?c = "trim_ws Z s"
  let ?rs = "map (\<lambda>f. f ?c) (attempts Z primary)"
  have flat: "bm_get (flatten_payload doc) ''bid'' = Some i"
    if "bm_get doc ''payload'' = Some (Tab t)" "bm_ok t" "bm_get t ''bid'' = Some i" for doc t i
    using that by (simp add: flatten_payload_def Let_def bm_get_fold_insert map_of_rev)
  show ?thesis
  proof (cases "find (\<lambda>r. \<not> isl r) ?rs")
    case None
    then have "\<forall>f\<in>set (attempts Z primary). isl (f ?c)" by (auto simp: find_None_iff)
    with None show ?thesis by (simp add: from_str_with_format_def fallback_first Let_def)
  next
    case (Some r)
    have "r \<in> set ?rs" "\<not> isl r" using Some unfolding find_Some_iff by (metis nth_mem)+
    then obtain f where f: "f \<in> set (attempts Z primary)" "r = f ?c" "\<not> isl r" by auto
    from f(3) obtain doc where doc: "r = Inr doc" by (cases r) simp_all
    have p: "parse_with_fallback Z ?c primary = Inr doc" by (simp add: fallback_first Some doc)
    have fd: "f ?c = Inr doc" using f(2) doc by simp
    show ?thesis
    proof (cases "reserved_bid X doc")
      case True
      with p show ?thesis by (simp add: from_str_with_format_def Let_def)
    next
      case False
      with p f(1) fd flat show ?thesis by (auto simp: from_str_with_format_def Let_def)
    qed
  qed
qed


section \<open>Instances\<close>

text \<open>A document format in which every text parses to the same document and only TOML is read.\<close>

definition toml_only :: "document \<Rightarrow> toml \<Rightarrow> doc_ops" where
  "toml_only doc v =
     \<lparr>reparse = \<lambda>i. None, json_parse = \<lambda>s. Inl Codec, yaml_parse = \<lambda>s. Inl Codec,
      toml_print = \<lambda>v. Inr [], toml_parse = \<lambda>s. Inr v, doc_parse = \<lambda>s. Inr doc, doc_print = \<lambda>d. [],
      as_f64 = id, trim_ws = id\<rparr>"

theorem merge_flag_sound_witness:
  "\<forall>rp. fst (ir_merge rp ir_default (ir_default\<lparr>ir_upstream := [relation_new (KId (Bref 0) ''a'') Epistemic None]\<rparr>))
     = ir_default"
proof
  fix rp
  let ?o = "ir_default\<lparr>ir_upstream := [relation_new (KId (Bref 0) ''a'') Epistemic None]\<rparr>"
  have "\<not> snd (ir_merge rp ir_default ?o)"
    by (simp add: ir_merge_def ir_default_def Let_def)
  then show "fst (ir_merge rp ir_default ?o) = ir_default"
    using merge_flag_sound [of rp ir_default ?o] by blast
qed

theorem schema_relations_witness:
  "\<forall>(X :: 'a text_ext_scheme) (codecs :: 'f codec_map).
     fst (traverse_schema X (toml_only [] (TTable [(''parent_connections'', TArray [TInteger 1])])) codecs schema_create
       (ir_default\<lparr>ir_document := [(''schema'', Val (TString ''intention_lattice.intention''))]\<rparr>))
     = ir_default\<lparr>ir_document := [(''schema'', Val (TString ''intention_lattice.intention''))]\<rparr>"
proof (intro allI)
  fix X :: "'a text_ext_scheme" and codecs :: "'f codec_map"
  let ?p = "ir_default\<lparr>ir_document := [(''schema'', Val (TString ''intention_lattice.intention''))]\<rparr>"
  let ?doc = "TTable [(''parent_connections'', TArray [TInteger 1])]"
  obtain f where fs: "schema_get schema_create ''intention_lattice.intention'' = Some [f]"
      "gf_field_name f = ''parent_connections''"
    by (simp add: schema_get_def schema_create_def schema_register_def bm_get_Cons)
  have refs: "field_references X codecs ?doc f = []"
    by (simp add: field_references_def fs item_reference_def map_filter_simps bm_get_Cons)
  have "traverse_schema X (toml_only [] ?doc) codecs schema_create ?p =
      (?p\<lparr>ir_upstream := ir_upstream ?p @ directed Upstream X codecs ?doc [f],
         ir_downstream := ir_downstream ?p @ directed Downstream X codecs ?doc [f]\<rparr>, Inr ())"
    by (rule schema_relations [OF _ _ _ fs(1), where doc = ?doc])
      (simp_all add: item_text_def to_text_def toml_only_def migrate_schema_def migrate_array_field_def
        migrate_relationship_profile_def bm_get_Cons Let_def)
  then show "fst (traverse_schema X (toml_only [] ?doc) codecs schema_create ?p) = ?p"
    by (simp add: directed_def refs ir_default_def)
qed

theorem metadata_parse_witness:
  "\<forall>X :: 'a id_ext_scheme.
     case from_str_with_format X (toml_only [(''payload'', Tab [(''bid'', Val (TString ''b''))])] (TInteger 0)) [] Json of
       Inl e \<Rightarrow> False
     | Inr p \<Rightarrow> bm_get (ir_document p) ''bid'' = Some (Val (TString ''b''))"
proof
  fix X :: "'a id_ext_scheme"
  let ?doc = "[(''payload'', Tab [(''bid'', Val (TString ''b''))])]"
  let ?Z = "toml_only ?doc (TInteger 0)"
  have p: "parse_with_fallback ?Z (trim_ws ?Z []) Json = Inr ?doc" "\<not> reserved_bid X ?doc"
    by (simp_all add: parse_with_fallback_def toml_only_def parse_json_to_document_def parse_yaml_to_document_def
        parse_toml_to_document_def reserved_bid_def bm_get_Cons)
  then obtain p where "from_str_with_format X ?Z [] Json = Inr p"
    by (auto simp: from_str_with_format_def Let_def)
  with metadata_parse [where X = X and Z = ?Z and s = "[]" and primary = Json] p
  show "case from_str_with_format X ?Z [] Json of Inl e \<Rightarrow> False
     | Inr p \<Rightarrow> bm_get (ir_document p) ''bid'' = Some (Val (TString ''b''))"
    by (auto simp: bm_get_Cons bm_ok_Cons)
qed

end
