(* ===== verification/NetFiles.thy ===== *)
theory NetFiles
  imports Diff IRNodes
begin

text \<open>
  Networks as directories (\<open>codec/network.rs\<close>, \<open>codec/proto_index.rs\<close>): operating-system paths and their
  text form (\<open>paths/path.rs\<close>), the children of a network directory found by a walk, and the index of
  every network directory that gives a document its place among its siblings.

  A path is the list of its components, the root an empty one in front (there are no prefixes outside
  Windows). The file system, with the walk of the walkdir crate, and the front matter reader of the
  Markdown codec are parameters.
\<close>

section \<open>Paths of the operating system\<close>

type_synonym os_path = "string list"

definition os_path_to_string :: "os_path \<Rightarrow> string" where
  "os_path_to_string p = str_join ''/'' p"

text \<open>\<open>Path::components\<close> of a string: repeated separators and \<open>.\<close> after the first component vanish.\<close>

definition string_to_os_path :: "string \<Rightarrow> os_path" where
  "string_to_os_path s =
     (let parts = str_split (CHR ''/'') s; kept = filter (\<lambda>c. c \<noteq> [] \<and> c \<noteq> ''.'')
      in if starts_with s ''/'' then [] # kept parts
         else if hd parts = ''.'' then ''.'' # kept (tl parts) else kept parts)"

definition path_parent :: "os_path \<Rightarrow> os_path option" where
  "path_parent p = (if p = [] \<or> p = [[]] then None else Some (butlast p))"

definition file_name :: "os_path \<Rightarrow> string option" where
  "file_name p = (if p = [] \<or> last p \<in> {[], ''.'', ''..''} then None else Some (last p))"

text \<open>\<open>PathBuf::pop\<close>.\<close>

definition path_pop :: "os_path \<Rightarrow> os_path" where
  "path_pop p = unwrap_or (path_parent p) p"

definition path_strip :: "os_path \<Rightarrow> os_path \<Rightarrow> os_path option" where
  "path_strip p base = (if take (length base) p = base then Some (drop (length base) p) else None)"

definition path_below :: "os_path \<Rightarrow> os_path \<Rightarrow> bool" where
  "path_below p base \<longleftrightarrow> path_strip p base \<noteq> None"

function ancestors :: "os_path \<Rightarrow> os_path list" where
  "ancestors p = (case path_parent p of None \<Rightarrow> [] | Some d \<Rightarrow> d # ancestors d)"
  by pat_completeness auto
termination
  by (relation "measure length") (auto simp: path_parent_def split: if_splits)

text \<open>Components in the order \<open>Component\<close> derives.\<close>

definition component_key :: "string \<Rightarrow> nat \<times> string" where
  "component_key c = (if c = [] then 0 else if c = ''.'' then 1 else if c = ''..'' then 2 else 3, c)"

definition path_order :: "os_path \<Rightarrow> os_path \<Rightarrow> ordering" where
  "path_order a b = compare (map component_key a) (map component_key b)"

section \<open>The file system\<close>

text \<open>
  The walk gives the entries below a directory, the directory first, without the entries the filter
  refuses and what is below them.
\<close>

record file_system =
  fs_canonical :: "os_path \<Rightarrow> buildonomy_error + os_path"
  fs_is_file :: "os_path \<Rightarrow> bool"
  fs_is_dir :: "os_path \<Rightarrow> bool"
  fs_exists :: "os_path \<Rightarrow> bool"
  fs_walk :: "os_path \<Rightarrow> (os_path \<Rightarrow> bool) \<Rightarrow> os_path list"
  fs_front_matter :: "os_path \<Rightarrow> buildonomy_error + ir_node option"

definition canonical_or_self :: "file_system \<Rightarrow> os_path \<Rightarrow> os_path" where
  "canonical_or_self F p = (case fs_canonical F p of Inr c \<Rightarrow> c | Inl _ \<Rightarrow> p)"

definition index_path :: "file_system \<Rightarrow> os_path \<Rightarrow> os_path" where
  "index_path F p = string_to_os_path (os_path_to_string (canonical_or_self F p))"

definition is_hidden :: "os_path \<Rightarrow> bool" where
  "is_hidden p = starts_with (case file_name p of Some n \<Rightarrow> n | None \<Rightarrow> os_path_to_string p) ''.''"

section \<open>Children of a network\<close>

text \<open>One entry of the walk, with the networks met so far.\<close>

definition net_doc ::
    "'f codec_map \<Rightarrow> file_system \<Rightarrow> os_path \<Rightarrow> os_path list \<Rightarrow> os_path \<Rightarrow> os_path list \<times> os_path option" where
  "net_doc codecs F root subnets p =
     (if \<not> fs_is_file F p then (subnets, None)
      else if filename (ap_new (os_path_to_string p)) = NETWORK_NAME then
        let p = path_pop p in if p \<noteq> root then (subnets @ [p], Some p) else (subnets, None)
      else if codec_get codecs (ap_new_file (os_path_to_string p)) \<noteq> None then
        (subnets, if list_ex (path_below p) subnets then None else Some p)
      else (subnets, None))"

fun net_docs ::
    "'f codec_map \<Rightarrow> file_system \<Rightarrow> os_path \<Rightarrow> os_path list \<Rightarrow> os_path list \<Rightarrow> os_path list" where
  "net_docs codecs F root subnets [] = []"
| "net_docs codecs F root subnets (p # ps) =
     (case net_doc codecs F root subnets p of
        (subnets, Some found) \<Rightarrow> found # net_docs codecs F root subnets ps
      | (subnets, None) \<Rightarrow> net_docs codecs F root subnets ps)"

definition iter_net_docs :: "'f codec_map \<Rightarrow> file_system \<Rightarrow> os_path \<Rightarrow> os_path list" where
  "iter_net_docs codecs F path =
     remdups_adj (sort_by path_order
       (net_docs codecs F path [] (fs_walk F path (\<lambda>p. \<not> is_hidden p \<or> p = path))))"

definition detect_network_file :: "file_system \<Rightarrow> os_path \<Rightarrow> os_path option" where
  "detect_network_file F d =
     (if file_name d = Some NETWORK_NAME then Some d
      else
        let p = (if fs_is_dir F d then d else path_pop d) @ [NETWORK_NAME]
        in if fs_exists F p then Some p else None)"

text \<open>The relation of a child to its network.\<close>

definition child_relation :: "string \<Rightarrow> bref \<Rightarrow> intermediate_relation" where
  "child_relation path_str net = relation_new (KPath net path_str) Section (Some (set_doc_paths [path_str] weight_default))"

text \<open>The outer \<open>None\<close> is the panic on a child that is not below its network.\<close>

fun child_relations ::
    "os_path \<Rightarrow> bref \<Rightarrow> os_path list \<Rightarrow> intermediate_relation list option" where
  "child_relations network_dir net [] = Some []"
| "child_relations network_dir net (child # rest) =
     (case path_strip child network_dir of
        None \<Rightarrow> None
      | Some relative_path \<Rightarrow>
          let path_str = os_path_to_string relative_path
          in map_option (\<lambda>rels. if path_str = [] then rels else child_relation path_str net # rels)
               (child_relations network_dir net rest))"

text \<open>
  The node of a network directory, with its children. \<open>NetworkCodec::proto\<close> walks for them;
  \<open>ProtoIndex::proto_for\<close> takes them from the index.
\<close>

definition network_proto ::
    "'a text_ext_scheme \<Rightarrow> file_system \<Rightarrow> (os_path \<Rightarrow> os_path list) \<Rightarrow> os_path
      \<Rightarrow> (buildonomy_error + ir_node option) option" where
  "network_proto X F children path =
     (case detect_network_file F path of
        None \<Rightarrow> Some (Inr None)
      | Some network_filepath \<Rightarrow>
          (case path_parent network_filepath of
             None \<Rightarrow> None
           | Some network_dir \<Rightarrow>
               (case fs_front_matter F network_filepath of
                  Inl e \<Rightarrow> Some (Inl e)
                | Inr None \<Rightarrow> Some (Inr None)
                | Inr (Some proto) \<Rightarrow>
                    if ir_id X proto = None then Some (Inl Codec)
                    else
                      map_option (\<lambda>rels. Inr (Some (proto\<lparr>ir_path := os_path_to_string network_dir,
                          ir_kind := insert Network (ir_kind proto), ir_heading := 1,
                          ir_upstream := ir_upstream proto @ rels\<rparr>)))
                        (child_relations network_dir (bref_default X) (children network_dir)))))"

definition network_codec_proto ::
    "'a text_ext_scheme \<Rightarrow> 'f codec_map \<Rightarrow> file_system \<Rightarrow> os_path \<Rightarrow> (buildonomy_error + ir_node option) option" where
  "network_codec_proto X codecs F path = network_proto X F (iter_net_docs codecs F) path"

section \<open>The index\<close>

type_synonym proto_index = "os_path \<Rightarrow> os_path list option"

definition proto_index_new :: proto_index where
  "proto_index_new = Map.empty"

definition network_dir_of :: "file_system \<Rightarrow> os_path \<Rightarrow> os_path option" where
  "network_dir_of F p =
     (if fs_is_file F p \<and> file_name p = Some NETWORK_NAME then map_option (index_path F) (path_parent p) else None)"

definition discover_network_dirs :: "file_system \<Rightarrow> os_path \<Rightarrow> os_path list" where
  "discover_network_dirs F root =
     (let canonical_root = index_path F root
      in remdups_adj (sort_by path_order (List.map_filter (network_dir_of F)
           (fs_walk F root (\<lambda>p. index_path F p = canonical_root \<or>
              \<not> starts_with (case file_name p of Some n \<Rightarrow> n | None \<Rightarrow> os_path_to_string p) ''.'')))))"

definition index_children :: "'f codec_map \<Rightarrow> file_system \<Rightarrow> os_path \<Rightarrow> os_path list" where
  "index_children codecs F net_dir = map (index_path F) (iter_net_docs codecs F net_dir)"

definition proto_index_build ::
    "'f codec_map \<Rightarrow> file_system \<Rightarrow> os_path \<Rightarrow> buildonomy_error + proto_index" where
  "proto_index_build codecs F repo_root =
     (if detect_network_file F repo_root = None then Inl Codec
      else Inr (fold (\<lambda>net_dir idx. idx(index_path F net_dir \<mapsto> index_children codecs F net_dir))
                  (discover_network_dirs F repo_root) proto_index_new))"

definition children_of :: "file_system \<Rightarrow> proto_index \<Rightarrow> os_path \<Rightarrow> os_path list option" where
  "children_of F idx d = idx (index_path F d)"

fun list_position :: "'x \<Rightarrow> 'x list \<Rightarrow> nat option" where
  "list_position x [] = None"
| "list_position x (y # ys) = (if y = x then Some 0 else map_option Suc (list_position x ys))"

fun first_position :: "('d \<Rightarrow> 'x list option) \<Rightarrow> 'x \<Rightarrow> 'd list \<Rightarrow> nat option" where
  "first_position children x [] = None"
| "first_position children x (d # ds) =
     or_else (Option.bind (children d) (list_position x)) (first_position children x ds)"

text \<open>The place goes into a \<open>u16\<close> by truncation.\<close>

definition sort_key_for :: "file_system \<Rightarrow> proto_index \<Rightarrow> os_path \<Rightarrow> u16 option" where
  "sort_key_for F idx abs_path =
     Option.bind (if file_name abs_path = Some NETWORK_NAME then path_parent abs_path else Some abs_path)
       (\<lambda>lookup_path. map_option of_nat
          (first_position (children_of F idx) (index_path F lookup_path) (ancestors lookup_path)))"

definition proto_for ::
    "'a text_ext_scheme \<Rightarrow> 'f codec_map \<Rightarrow> file_system \<Rightarrow> proto_index \<Rightarrow> os_path
      \<Rightarrow> (buildonomy_error + ir_node option) option" where
  "proto_for X codecs F idx d =
     network_proto X F (\<lambda>network_dir.
       case children_of F idx network_dir of
         Some c \<Rightarrow> c
       | None \<Rightarrow> index_children codecs F network_dir) d"

end
