(* ===== verification/Builder.thy ===== *)
theory Builder
  imports NetFiles
begin

text \<open>
  The graph builder (\<open>codec/builder.rs\<close>): it keeps the store of the document being parsed, the store of
  the session and a stack of open nodes, looks up what a parse refers to in these stores and in a global
  source, pushes nodes and relations, and ends a parse by sending the difference of the two stores.

  Operations run on the state of the builder; they may fail, which leaves the changes made so far, or
  panic. The global source is the pair of its evaluations, asynchrony is left out, and the
  transmitter is the list of the events it sent: open, or closed, for the whole run, where in the code the
  receiver may go away between two events. The lookups of the path maps are the total operations of \<open>builder_ops\<close>:
  the model is of runs whose lookups return.
\<close>

section \<open>Runs\<close>

text \<open>The outer \<open>None\<close> is a panic.\<close>

type_synonym ('s, 'x) run = "'s \<Rightarrow> ('s \<times> (buildonomy_error + 'x)) option"

definition ret :: "'x \<Rightarrow> ('s, 'x) run" where
  "ret x = (\<lambda>s. Some (s, Inr x))"

definition fail :: "buildonomy_error \<Rightarrow> ('s, 'x) run" where
  "fail e = (\<lambda>s. Some (s, Inl e))"

definition and_then :: "('s, 'x) run \<Rightarrow> ('x \<Rightarrow> ('s, 'y) run) \<Rightarrow> ('s, 'y) run" where
  "and_then m f = (\<lambda>s.
     case m s of
       None \<Rightarrow> None
     | Some (s, Inl e) \<Rightarrow> Some (s, Inl e)
     | Some (s, Inr x) \<Rightarrow> f x s)"

definition gets :: "('s \<Rightarrow> 'x) \<Rightarrow> ('s, 'x) run" where
  "gets f = (\<lambda>s. Some (s, Inr (f s)))"

definition modify :: "('s \<Rightarrow> 's) \<Rightarrow> ('s, unit) run" where
  "modify f = (\<lambda>s. Some (f s, Inr ()))"

definition lift_result :: "buildonomy_error + 'x \<Rightarrow> ('s, 'x) run" where
  "lift_result r = (\<lambda>s. Some (s, r))"

text \<open>\<open>let _ = \<dots>\<close>: an error is dropped.\<close>

definition ignore_error :: "('s, 'x) run \<Rightarrow> ('s, unit) run" where
  "ignore_error m = (\<lambda>s. map_option (\<lambda>(s, _). (s, Inr ())) (m s))"

fun for_each :: "('x \<Rightarrow> ('s, unit) run) \<Rightarrow> 'x list \<Rightarrow> ('s, unit) run" where
  "for_each f [] = ret ()"
| "for_each f (x # xs) = and_then (f x) (\<lambda>_. for_each f xs)"

section \<open>State\<close>

datatype node_source = Merged | Generated | SourceFile | StackCache | GlobalCache

definition is_from_cache :: "node_source \<Rightarrow> bool" where
  "is_from_cache s \<longleftrightarrow> s \<noteq> Generated \<and> s \<noteq> Merged"

datatype get_or_create = Resolved node node_source | NotResolved unresolved_reference

type_synonym stack_entry = "bid \<times> string \<times> nat"

record 'p graph_builder =
  gb_doc_bb :: "'p belief_base"
  gb_repo :: bid
  gb_repo_root :: os_path
  gb_stack :: "stack_entry list"
  gb_session_bb :: "'p belief_base"
  gb_tx :: "belief_event list"
  gb_tx_open :: bool

text \<open>The variables of a parse that its operations share, and the time.\<close>

record 'p job = "'p graph_builder" +
  jb_missing :: belief_graph
  jb_queue :: "belief_event list"
  jb_diagnostics :: "parse_diagnostic list"
  jb_clock :: nat

text \<open>
  Further lookups of the path maps: where a network (by \<open>Bref\<close>) holds a node, and which order and which
  node goes with the other in it; the home of a node seen from the API; the document, the network and the
  place of a node in any map.
\<close>

record 'p builder_ops = "'p base_ops" +
  pm_path_in :: "'p \<Rightarrow> bref \<Rightarrow> (bid \<Rightarrow> (bid \<times> string \<times> u16 list) option) option"
  pm_order_in :: "'p \<Rightarrow> bref \<Rightarrow> (bid \<Rightarrow> (u16 list \<times> string) option) option"
  pm_at_order :: "'p \<Rightarrow> bref \<Rightarrow> u16 list \<Rightarrow> (bid \<times> string) option"
  pm_home_path :: "'p \<Rightarrow> bid \<Rightarrow> (bid \<times> string) option"
  pm_doc :: "'p \<Rightarrow> bid \<Rightarrow> (string \<times> bid \<times> u16 list) option"
  pm_indexed :: "'p \<Rightarrow> bid \<Rightarrow> (bid \<times> string \<times> u16 list) option"
  pm_net_indexed :: "'p \<Rightarrow> bref \<Rightarrow> bid \<Rightarrow> (bid \<times> string \<times> u16 list) option"

text \<open>What does not change during a parse.\<close>

record 'p setting =
  cx_ext :: query_ext
  cx_build :: build_env
  cx_ops :: "'p builder_ops"
  cx_discover :: discover
  cx_tree :: "(bid \<times> bid) list \<Rightarrow> bid list \<Rightarrow> (bid \<times> bid) list"
  cx_eval_unbalanced :: "buildonomy_error evaluator"
  cx_eval_trace :: "buildonomy_error tracer"

definition builder_new ::
    "'a id_ext_scheme \<Rightarrow> build_env \<Rightarrow> ('p, 'c) path_ops_scheme \<Rightarrow> file_system \<Rightarrow> os_path
      \<Rightarrow> buildonomy_error + 'p graph_builder" where
  "builder_new X env P F repo_path =
     (case fs_canonical F repo_path of
        Inl e \<Rightarrow> Inl e
      | Inr canonicalized_path \<Rightarrow>
          (case detect_network_file F canonicalized_path of
             None \<Rightarrow> Inl Codec
           | Some network_file \<Rightarrow>
               Inr \<lparr>gb_doc_bb = base_empty X env P, gb_repo = nil_bid,
                 gb_repo_root = string_to_os_path (os_path_to_string (path_pop network_file)), gb_stack = [],
                 gb_session_bb = base_empty X env P, gb_tx = [], gb_tx_open = True\<rparr>))"

definition api_bid :: "('p, 'b) graph_builder_scheme \<Rightarrow> bid" where
  "api_bid b = nd_bid (bb_api (gb_doc_bb b))"

section \<open>Names of a node\<close>

text \<open>\<open>BeliefNode::keys\<close> (\<open>properties.rs\<close>).\<close>

definition own_path_key :: "bref \<Rightarrow> node \<Rightarrow> (bid \<Rightarrow> (bid \<times> string \<times> u16 list) option) \<Rightarrow> node_key list" where
  "own_path_key net n path_of =
     (if nd_bid n = nil_bid then []
      else (case path_of (nd_bid n) of Some (_, path, _) \<Rightarrow> [KPath net path] | None \<Rightarrow> []))"

definition title_path_key ::
    "'a text_ext_scheme \<Rightarrow> bref \<Rightarrow> node \<Rightarrow> bid option \<Rightarrow> (bid \<Rightarrow> (bid \<times> string \<times> u16 list) option)
      \<Rightarrow> node_key list" where
  "title_path_key X net n maybe_parent path_of =
     (if nd_title n = [] \<or> kind_is_document (nd_kind n) then []
      else (case Option.bind maybe_parent path_of of
              None \<Rightarrow> []
            | Some (_, parent_path, _) \<Rightarrow>
                (let path = ap_path (join X (ap_new parent_path) (as_anchor X (nd_title n)))
                 in if path = parent_path then [] else [KPath net path])))"

definition node_keys ::
    "'a text_ext_scheme \<Rightarrow> ('p, 'c) builder_ops_scheme \<Rightarrow> node \<Rightarrow> bid option \<Rightarrow> bid option
      \<Rightarrow> 'p belief_base \<Rightarrow> node_key list" where
  "node_keys X P n maybe_ns maybe_parent B =
     (let ns = unwrap_or maybe_ns nil_bid; net = bref_of X ns; i = node_id X n
      in (if nd_bid n \<noteq> nil_bid then [KBid (nd_bid n), KBref (bref_of X (nd_bid n))] else [])
         @ (if i = [] then [] else [if ns \<in> set content_namespaces then KPath net i else KId net i])
         @ (case pm_path_in P (bb_paths (index_sync B)) net of
              None \<Rightarrow> []
            | Some path_of \<Rightarrow> own_path_key net n path_of @ title_path_key X net n maybe_parent path_of))"

section \<open>The stack\<close>

fun unwind :: "('e \<Rightarrow> 'r option) \<Rightarrow> 'e list \<Rightarrow> 'r option \<times> 'e list" where
  "unwind f [] = (None, [])"
| "unwind f (e # rest) = (case f e of Some r \<Rightarrow> (Some r, e # rest) | None \<Rightarrow> unwind f rest)"

definition parent_info :: "ir_node \<Rightarrow> stack_entry \<Rightarrow> (bid \<times> string \<times> string) option" where
  "parent_info proto entry =
     (case entry of (stack_bid, stack_path, stack_heading) \<Rightarrow>
        let proto_filepath = filepath (ap_new (ir_path proto));
            stack_filepath = filepath (ap_new stack_path)
        in if starts_with proto_filepath stack_filepath \<and> proto_filepath \<noteq> stack_filepath
              \<and> ir_kind proto \<inter> {Network, Document} \<noteq> {}
              \<or> proto_filepath = stack_filepath \<and> stack_heading < ir_heading proto
           then Some (stack_bid, unwrap_or (ap_strip_prefix (ap_new proto_filepath) stack_path) [], stack_path)
           else None)"

text \<open>The stack is popped until its top is a parent of the node.\<close>

definition get_parent_from_stack ::
    "ir_node \<Rightarrow> ('p, 'b) graph_builder_scheme \<Rightarrow> (bid \<times> string \<times> string) \<times> ('p, 'b) graph_builder_scheme" where
  "get_parent_from_stack proto b =
     (case unwind (parent_info proto) (rev (gb_stack b)) of (found, rest) \<Rightarrow>
        (unwrap_or found (nd_bid (bb_api (gb_doc_bb b)), [], ir_path proto), b\<lparr>gb_stack := rev rest\<rparr>))"

text \<open>The innermost network on the stack.\<close>

definition top_network :: "stack_entry list \<Rightarrow> (bid \<times> string) option" where
  "top_network st =
     map_option (\<lambda>(b, path, _). (b, path)) (find (\<lambda>(_, _, heading). heading = 1) (rev st))"

definition build_path_key ::
    "'a text_ext_scheme \<Rightarrow> ('p, 'b) graph_builder_scheme \<Rightarrow> ir_node \<Rightarrow> node_key option" where
  "build_path_key X b proto =
     (let (net, net_path) = unwrap_or (top_network (gb_stack b)) (gb_repo b, []);
          net_anchored_child =
            unwrap_or (ap_strip_prefix (ap_new (filepath (ap_new (ir_path proto)))) net_path) (ir_path proto);
          child_ap = ap_new net_anchored_child
      in if ir_heading proto > 2 then
           (case ir_id X proto of
              None \<Rightarrow> None
            | Some section_id \<Rightarrow>
                let base_ap = (if ap_path child_ap = [] then ap_new NETWORK_NAME else child_ap)
                in Some (KPath (bref_of X net) (ap_path (join X base_ap (as_anchor X section_id)))))
         else Some (KPath (bref_of X net) (ap_path child_ap)))"

definition proto_bid :: "'a id_ext_scheme \<Rightarrow> ir_node \<Rightarrow> bid option" where
  "proto_bid X proto =
     (case Option.bind (Option.bind (bm_get (ir_document proto) ''bid'') item_text) (ok_of \<circ> bid_try_from X) of
        Some b \<Rightarrow> if initialized b then Some b else None
      | None \<Rightarrow> None)"

definition speculative_path_key ::
    "'a text_ext_scheme \<Rightarrow> ('p, 'b) graph_builder_scheme \<Rightarrow> ir_node \<Rightarrow> buildonomy_error + node_key list" where
  "speculative_path_key X b proto =
     (case proto_bid X proto of
        Some i \<Rightarrow> Inr [KBid i]
      | None \<Rightarrow>
          if kind_is_network (ir_kind proto) then
            (case ir_id X proto of
               None \<Rightarrow> Inl Codec
             | Some network_id \<Rightarrow> Inr [KId (bref_default X) network_id])
          else Inr (case build_path_key X b proto of Some key \<Rightarrow> [key] | None \<Rightarrow> []))"

section \<open>Lookups in the caches\<close>

definition key_expression :: "node_key \<Rightarrow> expression" where
  "key_expression key =
     (case key of
        KBid b \<Rightarrow> StateIn (PBid [b])
      | KBref r \<Rightarrow> StateIn (PBref [r])
      | KPath net path \<Rightarrow> StateIn (PNetPath net path)
      | KId net i \<Rightarrow> StateIn (PNetId net i))"

definition key_query :: "node_key \<Rightarrow> belief_query" where
  "key_query key = \<lparr>q_seed = key_expression key, q_traverse = None\<rparr>"

definition query_base :: "'p setting \<Rightarrow> 'p belief_base \<Rightarrow> belief_query \<Rightarrow> bool \<Rightarrow> buildonomy_error + belief_graph" where
  "query_base C B q all_or_none =
     eval_query (cx_discover C) (base_unbalanced (cx_ext C) (cx_ops C) (cx_discover C) B)
       (base_trace (cx_ext C) (cx_ops C) (cx_discover C) B) q all_or_none"

definition query_global :: "'p setting \<Rightarrow> belief_query \<Rightarrow> bool \<Rightarrow> buildonomy_error + belief_graph" where
  "query_global C q all_or_none =
     eval_query (cx_discover C) (cx_eval_unbalanced C) (cx_eval_trace C) q all_or_none"

definition graph_base :: "'p setting \<Rightarrow> belief_graph \<Rightarrow> 'p belief_base" where
  "graph_base C g = base_from (cx_ext C) (cx_build C) (cx_ops C) g"

definition get_in :: "'p setting \<Rightarrow> 'p belief_base \<Rightarrow> node_key \<Rightarrow> node option" where
  "get_in C B key = base_get (cx_ops C) (index_sync B) key"

text \<open>
  The caches for one key: the document if asked for, the session, the global source. Only an answer of
  the global source adds to the missing structure.
\<close>

definition fetch_key ::
    "'p setting \<Rightarrow> ('p, 'b) graph_builder_scheme \<Rightarrow> bool \<Rightarrow> node_key \<Rightarrow> belief_graph
      \<Rightarrow> buildonomy_error + ((node \<times> node_source) option \<times> belief_graph)" where
  "fetch_key C b check_local key missing =
     (case (if check_local then get_in C (gb_doc_bb b) key else None) of
        Some n \<Rightarrow> Inr (Some (n, SourceFile), missing)
      | None \<Rightarrow>
          (case query_base C (gb_session_bb b) (key_query key) True of
             Inl e \<Rightarrow> Inl e
           | Inr stack_result \<Rightarrow>
               (case get_in C (graph_base C stack_result) key of
                  Some n \<Rightarrow> Inr (Some (n, StackCache), missing)
                | None \<Rightarrow>
                    (case query_global C (key_query key) False of
                       Inl e \<Rightarrow> Inl e
                     | Inr update \<Rightarrow>
                         let cache_update = graph_base C update
                         in case get_in C cache_update key of
                              Some n \<Rightarrow>
                                Inr (Some (n, GlobalCache),
                                  union_mut (cx_discover C) missing (bb_graph (index_sync cache_update)))
                            | None \<Rightarrow> Inr (None, missing)))))"

fun cache_fetch_keys ::
    "'p setting \<Rightarrow> ('p, 'b) graph_builder_scheme \<Rightarrow> bool \<Rightarrow> node_key list \<Rightarrow> belief_graph
      \<Rightarrow> buildonomy_error + ((node \<times> node_source) option \<times> belief_graph)" where
  "cache_fetch_keys C b check_local [] missing = Inr (None, missing)"
| "cache_fetch_keys C b check_local (key # rest) missing =
     (case fetch_key C b check_local key missing of
        Inl e \<Rightarrow> Inl e
      | Inr (Some found, missing) \<Rightarrow> Inr (Some found, missing)
      | Inr (None, missing) \<Rightarrow> cache_fetch_keys C b check_local rest missing)"

definition cache_fetch ::
    "'p setting \<Rightarrow> ('p, 'b) graph_builder_scheme \<Rightarrow> bool \<Rightarrow> node_key list \<Rightarrow> belief_graph
      \<Rightarrow> buildonomy_error + (get_or_create \<times> belief_graph)" where
  "cache_fetch C b check_local ks missing =
     (case cache_fetch_keys C b check_local ks missing of
        Inl e \<Rightarrow> Inl e
      | Inr (Some (n, source), missing) \<Rightarrow> Inr (Resolved n source, missing)
      | Inr (None, missing) \<Rightarrow> Inr (NotResolved (unresolved_default\<lparr>ur_other_keys := ks\<rparr>), missing))"


section \<open>Events\<close>

definition process_doc :: "'p setting \<Rightarrow> belief_event \<Rightarrow> ('p job, belief_event list) run" where
  "process_doc C event = (\<lambda>s.
     case process_event (cx_ext C) (cx_build C) (cx_ops C) (cx_discover C) (gb_doc_bb s) event of
       None \<Rightarrow> None
     | Some (Inl e) \<Rightarrow> Some (s, Inl e)
     | Some (Inr (B, derivatives)) \<Rightarrow> Some (s\<lparr>gb_doc_bb := B\<rparr>, Inr derivatives))"

definition process_session :: "'p setting \<Rightarrow> belief_event \<Rightarrow> ('p job, belief_event list) run" where
  "process_session C event = (\<lambda>s.
     case process_event (cx_ext C) (cx_build C) (cx_ops C) (cx_discover C) (gb_session_bb s) event of
       None \<Rightarrow> None
     | Some (Inl e) \<Rightarrow> Some (s, Inl e)
     | Some (Inr (B, derivatives)) \<Rightarrow> Some (s\<lparr>gb_session_bb := B\<rparr>, Inr derivatives))"

definition run_doc :: "'p setting \<Rightarrow> belief_event \<Rightarrow> ('p job, unit) run" where
  "run_doc C event = and_then (process_doc C event) (\<lambda>_. ret ())"

definition send :: "belief_event \<Rightarrow> ('p job, unit) run" where
  "send event = (\<lambda>s.
     if gb_tx_open s then Some (s\<lparr>gb_tx := gb_tx s @ [event]\<rparr>, Inr ()) else Some (s, Inl Io))"

section \<open>Pushing a node\<close>

text \<open>The node a parsed one becomes, with its names, given what the caches know.\<close>

definition settle_node ::
    "'a text_ext_scheme \<Rightarrow> ir_node \<Rightarrow> nat \<Rightarrow> bid \<Rightarrow> node \<Rightarrow> node_key list \<Rightarrow> get_or_create
      \<Rightarrow> node \<times> node_source \<times> node_key list" where
  "settle_node X proto now parent_bid parsed_node ks fetched =
     (case fetched of
        Resolved found_node src \<Rightarrow>
          let ks = (if bm_contains (ir_document proto) ''bid'' \<and> KBid (nd_bid found_node) \<notin> set ks
                    then ks @ [KBid (nd_bid found_node)] else ks);
              (found_node, src) =
                (if initialized (nd_bid parsed_node) \<and> nd_bid parsed_node \<noteq> nd_bid found_node
                 then (found_node\<lparr>nd_bid := nd_bid parsed_node\<rparr>, Merged) else (found_node, src));
              parsed_node = parsed_node\<lparr>nd_bid := nd_bid found_node\<rparr>;
              (found_node, changed) = node_merge found_node parsed_node
          in (found_node, if changed then Merged else src, ks)
      | NotResolved _ \<Rightarrow>
          let (parsed_node, source) =
                (if initialized (nd_bid parsed_node) then (parsed_node, SourceFile)
                 else (parsed_node\<lparr>nd_bid := bid_new X now parent_bid\<rparr>, Generated));
              parsed_node =
                (if ir_id X proto \<noteq> None \<and> ks = []
                 then parsed_node\<lparr>nd_id := Some (bref_display (bref_of X (nd_bid parsed_node)))\<rparr>
                 else parsed_node)
          in (parsed_node, source, ks))"

text \<open>
  Two nodes of one network with the same identifier: a document takes it from a heading, otherwise the
  first one keeps it and the other is named by its \<open>Bref\<close>.
\<close>

definition rename_ids :: "bref \<Rightarrow> string \<Rightarrow> node_key list \<Rightarrow> node_key list" where
  "rename_ids net i ks = map (\<lambda>key. case key of KId _ _ \<Rightarrow> KId net i | _ \<Rightarrow> key) ks"

definition quoted :: "string \<Rightarrow> string" where
  "quoted t = CHR 0x27 # t @ [CHR 0x27]"

definition collision_message :: "'a id_ext_scheme \<Rightarrow> node \<Rightarrow> string \<Rightarrow> string" where
  "collision_message X existing_node i =
     ''ID collision: section '' @ quoted (nd_title existing_node) @ '' (BID '' @ bid_display X (nd_bid existing_node)
     @ '') shares network id '' @ quoted i @ '' with this document. The section'' @ [CHR 0x27]
     @ ''s id has been reset to its bref. Rename the heading or add an explicit anchor id in its source file to resolve.''"

definition clobber_id ::
    "'p setting \<Rightarrow> bref \<Rightarrow> string \<Rightarrow> node \<Rightarrow> ('p job, unit) run" where
  "clobber_id C net i existing_node =
     (let clobbered = existing_node\<lparr>nd_id := Some (bref_display (bref_of (cx_ext C) (nd_bid existing_node)))\<rparr>;
          event = NodeUpdate [KId net i] (node_toml (cx_ops C) clobbered) Remote
      in and_then (ignore_error (process_doc C event)) (\<lambda>_.
         and_then (ignore_error (process_session C event)) (\<lambda>_.
         modify (\<lambda>s. s\<lparr>jb_diagnostics := jb_diagnostics s @ [warning (collision_message (cx_ext C) existing_node i)]\<rparr>))))"

definition resolve_collision ::
    "'p setting \<Rightarrow> node \<Rightarrow> node_key list \<Rightarrow> ('p job, node \<times> node_key list) run" where
  "resolve_collision C n ks = (\<lambda>s.
     let X = cx_ext C; i = node_id X n; node_bref = bref_display (bref_of X (nd_bid n))
     in if i = [] \<or> i = node_bref then Some (s, Inr (n, ks))
        else
          let net = bref_of X (case top_network (gb_stack s) of Some (b, _) \<Rightarrow> b | None \<Rightarrow> gb_repo s)
          in case cache_fetch C s True [KId net i] belief_graph_empty of
               Inl e \<Rightarrow> Some (s, Inl e)
             | Inr (fetched, id_missing) \<Rightarrow>
                 let s = (if belief_graph_is_empty id_missing then s
                          else s\<lparr>jb_missing := union_mut (cx_discover C) (jb_missing s) id_missing\<rparr>)
                 in (case fetched of
                       Resolved existing_node existing_source \<Rightarrow>
                         if is_from_cache existing_source \<and> nd_bid existing_node \<noteq> nd_bid n then
                           if Document \<in> nd_kind n \<and> kind_is_anchor (nd_kind existing_node)
                           then and_then (clobber_id C net i existing_node) (\<lambda>_. ret (n, ks)) s
                           else
                             let n = n\<lparr>nd_id := Some node_bref\<rparr>
                             in Some (s, Inr (n, rename_ids net (node_id X n) ks))
                         else Some (s, Inr (n, ks))
                     | NotResolved _ \<Rightarrow> Some (s, Inr (n, ks))))"

text \<open>The relations into the node are dropped from the document, unless it is pushed as a trace only.\<close>

definition incoming_removals :: "('p, 'c) base_ops_scheme \<Rightarrow> bid \<Rightarrow> 'p belief_base \<Rightarrow> belief_event list" where
  "incoming_removals P b B =
     (let B = index_sync B
      in if b \<in> set (bb_index B)
         then map (\<lambda>e. RelationRemoved (e_source e) b Remote) (edges_in P (g_edges (bb_relations B)) b)
         else [])"

definition section_weight :: "string \<Rightarrow> bool \<Rightarrow> u16 option \<Rightarrow> weight" where
  "section_weight path_info owned_by_source explicit_sort_key =
     (let weight = weight_default;
          weight = (if path_info \<noteq> [] then set_doc_paths [path_info] weight else weight);
          weight = weight_set_key WEIGHT_OWNED_BY (TString (if owned_by_source then ''source'' else ''sink'')) weight
      in case explicit_sort_key of
           Some sk \<Rightarrow> weight_set_key WEIGHT_SORT_KEY (from_u16 sk) weight
         | None \<Rightarrow> weight)"

text \<open>Headings go on the stack with their path below the network, everything else with its own path.\<close>

definition stack_path :: "'a text_ext_scheme \<Rightarrow> stack_entry list \<Rightarrow> ir_node \<Rightarrow> node_key list \<Rightarrow> string" where
  "stack_path X st proto ks =
     (let net_path = (case top_network st of Some (_, path) \<Rightarrow> path | None \<Rightarrow> [])
      in if ir_heading proto > 2 then
           (case find is_path_key ks of
              Some (KPath _ path) \<Rightarrow> ap_path (join X (ap_new net_path) path)
            | _ \<Rightarrow> ir_path proto)
         else ir_path proto)"

definition connect_network :: "'p setting \<Rightarrow> bid \<Rightarrow> bid \<Rightarrow> ('p job, unit) run" where
  "connect_network C b parent_bid = (\<lambda>s.
     let s = (if gb_repo s = nil_bid \<and> parent_bid = api_bid s then s\<lparr>gb_repo := b\<rparr> else s)
     in if parent_bid \<noteq> api_bid s
        then run_doc C (RelationChange b (api_bid s) Section
               (Some (weight_set_key WEIGHT_OWNED_BY (TString ''source'') weight_default)) Remote) s
        else Some (s, Inr ()))"

definition changed_keys ::
    "'p setting \<Rightarrow> node \<Rightarrow> bid \<Rightarrow> node_key list \<Rightarrow> 'p job \<Rightarrow> node_key set \<times> node_key set" where
  "changed_keys C n parent_bid ks s =
     (let current = set (node_keys (cx_ext C) (cx_ops C) n (Some (gb_repo s)) (Some parent_bid) (gb_doc_bb s))
      in (current, set ks - current))"

text \<open>Pushing a node below the parent that was found on the stack.\<close>

definition push_below ::
    "'p setting \<Rightarrow> ir_node \<Rightarrow> bool \<Rightarrow> u16 option \<Rightarrow> bid \<Rightarrow> string
      \<Rightarrow> ('p job, bid \<times> node_source \<times> node_key set \<times> node_key set) run" where
  "push_below C proto as_trace explicit_sort_key parent_bid path_info =
     and_then (lift_result (node_from_proto (cx_ext C) proto)) (\<lambda>parsed_node.
     and_then (gets (\<lambda>s. speculative_path_key (cx_ext C) s proto)) (\<lambda>keys_result.
     and_then (lift_result keys_result) (\<lambda>ks.
     and_then (gets (\<lambda>s. cache_fetch C s False ks (jb_missing s))) (\<lambda>fetch_result.
     and_then (lift_result fetch_result) (\<lambda>(fetched, missing).
     and_then (modify (\<lambda>s. s\<lparr>jb_missing := missing\<rparr>)) (\<lambda>_.
     and_then (gets jb_clock) (\<lambda>now.
     and_then (modify (\<lambda>s. s\<lparr>jb_clock := Suc now\<rparr>)) (\<lambda>_.
       case settle_node (cx_ext C) proto now parent_bid parsed_node ks fetched of (n, source, ks) \<Rightarrow>
     and_then (resolve_collision C n ks) (\<lambda>(n, ks).
       let b = nd_bid n; n = (if as_trace then n\<lparr>nd_kind := insert Trace (nd_kind n)\<rparr> else n)
       in
     and_then (gets (\<lambda>s. if as_trace then [] else incoming_removals (cx_ops C) b (gb_doc_bb s))) (\<lambda>removals.
     and_then (for_each (run_doc C) removals) (\<lambda>_.
     and_then (run_doc C (NodeUpdate ks (node_toml (cx_ops C) n) Remote)) (\<lambda>_.
     and_then (gets (\<lambda>s. section_weight path_info (parent_bid = api_bid s) explicit_sort_key)) (\<lambda>weight.
     and_then (run_doc C (RelationChange b parent_bid Section (Some weight) Remote)) (\<lambda>_.
     and_then (modify (\<lambda>s. s\<lparr>gb_stack :=
         gb_stack s @ [(b, stack_path (cx_ext C) (gb_stack s) proto ks, ir_heading proto)]\<rparr>)) (\<lambda>_.
     and_then (if kind_is_network (nd_kind n) then connect_network C b parent_bid else ret ()) (\<lambda>_.
     and_then (gets (changed_keys C n parent_bid ks)) (\<lambda>(current, unique_old).
     ret (b, source, current, unique_old))))))))))))))))))"

definition push ::
    "'p setting \<Rightarrow> ir_node \<Rightarrow> bool \<Rightarrow> u16 option
      \<Rightarrow> ('p job, bid \<times> node_source \<times> node_key set \<times> node_key set) run" where
  "push C proto as_trace explicit_sort_key = (\<lambda>s.
     case get_parent_from_stack proto s of
       ((parent_bid, path_info, _), s) \<Rightarrow> push_below C proto as_trace explicit_sort_key parent_bid path_info s)"


section \<open>Pushing a relation\<close>

definition owner_rel_path :: "('p, 'b) graph_builder_scheme \<Rightarrow> bid \<Rightarrow> string" where
  "owner_rel_path b owner_bid =
     (case find (\<lambda>(i, _, _). i = owner_bid) (rev (gb_stack b)) of
        Some (_, abs_owner_path, _) \<Rightarrow>
          unwrap_or (ap_strip_prefix (ap_new abs_owner_path) (os_path_to_string (gb_repo_root b))) abs_owner_path
      | None \<Rightarrow> [])"

text \<open>The position goes into a \<open>u16\<close> by truncation.\<close>

definition relation_weight :: "intermediate_relation \<Rightarrow> direction \<Rightarrow> nat \<Rightarrow> weight" where
  "relation_weight relation direction index =
     weight_set_key WEIGHT_OWNED_BY (TString (case direction of Incoming \<Rightarrow> ''sink'' | Outgoing \<Rightarrow> ''source''))
       (weight_set_key WEIGHT_SORT_KEY (from_u16 (of_nat index))
         (unwrap_or (ir_weight relation) weight_default))"

text \<open>A link to the outside: a node of its own below the network of external links.\<close>

definition href_node :: "'a id_ext_scheme \<Rightarrow> nat \<Rightarrow> string \<Rightarrow> node" where
  "href_node X now href =
     \<lparr>nd_bid = bid_new X now href_namespace, nd_kind = {External, Trace}, nd_title = [], nd_schema = None,
      nd_payload = [], nd_id = Some href\<rparr>"

definition push_href :: "'p setting \<Rightarrow> string \<Rightarrow> ('p job, node) run" where
  "push_href C href = (\<lambda>s.
     let X = cx_ext C; P = cx_ops C; doc = gb_doc_bb s; n = href_node X (jb_clock s) href;
         net = href_network X (cx_build C);
         events =
           (if bm_contains (bb_states doc) href_namespace then []
            else [NodeUpdate (node_keys X P net (Some buildonomy_namespace) None doc) (node_toml P net) Remote])
           @ [NodeUpdate (node_keys X P n (Some href_namespace) None doc) (node_toml P n) Remote,
              RelationChange (nd_bid n) href_namespace Section (Some (set_doc_paths [href] weight_default)) Remote]
     in Some (s\<lparr>jb_queue := jb_queue s @ events, jb_clock := Suc (jb_clock s)\<rparr>, Inr n))"

text \<open>A reference that is not found is reported from where its owner is, or asks for the owner first.\<close>

definition relation_location :: "string \<Rightarrow> intermediate_relation \<Rightarrow> (nat \<times> nat) option option" where
  "relation_location source relation =
     (case ir_location relation of
        None \<Rightarrow> Some None
      | Some offset \<Rightarrow> map_option Some (byte_offset_to_location source offset))"

definition report_unresolved ::
    "'p setting \<Rightarrow> intermediate_relation \<Rightarrow> bid \<Rightarrow> direction \<Rightarrow> string \<Rightarrow> unresolved_reference
      \<Rightarrow> ('p job, get_or_create) run" where
  "report_unresolved C relation owner_bid direction source initial = (\<lambda>s.
     case relation_location source relation of
       None \<Rightarrow> None
     | Some loc \<Rightarrow>
         (case pm_home_path (cx_ops C) (bb_paths (index_sync (gb_doc_bb s))) owner_bid of
            Some (owner_net, owner_path) \<Rightarrow>
              Some (s, Inr (NotResolved (initial\<lparr>ur_direction := direction, ur_self_bid := owner_bid,
                ur_location := loc, ur_self_net := owner_net, ur_self_path := owner_path\<rparr>)))
          | None \<Rightarrow>
              let owner_keys =
                    (case get_in C (gb_session_bb s) (KBid owner_bid) of
                       Some owner_node \<Rightarrow>
                         node_keys (cx_ext C) (cx_ops C) owner_node (Some (gb_repo s)) None (gb_session_bb s)
                     | None \<Rightarrow> [KBid owner_bid])
              in Some (s, Inr (NotResolved (initial\<lparr>ur_direction := Incoming, ur_self_bid := owner_bid,
                   ur_other_keys := owner_keys, ur_location := loc\<rparr>)))))"

text \<open>The substructure of a node that came from a cache.\<close>

definition fetch_substructure :: "'p setting \<Rightarrow> node \<Rightarrow> node_source \<Rightarrow> ('p job, unit) run" where
  "fetch_substructure C n source = (\<lambda>s.
     case source of
       Merged \<Rightarrow> None
     | SourceFile \<Rightarrow> Some (s, Inr ())
     | Generated \<Rightarrow> Some (s, Inr ())
     | _ \<Rightarrow>
         (case query_base C (gb_session_bb s) (key_query (KBid (nd_bid n))) True of
            Inl e \<Rightarrow> Some (s, Inl e)
          | Inr stack_result \<Rightarrow>
              Some (s\<lparr>jb_missing := union_mut_with_trace (cx_discover C) (jb_missing s) stack_result\<rparr>, Inr ())))"

definition queue_event :: "belief_event \<Rightarrow> ('p job, unit) run" where
  "queue_event event = modify (\<lambda>s. s\<lparr>jb_queue := jb_queue s @ [event]\<rparr>)"

definition external_href :: "'a id_ext_scheme \<Rightarrow> node_key \<Rightarrow> string option" where
  "external_href X key =
     (case key of KPath net path \<Rightarrow> if net = bref_of X href_namespace then Some path else None | _ \<Rightarrow> None)"

definition connect_relation ::
    "'p setting \<Rightarrow> intermediate_relation \<Rightarrow> bid \<Rightarrow> direction \<Rightarrow> nat \<Rightarrow> node_key \<Rightarrow> node \<Rightarrow> node_source
      \<Rightarrow> ('p job, get_or_create) run" where
  "connect_relation C relation owner_bid direction index other_key other_node source =
     and_then (if source \<noteq> SourceFile
               then queue_event (NodeUpdate [other_key] (node_toml (cx_ops C) other_node) Remote)
               else ret ()) (\<lambda>_.
     and_then (fetch_substructure C other_node source) (\<lambda>_.
       let (source_bid, sink_bid) = (case direction of
             Outgoing \<Rightarrow> (owner_bid, nd_bid other_node)
           | Incoming \<Rightarrow> (nd_bid other_node, owner_bid))
       in if source_bid = sink_bid then ret (Resolved other_node source)
          else
            and_then (queue_event (RelationChange source_bid sink_bid (ir_rel_kind relation)
              (Some (relation_weight relation direction index)) Remote)) (\<lambda>_.
            ret (Resolved other_node source))))"

definition push_relation ::
    "'p setting \<Rightarrow> intermediate_relation \<Rightarrow> bid \<Rightarrow> direction \<Rightarrow> nat \<Rightarrow> string \<Rightarrow> ('p job, get_or_create) run" where
  "push_relation C relation owner_bid direction index source = (\<lambda>s.
     let other_key = regularize_unchecked (cx_ext C) (ir_key relation) (gb_repo s) (owner_rel_path s owner_bid)
           (os_path_to_string (gb_repo_root s))
     in case cache_fetch C s True [other_key] (jb_missing s) of
          Inl e \<Rightarrow> Some (s, Inl e)
        | Inr (fetched, missing) \<Rightarrow>
            let s = s\<lparr>jb_missing := missing\<rparr>
            in (case fetched of
                  Resolved other_node other_source \<Rightarrow>
                    connect_relation C relation owner_bid direction index other_key
                      (other_node\<lparr>nd_kind := insert Trace (nd_kind other_node)\<rparr>) other_source s
                | NotResolved initial \<Rightarrow>
                    (case external_href (cx_ext C) other_key of
                       Some href \<Rightarrow>
                         and_then (push_href C href) (\<lambda>n.
                         connect_relation C relation owner_bid direction index other_key n Generated) s
                     | None \<Rightarrow> report_unresolved C relation owner_bid direction source initial s)))"

section \<open>The end of a parse\<close>

definition is_path_event :: "belief_event \<Rightarrow> bool" where
  "is_path_event ev \<longleftrightarrow>
     (case ev of PathAdded _ _ _ _ _ \<Rightarrow> True | PathUpdate _ _ _ _ _ \<Rightarrow> True | PathsRemoved _ _ _ \<Rightarrow> True | _ \<Rightarrow> False)"

fun session_renames :: "'p setting \<Rightarrow> (bid \<times> bid) list \<Rightarrow> ('p job, belief_event list) run" where
  "session_renames C [] = ret []"
| "session_renames C ((from_bid, to_bid) # rest) =
     (let rename = NodeRenamed from_bid to_bid Remote
      in and_then (process_session C rename) (\<lambda>derivatives.
         and_then (session_renames C rest) (\<lambda>events. ret (rename # derivatives @ events))))"

fun session_updates :: "'p setting \<Rightarrow> belief_event list \<Rightarrow> ('p job, belief_event list) run" where
  "session_updates C [] = ret []"
| "session_updates C (event # rest) =
     and_then (process_session C event) (\<lambda>derivatives.
     and_then (session_updates C rest) (\<lambda>path_events. ret (filter is_path_event derivatives @ path_events)))"

definition terminate_stack :: "'p setting \<Rightarrow> (bid, bid) bmap \<Rightarrow> bid list \<Rightarrow> ('p job, unit) run" where
  "terminate_stack C renamed_nodes parsed_nodes =
     and_then (modify (\<lambda>s. s\<lparr>gb_stack := []\<rparr>)) (\<lambda>_.
     and_then (session_renames C renamed_nodes) (\<lambda>tx_events.
     and_then (gets (\<lambda>s. compute_diff (cx_ops C) (cx_discover C) (gb_session_bb s) (gb_doc_bb s) parsed_nodes)) (\<lambda>diff_events.
     and_then (session_updates C diff_events) (\<lambda>path_events.
     for_each send (tx_events @ diff_events @ path_events)))))"

end
