(* ===== verification/BuilderProps.thy ===== *)
theory BuilderProps
  imports Builder
begin

text \<open>
  Correctness of the graph builder: what every run keeps (an interface \<open>job_invariant\<close>, for whatever the
  two stores keep when they process an event), how the caches are searched, what a pushed relation
  queues, and what the end of a parse replays and sends.
\<close>

section \<open>Invariants of runs\<close>

definition keeps :: "('s \<Rightarrow> bool) \<Rightarrow> ('s, 'x) run \<Rightarrow> bool" where
  "keeps I m \<longleftrightarrow> (\<forall>s s' r. I s \<longrightarrow> m s = Some (s', r) \<longrightarrow> I s')"

named_theorems keeps_intros

lemma keepsD: "keeps I m \<Longrightarrow> m s = Some (s', r) \<Longrightarrow> I s \<Longrightarrow> I s'"
  by (auto simp: keeps_def)

lemma keeps_pure [keeps_intros]:
  "keeps I (ret x)" "keeps I (gets f)" "keeps I (lift_result r)"
  by (auto simp: keeps_def ret_def gets_def lift_result_def)

lemma keeps_and_then [keeps_intros]:
  "keeps I m \<Longrightarrow> (\<And>x. keeps I (f x)) \<Longrightarrow> keeps I (and_then m f)"
  unfolding keeps_def
proof (intro allI impI)
  fix s s' r
  assume kept: "\<forall>s s' r. I s \<longrightarrow> m s = Some (s', r) \<longrightarrow> I s'"
    and rest: "\<And>x. \<forall>s s' r. I s \<longrightarrow> f x s = Some (s', r) \<longrightarrow> I s'"
    and i: "I s" and run: "and_then m f s = Some (s', r)"
  from run obtain t q where first: "m s = Some (t, q)" by (auto simp: and_then_def split: option.splits)
  with kept i have "I t" by blast
  with run first rest show "I s'" by (cases q) (auto simp: and_then_def)
qed

lemma keeps_modify [keeps_intros]: "(\<And>s. I s \<Longrightarrow> I (f s)) \<Longrightarrow> keeps I (modify f)"
  by (auto simp: keeps_def modify_def)

lemma keeps_ignore_error [keeps_intros]: "keeps I m \<Longrightarrow> keeps I (ignore_error m)"
  by (auto simp: keeps_def ignore_error_def)

lemma keeps_for_each [keeps_intros]: "(\<And>x. x \<in> set xs \<Longrightarrow> keeps I (f x)) \<Longrightarrow> keeps I (for_each f xs)"
  by (induction xs) (simp_all add: keeps_pure keeps_and_then)

lemma keeps_if [keeps_intros]: "(c \<Longrightarrow> keeps I m) \<Longrightarrow> (\<not> c \<Longrightarrow> keeps I m') \<Longrightarrow> keeps I (if c then m else m')"
  by simp

lemma keeps_prod [keeps_intros]: "(\<And>x y. p = (x, y) \<Longrightarrow> keeps I (f x y)) \<Longrightarrow> keeps I (case p of (x, y) \<Rightarrow> f x y)"
  by (cases p) simp

text \<open>What only depends on the two stores and the transmitter, and is kept by the events the stores process.\<close>

locale job_invariant =
  fixes C :: "'p setting" and I :: "'p job \<Rightarrow> bool"
  assumes doc_event: "keeps I (process_doc C event)"
    and session_event: "keeps I (process_session C event)"
    and frame: "I s \<Longrightarrow> gb_doc_bb s' = gb_doc_bb s \<Longrightarrow> gb_session_bb s' = gb_session_bb s
      \<Longrightarrow> gb_tx s' = gb_tx s \<Longrightarrow> gb_tx_open s' = gb_tx_open s \<Longrightarrow> I s'"
begin

lemma run_doc: "keeps I (run_doc C event)"
  unfolding run_doc_def by (intro keeps_intros doc_event)

lemma queue_event: "keeps I (queue_event event)"
  unfolding queue_event_def by (rule keeps_modify) (erule frame; simp)

lemma clobber_id: "keeps I (clobber_id C net i existing_node)"
  unfolding clobber_id_def Let_def
  by (intro keeps_intros doc_event session_event) (erule frame; simp)

lemma resolve_collision: "keeps I (resolve_collision C n ks)"
proof (unfold keeps_def, intro allI impI)
  fix s s' r
  assume i: "I s" and run: "resolve_collision C n ks s = Some (s', r)"
  have step: "I s'" if "and_then (clobber_id C net i e) (\<lambda>_. ret x) t = Some (s', r')" "I t"
    for net i e x t and r' :: "buildonomy_error + (node \<times> node_key list)"
    using keepsD [OF keeps_and_then [OF clobber_id keeps_pure(1)] that] .
  have same: "I (s\<lparr>jb_missing := m\<rparr>)" for m by (rule frame [OF i]) simp_all
  show "I s'"
    using run i same by (auto simp: resolve_collision_def Let_def intro: step
        split: if_splits sum.splits prod.splits get_or_create.splits option.splits)
qed

lemma connect_network: "keeps I (connect_network C b parent_bid)"
proof (unfold keeps_def, intro allI impI)
  fix s s' r
  assume i: "I s" and run: "connect_network C b parent_bid s = Some (s', r)"
  have same: "I (s\<lparr>gb_repo := m\<rparr>)" for m by (rule frame [OF i]) simp_all
  show "I s'"
    using run i same by (auto simp: connect_network_def Let_def intro: keepsD [OF run_doc] split: if_splits)
qed

lemma parent_kept: "I s \<Longrightarrow> I (snd (get_parent_from_stack proto s))"
  by (erule frame) (simp_all add: get_parent_from_stack_def split: prod.splits)

lemma push_below: "keeps I (push_below C proto as_trace explicit_sort_key parent_bid path_info)"
  unfolding push_below_def Let_def
  by (intro keeps_intros run_doc resolve_collision connect_network) (erule frame; simp)+

lemma push: "keeps I (push C proto as_trace explicit_sort_key)"
proof (unfold keeps_def, intro allI impI)
  fix s s' r
  assume i: "I s" and run: "push C proto as_trace explicit_sort_key s = Some (s', r)"
  obtain parent_bid path_info parent_path t
    where split: "get_parent_from_stack proto s = ((parent_bid, path_info, parent_path), t)"
    by (metis prod.collapse)
  have "I t" using parent_kept [OF i, of proto] by (simp add: split)
  with run show "I s'" by (auto simp: push_def split intro: keepsD [OF push_below])
qed

lemma fetch_substructure: "keeps I (fetch_substructure C n source)"
  by (auto simp: keeps_def fetch_substructure_def elim!: frame split: node_source.splits sum.splits)

lemma connect_relation: "keeps I (connect_relation C relation owner_bid d index other_key other_node source)"
  unfolding connect_relation_def Let_def by (intro keeps_intros queue_event fetch_substructure)

lemma push_href: "keeps I (push_href C href)"
  by (auto simp: keeps_def push_href_def Let_def elim!: frame)

lemma report_unresolved: "keeps I (report_unresolved C relation owner_bid d source initial)"
  by (auto simp: keeps_def report_unresolved_def Let_def split: option.splits)

lemma push_relation: "keeps I (push_relation C relation owner_bid d index source)"
proof (unfold keeps_def, intro allI impI)
  fix s s' r
  assume i: "I s" and run: "push_relation C relation owner_bid d index source s = Some (s', r)"
  have same: "I (s\<lparr>jb_missing := m\<rparr>)" for m by (rule frame [OF i]) simp_all
  show "I s'"
    using run i same by (auto simp: push_relation_def Let_def
        intro: keepsD [OF connect_relation] keepsD [OF report_unresolved]
          keepsD [OF keeps_and_then [OF push_href connect_relation]]
        split: sum.splits prod.splits get_or_create.splits option.splits)
qed

lemma session_renames: "keeps I (session_renames C renames)"
  by (induction renames) (auto simp: Let_def intro!: keeps_intros session_event)

lemma session_updates: "keeps I (session_updates C events)"
  by (induction events) (auto intro!: keeps_intros session_event)

end

text \<open>What does not depend on the transmitter is kept by the end of a parse too.\<close>

locale sending_invariant = job_invariant C I for C :: "'p setting" and I :: "'p job \<Rightarrow> bool" +
  assumes sends: "I s \<Longrightarrow> I (s\<lparr>gb_tx := gb_tx s @ [event]\<rparr>)"
begin

lemma send: "keeps I (send event)"
  by (auto simp: keeps_def send_def elim!: sends split: if_splits)

lemma terminate_stack: "keeps I (terminate_stack C renamed_nodes parsed_nodes)"
  unfolding terminate_stack_def
  by (intro keeps_intros session_renames session_updates send) (erule frame; simp)

end

definition stores_ok :: "'p setting \<Rightarrow> 'p job \<Rightarrow> bool" where
  "stores_ok C s \<longleftrightarrow> base_inv (gb_session_bb s) \<and> base_inv (gb_doc_bb s) \<or> \<not> edges_in_ok (cx_ops C)"

lemma process_session_inv:
  "process_session C event s = Some (s', r) \<Longrightarrow> gb_doc_bb s' = gb_doc_bb s \<and> gb_tx s' = gb_tx s
   \<and> gb_tx_open s' = gb_tx_open s
   \<and> (edges_in_ok (cx_ops C) \<longrightarrow> base_inv (gb_session_bb s) \<longrightarrow> base_inv (gb_session_bb s'))"
  by (auto simp: process_session_def intro: process_event_inv split: option.splits sum.splits prod.splits)

lemma process_doc_inv:
  "process_doc C event s = Some (s', r) \<Longrightarrow> gb_session_bb s' = gb_session_bb s \<and> gb_tx s' = gb_tx s
   \<and> gb_tx_open s' = gb_tx_open s
   \<and> (edges_in_ok (cx_ops C) \<longrightarrow> base_inv (gb_doc_bb s) \<longrightarrow> base_inv (gb_doc_bb s'))"
  by (auto simp: process_doc_def intro: process_event_inv split: option.splits sum.splits prod.splits)

interpretation builder_stores: sending_invariant C "stores_ok C" for C :: "'p setting"
  by unfold_locales (auto simp: keeps_def stores_ok_def dest: process_doc_inv process_session_inv)

section \<open>Lookups\<close>

lemma unwind_spec:
  "unwind f st = (found, rest) \<Longrightarrow> \<exists>popped. st = popped @ rest \<and> (\<forall>e \<in> set popped. f e = None)
    \<and> (case rest of [] \<Rightarrow> found = None | e # _ \<Rightarrow> found \<noteq> None \<and> found = f e)"
proof (induction st arbitrary: found rest)
  case (Cons e st)
  show ?case
  proof (cases "f e")
    case None
    with Cons.prems have "unwind f st = (found, rest)" by simp
    from Cons.IH [OF this] obtain popped where "st = popped @ rest" "\<forall>e \<in> set popped. f e = None"
      "case rest of [] \<Rightarrow> found = None | e # _ \<Rightarrow> found \<noteq> None \<and> found = f e" by blast
    with None show ?thesis by (intro exI [of _ "e # popped"]) simp
  next
    case (Some r)
    with Cons.prems have "found = Some r" "rest = e # st" by auto
    with Some show ?thesis by (intro exI [of _ "[]"]) simp
  qed
qed simp

lemma cache_fetch_keys_spec:
  assumes "cache_fetch_keys C b check_local ks missing = Inr (found, missing')"
  shows "\<exists>asked rest. ks = asked @ rest \<and> (\<forall>k \<in> set asked. fetch_key C b check_local k missing = Inr (None, missing))
    \<and> (case rest of [] \<Rightarrow> found = None \<and> missing' = missing
       | key # _ \<Rightarrow> found \<noteq> None \<and> fetch_key C b check_local key missing = Inr (found, missing'))"
  using assms
proof (induction ks)
  case (Cons k ks)
  show ?case
  proof (cases "fetch_key C b check_local k missing")
    case (Inr r)
    obtain found1 m where r: "r = (found1, m)" by (cases r)
    show ?thesis
    proof (cases found1)
      case None
      have m: "m = missing"
        using Inr unfolding r None by (auto simp: fetch_key_def Let_def split: option.splits sum.splits)
      with Cons Inr r None obtain asked rest where "ks = asked @ rest"
        "\<forall>k \<in> set asked. fetch_key C b check_local k missing = Inr (None, missing)"
        "case rest of [] \<Rightarrow> found = None \<and> missing' = missing
         | key # _ \<Rightarrow> found \<noteq> None \<and> fetch_key C b check_local key missing = Inr (found, missing')"
        by auto
      with Inr r None m show ?thesis by (intro exI [of _ "k # asked"] exI [of _ rest]) simp
    qed (use Cons.prems Inr r in \<open>auto intro: exI [of _ "[]"]\<close>)
  qed (use Cons.prems in simp)
qed simp

lemma fetch_key_source:
  "fetch_key C b check_local key missing = Inr (Some (n, source), missing') \<Longrightarrow> source \<in> {SourceFile, StackCache, GlobalCache}"
  by (auto simp: fetch_key_def Let_def split: option.splits sum.splits if_splits)

lemma cache_fetch_source:
  assumes "cache_fetch C b check_local ks missing = Inr (Resolved n source, missing')"
  shows "source \<in> {SourceFile, StackCache, GlobalCache}"
proof -
  from assms have "cache_fetch_keys C b check_local ks missing = Inr (Some (n, source), missing')"
    by (auto simp: cache_fetch_def split: sum.splits option.splits)
  from cache_fetch_keys_spec [OF this] obtain asked rest where
    "case rest of [] \<Rightarrow> False | key # _ \<Rightarrow> fetch_key C b check_local key missing = Inr (Some (n, source), missing')"
    by (force split: list.splits)
  then show ?thesis by (cases rest) (simp_all only: list.case fetch_key_source)
qed

section \<open>Relations\<close>

lemma fetch_substructure_some: "source \<noteq> Merged \<Longrightarrow> fetch_substructure C n source s \<noteq> None"
  by (auto simp: fetch_substructure_def split: node_source.splits sum.splits)

lemma and_then_some: "m s \<noteq> None \<Longrightarrow> (\<And>x t. m s = Some (t, Inr x) \<Longrightarrow> f x t \<noteq> None) \<Longrightarrow> and_then m f s \<noteq> None"
  by (auto simp: and_then_def split: option.splits sum.splits)

lemma connect_relation_some:
  "source \<noteq> Merged \<Longrightarrow> connect_relation C relation owner_bid d index other_key other_node source s \<noteq> None"
  unfolding connect_relation_def Let_def
  by (intro and_then_some fetch_substructure_some)
    (simp_all add: queue_event_def modify_def ret_def and_then_def split: prod.splits)

text \<open>What a relation adds to the queue.\<close>

definition queued_ok :: "intermediate_relation \<Rightarrow> bid \<Rightarrow> direction \<Rightarrow> nat \<Rightarrow> belief_event \<Rightarrow> bool" where
  "queued_ok relation owner_bid d index event =
     (case event of
        RelationChange a b k w _ \<Rightarrow>
          b = href_namespace
          \<or> a \<noteq> b \<and> owner_bid \<in> {a, b} \<and> k = ir_rel_kind relation \<and> w = Some (relation_weight relation d index)
      | NodeUpdate _ _ _ \<Rightarrow> True
      | _ \<Rightarrow> False)"

definition queues_only :: "(belief_event \<Rightarrow> bool) \<Rightarrow> ('p job, 'x) run \<Rightarrow> bool" where
  "queues_only good m \<longleftrightarrow> (\<forall>s s' r. m s = Some (s', r) \<longrightarrow>
     gb_doc_bb s' = gb_doc_bb s \<and> gb_session_bb s' = gb_session_bb s \<and> gb_stack s' = gb_stack s
     \<and> (\<exists>events. jb_queue s' = jb_queue s @ events \<and> (\<forall>event \<in> set events. good event)))"

lemma queues_only_and_then:
  assumes "queues_only good m" "\<And>x. queues_only good (f x)"
  shows "queues_only good (and_then m f)"
  unfolding queues_only_def
proof (intro allI impI)
  fix s s' r
  assume "and_then m f s = Some (s', r)"
  then obtain t q where t: "m s = Some (t, q)"
    and q: "case q of Inl e \<Rightarrow> s' = t | Inr x \<Rightarrow> f x t = Some (s', r)"
    by (auto simp: and_then_def split: option.splits sum.splits)
  from assms(1) t obtain evs where 1: "gb_doc_bb t = gb_doc_bb s \<and> gb_session_bb t = gb_session_bb s \<and> gb_stack t = gb_stack s"
    "jb_queue t = jb_queue s @ evs" "\<forall>event \<in> set evs. good event"
    unfolding queues_only_def by blast
  show "gb_doc_bb s' = gb_doc_bb s \<and> gb_session_bb s' = gb_session_bb s \<and> gb_stack s' = gb_stack s
     \<and> (\<exists>events. jb_queue s' = jb_queue s @ events \<and> (\<forall>event \<in> set events. good event))"
  proof (cases q)
    case (Inr x)
    with q have "f x t = Some (s', r)" by simp
    with assms(2) [of x] obtain evs' where
      2: "gb_doc_bb s' = gb_doc_bb t \<and> gb_session_bb s' = gb_session_bb t \<and> gb_stack s' = gb_stack t"
        "jb_queue s' = jb_queue t @ evs'" "\<forall>event \<in> set evs'. good event"
      unfolding queues_only_def by blast
    with 1 show ?thesis by (auto intro!: exI [of _ "evs @ evs'"])
  qed (use 1 q in auto)
qed

lemma connect_relation_queues:
  "queues_only (queued_ok relation owner_bid d index)
     (connect_relation C relation owner_bid d index other_key other_node source)"
  unfolding connect_relation_def Let_def
  by (intro queues_only_and_then)
    (auto simp: queues_only_def queue_event_def modify_def ret_def queued_ok_def fetch_substructure_def and_then_def
      split: node_source.splits sum.splits direction.splits prod.splits if_splits)

lemma push_href_queues: "queues_only (queued_ok relation owner_bid d index) (push_href C href)"
  by (auto simp: queues_only_def push_href_def Let_def queued_ok_def)

lemma report_unresolved_queues:
  "queues_only (queued_ok relation owner_bid d index) (report_unresolved C relation owner_bid d source initial)"
  by (auto simp: queues_only_def report_unresolved_def Let_def split: option.splits)

lemma push_relation_some:
  assumes "relation_location source relation \<noteq> None"
  shows "push_relation C relation owner_bid d index source s \<noteq> None"
proof -
  have "connect_relation C relation owner_bid d index key n src t \<noteq> None"
    if "cache_fetch C b True ks m = Inr (Resolved n' src, m')" for b ks m n' src m' key n t
    using cache_fetch_source [OF that] by (intro connect_relation_some) auto
  moreover have "and_then (push_href C href) (\<lambda>n. connect_relation C relation owner_bid d index key n Generated) t \<noteq> None"
    for href key t
    by (rule and_then_some) (simp_all add: push_href_def Let_def connect_relation_some)
  moreover have "report_unresolved C relation owner_bid d source initial t \<noteq> None" for initial t
    using assms by (auto simp: report_unresolved_def Let_def split: option.splits)
  ultimately show ?thesis
    unfolding push_relation_def Let_def
    by (auto split: sum.splits prod.splits get_or_create.splits option.splits)
qed

section \<open>The end of a parse\<close>

text \<open>A store that processes a list of events.\<close>

fun replay :: "'p setting \<Rightarrow> 'p belief_base \<Rightarrow> belief_event list \<Rightarrow> ('p belief_base \<times> belief_event list list) option" where
  "replay C B [] = Some (B, [])"
| "replay C B (event # rest) =
     (case process_event (cx_ext C) (cx_build C) (cx_ops C) (cx_discover C) B event of
        Some (Inr (B', derivatives)) \<Rightarrow> map_option (map_prod id ((#) derivatives)) (replay C B' rest)
      | _ \<Rightarrow> None)"

lemma session_renames_spec:
  "session_renames C renames s = Some (s', Inr events) \<Longrightarrow>
   \<exists>B ds. replay C (gb_session_bb s) (map (\<lambda>(a, b). NodeRenamed a b Remote) renames) = Some (B, ds)
     \<and> s' = s\<lparr>gb_session_bb := B\<rparr>
     \<and> events = concat (map2 (\<lambda>(a, b) d. NodeRenamed a b Remote # d) renames ds)"
proof (induction renames arbitrary: s s' events)
  case (Cons p renames)
  obtain a b where p: "p = (a, b)" by (cases p)
  from Cons.prems obtain B d s1 evs where
    1: "process_event (cx_ext C) (cx_build C) (cx_ops C) (cx_discover C) (gb_session_bb s) (NodeRenamed a b Remote) = Some (Inr (B, d))"
      "session_renames C renames (s\<lparr>gb_session_bb := B\<rparr>) = Some (s', Inr evs)" "events = NodeRenamed a b Remote # d @ evs"
    unfolding p
    by (auto simp: and_then_def process_session_def ret_def Let_def split: option.splits sum.splits prod.splits)
  from Cons.IH [OF 1(2)] 1 show ?case by (auto simp: p)
qed (simp add: ret_def)

lemma session_updates_spec:
  "session_updates C events s = Some (s', Inr path_events) \<Longrightarrow>
   \<exists>B ds. replay C (gb_session_bb s) events = Some (B, ds) \<and> s' = s\<lparr>gb_session_bb := B\<rparr>
     \<and> path_events = filter is_path_event (concat ds)"
proof (induction events arbitrary: s s' path_events)
  case (Cons event events)
  from Cons.prems obtain B d evs where
    1: "process_event (cx_ext C) (cx_build C) (cx_ops C) (cx_discover C) (gb_session_bb s) event = Some (Inr (B, d))"
      "session_updates C events (s\<lparr>gb_session_bb := B\<rparr>) = Some (s', Inr evs)" "path_events = filter is_path_event d @ evs"
    by (auto simp: and_then_def process_session_def ret_def split: option.splits sum.splits prod.splits)
  from Cons.IH [OF 1(2)] 1 show ?case by auto
qed (simp add: ret_def)

lemma send_all:
  "for_each send events s = Some (s', Inr ()) \<longleftrightarrow>
   s' = s\<lparr>gb_tx := gb_tx s @ events\<rparr> \<and> (gb_tx_open s \<or> events = [])"
  by (induction events arbitrary: s s') (auto simp: send_def and_then_def ret_def)

section \<open>Instances\<close>

text \<open>A setting without path maps or a global source, and a job on the three documents.\<close>

definition plain_builder_ops :: "unit builder_ops" where
  "plain_builder_ops =
     \<lparr>pm_default = (), pm_new = \<lambda>sts rels. (), pm_api_get = \<lambda>p path. None, pm_net_path = \<lambda>p net path. None,
      pm_net_paths_in = \<lambda>p net. [], pm_net_id = \<lambda>p net i. None, pm_order = \<lambda>p b. None,
      pm_has_path = \<lambda>p api b. True, pm_nets = \<lambda>p. [], pm_docs = \<lambda>p. [], pm_all_paths = \<lambda>p. [],
      pm_process = \<lambda>p events rels. (p, []),
      edges_in = \<lambda>es b. filter (\<lambda>e. e_sink e = b) es,
      walk_edges = \<lambda>es b d. [], node_toml = \<lambda>n. [], parse_node = \<lambda>s. Inl Custom, cycles = \<lambda>arcs. [],
      pm_path_in = \<lambda>p net. None, pm_order_in = \<lambda>p net. None, pm_at_order = \<lambda>p net order. None,
      pm_home_path = \<lambda>p b. None, pm_doc = \<lambda>p b. None, pm_indexed = \<lambda>p b. None,
      pm_net_indexed = \<lambda>p net b. None\<rparr>"

lemma plain_builder_edges: "edges_in_ok plain_builder_ops"
  by (simp add: edges_in_ok_def plain_builder_ops_def)

definition plain_setting :: "query_ext \<Rightarrow> build_env \<Rightarrow> unit setting" where
  "plain_setting X env =
     \<lparr>cx_ext = X, cx_build = env, cx_ops = plain_builder_ops, cx_discover = \<lambda>es seeds. seeds,
      cx_tree = \<lambda>es seeds. [], cx_eval_unbalanced = \<lambda>expr. Inr belief_graph_empty,
      cx_eval_trace = \<lambda>expr ws. Inr belief_graph_empty\<rparr>"

definition plain_job :: "stack_entry list \<Rightarrow> unit job" where
  "plain_job st =
     \<lparr>gb_doc_bb = section_base, gb_repo = Bid 1, gb_repo_root = [[], ''repo''], gb_stack = st,
      gb_session_bb = section_base, gb_tx = [], gb_tx_open = True, jb_missing = belief_graph_empty,
      jb_queue = [], jb_diagnostics = [], jb_clock = 0\<rparr>"

lemma plain_session_event:
  "process_event X env plain_builder_ops D B (NodeRenamed a b Remote) = Some (Inr (B, []))"
  by (simp add: process_event_def apply_event_def plain_builder_ops_def origin_def)

lemma diff_of_nothing: "compute_diff P (\<lambda>es seeds. seeds) B B [] = []"
proof -
  have "owned_edge [] = (\<lambda>e. None)" by (auto simp: owned_edge_def fun_eq_iff)
  then have none: "parsed_edges [] rels = []" for rels
    by (simp add: parsed_edges_def edge_map_def List.map_filter_def from_edges_def bm_from_list_def)
  have "removed_content (\<lambda>es seeds. seeds) B B [] = []" by (simp add: removed_content_def bs_from_list_def)
  then show ?thesis
    by (simp add: compute_diff_def Let_def none node_updates_def relations_gone_def relations_new_def
        weights_changed_def List.map_filter_def sort_by_def)
qed

section \<open>Correctness\<close>

text \<open>The parent of a node is the innermost entry of the stack that can hold it, and only the entries
  above it that cannot hold the node are popped; without one it is the API.\<close>

theorem parent_is_innermost:
  assumes "get_parent_from_stack proto b = ((parent_bid, path_info, parent_path), b')"
  shows "\<exists>popped. gb_stack b = gb_stack b' @ popped \<and> (\<forall>e \<in> set popped. parent_info proto e = None)
    \<and> (if gb_stack b' = [] then parent_bid = api_bid b
       else parent_info proto (last (gb_stack b')) = Some (parent_bid, path_info, parent_path))"
proof -
  obtain found rest where u: "unwind (parent_info proto) (rev (gb_stack b)) = (found, rest)" by fastforce
  then obtain popped where "rev (gb_stack b) = popped @ rest" "\<forall>e \<in> set popped. parent_info proto e = None"
    "case rest of [] \<Rightarrow> found = None | e # _ \<Rightarrow> found \<noteq> None \<and> found = parent_info proto e"
    using unwind_spec by blast
  moreover from this have "gb_stack b = rev rest @ rev popped" by (metis rev_append rev_rev_ident)
  ultimately show ?thesis
    using assms u by (cases rest) (auto simp: get_parent_from_stack_def api_bid_def intro!: exI [of _ "rev popped"])
qed

text \<open>C18. A node is looked up key by key: every key before the one that is found is in none of the caches,
  and the found key is taken from the document if that is asked for, else from the session, else from the
  global source, whose answer alone adds to the missing structure.\<close>

theorem cache_fetch_order:
  assumes "cache_fetch C b check_local ks missing = Inr (Resolved n source, missing')"
  shows "\<exists>asked key rest. ks = asked @ key # rest
    \<and> (\<forall>k \<in> set asked. fetch_key C b check_local k missing = Inr (None, missing))
    \<and> (case source of
         SourceFile \<Rightarrow> check_local \<and> get_in C (gb_doc_bb b) key = Some n \<and> missing' = missing
       | StackCache \<Rightarrow> (check_local \<longrightarrow> get_in C (gb_doc_bb b) key = None) \<and> missing' = missing
           \<and> (\<exists>g. query_base C (gb_session_bb b) (key_query key) True = Inr g \<and> get_in C (graph_base C g) key = Some n)
       | GlobalCache \<Rightarrow> (check_local \<longrightarrow> get_in C (gb_doc_bb b) key = None)
           \<and> (\<exists>g. query_base C (gb_session_bb b) (key_query key) True = Inr g \<and> get_in C (graph_base C g) key = None)
           \<and> (\<exists>g. query_global C (key_query key) False = Inr g \<and> get_in C (graph_base C g) key = Some n
                \<and> missing' = union_mut (cx_discover C) missing (bb_graph (index_sync (graph_base C g))))
       | _ \<Rightarrow> False)"
proof -
  from assms have "cache_fetch_keys C b check_local ks missing = Inr (Some (n, source), missing')"
    by (auto simp: cache_fetch_def split: sum.splits option.splits)
  from cache_fetch_keys_spec [OF this] obtain asked key rest where
    found: "ks = asked @ key # rest" "\<forall>k \<in> set asked. fetch_key C b check_local k missing = Inr (None, missing)"
      "fetch_key C b check_local key missing = Inr (Some (n, source), missing')"
    by (force split: list.splits)
  from found(3) show ?thesis
    by (intro exI [of _ asked] exI [of _ key] exI [of _ rest])
      (use found(1,2) in \<open>auto simp: fetch_key_def Let_def split: option.splits sum.splits if_splits\<close>)
qed

text \<open>Given lookups that return, which the operations of the path maps do here, pushing a relation panics only
  where its byte offset is no character boundary of the source. What the lookups of the code need to return is
  in \<open>PathMounts\<close> and \<open>StoreLookups\<close>.\<close>

theorem push_relation_no_panic:
  assumes "relation_location source relation \<noteq> None"
  shows "push_relation C relation owner_bid d index source s \<noteq> None"
  using assms by (rule push_relation_some)

text \<open>Pushing a relation leaves both stores and the stack alone and only adds to the queue: node updates
  and, apart from the places of links to the outside, relations between the owner and another node, of the kind of
  the pushed relation and with its weight.\<close>

theorem push_relation_queues:
  assumes "push_relation C relation owner_bid d index source s = Some (s', r)"
  shows "gb_doc_bb s' = gb_doc_bb s \<and> gb_session_bb s' = gb_session_bb s \<and> gb_stack s' = gb_stack s
    \<and> (\<exists>events. jb_queue s' = jb_queue s @ events \<and> (\<forall>event \<in> set events. queued_ok relation owner_bid d index event))"
proof -
  let ?good = "queued_ok relation owner_bid d index"
  let ?kept = "\<lambda>t. gb_doc_bb s' = gb_doc_bb t \<and> gb_session_bb s' = gb_session_bb t \<and> gb_stack s' = gb_stack t
    \<and> (\<exists>events. jb_queue s' = jb_queue t @ events \<and> (\<forall>event \<in> set events. ?good event))"
  have run: "?kept s" if "queues_only ?good (m :: ('a job, get_or_create) run)"
    "m (s\<lparr>jb_missing := missing\<rparr>) = Some (s', r)" for m missing
    using that unfolding queues_only_def by fastforce
  show ?thesis
    using assms run [OF connect_relation_queues] run [OF report_unresolved_queues]
      run [OF queues_only_and_then [OF push_href_queues connect_relation_queues]]
    unfolding push_relation_def Let_def
    by (auto split: sum.splits prod.splits get_or_create.splits option.splits)
qed

text \<open>C20. The end of a parse replays on the session, in this order, the renames of nodes and the difference of the
  session, after the renames, to the document; what it sent is the renames with what they caused, the
  difference, and the path events the difference caused. The document stays and the stack is empty.\<close>

theorem terminate_stack_replay:
  assumes "terminate_stack C renamed parsed s = Some (s', Inr ())"
  shows "\<exists>B ds es. replay C (gb_session_bb s) (map (\<lambda>(a, b). NodeRenamed a b Remote) renamed) = Some (B, ds)
    \<and> (let diff_events = compute_diff (cx_ops C) (cx_discover C) B (gb_doc_bb s) parsed in
         replay C B diff_events = Some (gb_session_bb s', es)
       \<and> gb_tx s' = gb_tx s @ concat (map2 (\<lambda>(a, b) d. NodeRenamed a b Remote # d) renamed ds)
           @ diff_events @ filter is_path_event (concat es))
    \<and> gb_doc_bb s' = gb_doc_bb s \<and> gb_stack s' = []"
proof -
  from assms obtain s1 tx_events s2 path_events where
    runs: "session_renames C renamed (s\<lparr>gb_stack := []\<rparr>) = Some (s1, Inr tx_events)"
      "session_updates C (compute_diff (cx_ops C) (cx_discover C) (gb_session_bb s1) (gb_doc_bb s1) parsed) s1
         = Some (s2, Inr path_events)"
      "for_each send (tx_events @ compute_diff (cx_ops C) (cx_discover C) (gb_session_bb s1) (gb_doc_bb s1) parsed
         @ path_events) s2 = Some (s', Inr ())"
    by (auto simp: terminate_stack_def and_then_def modify_def gets_def split: option.splits sum.splits)
  from session_renames_spec [OF runs(1)] session_updates_spec [OF runs(2)] runs(3) show ?thesis
    unfolding send_all Let_def by (elim exE conjE) (simp only: simp_thms, auto)
qed

section \<open>Witnesses\<close>

text \<open>A section of another document is popped, its document is the parent.\<close>

definition heading_node :: ir_node where
  "heading_node = ir_default\<lparr>ir_path := ''/repo/b.md'', ir_heading := 3\<rparr>"

lemma heading_parents:
  "parent_info heading_node (Bid 1, ''/repo/b.md'', 2) = Some (Bid 1, [], ''/repo/b.md'')"
  "parent_info heading_node (Bid 2, ''/repo/a.md#x'', 3) = None"
  by code_simp+

theorem parent_is_innermost_witness:
  "\<exists>b' popped. get_parent_from_stack heading_node (plain_job [(Bid 1, ''/repo/b.md'', 2), (Bid 2, ''/repo/a.md#x'', 3)])
       = ((Bid 1, [], ''/repo/b.md''), b')
     \<and> [(Bid 1, ''/repo/b.md'', 2), (Bid 2, ''/repo/a.md#x'', 3)] = gb_stack b' @ popped
     \<and> list_all (\<lambda>e. parent_info heading_node e = None) popped"
proof -
  obtain b' where found: "get_parent_from_stack heading_node
      (plain_job [(Bid 1, ''/repo/b.md'', 2), (Bid 2, ''/repo/a.md#x'', 3)]) = ((Bid 1, [], ''/repo/b.md''), b')"
    by (simp add: get_parent_from_stack_def plain_job_def heading_parents)
  from parent_is_innermost [OF this] found show ?thesis by (auto simp: plain_job_def list_all_iff)
qed

theorem cache_fetch_order_witness:
  "\<forall>X env. \<exists>asked key rest. [KBid (Bid 1), KBid (Bid 7)] = asked @ key # rest
     \<and> get_in (plain_setting X env) section_base key = Some (unknown_node (Bid 1))"
proof (intro allI)
  fix X env
  have local: "get_in (plain_setting X env) section_base (KBid (Bid 1)) = Some (unknown_node (Bid 1))"
    by (simp add: get_in_def base_get_def section_base_def section_graph_def index_sync_def index_nodes_def
        bm_get_def Let_def)
  then have "cache_fetch (plain_setting X env) (plain_job []) True [KBid (Bid 1), KBid (Bid 7)] belief_graph_empty
      = Inr (Resolved (unknown_node (Bid 1)) SourceFile, belief_graph_empty)"
    by (simp add: cache_fetch_def fetch_key_def plain_job_def)
  from cache_fetch_order [OF this]
  show "\<exists>asked key rest. [KBid (Bid 1), KBid (Bid 7)] = asked @ key # rest
     \<and> get_in (plain_setting X env) section_base key = Some (unknown_node (Bid 1))"
    by (auto simp: plain_job_def)
qed

abbreviation plain_relation :: intermediate_relation where
  "plain_relation \<equiv> relation_new (KBid (Bid 2)) Epistemic None"

lemma plain_relation_location: "relation_location source plain_relation \<noteq> None"
  by (simp add: relation_location_def relation_new_def)

theorem push_relation_no_panic_witness:
  "\<forall>X env. push_relation (plain_setting X env) plain_relation (Bid 1) Outgoing 0 ''text'' (plain_job []) \<noteq> None"
  by (intro allI push_relation_no_panic plain_relation_location)

theorem push_relation_queues_witness:
  "\<forall>X env. \<exists>s' r. push_relation (plain_setting X env) plain_relation (Bid 1) Outgoing 0 ''text'' (plain_job []) = Some (s', r)
     \<and> gb_doc_bb s' = section_base \<and> gb_session_bb s' = section_base"
proof (intro allI)
  fix X env
  obtain s' r where
    "push_relation (plain_setting X env) plain_relation (Bid 1) Outgoing 0 ''text'' (plain_job []) = Some (s', r)"
    using push_relation_some [OF plain_relation_location] by fastforce
  with push_relation_queues [OF this]
  show "\<exists>s' r. push_relation (plain_setting X env) plain_relation (Bid 1) Outgoing 0 ''text'' (plain_job []) = Some (s', r)
     \<and> gb_doc_bb s' = section_base \<and> gb_session_bb s' = section_base"
    by (auto simp: plain_job_def)
qed

theorem terminate_stack_replay_witness:
  "\<forall>X env. \<exists>s'. terminate_stack (plain_setting X env) [(Bid 1, Bid 1)] [] (plain_job []) = Some (s', Inr ())
     \<and> gb_tx s' = [NodeRenamed (Bid 1) (Bid 1) Remote] \<and> gb_session_bb s' = section_base"
proof (intro allI)
  fix X env
  let ?C = "plain_setting X env" and ?rename = "NodeRenamed (Bid 1) (Bid 1) Remote"
  have diff: "compute_diff (cx_ops ?C) (cx_discover ?C) section_base section_base [] = []"
    by (simp add: plain_setting_def diff_of_nothing)
  have event: "process_event (cx_ext ?C) (cx_build ?C) (cx_ops ?C) (cx_discover ?C) B ?rename = Some (Inr (B, []))" for B
    by (simp add: plain_setting_def plain_session_event)
  have "\<exists>s'. terminate_stack ?C [(Bid 1, Bid 1)] [] (plain_job []) = Some (s', Inr ())"
    by (simp add: terminate_stack_def and_then_def modify_def gets_def ret_def process_session_def event
        plain_job_def diff send_def)
  then obtain s' where run: "terminate_stack ?C [(Bid 1, Bid 1)] [] (plain_job []) = Some (s', Inr ())" by blast
  with terminate_stack_replay [OF run]
  show "\<exists>s'. terminate_stack ?C [(Bid 1, Bid 1)] [] (plain_job []) = Some (s', Inr ())
     \<and> gb_tx s' = [?rename] \<and> gb_session_bb s' = section_base"
    by (auto simp: event diff plain_job_def)
qed

end
