(* ===== verification/Contexts.thy ===== *)
theory Contexts
  imports BuilderProps
begin

text \<open>
  Views on a node and its neighbours (\<open>beliefbase/context.rs\<close>), which codecs get to see while a document
  is parsed: where a node is seen from a network, and its relations with the home and the path of
  the node at their other end.
\<close>

definition WEIGHT_LINK_TITLE :: string where "WEIGHT_LINK_TITLE = ''title''"

fun find_map :: "('x \<Rightarrow> 'y option) \<Rightarrow> 'x list \<Rightarrow> 'y option" where
  "find_map f [] = None"
| "find_map f (x # xs) = or_else (f x) (find_map f xs)"

record extended_relation =
  er_other :: node
  er_home_net :: bid
  er_root_path :: string
  er_weight :: weight_set
  er_link_title :: "string option"

text \<open>
  Where a node is: seen from the root network, from the networks of external content, from any network,
  or else in the network its identity says, without a path.
\<close>

definition path_seen_from ::
    "'a id_ext_scheme \<Rightarrow> ('p, 'c) builder_ops_scheme \<Rightarrow> 'p \<Rightarrow> bid \<Rightarrow> bid \<Rightarrow> (bid \<times> string) option" where
  "path_seen_from X P paths other_bid ns =
     (case pm_path_in P paths (bref_of X ns) of
        None \<Rightarrow> None
      | Some path_of \<Rightarrow> map_option (\<lambda>(home_network, path, _). (home_network, path)) (path_of other_bid))"

definition path_anywhere ::
    "'a id_ext_scheme \<Rightarrow> ('p, 'c) builder_ops_scheme \<Rightarrow> 'p \<Rightarrow> bid \<Rightarrow> (bid \<times> string) option" where
  "path_anywhere X P paths other_bid =
     (case pm_indexed P paths other_bid of
        None \<Rightarrow> None
      | Some (home_network, _, _) \<Rightarrow>
          map_option (\<lambda>(net, local_path, _). (net, local_path))
            (pm_net_indexed P paths (bref_of X home_network) other_bid))"

definition fallback_net :: "'a id_ext_scheme \<Rightarrow> bid \<Rightarrow> bid \<Rightarrow> bid" where
  "fallback_net X other_bid root_net =
     unwrap_or (find (\<lambda>cns. parent_bref other_bid = bref_of X cns) content_namespaces) root_net"

definition extended_relation_new ::
    "'a id_ext_scheme \<Rightarrow> ('p, 'c) builder_ops_scheme \<Rightarrow> bid \<Rightarrow> bid \<Rightarrow> weight_set \<Rightarrow> 'p belief_base
      \<Rightarrow> extended_relation option" where
  "extended_relation_new X P other_bid root_net weight B =
     (case bm_get (bb_states B) other_bid of
        None \<Rightarrow> None
      | Some other \<Rightarrow>
          let paths = bb_paths (index_sync B);
              (net, root_path) =
                unwrap_or (or_else (find_map (path_seen_from X P paths other_bid) (root_net # content_namespaces))
                             (path_anywhere X P paths other_bid))
                  (fallback_net X (nd_bid other) root_net, [])
          in Some \<lparr>er_other = other, er_home_net = net, er_root_path = root_path, er_weight = weight,
               er_link_title = find_map (\<lambda>(_, w). weight_get to_text w WEIGHT_LINK_TITLE) (weights weight)\<rparr>)"

definition as_link_ref :: "'a id_ext_scheme \<Rightarrow> extended_relation \<Rightarrow> string" where
  "as_link_ref X r =
     bref_display (bref_of X (nd_bid (er_other r))) @ (if nd_title (er_other r) \<noteq> [] then '':'' else [])
     @ nd_title (er_other r)"

section \<open>Contexts\<close>

record 'p belief_context =
  bc_node :: node
  bc_root_path :: string
  bc_root_net :: bid
  bc_home_net :: bid
  bc_bb :: "'p belief_base"

definition sources ::
    "'a id_ext_scheme \<Rightarrow> ('p, 'c) builder_ops_scheme \<Rightarrow> 'p belief_context \<Rightarrow> extended_relation list" where
  "sources X P ctx =
     List.map_filter (\<lambda>e.
       if e_sink e = nd_bid (bc_node ctx)
       then extended_relation_new X P (e_source e) (bc_root_net ctx) (e_weights e) (bc_bb ctx) else None)
     (g_edges (bb_relations (index_sync (bc_bb ctx))))"

definition sinks ::
    "'a id_ext_scheme \<Rightarrow> ('p, 'c) builder_ops_scheme \<Rightarrow> 'p belief_context \<Rightarrow> extended_relation list" where
  "sinks X P ctx =
     List.map_filter (\<lambda>e.
       if e_source e = nd_bid (bc_node ctx)
       then extended_relation_new X P (e_sink e) (bc_root_net ctx) (e_weights e) (bc_bb ctx) else None)
     (g_edges (bb_relations (index_sync (bc_bb ctx))))"

text \<open>The outer \<open>None\<close> is the panic on an unbalanced store.\<close>

definition get_context ::
    "'a id_ext_scheme \<Rightarrow> ('p, 'c) builder_ops_scheme \<Rightarrow> 'p belief_base \<Rightarrow> bid \<Rightarrow> bid \<Rightarrow> 'p belief_context option option" where
  "get_context X P B root_net b =
     (let B = index_sync B
      in if is_balanced B \<noteq> Inr () then None
         else Some
           (case bm_get (bb_states B) b of
              None \<Rightarrow> None
            | Some n \<Rightarrow>
                (case pm_path_in P (bb_paths B) (bref_of X root_net) of
                   None \<Rightarrow> None
                 | Some path_of \<Rightarrow>
                     map_option (\<lambda>(home_net, root_path, _).
                       \<lparr>bc_node = n, bc_root_path = root_path, bc_root_net = root_net, bc_home_net = home_net,
                        bc_bb = B\<rparr>) (path_of b))))"

section \<open>Correctness\<close>

lemma extended_relation_some:
  "extended_relation_new X P other root w B = None \<longleftrightarrow> bm_get (bb_states B) other = None"
  "extended_relation_new X P other root w B = Some r \<Longrightarrow>
     bm_get (bb_states B) other = Some (er_other r) \<and> er_weight r = w"
  by (auto simp: extended_relation_new_def Let_def split: option.splits prod.splits)

lemma map_filter_total:
  "(\<And>x. x \<in> set xs \<Longrightarrow> p x \<Longrightarrow> \<exists>y. f x = Some y \<and> g y = h x) \<Longrightarrow>
   map g (List.map_filter (\<lambda>x. if p x then f x else None) xs) = map h (filter p xs)"
  by (induction xs) (auto simp: map_filter_simps, fastforce+)

lemma base_inv_state:
  assumes "base_inv B" "b \<in> set (g_nodes (bb_relations B))"
  shows "\<exists>n. bm_get (bb_states B) b = Some n \<and> nd_bid n = b"
proof -
  have shape: "b \<in> fst ` set (bb_states B)" "list_all (\<lambda>(k, n). nd_bid n = k) (bb_states B)"
    using assms by (auto simp: base_inv_def base_shape_def keyed_def keys_bb)
  then obtain n where "bm_get (bb_states B) b = Some n"
    by (cases "bm_get (bb_states B) b") (auto simp: bm_get_def map_of_eq_None_iff)
  then show ?thesis using shape(2) by (auto simp: bm_get_def list_all_iff dest: map_of_SomeD)
qed

text \<open>
  In a store in shape a context shows every relation into its node, in the order of the store, with the
  node at the other end and the weights.
\<close>

theorem context_sees_all:
  assumes "base_inv (bc_bb ctx)"
  shows "map (\<lambda>r. (nd_bid (er_other r), er_weight r)) (sources X P ctx)
    = map (\<lambda>e. (e_source e, e_weights e))
        (filter (\<lambda>e. e_sink e = nd_bid (bc_node ctx)) (g_edges (bb_relations (bc_bb ctx))))"
  unfolding sources_def
proof (subst map_filter_total [where h = "\<lambda>e. (e_source e, e_weights e)"], goal_cases)
  case (1 e)
  have "e \<in> set (g_edges (bb_relations (bc_bb ctx)))" using 1 by simp
  then obtain n where n: "bm_get (bb_states (bc_bb ctx)) (e_source e) = Some n" "nd_bid n = e_source e"
    using base_inv_state [OF assms] base_inv_edges(2) [OF assms] by blast
  then obtain r where r: "extended_relation_new X P (e_source e) (bc_root_net ctx) (e_weights e) (bc_bb ctx) = Some r"
    using extended_relation_some(1) [of X P "e_source e" "bc_root_net ctx" "e_weights e" "bc_bb ctx"] by auto
  from extended_relation_some(2) [OF r] n show ?case by (simp add: r)
qed simp

theorem context_sees_all_witness:
  "\<forall>X. map (\<lambda>r. nd_bid (er_other r)) (sources (X :: 'a id_ext_scheme) plain_builder_ops
       \<lparr>bc_node = unknown_node (Bid 3), bc_root_path = [], bc_root_net = Bid 3, bc_home_net = Bid 3, bc_bb = section_base\<rparr>)
     = [Bid 1, Bid 2]"
proof
  fix X :: "'a id_ext_scheme"
  let ?ctx = "\<lparr>bc_node = unknown_node (Bid 3), bc_root_path = [], bc_root_net = Bid 3, bc_home_net = Bid 3,
    bc_bb = section_base\<rparr>"
  have "base_inv (bc_bb ?ctx)" using section_base_inv by simp
  from arg_cong [OF context_sees_all [OF this, of X plain_builder_ops], of "map fst"]
  show "map (\<lambda>r. nd_bid (er_other r)) (sources X plain_builder_ops ?ctx) = [Bid 1, Bid 2]"
    by (simp add: section_base_def section_graph_def from_edges_def unknown_node_def comp_def)
qed

end
