(* ===== verification/NetProps.thy ===== *)
theory NetProps
  imports NetFiles
begin

section \<open>Paths\<close>

definition name_ok :: "string \<Rightarrow> bool" where
  "name_ok c \<longleftrightarrow> c \<noteq> [] \<and> c \<noteq> ''.'' \<and> CHR ''/'' \<notin> set c"

text \<open>What \<open>Path::components\<close> gives: a root or a \<open>.\<close> in front only.\<close>

definition path_ok :: "os_path \<Rightarrow> bool" where
  "path_ok p \<longleftrightarrow> (case p of [] \<Rightarrow> True | c # rest \<Rightarrow> (c = [] \<or> c = ''.'' \<or> name_ok c) \<and> list_all name_ok rest)"

lemma kept_names: "list_all name_ok p \<Longrightarrow> filter (\<lambda>c. c \<noteq> [] \<and> c \<noteq> ''.'') p = p"
  by (auto simp: filter_id_conv list_all_iff name_ok_def)

lemma path_split:
  assumes "path_ok p" "p \<noteq> []"
  shows "str_split (CHR ''/'') (os_path_to_string p) = p"
proof -
  have "\<forall>c \<in> set p. CHR ''/'' \<notin> set c"
    using assms by (auto simp: path_ok_def name_ok_def list_all_iff split: list.splits)
  then show ?thesis using assms(2) str_split_join [of p "CHR ''/''"] by (simp add: os_path_to_string_def)
qed

section \<open>Lists\<close>

lemma sort_by_path_order: "sort_by path_order ps = linorder_class.sort_key (map component_key) ps"
proof -
  have "insert_by path_order p ps = insort_key (map component_key) p ps" for p ps
    by (induction ps) (auto simp: path_order_def compare_def)
  then have "insert_by path_order = insort_key (map component_key)" by (intro ext)
  then show ?thesis by (simp add: sort_by_def linorder_class.sort_key_def)
qed

lemma inj_component_key: "inj component_key"
  by (rule injI) (simp add: component_key_def)

lemma strict_remdups: "sorted xs \<Longrightarrow> sorted_wrt (<) (remdups_adj (xs :: 'x::linorder list))"
  by (induction xs rule: remdups_adj.induct) (auto simp: le_less)

lemma sorted_dedup:
  "sorted_wrt (<) (map (map component_key) (remdups_adj (sort_by path_order ps)))
   \<and> set (remdups_adj (sort_by path_order ps)) = set ps"
proof -
  have "map (map component_key) (remdups_adj (sort_by path_order ps))
      = remdups_adj (map (map component_key) (linorder_class.sort_key (map component_key) ps))"
    by (simp add: sort_by_path_order remdups_adj_map_injective inj_component_key)
  then show ?thesis by (simp add: strict_remdups sort_by_path_order)
qed

section \<open>Children\<close>

definition is_net_file :: "file_system \<Rightarrow> os_path \<Rightarrow> bool" where
  "is_net_file F p \<longleftrightarrow> fs_is_file F p \<and> filename (ap_new (os_path_to_string p)) = NETWORK_NAME"

definition is_doc_file :: "'f codec_map \<Rightarrow> file_system \<Rightarrow> os_path \<Rightarrow> bool" where
  "is_doc_file codecs F p \<longleftrightarrow> fs_is_file F p \<and> \<not> is_net_file F p
     \<and> codec_get codecs (ap_new_file (os_path_to_string p)) \<noteq> None"

text \<open>The walk does not enter hidden directories, except the one it starts at.\<close>

definition net_walk :: "file_system \<Rightarrow> os_path \<Rightarrow> os_path list" where
  "net_walk F root = fs_walk F root (\<lambda>p. \<not> is_hidden p \<or> p = root)"

text \<open>The networks of a part of a walk, without the one the walk starts at.\<close>

definition networks_in :: "file_system \<Rightarrow> os_path \<Rightarrow> os_path list \<Rightarrow> os_path list" where
  "networks_in F root ps = filter (\<lambda>d. d \<noteq> root) (map path_pop (filter (is_net_file F) ps))"

lemma networks_in_Cons:
  "networks_in F root (p # ps) = (if is_net_file F p \<and> path_pop p \<noteq> root then [path_pop p] else []) @ networks_in F root ps"
  by (simp add: networks_in_def)

lemma net_docs_mem:
  "x \<in> set (net_docs codecs F root subnets ps) \<longleftrightarrow>
     x \<in> set (networks_in F root ps)
     \<or> (\<exists>before after. ps = before @ x # after \<and> is_doc_file codecs F x
          \<and> \<not> list_ex (path_below x) (subnets @ networks_in F root before))"
proof (induction ps arbitrary: subnets)
  case Nil
  then show ?case by (simp add: networks_in_def)
next
  case (Cons p ps)
  have split: "(\<exists>before after. p # ps = before @ x # after \<and> Q before) \<longleftrightarrow>
      x = p \<and> Q [] \<or> (\<exists>before after. ps = before @ x # after \<and> Q (p # before))" for Q
    by (auto simp: Cons_eq_append_conv)
  show ?case
    unfolding split
    by (cases "is_net_file F p"; cases "path_pop p = root"; cases "is_doc_file codecs F p";
        cases "list_ex (path_below p) subnets")
      (auto simp: net_doc_def Let_def is_net_file_def is_doc_file_def networks_in_Cons Cons.IH networks_in_def)
qed

section \<open>The index\<close>

lemma list_position_spec:
  "list_position x xs = Some i \<longleftrightarrow> i < length xs \<and> xs ! i = x \<and> x \<notin> set (take i xs)"
proof (induction xs arbitrary: i)
  case (Cons y ys)
  then show ?case by (cases i) auto
qed simp

lemma list_position_none: "list_position x xs = None \<longleftrightarrow> x \<notin> set xs"
  by (induction xs) auto

definition lists_child :: "('d \<Rightarrow> 'x list option) \<Rightarrow> 'x \<Rightarrow> 'd \<Rightarrow> bool" where
  "lists_child children x d \<longleftrightarrow> (case children d of Some cs \<Rightarrow> x \<in> set cs | None \<Rightarrow> False)"

lemma first_position_spec:
  "first_position children x ds = Some i \<longleftrightarrow>
   (\<exists>near d far. ds = near @ d # far \<and> filter (lists_child children x) near = []
      \<and> Option.bind (children d) (list_position x) = Some i)"
proof (induction ds)
  case (Cons e ds)
  have split: "(\<exists>near d far. e # ds = near @ d # far \<and> Q near d) \<longleftrightarrow>
      Q [] e \<or> (\<exists>near d far. ds = near @ d # far \<and> Q (e # near) d)" for Q
    by (auto simp: Cons_eq_append_conv)
  have none: "Option.bind (children e) (list_position x) = None \<longleftrightarrow> \<not> lists_child children x e"
    by (auto simp: lists_child_def list_position_none split: option.splits)
  show ?case
    unfolding split using none Cons.IH
    by (cases "Option.bind (children e) (list_position x)") (auto simp: or_else_def)
qed simp

lemma child_relations_none: "child_relations d net cs = None \<longleftrightarrow> \<not> list_all (\<lambda>c. path_below c d) cs"
  by (induction cs) (auto simp: path_below_def Let_def split: option.splits)

section \<open>Correctness\<close>

text \<open>A path is read back from its text form, except the root, whose text form is empty.\<close>

theorem os_path_roundtrip:
  assumes "path_ok p"
  shows "string_to_os_path (os_path_to_string p) = (if p = [[]] then [] else p)"
proof (cases p)
  case (Cons c rest)
  note split = path_split [OF assms]
  show ?thesis
  proof (cases "p = [[]]")
    case False
    have rest: "filter (\<lambda>c. c \<noteq> [] \<and> c \<noteq> ''.'') rest = rest"
      using assms by (intro kept_names) (simp add: path_ok_def Cons)
    have "starts_with (os_path_to_string p) ''/'' \<longleftrightarrow> c = []"
      using assms False
      by (cases rest; cases c) (auto simp: Cons os_path_to_string_def starts_with_def path_ok_def name_ok_def)
    with split rest False assms show ?thesis
      by (auto simp: Cons string_to_os_path_def Let_def path_ok_def name_ok_def)
  qed (simp add: os_path_to_string_def string_to_os_path_def starts_with_def)
qed (simp add: os_path_to_string_def string_to_os_path_def starts_with_def)

text \<open>The children of a network are in strictly increasing order, and they are the networks anywhere below
  it, at any depth, and the documents that are not below a network the walk met before them: a document of
  a network whose index file comes later in the walk is a child of both.\<close>

theorem iter_net_docs_exact:
  "sorted_wrt (<) (map (map component_key) (iter_net_docs codecs F root))
   \<and> set (iter_net_docs codecs F root) =
       (let walk = net_walk F root
        in set (networks_in F root walk)
           \<union> {x. \<exists>before after. walk = before @ x # after \<and> is_doc_file codecs F x
                  \<and> \<not> list_ex (path_below x) (networks_in F root before)})"
proof -
  have "set (net_docs codecs F root [] ps) = set (networks_in F root ps) \<union> {x. \<exists>before after.
      ps = before @ x # after \<and> is_doc_file codecs F x \<and> \<not> list_ex (path_below x) (networks_in F root before)}" for ps
    by (rule set_eqI) (simp add: net_docs_mem)
  then show ?thesis by (simp only: iter_net_docs_def net_walk_def Let_def sorted_dedup simp_thms)
qed

text \<open>The sort key of a document is its first place, truncated to 16 bits, among the children of the nearest
  directory above it that lists it.\<close>

theorem sort_key_for_nearest:
  "sort_key_for F idx p = Some k \<longleftrightarrow>
   (\<exists>lookup near d far cs i.
      (if file_name p = Some NETWORK_NAME then path_parent p else Some p) = Some lookup
    \<and> ancestors lookup = near @ d # far
    \<and> filter (lists_child (children_of F idx) (index_path F lookup)) near = []
    \<and> children_of F idx d = Some cs \<and> i < length cs \<and> cs ! i = index_path F lookup
    \<and> index_path F lookup \<notin> set (take i cs) \<and> k = of_nat i)"
proof -
  have step: "first_position children x ds = Some i \<longleftrightarrow>
      (\<exists>near d far cs. ds = near @ d # far \<and> filter (lists_child children x) near = []
        \<and> children d = Some cs \<and> i < length cs \<and> cs ! i = x \<and> x \<notin> set (take i cs))"
    for ds :: "os_path list" and children and x :: os_path and i
    unfolding first_position_spec by (auto simp: bind_eq_Some_conv list_position_spec)
  show ?thesis
    unfolding sort_key_for_def bind_eq_Some_conv map_option_eq_Some step by blast
qed

text \<open>Building the node of a network panics exactly if one of its children in the index is not below the
  directory, as the canonical path of a symbolic link can be.\<close>

theorem proto_for_panics:
  assumes "detect_network_file F d = Some (dir' @ [NETWORK_NAME])" "fs_front_matter F (dir' @ [NETWORK_NAME]) = Inr (Some proto)"
    and "ir_id X proto \<noteq> None" "children_of F idx dir' = Some cs"
  shows "proto_for X codecs F idx d = None \<longleftrightarrow> \<not> list_all (\<lambda>c. path_below c dir') cs"
proof -
  have "path_parent (dir' @ [NETWORK_NAME]) = Some dir'"
    by (simp add: path_parent_def NETWORK_NAME_def)
  with assms show ?thesis by (auto simp: proto_for_def network_proto_def child_relations_none)
qed

section \<open>Witnesses\<close>

theorem os_path_roundtrip_witness:
  "string_to_os_path (os_path_to_string [[], ''repo'', ''a.md'']) = [[], ''repo'', ''a.md'']"
  using os_path_roundtrip [of "[[], ''repo'', ''a.md'']"] by (simp add: path_ok_def name_ok_def)

text \<open>A file system with fixed entries, in the order of the walk, in which one of them is a link.\<close>

definition listed_files :: "(os_path \<times> os_path) list \<Rightarrow> document \<Rightarrow> file_system" where
  "listed_files entries doc =
     \<lparr>fs_canonical = \<lambda>p. (case map_of entries p of Some c \<Rightarrow> Inr c | None \<Rightarrow> Inl Io),
      fs_is_file = \<lambda>p. p \<in> set (map fst entries), fs_is_dir = \<lambda>p. p \<notin> set (map fst entries),
      fs_exists = \<lambda>p. p \<in> set (map fst entries), fs_walk = \<lambda>d keep. filter keep (map fst entries),
      fs_front_matter = \<lambda>p. Inr (Some (ir_default\<lparr>ir_document := doc\<rparr>))\<rparr>"

abbreviation plain_codecs :: "unit codec_map" where "plain_codecs \<equiv> codec_create () ()"

definition same_files :: "os_path list \<Rightarrow> file_system" where
  "same_files ps = listed_files (map (\<lambda>p. (p, p)) ps) []"

text \<open>The children of a network depend on the order of the directory walk.\<close>

theorem iter_net_docs_walk_order:
  "iter_net_docs plain_codecs (same_files [[[], ''r'', ''s'', ''index.md''], [[], ''r'', ''s'', ''a.md'']]) [[], ''r'']
     = [[[], ''r'', ''s'']]
   \<and> iter_net_docs plain_codecs (same_files [[[], ''r'', ''s'', ''a.md''], [[], ''r'', ''s'', ''index.md'']]) [[], ''r'']
     = [[[], ''r'', ''s''], [[], ''r'', ''s'', ''a.md'']]"
  by code_simp

text \<open>A document of the network \<open>/r\<close> is a link to a file elsewhere.\<close>

definition link_files :: file_system where
  "link_files = listed_files [([[], ''r'', ''index.md''], [[], ''r'', ''index.md'']),
     ([[], ''r'', ''link.md''], [[], ''o'', ''x.md''])] [(''id'', Val (TString ''n''))]"

definition link_index :: proto_index where
  "link_index = (case proto_index_build plain_codecs link_files [[], ''r''] of Inr idx \<Rightarrow> idx | Inl _ \<Rightarrow> proto_index_new)"

lemma link_children: "children_of link_files link_index [[], ''r''] = Some [[[], ''o'', ''x.md'']]"
  by code_simp

theorem proto_for_panics_witness:
  "\<forall>X :: text_ext. proto_for X plain_codecs link_files link_index [[], ''r''] = None"
proof
  fix X :: text_ext
  have found: "detect_network_file link_files [[], ''r''] = Some ([[], ''r''] @ [NETWORK_NAME])" by code_simp
  have front: "fs_front_matter link_files ([[], ''r''] @ [NETWORK_NAME])
      = Inr (Some (ir_default\<lparr>ir_document := [(''id'', Val (TString ''n''))]\<rparr>))"
    by (simp add: link_files_def listed_files_def)
  have named: "ir_id X (ir_default\<lparr>ir_document := [(''id'', Val (TString ''n''))]\<rparr>) \<noteq> None"
    by (simp add: ir_id_def bm_get_def item_text_def to_text_def)
  show "proto_for X plain_codecs link_files link_index [[], ''r''] = None"
    using proto_for_panics [OF found front named link_children, of plain_codecs]
    by (simp add: path_below_def path_strip_def)
qed

end
