(* ===== verification/Parse.thy ===== *)
theory Parse
  imports Contexts NetProps
begin

text \<open>
  Parsing a document (\<open>codec/builder.rs\<close>: \<open>initialize_stack\<close>, its fast path, and \<open>parse_content\<close>): the
  builder opens the networks above the document, pushes its nodes and then its relations, lets the codec
  write what it learned into the nodes, and ends the parse.

  The codecs are a registry of records of their methods, on a state of their own.
\<close>

record ('p, 'c) doc_codec =
  dc_fresh :: 'c
  dc_proto :: "os_path \<Rightarrow> (buildonomy_error + ir_node option) option"
  dc_parse :: "string \<Rightarrow> ir_node \<Rightarrow> 'c \<Rightarrow> parse_diagnostic list
    \<Rightarrow> ((buildonomy_error + 'c) \<times> parse_diagnostic list) option"
  dc_nodes :: "'c \<Rightarrow> ir_node list"
  dc_inject :: "'c \<Rightarrow> ir_node \<Rightarrow> 'p belief_context \<Rightarrow> parse_diagnostic list
    \<Rightarrow> (buildonomy_error + 'c \<times> node option) \<times> parse_diagnostic list"
  dc_finalize :: "'c \<Rightarrow> parse_diagnostic list
    \<Rightarrow> (buildonomy_error + 'c \<times> (ir_node \<times> node) list) \<times> parse_diagnostic list"
  dc_generate :: "'c \<Rightarrow> string option"
  dc_should_defer :: "'c \<Rightarrow> bool"
  dc_generate_html :: "'c \<Rightarrow> buildonomy_error + (string \<times> string) list"

record ('p, 'c) parse_setting =
  ps_builder :: "'p setting"
  ps_codecs :: "('p, 'c) doc_codec codec_map"
  ps_files :: file_system
  ps_index :: proto_index

section \<open>Runs\<close>

definition panic :: "('s, 'x) run" where
  "panic = (\<lambda>s. None)"

definition lift_panic :: "(buildonomy_error + 'x) option \<Rightarrow> ('s, 'x) run" where
  "lift_panic r = (case r of None \<Rightarrow> panic | Some q \<Rightarrow> lift_result q)"

definition with_diagnostics ::
    "(parse_diagnostic list \<Rightarrow> (buildonomy_error + 'x) \<times> parse_diagnostic list) \<Rightarrow> ('p job, 'x) run" where
  "with_diagnostics f = (\<lambda>s. case f (jb_diagnostics s) of (r, ds) \<Rightarrow> Some (s\<lparr>jb_diagnostics := ds\<rparr>, r))"

definition with_diagnostics_or_panic ::
    "(parse_diagnostic list \<Rightarrow> ((buildonomy_error + 'x) \<times> parse_diagnostic list) option) \<Rightarrow> ('p job, 'x) run" where
  "with_diagnostics_or_panic f =
     (\<lambda>s. case f (jb_diagnostics s) of None \<Rightarrow> None | Some (r, ds) \<Rightarrow> Some (s\<lparr>jb_diagnostics := ds\<rparr>, r))"

text \<open>\<open>merge_from\<close> on one of the stores.\<close>

definition merge_into :: "'p setting \<Rightarrow> belief_graph \<Rightarrow> bid list \<Rightarrow> 'p belief_base \<Rightarrow> 'p belief_base" where
  "merge_into C g seeds B = merge_graph (cx_ext C) (cx_ops C) (cx_discover C, cx_tree C) g (Some seeds) B"

definition merge_session :: "'p setting \<Rightarrow> belief_graph \<Rightarrow> bid list \<Rightarrow> ('p job, unit) run" where
  "merge_session C g seeds = modify (\<lambda>s. s\<lparr>gb_session_bb := merge_into C g seeds (gb_session_bb s)\<rparr>)"

definition merge_doc :: "'p setting \<Rightarrow> belief_graph \<Rightarrow> bid list \<Rightarrow> ('p job, unit) run" where
  "merge_doc C g seeds = modify (\<lambda>s. s\<lparr>gb_doc_bb := merge_into C g seeds (gb_doc_bb s)\<rparr>)"

text \<open>\<open>get_async\<close> of the global source.\<close>

definition global_get :: "'p setting \<Rightarrow> node_key \<Rightarrow> buildonomy_error + node option" where
  "global_get C key =
     (case cx_eval_unbalanced C (key_expression key) of
        Inl e \<Rightarrow> Inl e
      | Inr g \<Rightarrow> Inr (get_in C (graph_base C g) key))"

section \<open>Opening a document\<close>

definition reset_doc :: "'p setting \<Rightarrow> ('p job, unit) run" where
  "reset_doc C = modify (\<lambda>s. s\<lparr>gb_stack := [], gb_doc_bb := base_empty (cx_ext C) (cx_build C) (cx_ops C)\<rparr>)"

text \<open>The API node goes into the document, into the session if it is new there, and to the global source.\<close>

definition share_node :: "'p setting \<Rightarrow> node \<Rightarrow> ('p job, unit) run" where
  "share_node C api =
     (let key = KBid (nd_bid api); event = NodeUpdate [key] (node_toml (cx_ops C) api) Remote in
     and_then (run_doc C event) (\<lambda>_.
     and_then (gets (\<lambda>s. get_in C (gb_session_bb s) key)) (\<lambda>known.
     and_then (if known = None then process_session C event else ret []) (\<lambda>_.
     and_then (lift_result (global_get C key)) (\<lambda>known_globally.
     if known_globally = None then send event else ret ())))))"

definition share_api :: "'p setting \<Rightarrow> ('p job, unit) run" where
  "share_api C = and_then (gets (\<lambda>s. bb_api (gb_doc_bb s))) (share_node C)"

definition load_namespace :: "'p setting \<Rightarrow> bid \<Rightarrow> ('p job, unit) run" where
  "load_namespace C ns =
     and_then (lift_result (global_get C (KBid ns))) (\<lambda>found.
       case found of
         None \<Rightarrow> ret ()
       | Some n \<Rightarrow>
           and_then (process_session C (NodeUpdate [KBid ns] (node_toml (cx_ops C) n) Remote)) (\<lambda>_.
           and_then (lift_result (eval (cx_discover C) (cx_eval_unbalanced C) (cx_eval_trace C) (key_expression (KBid ns)))) (\<lambda>g.
           merge_session C g [ns])))"

definition load_namespaces :: "'p setting \<Rightarrow> ('p job, unit) run" where
  "load_namespaces C =
     and_then (gets (\<lambda>s. list_ex (\<lambda>ns. get_in C (gb_session_bb s) (KBid ns) \<noteq> None) content_namespaces)) (\<lambda>loaded.
     if loaded then ret () else for_each (load_namespace C) content_namespaces)"

definition codec_for_path :: "('p, 'c) parse_setting \<Rightarrow> os_path \<Rightarrow> ('p, 'c) doc_codec option" where
  "codec_for_path S path =
     (let string_path = os_path_to_string path
      in codec_get (ps_codecs S)
           (if fs_is_file (ps_files S) path then ap_new_file string_path else ap_new string_path))"

definition initial_proto :: "('p, 'c) parse_setting \<Rightarrow> os_path \<Rightarrow> ('p job, ir_node) run" where
  "initial_proto S abs_path =
     (case codec_for_path S abs_path of
        None \<Rightarrow> fail Codec
      | Some codec \<Rightarrow>
          and_then (lift_panic (dc_proto codec abs_path)) (\<lambda>proto.
          case proto of None \<Rightarrow> fail Codec | Some p \<Rightarrow> ret p))"

section \<open>The fast path\<close>

definition parent_network_dir :: "os_path \<Rightarrow> os_path" where
  "parent_network_dir abs_path =
     (if filename (ap_new (os_path_to_string abs_path)) = NETWORK_NAME then path_pop (path_pop abs_path)
      else path_pop abs_path)"

text \<open>Where the parent network is, and whether to ask the global source for its surroundings.\<close>

definition find_parent :: "'p setting \<Rightarrow> node_key \<Rightarrow> 'p job \<Rightarrow> buildonomy_error + (bid \<times> bool) option" where
  "find_parent C parent_key s =
     (case cache_fetch C s False [parent_key] belief_graph_empty of
        Inl e \<Rightarrow> Inl e
      | Inr (Resolved n StackCache, _) \<Rightarrow> Inr (Some (nd_bid n, False))
      | Inr (Resolved n GlobalCache, _) \<Rightarrow> Inr (Some (nd_bid n, True))
      | Inr _ \<Rightarrow> Inr None)"

text \<open>Only networks go into the document before it is parsed.\<close>

definition ancestors_only :: "belief_graph \<Rightarrow> belief_graph" where
  "ancestors_only g =
     (let ancestor_bids = List.map_filter (\<lambda>(b, n). if kind_is_network (nd_kind n) then Some b else None) (states g)
      in \<lparr>states = filter (\<lambda>(b, _). b \<in> set ancestor_bids) (states g),
          relations = from_edges (filter (\<lambda>e. e_source e \<in> set ancestor_bids \<and> e_sink e \<in> set ancestor_bids)
            (g_edges (relations g)))\<rparr>)"

definition entry_children ::
    "'p setting \<Rightarrow> node_key \<Rightarrow> bid option \<Rightarrow> 'p job \<Rightarrow> buildonomy_error + belief_graph" where
  "entry_children C entry_key entry_bid s =
     (if get_in C (gb_session_bb s) entry_key \<noteq> None then query_base C (gb_session_bb s) (key_query entry_key) True
      else case entry_bid of
          Some b \<Rightarrow> query_global C \<lparr>q_seed = StateIn (PBid [b]), q_traverse = None\<rparr> True
        | None \<Rightarrow> Inr belief_graph_empty)"

fun shorter_orders :: "u16 list \<Rightarrow> u16 list list" where
  "shorter_orders order =
     (if length order \<le> 1 then [] else butlast order # shorter_orders (butlast order))"

declare shorter_orders.simps [simp del]

definition heading_for :: "(bid, node) bmap \<Rightarrow> bid \<Rightarrow> nat" where
  "heading_for sts b =
     (case bm_get sts b of Some n \<Rightarrow> if kind_is_network (nd_kind n) then 1 else 2 | None \<Rightarrow> 1)"

text \<open>The repository, the networks between it and the parent, and the parent.\<close>

definition cached_stack ::
    "(u16 list \<Rightarrow> (bid \<times> string) option) \<Rightarrow> (bid, node) bmap \<Rightarrow> bid \<Rightarrow> string \<Rightarrow> bid
      \<Rightarrow> (u16 list \<times> string) option \<Rightarrow> stack_entry list" where
  "cached_stack at_order sts repo root parent_bid parent_place =
     (let top = (repo, root, heading_for sts repo)
      in case parent_place of
           None \<Rightarrow> [top]
         | Some (parent_order, parent_rel) \<Rightarrow>
             let parent_abs = (if parent_rel = [] then root else root @ ''/'' @ parent_rel);
                 between = rev (List.map_filter (\<lambda>order.
                   map_option (\<lambda>(b, rel). (b, root @ ''/'' @ rel, heading_for sts b)) (at_order order))
                   (shorter_orders parent_order))
             in top # between
                @ (if parent_bid \<noteq> repo then [(parent_bid, parent_abs, heading_for sts parent_bid)] else []))"

text \<open>What the fast path does once it has the parent and its surroundings.\<close>

definition use_parent ::
    "('p, 'c) parse_setting \<Rightarrow> os_path \<Rightarrow> string \<Rightarrow> bid \<Rightarrow> belief_graph \<Rightarrow> ('p job, (ir_node \<times> u16 option) option) run" where
  "use_parent S abs_path entry_rel_path parent_bid fast_missing =
     (let C = ps_builder S; X = cx_ext C; P = cx_ops C in
     and_then (modify (\<lambda>s. s\<lparr>gb_doc_bb := graph_base C (ancestors_only fast_missing)\<rparr>)) (\<lambda>_.
     and_then (merge_session C fast_missing [parent_bid]) (\<lambda>_.
     and_then (gets (\<lambda>s. KPath (bref_of X (gb_repo s)) entry_rel_path)) (\<lambda>entry_key.
     and_then (gets (\<lambda>s. map_option nd_bid
         (or_else (get_in C (graph_base C fast_missing) entry_key) (get_in C (gb_session_bb s) entry_key)))) (\<lambda>entry_bid.
     and_then (gets (entry_children C entry_key entry_bid)) (\<lambda>children.
     and_then (lift_result children) (\<lambda>children_graph.
     and_then (if states children_graph = [] then ret ()
               else case entry_bid of Some b \<Rightarrow> merge_session C children_graph [b] | None \<Rightarrow> ret ()) (\<lambda>_.
     and_then (gets (\<lambda>s. (gb_repo s, os_path_to_string (gb_repo_root s), index_sync (gb_doc_bb s)))) (\<lambda>(repo, root, B).
       case pm_order_in P (bb_paths B) (bref_of X repo) of
         None \<Rightarrow> ret None
       | Some order_of \<Rightarrow>
           and_then (modify (\<lambda>s. s\<lparr>gb_stack :=
               cached_stack (pm_at_order P (bb_paths B) (bref_of X repo)) (bb_states B) repo root parent_bid
                 (order_of parent_bid)\<rparr>)) (\<lambda>_.
           and_then (initial_proto S abs_path) (\<lambda>initial.
           ret (Some (initial, sort_key_for (ps_files S) (ps_index S) abs_path)))))))))))))"

definition try_parent ::
    "('p, 'c) parse_setting \<Rightarrow> os_path \<Rightarrow> string \<Rightarrow> node_key \<Rightarrow> ('p job, (ir_node \<times> u16 option) option) run" where
  "try_parent S abs_path entry_rel_path parent_key =
     (let C = ps_builder S in
     and_then (gets (find_parent C parent_key)) (\<lambda>found.
     and_then (lift_result found) (\<lambda>parent.
       case parent of
         None \<Rightarrow> ret None
       | Some (parent_bid, use_global) \<Rightarrow>
           and_then (gets (\<lambda>s. if use_global then query_global C (key_query parent_key) True
                               else query_base C (gb_session_bb s) (key_query parent_key) True)) (\<lambda>answer.
           and_then (lift_result answer) (use_parent S abs_path entry_rel_path parent_bid)))))"

definition try_session_cache ::
    "('p, 'c) parse_setting \<Rightarrow> os_path \<Rightarrow> ('p job, (ir_node \<times> u16 option) option) run" where
  "try_session_cache S abs_path =
     and_then (gets (\<lambda>s. (path_strip abs_path (gb_repo_root s),
                           path_strip (parent_network_dir abs_path) (gb_repo_root s), gb_repo s)))
       (\<lambda>(maybe_entry, maybe_parent, repo).
       case (maybe_entry, maybe_parent) of
         (Some entry_rel, Some parent_rel) \<Rightarrow>
           try_parent S abs_path (os_path_to_string entry_rel)
             (KPath (bref_of (cx_ext (ps_builder S)) repo) (os_path_to_string parent_rel))
       | _ \<Rightarrow> ret None)"

section \<open>The slow path\<close>

definition parent_dirs :: "os_path \<Rightarrow> os_path \<Rightarrow> os_path list" where
  "parent_dirs root initial_path =
     (let parent_path = (if file_name initial_path = Some NETWORK_NAME then path_pop initial_path else initial_path)
      in rev (takeWhile (\<lambda>p. path_below p root) (ancestors parent_path)))"

definition push_ancestor :: "('p, 'c) parse_setting \<Rightarrow> os_path \<Rightarrow> ('p job, unit) run" where
  "push_ancestor S path =
     (let C = ps_builder S in
     and_then (lift_panic (proto_for (cx_ext C) (ps_codecs S) (ps_files S) (ps_index S) path)) (\<lambda>found.
       case found of
         None \<Rightarrow> ret ()
       | Some state_accum \<Rightarrow>
           and_then (push C state_accum True None) (\<lambda>(ancestor, _).
           and_then (gets jb_missing) (\<lambda>missing.
           and_then (if belief_graph_is_empty missing then ret () else merge_session C missing [ancestor]) (\<lambda>_.
           modify (\<lambda>s. s\<lparr>jb_missing := belief_graph_empty,
             gb_repo := (if path = [] \<and> gb_repo s = nil_bid then ancestor else gb_repo s)\<rparr>))))))"

definition slow_path :: "('p, 'c) parse_setting \<Rightarrow> os_path \<Rightarrow> ('p job, ir_node \<times> u16 option) run" where
  "slow_path S abs_path =
     and_then (initial_proto S abs_path) (\<lambda>initial.
     and_then (modify (\<lambda>s. s\<lparr>jb_missing := belief_graph_empty\<rparr>)) (\<lambda>_.
     and_then (gets gb_repo_root) (\<lambda>root.
     and_then (for_each (push_ancestor S) (parent_dirs root (string_to_os_path (ir_path initial)))) (\<lambda>_.
     ret (initial, sort_key_for (ps_files S) (ps_index S) abs_path)))))"

definition initialize_stack :: "('p, 'c) parse_setting \<Rightarrow> os_path \<Rightarrow> ('p job, ir_node \<times> u16 option) run" where
  "initialize_stack S abs_path =
     (let C = ps_builder S in
     and_then (reset_doc C) (\<lambda>_.
     and_then (share_api C) (\<lambda>_.
     and_then (load_namespaces C) (\<lambda>_.
     and_then (gets gb_repo) (\<lambda>repo.
     and_then (if repo \<noteq> nil_bid then try_session_cache S abs_path else ret None) (\<lambda>cached.
       case cached of Some r \<Rightarrow> ret r | None \<Rightarrow> slow_path S abs_path))))))"

section \<open>Phase 1: the nodes\<close>

text \<open>What the later phases need to know of the nodes.\<close>

record parse_marks =
  mk_new_bids :: bool
  mk_renames :: "(bid, bid) bmap"
  mk_sinks :: "(bid, node_key set) bmap"
  mk_parsed :: "bid list"

definition marks_start :: parse_marks where
  "marks_start = \<lparr>mk_new_bids = False, mk_renames = [], mk_sinks = [], mk_parsed = []\<rparr>"

definition is_other_bid :: "bid \<Rightarrow> node_key \<Rightarrow> bool" where
  "is_other_bid b key = (case key of KBid old_bid \<Rightarrow> old_bid \<noteq> b | _ \<Rightarrow> False)"

text \<open>For every old identity of the node the loop inserts the new one, not the old one, as the key.\<close>

definition note_node :: "bid \<Rightarrow> node_source \<Rightarrow> node_key set \<Rightarrow> parse_marks \<Rightarrow> parse_marks" where
  "note_node b source unique_oldkeys m =
     (let m = (if \<not> is_from_cache source then m\<lparr>mk_new_bids := mk_new_bids m \<or> source = Generated\<rparr>
               else if unique_oldkeys \<noteq> {} then
                 m\<lparr>mk_renames := (if \<exists>key \<in> unique_oldkeys. is_other_bid b key then bm_insert b b (mk_renames m)
                                 else mk_renames m),
                   mk_sinks := bm_insert b unique_oldkeys (mk_sinks m)\<rparr>
               else m)
      in m\<lparr>mk_parsed := mk_parsed m @ [b]\<rparr>)"

definition merge_missing :: "'p setting \<Rightarrow> bid \<Rightarrow> node_source \<Rightarrow> ('p job, unit) run" where
  "merge_missing C b source =
     and_then (gets jb_missing) (\<lambda>missing.
     if belief_graph_is_empty missing then ret ()
     else
       and_then (merge_session C missing [b]) (\<lambda>_.
       and_then (if is_from_cache source then ret () else merge_doc C missing [b]) (\<lambda>_.
       modify (\<lambda>s. s\<lparr>jb_missing := belief_graph_empty\<rparr>))))"

text \<open>Only the first node gets the sort key of the document.\<close>

fun parse_nodes :: "'p setting \<Rightarrow> u16 option \<Rightarrow> ir_node list \<Rightarrow> parse_marks \<Rightarrow> ('p job, parse_marks) run" where
  "parse_nodes C entry_sort_key [] m = ret m"
| "parse_nodes C entry_sort_key (proto # rest) m =
     and_then (push C proto False entry_sort_key) (\<lambda>(b, source, _, unique_oldkeys).
     and_then (merge_missing C b source) (\<lambda>_.
     parse_nodes C None rest (note_node b source unique_oldkeys m)))"

section \<open>Phase 2: the relations\<close>

text \<open>The nodes of links to the outside count as parsed.\<close>

definition note_relation ::
    "'a id_ext_scheme \<Rightarrow> direction \<Rightarrow> get_or_create \<Rightarrow> bid list \<Rightarrow> ('p job, bid list) run" where
  "note_relation X d result generated =
     (case result of
        Resolved n source \<Rightarrow>
          ret (if source \<noteq> Generated then generated
               else
                 let generated = generated @ [nd_bid n]
                 in case (if d = Incoming then find (\<lambda>ns. parent_bref (nd_bid n) = bref_of X ns) content_namespaces
                          else None) of
                      Some ns \<Rightarrow> if ns \<in> set generated then generated else generated @ [ns]
                    | None \<Rightarrow> generated)
      | NotResolved unresolved \<Rightarrow>
          and_then (modify (\<lambda>s. s\<lparr>jb_diagnostics := jb_diagnostics s @ [Unresolved unresolved]\<rparr>)) (\<lambda>_.
          ret generated))"

fun push_relations ::
    "'p setting \<Rightarrow> string \<Rightarrow> bid \<Rightarrow> direction \<Rightarrow> nat \<Rightarrow> intermediate_relation list \<Rightarrow> bid list
      \<Rightarrow> ('p job, bid list) run" where
  "push_relations C content b d index [] generated = ret generated"
| "push_relations C content b d index (relation # rest) generated =
     and_then (push_relation C relation b d index content) (\<lambda>result.
     and_then (note_relation (cx_ext C) d result generated) (\<lambda>generated.
     push_relations C content b d (Suc index) rest generated))"

fun relate_nodes :: "'p setting \<Rightarrow> string \<Rightarrow> (ir_node \<times> bid) list \<Rightarrow> bid list \<Rightarrow> ('p job, bid list) run" where
  "relate_nodes C content [] generated = ret generated"
| "relate_nodes C content ((proto, b) # rest) generated =
     and_then (push_relations C content b Incoming 0 (ir_upstream proto) generated) (\<lambda>generated.
     and_then (push_relations C content b Outgoing 0 (ir_downstream proto) generated) (\<lambda>generated.
     relate_nodes C content rest generated))"

definition settle_relations :: "'p setting \<Rightarrow> bid list \<Rightarrow> ('p job, unit) run" where
  "settle_relations C parsed_bids =
     and_then (gets jb_missing) (\<lambda>missing.
     and_then (if belief_graph_is_empty missing then ret ()
               else
                 and_then (merge_session C missing (bs_from_list parsed_bids)) (\<lambda>_.
                 merge_doc C missing (bs_from_list parsed_bids))) (\<lambda>_.
     and_then (gets jb_queue) (\<lambda>queue.
     and_then (modify (\<lambda>s. s\<lparr>jb_queue := []\<rparr>)) (\<lambda>_.
     for_each (run_doc C) queue))))"

section \<open>Phase 3: the documents that refer to changed names\<close>

text \<open>The result is logged and otherwise not used.\<close>

definition sink_documents :: "('p, 'c) builder_ops_scheme \<Rightarrow> 'p belief_base \<Rightarrow> bid \<Rightarrow> (string \<times> bid) list" where
  "sink_documents P B source_bid =
     (if source_bid \<in> set (bb_index B) then
        map (\<lambda>(path, b, _). (path, b))
          (sort_by (\<lambda>x y. compare (snd (snd x)) (snd (snd y)))
            (List.map_filter (pm_doc P (bb_paths B)) (walk_edges P (g_edges (bb_relations B)) source_bid Outgoing)))
      else [])"

definition affected_documents ::
    "('p, 'c) builder_ops_scheme \<Rightarrow> 'p belief_base \<Rightarrow> string \<Rightarrow> (bid, node_key set) bmap \<Rightarrow> (string \<times> bid) list" where
  "affected_documents P B doc_path check_sinks =
     fold (\<lambda>(source_bid, _) docs.
       fold (\<lambda>doc_id docs. if fst doc_id = doc_path \<or> doc_id \<in> set docs then docs else docs @ [doc_id])
         (sink_documents P (index_sync B) source_bid) docs) check_sinks []"

section \<open>Phase 4: what the codec writes back\<close>

definition update_node :: "'p setting \<Rightarrow> node \<Rightarrow> ('p job, unit) run" where
  "update_node C n = run_doc C (NodeUpdate [KBid (nd_bid n)] (node_toml (cx_ops C) n) Remote)"

definition inject_node ::
    "'p setting \<Rightarrow> ('p, 'c) doc_codec \<Rightarrow> ir_node \<Rightarrow> bid \<Rightarrow> 'c \<times> bool \<Rightarrow> ('p job, 'c \<times> bool) run" where
  "inject_node C codec proto b st = (\<lambda>s.
     case get_context (cx_ext C) (cx_ops C) (gb_doc_bb s) (gb_repo s) b of
       Some (Some ctx) \<Rightarrow>
         and_then (with_diagnostics (dc_inject codec (fst st) proto ctx)) (\<lambda>(c, updated).
           case updated of
             None \<Rightarrow> ret (c, snd st)
           | Some n \<Rightarrow>
               if node_toml (cx_ops C) (bc_node ctx) \<noteq> node_toml (cx_ops C) n
               then and_then (update_node C n) (\<lambda>_. ret (c, True)) else ret (c, snd st)) s
     | _ \<Rightarrow> None)"

fun inject_nodes ::
    "'p setting \<Rightarrow> ('p, 'c) doc_codec \<Rightarrow> (ir_node \<times> bid) list \<Rightarrow> 'c \<times> bool \<Rightarrow> ('p job, 'c \<times> bool) run" where
  "inject_nodes C codec [] st = ret st"
| "inject_nodes C codec ((proto, b) # rest) st =
     and_then (inject_node C codec proto b st) (inject_nodes C codec rest)"

fun finalize_nodes :: "'p setting \<Rightarrow> node list \<Rightarrow> bool \<Rightarrow> ('p job, bool) run" where
  "finalize_nodes C [] is_changed = ret is_changed"
| "finalize_nodes C (n # rest) is_changed =
     and_then (gets (\<lambda>s. map_option (node_toml (cx_ops C)) (bm_get (bb_states (gb_doc_bb s)) (nd_bid n)))) (\<lambda>old_toml.
     if Some (node_toml (cx_ops C) n) \<noteq> old_toml
     then and_then (update_node C n) (\<lambda>_. finalize_nodes C rest True)
     else finalize_nodes C rest is_changed)"

text \<open>New identities are written even if the text stays the same.\<close>

definition new_content :: "bool \<Rightarrow> bool \<Rightarrow> string \<Rightarrow> string option \<Rightarrow> string option" where
  "new_content is_changed has_new_bids content generated =
     (if is_changed \<or> has_new_bids then
        (case generated of
           Some text \<Rightarrow> if text \<noteq> content \<or> has_new_bids then Some text else None
         | None \<Rightarrow> None)
      else None)"

section \<open>Parsing a document\<close>

record ('p, 'c) parse_result =
  pr_rewritten :: "string option"
  pr_diagnostics :: "parse_diagnostic list"
  pr_codec :: "('p, 'c) doc_codec \<times> 'c"
  pr_repo_bid :: bid
  pr_repo_node :: "node option"

definition parse_with ::
    "'p setting \<Rightarrow> ('p, 'c) doc_codec \<Rightarrow> string \<Rightarrow> ir_node \<Rightarrow> u16 option \<Rightarrow> ('p job, 'c \<times> parse_marks \<times> bid list \<times> string option) run" where
  "parse_with C codec content initial doc_sort_key =
     and_then (with_diagnostics_or_panic (dc_parse codec content initial (dc_fresh codec))) (\<lambda>c.
     and_then (parse_nodes C doc_sort_key (dc_nodes codec c) marks_start) (\<lambda>marks.
     and_then (relate_nodes C content (zip (dc_nodes codec c) (mk_parsed marks)) []) (\<lambda>generated.
       let parsed_bids = mk_parsed marks @ generated in
     and_then (settle_relations C parsed_bids) (\<lambda>_.
     and_then (inject_nodes C codec (zip (dc_nodes codec c) parsed_bids) (c, False)) (\<lambda>(c, injected).
     and_then (with_diagnostics (dc_finalize codec c)) (\<lambda>(c, finalized).
     and_then (finalize_nodes C (map snd finalized) injected) (\<lambda>is_changed.
     ret (c, marks, parsed_bids, new_content is_changed (mk_new_bids marks) content (dc_generate codec c)))))))))"

definition doc_codec_for :: "('p, 'c) parse_setting \<Rightarrow> ir_node \<Rightarrow> ('p, 'c) doc_codec option" where
  "doc_codec_for S initial =
     codec_get (ps_codecs S) (if Network \<in> ir_kind initial then ap_new_dir (ir_path initial) else ap_new (ir_path initial))"

definition parse_content ::
    "('p, 'c) parse_setting \<Rightarrow> os_path \<Rightarrow> string \<Rightarrow> ('p job, ('p, 'c) parse_result) run" where
  "parse_content S input_path content =
     (let C = ps_builder S in
     and_then (lift_result (fs_canonical (ps_files S) input_path)) (\<lambda>_.
     and_then (initialize_stack S input_path) (\<lambda>(initial, doc_sort_key).
     and_then (modify (\<lambda>s. s\<lparr>jb_missing := belief_graph_empty, jb_queue := [], jb_diagnostics := []\<rparr>)) (\<lambda>_.
       case doc_codec_for S initial of
         None \<Rightarrow> fail Codec
       | Some codec \<Rightarrow>
           and_then (parse_with C codec content initial doc_sort_key) (\<lambda>(c, marks, parsed_bids, rewritten).
           and_then (terminate_stack C (mk_renames marks) (bs_from_list parsed_bids)) (\<lambda>_.
           gets (\<lambda>s. \<lparr>pr_rewritten = rewritten, pr_diagnostics = jb_diagnostics s, pr_codec = (codec, c),
             pr_repo_bid = gb_repo s,
             pr_repo_node = (if gb_repo s \<noteq> nil_bid then bm_get (bb_states (gb_session_bb s)) (gb_repo s)
                             else None)\<rparr>)))))))"

end
