(* ===== verification/Compiler.thy ===== *)
theory Compiler
  imports Parse
begin

text \<open>
  The document compiler (\<open>codec/compiler.rs\<close>): two queues of files, those to be parsed and those to be parsed
  again because a reference in them was not resolved, and the loop that drains them with the builder.

  What a parse finds outside the program (files, the global source, the clock of the file system) is one
  record \<open>world\<close> per parse; asynchrony and logging are left out.
\<close>

section \<open>State\<close>

record html_options =
  ho_dir :: os_path
  ho_script :: "string option"
  ho_base_url :: "string option"

record 'p compiler =
  cp_write :: bool
  cp_jobs :: nat
  cp_html :: "html_options option"
  cp_builder :: "'p job"
  cp_index :: proto_index
  cp_primary :: "os_path list"
  cp_reparse :: "os_path list"
  cp_pending :: "(os_path, os_path list) bmap"
  cp_processed :: "(os_path, nat) bmap"
  cp_max_reparse :: nat
  cp_updates :: "bref list"
  cp_stable :: bool
  cp_deferred :: "os_path list"

record parse_report =
  rp_path :: os_path
  rp_rewritten :: "string option"
  rp_dependents :: "(string \<times> bref) list"
  rp_diagnostics :: "parse_diagnostic list"

text \<open>
  Reading a file, the hash of its bytes, writing a file, the page template, the static assets and the shell
  page, the times of modification in the global source and in the file system, and how errors and keys
  are written in messages.
\<close>

record ('p, 'c) world =
  wd_setting :: "('p, 'c) parse_setting"
  wd_read :: "os_path \<Rightarrow> buildonomy_error + string"
  wd_hash :: "os_path \<Rightarrow> buildonomy_error + string"
  wd_write :: "os_path \<Rightarrow> string \<Rightarrow> buildonomy_error + unit"
  wd_template :: string
  wd_assets :: "buildonomy_error + unit"
  wd_spa_shell :: "'p job \<Rightarrow> buildonomy_error + unit"
  wd_mtimes :: "buildonomy_error + (os_path, int) bmap"
  wd_modified :: "os_path \<Rightarrow> (buildonomy_error + int) option"
  wd_error_text :: "buildonomy_error \<Rightarrow> string"
  wd_key_text :: "node_key \<Rightarrow> string"

abbreviation files_of :: "('p, 'c) world \<Rightarrow> file_system" where
  "files_of W \<equiv> ps_files (wd_setting W)"

definition setting_of :: "('p, 'c) world \<Rightarrow> 'p compiler \<Rightarrow> ('p, 'c) parse_setting" where
  "setting_of W s = (wd_setting W)\<lparr>ps_index := cp_index s\<rparr>"

definition with_builder :: "('p job, 'x) run \<Rightarrow> ('p compiler, 'x) run" where
  "with_builder m = (\<lambda>s. map_option (\<lambda>(b, r). (s\<lparr>cp_builder := b\<rparr>, r)) (m (cp_builder s)))"

text \<open>An error as a value.\<close>

definition attempt :: "('s, 'x) run \<Rightarrow> ('s, buildonomy_error + 'x) run" where
  "attempt m = (\<lambda>s. map_option (\<lambda>(s, r). (s, Inr r)) (m s))"

definition open_job :: "'p graph_builder \<Rightarrow> belief_event list \<Rightarrow> bool \<Rightarrow> nat \<Rightarrow> 'p job" where
  "open_job b tx is_open now =
     \<lparr>gb_doc_bb = gb_doc_bb b, gb_repo = gb_repo b, gb_repo_root = gb_repo_root b, gb_stack = gb_stack b,
      gb_session_bb = gb_session_bb b, gb_tx = tx, gb_tx_open = is_open, jb_missing = belief_graph_empty,
      jb_queue = [], jb_diagnostics = [], jb_clock = now\<rparr>"

definition compiler_new ::
    "('p, 'c) world \<Rightarrow> os_path \<Rightarrow> nat option \<Rightarrow> bool \<Rightarrow> html_options option \<Rightarrow> nat option \<Rightarrow> nat option
      \<Rightarrow> buildonomy_error + 'p compiler" where
  "compiler_new W entry_point max_reparse_count write html jobs env_jobs =
     (let S = wd_setting W; C = ps_builder S; F = ps_files S
      in case (if html = None then Inr () else wd_assets W) of
           Inl e \<Rightarrow> Inl e
         | Inr () \<Rightarrow>
             (case fs_canonical F entry_point of
                Inl e \<Rightarrow> Inl e
              | Inr canonical \<Rightarrow>
                  let entry_path = index_path F canonical
                  in case builder_new (cx_ext C) (cx_build C) (cx_ops C) F entry_path of
                       Inl e \<Rightarrow> Inl e
                     | Inr b \<Rightarrow>
                         Inr \<lparr>cp_write = write,
                           cp_jobs = unwrap_or (or_else jobs (Option.bind env_jobs (\<lambda>n. if n > 0 then Some n else None))) 1,
                           cp_html = html, cp_builder = open_job b [] True 0,
                           cp_index = (case proto_index_build (ps_codecs S) F (gb_repo_root b) of
                             Inr idx \<Rightarrow> idx | Inl _ \<Rightarrow> proto_index_new),
                           cp_primary = [entry_path], cp_reparse = [], cp_pending = [], cp_processed = [],
                           cp_max_reparse = unwrap_or max_reparse_count 3, cp_updates = [], cp_stable = False,
                           cp_deferred = []\<rparr>))"

section \<open>Queues\<close>

definition normalize_queue_path :: "file_system \<Rightarrow> os_path \<Rightarrow> os_path" where
  "normalize_queue_path F path =
     string_to_os_path (os_path_to_string (case fs_canonical F path of Inr p \<Rightarrow> p | Inl _ \<Rightarrow> path))"

definition queued :: "os_path \<Rightarrow> 'p compiler \<Rightarrow> bool" where
  "queued path s \<longleftrightarrow> path \<in> set (cp_primary s) \<or> path \<in> set (cp_reparse s)"

definition enqueue :: "file_system \<Rightarrow> os_path \<Rightarrow> 'p compiler \<Rightarrow> 'p compiler" where
  "enqueue F path s =
     (let path = normalize_queue_path F path
      in if queued path s then s else s\<lparr>cp_primary := cp_primary s @ [path]\<rparr>)"

definition enqueue_front :: "file_system \<Rightarrow> os_path \<Rightarrow> 'p compiler \<Rightarrow> 'p compiler" where
  "enqueue_front F path s =
     (let path = normalize_queue_path F path;
          s = s\<lparr>cp_reparse := filter (\<lambda>p. p \<noteq> path) (cp_reparse s)\<rparr>
      in if path \<in> set (cp_primary s) then s else s\<lparr>cp_primary := path # cp_primary s\<rparr>)"

definition remove_from_queues :: "os_path \<Rightarrow> 'p compiler \<Rightarrow> 'p compiler" where
  "remove_from_queues path s =
     s\<lparr>cp_primary := filter (\<lambda>p. p \<noteq> path) (cp_primary s), cp_reparse := filter (\<lambda>p. p \<noteq> path) (cp_reparse s)\<rparr>"

definition on_file_modified :: "file_system \<Rightarrow> os_path \<Rightarrow> 'p compiler \<Rightarrow> 'p compiler" where
  "on_file_modified F path s = enqueue_front F path (s\<lparr>cp_processed := bm_remove path (cp_processed s)\<rparr>)"

definition on_file_deleted :: "os_path \<Rightarrow> 'p compiler \<Rightarrow> 'p compiler" where
  "on_file_deleted path s =
     (let s = remove_from_queues path s
      in s\<lparr>cp_processed := bm_remove path (cp_processed s), cp_pending := bm_remove path (cp_pending s)\<rparr>)"

definition reset_processed :: "os_path \<Rightarrow> 'p compiler \<Rightarrow> 'p compiler" where
  "reset_processed path s =
     s\<lparr>cp_processed := bm_remove path (cp_processed s), cp_pending := bm_remove path (cp_pending s)\<rparr>"

definition clear_processed :: "'p compiler \<Rightarrow> 'p compiler" where
  "clear_processed s = s\<lparr>cp_processed := [], cp_pending := []\<rparr>"

definition has_pending :: "'p compiler \<Rightarrow> bool" where
  "has_pending s \<longleftrightarrow> cp_primary s \<noteq> [] \<or> cp_reparse s \<noteq> []"

definition get_parse_count :: "os_path \<Rightarrow> 'p compiler \<Rightarrow> nat" where
  "get_parse_count path s = unwrap_or (bm_get (cp_processed s) path) 0"

record compiler_stats =
  st_primary_queue_len :: nat
  st_reparse_queue_len :: nat
  st_processed_count :: nat
  st_pending_dependencies_count :: nat
  st_total_parses :: nat

definition stats :: "'p compiler \<Rightarrow> compiler_stats" where
  "stats s =
     \<lparr>st_primary_queue_len = length (cp_primary s), st_reparse_queue_len = length (cp_reparse s),
      st_processed_count = length (cp_processed s), st_pending_dependencies_count = length (cp_pending s),
      st_total_parses = sum_list (map snd (cp_processed s))\<rparr>"

definition total_queue_len :: "'p compiler \<Rightarrow> nat" where
  "total_queue_len s = length (cp_primary s) + length (cp_reparse s)"

section \<open>Rounds of the second queue\<close>

definition update_refs :: "'a id_ext_scheme \<Rightarrow> node_key \<Rightarrow> bref list" where
  "update_refs X key =
     (case key of
        KBid b \<Rightarrow> [bref_of X b]
      | KBref _ \<Rightarrow> []
      | KPath net _ \<Rightarrow> if net \<noteq> bref_default X then [net] else []
      | KId net _ \<Rightarrow> if net \<noteq> bref_default X then [net] else [])"

definition on_belief_event :: "'a id_ext_scheme \<Rightarrow> belief_event \<Rightarrow> 'p compiler \<Rightarrow> 'p compiler" where
  "on_belief_event X event s =
     (case event of
        NodeUpdate ks _ _ \<Rightarrow>
          s\<lparr>cp_updates := fold bs_insert (concat (map (update_refs X) ks)) (cp_updates s), cp_stable := False\<rparr>
      | PathAdded _ _ b _ _ \<Rightarrow> s\<lparr>cp_updates := bs_insert (bref_of X b) (cp_updates s), cp_stable := False\<rparr>
      | PathUpdate _ _ b _ _ \<Rightarrow> s\<lparr>cp_updates := bs_insert (bref_of X b) (cp_updates s), cp_stable := False\<rparr>
      | NodesRemoved bids _ \<Rightarrow> s\<lparr>cp_updates := filter (\<lambda>r. r \<notin> set (map (bref_of X) bids)) (cp_updates s)\<rparr>
      | _ \<Rightarrow> s)"

definition start_reparse_round :: "'p compiler \<Rightarrow> 'p compiler" where
  "start_reparse_round s =
     (if cp_primary s = [] \<and> cp_reparse s \<noteq> []
      then s\<lparr>cp_updates := [], cp_stable := (if cp_updates s = [] then True else cp_stable s)\<rparr>
      else s)"

definition unresolved_count :: "'p compiler \<Rightarrow> os_path \<Rightarrow> nat" where
  "unresolved_count s path =
     length (filter (\<lambda>d. \<not> bm_contains (cp_processed s) d) (unwrap_or (bm_get (cp_pending s) path) []))"

text \<open>\<open>min_by_key\<close>: the first of the least.\<close>

fun first_min :: "('x \<Rightarrow> nat) \<Rightarrow> 'x list \<Rightarrow> 'x option" where
  "first_min f [] = None"
| "first_min f (x # xs) =
     (case first_min f xs of None \<Rightarrow> Some x | Some y \<Rightarrow> if f y < f x then Some y else Some x)"

definition peek_next_reparse_candidate :: "'p compiler \<Rightarrow> os_path option" where
  "peek_next_reparse_candidate s =
     (if cp_reparse s = [] \<or> cp_primary s = [] \<and> cp_stable s \<and> cp_updates s = [] then None
      else first_min (unresolved_count s) (cp_reparse s))"

section \<open>References of a parsed file\<close>

text \<open>\<open>Path::join\<close>: an absolute path replaces the first one, a leading \<open>.\<close> vanishes behind another component.\<close>

definition path_join :: "os_path \<Rightarrow> os_path \<Rightarrow> os_path" where
  "path_join p q =
     (case q of
        [] \<Rightarrow> p
      | c # rest \<Rightarrow> if c = [] then q else if c = ''.'' \<and> p \<noteq> [] then p @ rest else p @ q)"

definition push_primary :: "os_path \<Rightarrow> 'p compiler \<Rightarrow> 'p compiler" where
  "push_primary path s =
     (if bm_contains (cp_processed s) path \<or> queued path s then s else s\<lparr>cp_primary := cp_primary s @ [path]\<rparr>)"

definition push_reparse :: "os_path \<Rightarrow> 'p compiler \<Rightarrow> 'p compiler" where
  "push_reparse path s =
     (if path \<in> set (cp_reparse s) then s else s\<lparr>cp_reparse := cp_reparse s @ [path], cp_stable := False\<rparr>)"

definition asset_key :: "'a id_ext_scheme \<Rightarrow> node_key \<Rightarrow> string option" where
  "asset_key X key =
     (case key of KPath net path \<Rightarrow> if net = bref_of X asset_namespace then Some path else None | _ \<Rightarrow> None)"

text \<open>A file that is referred to but is not a document: it is read, and the document again after it.\<close>

definition process_asset_reference ::
    "('p, 'c) world \<Rightarrow> os_path \<Rightarrow> unresolved_reference \<Rightarrow> 'p compiler \<Rightarrow> 'p compiler" where
  "process_asset_reference W path unresolved s =
     (let C = ps_builder (wd_setting W); X = cx_ext C
      in case find_map (asset_key X) (ur_other_keys unresolved) of
           None \<Rightarrow> s
         | Some asset_path \<Rightarrow>
             let repo_root = os_path_to_string (gb_repo_root (cp_builder s));
                 absolute_path = normalize_queue_path (files_of W)
                   (string_to_os_path (ap_path (join X (ap_new repo_root) asset_path)));
                 s = push_primary absolute_path s;
                 tracked = pm_net_path (cx_ops C) (bb_paths (index_sync (gb_session_bb (cp_builder s))))
                   (bref_of X asset_namespace) asset_path
             in if tracked = None then push_reparse path s else s)"

definition note_dependency :: "os_path \<Rightarrow> os_path \<Rightarrow> 'p compiler \<Rightarrow> 'p compiler" where
  "note_dependency path dep s =
     (let s = push_primary dep s
      in s\<lparr>cp_pending := bm_insert path (unwrap_or (bm_get (cp_pending s) path) [] @ [dep]) (cp_pending s)\<rparr>)"

text \<open>
  A document that is referred to: found through the network it is named in. A session without the root
  network panics.
\<close>

definition dependency_path :: "('p, 'c) world \<Rightarrow> string \<Rightarrow> bref \<Rightarrow> 'p compiler \<Rightarrow> os_path option option" where
  "dependency_path W dep net_ref s =
     (let C = ps_builder (wd_setting W); X = cx_ext C; P = cx_ops C; b = cp_builder s;
          paths = bb_paths (index_sync (gb_session_bb b))
      in case pm_path_in P paths (bref_of X (gb_repo b)) of
           None \<Rightarrow> None
         | Some path_of \<Rightarrow>
             Some (case find (\<lambda>net. bref_of X net = net_ref) (pm_nets P paths) of
                None \<Rightarrow> None
              | Some net \<Rightarrow>
                  (case path_of net of
                     None \<Rightarrow> None
                   | Some (_, local_path, _) \<Rightarrow>
                       let full = path_join (gb_repo_root b) (string_to_os_path (ap_path (join X (ap_new local_path) dep)))
                       in (case fs_canonical (files_of W) full of
                             Inl _ \<Rightarrow> None
                           | Inr p \<Rightarrow> Some (normalize_queue_path (files_of W) p)))))"

definition process_unresolved_reference ::
    "('p, 'c) world \<Rightarrow> os_path \<Rightarrow> string \<Rightarrow> bref \<Rightarrow> ('p compiler, unit) run" where
  "process_unresolved_reference W path dep net_ref = (\<lambda>s.
     case dependency_path W dep net_ref s of
       None \<Rightarrow> None
     | Some None \<Rightarrow> Some (s, Inr ())
     | Some (Some canonical) \<Rightarrow> Some (note_dependency path canonical s, Inr ()))"

definition settle_reference ::
    "('p, 'c) world \<Rightarrow> os_path \<Rightarrow> unresolved_reference \<Rightarrow> (string \<times> bref) list
      \<Rightarrow> ('p compiler, (string \<times> bref) list) run" where
  "settle_reference W path u deps =
     (if list_ex (\<lambda>key. asset_key (cx_ext (ps_builder (wd_setting W))) key \<noteq> None) (ur_other_keys u)
      then and_then (modify (process_asset_reference W path u)) (\<lambda>_. ret deps)
      else case as_unresolved_source u of
          None \<Rightarrow> ret deps
        | Some (dep, net) \<Rightarrow>
            and_then (process_unresolved_reference W path dep net) (\<lambda>_. ret (deps @ [(dep, net)])))"

fun settle_each ::
    "('p, 'c) world \<Rightarrow> os_path \<Rightarrow> unresolved_reference list \<Rightarrow> (string \<times> bref) list
      \<Rightarrow> ('p compiler, (string \<times> bref) list) run" where
  "settle_each W path [] deps = ret deps"
| "settle_each W path (u # us) deps = and_then (settle_reference W path u deps) (settle_each W path us)"

definition settle_references ::
    "('p, 'c) world \<Rightarrow> os_path \<Rightarrow> unresolved_reference list \<Rightarrow> ('p compiler, (string \<times> bref) list) run" where
  "settle_references W path us =
     and_then (modify (\<lambda>s. if us \<noteq> [] then push_reparse path s else s)) (\<lambda>_.
     and_then (settle_each W path us []) (\<lambda>deps.
     and_then (modify (\<lambda>s. if us = [] then s\<lparr>cp_pending := bm_remove path (cp_pending s)\<rparr> else s)) (\<lambda>_.
     ret deps)))"

section \<open>What a parse writes\<close>

definition fragment_html ::
    "'a id_ext_scheme \<Rightarrow> html_options \<Rightarrow> string \<Rightarrow> os_path \<Rightarrow> string \<Rightarrow> string \<Rightarrow> bid \<Rightarrow> string" where
  "fragment_html X options template rel_path html_body title b =
     (let spa_route = ''/#/'' @ os_path_to_string rel_path;
          canonical_url = (case ho_base_url options of
            Some base \<Rightarrow> rev (dropWhile (\<lambda>c. c = CHR ''/'') (rev base)) @ spa_route | None \<Rightarrow> spa_route);
          html = str_replace ''{{BODY}}'' html_body template;
          html = str_replace ''{{CANONICAL}}'' canonical_url html;
          html = str_replace ''{{SPA_ROUTE}}'' spa_route html;
          html = str_replace ''{{TITLE}}'' title html;
          html = str_replace ''{{BID}}'' (bid_display X b) html
      in str_replace ''{{SCRIPT}}''
           (case ho_script options of Some script \<Rightarrow> ''<script>'' @ script @ ''</script>'' | None \<Rightarrow> []) html)"

definition write_fragment ::
    "('p, 'c) world \<Rightarrow> html_options \<Rightarrow> os_path \<Rightarrow> string \<Rightarrow> string \<Rightarrow> bid \<Rightarrow> buildonomy_error + unit" where
  "write_fragment W options rel_path html_body title b =
     wd_write W (path_join (ho_dir options @ [''pages'']) rel_path)
       (fragment_html (cx_ext (ps_builder (wd_setting W))) options (wd_template W) rel_path html_body title b)"

definition page_head :: "'a id_ext_scheme \<Rightarrow> ir_node list \<Rightarrow> bid \<times> string" where
  "page_head X nodes =
     (case nodes of
        [] \<Rightarrow> (nil_bid, ''No doc node found'')
      | proto # _ \<Rightarrow>
          (unwrap_or (Option.bind (Option.bind (bm_get (ir_document proto) ''bid'') item_text) (ok_of \<circ> bid_try_from X)) nil_bid,
           unwrap_or (Option.bind (bm_get (ir_document proto) ''title'') item_text) ''Untitled''))"

definition html_warnings ::
    "('p, 'c) world \<Rightarrow> 'p compiler \<Rightarrow> os_path \<Rightarrow> ('p, 'c) doc_codec \<times> 'c \<Rightarrow> parse_diagnostic list" where
  "html_warnings W s file_path codec =
     (case cp_html s of
        None \<Rightarrow> []
      | Some options \<Rightarrow>
          (case page_head (cx_ext (ps_builder (wd_setting W))) (dc_nodes (fst codec) (snd codec)) of
             (b, title) \<Rightarrow>
               (case dc_generate_html (fst codec) (snd codec) of
                  Inl e \<Rightarrow> [warning (''Failed to generate HTML: '' @ wd_error_text W e)]
                | Inr fragments \<Rightarrow>
                    let relative = unwrap_or (path_strip file_path (gb_repo_root (cp_builder s))) file_path;
                        base_dir = unwrap_or (path_parent relative) []
                    in List.map_filter (\<lambda>(filename, html_body).
                         let rel_path = path_join base_dir (string_to_os_path filename)
                         in case write_fragment W options rel_path html_body title b of
                              Inr () \<Rightarrow> None
                            | Inl e \<Rightarrow> Some (warning (''Failed to write HTML fragment '' @ os_path_to_string rel_path
                                @ '': '' @ wd_error_text W e))) fragments)))"

definition write_warnings ::
    "('p, 'c) world \<Rightarrow> 'p compiler \<Rightarrow> os_path \<Rightarrow> string option \<Rightarrow> parse_diagnostic list" where
  "write_warnings W s file_path rewritten =
     (case rewritten of
        Some contents \<Rightarrow>
          if cp_write s then
            (case wd_write W file_path contents of
               Inr () \<Rightarrow> []
             | Inl e \<Rightarrow> [warning (''Failed to write rewritten content: '' @ wd_error_text W e)])
          else []
      | None \<Rightarrow> [])"

text \<open>What follows a successful parse, whether it was one of a batch or not.\<close>

definition finish_parse ::
    "('p, 'c) world \<Rightarrow> os_path \<Rightarrow> os_path \<Rightarrow> ('p, 'c) parse_result \<Rightarrow> ('p compiler, parse_report) run" where
  "finish_parse W path file_path res =
     and_then (gets (\<lambda>s. pr_diagnostics res @ write_warnings W s file_path (pr_rewritten res)
        @ html_warnings W s file_path (pr_codec res))) (\<lambda>ds.
     and_then (modify (\<lambda>s. if cp_html s \<noteq> None \<and> dc_should_defer (fst (pr_codec res)) (snd (pr_codec res))
        then s\<lparr>cp_deferred := bs_insert path (cp_deferred s)\<rparr> else s)) (\<lambda>_.
     and_then (settle_references W path (List.map_filter as_unresolved_reference ds)) (\<lambda>deps.
     ret \<lparr>rp_path = path, rp_rewritten = pr_rewritten res, rp_dependents = deps, rp_diagnostics = ds\<rparr>)))"

definition brief_report :: "os_path \<Rightarrow> parse_diagnostic list \<Rightarrow> parse_report" where
  "brief_report path ds = \<lparr>rp_path = path, rp_rewritten = None, rp_dependents = [], rp_diagnostics = ds\<rparr>"

definition drop_with :: "os_path \<Rightarrow> parse_diagnostic list \<Rightarrow> ('p compiler, parse_report option) run" where
  "drop_with path ds = and_then (modify (remove_from_queues path)) (\<lambda>_. ret (Some (brief_report path ds)))"

end
