(* ===== verification/CompilerRun.thy ===== *)
theory CompilerRun
  imports Compiler
begin

text \<open>
  Running the document compiler (\<open>codec/compiler.rs\<close>): \<open>parse_next\<close>, static files, stale files, and
  \<open>parse_all\<close> with its batch and its loop. The loop gets fuel: one unit per file it parses; the
  properties say how much is enough.
\<close>

section \<open>Static files\<close>

definition asset_rel_path :: "'p compiler \<Rightarrow> os_path \<Rightarrow> string" where
  "asset_rel_path s path =
     map (\<lambda>c. if c = CHR 0x5C then CHR ''/'' else c)
       (os_path_to_string (unwrap_or (path_strip path (gb_repo_root (cp_builder s))) path))"

definition asset_node :: "bid \<Rightarrow> string \<Rightarrow> node" where
  "asset_node b h =
     (unknown_node b)\<lparr>nd_kind := {External}, nd_payload := bm_insert ''content_hash'' (TString h) []\<rparr>"

definition known_asset :: "'p setting \<Rightarrow> 'p belief_base \<Rightarrow> string \<Rightarrow> (bid \<times> string) option" where
  "known_asset C B rel_path =
     map_option (\<lambda>b. (b, unwrap_or (Option.bind (Option.bind (bm_get (bb_states B) b)
           (\<lambda>n. bm_get (nd_payload n) ''content_hash'')) to_text) []))
       (pm_net_path (cx_ops C) (bb_paths (index_sync B)) (bref_of (cx_ext C) asset_namespace) rel_path)"

definition asset_events :: "'p setting \<Rightarrow> 'p belief_base \<Rightarrow> bid \<Rightarrow> string \<Rightarrow> string \<Rightarrow> belief_event list" where
  "asset_events C B b h rel_path =
     (let net = asset_network (cx_ext C) (cx_build C)
      in (if bm_contains (bb_states B) asset_namespace then []
          else [NodeUpdate (node_keys (cx_ext C) (cx_ops C) net (Some buildonomy_namespace) None B)
                  (node_toml (cx_ops C) net) Remote,
                RelationChange asset_namespace buildonomy_namespace Section None Remote])
         @ [NodeUpdate [KBid b] (node_toml (cx_ops C) (asset_node b h)) Remote,
            RelationChange b asset_namespace Section (Some (set_doc_paths [rel_path] weight_default)) Remote])"

fun session_derivatives :: "'p setting \<Rightarrow> belief_event list \<Rightarrow> ('p job, belief_event list) run" where
  "session_derivatives C [] = ret []"
| "session_derivatives C (event # rest) =
     and_then (process_session C event) (\<lambda>derivatives.
     and_then (session_derivatives C rest) (\<lambda>others. ret (derivatives @ others)))"

definition update_asset :: "'p setting \<Rightarrow> os_path \<Rightarrow> string \<Rightarrow> string \<Rightarrow> bid option \<Rightarrow> ('p job, unit) run" where
  "update_asset C path rel_path h existing =
     and_then (gets jb_clock) (\<lambda>now.
     and_then (modify (\<lambda>s. if existing = None then s\<lparr>jb_clock := Suc now\<rparr> else s)) (\<lambda>_.
       let b = unwrap_or existing (bid_new (cx_ext C) now asset_namespace) in
     and_then (gets (\<lambda>s. asset_events C (gb_session_bb s) b h rel_path)) (\<lambda>events.
     and_then (session_derivatives C events) (\<lambda>derivatives.
     and_then (for_each (run_doc C) (events @ derivatives)) (\<lambda>_.
     and_then (for_each send (events @ derivatives)) (\<lambda>_.
     send (FileParsed (os_path_to_string path))))))))"

definition no_index_warning :: "os_path \<Rightarrow> parse_diagnostic" where
  "no_index_warning path = warning (''Linked path is a directory with no index file: '' @ os_path_to_string path)"

definition process_asset :: "('p, 'c) world \<Rightarrow> os_path \<Rightarrow> ('p compiler, parse_report option) run" where
  "process_asset W path = (\<lambda>s.
     let C = ps_builder (wd_setting W) in
     if fs_is_dir (files_of W) path then drop_with path [no_index_warning path] s
     else
       case wd_hash W path of
         Inl e \<Rightarrow>
           drop_with path [parse_error (''Failed to read asset file: '' @ wd_error_text W e) (get_parse_count path s + 1)] s
       | Inr h \<Rightarrow>
           let rel_path = asset_rel_path s path; known = known_asset C (gb_session_bb (cp_builder s)) rel_path
           in and_then (if map_option snd known = Some h then ret ()
                        else with_builder (update_asset C path rel_path h (map_option fst known)))
                (\<lambda>_. drop_with path []) s)"

section \<open>The next file\<close>

definition asset_path_of :: "('p, 'c) world \<Rightarrow> 'p compiler \<Rightarrow> string \<Rightarrow> os_path" where
  "asset_path_of W s rel_path =
     normalize_queue_path (files_of W) (path_join (gb_repo_root (cp_builder s)) (string_to_os_path rel_path))"

text \<open>Static files the session knows that were not looked at yet.\<close>

definition unseen_assets :: "('p, 'c) world \<Rightarrow> 'p compiler \<Rightarrow> os_path list" where
  "unseen_assets W s =
     (let C = ps_builder (wd_setting W)
      in filter (\<lambda>p. \<not> bm_contains (cp_processed s) p) (map (asset_path_of W s) (filter (\<lambda>rel. rel \<noteq> [])
           (map fst (base_all_paths (cx_ext C) (cx_ops C) (index_sync (gb_session_bb (cp_builder s))) asset_namespace False)))))"

definition finalize :: "('p, 'c) world \<Rightarrow> ('p compiler, unit) run" where
  "finalize W = (\<lambda>s.
     let unseen = unseen_assets W s
     in if unseen \<noteq> [] then Some (s\<lparr>cp_primary := cp_primary s @ unseen\<rparr>, Inr ())
        else if cp_html s \<noteq> None then Some (s, wd_spa_shell W (cp_builder s)) else Some (s, Inr ()))"

definition file_of :: "file_system \<Rightarrow> os_path \<Rightarrow> os_path option" where
  "file_of F path = (if fs_is_dir F path then detect_network_file F path else Some path)"

text \<open>A file that does not parse stays in its queue.\<close>

definition parse_file :: "('p, 'c) world \<Rightarrow> os_path \<Rightarrow> os_path \<Rightarrow> string \<Rightarrow> nat \<Rightarrow> ('p compiler, parse_report option) run" where
  "parse_file W path file_path content attempt_no =
     and_then (\<lambda>s. attempt (with_builder (parse_content (setting_of W s) file_path content)) s) (\<lambda>parsed.
       case parsed of
         Inl e \<Rightarrow> ret (Some (brief_report path [parse_error (''Parse failed: '' @ wd_error_text W e) attempt_no]))
       | Inr res \<Rightarrow>
           and_then (modify (remove_from_queues path)) (\<lambda>_.
           and_then (with_builder (send (FileParsed (os_path_to_string file_path)))) (\<lambda>_.
           and_then (finish_parse W path file_path res) (\<lambda>report. ret (Some report)))))"

definition parse_path :: "('p, 'c) world \<Rightarrow> os_path \<Rightarrow> ('p compiler, parse_report option) run" where
  "parse_path W path = (\<lambda>s.
     let parse_count = get_parse_count path s; attempt_no = parse_count + 1 in
     if parse_count \<ge> cp_max_reparse s then drop_with path [ReparseLimitExceeded] s
     else
       let s = s\<lparr>cp_processed := bm_insert path attempt_no (cp_processed s)\<rparr>
       in case file_of (files_of W) path of
            None \<Rightarrow> drop_with path [no_index_warning path] s
          | Some file_path \<Rightarrow>
              if \<not> fs_is_dir (files_of W) file_path \<and> codec_for_path (wd_setting W) file_path = None
              then process_asset W path s
              else (case wd_read W file_path of
                      Inl e \<Rightarrow> drop_with path [parse_error (''Failed to read file: '' @ wd_error_text W e) attempt_no] s
                    | Inr content \<Rightarrow> parse_file W path file_path content attempt_no s))"

definition next_path :: "'p compiler \<Rightarrow> os_path option" where
  "next_path s = (case cp_primary s of p # _ \<Rightarrow> Some p | [] \<Rightarrow> peek_next_reparse_candidate s)"

definition parse_next :: "('p, 'c) world \<Rightarrow> ('p compiler, parse_report option) run" where
  "parse_next W = (\<lambda>s.
     case next_path s of
       Some path \<Rightarrow> parse_path W path s
     | None \<Rightarrow>
         and_then (finalize W) (\<lambda>_ s. case cp_primary s of path # _ \<Rightarrow> parse_path W path s | [] \<Rightarrow> Some (s, Inr None)) s)"

section \<open>Stale files\<close>

text \<open>Whether a file of the global source has to be parsed again, or what in its place.\<close>

definition stale_file :: "('p, 'c) world \<Rightarrow> (os_path, int) bmap \<Rightarrow> os_path \<Rightarrow> buildonomy_error + os_path list" where
  "stale_file W cached path =
     (case wd_modified W path of
        Some (Inl e) \<Rightarrow> Inl e
      | Some (Inr current) \<Rightarrow>
          Inr (case bm_get cached path of
             Some mtime \<Rightarrow> if current > mtime \<or> current < 0 then [path] else []
           | None \<Rightarrow> [path])
      | None \<Rightarrow>
          Inr (case find (\<lambda>d. detect_network_file (files_of W) d \<noteq> None) (ancestors path) of
             Some d \<Rightarrow> [d] | None \<Rightarrow> []))"

fun stale_each :: "('p, 'c) world \<Rightarrow> (os_path, int) bmap \<Rightarrow> os_path list \<Rightarrow> buildonomy_error + os_path list" where
  "stale_each W cached [] = Inr []"
| "stale_each W cached (path # paths) =
     (case stale_file W cached path of
        Inl e \<Rightarrow> Inl e
      | Inr found \<Rightarrow> (case stale_each W cached paths of Inl e \<Rightarrow> Inl e | Inr rest \<Rightarrow> Inr (found @ rest)))"

definition check_stale_files :: "('p, 'c) world \<Rightarrow> bool \<Rightarrow> buildonomy_error + os_path list" where
  "check_stale_files W force =
     (case wd_mtimes W of
        Inl e \<Rightarrow> Inl e
      | Inr cached \<Rightarrow>
          let doc_paths = filter (\<lambda>p. CHR ''#'' \<notin> set (os_path_to_string p)) (map fst cached)
          in (case (if force then Inr doc_paths else stale_each W cached doc_paths) of
                Inl e \<Rightarrow> Inl e
              | Inr stale \<Rightarrow> Inr (remdups_adj (sort_by path_order stale))))"

section \<open>Reports\<close>

text \<open>The last parse of each file; the limit adds to it.\<close>

definition note_report :: "parse_report \<Rightarrow> (os_path, parse_report) bmap \<Rightarrow> (os_path, parse_report) bmap" where
  "note_report report latest =
     (if ReparseLimitExceeded \<in> set (rp_diagnostics report) then
        let entry = unwrap_or (bm_get latest (rp_path report)) report
        in bm_insert (rp_path report) (entry\<lparr>rp_diagnostics := rp_diagnostics entry @ [ReparseLimitExceeded]\<rparr>) latest
      else bm_insert (rp_path report) report latest)"

definition promote :: "('p, 'c) world \<Rightarrow> parse_diagnostic \<Rightarrow> parse_diagnostic option" where
  "promote W d =
     (case d of
        Unresolved u \<Rightarrow>
          Some (Warning (''unresolved link '' @ [CHR 0xE2, CHR 0x80, CHR 0x94] @ '' tried ['' @
            str_join '', '' (map (wd_key_text W) (ur_other_keys u)) @ '']'') (ur_location u))
      | ReparseLimitExceeded \<Rightarrow> None
      | other \<Rightarrow> Some other)"

definition promote_unresolved_to_warnings :: "('p, 'c) world \<Rightarrow> parse_report list \<Rightarrow> parse_report list" where
  "promote_unresolved_to_warnings W =
     map (\<lambda>r. r\<lparr>rp_diagnostics := List.map_filter (promote W) (rp_diagnostics r)\<rparr>)"

datatype 'x progress = Unfinished 'x | Finished 'x

fun parse_rounds ::
    "(nat \<Rightarrow> ('p, 'c) world) \<Rightarrow> nat \<Rightarrow> nat \<Rightarrow> (os_path, parse_report) bmap
      \<Rightarrow> ('p compiler, (os_path, parse_report) bmap progress) run" where
  "parse_rounds Ws 0 k latest = ret (Unfinished latest)"
| "parse_rounds Ws (Suc fuel) k latest =
     and_then (parse_next (Ws k)) (\<lambda>report.
       case report of
         None \<Rightarrow> ret (Finished latest)
       | Some r \<Rightarrow> parse_rounds Ws fuel (Suc k) (note_report r latest))"

section \<open>A batch\<close>

type_synonym ('p, 'c) task_result = "os_path \<times> (buildonomy_error + ('p, 'c) parse_result)"

text \<open>Each file gets a builder of its own, which sends to the same place.\<close>

definition run_task ::
    "('p, 'c) world \<Rightarrow> os_path \<Rightarrow> os_path \<Rightarrow> string \<Rightarrow> ('p compiler, buildonomy_error + ('p, 'c) parse_result) run" where
  "run_task W repo_root file_path content = (\<lambda>s.
     let S = setting_of W s; C = ps_builder S; main = cp_builder s
     in case builder_new (cx_ext C) (cx_build C) (cx_ops C) (ps_files S) repo_root of
          Inl e \<Rightarrow> Some (s, Inr (Inl e))
        | Inr b \<Rightarrow>
            map_option (\<lambda>(b, r). (s\<lparr>cp_builder := main\<lparr>gb_tx := gb_tx b, jb_clock := jb_clock b\<rparr>\<rparr>, Inr r))
              (and_then (ignore_error (send (FileParsed (os_path_to_string file_path))))
                 (\<lambda>_. parse_content S file_path content) (open_job b (gb_tx main) (gb_tx_open main) (jb_clock main))))"

definition epoch_task ::
    "('p, 'c) world \<Rightarrow> os_path \<Rightarrow> ('p compiler, buildonomy_error + ('p, 'c) parse_result) run" where
  "epoch_task W path = (\<lambda>s.
     case file_of (files_of W) path of
       None \<Rightarrow> Some (s, Inr (Inl Codec))
     | Some file_path \<Rightarrow>
         (case wd_read W file_path of
            Inl e \<Rightarrow> Some (s, Inr (Inl Codec))
          | Inr content \<Rightarrow> run_task W (gb_repo_root (cp_builder s)) file_path content s))"

fun parse_epoch_parallel ::
    "(nat \<Rightarrow> ('p, 'c) world) \<Rightarrow> nat \<Rightarrow> os_path list \<Rightarrow> ('p compiler, ('p, 'c) task_result list) run" where
  "parse_epoch_parallel Ws k [] = ret []"
| "parse_epoch_parallel Ws k (path # paths) =
     and_then (epoch_task (Ws k) path) (\<lambda>r.
     and_then (parse_epoch_parallel Ws (Suc k) paths) (\<lambda>rs. ret ((path, r) # rs)))"

definition seed_repo :: "('p, 'c) world \<Rightarrow> ('p, 'c) task_result list \<Rightarrow> ('p compiler, unit) run" where
  "seed_repo W results =
     (let C = ps_builder (wd_setting W)
      in case find_map (\<lambda>(_, r). case r of Inr res \<Rightarrow> if pr_repo_bid res \<noteq> nil_bid then Some res else None | Inl _ \<Rightarrow> None)
             results of
           None \<Rightarrow> ret ()
         | Some res \<Rightarrow>
             and_then (modify (\<lambda>s. s\<lparr>cp_builder := (cp_builder s)\<lparr>gb_repo := pr_repo_bid res\<rparr>\<rparr>)) (\<lambda>_.
             case pr_repo_node res of
               None \<Rightarrow> ret ()
             | Some n \<Rightarrow> with_builder (ignore_error (process_session C
                   (NodeUpdate [KBid (pr_repo_bid res)] (node_toml (cx_ops C) n) Remote)))))"

definition settle_task :: "('p, 'c) world \<Rightarrow> ('p, 'c) task_result \<Rightarrow> ('p compiler, parse_report) run" where
  "settle_task W task =
     (case task of
        (path, Inl e) \<Rightarrow>
          gets (\<lambda>s. brief_report path [parse_error (''Parse failed: '' @ wd_error_text W e) (get_parse_count path s)])
      | (path, Inr res) \<Rightarrow>
          and_then (modify (\<lambda>s. s\<lparr>cp_processed := bm_insert path (get_parse_count path s + 1) (cp_processed s)\<rparr>)) (\<lambda>_.
          finish_parse W path (unwrap_or (file_of (files_of W) path) path) res))"

fun settle_tasks ::
    "('p, 'c) world \<Rightarrow> ('p, 'c) task_result list \<Rightarrow> (os_path, parse_report) bmap
      \<Rightarrow> ('p compiler, (os_path, parse_report) bmap) run" where
  "settle_tasks W [] latest = ret latest"
| "settle_tasks W (task # tasks) latest =
     and_then (settle_task W task) (\<lambda>report. settle_tasks W tasks (bm_insert (fst task) report latest))"

definition first_epoch :: "(nat \<Rightarrow> ('p, 'c) world) \<Rightarrow> ('p compiler, (os_path, parse_report) bmap) run" where
  "first_epoch Ws =
     and_then (gets cp_primary) (\<lambda>paths.
     and_then (modify (\<lambda>s. s\<lparr>cp_primary := []\<rparr>)) (\<lambda>_.
     and_then (parse_epoch_parallel Ws 0 paths) (\<lambda>results.
     and_then (seed_repo (Ws (length paths)) results) (\<lambda>_.
     settle_tasks (Ws (length paths)) results []))))"

section \<open>Parsing everything\<close>

text \<open>The reports come in the order of their paths; the code has them in no particular order.\<close>

definition parse_all ::
    "(nat \<Rightarrow> ('p, 'c) world) \<Rightarrow> nat \<Rightarrow> bool \<Rightarrow> ('p compiler, parse_report list progress) run" where
  "parse_all Ws fuel force =
     and_then (lift_result (check_stale_files (Ws 0) force)) (\<lambda>stale.
     and_then (modify (fold (enqueue (files_of (Ws 0))) stale)) (\<lambda>_.
     and_then (gets (\<lambda>s. if cp_jobs s \<le> 1 then 0 else length (cp_primary s))) (\<lambda>k.
     and_then (\<lambda>s. if cp_jobs s \<le> 1 then Some (s, Inr []) else first_epoch Ws s) (\<lambda>latest.
     and_then (parse_rounds Ws fuel (Suc k) latest) (\<lambda>final.
     ret (case final of
        Unfinished latest \<Rightarrow> Unfinished (promote_unresolved_to_warnings (Ws 0) (map snd latest))
      | Finished latest \<Rightarrow> Finished (promote_unresolved_to_warnings (Ws 0) (map snd latest))))))))"

end
