(* ===== verification/ParseProps.thy ===== *)
theory ParseProps
  imports Parse
begin

text \<open>
  Correctness of parsing a document: what it keeps of the stores, that nothing leaks from one document into
  the next, and what the phases hand to each other. The interface \<open>job_invariant\<close> of the builder is
  extended by the steps of a parse.
\<close>

section \<open>Invariants of a parse\<close>

lemma keeps_fail [keeps_intros]: "keeps I (fail e)" "keeps I panic" "keeps I (lift_panic r)"
  by (auto simp: keeps_def fail_def panic_def lift_panic_def lift_result_def split: option.splits)

lemma keeps_option [keeps_intros]:
  "(p = None \<Longrightarrow> keeps I m) \<Longrightarrow> (\<And>x. p = Some x \<Longrightarrow> keeps I (f x)) \<Longrightarrow>
   keeps I (case p of None \<Rightarrow> m | Some x \<Rightarrow> f x)"
  by (cases p) auto

locale parse_invariant = job_invariant C I for C :: "'p setting" and I :: "'p job \<Rightarrow> bool" +
  assumes session_merge: "I s \<Longrightarrow> I (s\<lparr>gb_session_bb := merge_into C g seeds (gb_session_bb s)\<rparr>)"
    and doc_merge: "I s \<Longrightarrow> I (s\<lparr>gb_doc_bb := merge_into C g seeds (gb_doc_bb s)\<rparr>)"
begin

lemma merge_session: "keeps I (merge_session C g seeds)"
  unfolding merge_session_def by (intro keeps_intros session_merge)

lemma merge_doc: "keeps I (merge_doc C g seeds)"
  unfolding merge_doc_def by (intro keeps_intros doc_merge)

lemma with_diagnostics: "keeps I (with_diagnostics f)"
  by (auto simp: keeps_def with_diagnostics_def elim!: frame split: prod.splits)

lemma with_diagnostics_or_panic: "keeps I (with_diagnostics_or_panic f)"
  by (auto simp: keeps_def with_diagnostics_or_panic_def elim!: frame split: prod.splits option.splits)

lemma load_namespaces: "keeps I (load_namespaces C)"
  unfolding load_namespaces_def load_namespace_def by (intro keeps_intros session_event merge_session)

lemma push_ancestor:
  assumes "ps_builder S = C"
  shows "keeps I (push_ancestor S path)"
  unfolding push_ancestor_def assms Let_def by (intro keeps_intros push merge_session) (erule frame; simp)

lemma initial_proto: "keeps I (initial_proto S abs_path)"
  unfolding initial_proto_def by (intro keeps_intros)

lemma slow_path: "ps_builder S = C \<Longrightarrow> keeps I (slow_path S abs_path)"
  unfolding slow_path_def by (intro keeps_intros initial_proto push_ancestor) (erule frame; simp)+

lemma merge_missing: "keeps I (merge_missing C b source)"
  unfolding merge_missing_def by (intro keeps_intros merge_session merge_doc) (erule frame; simp)

lemma parse_nodes: "keeps I (parse_nodes C k protos m)"
  by (induction protos arbitrary: k m) (auto intro!: keeps_intros push merge_missing)

lemma note_relation: "keeps I (note_relation X d result generated)"
  unfolding note_relation_def
  by (cases result) (auto intro!: keeps_intros elim!: frame)

lemma push_relations: "keeps I (push_relations C content b d index rels generated)"
  by (induction rels arbitrary: index generated) (auto intro!: keeps_intros push_relation note_relation)

lemma relate_nodes: "keeps I (relate_nodes C content ps generated)"
  by (induction ps arbitrary: generated) (auto intro!: keeps_intros push_relations)

lemma settle_relations: "keeps I (settle_relations C parsed)"
  unfolding settle_relations_def
  by (intro keeps_intros merge_session merge_doc run_doc) (erule frame; simp)

lemma inject_node: "keeps I (inject_node C codec proto b st)"
proof -
  have "keeps I (and_then (with_diagnostics (dc_inject codec (fst st) proto ctx)) (\<lambda>(c, updated).
      case updated of
        None \<Rightarrow> ret (c, snd st)
      | Some n \<Rightarrow>
          if node_toml (cx_ops C) (bc_node ctx) \<noteq> node_toml (cx_ops C) n
          then and_then (update_node C n) (\<lambda>_. ret (c, True)) else ret (c, snd st)))" for ctx
    unfolding update_node_def by (intro keeps_intros with_diagnostics run_doc)
  then show ?thesis unfolding inject_node_def keeps_def by (auto split: option.splits)
qed

lemma inject_nodes: "keeps I (inject_nodes C codec ps st)"
  by (induction ps arbitrary: st) (auto intro!: keeps_intros inject_node)

lemma finalize_nodes: "keeps I (finalize_nodes C ns is_changed)"
  by (induction ns arbitrary: is_changed) (auto simp: update_node_def intro!: keeps_intros run_doc)

lemma parse_with: "keeps I (parse_with C codec content initial k)"
  unfolding parse_with_def Let_def
  by (intro keeps_intros with_diagnostics with_diagnostics_or_panic parse_nodes relate_nodes settle_relations inject_nodes finalize_nodes)

end

text \<open>What does not concern the transmitter is kept where the API node is shared.\<close>

locale parse_sending = parse_invariant C I + sending_invariant C I for C :: "'p setting" and I :: "'p job \<Rightarrow> bool"
begin

lemma share_api: "keeps I (share_api C)"
  unfolding share_api_def share_node_def Let_def by (intro keeps_intros run_doc session_event send)

end

text \<open>What does not concern the document is kept where a document is replaced by the next.\<close>

locale doc_free_invariant = parse_invariant C I for C :: "'p setting" and I :: "'p job \<Rightarrow> bool" +
  assumes any_doc: "I s \<Longrightarrow> I (s\<lparr>gb_doc_bb := B\<rparr>)"
begin

lemma reset_doc: "keeps I (reset_doc C)"
  unfolding reset_doc_def
proof (rule keeps_modify)
  fix s assume "I s"
  then have "I (s\<lparr>gb_doc_bb := base_empty (cx_ext C) (cx_build C) (cx_ops C)\<rparr>)" by (rule any_doc)
  then show "I (s\<lparr>gb_stack := [], gb_doc_bb := base_empty (cx_ext C) (cx_build C) (cx_ops C)\<rparr>)"
    by (rule frame) simp_all
qed

lemma use_parent:
  assumes "ps_builder S = C"
  shows "keeps I (use_parent S p r b g)"
  unfolding use_parent_def assms Let_def
  by (intro keeps_intros initial_proto merge_session, erule any_doc) (erule frame; simp)

lemma try_session_cache:
  assumes "ps_builder S = C"
  shows "keeps I (try_session_cache S p)"
  unfolding try_session_cache_def try_parent_def assms Let_def by (intro keeps_intros use_parent [OF assms])

end

text \<open>What only concerns the session is kept by a whole parse.\<close>

locale session_invariant = doc_free_invariant C I + parse_sending C I
  for C :: "'p setting" and I :: "'p job \<Rightarrow> bool"
begin

lemma initialize_stack:
  assumes "ps_builder S = C"
  shows "keeps I (initialize_stack S p)"
  unfolding initialize_stack_def assms Let_def
  by (intro keeps_intros reset_doc share_api load_namespaces try_session_cache [OF assms] slow_path [OF assms])

lemma parse_content:
  assumes "ps_builder S = C"
  shows "keeps I (parse_content S p content)"
  unfolding parse_content_def assms Let_def
  by (intro keeps_intros initialize_stack [OF assms] parse_with terminate_stack) (erule frame; simp)

end

section \<open>The stores\<close>

lemma merge_into_inv: "edges_in_ok (cx_ops C) \<Longrightarrow> base_inv B \<Longrightarrow> base_inv (merge_into C g seeds B)"
  by (simp add: merge_into_def merge_graph_inv)

definition session_ok :: "'p setting \<Rightarrow> 'p job \<Rightarrow> bool" where
  "session_ok C s \<longleftrightarrow> base_inv (gb_session_bb s) \<or> \<not> edges_in_ok (cx_ops C)"

interpretation session: session_invariant C "session_ok C" for C :: "'p setting"
  by unfold_locales
    (auto simp: keeps_def session_ok_def dest: process_doc_inv process_session_inv intro: merge_into_inv)

interpretation stores: parse_sending C "stores_ok C" for C :: "'p setting"
  by unfold_locales (auto simp: stores_ok_def intro: merge_into_inv)

definition sent :: "belief_event list set \<Rightarrow> bool \<Rightarrow> 'p job \<Rightarrow> bool" where
  "sent logs is_open s \<longleftrightarrow> gb_tx s \<in> logs \<and> gb_tx_open s = is_open"

interpretation quiet: doc_free_invariant C "sent logs is_open" for C :: "'p setting" and logs is_open
  by unfold_locales (auto simp: keeps_def sent_def dest: process_doc_inv process_session_inv)

lemma base_inv_empty: "base_inv (base_empty X env P)"
  by (simp add: base_empty_def base_inv_def base_shape_def keyed_def bg_empty_def keys_def arcs_def bb_graph_def)

lemma and_then_eq:
  "and_then m f s = Some (s', r) \<longleftrightarrow>
     (\<exists>e. r = Inl e \<and> m s = Some (s', Inl e)) \<or> (\<exists>t x. m s = Some (t, Inr x) \<and> f x t = Some (s', r))"
  by (auto simp: and_then_def split: option.splits sum.splits)

section \<open>What a parse sends\<close>

definition api_event :: "'p setting \<Rightarrow> belief_event" where
  "api_event C = (let api = api_state (cx_ext C) (cx_build C)
                  in NodeUpdate [KBid (nd_bid api)] (node_toml (cx_ops C) api) Remote)"

lemma share_node_sent:
  assumes "share_node C (api_state (cx_ext C) (cx_build C)) s = Some (s', r)" "sent {log} is_open s"
  shows "sent {log, log @ [api_event C]} is_open s'"
proof -
  have weaker: "sent {log} is_open t \<Longrightarrow> sent {log, log @ [api_event C]} is_open t" for t :: "'a job"
    by (simp add: sent_def)
  have sending: "send (api_event C) t = Some (s', r) \<Longrightarrow> sent {log} is_open t \<Longrightarrow>
      sent {log, log @ [api_event C]} is_open s'" for t
    by (auto simp: send_def sent_def split: if_splits)
  show ?thesis
    using assms
    by (auto simp: share_node_def Let_def and_then_eq gets_def lift_result_def ret_def api_event_def [unfolded Let_def, symmetric]
        split: if_splits intro: weaker dest!: keepsD [OF quiet.run_doc] keepsD [OF quiet.session_event] dest: sending)
qed

lemma initialize_stack_sent:
  assumes "initialize_stack S p s = Some (s', r)" "sent {log} is_open s"
  shows "sent {log, log @ [api_event (ps_builder S)]} is_open s'"
proof -
  let ?C = "ps_builder S"
  let ?s = "s\<lparr>gb_stack := [], gb_doc_bb := base_empty (cx_ext ?C) (cx_build ?C) (cx_ops ?C)\<rparr>"
  have reset: "reset_doc ?C s = Some (?s, Inr ())" by (simp add: reset_doc_def modify_def)
  have "sent {log} is_open ?s" using assms(2) by (simp add: sent_def)
  then have shared: "share_api ?C ?s = Some (t, q) \<Longrightarrow> sent {log, log @ [api_event ?C]} is_open t" for t q
    using share_node_sent [of ?C ?s t q] by (simp add: share_api_def and_then_eq gets_def base_empty_def)
  have rest: "keeps (sent logs is_open)
      (and_then (load_namespaces ?C) (\<lambda>_. and_then (gets gb_repo) (\<lambda>repo.
       and_then (if repo \<noteq> nil_bid then try_session_cache S p else ret None) (\<lambda>cached.
         case cached of Some r \<Rightarrow> ret r | None \<Rightarrow> slow_path S p))))" for logs
    by (intro keeps_intros quiet.load_namespaces quiet.try_session_cache [OF refl] quiet.slow_path [OF refl])
  from assms(1) shared keepsD [OF rest] show ?thesis
    unfolding initialize_stack_def Let_def and_then_eq [of "reset_doc _"] and_then_eq [of "share_api _"] reset
    by auto
qed

lemma send_all_error:
  assumes "for_each send events s = Some (s', Inl e)"
  shows "gb_tx s' = gb_tx s"
proof (cases "gb_tx_open s")
  case True
  then have "for_each send events s = Some (s\<lparr>gb_tx := gb_tx s @ events\<rparr>, Inr ())" by (simp add: send_all)
  with assms show ?thesis by simp
next
  case False
  with assms show ?thesis by (cases events) (auto simp: ret_def send_def and_then_eq)
qed

lemma terminate_stack_error:
  assumes "terminate_stack C renames parsed s = Some (s', Inl e)"
  shows "gb_tx s' = gb_tx s"
proof -
  let ?quiet = "sent {gb_tx s} (gb_tx_open s)" and ?s = "s\<lparr>gb_stack := []\<rparr>"
  have start: "?quiet ?s" by (simp add: sent_def)
  have renames: "session_renames C renames ?s = Some (t, q) \<Longrightarrow> ?quiet t" for t q
    using keepsD [OF quiet.session_renames] start by blast
  have updates: "session_updates C events t = Some (u, q) \<Longrightarrow> ?quiet t \<Longrightarrow> ?quiet u" for events t u q
    using keepsD [OF quiet.session_updates] by blast
  from assms consider (renames) "session_renames C renames ?s = Some (s', Inl e)"
    | (updates) t q events where "session_renames C renames ?s = Some (t, q)" "session_updates C events t = Some (s', Inl e)"
    | (sends) t q events u q' log where "session_renames C renames ?s = Some (t, q)"
        "session_updates C events t = Some (u, q')" "for_each send log u = Some (s', Inl e)"
    by (auto simp: terminate_stack_def and_then_eq modify_def gets_def)
  then have "?quiet s' \<or> (\<exists>u log. ?quiet u \<and> for_each send log u = Some (s', Inl e))"
    by cases (use renames updates in blast)+
  then show ?thesis by (auto simp: sent_def dest: send_all_error)
qed

section \<open>Phases\<close>

lemma parse_nodes_spec:
  "parse_nodes C k protos m s = Some (s', Inr m') \<Longrightarrow> list_all (\<lambda>(a, b). a = b) (mk_renames m) \<Longrightarrow>
   length (mk_parsed m') = length (mk_parsed m) + length protos \<and> list_all (\<lambda>(a, b). a = b) (mk_renames m')"
proof (induction protos arbitrary: k m s)
  case (Cons proto protos)
  have same: "list_all (\<lambda>(a, b). a = b) (bm_insert b b rs)" if "list_all (\<lambda>(a, b). a = b) rs"
    for b :: bid and rs
    using that set_bm_insert [of b b rs] by (fastforce simp: list_all_iff)
  from Cons.prems(1) obtain b source old t where
    run: "parse_nodes C None protos (note_node b source old m) t = Some (s', Inr m')"
    by (auto simp: and_then_eq split: prod.splits)
  have "list_all (\<lambda>(a, b). a = b) (mk_renames (note_node b source old m))"
    and "length (mk_parsed (note_node b source old m)) = Suc (length (mk_parsed m))"
    using Cons.prems(2) same by (auto simp: note_node_def Let_def)
  with Cons.IH [OF run] show ?case by simp
qed (simp add: ret_def)

section \<open>Correctness\<close>

text \<open>C21. Whatever a parse meets, errors included, the store of the session stays in shape; the store of the
  document that was parsed before plays no part in it.\<close>

theorem parse_keeps_session:
  assumes "edges_in_ok (cx_ops (ps_builder S))" "base_inv (gb_session_bb s)"
    and "parse_content S input_path content s = Some (s', r)"
  shows "base_inv (gb_session_bb s')"
  using keepsD [OF session.parse_content [OF refl] assms(3)] assms(1,2) by (simp add: session_ok_def)

text \<open>C22. A parse that fails sends at most the API node: no event of the document reaches the global source.\<close>

theorem parse_sends_last:
  fixes S :: "('a, 'b) parse_setting"
  assumes "parse_content S input_path content s = Some (s', Inl e)"
  shows "gb_tx s' = gb_tx s \<or> gb_tx s' = gb_tx s @ [api_event (ps_builder S)]"
proof -
  let ?C = "ps_builder S" and ?logs = "{gb_tx s, gb_tx s @ [api_event (ps_builder S)]}"
  let ?sent = "sent ?logs (gb_tx_open s)"
  have start: "sent {gb_tx s} (gb_tx_open s) s" by (simp add: sent_def)
  have opened: "initialize_stack S input_path s = Some (t, q) \<Longrightarrow> ?sent t" for t q
    by (rule initialize_stack_sent [OF _ start])
  have reset: "?sent t \<Longrightarrow> ?sent (t\<lparr>jb_missing := belief_graph_empty, jb_queue := [], jb_diagnostics := []\<rparr>)"
    for t :: "'a job" by (simp add: sent_def)
  have parsed: "parse_with ?C codec content initial k t = Some (u, q) \<Longrightarrow> ?sent t \<Longrightarrow> ?sent u"
    for codec :: "('a, 'b) doc_codec" and initial k t u q
    using keepsD [OF quiet.parse_with] by blast
  have finished: "terminate_stack ?C rs ps u = Some (s', Inl e) \<Longrightarrow> ?sent u \<Longrightarrow> gb_tx s' \<in> ?logs" for rs ps u
    using terminate_stack_error [of ?C rs ps u s' e] by (simp add: sent_def)
  let ?fresh = "\<lambda>t. t\<lparr>jb_missing := belief_graph_empty, jb_queue := [], jb_diagnostics := []\<rparr>"
  from assms consider (same) "s' = s"
    | (opens) "initialize_stack S input_path s = Some (s', Inl e)"
    | (no_codec) t q where "initialize_stack S input_path s = Some (t, q)" "s' = ?fresh t"
    | (parses) t q and codec :: "('a, 'b) doc_codec" and initial k where "initialize_stack S input_path s = Some (t, q)"
        "parse_with ?C codec content initial k (?fresh t) = Some (s', Inl e)"
    | (ends) t q and codec :: "('a, 'b) doc_codec" and initial k u q' rs ps where "initialize_stack S input_path s = Some (t, q)"
        "parse_with ?C codec content initial k (?fresh t) = Some (u, q')" "terminate_stack ?C rs ps u = Some (s', Inl e)"
    by (auto simp: parse_content_def Let_def and_then_eq lift_result_def modify_def gets_def fail_def
        split: option.splits prod.splits)
  then have "gb_tx s' \<in> ?logs"
  proof cases
    case opens
    with opened show ?thesis by (auto simp: sent_def)
  next
    case no_codec
    with opened reset show ?thesis by (auto simp: sent_def)
  next
    case parses
    from parsed [OF parses(2) reset [OF opened [OF parses(1)]]] show ?thesis by (simp add: sent_def)
  next
    case ends
    from parsed [OF ends(2) reset [OF opened [OF ends(1)]]] ends(3) show ?thesis by (rule finished [rotated])
  qed simp
  then show ?thesis by simp
qed

text \<open>Every node of the document gets exactly one identity, so that pairing nodes and identities, before or
  after the nodes of external links are added, loses none.\<close>

theorem every_node_parsed:
  "(case parse_nodes C k protos marks_start s of
      Some (_, Inr m) \<Rightarrow> map fst (zip protos (mk_parsed m @ generated))
    | _ \<Rightarrow> protos) = protos"
  using parse_nodes_spec [of C k protos marks_start s]
  by (auto simp: marks_start_def map_fst_zip_take split: option.splits sum.splits)

text \<open>The renames a parse collects never rename anything: each pairs a node with itself.\<close>

theorem parse_renames_nothing:
  "(case parse_nodes C k protos marks_start s of
      Some (_, Inr m) \<Rightarrow> filter (\<lambda>(a, b). a \<noteq> b) (mk_renames m)
    | _ \<Rightarrow> []) = []"
  using parse_nodes_spec [of C k protos marks_start s]
  by (auto simp: marks_start_def list_all_iff filter_empty_conv split: option.splits sum.splits)

text \<open>On the fast path a document starts from networks only, with no relation that leaves them.\<close>

theorem ancestors_only_networks:
  assumes "keyed g"
  shows "list_all (\<lambda>(_, n). kind_is_network (nd_kind n)) (states (ancestors_only g))
    \<and> find_orphaned_edges (ancestors_only g) = []
    \<and> set (g_edges (relations (ancestors_only g))) \<subseteq> set (g_edges (relations g))"
proof -
  let ?nets = "List.map_filter (\<lambda>(b, n). if kind_is_network (nd_kind n) then Some b else None) (states g)"
  have nets: "b \<in> set ?nets \<longleftrightarrow> (\<exists>n. (b, n) \<in> set (states g) \<and> kind_is_network (nd_kind n))" for b
    by (auto simp: List.map_filter_def image_iff split: prod.splits)
  have one: "(b, n) \<in> set (states g) \<Longrightarrow> (b, n') \<in> set (states g) \<Longrightarrow> n = n'" for b n n'
    using assms by (auto simp: keyed_def simp flip: bm_ok_get_iff)
  have "list_all (\<lambda>(_, n). kind_is_network (nd_kind n)) (states (ancestors_only g))"
    using one nets by (fastforce simp: ancestors_only_def list_all_iff)
  moreover have "find_orphaned_edges (ancestors_only g) = []"
  proof -
    have "b \<in> keys (ancestors_only g)" if "b \<in> set ?nets" for b
      using that by (auto simp: ancestors_only_def Let_def keys_def nets image_iff)
    then show ?thesis by (auto simp: find_orphaned_edges_iff list_all_iff ancestors_only_def from_edges_def Let_def)
  qed
  moreover have "set (g_edges (relations (ancestors_only g))) \<subseteq> set (g_edges (relations g))"
    by (auto simp: ancestors_only_def from_edges_def Let_def)
  ultimately show ?thesis by blast
qed

section \<open>Witnesses\<close>

text \<open>A repository without codecs, whose node parser refuses every node: the parse of its document fails.\<close>

definition lone_setting :: "query_ext \<Rightarrow> build_env \<Rightarrow> (unit, unit) parse_setting" where
  "lone_setting X env =
     \<lparr>ps_builder = plain_setting X env, ps_codecs = [], ps_files = same_files [[[], ''r'', ''a.md'']],
      ps_index = proto_index_new\<rparr>"

lemma lone_run:
  "\<exists>s'. parse_content (lone_setting X env) [[], ''r'', ''a.md''] text (plain_job []) = Some (s', Inl Custom)"
  by (simp add: parse_content_def lone_setting_def same_files_def listed_files_def initialize_stack_def reset_doc_def
      share_api_def share_node_def run_doc_def process_doc_def plain_setting_def plain_builder_ops_def process_event_def
      apply_event_def origin_def and_then_def lift_result_def modify_def gets_def Let_def)

theorem parse_keeps_session_witness:
  "\<forall>X env. \<exists>s'. parse_content (lone_setting X env) [[], ''r'', ''a.md''] [] (plain_job []) = Some (s', Inl Custom)
     \<and> base_inv (gb_session_bb s')"
proof (intro allI)
  fix X env
  obtain s' where run: "parse_content (lone_setting X env) [[], ''r'', ''a.md''] [] (plain_job []) = Some (s', Inl Custom)"
    using lone_run by blast
  have ok: "edges_in_ok (cx_ops (ps_builder (lone_setting X env)))"
    by (simp add: lone_setting_def plain_setting_def plain_builder_edges)
  have "base_inv (gb_session_bb (plain_job []))" by (simp add: plain_job_def section_base_inv)
  from parse_keeps_session [OF ok this run] run
  show "\<exists>s'. parse_content (lone_setting X env) [[], ''r'', ''a.md''] [] (plain_job []) = Some (s', Inl Custom)
     \<and> base_inv (gb_session_bb s')" by blast
qed

theorem parse_sends_last_witness:
  "\<forall>X env. \<exists>s'. parse_content (lone_setting X env) [[], ''r'', ''a.md''] [] (plain_job []) = Some (s', Inl Custom)
     \<and> length (gb_tx s') \<le> 1"
proof (intro allI)
  fix X env
  obtain s' where run: "parse_content (lone_setting X env) [[], ''r'', ''a.md''] [] (plain_job []) = Some (s', Inl Custom)"
    using lone_run by blast
  from parse_sends_last [OF run] run
  show "\<exists>s'. parse_content (lone_setting X env) [[], ''r'', ''a.md''] [] (plain_job []) = Some (s', Inl Custom)
     \<and> length (gb_tx s') \<le> 1" by (auto simp: plain_job_def)
qed

theorem ancestors_only_networks_witness:
  "find_orphaned_edges (ancestors_only section_graph) = []"
  using ancestors_only_networks [OF section_graph_ok(1)] by blast

end
