(* ===== verification/CompilerProps.thy ===== *)
theory CompilerProps
  imports CompilerRun ParseProps
begin

text \<open>
  Correctness of the document compiler. What the steps of one file keep is proved once, in the interface
  \<open>file_steps\<close>, and used for the queues, for the limit on attempts and for the store of the session; the
  rest is about the loop: how many files it can parse, in which order, and what becomes of files that
  fail or wait.
\<close>

section \<open>The steps of one file\<close>

lemma with_builder_keeps:
  "(\<And>s b. I s \<Longrightarrow> I (s\<lparr>cp_builder := b\<rparr>)) \<Longrightarrow> keeps I (with_builder m)"
  by (auto simp: keeps_def with_builder_def)

lemma attempt_keeps [keeps_intros]: "keeps I m \<Longrightarrow> keeps I (attempt m)"
  by (auto simp: keeps_def attempt_def)

lemma attempt_builder_keeps:
  "(\<And>s b. I s \<Longrightarrow> I (s\<lparr>cp_builder := b\<rparr>)) \<Longrightarrow> keeps I (\<lambda>s. attempt (with_builder (m s)) s)"
  by (auto simp: keeps_def attempt_def with_builder_def)

lemma with_builder_lift: "keeps J m \<Longrightarrow> keeps (\<lambda>s. J (cp_builder s)) (with_builder m)"
  by (auto simp: keeps_def with_builder_def)

lemma keeps_sum [keeps_intros]:
  "(\<And>e. p = Inl e \<Longrightarrow> keeps I (f e)) \<Longrightarrow> (\<And>x. p = Inr x \<Longrightarrow> keeps I (g x)) \<Longrightarrow>
   keeps I (case p of Inl e \<Rightarrow> f e | Inr x \<Rightarrow> g x)"
  by (cases p) auto

locale file_steps =
  fixes W :: "('p, 'c) world" and path :: os_path and I :: "'p compiler \<Rightarrow> bool"
  assumes parsing: "keeps I (\<lambda>s. attempt (with_builder (parse_content (setting_of W s) file_path content)) s)"
    and updating: "keeps I (with_builder (update_asset (ps_builder (wd_setting W)) path rel_path h existing))"
    and sending: "keeps I (with_builder (send event))"
    and primary: "I s \<Longrightarrow> I (push_primary p s)"
    and reparse: "I s \<Longrightarrow> I (push_reparse path s)"
    and drop: "I s \<Longrightarrow> I (remove_from_queues path s)"
    and pending: "I s \<Longrightarrow> I (s\<lparr>cp_pending := ds\<rparr>)"
    and deferred: "I s \<Longrightarrow> I (s\<lparr>cp_deferred := ps\<rparr>)"
begin

lemma process_asset_reference: "I s \<Longrightarrow> I (process_asset_reference W path u s)"
  by (auto simp: process_asset_reference_def Let_def intro: primary reparse split: option.splits)

lemma note_dependency: "I s \<Longrightarrow> I (note_dependency path dep s)"
  by (simp add: note_dependency_def Let_def primary pending)

lemma process_unresolved_reference: "keeps I (process_unresolved_reference W path dep net)"
  by (auto simp: keeps_def process_unresolved_reference_def intro: note_dependency split: option.splits)

lemma settle_reference: "keeps I (settle_reference W path u deps)"
  unfolding settle_reference_def
  by (intro keeps_intros process_asset_reference process_unresolved_reference)

lemma settle_each: "keeps I (settle_each W path us deps)"
  by (induction us arbitrary: deps) (auto intro!: keeps_intros settle_reference)

lemma settle_references: "keeps I (settle_references W path us)"
  unfolding settle_references_def by (intro keeps_intros settle_each) (auto intro: reparse pending)

lemma finish_parse: "keeps I (finish_parse W path file_path res)"
  unfolding finish_parse_def by (intro keeps_intros settle_references) (auto intro: deferred)

lemma drop_with: "keeps I (drop_with path ds)"
  unfolding drop_with_def by (intro keeps_intros drop)

lemma process_asset: "keeps I (process_asset W path)"
proof -
  have "keeps I (and_then (if c then ret () else with_builder
      (update_asset (ps_builder (wd_setting W)) path r h e)) (\<lambda>_. drop_with path []))" for c r h e
    by (intro keeps_intros updating drop_with)
  then show ?thesis
    unfolding process_asset_def Let_def keeps_def
    by (auto split: if_splits sum.splits dest: keepsD [OF drop_with])
qed

lemma parse_file: "keeps I (parse_file W path file_path content n)"
  unfolding parse_file_def by (intro keeps_intros parsing sending finish_parse drop)

end

lemma parse_path_keeps:
  assumes "file_steps W path I" "parse_path W path s = Some (s', r)"
    and "get_parse_count path s < cp_max_reparse s"
    and "I (s\<lparr>cp_processed := bm_insert path (get_parse_count path s + 1) (cp_processed s)\<rparr>)"
  shows "I s'"
  using assms
  by (auto simp: parse_path_def Let_def
      dest: keepsD [OF file_steps.drop_with [OF assms(1)]] keepsD [OF file_steps.process_asset [OF assms(1)]]
        keepsD [OF file_steps.parse_file [OF assms(1)]]
      split: option.splits if_splits sum.splits)

section \<open>The queues\<close>

text \<open>What the steps of a file may do to the queues: only new files come in, only the file itself goes.\<close>

definition settles :: "os_path \<Rightarrow> 'p compiler \<Rightarrow> 'p compiler \<Rightarrow> bool" where
  "settles path s s' \<longleftrightarrow>
     cp_max_reparse s' = cp_max_reparse s \<and> cp_processed s' = cp_processed s
     \<and> (\<forall>q. queued q s' \<longrightarrow> queued q s \<or> q = path \<or> \<not> bm_contains (cp_processed s) q)
     \<and> (\<forall>q. queued q s \<longrightarrow> queued q s' \<or> q = path)"

lemma settles_refl: "settles path s s"
  by (simp add: settles_def)

lemma settles_frame:
  "settles path s t \<Longrightarrow> cp_max_reparse t' = cp_max_reparse t \<Longrightarrow> cp_processed t' = cp_processed t \<Longrightarrow>
   cp_primary t' = cp_primary t \<Longrightarrow> cp_reparse t' = cp_reparse t \<Longrightarrow> settles path s t'"
  by (simp add: settles_def queued_def)

interpretation settling: file_steps W path "settles path s" for W :: "('p, 'c) world" and path s
proof unfold_locales
  fix t p assume settled: "settles path s t"
  show "settles path s (push_primary p t)" "settles path s (push_reparse path t)"
    "settles path s (remove_from_queues path t)"
    using settled by (auto simp: settles_def push_primary_def push_reparse_def remove_from_queues_def queued_def)
qed (auto intro!: with_builder_keeps attempt_builder_keeps elim!: settles_frame)

definition queues_ok :: "'p compiler \<Rightarrow> bool" where
  "queues_ok s \<longleftrightarrow> distinct (cp_reparse s) \<and> (\<forall>p. get_parse_count p s \<le> cp_max_reparse s)"

lemma queues_ok_frame:
  "queues_ok s \<Longrightarrow> cp_max_reparse s' = cp_max_reparse s \<Longrightarrow> cp_processed s' = cp_processed s \<Longrightarrow>
   cp_reparse s' = cp_reparse s \<Longrightarrow> queues_ok s'"
  by (simp add: queues_ok_def get_parse_count_def)

interpretation counting: file_steps W path queues_ok for W :: "('p, 'c) world" and path
proof unfold_locales
  fix t :: "'p compiler" and p assume ok: "queues_ok t"
  show "queues_ok (push_primary p t)" using ok by (rule queues_ok_frame) (simp_all add: push_primary_def)
  show "queues_ok (push_reparse path t)" "queues_ok (remove_from_queues path t)"
    using ok by (auto simp: queues_ok_def push_reparse_def remove_from_queues_def get_parse_count_def)
qed (auto intro!: with_builder_keeps attempt_builder_keeps elim!: queues_ok_frame)

section \<open>The next file\<close>

lemma count_insert:
  "get_parse_count q (s\<lparr>cp_processed := bm_insert path n (cp_processed s)\<rparr>) = (if q = path then n else get_parse_count q s)"
  by (simp add: get_parse_count_def)

lemma contains_get: "bm_contains m k \<longleftrightarrow> bm_get m k \<noteq> None"
  by (induction m) (auto simp: bm_contains_def bm_get_Cons)

lemma parse_path_step:
  assumes "parse_path W path s = Some (s', r)"
  shows "if cp_max_reparse s \<le> get_parse_count path s
    then s' = remove_from_queues path s \<and> r = Inr (Some (brief_report path [ReparseLimitExceeded]))
    else settles path (s\<lparr>cp_processed := bm_insert path (get_parse_count path s + 1) (cp_processed s)\<rparr>) s'"
proof (cases "cp_max_reparse s \<le> get_parse_count path s")
  case True
  with assms show ?thesis
    by (auto simp: parse_path_def drop_with_def and_then_def modify_def ret_def Let_def)
next
  case False
  from parse_path_keeps [OF settling.file_steps_axioms assms] False settles_refl show ?thesis by auto
qed

lemma finalize_step:
  assumes "finalize W s = Some (s', r)"
  shows "s' = (if unseen_assets W s = [] then s else s\<lparr>cp_primary := cp_primary s @ unseen_assets W s\<rparr>)"
  using assms by (auto simp: finalize_def Let_def split: if_splits)

lemma first_min_in: "first_min f xs = Some x \<Longrightarrow> x \<in> set xs"
  by (induction xs arbitrary: x) (auto split: option.splits if_splits)

lemma next_queued: "next_path s = Some path \<Longrightarrow> queued path s"
  by (auto simp: next_path_def peek_next_reparse_candidate_def queued_def dest: first_min_in split: list.splits if_splits)

text \<open>A step parses a file that is queued, or one of the static files that were not looked at yet.\<close>

lemma parse_next_step:
  assumes "parse_next W s = Some (s', Inr (Some report))"
  obtains t path where "t = s \<or> t = s\<lparr>cp_primary := unseen_assets W s\<rparr> \<and> cp_primary s = []"
    "queued path t" "parse_path W path t = Some (s', Inr (Some report))"
proof (cases "next_path s")
  case None
  then have empty: "cp_primary s = []" by (auto simp: next_path_def split: list.splits)
  from None assms obtain t r where fin: "finalize W s = Some (t, Inr ())"
    and rest: "(case cp_primary t of path # _ \<Rightarrow> parse_path W path t | [] \<Rightarrow> Some (t, Inr None)) = Some (s', Inr (Some report))"
    by (auto simp: parse_next_def and_then_def split: option.splits sum.splits)
  from rest obtain path ps where p: "cp_primary t = path # ps" by (cases "cp_primary t") auto
  show ?thesis
    using rest p finalize_step [OF fin] empty by (intro that [of t path]) (auto simp: queued_def split: if_splits)
next
  case (Some path)
  with assms next_queued [OF Some] show ?thesis by (intro that [of s path]) (auto simp: parse_next_def)
qed

section \<open>How many files can be parsed\<close>

definition known :: "'p compiler \<Rightarrow> os_path set" where
  "known s = set (cp_primary s) \<union> set (cp_reparse s) \<union> fst ` set (cp_processed s)"

definition credit_of :: "'p compiler \<Rightarrow> os_path \<Rightarrow> nat" where
  "credit_of s p = (cp_max_reparse s - get_parse_count p s)
     + (if get_parse_count p s < cp_max_reparse s \<or> queued p s then 1 else 0)"

definition credit :: "os_path set \<Rightarrow> 'p compiler \<Rightarrow> nat" where
  "credit U s = (\<Sum>p \<in> U. credit_of s p)"

lemma credit_bound: "credit U s \<le> card U * (cp_max_reparse s + 1)"
proof -
  have "credit_of s p \<le> cp_max_reparse s + 1" for p by (simp add: credit_of_def)
  then show ?thesis using sum_bounded_above [of U "credit_of s" "cp_max_reparse s + 1"] by (simp add: credit_def)
qed

lemma finite_known: "finite (known s)"
  by (simp add: known_def)

lemma fresh_count: "\<not> bm_contains (cp_processed s) p \<Longrightarrow> get_parse_count p s = 0"
  by (simp add: contains_get get_parse_count_def)

lemma counted_processed: "0 < get_parse_count p s \<Longrightarrow> p \<in> fst ` set (cp_processed s)"
  using fresh_count [of s p] by (auto simp flip: bm_contains_iff)

lemma parse_path_credit:
  assumes run: "parse_path W path s = Some (s', r)" and "queued path s" "0 < cp_max_reparse s"
  shows "(\<forall>p. credit_of s' p \<le> credit_of s p) \<and> credit_of s' path < credit_of s path
    \<and> path \<in> known s' \<and> known s \<subseteq> known s' \<and> cp_max_reparse s' = cp_max_reparse s"
proof (cases "cp_max_reparse s \<le> get_parse_count path s")
  case True
  then have s': "s' = remove_from_queues path s" using parse_path_step [OF run] by simp
  have processed: "path \<in> fst ` set (cp_processed s)"
    using True assms(3) by (intro counted_processed) simp
  have same: "cp_max_reparse s' = cp_max_reparse s" "get_parse_count p s' = get_parse_count p s"
    "queued p s' \<longleftrightarrow> queued p s \<and> p \<noteq> path" for p
    by (auto simp: s' remove_from_queues_def get_parse_count_def queued_def)
  have "known s' = known s"
    using processed by (auto simp: known_def s' remove_from_queues_def)
  moreover have "path \<in> known s" using processed by (simp add: known_def)
  ultimately show ?thesis using True assms(2) by (simp add: credit_of_def same)
next
  case False
  let ?t = "s\<lparr>cp_processed := bm_insert path (get_parse_count path s + 1) (cp_processed s)\<rparr>"
  have steps: "settles path ?t s'" using parse_path_step [OF run] False by simp
  then have same: "cp_max_reparse s' = cp_max_reparse s" "cp_processed s' = cp_processed ?t"
    and new: "queued p s' \<Longrightarrow> queued p s \<or> p = path \<or> get_parse_count p s = 0"
    and old: "queued p s \<Longrightarrow> queued p s' \<or> p = path" for p
    using counted_processed [of p s] by (auto simp: settles_def queued_def bm_contains_iff keys_bm_insert)
  have count: "get_parse_count p s' = (if p = path then get_parse_count path s + 1 else get_parse_count p s)" for p
    using same(2) by (simp add: get_parse_count_def)
  have "credit_of s' p \<le> credit_of s p" if "p \<noteq> path" for p
    using new [of p] that assms(3) by (auto simp: credit_of_def count same(1))
  moreover have "credit_of s' path < credit_of s path"
    using False by (auto simp: credit_of_def count same(1))
  moreover have "path \<in> known s'" by (simp add: known_def same(2) keys_bm_insert)
  moreover have "known s \<subseteq> known s'"
    using old by (auto simp: known_def same(2) keys_bm_insert queued_def)
  ultimately show ?thesis using same(1) by (metis less_imp_le)
qed

lemma parse_next_credit:
  assumes run: "parse_next W s = Some (s', Inr (Some report))" and "0 < cp_max_reparse s"
    and "finite U" "known s' \<subseteq> U"
  shows "credit U s' < credit U s \<and> known s \<subseteq> known s' \<and> cp_max_reparse s' = cp_max_reparse s"
proof -
  obtain t path where t: "t = s \<or> t = s\<lparr>cp_primary := unseen_assets W s\<rparr> \<and> cp_primary s = []"
    and path: "queued path t" "parse_path W path t = Some (s', Inr (Some report))"
    by (rule parse_next_step [OF run])
  have max: "cp_max_reparse t = cp_max_reparse s" using t by auto
  have unseen: "p \<in> set (unseen_assets W s) \<Longrightarrow> get_parse_count p s = 0" for p
    by (auto simp: unseen_assets_def Let_def intro: fresh_count)
  have start: "known s \<subseteq> known t" "credit_of t = credit_of s"
    using t unseen assms(2) by (auto simp: known_def credit_of_def queued_def get_parse_count_def fun_eq_iff)
  note step = parse_path_credit [OF path(2,1), unfolded max, OF assms(2)]
  have "credit U s' < credit U s"
    unfolding credit_def start(2) [symmetric]
    using step assms(3,4) by (intro sum_strict_mono_ex1) auto
  with step start(1) show ?thesis by auto
qed

lemma parse_rounds_credit:
  "parse_rounds Ws fuel k latest s = Some (s', Inr (Unfinished l)) \<Longrightarrow> 0 < cp_max_reparse s \<Longrightarrow>
   finite U \<Longrightarrow> known s' \<subseteq> U \<Longrightarrow>
   fuel + credit U s' \<le> credit U s \<and> known s \<subseteq> known s' \<and> cp_max_reparse s' = cp_max_reparse s"
proof (induction fuel arbitrary: k latest s)
  case (Suc fuel)
  then obtain t r where first: "parse_next (Ws k) s = Some (t, Inr (Some r))"
    and rest: "parse_rounds Ws fuel (Suc k) (note_report r latest) t = Some (s', Inr (Unfinished l))"
    by (auto simp: and_then_eq ret_def split: option.splits)
  have max: "cp_max_reparse t = cp_max_reparse s"
    using parse_next_credit [OF first Suc.prems(2) finite_known order_refl] by simp
  with Suc.IH [OF rest _ Suc.prems(3,4)] Suc.prems(2)
  have later: "fuel + credit U s' \<le> credit U t" "known t \<subseteq> known s'" "cp_max_reparse s' = cp_max_reparse t" by simp_all
  with parse_next_credit [OF first Suc.prems(2,3)] Suc.prems(4) max show ?case by fastforce
qed (simp add: ret_def)

section \<open>What runs keep\<close>

lemma parse_next_keeps:
  assumes step: "\<And>path. file_steps W path I"
    and counted: "\<And>s path. I s \<Longrightarrow> get_parse_count path s < cp_max_reparse s \<Longrightarrow>
      I (s\<lparr>cp_processed := bm_insert path (get_parse_count path s + 1) (cp_processed s)\<rparr>)"
    and unseen: "\<And>s ps. I s \<Longrightarrow> I (s\<lparr>cp_primary := cp_primary s @ ps\<rparr>)"
  shows "keeps I (parse_next W)"
proof -
  have path: "I s \<Longrightarrow> parse_path W p s = Some (s', r) \<Longrightarrow> I s'" for p s s' r
  proof -
    assume i: "I s" and run: "parse_path W p s = Some (s', r)"
    show "I s'"
    proof (cases "cp_max_reparse s \<le> get_parse_count p s")
      case True
      with parse_path_step [OF run] file_steps.drop [OF step i] show ?thesis by simp
    qed (intro parse_path_keeps [OF step run] counted i, simp_all)
  qed
  have fin: "I s \<Longrightarrow> finalize W s = Some (t, r) \<Longrightarrow> I t" for s t r
    by (drule finalize_step) (auto intro: unseen)
  show ?thesis
    unfolding keeps_def parse_next_def and_then_def
    by (auto split: option.splits sum.splits list.splits intro: path fin)
qed

lemma parse_rounds_keeps:
  "(\<And>k. keeps I (parse_next (Ws k))) \<Longrightarrow> keeps I (parse_rounds Ws fuel k latest)"
  by (induction fuel arbitrary: k latest) (auto intro!: keeps_intros)

locale batch = fixes Ws :: "nat \<Rightarrow> ('p, 'c) world" and I :: "'p compiler \<Rightarrow> bool"
  assumes steps: "file_steps (Ws k) path I"
    and counted: "I s \<Longrightarrow> I (s\<lparr>cp_processed := bm_insert path n (cp_processed s)\<rparr>)"
    and queue: "I s \<Longrightarrow> I (s\<lparr>cp_primary := ps\<rparr>)"
    and task: "keeps I (run_task (Ws k) root file_path content)"
    and seed: "keeps I (seed_repo (Ws k) results)"
begin

lemma parse_next: "keeps I (parse_next (Ws k))"
  by (intro parse_next_keeps steps) (auto intro: counted queue)

lemma parse_epoch_parallel: "keeps I (parse_epoch_parallel Ws k paths)"
proof (induction paths arbitrary: k)
  case (Cons path paths)
  have "keeps I (epoch_task (Ws k) path)"
    using task by (auto simp: keeps_def epoch_task_def split: option.splits sum.splits)
  with Cons show ?case by (auto intro!: keeps_intros)
qed (simp add: keeps_pure)

lemma settle_task: "keeps I (settle_task (Ws k) t)"
  unfolding settle_task_def
  by (intro keeps_intros file_steps.finish_parse [OF steps] counted)

lemma settle_tasks: "keeps I (settle_tasks (Ws k) tasks latest)"
  by (induction tasks arbitrary: latest) (auto intro!: keeps_intros settle_task)

lemma first_epoch: "keeps I (first_epoch Ws)"
  unfolding first_epoch_def
  by (intro keeps_intros parse_epoch_parallel seed settle_tasks) (auto intro: queue)

lemma enqueued: "I s \<Longrightarrow> I (fold (enqueue F) ps s)"
  by (induction ps arbitrary: s) (auto simp: enqueue_def Let_def intro: queue)

lemma parse_all: "keeps I (parse_all Ws fuel force)"
proof -
  have "keeps I (\<lambda>s. if cp_jobs s \<le> 1 then Some (s, Inr []) else first_epoch Ws s)"
    using first_epoch by (auto simp: keeps_def)
  then show ?thesis
    unfolding parse_all_def by (intro keeps_intros parse_rounds_keeps parse_next) (auto intro: enqueued)
qed

end

interpretation limit: batch Ws "\<lambda>s. cp_max_reparse s = m" for Ws :: "nat \<Rightarrow> ('p, 'c) world" and m
proof (rule batch.intro)
  show "file_steps (Ws k) path (\<lambda>s. cp_max_reparse s = m)" for k path
    by unfold_locales
      (auto simp: push_primary_def push_reparse_def remove_from_queues_def
        intro!: with_builder_keeps attempt_builder_keeps)
qed (auto simp: keeps_def run_task_def seed_repo_def Let_def and_then_def modify_def ret_def with_builder_def
    split: sum.splits option.splits)

lemma enqueue_max: "cp_max_reparse (fold (enqueue F) ps s) = cp_max_reparse s"
  by (rule limit.enqueued [where m = "cp_max_reparse s"]) simp

text \<open>\<open>parse_all\<close> ends in a run of its loop, from a state with the same limit.\<close>

lemma parse_all_unfinished:
  assumes "parse_all Ws fuel force s = Some (s', Inr (Unfinished reports))"
  obtains t k latest l where "parse_rounds Ws fuel k latest t = Some (s', Inr (Unfinished l))"
    "cp_max_reparse t = cp_max_reparse s"
proof -
  let ?u = "\<lambda>stale. fold (enqueue (files_of (Ws 0))) stale s"
  from assms obtain stale t k latest final where
    epoch: "(if cp_jobs (?u stale) \<le> 1 then Some (?u stale, Inr []) else first_epoch Ws (?u stale)) = Some (t, Inr latest)"
    and rounds: "parse_rounds Ws fuel (Suc k) latest t = Some (s', Inr final)"
    and final: "(case final of Unfinished l \<Rightarrow> Unfinished (promote_unresolved_to_warnings (Ws 0) (map snd l))
        | Finished l \<Rightarrow> Finished (promote_unresolved_to_warnings (Ws 0) (map snd l))) = Unfinished reports"
    unfolding parse_all_def by (auto simp: and_then_eq lift_result_def modify_def gets_def ret_def)
  from final obtain l where l: "final = Unfinished l" by (cases final) auto
  have "cp_max_reparse t = cp_max_reparse s"
    using epoch keepsD [OF limit.first_epoch [where m = "cp_max_reparse s"]] enqueue_max [of "files_of (Ws 0)" stale s]
    by (auto split: if_splits)
  with rounds show ?thesis unfolding l by (rule that)
qed

section \<open>Files that fail\<close>

definition never_parses :: "(nat \<Rightarrow> ('p, 'c) world) \<Rightarrow> os_path \<Rightarrow> bool" where
  "never_parses Ws path \<longleftrightarrow>
     (\<forall>k. \<not> fs_is_dir (files_of (Ws k)) path \<and> codec_for_path (wd_setting (Ws k)) path \<noteq> None
        \<and> (\<exists>content. wd_read (Ws k) path = Inr content \<and> (\<forall>idx b. \<exists>b' e.
             parse_content ((wd_setting (Ws k))\<lparr>ps_index := idx\<rparr>) path content b = Some (b', Inl e))))"

lemma failing_step:
  assumes "never_parses Ws path" "cp_primary s = path # rest" "get_parse_count path s < cp_max_reparse s"
  shows "\<exists>b report. parse_next (Ws k) s = Some
    (s\<lparr>cp_processed := bm_insert path (get_parse_count path s + 1) (cp_processed s), cp_builder := b\<rparr>, Inr (Some report))"
proof -
  let ?s = "s\<lparr>cp_processed := bm_insert path (get_parse_count path s + 1) (cp_processed s)\<rparr>"
  from assms(1) obtain content where found: "\<not> fs_is_dir (files_of (Ws k)) path"
    "codec_for_path (wd_setting (Ws k)) path \<noteq> None" "wd_read (Ws k) path = Inr content"
    and fails: "\<And>idx b. \<exists>b' e. parse_content ((wd_setting (Ws k))\<lparr>ps_index := idx\<rparr>) path content b = Some (b', Inl e)"
    unfolding never_parses_def by blast
  from fails obtain b e where "parse_content ((wd_setting (Ws k))\<lparr>ps_index := cp_index s\<rparr>) path content (cp_builder s)
      = Some (b, Inl e)" by blast
  then have "parse_file (Ws k) path path content n ?s
      = Some (?s\<lparr>cp_builder := b\<rparr>, Inr (Some (brief_report path [parse_error (''Parse failed: '' @ wd_error_text (Ws k) e) n])))"
    for n by (simp add: parse_file_def and_then_def attempt_def with_builder_def setting_of_def ret_def)
  with found assms(2,3) show ?thesis
    by (auto simp: parse_next_def next_path_def parse_path_def file_of_def Let_def)
qed

lemma failing_rounds:
  assumes "never_parses Ws path"
  shows "cp_primary s = path # rest \<Longrightarrow> get_parse_count path s \<le> cp_max_reparse s \<Longrightarrow>
    \<exists>s' l. parse_rounds Ws (Suc (cp_max_reparse s - get_parse_count path s)) k latest s = Some (s', Inr (Unfinished l))
      \<and> cp_primary s' = filter (\<lambda>p. p \<noteq> path) rest \<and> cp_reparse s' = filter (\<lambda>p. p \<noteq> path) (cp_reparse s)
      \<and> get_parse_count path s' = cp_max_reparse s"
proof (induction "cp_max_reparse s - get_parse_count path s" arbitrary: s k latest)
  case 0
  then have full: "get_parse_count path s = cp_max_reparse s" by simp
  have "parse_next (Ws k) s = Some (remove_from_queues path s, Inr (Some (brief_report path [ReparseLimitExceeded])))"
    using 0 by (simp add: parse_next_def next_path_def parse_path_def Let_def drop_with_def and_then_def modify_def ret_def)
  then show ?case using 0 full by (simp add: and_then_def ret_def remove_from_queues_def get_parse_count_def)
next
  case (Suc n)
  then have less: "get_parse_count path s < cp_max_reparse s" by simp
  from failing_step [OF assms Suc.prems(1) less, of k] obtain b report where
    run: "parse_next (Ws k) s = Some (s\<lparr>cp_processed := bm_insert path (get_parse_count path s + 1) (cp_processed s),
      cp_builder := b\<rparr>, Inr (Some report))" by blast
  let ?t = "s\<lparr>cp_processed := bm_insert path (get_parse_count path s + 1) (cp_processed s), cp_builder := b\<rparr>"
  have count: "get_parse_count path ?t = Suc (get_parse_count path s)" by (simp add: get_parse_count_def)
  have n: "n = cp_max_reparse ?t - get_parse_count path ?t" using Suc.hyps(2) unfolding count by simp
  have "cp_primary ?t = path # rest" "get_parse_count path ?t \<le> cp_max_reparse ?t"
    using Suc.prems(1) less unfolding count by simp_all
  from Suc.hyps(1) [OF n this, of "Suc k" "note_report report latest"]
  obtain s' l where "parse_rounds Ws (Suc n) (Suc k) (note_report report latest) ?t = Some (s', Inr (Unfinished l))"
    "cp_primary s' = filter (\<lambda>p. p \<noteq> path) rest" "cp_reparse s' = filter (\<lambda>p. p \<noteq> path) (cp_reparse s)"
    "get_parse_count path s' = cp_max_reparse s"
    unfolding n [symmetric] by auto
  with run show ?case
    unfolding Suc.hyps(2) [symmetric] parse_rounds.simps(2) [of Ws "Suc n"] by (auto simp: and_then_def)
qed

section \<open>Files that wait\<close>

lemma first_min_spec:
  "first_min f xs = Some x \<longleftrightarrow>
   (\<exists>before after. xs = before @ x # after \<and> list_all (\<lambda>y. f x < f y) before \<and> list_all (\<lambda>y. f x \<le> f y) after)"
proof (induction xs arbitrary: x)
  case (Cons a xs)
  have split: "(\<exists>before after. a # xs = before @ x # after \<and> Q before after) \<longleftrightarrow>
      x = a \<and> Q [] xs \<or> (\<exists>before after. xs = before @ x # after \<and> Q (a # before) after)" for Q
    by (auto simp: Cons_eq_append_conv)
  show ?case
  proof (cases "first_min f xs")
    case None
    then have "xs = []" by (cases xs) (auto split: option.splits if_splits)
    then show ?thesis by (auto simp: Cons_eq_append_conv)
  next
    case (Some y)
    with Cons.IH [of y] obtain before after where y: "xs = before @ y # after"
      "list_all (\<lambda>z. f y < f z) before" "list_all (\<lambda>z. f y \<le> f z) after" by auto
    have least: "list_all (\<lambda>z. f a \<le> f z) xs \<longleftrightarrow> f a \<le> f y"
      using y by (force simp: list_all_iff)
    show ?thesis
      unfolding split using Some least Cons.IH [of x] by auto
  qed
qed simp

end
