(* ===== verification/CompilerCorrect.thy ===== *)
theory CompilerCorrect
  imports CompilerProps
begin

text \<open>
  The properties of the document compiler: the loop ends, no file is parsed more often than its limit, the
  store of the session stays in shape throughout, files that fail are given up, and what happens to
  files that wait.
\<close>

section \<open>The session\<close>

lemma attempt_builder_lift:
  "(\<And>s. keeps J (m s)) \<Longrightarrow> keeps (\<lambda>s. J (cp_builder s)) (\<lambda>s. attempt (with_builder (m s)) s)"
  by (fastforce simp: keeps_def attempt_def with_builder_def)

interpretation logging: session_invariant C "\<lambda>b. prefix log (gb_tx b)" for C :: "'p setting" and log
  by unfold_locales (auto simp: keeps_def process_doc_def process_session_def split: option.splits sum.splits)

definition builder_of :: "('p, 'c) world \<Rightarrow> 'p setting" where
  "builder_of W = ps_builder (wd_setting W)"

definition session_kept :: "(nat \<Rightarrow> ('p, 'c) world) \<Rightarrow> 'p job \<Rightarrow> bool" where
  "session_kept Ws b \<longleftrightarrow> base_inv (gb_session_bb b) \<or> (\<exists>k. \<not> edges_in_ok (cx_ops (builder_of (Ws k))))"

lemma session_kept_lift:
  assumes "keeps (session_ok (builder_of (Ws k))) m"
  shows "keeps (session_kept Ws) m"
proof (cases "\<exists>k. \<not> edges_in_ok (cx_ops (builder_of (Ws k)))")
  case False
  then have "session_ok (builder_of (Ws k)) = session_kept Ws"
    by (auto simp: session_ok_def session_kept_def fun_eq_iff)
  with assms show ?thesis by simp
qed (auto simp: keeps_def session_kept_def)

lemma session_derivatives_keeps: "keeps (session_ok C) (session_derivatives C events)"
  by (induction events) (auto intro!: keeps_intros session.session_event)

lemma update_asset_keeps: "keeps (session_ok C) (update_asset C path rel_path h existing)"
  unfolding update_asset_def Let_def
  by (intro keeps_intros session_derivatives_keeps session.run_doc session.send) (simp add: session_ok_def)

interpretation keeping: batch Ws "\<lambda>s. session_kept Ws (cp_builder s)" for Ws :: "nat \<Rightarrow> ('p, 'c) world"
proof (rule batch.intro)
  show "file_steps (Ws k) path (\<lambda>s. session_kept Ws (cp_builder s))" for k path
  proof
    fix file_path content
    have "keeps (session_ok (builder_of (Ws k))) (parse_content (setting_of (Ws k) s) file_path content)" for s
      by (rule session.parse_content) (simp add: setting_of_def builder_of_def)
    then show "keeps (\<lambda>s. session_kept Ws (cp_builder s))
        (\<lambda>s. attempt (with_builder (parse_content (setting_of (Ws k) s) file_path content)) s)"
      by (intro attempt_builder_lift session_kept_lift [of _ k])
    show "keeps (\<lambda>s. session_kept Ws (cp_builder s))
        (with_builder (update_asset (ps_builder (wd_setting (Ws k))) path rel_path h existing))" for rel_path h existing
      using update_asset_keeps
      by (intro with_builder_lift session_kept_lift [of _ k]) (simp add: builder_of_def)
    show "keeps (\<lambda>s. session_kept Ws (cp_builder s)) (with_builder (send event))" for event
      by (intro with_builder_lift session_kept_lift [of _ 0] session.send)
  qed (simp_all add: push_primary_def push_reparse_def remove_from_queues_def)
next
  fix k results
  have seed: "keeps (session_kept Ws) (ignore_error (process_session (builder_of (Ws k)) event))" for event
    by (intro keeps_intros session_kept_lift [of _ k] session.session_event)
  show "keeps (\<lambda>s. session_kept Ws (cp_builder s)) (seed_repo (Ws k) results)"
    unfolding seed_repo_def Let_def
    by (intro keeps_and_then keeps_option keeps_modify keeps_pure with_builder_lift seed [unfolded builder_of_def])
      (simp add: session_kept_def)
qed (auto simp: keeps_def run_task_def session_kept_def Let_def split: sum.splits)

section \<open>Batches\<close>

lemma epoch_task_eq:
  assumes "file_of (files_of W) path = Some file_path" "wd_read W file_path = Inr content"
    and "builder_new (cx_ext (builder_of W)) (cx_build (builder_of W)) (cx_ops (builder_of W)) (files_of W)
      (gb_repo_root (cp_builder s)) = Inr b"
    and "gb_tx_open (cp_builder s)"
  shows "epoch_task W path s =
    map_option (\<lambda>(b, r). (s\<lparr>cp_builder := (cp_builder s)\<lparr>gb_tx := gb_tx b, jb_clock := jb_clock b\<rparr>\<rparr>, Inr r))
      (parse_content (setting_of W s) file_path content (open_job b
        (gb_tx (cp_builder s) @ [FileParsed (os_path_to_string file_path)]) True (jb_clock (cp_builder s))))"
  using assms
  by (simp add: epoch_task_def run_task_def builder_of_def setting_of_def and_then_def ignore_error_def send_def
      open_job_def Let_def)

section \<open>Attempts\<close>

text \<open>The files a run parses, read off its reports. Only the limit itself gives a report that says nothing else.\<close>

fun tried :: "(nat \<Rightarrow> ('p, 'c) world) \<Rightarrow> nat \<Rightarrow> nat \<Rightarrow> 'p compiler \<Rightarrow> os_path list" where
  "tried Ws 0 k s = []"
| "tried Ws (Suc fuel) k s =
     (case parse_next (Ws k) s of
        Some (s', Inr (Some report)) \<Rightarrow>
          (if rp_diagnostics report = [ReparseLimitExceeded] then [] else [rp_path report]) @ tried Ws fuel (Suc k) s'
      | _ \<Rightarrow> [])"

text \<open>With more than one job each file of the first queue is parsed in the batch.\<close>

definition tried_all :: "(nat \<Rightarrow> ('p, 'c) world) \<Rightarrow> nat \<Rightarrow> bool \<Rightarrow> 'p compiler \<Rightarrow> os_path list" where
  "tried_all Ws fuel force s =
     (case check_stale_files (Ws 0) force of
        Inl e \<Rightarrow> []
      | Inr stale \<Rightarrow>
          let s = fold (enqueue (files_of (Ws 0))) stale s
          in if cp_jobs s \<le> 1 then tried Ws fuel 1 s
             else cp_primary s @ (case first_epoch Ws s of
                 Some (t, Inr latest) \<Rightarrow> tried Ws fuel (Suc (length (cp_primary s))) t
               | _ \<Rightarrow> []))"

lemma drop_with_report: "drop_with path ds s = Some (s', Inr (Some report)) \<Longrightarrow> report = brief_report path ds"
  by (auto simp: drop_with_def and_then_eq modify_def ret_def)

lemma process_asset_report: "process_asset W path s = Some (s', Inr (Some report)) \<Longrightarrow> rp_path report = path"
  by (auto simp: process_asset_def Let_def and_then_eq brief_report_def dest!: drop_with_report
      split: if_splits sum.splits)

lemma finish_parse_report: "finish_parse W path file_path res s = Some (s', Inr report) \<Longrightarrow> rp_path report = path"
  by (auto simp: finish_parse_def and_then_eq ret_def)

lemma parse_path_report:
  assumes "parse_path W path s = Some (s', Inr (Some report))"
  shows "rp_path report = path"
proof -
  have "rp_path report = path" if run: "parse_file W path file_path content n t = Some (s', Inr (Some report))" for file_path content n t
  proof -
    from run obtain u x where "(case x of
        Inl e \<Rightarrow> ret (Some (brief_report path [parse_error (''Parse failed: '' @ wd_error_text W e) n]))
      | Inr res \<Rightarrow>
          and_then (modify (remove_from_queues path)) (\<lambda>_.
          and_then (with_builder (send (FileParsed (os_path_to_string file_path)))) (\<lambda>_.
          and_then (finish_parse W path file_path res) (\<lambda>report. ret (Some report))))) u = Some (s', Inr (Some report))"
      unfolding parse_file_def and_then_eq [of "\<lambda>s. attempt (with_builder (m s)) s" for m] by blast
    then show ?thesis
      by (cases x) (auto simp: and_then_eq ret_def brief_report_def dest: finish_parse_report)
  qed
  with assms show ?thesis
    by (auto simp: parse_path_def Let_def brief_report_def dest: process_asset_report dest!: drop_with_report
        split: if_splits option.splits sum.splits)
qed

lemma tried_limit: "count_list (tried Ws fuel k s) p \<le> cp_max_reparse s - get_parse_count p s"
proof (induction fuel arbitrary: k s)
  case (Suc fuel)
  show ?case
  proof (cases "\<exists>s' report. parse_next (Ws k) s = Some (s', Inr (Some report))")
    case True
    then obtain s' report where run: "parse_next (Ws k) s = Some (s', Inr (Some report))" by blast
    obtain t path where t: "t = s \<or> t = s\<lparr>cp_primary := unseen_assets (Ws k) s\<rparr> \<and> cp_primary s = []"
      and path: "parse_path (Ws k) path t = Some (s', Inr (Some report))"
      by (rule parse_next_step [OF run])
    have same: "cp_max_reparse t = cp_max_reparse s" "get_parse_count q t = get_parse_count q s" for q
      using t by (auto simp: get_parse_count_def)
    note step = parse_path_step [OF path] and report = parse_path_report [OF path]
    show ?thesis
    proof (cases "cp_max_reparse s \<le> get_parse_count path s")
      case True
      with step same have "rp_diagnostics report = [ReparseLimitExceeded]" "cp_max_reparse s' = cp_max_reparse s"
        "get_parse_count p s' = get_parse_count p s"
        by (simp_all add: brief_report_def remove_from_queues_def get_parse_count_def)
      with Suc.IH [of "Suc k" s'] run show ?thesis by simp
    next
      case False
      with step same have s': "settles path (t\<lparr>cp_processed := bm_insert path (get_parse_count path s + 1) (cp_processed t)\<rparr>) s'"
        by simp
      then have "cp_max_reparse s' = cp_max_reparse s" using same(1) by (simp add: settles_def)
      moreover have "get_parse_count p s' = (if p = path then get_parse_count path s + 1 else get_parse_count p s)"
        using s' same(2) [of p] by (simp add: settles_def get_parse_count_def)
      ultimately show ?thesis using Suc.IH [of "Suc k" s'] run report False by (auto split: if_splits)
    qed
  next
    case False
    then show ?thesis by (auto split: option.splits sum.splits)
  qed
qed simp

lemma enqueue_frame:
  "cp_jobs (fold (enqueue F) ps s) = cp_jobs s" "cp_max_reparse (fold (enqueue F) ps s) = cp_max_reparse s"
  "get_parse_count p (fold (enqueue F) ps s) = get_parse_count p s"
  by (induction ps arbitrary: s) (simp_all add: enqueue_def Let_def get_parse_count_def)

lemma enqueue_distinct: "distinct (cp_primary s) \<Longrightarrow> distinct (cp_primary (fold (enqueue F) ps s))"
  by (induction ps arbitrary: s) (simp_all add: enqueue_def Let_def queued_def)

lemma distinct_count_atmost_1: "distinct xs \<Longrightarrow> count_list xs x \<le> 1"
  by (induction xs) auto

section \<open>Correctness\<close>

text \<open>C23. \<open>parse_all\<close> ends: where the limit on attempts is positive and the files it gets to know are among finitely
  many, it stops after at most as many steps as each of them can be parsed, and one more to give it up. The parse of
  one file is a function of the model, which returns.\<close>

theorem parse_all_terminates:
  assumes "0 < cp_max_reparse s" "finite U" "known s' \<subseteq> U" "card U * (cp_max_reparse s + 1) < fuel"
  shows "parse_all Ws fuel force s \<noteq> Some (s', Inr (Unfinished reports))"
proof
  assume "parse_all Ws fuel force s = Some (s', Inr (Unfinished reports))"
  then obtain t k latest l where rounds: "parse_rounds Ws fuel k latest t = Some (s', Inr (Unfinished l))"
    and max: "cp_max_reparse t = cp_max_reparse s" by (rule parse_all_unfinished)
  have "fuel + credit U s' \<le> credit U t"
    using parse_rounds_credit [OF rounds _ assms(2,3)] assms(1) max by simp
  then show False using credit_bound [of U t] assms(4) max by simp
qed

text \<open>The counts of all files stay within the limit, whatever fails or is found on the way, and no file waits twice.\<close>

theorem rounds_keep_queues:
  assumes "queues_ok s" "parse_rounds Ws fuel k latest s = Some (s', r)"
  shows "queues_ok s'"
proof -
  have "keeps queues_ok (parse_next W)" for W :: "('a, 'b) world"
  proof (rule parse_next_keeps)
    show "file_steps W path queues_ok" for path by (rule counting.file_steps_axioms)
  qed (auto simp: queues_ok_def get_parse_count_def)
  from keepsD [OF parse_rounds_keeps [OF this] assms(2,1)] show ?thesis .
qed

text \<open>
  C24. No file is parsed more often in a run than the limit, less what it was parsed before, whatever fails or is found
  on the way. With more than one job it can be parsed once more: a parse that fails in the batch is not counted. The
  attempts are not those the compiler counts but those seen from outside: the files of the batch, and then the file of
  each report but that of the limit itself.
\<close>

theorem parse_limit:
  assumes "distinct (cp_primary s)"
  shows "count_list (tried_all Ws fuel force s) path
    \<le> (if cp_jobs s \<le> 1 then cp_max_reparse s - get_parse_count path s else cp_max_reparse s + 1)"
proof (cases "check_stale_files (Ws 0) force")
  case (Inr stale)
  let ?u = "fold (enqueue (files_of (Ws 0))) stale s"
  note u = enqueue_frame [where F = "files_of (Ws 0)" and ps = stale and s = s]
  show ?thesis
  proof (cases "cp_jobs s \<le> 1")
    case True
    with tried_limit [of Ws fuel 1 ?u path] show ?thesis by (simp add: tried_all_def Inr u Let_def)
  next
    case False
    have batch: "count_list (cp_primary ?u) path \<le> 1"
      by (rule distinct_count_atmost_1 [OF enqueue_distinct [OF assms]])
    have "count_list (tried Ws fuel k t) path \<le> cp_max_reparse s" if "first_epoch Ws ?u = Some (t, Inr latest)" for t latest k
      using keepsD [OF limit.first_epoch [where m = "cp_max_reparse s"] that] tried_limit [of Ws fuel k t path] u by simp
    with batch False show ?thesis
      by (auto simp: tried_all_def Inr u Let_def intro: add_mono order_trans split: option.splits sum.splits)
  qed
qed (simp add: tried_all_def)

text \<open>C25. The store of the session stays in shape through a whole run over all files, in one batch or one by
  one, with failing files, static files and errors.\<close>

theorem parse_all_keeps_session:
  fixes Ws :: "nat \<Rightarrow> ('p, 'c) world"
  assumes "\<forall>k. edges_in_ok (cx_ops (builder_of (Ws k)))"
    and "base_inv (gb_session_bb (cp_builder s))" "parse_all Ws fuel force s = Some (s', r)"
  shows "base_inv (gb_session_bb (cp_builder s'))"
  using keepsD [OF keeping.parse_all assms(3)] assms(1,2) by (simp add: session_kept_def)

text \<open>C26. A file that cannot be parsed is tried again at once, up to the limit, then dropped from both queues
  without having been parsed, before any other file.\<close>

theorem failing_file_given_up:
  assumes "never_parses Ws path" "cp_primary s = path # rest" "get_parse_count path s \<le> cp_max_reparse s"
  shows "\<exists>s' l. parse_rounds Ws (Suc (cp_max_reparse s - get_parse_count path s)) k latest s = Some (s', Inr (Unfinished l))
    \<and> cp_primary s' = filter (\<lambda>p. p \<noteq> path) rest \<and> cp_reparse s' = filter (\<lambda>p. p \<noteq> path) (cp_reparse s)
    \<and> get_parse_count path s' = cp_max_reparse s"
  using failing_rounds [OF assms] by blast

text \<open>Of the files that wait, the first of those with the fewest dependencies not yet parsed is next, unless
  the queue counts as stable and nothing is queued or updated.\<close>

theorem reparse_candidate_least:
  "peek_next_reparse_candidate s = Some path \<longleftrightarrow>
   (cp_primary s \<noteq> [] \<or> cp_updates s \<noteq> [] \<or> cp_stable s = False)
   \<and> (\<exists>before after. cp_reparse s = before @ path # after
        \<and> list_all (\<lambda>q. unresolved_count s path < unresolved_count s q) before
        \<and> list_all (\<lambda>q. unresolved_count s path \<le> unresolved_count s q) after)"
  by (auto simp: peek_next_reparse_candidate_def first_min_spec)

text \<open>In the loop of the watch service, where nothing reports updates to the compiler, a change of a file that
  waits to be parsed again is lost: the file is not queued, since it waits, and not parsed, since the
  queue counts as stable.\<close>

theorem edit_of_waiting_file_lost:
  assumes "cp_primary s = []" "cp_updates s = []" "normalize_queue_path (files_of W) path \<in> set (cp_reparse s)"
    and "unseen_assets W (reset_processed path s) = []" "cp_html s = None"
  shows "\<exists>s'. parse_next W (start_reparse_round (enqueue (files_of W) path (reset_processed path s))) = Some (s', Inr None)
    \<and> cp_reparse s' = cp_reparse s"
proof -
  let ?s = "reset_processed path s"
  have "enqueue (files_of W) path ?s = ?s"
    using assms(3) by (simp add: enqueue_def queued_def reset_processed_def Let_def)
  moreover have "start_reparse_round ?s = ?s\<lparr>cp_stable := True\<rparr>"
    using assms(1-3) by (auto simp: start_reparse_round_def reset_processed_def)
  moreover have "unseen_assets W (?s\<lparr>cp_stable := True\<rparr>) = []"
    using assms(4) by (simp add: unseen_assets_def asset_path_of_def [abs_def] Let_def)
  ultimately show ?thesis
    using assms(1,2,5)
    by (simp add: parse_next_def next_path_def peek_next_reparse_candidate_def finalize_def and_then_def
        reset_processed_def Let_def)
qed

text \<open>In a batch a file is reported as parsed before it is: its time of modification reaches the global
  source even if the parse fails, so that the file does not count as stale afterwards.\<close>

theorem batch_reports_failures:
  assumes "file_of (files_of W) path = Some file_path" "wd_read W file_path = Inr content"
    and "builder_new (cx_ext (builder_of W)) (cx_build (builder_of W)) (cx_ops (builder_of W)) (files_of W)
      (gb_repo_root (cp_builder s)) = Inr b"
    and "gb_tx_open (cp_builder s)" "epoch_task W path s = Some (s', Inr (Inl e))"
  shows "prefix (gb_tx (cp_builder s) @ [FileParsed (os_path_to_string file_path)]) (gb_tx (cp_builder s'))"
  using assms(5) keepsD [OF logging.parse_content [OF refl]]
  unfolding epoch_task_eq [OF assms(1-4)] by (fastforce simp: open_job_def)

section \<open>Witnesses\<close>

text \<open>A repository with one document, which a codec claims and the builder refuses.\<close>

abbreviation lone_file :: os_path where "lone_file \<equiv> [[], ''r'', ''a.md'']"

definition lone_codec :: "(unit, unit) doc_codec" where
  "lone_codec =
     \<lparr>dc_fresh = (), dc_proto = \<lambda>p. Some (Inr None), dc_parse = \<lambda>text proto c ds. Some (Inr (), ds), dc_nodes = \<lambda>c. [],
      dc_inject = \<lambda>c proto ctx ds. (Inr ((), None), ds), dc_finalize = \<lambda>c ds. (Inr ((), []), ds),
      dc_generate = \<lambda>c. None, dc_should_defer = \<lambda>c. False, dc_generate_html = \<lambda>c. Inr []\<rparr>"

definition lone_world :: "query_ext \<Rightarrow> build_env \<Rightarrow> (unit, unit) world" where
  "lone_world X env =
     \<lparr>wd_setting = \<lparr>ps_builder = plain_setting X env, ps_codecs = codec_create lone_codec lone_codec,
        ps_files = (same_files [lone_file, [[], ''r'', ''index.md'']])\<lparr>fs_canonical := Inr\<rparr>, ps_index = proto_index_new\<rparr>,
      wd_read = \<lambda>p. Inr [], wd_hash = \<lambda>p. Inr [], wd_write = \<lambda>p text. Inr (), wd_template = [],
      wd_assets = Inr (), wd_spa_shell = \<lambda>b. Inr (), wd_mtimes = Inr [], wd_modified = \<lambda>p. None,
      wd_error_text = \<lambda>e. [], wd_key_text = \<lambda>key. []\<rparr>"

definition lone_compiler :: "os_path list \<Rightarrow> os_path list \<Rightarrow> unit compiler" where
  "lone_compiler first waiting =
     \<lparr>cp_write = False, cp_jobs = 1, cp_html = None, cp_builder = (plain_job [])\<lparr>gb_repo_root := [[], ''r'']\<rparr>,
      cp_index = proto_index_new, cp_primary = first, cp_reparse = waiting, cp_pending = [], cp_processed = [],
      cp_max_reparse = 3, cp_updates = [], cp_stable = False, cp_deferred = []\<rparr>"

lemma lone_parts: "path_parts (ap_new_file ''/r/a.md'') = (''a'', ''md'')"
  by code_simp

lemma lone_parse:
  "\<exists>b'. parse_content ((wd_setting (lone_world X env))\<lparr>ps_index := idx\<rparr>) lone_file content b = Some (b', Inl Custom)"
  by (simp add: parse_content_def lone_world_def same_files_def listed_files_def initialize_stack_def reset_doc_def
      share_api_def share_node_def run_doc_def process_doc_def plain_setting_def plain_builder_ops_def process_event_def
      apply_event_def origin_def and_then_def lift_result_def modify_def gets_def Let_def)

lemma lone_never_parses: "never_parses (\<lambda>k. lone_world X env) lone_file"
proof -
  have "codec_for_path (wd_setting (lone_world X env)) lone_file \<noteq> None"
    using lone_parts
    by (simp add: codec_for_path_def lone_world_def same_files_def listed_files_def os_path_to_string_def
        codec_get_def codec_create_def)
  moreover have "\<not> fs_is_dir (files_of (lone_world X env)) lone_file" "wd_read (lone_world X env) lone_file = Inr []"
    by (simp_all add: lone_world_def same_files_def listed_files_def)
  ultimately show ?thesis
    unfolding never_parses_def using lone_parse [where X = X and env = env] by blast
qed

lemma lone_unseen: "unseen_assets (lone_world X env) s = []"
  by (simp add: unseen_assets_def base_all_paths_def lone_world_def plain_setting_def plain_builder_ops_def
      List.map_filter_def)

lemma lone_rounds:
  "\<exists>s' l. parse_rounds (\<lambda>k. lone_world X env) 4 k latest (lone_compiler [lone_file] []) = Some (s', Inr (Unfinished l))"
proof -
  have "cp_primary (lone_compiler [lone_file] []) = lone_file # []"
    "get_parse_count lone_file (lone_compiler [lone_file] []) \<le> cp_max_reparse (lone_compiler [lone_file] [])"
    by (simp_all add: lone_compiler_def get_parse_count_def)
  from failing_rounds [OF lone_never_parses this, of X env k latest] show ?thesis
    by (fastforce simp: lone_compiler_def get_parse_count_def eval_nat_numeral)
qed

theorem parse_all_terminates_witness:
  "\<forall>X env reports. parse_all (\<lambda>k. lone_world X env) 5 False (lone_compiler [lone_file] [])
     \<noteq> Some (lone_compiler [] [], Inr (Unfinished reports))"
  by (intro allI parse_all_terminates [where U = "{lone_file}"]) (auto simp: lone_compiler_def known_def)

theorem parse_limit_witness:
  "\<forall>X env. count_list (tried_all (\<lambda>k. lone_world X env) 9 False (lone_compiler [lone_file] [])) lone_file \<le> 3"
proof (intro allI)
  fix X env
  have "distinct (cp_primary (lone_compiler [lone_file] []))" by (simp add: lone_compiler_def)
  from parse_limit [OF this, of "\<lambda>k. lone_world X env" 9 False lone_file]
  show "count_list (tried_all (\<lambda>k. lone_world X env) 9 False (lone_compiler [lone_file] [])) lone_file \<le> 3"
    by (simp add: lone_compiler_def get_parse_count_def)
qed

theorem parse_all_keeps_session_witness:
  "\<forall>X env. \<exists>s' r. parse_all (\<lambda>k. lone_world X env) 4 False (lone_compiler [lone_file] []) = Some (s', r)
     \<and> base_inv (gb_session_bb (cp_builder s'))"
proof (intro allI)
  fix X env
  obtain s' l where run: "parse_rounds (\<lambda>k. lone_world X env) 4 1 [] (lone_compiler [lone_file] []) = Some (s', Inr (Unfinished l))"
    using lone_rounds by blast
  have "check_stale_files (lone_world X env) False = Inr []"
    by (simp add: check_stale_files_def lone_world_def sort_by_def)
  then obtain r where all: "parse_all (\<lambda>k. lone_world X env) 4 False (lone_compiler [lone_file] []) = Some (s', r)"
    using run by (simp add: parse_all_def and_then_def lift_result_def modify_def gets_def ret_def lone_compiler_def)
  have ops: "\<forall>k :: nat. edges_in_ok (cx_ops (builder_of (lone_world X env)))"
    by (simp add: builder_of_def lone_world_def plain_setting_def plain_builder_edges)
  have "base_inv (gb_session_bb (cp_builder (lone_compiler [lone_file] [])))"
    by (simp add: lone_compiler_def plain_job_def section_base_inv)
  from parse_all_keeps_session [OF ops this all] all
  show "\<exists>s' r. parse_all (\<lambda>k. lone_world X env) 4 False (lone_compiler [lone_file] []) = Some (s', r)
     \<and> base_inv (gb_session_bb (cp_builder s'))" by blast
qed

theorem failing_file_given_up_witness:
  "\<forall>X env. \<exists>s' l. parse_rounds (\<lambda>k. lone_world X env) 4 0 [] (lone_compiler [lone_file] []) = Some (s', Inr (Unfinished l))
     \<and> cp_primary s' = [] \<and> get_parse_count lone_file s' = 3"
proof (intro allI)
  fix X env
  have start: "cp_primary (lone_compiler [lone_file] []) = lone_file # []"
    "get_parse_count lone_file (lone_compiler [lone_file] []) \<le> cp_max_reparse (lone_compiler [lone_file] [])"
    by (simp_all add: lone_compiler_def get_parse_count_def)
  show "\<exists>s' l. parse_rounds (\<lambda>k. lone_world X env) 4 0 [] (lone_compiler [lone_file] []) = Some (s', Inr (Unfinished l))
     \<and> cp_primary s' = [] \<and> get_parse_count lone_file s' = 3"
    using failing_file_given_up [OF lone_never_parses start, of X env 0 "[]"]
    by (fastforce simp: lone_compiler_def get_parse_count_def eval_nat_numeral)
qed

theorem edit_of_waiting_file_lost_witness:
  "\<forall>X env. \<exists>s'. parse_next (lone_world X env) (start_reparse_round (enqueue (files_of (lone_world X env)) lone_file
       (reset_processed lone_file (lone_compiler [] [lone_file])))) = Some (s', Inr None)
     \<and> cp_reparse s' = [lone_file]"
proof (intro allI)
  fix X env
  have "normalize_queue_path (files_of (lone_world X env)) lone_file = lone_file"
    by (simp add: normalize_queue_path_def lone_world_def os_path_to_string_def string_to_os_path_def starts_with_def)
  then have waits: "normalize_queue_path (files_of (lone_world X env)) lone_file \<in> set (cp_reparse (lone_compiler [] [lone_file]))"
    by (simp add: lone_compiler_def)
  have rest: "cp_primary (lone_compiler [] [lone_file]) = []" "cp_updates (lone_compiler [] [lone_file]) = []"
    "cp_html (lone_compiler [] [lone_file]) = None" "cp_reparse (lone_compiler [] [lone_file]) = [lone_file]"
    by (simp_all add: lone_compiler_def)
  from edit_of_waiting_file_lost [OF rest(1,2) waits lone_unseen rest(3)]
  show "\<exists>s'. parse_next (lone_world X env) (start_reparse_round (enqueue (files_of (lone_world X env)) lone_file
       (reset_processed lone_file (lone_compiler [] [lone_file])))) = Some (s', Inr None)
     \<and> cp_reparse s' = [lone_file]" by (simp add: rest(4))
qed

theorem batch_reports_failures_witness:
  "\<forall>X env. \<exists>s'. epoch_task (lone_world X env) lone_file (lone_compiler [lone_file] []) = Some (s', Inr (Inl Custom))
     \<and> FileParsed ''/r/a.md'' \<in> set (gb_tx (cp_builder s'))"
proof (intro allI)
  fix X env
  let ?W = "lone_world X env" and ?s = "lone_compiler [lone_file] []"
  have found: "file_of (files_of ?W) lone_file = Some lone_file" "wd_read ?W lone_file = Inr []"
    by (simp_all add: file_of_def lone_world_def same_files_def listed_files_def)
  obtain b where new: "builder_new (cx_ext (builder_of ?W)) (cx_build (builder_of ?W)) (cx_ops (builder_of ?W)) (files_of ?W)
      (gb_repo_root (cp_builder ?s)) = Inr b"
    by (simp add: builder_new_def lone_world_def same_files_def listed_files_def lone_compiler_def plain_job_def
        detect_network_file_def file_name_def NETWORK_NAME_def)
  have is_open: "gb_tx_open (cp_builder ?s)" by (simp add: lone_compiler_def plain_job_def)
  have "cp_index ?s = proto_index_new" by (simp add: lone_compiler_def)
  then obtain s' where run: "epoch_task ?W lone_file ?s = Some (s', Inr (Inl Custom))"
    unfolding epoch_task_eq [OF found new is_open] setting_of_def
    using lone_parse [where X = X and env = env and idx = proto_index_new and content = "[]" and b = "open_job b
      (gb_tx (cp_builder ?s) @ [FileParsed (os_path_to_string lone_file)]) True (jb_clock (cp_builder ?s))"]
    by fastforce
  from batch_reports_failures [OF found new is_open run] run
  show "\<exists>s'. epoch_task ?W lone_file ?s = Some (s', Inr (Inl Custom)) \<and> FileParsed ''/r/a.md'' \<in> set (gb_tx (cp_builder s'))"
    by (auto simp: os_path_to_string_def dest: set_mono_prefix)
qed

end
