(* ===== verification/Markdown.thy ===== *)
theory Markdown
  imports Contexts
begin

text \<open>
  Links in Markdown (\<open>codec/md.rs\<close>, its first half): the events of the parser, what a link refers to, the
  title attribute that records the target, and the pass that rewrites the links of a section in the
  light of the relations the builder found.

  The parser is that of another crate: its events are a datatype with the constructors the code looks at,
  and a type parameter for all others.
\<close>

section \<open>Events\<close>

datatype link_type =
    InlineLink
  | ReferenceLink
  | ReferenceUnknown
  | Collapsed
  | CollapsedUnknown
  | ShortcutLink
  | ShortcutUnknown
  | Autolink
  | EmailLink
  | WikiLink bool

datatype heading_level = H1 | H2 | H3 | H4 | H5 | H6

datatype metadata_kind = YamlStyle | PlusesStyle

text \<open>A link and an image carry their type, destination, title attribute and identifier.\<close>

datatype 'o md_tag =
    LinkTag link_type string string string
  | ImageTag link_type string string string
  | HeadingTag heading_level "string option" "string list" "(string \<times> string option) list"
  | MetadataTag metadata_kind
  | OtherTag 'o

datatype 'o md_tag_end =
    LinkEnd
  | ImageEnd
  | HeadingEnd heading_level
  | MetadataEnd metadata_kind
  | OtherTagEnd 'o

datatype 'o md_event =
    Start "'o md_tag"
  | End "'o md_tag_end"
  | Text string
  | Code string
  | InlineHtml string
  | OtherEvent 'o

type_synonym byte_range = "nat \<times> nat"
type_synonym 'o event_queue = "('o md_event \<times> byte_range option) list"

section \<open>What a link refers to\<close>

definition strip_url_quotes :: "string \<Rightarrow> string" where
  "strip_url_quotes s =
     (if length s \<ge> 2 \<and> starts_with s [CHR 0x22] \<and> last s = CHR 0x22 then str_slice s 1 (length s - 1) else s)"

definition link_to_relation ::
    "'a text_ext_scheme \<Rightarrow> 'f codec_map \<Rightarrow> link_type \<Rightarrow> string \<Rightarrow> string \<Rightarrow> string \<Rightarrow> node_key option" where
  "link_to_relation X codecs link_type dest title ident =
     (let dest_url = strip_url_quotes dest
      in case link_type of
           Autolink \<Rightarrow> Some (href_to_nodekey X codecs dest_url)
         | EmailLink \<Rightarrow> Some (href_to_nodekey X codecs (''email:'' @ dest_url))
         | InlineLink \<Rightarrow> Some (href_to_nodekey X codecs dest_url)
         | ReferenceLink \<Rightarrow> None
         | WikiLink _ \<Rightarrow> Some (href_to_nodekey X codecs (''id:'' @ dest_url))
         | ReferenceUnknown \<Rightarrow> Some (href_to_nodekey X codecs dest_url)
         | Collapsed \<Rightarrow> None
         | CollapsedUnknown \<Rightarrow> Some (href_to_nodekey X codecs title)
         | ShortcutLink \<Rightarrow> Some (href_to_nodekey X codecs dest_url)
         | ShortcutUnknown \<Rightarrow> Some (href_to_nodekey X codecs ident))"

section \<open>Collecting a link\<close>

record 'o link_accumulator =
  la_type :: link_type
  la_url :: string
  la_id :: string
  la_range :: "byte_range option"
  la_title_events :: "'o md_event list"
  la_is_image :: bool
  la_title :: string

definition link_new :: "'o md_event \<Rightarrow> byte_range option \<Rightarrow> 'o link_accumulator option" where
  "link_new event rng =
     (case event of
        Start (LinkTag link_type dest_url title ident) \<Rightarrow>
          Some \<lparr>la_type = link_type, la_url = dest_url, la_id = ident, la_range = rng, la_title_events = [],
            la_is_image = False, la_title = title\<rparr>
      | Start (ImageTag link_type dest_url title ident) \<Rightarrow>
          Some \<lparr>la_type = link_type, la_url = dest_url, la_id = ident, la_range = rng, la_title_events = [],
            la_is_image = True, la_title = title\<rparr>
      | _ \<Rightarrow> None)"

definition is_link_end :: "'o link_accumulator \<Rightarrow> 'o md_event \<Rightarrow> bool" where
  "is_link_end la event \<longleftrightarrow> event = End LinkEnd \<and> \<not> la_is_image la \<or> event = End ImageEnd \<and> la_is_image la"

text \<open>The event that ends the link is not collected; every other one is, and extends the range.\<close>

definition link_push :: "'o md_event \<Rightarrow> byte_range option \<Rightarrow> 'o link_accumulator \<Rightarrow> 'o link_accumulator \<times> bool" where
  "link_push event rng la =
     (if is_link_end la event then (la, True)
      else (la\<lparr>la_title_events := la_title_events la @ [event],
               la_range := (case la_range la of
                   None \<Rightarrow> rng
                 | Some (a, b) \<Rightarrow> (case rng of None \<Rightarrow> Some (a, b) | Some (_, e) \<Rightarrow> Some (a, e)))\<rparr>, False))"

definition flat_lines :: "string \<Rightarrow> string" where
  "flat_lines s = str_join '' '' (map PathOps.trim (str_split newline s))"

definition title_step :: "'o md_event \<Rightarrow> string \<Rightarrow> string" where
  "title_step event text =
     (case event of Text s \<Rightarrow> (if text \<noteq> [] then text @ '' '' else text) @ flat_lines s | _ \<Rightarrow> text)"

definition title_string :: "('o, 'z) link_accumulator_scheme \<Rightarrow> string" where
  "title_string la = fold title_step (la_title_events la) []"

section \<open>The title attribute\<close>

record title_parts =
  tp_bref :: "bref option"
  tp_auto_title :: bool
  tp_user_words :: "string option"

definition auto_title_config :: string where
  "auto_title_config = ''{'' @ [CHR 0x22] @ ''auto_title'' @ [CHR 0x22] @ '':true}''"

definition build_title_attribute :: "string \<Rightarrow> bool \<Rightarrow> string option \<Rightarrow> string" where
  "build_title_attribute bref auto_title user_words =
     str_join '' '' ([bref]
       @ (if auto_title then [auto_title_config] else [])
       @ (case user_words of Some words \<Rightarrow> [words] | None \<Rightarrow> []))"

text \<open>\<open>str::split_whitespace\<close>.\<close>

fun split_blank :: "string list \<Rightarrow> string list" where
  "split_blank [] = [[]]"
| "split_blank (c # cs) =
     (if is_whitespace c then [] # split_blank cs
      else case split_blank cs of [] \<Rightarrow> [c] | w # ws \<Rightarrow> (c @ w) # ws)"

definition split_whitespace :: "string \<Rightarrow> string list" where
  "split_whitespace s = filter (\<lambda>w. w \<noteq> []) (split_blank (utf8_chars s))"

text \<open>\<open>trim_start_matches\<close> of a non-empty prefix, however often it stands there.\<close>

function trim_prefixes :: "string \<Rightarrow> string \<Rightarrow> string" where
  "trim_prefixes p s = (if p \<noteq> [] \<and> starts_with s p then trim_prefixes p (drop (length p) s) else s)"
  by pat_completeness auto
termination by (relation "measure (\<lambda>(p, s). length s)") (auto simp: starts_with_prefix prefix_def)

declare trim_prefixes.simps [simp del]

definition config_auto_title :: "(string \<Rightarrow> buildonomy_error + json) \<Rightarrow> string \<Rightarrow> bool \<Rightarrow> bool" where
  "config_auto_title parse json_buffer auto_title =
     (case parse json_buffer of
        Inr (JObject es) \<Rightarrow>
          (case bm_get es ''auto_title'' of None \<Rightarrow> auto_title | Some (JBool b) \<Rightarrow> b | Some _ \<Rightarrow> False)
      | _ \<Rightarrow> auto_title)"

record title_scan =
  ts_bref :: "bref option"
  ts_auto_title :: bool
  ts_words :: "string list"
  ts_in_json :: bool
  ts_json_buffer :: string

definition title_scan_start :: title_scan where
  "title_scan_start =
     \<lparr>ts_bref = None, ts_auto_title = False, ts_words = [], ts_in_json = False, ts_json_buffer = []\<rparr>"

text \<open>One more piece of a JSON object, which ends with a word that ends in a brace.\<close>

definition scan_json :: "(string \<Rightarrow> buildonomy_error + json) \<Rightarrow> string \<Rightarrow> string \<Rightarrow> title_scan \<Rightarrow> title_scan" where
  "scan_json parse word piece t =
     (let json_buffer = ts_json_buffer t @ piece
      in if word \<noteq> [] \<and> last word = CHR ''}''
         then t\<lparr>ts_auto_title := config_auto_title parse json_buffer (ts_auto_title t), ts_in_json := False,
                ts_json_buffer := []\<rparr>
         else t\<lparr>ts_in_json := True, ts_json_buffer := json_buffer\<rparr>)"

definition scan_word ::
    "'a id_ext_scheme \<Rightarrow> (string \<Rightarrow> buildonomy_error + json) \<Rightarrow> string \<Rightarrow> title_scan \<Rightarrow> title_scan" where
  "scan_word X parse word t =
     (if starts_with word ''bref://'' then
        (case bref_try_from X (trim_prefixes ''bref://'' word) of
           Inr b \<Rightarrow> t\<lparr>ts_bref := Some b\<rparr> | Inl _ \<Rightarrow> t)
      else if starts_with word ''bid://'' then
        (case bid_try_from X (trim_prefixes ''bid://'' word) of
           Inr b \<Rightarrow> t\<lparr>ts_bref := Some (bref_of X b)\<rparr> | Inl _ \<Rightarrow> t)
      else if starts_with word ''{'' then scan_json parse word word t
      else if ts_in_json t then scan_json parse word ('' '' @ word) t
      else t\<lparr>ts_words := ts_words t @ [word]\<rparr>)"

definition parse_title_attribute ::
    "'a id_ext_scheme \<Rightarrow> (string \<Rightarrow> buildonomy_error + json) \<Rightarrow> string \<Rightarrow> title_parts" where
  "parse_title_attribute X parse title =
     (let t = fold (scan_word X parse) (split_whitespace title) title_scan_start
      in \<lparr>tp_bref = ts_bref t, tp_auto_title = ts_auto_title t,
          tp_user_words = (if ts_words t = [] then None else Some (str_join '' '' (ts_words t)))\<rparr>)"

section \<open>Rewriting links\<close>

text \<open>What the pass needs from outside.\<close>

record ('p, 'f) link_setting =
  ln_ext :: text_ext
  ln_ops :: "'p builder_ops"
  ln_codecs :: "'f codec_map"
  ln_docs :: doc_ops

definition drop_index_file :: "string \<Rightarrow> string" where
  "drop_index_file p =
     (let last_slash = (case str_rfind CHR ''/'' p of Some i \<Rightarrow> i + 1 | None \<Rightarrow> 0);
          last_component = drop last_slash p
      in if last_component = ''index'' \<or> starts_with last_component ''index.'' then take (last_slash - 1) p else p)"

definition ends_with :: "string \<Rightarrow> string \<Rightarrow> bool" where
  "ends_with s p \<longleftrightarrow> length p \<le> length s \<and> drop (length s - length p) s = p"

definition ctx_stem :: "'p belief_context \<Rightarrow> string" where
  "ctx_stem ctx = drop_index_file (dir (ap_new_dir (filepath (ap_new (bc_root_path ctx)))))"

definition doc_stem :: "string \<Rightarrow> string" where
  "doc_stem doc_abs_path = drop_index_file (dir (ap_new_dir doc_abs_path))"

text \<open>The absolute path of the repository, where the two paths of the document agree.\<close>

definition root_abs_path :: "'p belief_context \<Rightarrow> string \<Rightarrow> string option" where
  "root_abs_path ctx doc_abs_path =
     (if ends_with (doc_stem doc_abs_path) (ctx_stem ctx)
      then Some (str_slice (doc_stem doc_abs_path) 0 (length (doc_stem doc_abs_path) - length (ctx_stem ctx)))
      else None)"

definition link_key :: "('p, 'f) link_setting \<Rightarrow> 'o link_accumulator \<Rightarrow> node_key option" where
  "link_key L la =
     (case tp_bref (parse_title_attribute (ln_ext L) (json_parse (ln_docs L)) (la_title la)) of
        Some b \<Rightarrow> Some (KBref b)
      | None \<Rightarrow> link_to_relation (ln_ext L) (ln_codecs L) (la_type la) (la_url la) (title_string la) (la_id la))"

definition start_tag :: "'o link_accumulator \<Rightarrow> string \<Rightarrow> 'o md_event" where
  "start_tag la title =
     Start (if la_is_image la then ImageTag (la_type la) (la_url la) title (la_id la)
            else LinkTag (la_type la) (la_url la) title (la_id la))"

definition joined_range :: "byte_range option \<Rightarrow> byte_range option \<Rightarrow> byte_range option" where
  "joined_range link_range rng =
     (case (link_range, rng) of
        (Some (a, _), Some (_, e)) \<Rightarrow> Some (a, e)
      | (Some r, None) \<Rightarrow> Some r
      | (None, r) \<Rightarrow> r)"

text \<open>A link as it goes out: only its end has a range.\<close>

definition emit_link :: "'o link_accumulator \<Rightarrow> string \<Rightarrow> byte_range option \<Rightarrow> 'o event_queue" where
  "emit_link la title rng =
     (start_tag la title, None) # map (\<lambda>e. (e, None)) (la_title_events la)
     @ [(End (if la_is_image la then ImageEnd else LinkEnd), joined_range (la_range la) rng)]"

text \<open>A link that is left alone still changes its type.\<close>

definition leave_link :: "'o link_accumulator \<Rightarrow> byte_range option \<Rightarrow> 'o event_queue" where
  "leave_link la rng =
     (let title = title_string la
      in emit_link (la\<lparr>la_type := (if title = [] \<or> title = la_id la then ShortcutLink else ReferenceLink)\<rparr>)
           (la_title la) rng)"

definition relation_has_key ::
    "('p, 'f) link_setting \<Rightarrow> 'p belief_context \<Rightarrow> node_key \<Rightarrow> extended_relation \<Rightarrow> bool" where
  "relation_has_key L ctx key r \<longleftrightarrow>
     key \<in> set (node_keys (ln_ext L) (ln_ops L) (er_other r) (Some (bc_root_net ctx)) None (bc_bb ctx)
              @ node_keys (ln_ext L) (ln_ops L) (er_other r) (Some (er_home_net r)) None (bc_bb ctx))"

definition find_target ::
    "('p, 'f) link_setting \<Rightarrow> 'p belief_context \<Rightarrow> node_key \<Rightarrow> extended_relation option" where
  "find_target L ctx key = find (relation_has_key L ctx key) (sources (ln_ext L) (ln_ops L) ctx)"

definition target_path :: "('p, 'f) link_setting \<Rightarrow> 'p belief_context \<Rightarrow> extended_relation \<Rightarrow> string" where
  "target_path L ctx r =
     (if er_home_net r = href_namespace then er_root_path r
      else let relative_path = path_to (ln_ext L) (ap_new (bc_root_path ctx)) (er_root_path r) True
           in if kind_is_anchor (nd_kind (er_other r))
              then (case nd_id (er_other r) of
                      Some i \<Rightarrow> ap_path (join (ln_ext L) (ap_new relative_path) (as_anchor (ln_ext L) i))
                    | None \<Rightarrow> relative_path)
              else relative_path)"

definition bref_url :: "('p, 'f) link_setting \<Rightarrow> extended_relation \<Rightarrow> string" where
  "bref_url L r = ''bref://'' @ bref_display (bref_of (ln_ext L) (nd_bid (er_other r)))"

text \<open>The link in canonical form, and whether anything but its ranges is new.\<close>

definition rewrite_link ::
    "('p, 'f) link_setting \<Rightarrow> 'p belief_context \<Rightarrow> extended_relation \<Rightarrow> 'o link_accumulator \<Rightarrow> byte_range option
      \<Rightarrow> 'o event_queue \<times> bool" where
  "rewrite_link L ctx r la rng =
     (let title_parts = parse_title_attribute (ln_ext L) (json_parse (ln_docs L)) (la_title la);
          link_text = title_string la;
          relative_path = target_path L ctx r;
          should_auto_title = tp_auto_title title_parts \<or> link_text = nd_title (er_other r);
          new_title_attr = build_title_attribute (bref_url L r) should_auto_title (tp_user_words title_parts);
          new_link_text = (if should_auto_title then nd_title (er_other r) else link_text);
          changed = (la_url la \<noteq> relative_path \<or> la_title la \<noteq> new_title_attr \<or> link_text \<noteq> new_link_text);
          la = (if changed then la\<lparr>la_url := relative_path, la_title_events := [Text new_link_text]\<rparr> else la)
      in (emit_link la new_title_attr rng, changed))"

text \<open>The warnings are told by their paths.\<close>

definition path_mismatch :: "string \<Rightarrow> string \<Rightarrow> parse_diagnostic" where
  "path_mismatch doc_abs_path ctx_filepath =
     warning (''Could not rewrite link: document path '' @ [CHR 0x22] @ doc_abs_path @ [CHR 0x22]
       @ '' does not align with context path '' @ [CHR 0x22] @ ctx_filepath @ [CHR 0x22])"

definition process_link ::
    "('p, 'f) link_setting \<Rightarrow> 'p belief_context \<Rightarrow> string \<Rightarrow> 'o link_accumulator \<Rightarrow> byte_range option
      \<Rightarrow> 'o event_queue \<times> bool \<times> parse_diagnostic list" where
  "process_link L ctx doc_abs_path la rng =
     (case link_key L la of
        None \<Rightarrow> (leave_link la rng, False, [])
      | Some key \<Rightarrow>
          let normalized_abs = resolve_against (ln_ext L) key doc_abs_path
          in case root_abs_path ctx doc_abs_path of
               None \<Rightarrow>
                 (leave_link la rng, False,
                  [path_mismatch doc_abs_path (filepath (ap_new (bc_root_path ctx)))])
             | Some root \<Rightarrow>
                 let regularized =
                   regularize_unchecked (ln_ext L) normalized_abs (bc_root_net ctx) (bc_root_path ctx) root
                 in case find_target L ctx regularized of
                      None \<Rightarrow> (emit_link la (la_title la) rng, False, [])
                    | Some r \<Rightarrow> (case rewrite_link L ctx r la rng of (out, changed) \<Rightarrow> (out, changed, [])))"

record 'o link_pass =
  lp_changed :: bool
  lp_stack :: "'o link_accumulator list"
  lp_out :: "'o event_queue"
  lp_diagnostics :: "parse_diagnostic list"

text \<open>
  One event. A link that ends goes straight to the output, also where it stands in another link that is still
  being collected.
\<close>

definition link_step ::
    "('p, 'f) link_setting \<Rightarrow> 'p belief_context \<Rightarrow> string \<Rightarrow> 'o md_event \<Rightarrow> byte_range option
      \<Rightarrow> 'o link_pass \<Rightarrow> 'o link_pass" where
  "link_step L ctx doc_abs_path event rng s =
     (let (stack, is_end) =
            (case link_new event rng of
               Some la \<Rightarrow> (la # lp_stack s, False)
             | None \<Rightarrow>
                 (case lp_stack s of
                    [] \<Rightarrow> ([], False)
                  | la # rest \<Rightarrow> (case link_push event rng la of (la, e) \<Rightarrow> (la # rest, e))))
      in case stack of
           [] \<Rightarrow> s\<lparr>lp_stack := [], lp_out := lp_out s @ [(event, rng)]\<rparr>
         | la # rest \<Rightarrow>
             if \<not> is_end then s\<lparr>lp_stack := stack\<rparr>
             else (case process_link L ctx doc_abs_path la rng of
                     (out, changed, ds) \<Rightarrow>
                       s\<lparr>lp_changed := lp_changed s \<or> changed, lp_stack := rest, lp_out := lp_out s @ out,
                         lp_diagnostics := lp_diagnostics s @ ds\<rparr>))"

fun link_loop ::
    "('p, 'f) link_setting \<Rightarrow> 'p belief_context \<Rightarrow> string \<Rightarrow> 'o md_event option \<Rightarrow> 'o event_queue
      \<Rightarrow> 'o link_pass \<Rightarrow> 'o event_queue \<times> 'o link_pass" where
  "link_loop L ctx doc_abs_path stop_event [] s = ([], s)"
| "link_loop L ctx doc_abs_path stop_event ((event, rng) # events_in) s =
     (let s = link_step L ctx doc_abs_path event rng s
      in if stop_event = Some event then (events_in, s)
         else link_loop L ctx doc_abs_path stop_event events_in s)"

text \<open>The events that are left, those that come out, whether a link changed, and the diagnostics.\<close>

definition check_for_link_and_push ::
    "('p, 'f) link_setting \<Rightarrow> 'o event_queue \<Rightarrow> 'p belief_context \<Rightarrow> string \<Rightarrow> 'o event_queue
      \<Rightarrow> 'o md_event option \<Rightarrow> parse_diagnostic list
      \<Rightarrow> 'o event_queue \<times> 'o event_queue \<times> bool \<times> parse_diagnostic list" where
  "check_for_link_and_push L events_in ctx doc_abs_path events_out stop_event diagnostics =
     (case link_loop L ctx doc_abs_path stop_event events_in
             \<lparr>lp_changed = False, lp_stack = [], lp_out = events_out, lp_diagnostics = diagnostics\<rparr> of
        (left, s) \<Rightarrow> (left, lp_out s, lp_changed s, lp_diagnostics s))"

end
