(* ===== verification/MdCodec.thy ===== *)
theory MdCodec
  imports Markdown ParseProps
begin

text \<open>
  The Markdown codec (\<open>codec/md.rs\<close>, its second half): frontmatter, the metadata of sections, the state of the
  codec and its methods, from parsing a document into nodes with their events to writing back what the
  builder found and printing source and HTML.

  The parser, its printers, the reader of a file and the casing of titles are the fields of \<open>md_setting\<close>.
\<close>

section \<open>Frontmatter\<close>

text \<open>The event behind the metadata block, or else behind the first heading.\<close>

fun frontmatter_end_from :: "nat \<Rightarrow> nat option \<Rightarrow> 'o event_queue \<Rightarrow> nat option" where
  "frontmatter_end_from idx header_end [] = header_end"
| "frontmatter_end_from idx header_end ((event, _) # events) =
     (case event of
        End (HeadingEnd _) \<Rightarrow> frontmatter_end_from (idx + 1) (or_else header_end (Some (idx + 1))) events
      | End (MetadataEnd _) \<Rightarrow> Some (idx + 1)
      | _ \<Rightarrow> frontmatter_end_from (idx + 1) header_end events)"

definition find_frontmatter_end :: "'o event_queue \<Rightarrow> nat option" where
  "find_frontmatter_end events = frontmatter_end_from 0 None events"

definition event_text :: "'o md_event \<Rightarrow> string option" where
  "event_text event =
     (case event of Text s \<Rightarrow> Some s | Code s \<Rightarrow> Some s | InlineHtml s \<Rightarrow> Some s | _ \<Rightarrow> None)"

definition is_heading_start :: "'o md_event \<Rightarrow> bool" where
  "is_heading_start event = (case event of Start (HeadingTag _ _ _ _) \<Rightarrow> True | _ \<Rightarrow> False)"

definition is_heading_end :: "'o md_event \<Rightarrow> bool" where
  "is_heading_end event = (case event of End (HeadingEnd _) \<Rightarrow> True | _ \<Rightarrow> False)"

definition is_metadata_start :: "'o md_event \<Rightarrow> bool" where
  "is_metadata_start event = (case event of Start (MetadataTag _) \<Rightarrow> True | _ \<Rightarrow> False)"

definition is_metadata_end :: "'o md_event \<Rightarrow> bool" where
  "is_metadata_end event = (case event of End (MetadataEnd _) \<Rightarrow> True | _ \<Rightarrow> False)"

text \<open>The events up to the first one of a kind, that one included, and the rest.\<close>

fun split_after :: "('e \<Rightarrow> bool) \<Rightarrow> ('e \<times> 'r) list \<Rightarrow> ('e \<times> 'r) list \<times> ('e \<times> 'r) list" where
  "split_after p [] = ([], [])"
| "split_after p ((e, r) # es) =
     (if p e then ([(e, r)], es) else case split_after p es of (a, b) \<Rightarrow> ((e, r) # a, b))"

text \<open>The metadata of a document without a block starts where the text of its title ends.\<close>

definition title_range :: "'o event_queue \<Rightarrow> byte_range option" where
  "title_range title =
     fold (\<lambda>(event, rng) acc. case (event_text event, rng) of (Some _, Some (_, e)) \<Rightarrow> Some (e, e) | _ \<Rightarrow> acc)
       title None"

definition metadata_text :: "'o event_queue \<Rightarrow> string" where
  "metadata_text block = concat (List.map_filter (\<lambda>(event, _). event_text event) block)"

definition metadata_range :: "byte_range option \<Rightarrow> 'o event_queue \<Rightarrow> byte_range option" where
  "metadata_range start block =
     fold (\<lambda>(event, rng) acc. case event_text event of None \<Rightarrow> acc
         | Some _ \<Rightarrow> (case (acc, rng) of (Some (a, _), Some (_, e)) \<Rightarrow> Some (a, e)
             | (Some r, None) \<Rightarrow> Some r | (None, r) \<Rightarrow> r))
       block start"

definition starts :: "('o md_event \<Rightarrow> bool) \<Rightarrow> 'o event_queue \<Rightarrow> bool" where
  "starts p events = (case events of [] \<Rightarrow> False | (event, _) # _ \<Rightarrow> p event)"

definition metadata_block :: "string \<Rightarrow> byte_range option \<Rightarrow> 'o event_queue" where
  "metadata_block node_string rng =
     [(Start (MetadataTag YamlStyle), None), (Text node_string, rng), (End (MetadataEnd YamlStyle), None)]"

definition update_or_insert_frontmatter :: "string \<Rightarrow> 'o event_queue \<Rightarrow> 'o event_queue \<times> bool" where
  "update_or_insert_frontmatter node_string events =
     (let (title, events) = (if starts is_heading_start events then split_after is_heading_end events else ([], events));
          has_metadata = starts is_metadata_start events;
          (block, events) = (if has_metadata then split_after is_metadata_end events else ([], events));
          toml_range = metadata_range (title_range title) block
      in if has_metadata \<and> node_string = metadata_text block then (title @ block @ events, False)
         else (title @ metadata_block node_string toml_range @ events, True))"

text \<open>
  \<open>read_frontmatter\<close>: the reader gives line after line, with their ends, or an error.
\<close>

fun frontmatter_lines :: "string \<Rightarrow> (buildonomy_error + string) list \<Rightarrow> buildonomy_error + string option" where
  "frontmatter_lines acc [] = Inr None"
| "frontmatter_lines acc (Inl e # ls) = Inl e"
| "frontmatter_lines acc (Inr line # ls) =
     (if PathOps.trim line = ''---'' then Inr (Some acc) else frontmatter_lines (acc @ line) ls)"

fun read_frontmatter :: "(buildonomy_error + string) list \<Rightarrow> buildonomy_error + string option" where
  "read_frontmatter [] = Inr None"
| "read_frontmatter (Inl e # ls) = Inl e"
| "read_frontmatter (Inr line # ls) =
     (if PathOps.trim line = [] then read_frontmatter ls
      else if PathOps.trim line \<noteq> ''---'' then Inr None
      else frontmatter_lines [] ls)"

section \<open>Metadata of sections\<close>

type_synonym section_metadata = "node_key \<Rightarrow> (string \<times> item) list option"

definition add_section ::
    "'a text_ext_scheme \<Rightarrow> 'f codec_map \<Rightarrow> string \<times> item \<Rightarrow> section_metadata \<Rightarrow> section_metadata" where
  "add_section X codecs entry metadata =
     (case key_from_str X codecs (fst entry) of
        Inl _ \<Rightarrow> metadata
      | Inr key \<Rightarrow> (case snd entry of Tab t \<Rightarrow> metadata(key \<mapsto> t) | _ \<Rightarrow> metadata))"

definition parse_sections_metadata :: "'a text_ext_scheme \<Rightarrow> 'f codec_map \<Rightarrow> item \<Rightarrow> section_metadata" where
  "parse_sections_metadata X codecs i =
     (case i of Tab t \<Rightarrow> fold (add_section X codecs) t Map.empty | _ \<Rightarrow> Map.empty)"

definition key_match :: "section_metadata \<Rightarrow> node_key \<Rightarrow> (node_key \<times> (string \<times> item) list) option" where
  "key_match metadata key = map_option (\<lambda>t. (key, t)) (metadata key)"

definition find_metadata_match ::
    "'a text_ext_scheme \<Rightarrow> ir_node \<Rightarrow> section_metadata \<Rightarrow> (node_key \<times> (string \<times> item) list) option" where
  "find_metadata_match X p metadata =
     or_else (or_else
       (case Option.bind (bm_get (ir_document p) ''bid'') item_text of
          None \<Rightarrow> None
        | Some bid_str \<Rightarrow>
            (case bid_try_from X bid_str of Inl _ \<Rightarrow> None | Inr b \<Rightarrow> key_match metadata (KBid b)))
       (case ir_id X p of None \<Rightarrow> None | Some slug \<Rightarrow> key_match metadata (KId (bref_default X) slug)))
       (case ir_title p of
          None \<Rightarrow> None
        | Some title \<Rightarrow> key_match metadata (KId (bref_default X) (to_anchor X title)))"

definition merge_metadata_into_node :: "(string \<times> item) list \<Rightarrow> ir_node \<Rightarrow> ir_node" where
  "merge_metadata_into_node metadata p =
     p\<lparr>ir_document := fold (\<lambda>(key, i) doc. if bm_contains doc key then doc else bm_insert key i doc)
         metadata (ir_document p)\<rparr>"

section \<open>The codec\<close>

record 'o md_codec =
  mc_events :: "(ir_node \<times> 'o event_queue) list"
  mc_content :: string
  mc_matched :: "node_key set"
  mc_seen :: "string set"
  mc_heading_start :: "nat option"

definition md_new :: "'o md_codec" where
  "md_new = \<lparr>mc_events = [], mc_content = [], mc_matched = {}, mc_seen = {}, mc_heading_start = None\<rparr>"

text \<open>
  The events of a source text with their ranges; the printer, which gives the text and what it becomes once
  the definitions of the shortcut references are written below it; the HTML printer.
\<close>

record ('p, 'f, 'o) md_setting =
  md_link :: "('p, 'f) link_setting"
  md_schemas :: schema_registry
  md_node_text :: "node \<Rightarrow> buildonomy_error + string"
  md_parser :: "string \<Rightarrow> ('o md_event \<times> byte_range) list"
  md_render :: "'o event_queue \<Rightarrow> string \<Rightarrow> (string \<times> ((string \<times> string \<times> string) list \<Rightarrow> string option)) option"
  md_html :: "'o md_event list \<Rightarrow> string"
  md_titlecase :: "string \<Rightarrow> string"
  md_read :: "os_path \<Rightarrow> buildonomy_error + (buildonomy_error + string) list"

definition md_ext :: "('p, 'f, 'o) md_setting \<Rightarrow> text_ext" where
  "md_ext M = ln_ext (md_link M)"

definition md_docs :: "('p, 'f, 'o) md_setting \<Rightarrow> doc_ops" where
  "md_docs M = ln_docs (md_link M)"

section \<open>Printing\<close>

definition shortcut_of :: "'o md_event \<Rightarrow> (string \<times> string \<times> string) option" where
  "shortcut_of event =
     (case event of
        Start (LinkTag ty dest_url title ident) \<Rightarrow>
          if ty = ShortcutLink \<or> ty = ReferenceLink then Some (ident, dest_url, title) else None
      | _ \<Rightarrow> None)"

definition events_to_text :: "('p, 'f, 'o) md_setting \<Rightarrow> string \<Rightarrow> 'o event_queue \<Rightarrow> string option" where
  "events_to_text M content events =
     (let shortcuts = List.map_filter (\<lambda>(event, _). shortcut_of event) events
      in case md_render M events content of
           None \<Rightarrow> None
         | Some (buf, finalize) \<Rightarrow> if shortcuts = [] then Some buf else finalize shortcuts)"

definition str_contains :: "string \<Rightarrow> string \<Rightarrow> bool" where
  "str_contains s p \<longleftrightarrow> list_ex (\<lambda>t. starts_with t p) (suffixes s)"

definition rewrite_md_links_to_html :: "('p, 'f, 'o) md_setting \<Rightarrow> 'o md_event \<Rightarrow> 'o md_event" where
  "rewrite_md_links_to_html M event =
     (case event of
        Start (LinkTag ty dest_url title ident) \<Rightarrow>
          let url_ap = ap_new dest_url;
              new_url =
                (if \<not> str_contains title ''bref://'' then dest_url
                 else if is_anchor url_ap then as_anchor (md_ext M) (anchor url_ap)
                 else if ext url_ap \<noteq> [] \<and> codec_get (ln_codecs (md_link M)) url_ap \<noteq> None
                 then replace_extension (md_ext M) (normalize url_ap) ''html''
                 else dest_url)
          in Start (LinkTag ty new_url title ident)
      | _ \<Rightarrow> event)"

definition html_anchor :: "('p, 'f, 'o) md_setting \<Rightarrow> ir_node \<Rightarrow> string option" where
  "html_anchor M p =
     (if ir_heading p > 2 then
        or_else (case ir_id (md_ext M) p of Some i \<Rightarrow> if i \<noteq> [] then Some i else None | None \<Rightarrow> None)
          (case map_option (to_anchor (md_ext M)) (ir_title p) of
             Some i \<Rightarrow> if i \<noteq> [] then Some i else None | None \<Rightarrow> None)
      else None)"

definition rewrite_heading :: "string option \<Rightarrow> 'o md_event \<Rightarrow> 'o md_event" where
  "rewrite_heading html_id event =
     (case (html_id, event) of
        (Some a, Start (HeadingTag level _ classes attrs)) \<Rightarrow> Start (HeadingTag level (Some a) classes attrs)
      | _ \<Rightarrow> event)"

definition html_events :: "('p, 'f, 'o) md_setting \<Rightarrow> 'o md_codec \<Rightarrow> 'o md_event list" where
  "html_events M c =
     map (rewrite_md_links_to_html M)
       (concat (map (\<lambda>(p, events). map (\<lambda>(e, _). rewrite_heading (html_anchor M p) e) events) (mc_events c)))"

definition render_html_body :: "('p, 'f, 'o) md_setting \<Rightarrow> 'o md_codec \<Rightarrow> string" where
  "render_html_body M c = md_html M (html_events M c)"

definition md_generate_source :: "('p, 'f, 'o) md_setting \<Rightarrow> 'o md_codec \<Rightarrow> string option" where
  "md_generate_source M c = events_to_text M (mc_content c) (concat (map snd (mc_events c)))"

definition md_generate_html ::
    "('p, 'f, 'o) md_setting \<Rightarrow> 'o md_codec \<Rightarrow> buildonomy_error + (string \<times> string) list" where
  "md_generate_html M c =
     (let doc_abs_path = (case mc_events c of
              [] \<Rightarrow> ''document.md'' | (p, _) # _ \<Rightarrow> if ir_path p = [] then ''document.md'' else ir_path p);
          doc_abs_ap = ap_new doc_abs_path
      in if filestem doc_abs_ap = [] then Inl Codec
         else Inr [(filestem doc_abs_ap @ ''.html'', render_html_body M c)])"

section \<open>Reading a document\<close>

text \<open>\<open>Path::file_stem\<close> and \<open>Path::extension\<close>.\<close>

definition split_file_name :: "string \<Rightarrow> string \<times> string option" where
  "split_file_name n =
     (case str_rfind CHR ''.'' n of
        None \<Rightarrow> (n, None)
      | Some i \<Rightarrow> if i = 0 then (n, None) else (take i n, Some (drop (i + 1) n)))"

definition md_default_title :: "('p, 'f, 'o) md_setting \<Rightarrow> os_path \<Rightarrow> ir_node \<Rightarrow> ir_node" where
  "md_default_title M path p =
     (if unwrap_or (ir_title p) [] \<noteq> [] then p
      else case map_option (fst \<circ> split_file_name) (file_name path) of
             None \<Rightarrow> p
           | Some stem \<Rightarrow>
               if stem = [] then p
               else p\<lparr>ir_document := bm_insert ''title''
                       (Val (TString (str_join '' '' (map (md_titlecase M) (str_split CHR ''_'' stem)))))
                       (ir_document p)\<rparr>)"

definition md_proto :: "('p, 'f, 'o) md_setting \<Rightarrow> os_path \<Rightarrow> buildonomy_error + ir_node option" where
  "md_proto M path =
     (if path = [] \<or> hd path \<noteq> [] then Inl Codec
      else if Option.bind (file_name path) (snd \<circ> split_file_name) \<noteq> Some ''md'' then Inr None
      else
        case md_read M path of
          Inl e \<Rightarrow> Inl e
        | Inr reader \<Rightarrow>
            (case read_frontmatter reader of
               Inl e \<Rightarrow> Inl e
             | Inr frontmatter \<Rightarrow>
                 (case (case frontmatter of
                          None \<Rightarrow> Inr ir_default
                        | Some fm \<Rightarrow> if fm = [] then Inr ir_default else ir_from_str (md_ext M) (md_docs M) fm) of
                    Inl e \<Rightarrow> Inl e
                  | Inr p \<Rightarrow>
                      let p = md_default_title M path p
                      in Inr (Some (p\<lparr>ir_path := os_path_to_string path, ir_heading := 2,
                           ir_kind := insert Document (ir_kind p)\<rparr>)))))"

definition md_nodes :: "'o md_codec \<Rightarrow> ir_node list" where
  "md_nodes c = map fst (mc_events c)"

section \<open>Parsing\<close>

text \<open>The codec with the variables of its \<open>parse\<close>.\<close>

record 'o md_parse = "'o md_codec" +
  mp_current :: ir_node
  mp_first_heading :: bool
  mp_proto_events :: "'o event_queue"
  mp_links :: "'o link_accumulator list"
  mp_diagnostics :: "parse_diagnostic list"

definition set_current :: "(ir_node \<Rightarrow> ir_node) \<Rightarrow> ('o md_parse, unit) run" where
  "set_current f = modify (\<lambda>s. s\<lparr>mp_current := f (mp_current s)\<rparr>)"

text \<open>A link that ends is a relation of the current node; its text is the weight's title unless it says nothing.\<close>

definition link_payload :: "'o link_accumulator \<Rightarrow> weight option" where
  "link_payload la =
     (let title = title_string la
      in if title \<noteq> [] \<and> title \<noteq> la_url la \<and> title \<noteq> la_id la
         then Some (weight_set_key ''title'' (TString title) weight_default) else None)"

definition relation_of_link ::
    "('p, 'f, 'o) md_setting \<Rightarrow> string \<Rightarrow> 'o link_accumulator \<Rightarrow> intermediate_relation option" where
  "relation_of_link M doc_path la =
     map_option (\<lambda>key.
       let r = relation_new (resolve_against (md_ext M) key doc_path) Epistemic (link_payload la)
       in case la_range la of None \<Rightarrow> r | Some (a, _) \<Rightarrow> relation_with_location a r)
     (link_to_relation (md_ext M) (ln_codecs (md_link M)) (la_type la) (la_url la) (title_string la) (la_id la))"

definition collect_link ::
    "('p, 'f, 'o) md_setting \<Rightarrow> 'o md_event \<Rightarrow> byte_range \<Rightarrow> 'o md_parse \<Rightarrow> 'o md_parse" where
  "collect_link M event offset s =
     (let stack = (case link_new event (Some offset) of Some la \<Rightarrow> la # mp_links s | None \<Rightarrow> mp_links s)
      in case stack of
           [] \<Rightarrow> s\<lparr>mp_links := []\<rparr>
         | la # rest \<Rightarrow>
             (case link_push event (Some offset) la of
                (la, ended) \<Rightarrow>
                  if \<not> ended then s\<lparr>mp_links := la # rest\<rparr>
                  else s\<lparr>mp_links := rest,
                         mp_current := (case relation_of_link M (ir_path (mp_current s)) la of
                             None \<Rightarrow> mp_current s
                           | Some r \<Rightarrow> (mp_current s)\<lparr>ir_upstream := ir_upstream (mp_current s) @ [r]\<rparr>)\<rparr>))"

text \<open>The frontmatter ends: what it says goes into the node, an error into the list of its errors.\<close>

definition end_metadata :: "('p, 'f, 'o) md_setting \<Rightarrow> ('o md_parse, unit) run" where
  "end_metadata M =
     and_then (gets (ir_accumulator \<circ> mp_current)) (\<lambda>acc.
       case acc of
         None \<Rightarrow> panic
       | Some toml_string \<Rightarrow>
           set_current (\<lambda>p.
             let p = p\<lparr>ir_accumulator := None\<rparr>
             in case ir_from_str (md_ext M) (md_docs M) toml_string of
                  Inr proto \<Rightarrow> fst (ir_merge (reparse (md_docs M)) p proto)
                | Inl e \<Rightarrow> p\<lparr>ir_errors := ir_errors p @ [e]\<rparr>))"

definition add_text :: "string \<Rightarrow> ir_node \<Rightarrow> ir_node" where
  "add_text text p =
     (if \<not> bm_contains (ir_document p) ''title'' \<or> ir_content p = []
      then p\<lparr>ir_accumulator := Some (case ir_accumulator p of Some acc \<Rightarrow> acc @ '' '' @ text | None \<Rightarrow> text)\<rparr>
      else p)"

definition heading_number :: "heading_level \<Rightarrow> nat" where
  "heading_number level = (case level of H1 \<Rightarrow> 3 | H2 \<Rightarrow> 4 | H3 \<Rightarrow> 5 | H4 \<Rightarrow> 6 | H5 \<Rightarrow> 7 | H6 \<Rightarrow> 8)"

definition traverse_current :: "('p, 'f, 'o) md_setting \<Rightarrow> ir_node \<Rightarrow> ir_node \<times> (buildonomy_error + unit)" where
  "traverse_current M p = traverse_schema (md_ext M) (md_docs M) (ln_codecs (md_link M)) (md_schemas M) p"

definition section_start ::
    "('p, 'f, 'o) md_setting \<Rightarrow> string \<Rightarrow> heading_level \<Rightarrow> string option \<Rightarrow> ir_node" where
  "section_start M path level ident =
     ir_default\<lparr>ir_path := path, ir_heading := heading_number level,
       ir_document := (case ident of None \<Rightarrow> []
         | Some i \<Rightarrow> bm_insert ''id'' (Val (TString (to_anchor (md_ext M) i))) [])\<rparr>"

definition start_heading ::
    "('p, 'f, 'o) md_setting \<Rightarrow> byte_range \<Rightarrow> heading_level \<Rightarrow> string option \<Rightarrow> ('o md_parse, unit) run" where
  "start_heading M offset level ident =
     (\<lambda>s. let s = s\<lparr>mc_heading_start := Some (fst offset)\<rparr>;
              proto_to_push = mp_current s;
              s = s\<lparr>mp_current := section_start M (ir_path proto_to_push) level ident\<rparr>
          in case traverse_current M proto_to_push of
               (_, Inl e) \<Rightarrow> Some (s, Inl e)
             | (p, Inr _) \<Rightarrow>
                 Some (s\<lparr>mp_proto_events := [], mc_events := mc_events s @ [(p, mp_proto_events s)]\<rparr>, Inr ()))"

text \<open>A heading that opens no section goes back to the node before it.\<close>

definition glue_back :: "('o md_parse, unit) run" where
  "glue_back = modify (\<lambda>s.
     if mc_events s = [] then s
     else case last (mc_events s) of (last_proto, last_events) \<Rightarrow>
       s\<lparr>mc_events := butlast (mc_events s), mp_current := last_proto,
         mp_proto_events := last_events @ mp_proto_events s\<rparr>)"

definition explicit_id :: "ir_node \<Rightarrow> string option" where
  "explicit_id p = Option.bind (bm_get (ir_document p) ''id'') item_text"

definition heading_location :: "'o md_parse \<Rightarrow> (nat \<times> nat) option" where
  "heading_location s =
     (case mc_heading_start s of None \<Rightarrow> Some (0, 0) | Some offset \<Rightarrow> byte_offset_to_location (mc_content s) offset)"

text \<open>
  The anchor of a section is the explicit one or that of its title. Taken already, the explicit one gives way
  to the title, or the section is left without; the messages are shortened.
\<close>

definition resolve_collision ::
    "('p, 'f, 'o) md_setting \<Rightarrow> string \<Rightarrow> string \<Rightarrow> nat \<times> nat \<Rightarrow> ('o md_parse, unit) run" where
  "resolve_collision M accum_title candidate loc = modify (\<lambda>s.
     let title_slug = to_anchor (md_ext M) accum_title
     in if unwrap_or (explicit_id (mp_current s)) [] \<noteq> [] \<and> title_slug \<noteq> [] \<and> title_slug \<notin> mc_seen s
        then s\<lparr>mp_current := (mp_current s)\<lparr>ir_document := bm_remove ''id'' (ir_document (mp_current s))\<rparr>,
               mc_seen := insert title_slug (mc_seen s),
               mp_diagnostics := mp_diagnostics s
                 @ [with_location (info (''Intra-document anchor collision: '' @ candidate)) (fst loc) (snd loc)]\<rparr>
        else s\<lparr>mp_current := (mp_current s)\<lparr>ir_document :=
                 bm_insert ''id'' (Val (TString [])) (ir_document (mp_current s))\<rparr>,
               mp_diagnostics := mp_diagnostics s
                 @ [with_location (warning (''Intra-document heading anchor collision: '' @ candidate))
                      (fst loc) (snd loc)]\<rparr>)"

definition claim_anchor :: "('p, 'f, 'o) md_setting \<Rightarrow> string \<Rightarrow> ('o md_parse, unit) run" where
  "claim_anchor M accum_title = (\<lambda>s.
     case or_else (explicit_id (mp_current s))
            (let slug = to_anchor (md_ext M) accum_title in if slug = [] then None else Some slug) of
       None \<Rightarrow> Some (s, Inr ())
     | Some candidate \<Rightarrow>
         if candidate \<in> mc_seen s
         then (case heading_location s of
                 None \<Rightarrow> None
               | Some loc \<Rightarrow> resolve_collision M accum_title candidate loc s)
         else Some (s\<lparr>mc_seen := insert candidate (mc_seen s)\<rparr>, Inr ()))"

definition end_heading :: "('p, 'f, 'o) md_setting \<Rightarrow> ('o md_parse, unit) run" where
  "end_heading M =
     and_then (gets mp_current) (\<lambda>current.
     and_then (gets mp_first_heading) (\<lambda>first_heading.
       let accum_title = unwrap_or (ir_accumulator current) [];
           current_title = unwrap_or (ir_title current) [];
           is_document_heading = (first_heading \<and> ir_heading current = 3)
       in and_then (set_current (\<lambda>p. p\<lparr>ir_accumulator := None\<rparr>)) (\<lambda>_.
          and_then (if accum_title = [] \<or> current_title = accum_title \<or> is_document_heading then glue_back
                    else set_current (\<lambda>p. p\<lparr>ir_document :=
                           bm_insert ''title'' (Val (TString accum_title)) (ir_document p)\<rparr>)) (\<lambda>_.
          and_then (gets (\<lambda>s. ir_heading (mp_current s) > 2 \<and> \<not> is_document_heading)) (\<lambda>is_section.
          and_then (if is_section
                    then and_then (claim_anchor M accum_title) (\<lambda>_. modify (\<lambda>s. s\<lparr>mc_heading_start := None\<rparr>))
                    else ret ()) (\<lambda>_.
          modify (\<lambda>s. s\<lparr>mp_first_heading := False\<rparr>)))))))"

definition handle_event ::
    "('p, 'f, 'o) md_setting \<Rightarrow> 'o md_event \<Rightarrow> byte_range \<Rightarrow> ('o md_parse, unit) run" where
  "handle_event M event offset =
     (case event of
        Start (MetadataTag _) \<Rightarrow> set_current (\<lambda>p. p\<lparr>ir_accumulator := Some []\<rparr>)
      | End (MetadataEnd _) \<Rightarrow> end_metadata M
      | Text s \<Rightarrow> set_current (add_text s)
      | InlineHtml s \<Rightarrow> set_current (add_text s)
      | Code s \<Rightarrow> set_current (add_text s)
      | Start (HeadingTag level ident _ _) \<Rightarrow> start_heading M offset level ident
      | End (HeadingEnd _) \<Rightarrow> end_heading M
      | _ \<Rightarrow> ret ())"

definition parse_event ::
    "('p, 'f, 'o) md_setting \<Rightarrow> 'o md_event \<times> byte_range \<Rightarrow> ('o md_parse, unit) run" where
  "parse_event M item =
     (case item of (event, offset) \<Rightarrow>
       and_then (modify (collect_link M event offset)) (\<lambda>_.
       and_then (handle_event M event offset) (\<lambda>_.
       modify (\<lambda>s. s\<lparr>mp_proto_events := mp_proto_events s @ [(event, Some offset)]\<rparr>))))"

definition parse_start ::
    "string \<Rightarrow> ir_node \<Rightarrow> 'o md_codec \<Rightarrow> parse_diagnostic list \<Rightarrow> 'o md_parse" where
  "parse_start content current c diagnostics =
     \<lparr>mc_events = [], mc_content = content, mc_matched = {}, mc_seen = {}, mc_heading_start = None,
      mp_current = current, mp_first_heading = True, mp_proto_events = [], mp_links = [],
      mp_diagnostics = diagnostics\<rparr>"

text \<open>At the end the current node joins the others.\<close>

definition finish_parse :: "('p, 'f, 'o) md_setting \<Rightarrow> ('o md_parse, unit) run" where
  "finish_parse M = (\<lambda>s.
     case traverse_current M (mp_current s) of
       (_, Inl e) \<Rightarrow> Some (s, Inl e)
     | (p, Inr _) \<Rightarrow> Some (s\<lparr>mc_events := mc_events s @ [(p, mp_proto_events s)]\<rparr>, Inr ()))"

definition md_codec_of :: "'o md_parse \<Rightarrow> 'o md_codec" where
  "md_codec_of s =
     \<lparr>mc_events = mc_events s, mc_content = mc_content s, mc_matched = mc_matched s, mc_seen = mc_seen s,
      mc_heading_start = mc_heading_start s\<rparr>"

definition md_parse_run :: "('p, 'f, 'o) md_setting \<Rightarrow> string \<Rightarrow> ('o md_parse, unit) run" where
  "md_parse_run M content =
     and_then (for_each (parse_event M) (md_parser M content)) (\<lambda>_. finish_parse M)"

definition md_parse_document ::
    "('p, 'f, 'o) md_setting \<Rightarrow> string \<Rightarrow> ir_node \<Rightarrow> 'o md_codec \<Rightarrow> parse_diagnostic list
      \<Rightarrow> ((buildonomy_error + 'o md_codec) \<times> parse_diagnostic list) option" where
  "md_parse_document M content current c diagnostics =
     (case md_parse_run M content (parse_start content current c diagnostics) of
        None \<Rightarrow> None
      | Some (s, Inl e) \<Rightarrow> Some (Inl e, mp_diagnostics s)
      | Some (s, Inr _) \<Rightarrow> Some (Inr (md_codec_of s), mp_diagnostics s))"

section \<open>Writing back what the builder found\<close>

fun find_index :: "('x \<Rightarrow> bool) \<Rightarrow> 'x list \<Rightarrow> nat option" where
  "find_index p [] = None"
| "find_index p (x # xs) = (if p x then Some 0 else map_option Suc (find_index p xs))"

definition heading_id :: "'o md_event \<Rightarrow> string option" where
  "heading_id event = (case event of Start (HeadingTag _ ident _ _) \<Rightarrow> ident | _ \<Rightarrow> None)"

text \<open>The first heading gets an identifier and loses its range, so that it is printed anew.\<close>

fun set_heading_id :: "string \<Rightarrow> 'o event_queue \<Rightarrow> 'o event_queue" where
  "set_heading_id i [] = []"
| "set_heading_id i ((event, rng) # events) =
     (case event of
        Start (HeadingTag level _ classes attrs) \<Rightarrow> (Start (HeadingTag level (Some i) classes attrs), None) # events
      | _ \<Rightarrow> (event, rng) # set_heading_id i events)"

text \<open>The node, its events and whether its identifier is new.\<close>

definition inject_id ::
    "('p, 'f, 'o) md_setting \<Rightarrow> node \<Rightarrow> ir_node \<times> 'o event_queue \<Rightarrow> (ir_node \<times> 'o event_queue) \<times> bool" where
  "inject_id M ctx_node entry =
     (case entry of (p, events) \<Rightarrow>
        if ir_heading p \<le> 2 then (entry, False)
        else
          let final_id = node_id (md_ext M) ctx_node;
              original_event_id = find_map (heading_id \<circ> fst) events;
              id_changed = (ir_id (md_ext M) p \<noteq> Some final_id);
              (events, id_changed) =
                (if original_event_id \<noteq> Some final_id then (set_heading_id final_id events, True)
                 else (events, id_changed))
          in (if id_changed then (p\<lparr>ir_document := bm_insert ''id'' (Val (TString final_id)) (ir_document p)\<rparr>, events)
              else (p, events), id_changed))"

definition sections_of :: "('p, 'f, 'o) md_setting \<Rightarrow> 'o md_codec \<Rightarrow> ir_node \<Rightarrow> section_metadata option" where
  "sections_of M c n =
     (if ir_heading n > 2 then
        (case mc_events c of
           [] \<Rightarrow> None
         | (doc, _) # _ \<Rightarrow>
             map_option (parse_sections_metadata (md_ext M) (ln_codecs (md_link M))) (bm_get (ir_document doc) ''sections''))
      else None)"

text \<open>What the document says of a section goes into it, where it does not say otherwise itself.\<close>

definition merge_section ::
    "('p, 'f, 'o) md_setting \<Rightarrow> section_metadata option \<Rightarrow> ir_node \<Rightarrow> ir_node \<times> node_key option" where
  "merge_section M sections p =
     (case sections of
        None \<Rightarrow> (p, None)
      | Some metadata \<Rightarrow>
          (case find_metadata_match (md_ext M) p metadata of
             None \<Rightarrow> (p, None)
           | Some (key, t) \<Rightarrow> (merge_metadata_into_node t p, Some key)))"

text \<open>The node that is handed back, given the one of the context and the updated one.\<close>

definition injected_node ::
    "('p, 'f, 'o) md_setting \<Rightarrow> node \<Rightarrow> node option \<Rightarrow> bool \<Rightarrow> string option \<Rightarrow> ir_node \<Rightarrow> ir_node \<times> node option" where
  "injected_node M ctx_node frontmatter_changed merged maybe_text p =
     (case maybe_text of
        Some text \<Rightarrow>
          let p = p\<lparr>ir_document := bm_insert ''text'' (Val (TString text)) (ir_document p)\<rparr>;
              n = (if merged \<or> frontmatter_changed \<noteq> None
                   then (case node_from_proto (md_ext M) p of
                           Inr n \<Rightarrow> n | Inl _ \<Rightarrow> unwrap_or frontmatter_changed ctx_node)
                   else unwrap_or frontmatter_changed ctx_node)
          in (p, Some (n\<lparr>nd_payload := bm_insert ''text'' (TString text) (nd_payload n)\<rparr>))
      | None \<Rightarrow>
          (p, if merged \<or> frontmatter_changed \<noteq> None
              then (case node_from_proto (md_ext M) p of Inr n \<Rightarrow> Some n | Inl _ \<Rightarrow> frontmatter_changed)
              else None))"

text \<open>The node and its events after the context is known; an error is that of the update.\<close>

definition inject_entry ::
    "('p, 'f, 'o) md_setting \<Rightarrow> string \<Rightarrow> section_metadata option \<Rightarrow> string \<Rightarrow> 'p belief_context
      \<Rightarrow> parse_diagnostic list \<Rightarrow> ir_node \<times> 'o event_queue
      \<Rightarrow> (buildonomy_error + (ir_node \<times> 'o event_queue) \<times> node_key option \<times> node option) \<times> parse_diagnostic list" where
  "inject_entry M content sections doc_path ctx diagnostics entry =
     (case update_from_context (md_ext M) (md_docs M) (md_node_text M) (bc_node ctx) (bc_root_path ctx) (fst entry) of
        (_, Inl e) \<Rightarrow> (Inl e, diagnostics)
      | (p, Inr frontmatter_changed) \<Rightarrow>
          let (p, matched) = merge_section M sections p;
              ((p, events), id_changed) = inject_id M (bc_node ctx) (p, snd entry);
              news = (frontmatter_changed \<noteq> None \<or> matched \<noteq> None \<or> id_changed);
              events = (if news \<and> ir_heading p \<le> 2
                then fst (update_or_insert_frontmatter (as_frontmatter (md_docs M) p) events) else events)
          in case check_for_link_and_push (md_link M) events ctx doc_path [] None diagnostics of
               (_, events, link_changed, diagnostics) \<Rightarrow>
                 let maybe_text = (if news \<or> link_changed
                       then events_to_text M content
                         (case find_frontmatter_end events of Some start_idx \<Rightarrow> drop start_idx events | None \<Rightarrow> events)
                       else None);
                     (p, updated) = injected_node M (bc_node ctx) frontmatter_changed (matched \<noteq> None) maybe_text p
                 in (Inr ((p, events), matched, updated), diagnostics))"

definition md_inject_context ::
    "('p, 'f, 'o) md_setting \<Rightarrow> 'o md_codec \<Rightarrow> ir_node \<Rightarrow> 'p belief_context \<Rightarrow> parse_diagnostic list
      \<Rightarrow> (buildonomy_error + 'o md_codec \<times> node option) \<times> parse_diagnostic list" where
  "md_inject_context M c n ctx diagnostics =
     (case find_index (\<lambda>(p, _). ir_eq (md_docs M) p n) (mc_events c) of
        None \<Rightarrow> (Inl Codec, diagnostics)
      | Some i \<Rightarrow>
          (case inject_entry M (mc_content c) (sections_of M c n) (ir_path n) ctx diagnostics (mc_events c ! i) of
             (Inl e, ds) \<Rightarrow> (Inl e, ds)
           | (Inr (entry, matched, updated), ds) \<Rightarrow>
               (Inr (c\<lparr>mc_events := (mc_events c)[i := entry],
                       mc_matched := (case matched of None \<Rightarrow> mc_matched c | Some key \<Rightarrow> insert key (mc_matched c))\<rparr>,
                     updated), ds)))"

section \<open>The sections in the frontmatter\<close>

text \<open>A section without an anchor is listed by the \<open>Bref\<close> of its identity; without one it is skipped.\<close>

definition section_ident :: "('p, 'f, 'o) md_setting \<Rightarrow> ir_node \<Rightarrow> string + string" where
  "section_ident M p =
     (case ir_id (md_ext M) p of
        Some i \<Rightarrow> Inr i
      | None \<Rightarrow>
          (case bm_get (ir_document p) ''bid'' of
             None \<Rightarrow> Inl ''Section has no BID, skipping''
           | Some bid_value \<Rightarrow>
               (case item_text bid_value of
                  None \<Rightarrow> Inl ''Section BID is not a string, skipping''
                | Some bid_str \<Rightarrow>
                    (case bid_try_from (md_ext M) bid_str of
                       Inl _ \<Rightarrow> Inl ''Section has invalid BID, skipping''
                     | Inr b \<Rightarrow> Inr (bref_display (bref_of (md_ext M) b))))))"

definition section_fields :: "string \<Rightarrow> ir_node \<Rightarrow> (string \<times> item) list" where
  "section_fields section_id p =
     (let t = (case bm_get (ir_document p) ''bid'' of Some b \<Rightarrow> bm_insert ''bid'' b [] | None \<Rightarrow> []);
          t = bm_insert ''id'' (Val (TString section_id)) t;
          t = (case bm_get (ir_document p) ''schema'' of Some i \<Rightarrow> bm_insert ''schema'' i t | None \<Rightarrow> t)
      in fold (\<lambda>(key, i) t. if key \<in> set [''bid'', ''id'', ''title'', ''text'', ''schema'', ''heading''] then t
                else bm_insert key i t) (ir_document p) t)"

definition list_section ::
    "('p, 'f, 'o) md_setting \<Rightarrow> ir_node \<Rightarrow> (string \<times> item) list \<times> parse_diagnostic list
      \<Rightarrow> (string \<times> item) list \<times> parse_diagnostic list" where
  "list_section M p acc =
     (case acc of (t, ds) \<Rightarrow>
        if ir_heading p \<le> 2 then (t, ds)
        else case section_ident M p of
               Inl message \<Rightarrow> (t, ds @ [warning message])
             | Inr section_id \<Rightarrow> (bm_insert (''id://'' @ section_id) (Tab (section_fields section_id p)) t, ds))"

text \<open>The table in the document is replaced if its keys are not the same.\<close>

definition sections_need_update :: "(string \<times> item) list \<Rightarrow> item option \<Rightarrow> bool" where
  "sections_need_update t existing =
     (if t \<noteq> [] then
        (case existing of
           None \<Rightarrow> True
         | Some (Tab e) \<Rightarrow> fst ` set e \<noteq> fst ` set t
         | Some _ \<Rightarrow> True)
      else existing \<noteq> None)"

definition update_sections ::
    "('p, 'f, 'o) md_setting \<Rightarrow> (string \<times> item) list \<Rightarrow> ir_node \<times> 'o event_queue \<Rightarrow> ir_node \<times> 'o event_queue" where
  "update_sections M t entry =
     (case entry of (p, events) \<Rightarrow>
        let p = p\<lparr>ir_document := (if t \<noteq> [] then bm_insert ''sections'' (Tab t) (ir_document p)
                  else bm_remove ''sections'' (ir_document p))\<rparr>
        in (p, fst (update_or_insert_frontmatter (as_frontmatter (md_docs M) p) events)))"

definition md_finalize ::
    "('p, 'f, 'o) md_setting \<Rightarrow> 'o md_codec \<Rightarrow> parse_diagnostic list
      \<Rightarrow> (buildonomy_error + 'o md_codec \<times> (ir_node \<times> node) list) \<times> parse_diagnostic list" where
  "md_finalize M c diagnostics =
     (case fold (list_section M) (map fst (tl (mc_events c))) ([], diagnostics) of
        (t, ds) \<Rightarrow>
          (case mc_events c of
             [] \<Rightarrow> (Inr (c, []), ds)
           | doc # rest \<Rightarrow>
               if \<not> sections_need_update t (bm_get (ir_document (fst doc)) ''sections'') then (Inr (c, []), ds)
               else
                 let doc = update_sections M t doc
                 in (Inr (c\<lparr>mc_events := doc # rest\<rparr>,
                       case node_from_proto (md_ext M) (fst doc) of Inr n \<Rightarrow> [(fst doc, n)] | Inl _ \<Rightarrow> []), ds)))"

section \<open>The codec as the builder sees it\<close>

definition md_doc_codec :: "('p, 'f, 'o) md_setting \<Rightarrow> ('p, 'o md_codec) doc_codec" where
  "md_doc_codec M =
     \<lparr>dc_fresh = md_new, dc_proto = \<lambda>path. Some (md_proto M path), dc_parse = md_parse_document M,
      dc_nodes = md_nodes, dc_inject = md_inject_context M, dc_finalize = md_finalize M,
      dc_generate = md_generate_source M, dc_should_defer = \<lambda>c. False, dc_generate_html = md_generate_html M\<rparr>"

end
