(* ===== verification/LinkProps.thy ===== *)
theory LinkProps
  imports Markdown
begin

text \<open>
  What makes the links of the Markdown codec correct: the title attribute is read back as it was written, links
  are rewritten one by one, and a link in canonical form stays as it is.
\<close>

section \<open>Words\<close>

lemma utf8_chars_pieces: "ch \<in> set (utf8_chars s) \<Longrightarrow> ch \<noteq> []"
  by (induction s arbitrary: ch rule: utf8_chars.induct) (auto split: list.splits if_splits)

lemma concat_utf8_chars [simp]: "concat (utf8_chars s) = s"
  by (induction s rule: utf8_chars.induct) (auto split: list.splits if_splits)

lemma utf8_chars_Cons_neq [simp]: "utf8_chars (c # cs) \<noteq> []"
  by (auto split: list.splits if_splits)

lemma utf8_chars_Nil_piece [simp]: "utf8_chars s \<noteq> [] # rest"
  using utf8_chars_pieces [of "[]" s] by auto

lemma hd_utf8_chars: "utf8_chars s = (d # ds) # rest \<Longrightarrow> hd s = d \<and> s \<noteq> []"
  using concat_utf8_chars [of s] by (cases s) auto

lemma utf8_chars_append:
  "s = [] \<or> \<not> is_continuation (hd s) \<Longrightarrow> utf8_chars (a @ s) = utf8_chars a @ utf8_chars s"
proof (induction a)
  case (Cons c cs)
  then have IH: "utf8_chars (cs @ s) = utf8_chars cs @ utf8_chars s" by blast
  show ?case
  proof (cases cs)
    case Nil
    with Cons.prems show ?thesis
      by (auto split: list.splits dest: hd_utf8_chars)
  next
    case (Cons d ds)
    then obtain ch chs where "utf8_chars cs = ch # chs" by (metis list.exhaust utf8_chars_Cons_neq)
    with IH show ?thesis by (auto split: list.splits)
  qed
qed simp

definition plain_word :: "string \<Rightarrow> bool" where
  "plain_word w \<longleftrightarrow> w \<noteq> [] \<and> \<not> is_continuation (hd w) \<and> list_all (\<lambda>ch. \<not> is_whitespace ch) (utf8_chars w)"

lemma split_blank_word:
  "list_all (\<lambda>ch. \<not> is_whitespace ch) cs \<Longrightarrow> split_blank cs = [concat cs]"
  "list_all (\<lambda>ch. \<not> is_whitespace ch) cs \<Longrightarrow> is_whitespace b
    \<Longrightarrow> split_blank (cs @ b # rest) = concat cs # split_blank rest"
  by (induction cs) auto

lemma blank [simp]: "is_whitespace '' ''" "\<not> is_continuation CHR '' ''"
  by code_simp+

lemma split_whitespace_words:
  "list_all plain_word ws \<Longrightarrow> split_whitespace (str_join '' '' ws) = ws"
proof (induction ws)
  case (Cons w ws)
  note w = Cons.prems
  show ?case
  proof (cases ws)
    case Nil
    with w show ?thesis by (simp add: split_whitespace_def plain_word_def split_blank_word)
  next
    case (Cons v vs)
    let ?rest = "str_join '' '' ws"
    have "hd ?rest = hd v" "?rest \<noteq> []"
      using w Cons by (cases vs; simp add: plain_word_def)+
    then have "utf8_chars ('' '' @ ?rest) = '' '' # utf8_chars ?rest"
      using utf8_chars_append [of ?rest "'' ''"] w Cons by (simp add: plain_word_def)
    then have "utf8_chars (w @ '' '' @ ?rest) = utf8_chars w @ '' '' # utf8_chars ?rest"
      using utf8_chars_append [of "'' '' @ ?rest" w] by simp
    then have "split_whitespace (w @ '' '' @ ?rest) = w # split_whitespace ?rest"
      using w by (simp add: split_whitespace_def split_blank_word plain_word_def)
    moreover have "str_join '' '' (w # ws) = w @ '' '' @ ?rest" by (simp add: Cons)
    ultimately show ?thesis using Cons.IH w by simp
  qed
qed (simp add: split_whitespace_def)

section \<open>The title attribute\<close>

text \<open>A word of the author: not one of the forms the attribute gives a meaning.\<close>

definition user_word :: "string \<Rightarrow> bool" where
  "user_word w \<longleftrightarrow> plain_word w \<and> \<not> starts_with w ''bref://'' \<and> \<not> starts_with w ''bid://'' \<and> \<not> starts_with w ''{''"

definition words_text :: "string list \<Rightarrow> string option" where
  "words_text ws = (if ws = [] then None else Some (str_join '' '' ws))"

text \<open>What the JSON parser makes of the configuration the codec writes.\<close>

definition reads_config :: "(string \<Rightarrow> buildonomy_error + json) \<Rightarrow> bool" where
  "reads_config parse \<longleftrightarrow>
     (case parse auto_title_config of Inr (JObject es) \<Rightarrow> bm_get es ''auto_title'' = Some (JBool True) | _ \<Rightarrow> False)"

lemma ascii_word: "w \<noteq> [] \<Longrightarrow> list_all (\<lambda>c. is_ascii c \<and> \<not> is_whitespace [c]) w \<Longrightarrow> plain_word w"
proof -
  assume w: "w \<noteq> []" "list_all (\<lambda>c. is_ascii c \<and> \<not> is_whitespace [c]) w"
  then have "is_ascii (hd w)" by (simp add: list_all_iff)
  then have "\<not> is_continuation (hd w)" by (simp add: is_ascii_def is_continuation_def)
  moreover have "list_all is_ascii w" using w by (simp add: list_all_iff)
  ultimately show "plain_word w" using w by (simp add: plain_word_def utf8_chars_ascii list_all_iff)
qed

lemma bref_word: "plain_word (''bref://'' @ bref_display b)"
proof (rule ascii_word)
  have hex: "list_all (\<lambda>c. is_ascii c \<and> \<not> is_whitespace [c]) ''0123456789abcdef''" by code_simp
  have "list_all (\<lambda>c. is_ascii c \<and> \<not> is_whitespace [c]) (bref_display b)"
    using hex bref_display_hex [of _ b] unfolding list_all_iff is_hex_char_def by auto
  moreover have "list_all (\<lambda>c. is_ascii c \<and> \<not> is_whitespace [c]) ''bref://''" by code_simp
  ultimately show "list_all (\<lambda>c. is_ascii c \<and> \<not> is_whitespace [c]) (''bref://'' @ bref_display b)" by simp
qed simp

lemma config_word: "plain_word auto_title_config" by code_simp

lemma scan_user_words:
  "list_all user_word ws \<Longrightarrow> \<not> ts_in_json t \<Longrightarrow>
   fold (scan_word X parse) ws t = t\<lparr>ts_words := ts_words t @ ws\<rparr>"
  by (induction ws arbitrary: t) (simp_all add: scan_word_def user_word_def)

lemma scan_bref:
  assumes "bref_try_from X (bref_display b) = Inr b"
  shows "scan_word X parse (''bref://'' @ bref_display b) t = t\<lparr>ts_bref := Some b\<rparr>"
proof -
  have "\<not> starts_with (bref_display b) ''bref://''"
  proof
    assume "starts_with (bref_display b) ''bref://''"
    then have "CHR ''r'' \<in> set (bref_display b)" by (auto simp: starts_with_prefix prefix_def)
    then show False using bref_display_hex [of _ b] by (fastforce simp: is_hex_char_def)
  qed
  then have "trim_prefixes ''bref://'' (bref_display b) = bref_display b"
    by (subst trim_prefixes.simps) simp
  then have "trim_prefixes ''bref://'' (''bref://'' @ bref_display b) = bref_display b"
    by (subst trim_prefixes.simps) (simp add: starts_with_def)
  then show ?thesis by (simp add: scan_word_def starts_with_def assms)
qed

lemma scan_config:
  assumes "reads_config parse" "ts_json_buffer t = []" "\<not> ts_in_json t"
  shows "scan_word X parse auto_title_config t = t\<lparr>ts_auto_title := True\<rparr>"
proof -
  have "\<not> starts_with auto_title_config ''bref://''" "\<not> starts_with auto_title_config ''bid://''"
    "starts_with auto_title_config ''{''" "last auto_title_config = CHR ''}''" "auto_title_config \<noteq> []"
    by code_simp+
  moreover obtain es where "parse auto_title_config = Inr (JObject es)" "bm_get es ''auto_title'' = Some (JBool True)"
    using assms(1) by (auto simp: reads_config_def split: sum.splits json.splits)
  ultimately show ?thesis
    using assms(2,3) by (simp add: scan_word_def scan_json_def config_auto_title_def)
qed

lemma title_attribute_read:
  assumes "bref_try_from X (bref_display b) = Inr b" "reads_config parse" "list_all user_word ws"
  shows "parse_title_attribute X parse
      (build_title_attribute (''bref://'' @ bref_display b) auto_title (words_text ws))
    = \<lparr>tp_bref = Some b, tp_auto_title = auto_title, tp_user_words = words_text ws\<rparr>"
proof -
  let ?ws = "(''bref://'' @ bref_display b) # (if auto_title then [auto_title_config] else []) @ ws"
  have "list_all plain_word ?ws"
    using assms(3) bref_word [of b] config_word by (auto simp: list_all_iff user_word_def)
  moreover have "build_title_attribute (''bref://'' @ bref_display b) auto_title (words_text ws) = str_join '' '' ?ws"
    by (cases ws rule: list.exhaust; cases "tl ws")
      (auto simp: build_title_attribute_def words_text_def str_join_Cons)
  ultimately have "split_whitespace (build_title_attribute (''bref://'' @ bref_display b) auto_title (words_text ws)) = ?ws"
    using split_whitespace_words by metis
  moreover have "fold (scan_word X parse) ?ws title_scan_start
      = title_scan_start\<lparr>ts_bref := Some b, ts_auto_title := auto_title, ts_words := ws\<rparr>"
    using assms(2,3)
    using scan_bref [OF assms(1), of parse, simplified]
    by (auto simp: scan_config scan_user_words title_scan_start_def)
  ultimately show ?thesis
    by (simp only: parse_title_attribute_def) (simp add: title_scan_start_def words_text_def)
qed

text \<open>
  The title attribute of a link is read as it was written: the target, whether the text follows the title of
  the target, and the words of the author.
\<close>

theorem title_attribute_roundtrip:
  assumes "bref_try_from X (bref_display b) = Inr b" "reads_config parse" "list_all user_word ws"
  shows "parse_title_attribute X parse
      (build_title_attribute (''bref://'' @ bref_display b) auto_title (words_text ws))
    = \<lparr>tp_bref = Some b, tp_auto_title = auto_title, tp_user_words = words_text ws\<rparr>"
  using assms by (rule title_attribute_read)

section \<open>Links are rewritten one by one\<close>

text \<open>
  A run of events without nested links: events apart from links, and links with what they enclose.
\<close>

datatype 'o segment =
    Apart "'o md_event" "byte_range option"
  | Linked "'o md_event" "byte_range option" "'o event_queue" "byte_range option"

definition no_link :: "'o md_event \<Rightarrow> bool" where
  "no_link event \<longleftrightarrow> link_new event None = None \<and> event \<noteq> End LinkEnd \<and> event \<noteq> End ImageEnd"

definition link_end :: "'o link_accumulator \<Rightarrow> 'o md_event" where
  "link_end la = End (if la_is_image la then ImageEnd else LinkEnd)"

definition gather :: "'o event_queue \<Rightarrow> 'o link_accumulator \<Rightarrow> 'o link_accumulator" where
  "gather inner la = fold (\<lambda>(e, r) la. fst (link_push e r la)) inner la"

fun segment_events :: "'o segment \<Rightarrow> 'o event_queue" where
  "segment_events (Apart e r) = [(e, r)]"
| "segment_events (Linked e r inner r') =
     (e, r) # inner @ [(case link_new e r of Some la \<Rightarrow> link_end la | None \<Rightarrow> e, r')]"

fun segment_ok :: "'o segment \<Rightarrow> bool" where
  "segment_ok (Apart e r) \<longleftrightarrow> link_new e None = None"
| "segment_ok (Linked e r inner r') \<longleftrightarrow> link_new e None \<noteq> None \<and> list_all (no_link \<circ> fst) inner"

fun segment_result ::
    "('p, 'f) link_setting \<Rightarrow> 'p belief_context \<Rightarrow> string \<Rightarrow> 'o segment
      \<Rightarrow> 'o event_queue \<times> bool \<times> parse_diagnostic list" where
  "segment_result L ctx path (Apart e r) = ([(e, r)], False, [])"
| "segment_result L ctx path (Linked e r inner r') =
     (case link_new e r of
        None \<Rightarrow> ([], False, [])
      | Some la \<Rightarrow> process_link L ctx path (gather inner la) r')"

abbreviation steps where
  "steps L ctx path \<equiv> fold (\<lambda>(e, r). link_step L ctx path e r)"

lemma link_loop_fold: "link_loop L ctx path None es s = ([], steps L ctx path es s)"
  by (induction es arbitrary: s) auto

lemma link_new_range: "link_new e r = None \<longleftrightarrow> link_new e None = None"
proof (cases e)
  case (Start t)
  then show ?thesis by (cases t) (simp_all add: link_new_def)
qed (simp_all add: link_new_def)

lemma no_link_push:
  "no_link e \<Longrightarrow> snd (link_push e r la) = False"
  "no_link e \<Longrightarrow> la_is_image (fst (link_push e r la)) = la_is_image la"
  by (auto simp: no_link_def link_push_def is_link_end_def)

lemma gather_image: "list_all (no_link \<circ> fst) inner \<Longrightarrow> la_is_image (gather inner la) = la_is_image la"
  unfolding gather_def by (induction inner arbitrary: la) (simp_all add: no_link_push case_prod_beta)

lemma steps_inner:
  "list_all (no_link \<circ> fst) inner \<Longrightarrow> lp_stack s = la # rest \<Longrightarrow>
   steps L ctx path inner s = s\<lparr>lp_stack := gather inner la # rest\<rparr>"
proof (induction inner arbitrary: s la)
  case (Cons er inner)
  obtain e r where er: "er = (e, r)" by (cases er)
  have e: "no_link e" "list_all (no_link \<circ> fst) inner" using Cons.prems er by (simp_all add: comp_def)
  have new: "link_new e r = None" using e link_new_range [of e r] by (simp add: no_link_def)
  obtain la' where la': "link_push e r la = (la', False)"
    using no_link_push(1) [OF e(1), of r la] by (cases "link_push e r la") simp
  have "link_step L ctx path e r s = s\<lparr>lp_stack := la' # rest\<rparr>"
    using new la' Cons.prems(2) by (simp add: link_step_def)
  with Cons.IH [OF e(2), of "s\<lparr>lp_stack := la' # rest\<rparr>" la'] show ?case
    by (simp add: er la' gather_def)
qed (simp add: gather_def)

lemma link_end_pushed: "link_push (link_end la) r la = (la, True)" "link_new (link_end la) r = None"
  by (auto simp: link_end_def link_push_def is_link_end_def link_new_def)

definition passed :: "'o link_pass \<Rightarrow> 'o event_queue \<times> bool \<times> parse_diagnostic list \<Rightarrow> 'o link_pass" where
  "passed s result =
     (case result of (out, changed, ds) \<Rightarrow>
        s\<lparr>lp_changed := lp_changed s \<or> changed, lp_out := lp_out s @ out, lp_diagnostics := lp_diagnostics s @ ds\<rparr>)"

lemma steps_linked:
  assumes "link_new e r = Some la" "list_all (no_link \<circ> fst) inner"
  shows "steps L ctx path ((e, r) # inner @ [(link_end la, r')]) s = passed s (process_link L ctx path (gather inner la) r')"
proof -
  let ?la = "gather inner la"
  have "link_step L ctx path e r s = s\<lparr>lp_stack := la # lp_stack s\<rparr>"
    using assms(1) by (simp add: link_step_def)
  then have "steps L ctx path ((e, r) # inner) s = s\<lparr>lp_stack := ?la # lp_stack s\<rparr>"
    using steps_inner [OF assms(2), of "s\<lparr>lp_stack := la # lp_stack s\<rparr>" la "lp_stack s" L ctx path] by simp
  moreover have "link_end la = link_end ?la" using gather_image [OF assms(2)] by (simp add: link_end_def)
  ultimately show ?thesis
    by (simp add: link_step_def link_end_pushed passed_def split: prod.splits)
qed

lemma steps_segment:
  assumes "segment_ok seg" "lp_stack s = []"
  shows "steps L ctx path (segment_events seg) s = passed s (segment_result L ctx path seg)"
proof (cases seg)
  case (Apart e r)
  then show ?thesis using assms link_new_range [of e r] by (simp add: link_step_def passed_def)
next
  case (Linked e r inner r')
  then obtain la where "link_new e r = Some la" using assms(1) link_new_range [of e r] by auto
  with Linked assms steps_linked [of e r la inner L ctx path r' s] show ?thesis by simp
qed

text \<open>
  C30. Where links do not stand in one another, the pass treats each on its own: the events between links go
  through, each link becomes what \<open>process_link\<close> makes of it, in their order, and the pass reports a change
  exactly if one of them changed.
\<close>

theorem links_one_by_one:
  assumes "list_all segment_ok segs"
  shows "check_for_link_and_push L (concat (map segment_events segs)) ctx path [] None ds =
    ([], concat (map (fst \<circ> segment_result L ctx path) segs),
     list_ex (fst \<circ> snd \<circ> segment_result L ctx path) segs,
     ds @ concat (map (snd \<circ> snd \<circ> segment_result L ctx path) segs))"
proof -
  have "steps L ctx path (concat (map segment_events segs)) s
      = s\<lparr>lp_changed := lp_changed s \<or> list_ex (fst \<circ> snd \<circ> segment_result L ctx path) segs,
          lp_out := lp_out s @ concat (map (fst \<circ> segment_result L ctx path) segs),
          lp_diagnostics := lp_diagnostics s @ concat (map (snd \<circ> snd \<circ> segment_result L ctx path) segs)\<rparr>"
    if "lp_stack s = []" for s
    using assms that
  proof (induction segs arbitrary: s)
    case (Cons seg segs)
    have "lp_stack (passed s (segment_result L ctx path seg)) = []"
      using Cons.prems(2) by (simp add: passed_def split: prod.splits)
    with Cons show ?case
      by (simp add: steps_segment passed_def split: prod.splits)
  qed simp
  then show ?thesis by (simp add: check_for_link_and_push_def link_loop_fold)
qed

section \<open>Links in canonical form\<close>

text \<open>The link that events which came out stand for, when they are read again.\<close>

definition reread :: "'o event_queue \<Rightarrow> 'o link_accumulator option" where
  "reread out =
     (case out of [] \<Rightarrow> None | (e, r) # rest \<Rightarrow> map_option (gather (butlast rest)) (link_new e r))"

definition resolves_to ::
    "('p, 'f) link_setting \<Rightarrow> 'p belief_context \<Rightarrow> string \<Rightarrow> node_key \<Rightarrow> extended_relation \<Rightarrow> bool" where
  "resolves_to L ctx path key r \<longleftrightarrow>
     (case root_abs_path ctx path of
        None \<Rightarrow> False
      | Some root \<Rightarrow>
          find_target L ctx (regularize_unchecked (ln_ext L) (resolve_against (ln_ext L) key path) (bc_root_net ctx)
            (bc_root_path ctx) root) = Some r)"

text \<open>No other relation of the context has a target with the short identity of this one.\<close>

definition named_once :: "('p, 'f) link_setting \<Rightarrow> 'p belief_context \<Rightarrow> extended_relation \<Rightarrow> bool" where
  "named_once L ctx r \<longleftrightarrow>
     nd_bid (er_other r) \<noteq> nil_bid
     \<and> filter (relation_has_key L ctx (KBref (bref_of (ln_ext L) (nd_bid (er_other r))))) (sources (ln_ext L) (ln_ops L) ctx) = [r]"

lemma reread_emit:
  assumes "list_all no_link (la_title_events la)"
  shows "reread (emit_link la t rng) = Some (la\<lparr>la_title := t, la_range := None\<rparr>)"
proof -
  have g: "gather (map (\<lambda>e. (e, None)) es) la' = la'\<lparr>la_title_events := la_title_events la' @ es\<rparr>"
    if "list_all no_link es" "la_range la' = None" for es and la' :: "'a link_accumulator"
    using that
  proof (induction es arbitrary: la')
    case (Cons e es)
    then have "link_push e None la' = (la'\<lparr>la_title_events := la_title_events la' @ [e]\<rparr>, False)"
      by (cases la') (auto simp: link_push_def no_link_def is_link_end_def)
    with Cons show ?case by (simp add: gather_def)
  qed (simp add: gather_def)
  show ?thesis
    using assms by (cases la) (auto simp: reread_def emit_link_def start_tag_def link_new_def g)
qed

lemma find_named_once: "filter p xs = [r] \<Longrightarrow> find p xs = Some r"
  by (induction xs) (auto split: if_splits)

lemma link_same:
  "la_url la = u \<Longrightarrow> la\<lparr>la_url := u, la_title_events := la_title_events la\<rparr> = la"
  "la_url la = u \<Longrightarrow> la\<lparr>la_url := u\<rparr> = la"
  by (cases la; simp)+

definition auto_title :: "('p, 'f) link_setting \<Rightarrow> extended_relation \<Rightarrow> 'o link_accumulator \<Rightarrow> bool" where
  "auto_title L r la \<longleftrightarrow>
     tp_auto_title (parse_title_attribute (ln_ext L) (json_parse (ln_docs L)) (la_title la))
     \<or> title_string la = nd_title (er_other r)"

definition link_text :: "('p, 'f) link_setting \<Rightarrow> extended_relation \<Rightarrow> 'o link_accumulator \<Rightarrow> string" where
  "link_text L r la = (if auto_title L r la then nd_title (er_other r) else title_string la)"

definition link_title :: "('p, 'f) link_setting \<Rightarrow> extended_relation \<Rightarrow> 'o link_accumulator \<Rightarrow> string" where
  "link_title L r la =
     build_title_attribute (bref_url L r) (auto_title L r la)
       (tp_user_words (parse_title_attribute (ln_ext L) (json_parse (ln_docs L)) (la_title la)))"

definition link_changed ::
    "('p, 'f) link_setting \<Rightarrow> 'p belief_context \<Rightarrow> extended_relation \<Rightarrow> 'o link_accumulator \<Rightarrow> bool" where
  "link_changed L ctx r la \<longleftrightarrow>
     la_url la \<noteq> target_path L ctx r \<or> la_title la \<noteq> link_title L r la \<or> title_string la \<noteq> link_text L r la"

lemma rewrite_link_eq:
  "rewrite_link L ctx r la rng =
     (emit_link (la\<lparr>la_url := target_path L ctx r,
        la_title_events := (if link_changed L ctx r la then [Text (link_text L r la)] else la_title_events la)\<rparr>)
        (link_title L r la) rng, link_changed L ctx r la)"
proof -
  have "link_changed L ctx r la \<or> la_url la = target_path L ctx r" by (auto simp: link_changed_def)
  then show ?thesis
    by (auto simp: rewrite_link_def Let_def link_changed_def link_title_def link_text_def auto_title_def link_same)
qed

lemma bref_key_fixed:
  "resolve_against X (KBref b) path = KBref b" "regularize_unchecked X (KBref b) net p root = KBref b"
  by (simp_all add: resolve_against_def regularize_unchecked_def Let_def)

lemma process_named:
  assumes "tp_bref (parse_title_attribute (ln_ext L) (json_parse (ln_docs L)) (la_title la))
      = Some (bref_of (ln_ext L) (nd_bid (er_other r)))"
    "root_abs_path ctx path = Some root" "named_once L ctx r"
  shows "process_link L ctx path la rng = (case rewrite_link L ctx r la rng of (out, changed) \<Rightarrow> (out, changed, []))"
proof -
  have "find_target L ctx (KBref (bref_of (ln_ext L) (nd_bid (er_other r)))) = Some r"
    using assms(3) by (simp add: find_target_def named_once_def find_named_once)
  then show ?thesis using assms(1,2) by (simp add: process_link_def link_key_def bref_key_fixed Let_def)
qed

text \<open>
  C31. Once a link to a known target is written in its canonical form, another pass leaves it as it is: it finds the
  target by the identity in the title attribute, whatever the destination says, and has nothing to change.
\<close>

theorem canonical_link_stable:
  assumes "link_key L la = Some key" "resolves_to L ctx path key r" "named_once L ctx r"
    and bref: "bref_try_from (ln_ext L) (bref_display (bref_of (ln_ext L) (nd_bid (er_other r))))
      = Inr (bref_of (ln_ext L) (nd_bid (er_other r)))"
    and "reads_config (json_parse (ln_docs L))" "list_all user_word ws"
    and words: "tp_user_words (parse_title_attribute (ln_ext L) (json_parse (ln_docs L)) (la_title la)) = words_text ws"
    and "flat_lines (link_text L r la) = link_text L r la" "list_all no_link (la_title_events la)"
    and "reread (fst (process_link L ctx path la rng)) = Some la'"
  shows "\<exists>out. process_link L ctx path la' rng' = (out, False, [])
    \<and> map fst out = map fst (fst (process_link L ctx path la rng))"
proof -
  let ?parse = "parse_title_attribute (ln_ext L) (json_parse (ln_docs L))"
  let ?b = "bref_of (ln_ext L) (nd_bid (er_other r))"
  obtain root where root: "root_abs_path ctx path = Some root"
    using assms(2) by (auto simp: resolves_to_def split: option.splits)
  let ?events = "if link_changed L ctx r la then [Text (link_text L r la)] else la_title_events la"
  let ?la = "la\<lparr>la_url := target_path L ctx r, la_title_events := ?events\<rparr>"
  have first: "process_link L ctx path la rng = (emit_link ?la (link_title L r la) rng, link_changed L ctx r la, [])"
    using assms(1,2) root by (simp add: process_link_def resolves_to_def rewrite_link_eq)
  have "list_all no_link (la_title_events ?la)"
    using assms(9) by (simp add: no_link_def link_new_def)
  then have la': "la' = ?la\<lparr>la_title := link_title L r la, la_range := None\<rparr>"
    using reread_emit [of ?la "link_title L r la" rng] assms(10) unfolding first by simp
  have parsed: "?parse (la_title la') = \<lparr>tp_bref = Some ?b, tp_auto_title = auto_title L r la, tp_user_words = words_text ws\<rparr>"
    using title_attribute_read [OF bref assms(5,6), of "auto_title L r la"]
    by (simp add: la' link_title_def bref_url_def words)
  have shown: "title_string la' = link_text L r la"
  proof (cases "link_changed L ctx r la")
    case True
    then show ?thesis using assms(8) by (simp add: la' title_string_def title_step_def)
  next
    case False
    then show ?thesis by (simp add: la' title_string_def link_changed_def)
  qed
  have auto: "auto_title L r la' = auto_title L r la"
    using parsed shown by (auto simp: auto_title_def link_text_def)
  then have same: "link_title L r la' = link_title L r la" "link_text L r la' = link_text L r la"
    using parsed shown by (simp_all add: link_title_def link_text_def words)
  then have unchanged: "\<not> link_changed L ctx r la'"
    using shown by (simp add: link_changed_def la')
  have "la'\<lparr>la_url := target_path L ctx r\<rparr> = la'"
    using unchanged by (intro link_same(2)) (simp add: link_changed_def)
  then have "rewrite_link L ctx r la' rng' = (emit_link la' (link_title L r la) rng', False)"
    using unchanged same by (simp add: rewrite_link_eq)
  moreover have "tp_bref (?parse (la_title la')) = Some ?b" by (simp add: parsed)
  ultimately have "process_link L ctx path la' rng' = (emit_link la' (link_title L r la) rng', False, [])"
    by (simp add: process_named [OF _ root assms(3)])
  moreover have "map fst (emit_link la' (link_title L r la) rng') = map fst (emit_link ?la (link_title L r la) rng)"
    by (simp add: emit_link_def start_tag_def la')
  ultimately show ?thesis by (simp add: first)
qed

section \<open>What the pass does to other links\<close>

lemma process_link_shape:
  "\<exists>ty u t es r. fst (process_link L ctx path la rng) = emit_link (la\<lparr>la_type := ty, la_url := u, la_title_events := es\<rparr>) t r
     \<and> (es = la_title_events la \<or> (\<exists>w. es = [Text w]))"
proof -
  have form: ?thesis
    if "fst (process_link L ctx path la rng) = emit_link la' t r" "la_id la' = la_id la" "la_range la' = la_range la"
      "la_is_image la' = la_is_image la" "la_title la' = la_title la"
      "la_title_events la' = la_title_events la \<or> (\<exists>w. la_title_events la' = [Text w])" for la' t r
  proof -
    have "la' = la\<lparr>la_type := la_type la', la_url := la_url la', la_title_events := la_title_events la'\<rparr>"
      using that(2-5) by (cases la; cases la') simp
    then show ?thesis using that(1,6) by metis
  qed
  have left: "leave_link la rng = emit_link (la\<lparr>la_type := if title_string la = [] \<or> title_string la = la_id la
      then ShortcutLink else ReferenceLink\<rparr>) (la_title la) rng"
    by (simp add: leave_link_def Let_def)
  consider "fst (process_link L ctx path la rng) = leave_link la rng"
    | "fst (process_link L ctx path la rng) = emit_link la (la_title la) rng"
    | r where "fst (process_link L ctx path la rng) = fst (rewrite_link L ctx r la rng)"
  proof -
    have "fst (process_link L ctx path la rng) = leave_link la rng
        \<or> fst (process_link L ctx path la rng) = emit_link la (la_title la) rng
        \<or> (\<exists>r. fst (process_link L ctx path la rng) = fst (rewrite_link L ctx r la rng))"
      by (auto simp: process_link_def Let_def split: option.splits prod.splits) (metis fst_conv)
    then show thesis using that by blast
  qed
  then show ?thesis
  proof cases
    case 1
    show ?thesis by (rule form [OF 1 [unfolded left]]) simp_all
  next
    case 2
    show ?thesis by (rule form [OF 2]) simp_all
  next
    case 3
    show ?thesis by (rule form [OF 3 [unfolded rewrite_link_eq fst_conv]]) simp_all
  qed
qed

lemma process_link_events:
  "\<exists>a b c es. map fst (fst (process_link L ctx path la rng))
       = Start (if la_is_image la then ImageTag a b c (la_id la) else LinkTag a b c (la_id la)) # es @ [link_end la]
     \<and> (es = la_title_events la \<or> (\<exists>w. es = [Text w]))"
proof -
  obtain ty u t es r where "fst (process_link L ctx path la rng)
      = emit_link (la\<lparr>la_type := ty, la_url := u, la_title_events := es\<rparr>) t r"
    "es = la_title_events la \<or> (\<exists>w. es = [Text w])"
    using process_link_shape by blast
  then show ?thesis by (intro exI [of _ ty] exI [of _ u] exI [of _ t] exI [of _ es])
    (auto simp: emit_link_def start_tag_def link_end_def comp_def)
qed

text \<open>
  An image in a link leaves it: the pass writes the image where its own end is, before the link, which comes
  out after it without the image, with no text or only that of the title of its target.
\<close>

theorem linked_image_leaves_link:
  "\<exists>image link. fst (snd (check_for_link_and_push L
        [(Start (LinkTag ty u t i :: 'o md_tag), r), (Start (ImageTag ty' u' t' i'), r'), (Text alt, r''),
         (End ImageEnd, re), (End LinkEnd, re')] ctx path [] None ds)) = image @ link
     \<and> (\<exists>a b c w. map fst image = [Start (ImageTag a b c i'), Text w, End ImageEnd])
     \<and> (\<exists>a b c es. map fst link = Start (LinkTag a b c i) # es @ [End LinkEnd] \<and> (es = [] \<or> (\<exists>w. es = [Text w])))"
proof -
  let ?link = "\<lparr>la_type = ty, la_url = u, la_id = i, la_range = r, la_title_events = [] :: 'o md_event list, la_is_image = False, la_title = t\<rparr>"
  let ?image = "\<lparr>la_type = ty', la_url = u', la_id = i', la_range = r', la_title_events = [] :: 'o md_event list, la_is_image = True, la_title = t'\<rparr>"
  let ?image' = "fst (link_push (Text alt) r'' ?image)"
  have out: "fst (snd (check_for_link_and_push L
        [(Start (LinkTag ty u t i), r), (Start (ImageTag ty' u' t' i'), r'), (Text alt, r''),
         (End ImageEnd, re), (End LinkEnd, re')] ctx path [] None ds))
      = fst (process_link L ctx path ?image' re) @ fst (process_link L ctx path ?link re')"
    by (simp add: check_for_link_and_push_def link_loop_fold link_step_def link_new_def link_push_def is_link_end_def
        split: prod.splits)
  have image: "la_title_events ?image' = [Text alt]" "la_is_image ?image'" "la_id ?image' = i'"
    by (simp_all add: link_push_def is_link_end_def)
  define im where "im = ?image'"
  obtain a b c es where "map fst (fst (process_link L ctx path im re))
       = Start (if la_is_image im then ImageTag a b c (la_id im) else LinkTag a b c (la_id im)) # es @ [link_end im]"
      "es = la_title_events im \<or> (\<exists>w. es = [Text w])"
    using process_link_events [of L ctx path im re] by (elim exE conjE) (rule that)
  then have "\<exists>a b c w. map fst (fst (process_link L ctx path im re)) = [Start (ImageTag a b c i'), Text w, End ImageEnd]"
    using image [folded im_def] by (auto simp: link_end_def)
  then have first: "\<exists>a b c w. map fst (fst (process_link L ctx path ?image' re)) = [Start (ImageTag a b c i'), Text w, End ImageEnd]"
    unfolding im_def .
  have second: "\<exists>a b c es. map fst (fst (process_link L ctx path ?link re')) = Start (LinkTag a b c i) # es @ [End LinkEnd]
      \<and> (es = [] \<or> (\<exists>w. es = [Text w]))"
    using process_link_events [of L ctx path ?link re'] by (simp add: link_end_def)
  show ?thesis
    by (rule exI [of _ "fst (process_link L ctx path ?image' re)"], rule exI [of _ "fst (process_link L ctx path ?link re')"])
      (intro conjI out first second)
qed

text \<open>
  Where the two paths of the document do not agree, every link with a text becomes a reference link: an inline
  link then names a definition by an identifier that is empty.
\<close>

theorem unaligned_link_retyped:
  assumes "link_key L la \<noteq> None" "root_abs_path ctx path = None" "la_id la = []" "title_string la \<noteq> []"
  shows "fst (hd (fst (process_link L ctx path la rng)))
    = start_tag (la\<lparr>la_type := ReferenceLink\<rparr>) (la_title la)"
  using assms by (auto simp: process_link_def leave_link_def emit_link_def Let_def start_tag_def)

section \<open>Instances\<close>

text \<open>A registry of identities that gives every node the namespace 42, and a reader of one configuration.\<close>

definition same_namespace :: text_ext where
  "same_namespace =
     id_ext.extend (id_ext_example\<lparr>uuid_new_v5 := (\<lambda>ns name. 42), hex_decode := (\<lambda>s. Some (map char_of [0, 0, 0, 0, 0, 42 :: nat]))\<rparr>)
       (text_ext.fields (\<lambda>s. s) (\<lambda>s. s) (\<lambda>ch. False))"

definition one_config :: "string \<Rightarrow> buildonomy_error + json" where
  "one_config = (\<lambda>s. Inr (JObject [(''auto_title'', JBool True)]))"

definition sample_setting :: "(unit, unit) link_setting" where
  "sample_setting =
     \<lparr>ln_ext = same_namespace, ln_ops = plain_builder_ops, ln_codecs = [],
      ln_docs = (toml_only [] (TInteger 0))\<lparr>json_parse := one_config\<rparr>\<rparr>"

definition sample_context :: "unit belief_context" where
  "sample_context =
     \<lparr>bc_node = unknown_node (Bid 3), bc_root_path = ''a.md'', bc_root_net = Bid 2, bc_home_net = Bid 2,
      bc_bb = section_base\<lparr>bb_relations := from_edges [(Bid 1, Bid 3, keyed_section 0)]\<rparr>\<rparr>"

definition sample_link :: "unit link_accumulator" where
  "sample_link =
     \<lparr>la_type = InlineLink, la_url = ''b'', la_id = [], la_range = None, la_title_events = [Text ''x''],
      la_is_image = False, la_title = ''bref://00000000002a''\<rparr>"

lemma display_42: "bref_display (Bref 42) = ''00000000002a''"
  by (simp add: bref_display_def bref_bytes_list hex_digit_def)

lemma reads_one_config: "reads_config one_config"
  by (simp add: reads_config_def one_config_def bm_get_Cons)

lemma reads_42: "bref_try_from same_namespace ''00000000002a'' = Inr (Bref 42)"
  by (simp add: bref_try_from_def same_namespace_def id_ext.defs text_ext.defs bref_from_bytes_def)

theorem title_attribute_roundtrip_witness:
  "parse_title_attribute same_namespace one_config
      (build_title_attribute ''bref://00000000002a'' True (Some ''see this''))
    = \<lparr>tp_bref = Some (Bref 42), tp_auto_title = True, tp_user_words = Some ''see this''\<rparr>"
proof -
  have "list_all user_word [''see'', ''this'']" by code_simp
  from title_attribute_roundtrip [OF _ reads_one_config this, of same_namespace "Bref 42" True]
  show ?thesis by (simp add: display_42 reads_42 words_text_def)
qed

theorem links_one_by_one_witness:
  "\<forall>L :: ('p, 'f) link_setting. \<forall>ctx. check_for_link_and_push L
      [(Text ''a'', None), (Start (LinkTag ReferenceLink ''u'' [] ''i'' :: unit md_tag), None), (Text ''x'', None), (End LinkEnd, None)]
      ctx [] [] None []
    = ([], [(Text ''a'', None), (Start (LinkTag ReferenceLink ''u'' [] ''i''), None), (Text ''x'', None), (End LinkEnd, None)],
       False, [])"
proof (intro allI)
  fix L :: "('p, 'f) link_setting" and ctx
  let ?start = "Start (LinkTag ReferenceLink ''u'' [] ''i'' :: unit md_tag)"
  let ?segs = "[Apart (Text ''a'') None, Linked ?start None [(Text ''x'', None)] None]"
  have ok: "list_all segment_ok ?segs" by (simp add: link_new_def no_link_def)
  have "title_step (Text ''x'' :: unit md_event) [] = ''x''" by code_simp
  moreover have "split_whitespace [] = []" by code_simp
  ultimately have "segment_result L ctx [] (Linked ?start None [(Text ''x'', None)] None)
      = ([(?start, None), (Text ''x'', None), (End LinkEnd, None)], False, [])"
    by (simp add: link_new_def gather_def link_push_def is_link_end_def process_link_def link_key_def
        parse_title_attribute_def title_scan_start_def link_to_relation_def leave_link_def emit_link_def start_tag_def
        title_string_def joined_range_def Let_def)
  with links_one_by_one [OF ok, of L ctx "[]" "[]"]
  show "check_for_link_and_push L [(Text ''a'', None), (?start, None), (Text ''x'', None), (End LinkEnd, None)] ctx [] [] None []
    = ([], [(Text ''a'', None), (?start, None), (Text ''x'', None), (End LinkEnd, None)], False, [])"
    by (simp add: link_new_def link_end_def)
qed

theorem unaligned_link_retyped_witness:
  "fst (hd (fst (process_link sample_setting sample_context ''/r/b.md'' sample_link None)))
     = Start (LinkTag ReferenceLink ''b'' ''bref://00000000002a'' [])"
proof -
  have root: "root_abs_path sample_context ''/r/b.md'' = None"
    unfolding sample_context_def by code_simp
  have key: "link_key sample_setting sample_link \<noteq> None"
    by (simp add: link_key_def sample_link_def link_to_relation_def Let_def split: option.splits)
  have "title_string sample_link \<noteq> []" by code_simp
  from unaligned_link_retyped [OF key root _ this] show ?thesis
    by (simp add: sample_link_def start_tag_def)
qed

lemma sample_bref: "bref_of same_namespace b = Bref 42"
  by (simp add: bref_of_def generate_namespace_def parent_bref_def same_namespace_def id_ext.defs text_ext.defs)

lemma sample_parsed:
  "parse_title_attribute same_namespace one_config ''bref://00000000002a''
     = \<lparr>tp_bref = Some (Bref 42), tp_auto_title = False, tp_user_words = None\<rparr>"
  using title_attribute_read [OF _ reads_one_config, of same_namespace "Bref 42" "[]" False]
  by (simp add: display_42 reads_42 words_text_def build_title_attribute_def)

definition sample_relation :: extended_relation where
  "sample_relation =
     \<lparr>er_other = unknown_node (Bid 1), er_home_net = Bid 2, er_root_path = [], er_weight = keyed_section 0,
      er_link_title = None\<rparr>"

lemma sample_sources: "sources same_namespace plain_builder_ops sample_context = [sample_relation]"
proof -
  have "find_map (\<lambda>(_, w). weight_get to_text w WEIGHT_LINK_TITLE) (weights (keyed_section 0)) = None"
    by code_simp
  moreover have "parent_bref (Bid 1) \<noteq> Bref 42" by (simp add: parent_bref_def)
  ultimately show ?thesis
    by (simp add: sources_def sample_context_def section_base_def section_graph_def from_edges_def map_filter_simps
        extended_relation_new_def unknown_node_def bm_get_Cons plain_builder_ops_def path_seen_from_def path_anywhere_def
        fallback_net_def sample_bref content_namespaces_def sample_relation_def Let_def)
qed

lemma sample_named: "named_once sample_setting sample_context sample_relation"
proof -
  have "Bid 1 \<noteq> nil_bid" by (simp add: nil_bid_def)
  then have "relation_has_key sample_setting sample_context (KBref (Bref 42)) sample_relation"
    by (simp add: relation_has_key_def node_keys_def sample_relation_def unknown_node_def sample_bref sample_setting_def Let_def)
  then show ?thesis
    using \<open>Bid 1 \<noteq> nil_bid\<close>
    by (simp add: named_once_def sample_setting_def sample_sources sample_bref) (simp add: sample_relation_def unknown_node_def)
qed

theorem canonical_link_stable_witness:
  "\<exists>la' out. reread (fst (process_link sample_setting sample_context ''/r/a.md'' sample_link None)) = Some la'
     \<and> process_link sample_setting sample_context ''/r/a.md'' la' None = (out, False, [])"
proof -
  let ?L = sample_setting and ?ctx = sample_context and ?la = sample_link and ?r = sample_relation
  have sets: "ln_ext ?L = same_namespace" "json_parse (ln_docs ?L) = one_config"
    by (simp_all add: sample_setting_def)
  have key: "link_key ?L ?la = Some (KBref (Bref 42))"
    by (simp add: link_key_def sets sample_link_def sample_parsed)
  have "\<exists>root. root_abs_path ?ctx ''/r/a.md'' = Some root"
    unfolding sample_context_def by (simp add: root_abs_path_def, code_simp)
  then have to: "resolves_to ?L ?ctx ''/r/a.md'' (KBref (Bref 42)) ?r"
    using sample_named find_named_once
    by (auto simp: resolves_to_def bref_key_fixed find_target_def named_once_def sets sample_bref)
  have shown: "link_text ?L ?r ?la = ''x''" "list_all no_link (la_title_events ?la)"
    "tp_user_words (parse_title_attribute (ln_ext ?L) (json_parse (ln_docs ?L)) (la_title ?la)) = words_text []"
  proof -
    have "title_string sample_link = ''x''" by code_simp
    then show "link_text ?L ?r ?la = ''x''"
      by (simp add: link_text_def auto_title_def sets sample_relation_def unknown_node_def sample_link_def sample_parsed)
  qed (simp_all add: sample_link_def no_link_def link_new_def sets sample_parsed words_text_def)
  have flat: "flat_lines ''x'' = ''x''" by code_simp
  obtain ty u t es r where out: "fst (process_link ?L ?ctx ''/r/a.md'' ?la None)
      = emit_link (?la\<lparr>la_type := ty, la_url := u, la_title_events := es\<rparr>) t r"
      "es = la_title_events ?la \<or> (\<exists>w. es = [Text w])"
    using process_link_shape by blast
  have "list_all no_link es" using out(2) shown(2) by (auto simp: no_link_def link_new_def)
  then obtain la' where la': "reread (fst (process_link ?L ?ctx ''/r/a.md'' ?la None)) = Some la'"
    using reread_emit [of "?la\<lparr>la_type := ty, la_url := u, la_title_events := es\<rparr>"] unfolding out(1) by auto
  have "\<exists>out. process_link ?L ?ctx ''/r/a.md'' la' None = (out, False, [])
      \<and> map fst out = map fst (fst (process_link ?L ?ctx ''/r/a.md'' ?la None))"
    by (rule canonical_link_stable [OF key to sample_named, where ws = "[]"])
      (simp_all add: sets sample_bref display_42 reads_42 reads_one_config shown [unfolded sets] flat la')
  with la' show ?thesis by blast
qed

end
