(* ===== verification/MdExample.thy ===== *)
theory MdExample
  imports MdCodec LinkProps
begin

text \<open>Instances of the parameters of the Markdown codec and a document of two sections with the same title.\<close>

definition sample_md :: "(unit md_event \<times> byte_range) list \<Rightarrow> (unit, unit, unit) md_setting" where
  "sample_md events =
     \<lparr>md_link = sample_setting, md_schemas = [], md_node_text = (\<lambda>n. Inr []), md_parser = (\<lambda>s. events),
      md_render = (\<lambda>es content. Some (content, \<lambda>shortcuts. Some content)), md_html = (\<lambda>es. []), md_titlecase = id,
      md_read = (\<lambda>path. Inl Io)\<rparr>"

definition heading_events :: "string \<Rightarrow> nat \<Rightarrow> (unit md_event \<times> byte_range) list" where
  "heading_events title i =
     [(Start (HeadingTag H2 None [] []), (i, i + 5)), (Text title, (i + 3, i + 4)), (End (HeadingEnd H2), (i, i + 5))]"

definition two_sections :: "(unit md_event \<times> byte_range) list" where
  "two_sections = heading_events ''a'' 0 @ heading_events ''a'' 5"

definition two_sections_text :: string where
  "two_sections_text = ''## a'' @ [char_of (10 :: nat)] @ ''## a'' @ [char_of (10 :: nat)]"

definition parsed_sections :: "(unit md_codec \<times> parse_diagnostic list) option" where
  "parsed_sections = (case md_parse_document (sample_md two_sections) two_sections_text ir_default md_new [] of
     Some (Inr c, ds) \<Rightarrow> Some (c, ds) | _ \<Rightarrow> None)"

lemma sections_parse:
  obtains c ds where "md_parse_document (sample_md two_sections) two_sections_text ir_default md_new [] = Some (Inr c, ds)"
    "parsed_sections = Some (c, ds)"
proof -
  have "parsed_sections \<noteq> None" by code_simp
  with that show ?thesis by (auto simp: parsed_sections_def split: option.splits prod.splits sum.splits)
qed

lemma no_slug: "to_anchor same_namespace [] = []"
  by code_simp

lemma sample_ext: "md_ext (sample_md es) = same_namespace"
  by (simp add: md_ext_def sample_md_def sample_setting_def)

definition one_section :: "unit md_codec" where
  "one_section =
     md_new\<lparr>mc_events := [(ir_default\<lparr>ir_heading := 4\<rparr>, map (\<lambda>(event, rng). (event, Some rng)) (heading_events ''a'' 0))]\<rparr>"

definition titled_context :: "unit belief_context" where
  "titled_context = sample_context\<lparr>bc_node := (unknown_node (Bid 3))\<lparr>nd_title := ''b''\<rparr>\<rparr>"

end
