(* ===== verification/MdWriting.thy ===== *)
theory MdWriting
  imports MdExample
begin

text \<open>
  What the Markdown codec writes back: the metadata block of a document, the anchor of a section and the table of
  sections.
\<close>

section \<open>The metadata block\<close>

definition has_event :: "('o md_event \<Rightarrow> bool) \<Rightarrow> 'o event_queue \<Rightarrow> bool" where
  "has_event p events = list_ex (\<lambda>(event, _). p event) events"

lemma split_after_join: "split_after p es = (a, b) \<Longrightarrow> a @ b = es"
  by (induction es arbitrary: a b) (auto split: if_splits prod.splits)

lemma split_after_starts: "starts q es \<Longrightarrow> split_after p es = (a, b) \<Longrightarrow> starts q a"
  by (cases es) (auto simp: starts_def split: if_splits prod.splits)

lemma split_after_again:
  "split_after p es = (a, b) \<Longrightarrow> has_event p es \<Longrightarrow> split_after p (a @ c) = (a, c)"
  by (induction es arbitrary: a b) (auto simp: has_event_def split: if_splits prod.splits)

lemma starts_append: "starts p a \<Longrightarrow> starts p (a @ b)"
  by (cases a) (auto simp: starts_def)

lemma block_split:
  "split_after is_metadata_end (metadata_block t rng @ es) = (metadata_block t rng, es)"
  "starts is_metadata_start (metadata_block t rng @ es)" "\<not> starts is_heading_start (metadata_block t rng @ es)"
  "metadata_text (metadata_block t rng) = t"
  by (simp_all add: metadata_block_def is_metadata_end_def is_metadata_start_def is_heading_start_def starts_def
      metadata_text_def event_text_def map_filter_simps)

lemma frontmatter_parts:
  assumes "(if starts is_heading_start events then split_after is_heading_end events else ([], events)) = (title, rest)"
    "(if starts is_metadata_start rest then split_after is_metadata_end rest else ([], rest)) = (block, body)"
  shows "update_or_insert_frontmatter t events =
    (if starts is_metadata_start rest \<and> t = metadata_text block then (title @ block @ body, False)
     else (title @ metadata_block t (metadata_range (title_range title) block) @ body, True))"
  by (simp only: update_or_insert_frontmatter_def Let_def assms prod.case)

text \<open>
  The events of a document: its title, its metadata block and what is left; what the block says, and what stands beside
  it.
\<close>

definition split_frontmatter :: "'o event_queue \<Rightarrow> 'o event_queue \<times> 'o event_queue \<times> 'o event_queue" where
  "split_frontmatter events =
     (let (title, rest) = (if starts is_heading_start events then split_after is_heading_end events else ([], events))
      in (title, if starts is_metadata_start rest then split_after is_metadata_end rest else ([], rest)))"

definition written_metadata :: "'o event_queue \<Rightarrow> string option" where
  "written_metadata events =
     (case split_frontmatter events of (_, block, _) \<Rightarrow> if block = [] then None else Some (metadata_text block))"

definition beside_metadata :: "'o event_queue \<Rightarrow> 'o event_queue" where
  "beside_metadata events = (case split_frontmatter events of (title, _, body) \<Rightarrow> title @ body)"

lemma split_frontmatter_again:
  assumes "split_frontmatter events = (title, block, body)" "starts is_heading_start events \<Longrightarrow> has_event is_heading_end events"
    "starts is_metadata_start block'" "split_after is_metadata_end (block' @ body) = (block', body)"
  shows "split_frontmatter (title @ block' @ body) = (title, block', body)"
proof -
  have m: "starts is_metadata_start (block' @ body)" "\<not> starts is_heading_start (block' @ body)"
    using assms(3) by (cases block'; auto simp: starts_def is_metadata_start_def is_heading_start_def split: md_event.splits md_tag.splits)+
  show ?thesis
  proof (cases "starts is_heading_start events")
    case True
    then obtain rest where t: "split_after is_heading_end events = (title, rest)"
      using assms(1) by (auto simp: split_frontmatter_def split: prod.splits)
    have "starts is_heading_start (title @ block' @ body)" using split_after_starts [OF True t] by (rule starts_append)
    with split_after_again [OF t assms(2) [OF True], of "block' @ body"] m assms(4) show ?thesis
      by (simp add: split_frontmatter_def)
  next
    case False
    with assms(1) have "title = []" by (simp add: split_frontmatter_def)
    with m assms(4) show ?thesis by (simp add: split_frontmatter_def)
  qed
qed

text \<open>An update writes the text into the block and changes nothing beside it.\<close>

lemma update_writes:
  assumes "starts is_heading_start events \<Longrightarrow> has_event is_heading_end events"
  shows "written_metadata (fst (update_or_insert_frontmatter t events)) = Some t
    \<and> beside_metadata (fst (update_or_insert_frontmatter t events)) = beside_metadata events"
proof -
  obtain title block body where parts: "split_frontmatter events = (title, block, body)" by (cases "split_frontmatter events")
  obtain rest where title: "(if starts is_heading_start events then split_after is_heading_end events else ([], events)) = (title, rest)"
    and block: "(if starts is_metadata_start rest then split_after is_metadata_end rest else ([], rest)) = (block, body)"
    using parts by (auto simp: split_frontmatter_def split: prod.splits)
  note written = frontmatter_parts [OF title block, of t]
  show ?thesis
  proof (cases "starts is_metadata_start rest \<and> t = metadata_text block")
    case True
    with block have "block @ body = rest" "block \<noteq> []"
      using split_after_starts [of is_metadata_start rest is_metadata_end block body]
      by (auto simp: starts_def dest: split_after_join)
    moreover have "title @ rest = events" using title by (auto dest: split_after_join split: if_splits)
    ultimately have "fst (update_or_insert_frontmatter t events) = events" using written True by simp
    with parts True \<open>block \<noteq> []\<close> show ?thesis by (simp add: written_metadata_def)
  next
    case False
    let ?new = "metadata_block t (metadata_range (title_range title) block)"
    have "split_frontmatter (title @ ?new @ body) = (title, ?new, body)"
      by (rule split_frontmatter_again [OF parts assms])
        (simp_all add: block_split block_split(2) [of _ _ "[]", simplified])
    moreover have "?new \<noteq> []" by (simp add: metadata_block_def)
    moreover have "fst (update_or_insert_frontmatter t events) = title @ ?new @ body" using written False by auto
    ultimately show ?thesis
      by (simp add: written_metadata_def beside_metadata_def parts block_split)
  qed
qed

text \<open>
  C34. Once the metadata is written it stays: the same text changes nothing any more. A heading the document
  starts with must end.
\<close>

theorem frontmatter_written_once:
  assumes "starts is_heading_start events \<Longrightarrow> has_event is_heading_end events"
  shows "update_or_insert_frontmatter t (fst (update_or_insert_frontmatter t events))
    = (fst (update_or_insert_frontmatter t events), False)"
proof -
  obtain title rest where title: "(if starts is_heading_start events then split_after is_heading_end events else ([], events)) = (title, rest)"
    by (cases "if starts is_heading_start events then split_after is_heading_end events else ([], events)")
  obtain block body where block: "(if starts is_metadata_start rest then split_after is_metadata_end rest else ([], rest)) = (block, body)"
    by (cases "if starts is_metadata_start rest then split_after is_metadata_end rest else ([], rest)")
  have joined: "title @ rest = events" using title by (auto dest: split_after_join split: if_splits)
  have joined': "block @ body = rest" using block by (auto dest: split_after_join split: if_splits)
  have again: "(if starts is_heading_start (title @ c) then split_after is_heading_end (title @ c) else ([], title @ c)) = (title, c)"
    if "starts is_heading_start events \<or> \<not> starts is_heading_start c" for c
  proof (cases "starts is_heading_start events")
    case True
    with title have "split_after is_heading_end events = (title, rest)" by simp
    with True assms split_after_starts [OF True this] show ?thesis
      by (simp add: starts_append split_after_again)
  next
    case False
    with title that show ?thesis by auto
  qed
  note written = frontmatter_parts [OF title block, of t]
  show ?thesis
  proof (cases "starts is_metadata_start rest \<and> t = metadata_text block")
    case True
    have "title @ block @ body = events" using joined joined' by simp
    with True written show ?thesis by simp
  next
    case False
    let ?new = "metadata_block t (metadata_range (title_range title) block)"
    have "fst (update_or_insert_frontmatter t events) = title @ ?new @ body"
      using written False by auto
    moreover have "(if starts is_metadata_start (?new @ body) then split_after is_metadata_end (?new @ body) else ([], ?new @ body))
        = (?new, body)"
      by (simp add: block_split)
    note frontmatter_parts [OF again this]
    ultimately show ?thesis by (simp add: block_split)
  qed
qed

theorem frontmatter_written_once_witness:
  "update_or_insert_frontmatter ''a''
     (fst (update_or_insert_frontmatter ''a''
       [(Start (HeadingTag H1 None [] []), None), (End (HeadingEnd H1), None), (OtherEvent (), None)]))
   = ([(Start (HeadingTag H1 None [] []), None), (End (HeadingEnd H1), None),
       (Start (MetadataTag YamlStyle), None), (Text ''a'', None), (End (MetadataEnd YamlStyle), None), (OtherEvent (), None)], False)"
proof -
  let ?es = "[(Start (HeadingTag H1 None [] []), None), (End (HeadingEnd H1), None), (OtherEvent (), None)]"
  have "fst (update_or_insert_frontmatter ''a'' ?es)
    = [(Start (HeadingTag H1 None [] []), None), (End (HeadingEnd H1), None),
       (Start (MetadataTag YamlStyle), None), (Text ''a'', None), (End (MetadataEnd YamlStyle), None), (OtherEvent (), None)]"
    by (subst frontmatter_parts [where title = "[(Start (HeadingTag H1 None [] []), None), (End (HeadingEnd H1), None)]"
          and rest = "[(OtherEvent (), None)]" and block = "[]" and body = "[(OtherEvent (), None)]"])
      (simp_all add: starts_def is_heading_start_def is_heading_end_def is_metadata_start_def metadata_block_def
        metadata_range_def title_range_def event_text_def)
  moreover have "has_event is_heading_end ?es" by (simp add: has_event_def is_heading_end_def)
  ultimately show ?thesis using frontmatter_written_once [where events = ?es and t = "''a''"] by simp
qed

section \<open>The table of sections\<close>

definition listed :: "('p, 'f, 'o) md_setting \<Rightarrow> ir_node \<Rightarrow> string list" where
  "listed M p = (if ir_heading p \<le> 2 then [] else case section_ident M p of Inl _ \<Rightarrow> [] | Inr i \<Rightarrow> [''id://'' @ i])"

definition table_keys :: "item option \<Rightarrow> string set" where
  "table_keys i = (case i of Some (Tab t) \<Rightarrow> fst ` set t | _ \<Rightarrow> {})"

lemma list_section_keys:
  "fold (list_section M) ps (t, ds) = (t', ds') \<Longrightarrow> fst ` set t' = fst ` set t \<union> set (concat (map (listed M) ps))"
proof (induction ps arbitrary: t ds)
  case (Cons p ps)
  obtain u es where u: "list_section M p (t, ds) = (u, es)" by (cases "list_section M p (t, ds)")
  have "fst ` set u = fst ` set t \<union> set (listed M p)"
  proof (cases "section_ident M p")
    case (Inr i)
    with u have "u = (if ir_heading p \<le> 2 then t else bm_insert (''id://'' @ i) (Tab (section_fields i p)) t)"
      by (simp add: list_section_def split: if_splits)
    with Inr show ?thesis by (simp add: listed_def keys_bm_insert)
  qed (use u in \<open>simp add: list_section_def listed_def split: if_splits\<close>)
  with Cons u show ?case by auto
qed simp

text \<open>The first node after finalization, and what is listed there.\<close>

lemma finalize_run:
  assumes "md_finalize M c ds = (Inr (c', updates), ds')" "mc_events c = doc # rest"
  obtains t where "fst ` set t = set (concat (map (listed M) (map fst rest)))"
    "fst (fold (list_section M) (map fst rest) ([], ds)) = t"
    "if sections_need_update t (bm_get (ir_document (fst doc)) ''sections'')
     then c' = c\<lparr>mc_events := update_sections M t doc # rest\<rparr> else c' = c \<and> updates = []"
proof -
  obtain t es where t: "fold (list_section M) (map fst rest) ([], ds) = (t, es)"
    by (cases "fold (list_section M) (map fst rest) ([], ds)")
  show ?thesis
    by (rule that [of t]) (use assms list_section_keys [OF t] t in \<open>auto simp: md_finalize_def Let_def\<close>)
qed

lemma updated_sections:
  "bm_get (ir_document (fst (update_sections M t doc))) ''sections'' = (if t = [] then None else Some (Tab t))"
  by (cases doc) (simp add: update_sections_def Let_def)

lemma no_update_needed:
  "\<not> sections_need_update t existing \<Longrightarrow> table_keys existing = fst ` set t \<and> (existing = None \<longleftrightarrow> t = [])"
  by (auto simp: sections_need_update_def table_keys_def split: if_splits option.splits item.splits)

lemma needed_update:
  "sections_need_update t existing \<Longrightarrow> \<not> (table_keys existing = fst ` set t \<and> (existing = None \<longleftrightarrow> t = []))"
  by (auto simp: sections_need_update_def table_keys_def split: if_splits option.splits item.splits)

definition table_in_step :: "('p, 'f, 'o) md_setting \<Rightarrow> (ir_node \<times> 'o event_queue) list \<Rightarrow> ir_node \<Rightarrow> bool" where
  "table_in_step M rest p \<longleftrightarrow>
     table_keys (bm_get (ir_document p) ''sections'') = set (concat (map (listed M \<circ> fst) rest))
     \<and> (bm_get (ir_document p) ''sections'' = None) = (concat (map (listed M \<circ> fst) rest) = [])"

text \<open>
  C33. A document that has been finalized lists its sections by the identifiers they have, each section that has one and
  no other, and has no table where there is nothing to list. Where the table was in step already the document and its
  events stay as they are; else the metadata block in its events is that of the new table, and the events beside the
  block are the same. A heading the document starts with must end.
\<close>

theorem sections_table_in_step:
  assumes "md_finalize M c ds = (Inr (c', updates), ds')" "mc_events c = doc # rest"
    "starts is_heading_start (snd doc) \<Longrightarrow> has_event is_heading_end (snd doc)"
  shows "\<exists>doc'. mc_events c' = doc' # rest \<and> table_in_step M rest (fst doc')
    \<and> (if table_in_step M rest (fst doc) then doc' = doc \<and> updates = []
       else written_metadata (snd doc') = Some (as_frontmatter (md_docs M) (fst doc'))
         \<and> beside_metadata (snd doc') = beside_metadata (snd doc))"
  using assms(1,2)
proof (rule finalize_run)
  fix t assume t: "fst ` set t = set (concat (map (listed M) (map fst rest)))"
    and run: "if sections_need_update t (bm_get (ir_document (fst doc)) ''sections'')
     then c' = c\<lparr>mc_events := update_sections M t doc # rest\<rparr> else c' = c \<and> updates = []"
  have none: "(t = []) = (concat (map (listed M \<circ> fst) rest) = [])"
    using t by (metis image_is_empty list.map_comp set_empty)
  have keys: "fst ` set t = set (concat (map (listed M \<circ> fst) rest))" using t by simp
  show ?thesis
  proof (cases "sections_need_update t (bm_get (ir_document (fst doc)) ''sections'')")
    case True
    with run have e: "mc_events c' = update_sections M t doc # rest" by simp
    have "\<not> table_in_step M rest (fst doc)"
      using needed_update [OF True] keys none by (simp add: table_in_step_def)
    moreover have "table_in_step M rest (fst (update_sections M t doc))"
      using keys none by (auto simp: table_in_step_def updated_sections table_keys_def)
    moreover have "written_metadata (snd (update_sections M t doc)) = Some (as_frontmatter (md_docs M) (fst (update_sections M t doc)))
        \<and> beside_metadata (snd (update_sections M t doc)) = beside_metadata (snd doc)"
      using update_writes [OF assms(3)] by (cases doc) (simp add: update_sections_def Let_def)
    ultimately show ?thesis using e by simp
  next
    case False
    with no_update_needed [OF False] keys none have "table_in_step M rest (fst doc)" by (simp add: table_in_step_def)
    with False run assms(2) show ?thesis by simp
  qed
qed

lemma sections_listed:
  "\<exists>c c' updates ds'. md_finalize (sample_md []) c [] = (Inr (c', updates), ds')
     \<and> (\<exists>doc rest. mc_events c = doc # rest \<and> concat (map (listed (sample_md []) \<circ> fst) rest) = [''id://a'']
         \<and> snd doc = [] \<and> bm_get (ir_document (fst doc)) ''sections'' = None)"
proof -
  obtain c ds where c: "parsed_sections = Some (c, ds)" by (rule sections_parse)
  have "map_option (\<lambda>(c, _). mc_events c \<noteq> [] \<and> concat (map (listed (sample_md []) \<circ> fst) (tl (mc_events c))) = [''id://a'']
      \<and> snd (hd (mc_events c)) = [] \<and> Option.is_none (bm_get (ir_document (fst (hd (mc_events c)))) ''sections'')
      \<and> \<not> isl (fst (md_finalize (sample_md []) c []))) parsed_sections = Some True"
    by code_simp
  from this [unfolded c] have "mc_events c = hd (mc_events c) # tl (mc_events c)"
    "concat (map (listed (sample_md []) \<circ> fst) (tl (mc_events c))) = [''id://a'']"
    "snd (hd (mc_events c)) = []" "bm_get (ir_document (fst (hd (mc_events c)))) ''sections'' = None"
    "\<not> isl (fst (md_finalize (sample_md []) c []))"
    by (auto simp: Option.is_none_def)
  then show ?thesis
    by (cases "md_finalize (sample_md []) c []"; cases "fst (md_finalize (sample_md []) c [])") fastforce+
qed

theorem sections_table_in_step_witness:
  "\<exists>c c' updates ds' doc' rest. md_finalize (sample_md []) c [] = (Inr (c', updates), ds')
     \<and> mc_events c' = doc' # rest \<and> table_keys (bm_get (ir_document (fst doc')) ''sections'') = {''id://a''}
     \<and> written_metadata (snd doc') = Some (as_frontmatter (md_docs (sample_md [])) (fst doc'))"
proof -
  obtain c c' updates ds' doc rest where c: "md_finalize (sample_md []) c [] = (Inr (c', updates), ds')"
    "mc_events c = doc # rest" "concat (map (listed (sample_md []) \<circ> fst) rest) = [''id://a'']"
    "snd doc = []" "bm_get (ir_document (fst doc)) ''sections'' = None"
    using sections_listed by blast
  have ends: "starts is_heading_start (snd doc) \<Longrightarrow> has_event is_heading_end (snd doc)" by (simp add: c(4) starts_def)
  have "\<not> table_in_step (sample_md []) rest (fst doc)" by (simp add: table_in_step_def c(3,5))
  with sections_table_in_step [OF c(1,2) ends] obtain doc' where doc': "mc_events c' = doc' # rest"
    "table_in_step (sample_md []) rest (fst doc')"
    "written_metadata (snd doc') = Some (as_frontmatter (md_docs (sample_md [])) (fst doc'))" by auto
  from doc'(2) have "table_keys (bm_get (ir_document (fst doc')) ''sections'') = {''id://a''}"
    by (simp add: table_in_step_def c(3))
  with c(1) doc'(1,3) show ?thesis by blast
qed

text \<open>Finalizing a second time changes nothing, and updates no node.\<close>

theorem finalize_settles:
  assumes "md_finalize M c ds = (Inr (c', updates), ds')"
  shows "fst (md_finalize M c' ds) = Inr (c', [])"
proof (cases "mc_events c")
  case Nil
  with assms have "c' = c" by (simp add: md_finalize_def split: prod.splits)
  with Nil show ?thesis by (simp add: md_finalize_def split: prod.splits)
next
  case (Cons doc rest)
  show ?thesis
    using assms Cons
  proof (rule finalize_run)
    fix t assume t: "fst (fold (list_section M) (map fst rest) ([], ds)) = t"
      and run: "if sections_need_update t (bm_get (ir_document (fst doc)) ''sections'')
       then c' = c\<lparr>mc_events := update_sections M t doc # rest\<rparr> else c' = c \<and> updates = []"
    obtain es where es: "fold (list_section M) (map fst rest) ([], ds) = (t, es)"
      using t by (cases "fold (list_section M) (map fst rest) ([], ds)") simp
    obtain doc' where doc': "mc_events c' = doc' # rest" "\<not> sections_need_update t (bm_get (ir_document (fst doc')) ''sections'')"
    proof (cases "sections_need_update t (bm_get (ir_document (fst doc)) ''sections'')")
      case True
      with run that [of "update_sections M t doc"] show thesis
        by (simp add: updated_sections sections_need_update_def)
    next
      case False
      with run Cons that [of doc] show thesis by simp
    qed
    then show ?thesis by (simp add: md_finalize_def es)
  qed
qed

theorem finalize_settles_witness:
  "\<exists>c c' updates ds'. md_finalize (sample_md []) c [] = (Inr (c', updates), ds')
     \<and> fst (md_finalize (sample_md []) c' []) = Inr (c', [])"
proof -
  obtain c c' updates ds' where c: "md_finalize (sample_md []) c [] = (Inr (c', updates), ds')"
    using sections_listed by blast
  from finalize_settles [OF c] c show ?thesis by blast
qed

section \<open>The anchor of a section\<close>

lemma injected_document:
  "injected_node M ctx_node changed merged maybe_text p = (q, updated) \<Longrightarrow>
     ir_id X q = ir_id X p"
  by (auto simp: injected_node_def ir_id_def ir_title_def Let_def split: option.splits)

lemma no_heading_no_id:
  "\<not> has_event is_heading_start body \<Longrightarrow> find_map (heading_id \<circ> fst) body = None"
  by (induction body)
    (auto simp: has_event_def heading_id_def is_heading_start_def split: md_event.splits md_tag.splits)

text \<open>The events of a section start with its heading, which gets the identifier; a new one loses its range.\<close>

lemma inject_id_heading:
  assumes "inject_id M n (p, (Start (HeadingTag level ident classes attrs), rng) # body) = ((q, events'), changed)"
    "2 < ir_heading p" "\<not> has_event is_heading_start body"
  shows "events' = (Start (HeadingTag level (Some (node_id (md_ext M) n)) classes attrs),
      if ident = Some (node_id (md_ext M) n) then rng else None) # body"
proof -
  have "or_else ident None = ident" by (cases ident) simp_all
  with assms no_heading_no_id [of body] show ?thesis
    by (auto simp: inject_id_def heading_id_def Let_def split: if_splits option.splits)
qed

text \<open>The pass over the links writes to the end of what is there.\<close>

lemma link_step_extends: "\<exists>out. lp_out (link_step L ctx doc event rng s) = lp_out s @ out"
  by (auto simp: link_step_def Let_def split: option.splits list.splits prod.splits)

lemma link_loop_extends: "\<exists>out. lp_out (snd (link_loop L ctx doc None events s)) = lp_out s @ out"
proof (induction events arbitrary: s)
  case (Cons item events)
  obtain event rng where item: "item = (event, rng)" by (cases item)
  obtain out where "lp_out (link_step L ctx doc event rng s) = lp_out s @ out" using link_step_extends by metis
  with Cons.IH [of "link_step L ctx doc event rng s"] show ?case by (auto simp: item Let_def)
qed simp

lemma heading_passes:
  fixes body :: "'o event_queue"
  assumes "check_for_link_and_push L ((Start (HeadingTag level ident classes attrs), rng) # body) ctx doc [] None ds
    = (left, out, changed, ds')"
  shows "\<exists>body'. out = (Start (HeadingTag level ident classes attrs), rng) # body'"
proof -
  let ?s = "link_step L ctx doc (Start (HeadingTag level ident classes attrs) :: 'o md_event) rng
    \<lparr>lp_changed = False, lp_stack = [], lp_out = [], lp_diagnostics = ds\<rparr>"
  have "lp_out ?s = [(Start (HeadingTag level ident classes attrs), rng)]"
    by (simp add: link_step_def link_new_def Let_def)
  moreover obtain more where "lp_out (snd (link_loop L ctx doc None body ?s)) = lp_out ?s @ more"
    using link_loop_extends by blast
  moreover have "out = lp_out (snd (link_loop L ctx doc None body ?s))"
    using assms by (auto simp: check_for_link_and_push_def Let_def split: prod.splits)
  ultimately show ?thesis by simp
qed

lemma inject_id_ident:
  assumes "inject_id M n (p, events) = ((q, events'), changed)" "2 < ir_heading p" "node_id (md_ext M) n \<noteq> []"
  shows "ir_id (md_ext M) q = Some (node_id (md_ext M) n)"
  using assms
  by (auto simp: inject_id_def ir_id_def item_text_def to_text_def Let_def split: if_splits)

lemma update_keeps_heading:
  assumes "update_from_context X Z node_text n root p = (q, r)"
  shows "ir_heading q = ir_heading p"
proof (cases "ir_from_node X Z node_text n")
  case (Inr other)
  then have "ir_heading other = 0"
    by (auto simp: ir_from_node_def from_str_heading split: sum.splits)
  with assms Inr merge_heading [OF this, of "reparse Z" p] show ?thesis
    by (auto simp: update_from_context_def Let_def split: prod.splits if_splits)
qed (use assms in \<open>simp add: update_from_context_def\<close>)

lemma merge_section_heading: "ir_heading (fst (merge_section M sections p)) = ir_heading p"
  by (auto simp: merge_section_def merge_metadata_into_node_def split: option.splits)

lemma find_index_less: "find_index p xs = Some i \<Longrightarrow> i < length xs"
  by (induction xs arbitrary: i) (auto split: if_splits)

text \<open>
  C32. Once the context of a section is known the section has the anchor of its node, in its record and in the text: the
  heading event its events start with carries it, without a range where it is new, so that it is printed, and links to
  the node resolve to it. The heading is the only one among the events of the section.
\<close>

theorem injected_anchor:
  assumes "md_inject_context M c n ctx ds = (Inr (c', updated), ds')"
    "find_index (\<lambda>(p, _). ir_eq (md_docs M) p n) (mc_events c) = Some i"
    "mc_events c ! i = (p, (Start (HeadingTag level ident classes attrs), rng) # body)"
    "2 < ir_heading p" "\<not> has_event is_heading_start body" "node_id (md_ext M) (bc_node ctx) \<noteq> []"
  shows "ir_id (md_ext M) (md_nodes c' ! i) = Some (node_id (md_ext M) (bc_node ctx))
    \<and> (\<exists>body'. snd (mc_events c' ! i) =
         (Start (HeadingTag level (Some (node_id (md_ext M) (bc_node ctx))) classes attrs),
          if ident = Some (node_id (md_ext M) (bc_node ctx)) then rng else None) # body')"
proof -
  let ?sections = "sections_of M c n" and ?doc = "ir_path n" and ?a = "node_id (md_ext M) (bc_node ctx)"
  let ?events = "(Start (HeadingTag level ident classes attrs), rng) # body"
  obtain entry matched es where e: "inject_entry M (mc_content c) ?sections ?doc ctx ds (p, ?events) = (Inr (entry, matched, updated), es)"
    "mc_events c' = (mc_events c)[i := entry]"
    using assms(1,2,3) by (auto simp: md_inject_context_def split: prod.splits sum.splits)
  obtain p1 changed where p1: "update_from_context (md_ext M) (md_docs M) (md_node_text M) (bc_node ctx) (bc_root_path ctx) p = (p1, Inr changed)"
    using e(1) by (auto simp: inject_entry_def split: prod.splits sum.splits)
  obtain q es' id_changed where q: "inject_id M (bc_node ctx) (fst (merge_section M ?sections p1), ?events) = ((q, es'), id_changed)"
    by (cases "inject_id M (bc_node ctx) (fst (merge_section M ?sections p1), ?events)") auto
  have deep: "2 < ir_heading (fst (merge_section M ?sections p1))"
    using assms(4) by (simp add: merge_section_heading update_keeps_heading [OF p1])
  have es': "es' = (Start (HeadingTag level (Some ?a) classes attrs), if ident = Some ?a then rng else None) # body"
    by (rule inject_id_heading [OF q deep assms(5)])
  have "2 < ir_heading q" using q deep by (auto simp: inject_id_def Let_def split: if_splits)
  with e(1) p1 q obtain left out link_changed ds'' merged body where
    out: "check_for_link_and_push (md_link M) es' ctx ?doc [] None ds = (left, out, link_changed, ds'')"
      "snd entry = out" "injected_node M (bc_node ctx) changed merged body q = (fst entry, updated)"
    unfolding inject_entry_def Let_def by (auto split: prod.splits)
  from inject_id_ident [OF q deep assms(6)] injected_document [OF out(3), where X = "md_ext M"]
  have "ir_id (md_ext M) (fst entry) = Some ?a" by simp
  moreover have "\<exists>body'. snd entry =
      (Start (HeadingTag level (Some ?a) classes attrs), if ident = Some ?a then rng else None) # body'"
    using heading_passes [OF out(1) [unfolded es']] out(2) by simp
  ultimately show ?thesis using find_index_less [OF assms(2)] by (simp add: md_nodes_def e(2))
qed

text \<open>Nothing but the update of the node can fail.\<close>

lemma inject_succeeds:
  assumes "find_index (\<lambda>(p, _). ir_eq (md_docs M) p n) (mc_events c) = Some i"
    "update_from_context (md_ext M) (md_docs M) (md_node_text M) (bc_node ctx) (bc_root_path ctx) (fst (mc_events c ! i)) = (p, Inr changed)"
  shows "\<exists>c' updated ds'. md_inject_context M c n ctx ds = (Inr (c', updated), ds')"
  by (cases "inject_entry M (mc_content c) (sections_of M c n) (ir_path n) ctx ds (mc_events c ! i)")
    (use assms in \<open>auto simp: md_inject_context_def inject_entry_def Let_def split: prod.splits sum.splits\<close>)

theorem injected_anchor_witness:
  "\<exists>c' updated ds' body. md_inject_context (sample_md []) one_section (hd (md_nodes one_section)) titled_context [] = (Inr (c', updated), ds')
     \<and> ir_id same_namespace (md_nodes c' ! 0) = Some ''b''
     \<and> snd (mc_events c' ! 0) = (Start (HeadingTag H2 (Some ''b'') [] []), None) # body"
proof -
  let ?M = "sample_md []" and ?n = "hd (md_nodes one_section)"
  have n: "find_index (\<lambda>(p, _). ir_eq (md_docs ?M) p ?n) (mc_events one_section) = Some 0"
    by code_simp
  have entry: "mc_events one_section ! 0 = (ir_default\<lparr>ir_heading := 4\<rparr>, (Start (HeadingTag H2 None [] []), Some (0, 5))
      # [(Text ''a'', Some (3, 4)), (End (HeadingEnd H2), Some (0, 5))])"
    by (simp add: one_section_def heading_events_def)
  have alone: "\<not> has_event is_heading_start [(Text ''a'', Some (3, 4)), (End (HeadingEnd H2), Some (0, 5))]"
    "2 < ir_heading (ir_default\<lparr>ir_heading := 4\<rparr>)"
    by (simp_all add: has_event_def is_heading_start_def)
  have slug: "to_anchor same_namespace ''b'' = ''b''" by code_simp
  then have b: "node_id (md_ext ?M) (bc_node titled_context) = ''b''"
    by (simp add: node_id_def titled_context_def unknown_node_def sample_ext)
  have "ir_from_str (md_ext ?M) (md_docs ?M) [] = Inr ir_default" by code_simp
  then have "update_from_context (md_ext ?M) (md_docs ?M) (md_node_text ?M) (bc_node titled_context)
      (bc_root_path titled_context) (ir_default\<lparr>ir_heading := 4\<rparr>)
    = (ir_default\<lparr>ir_heading := 4, ir_path := bc_root_path titled_context\<rparr>, Inr None)"
    by (simp add: update_from_context_def ir_from_node_def sample_md_def titled_context_def unknown_node_def ir_merge_def)
      (simp add: ir_default_def)
  then have "update_from_context (md_ext ?M) (md_docs ?M) (md_node_text ?M) (bc_node titled_context)
      (bc_root_path titled_context) (fst (mc_events one_section ! 0))
    = (ir_default\<lparr>ir_heading := 4, ir_path := bc_root_path titled_context\<rparr>, Inr None)"
    by (simp add: one_section_def)
  from inject_succeeds [OF n this, of "[]"] obtain c' updated ds' where
    c': "md_inject_context ?M one_section ?n titled_context [] = (Inr (c', updated), ds')" by blast
  with injected_anchor [OF c' n entry alone(2,1)] b show ?thesis by (auto simp: sample_ext)
qed

end
