(* ===== verification/MdProps.thy ===== *)
theory MdProps
  imports MdExample
begin

text \<open>
  What makes the Markdown codec correct: no event of a document is lost, the anchors of its sections are
  distinct, parsing does not panic, and frontmatter is read and written consistently.
\<close>

section \<open>Invariants of a parse\<close>

text \<open>
  An invariant may speak of the events read so far, and of a phase the reader is in, which says which event may
  come next.
\<close>

fun run_phases :: "('q \<Rightarrow> 'i \<Rightarrow> 'q option) \<Rightarrow> 'q \<Rightarrow> 'i list \<Rightarrow> 'q option" where
  "run_phases after q [] = Some q"
| "run_phases after q (item # items) =
     (case after q item of None \<Rightarrow> None | Some q \<Rightarrow> run_phases after q items)"

locale event_invariant =
  fixes M :: "('p, 'f, 'o) md_setting"
    and after :: "'q \<Rightarrow> 'o md_event \<times> byte_range \<Rightarrow> 'q option"
    and I :: "'q \<Rightarrow> ('o md_event \<times> byte_range) list \<Rightarrow> 'o md_parse \<Rightarrow> bool"
  assumes step: "I q seen s \<Longrightarrow> after q item = Some q' \<Longrightarrow>
    parse_event M item s = Some (s', Inr ()) \<Longrightarrow> I q' (seen @ [item]) s'"
begin

lemma events_keep:
  "I q seen s \<Longrightarrow> run_phases after q items = Some q' \<Longrightarrow>
   for_each (parse_event M) items s = Some (s', Inr ()) \<Longrightarrow> I q' (seen @ items) s'"
proof (induction items arbitrary: q seen s)
  case (Cons item items)
  obtain r where r: "after q item = Some r" "run_phases after r items = Some q'"
    using Cons.prems(2) by (auto split: option.splits)
  obtain s1 where s1: "parse_event M item s = Some (s1, Inr ())" "for_each (parse_event M) items s1 = Some (s', Inr ())"
    using Cons.prems(3) by (auto simp: and_then_def split: option.splits prod.splits sum.splits)
  from Cons.IH [OF step [OF Cons.prems(1) r(1) s1(1)] r(2) s1(2)] show ?case by simp
qed (simp add: ret_def)

end


section \<open>One event\<close>

lemma upstream_same: "p\<lparr>ir_upstream := ir_upstream p\<rparr> = p"
  by (cases p) simp

lemma current_same: "s\<lparr>mp_links := ls, mp_current := mp_current s\<rparr> = s\<lparr>mp_links := ls\<rparr>"
  by (cases s) simp

lemma collect_link_frame:
  "\<exists>us ls. collect_link M event offset s = s\<lparr>mp_links := ls, mp_current := (mp_current s)\<lparr>ir_upstream := us\<rparr>\<rparr>"
proof -
  define stack where "stack = (case link_new event (Some offset) of Some la \<Rightarrow> la # mp_links s | None \<Rightarrow> mp_links s)"
  have unlinked: "\<exists>us ls'. s\<lparr>mp_links := ls\<rparr> = s\<lparr>mp_links := ls', mp_current := (mp_current s)\<lparr>ir_upstream := us\<rparr>\<rparr>" for ls
    by (rule exI [of _ "ir_upstream (mp_current s)"], rule exI [of _ ls]) (simp add: upstream_same current_same)
  show ?thesis
  proof (cases stack)
    case Nil
    then show ?thesis using unlinked by (simp add: collect_link_def stack_def [symmetric])
  next
    case (Cons la rest)
    obtain la' ended where push: "link_push event (Some offset) la = (la', ended)"
      by (cases "link_push event (Some offset) la")
    show ?thesis
    proof (cases "ended \<and> relation_of_link M (ir_path (mp_current s)) la' \<noteq> None")
      case True
      then obtain r where "relation_of_link M (ir_path (mp_current s)) la' = Some r" by auto
      with True Cons push show ?thesis
        by (intro exI [of _ "ir_upstream (mp_current s) @ [r]"] exI [of _ rest])
          (simp add: collect_link_def stack_def [symmetric])
    next
      case False
      then have "\<exists>ls. collect_link M event offset s = s\<lparr>mp_links := ls\<rparr>"
        using Cons push by (auto simp: collect_link_def stack_def [symmetric] current_same)
      then show ?thesis using unlinked by metis
    qed
  qed
qed

lemma parse_event_run:
  assumes "parse_event M (event, offset) s = Some (s', x)"
  obtains us ls s1 where
    "handle_event M event offset (s\<lparr>mp_links := ls, mp_current := (mp_current s)\<lparr>ir_upstream := us\<rparr>\<rparr>) = Some (s1, x)"
    "x = Inr () \<longrightarrow> s' = s1\<lparr>mp_proto_events := mp_proto_events s1 @ [(event, Some offset)]\<rparr>"
proof -
  obtain us ls where c: "collect_link M event offset s = s\<lparr>mp_links := ls, mp_current := (mp_current s)\<lparr>ir_upstream := us\<rparr>\<rparr>"
    using collect_link_frame by blast
  show ?thesis
    using assms that
    by (auto simp: parse_event_def and_then_def modify_def c split: option.splits prod.splits sum.splits)
qed

lemma keeps_panic [keeps_intros]: "keeps I panic"
  by (simp add: keeps_def panic_def)

lemma keeps_set_current: "(\<And>s. I s \<Longrightarrow> I (s\<lparr>mp_current := f (mp_current s)\<rparr>)) \<Longrightarrow> keeps I (set_current f)"
  unfolding set_current_def by (rule keeps_modify)

section \<open>No event is lost\<close>

definition parsed_events :: "('o, 'z) md_parse_scheme \<Rightarrow> 'o event_queue" where
  "parsed_events s = concat (map snd (mc_events s)) @ mp_proto_events s"

definition ranged :: "('o md_event \<times> byte_range) list \<Rightarrow> 'o event_queue" where
  "ranged events = map (\<lambda>(event, rng). (event, Some rng)) events"

lemma keeps_end_heading:
  assumes "\<And>s f. I s \<Longrightarrow> I (s\<lparr>mp_current := f (mp_current s)\<rparr>)" "\<And>s b. I s \<Longrightarrow> I (s\<lparr>mp_first_heading := b\<rparr>)"
    "\<And>s. I s \<Longrightarrow> I (s\<lparr>mc_heading_start := None\<rparr>)" "keeps I glue_back" "\<And>title. keeps I (claim_anchor M title)"
  shows "keeps I (end_heading M)"
  unfolding end_heading_def Let_def
  by (intro keeps_intros keeps_set_current assms)

lemma claim_anchor_eq:
  "claim_anchor M title s = Some (s', r) \<Longrightarrow>
     \<exists>p seen ds. s' = s\<lparr>mp_current := p, mc_seen := seen, mp_diagnostics := ds\<rparr>"
proof -
  have same: "s = s\<lparr>mp_current := mp_current s, mc_seen := mc_seen s, mp_diagnostics := mp_diagnostics s\<rparr>"
    "s\<lparr>mc_seen := a\<rparr> = s\<lparr>mp_current := mp_current s, mc_seen := a, mp_diagnostics := mp_diagnostics s\<rparr>"
    "s\<lparr>mp_current := p, mp_diagnostics := ds\<rparr> = s\<lparr>mp_current := p, mc_seen := mc_seen s, mp_diagnostics := ds\<rparr>"
    for a p ds by (cases s; simp)+
  assume "claim_anchor M title s = Some (s', r)"
  then consider "s' = s" | a where "s' = s\<lparr>mc_seen := a\<rparr>" | p ds where "s' = s\<lparr>mp_current := p, mp_diagnostics := ds\<rparr>"
    | p a ds where "s' = s\<lparr>mp_current := p, mc_seen := a, mp_diagnostics := ds\<rparr>"
    unfolding claim_anchor_def resolve_collision_def modify_def Let_def
    by (auto split: option.splits if_splits)
  then show ?thesis using same by cases metis+
qed

lemma glued_events: "parsed_events (the (map_option fst (glue_back s))) = parsed_events s"
proof (cases "mc_events s = []")
  case False
  have "concat (map snd (mc_events s)) = concat (map snd (butlast (mc_events s))) @ snd (last (mc_events s))"
    by (subst append_butlast_last_id [OF False, symmetric], simp only: map_append concat_append) simp
  with False show ?thesis by (simp add: glue_back_def modify_def parsed_events_def case_prod_beta)
qed (simp add: glue_back_def modify_def)

lemma handled_events:
  fixes M :: "('p, 'f, 'c) md_setting"
  shows "keeps (\<lambda>s. parsed_events s = es) (handle_event M event offset)"
proof -
  have "keeps (\<lambda>s. parsed_events s = es) glue_back"
  proof (unfold keeps_def, intro allI impI)
    fix s s' :: "'c md_parse" and r
    assume "parsed_events s = es" "glue_back s = Some (s', r)"
    then show "parsed_events s' = es" using glued_events [of s] by simp
  qed
  moreover have "keeps (\<lambda>s. parsed_events s = es) (claim_anchor M title)" for title
    by (auto simp: keeps_def parsed_events_def dest!: claim_anchor_eq)
  ultimately have "keeps (\<lambda>s. parsed_events s = es) (end_heading M)"
    by (intro keeps_end_heading) (simp_all add: parsed_events_def)
  moreover have "keeps (\<lambda>s. parsed_events s = es) (start_heading M offset level ident)" for level ident
    by (auto simp: keeps_def start_heading_def Let_def parsed_events_def split: prod.splits sum.splits)
  moreover have "keeps (\<lambda>s. parsed_events s = es) (set_current f)" for f
    by (rule keeps_set_current) (simp add: parsed_events_def)
  ultimately show ?thesis
    unfolding handle_event_def end_metadata_def
    by (auto split: md_event.splits md_tag.splits md_tag_end.splits option.splits intro!: keeps_intros)
qed

interpretation losing: event_invariant M "\<lambda>q item. Some q" "\<lambda>q seen s. parsed_events s = ranged seen"
  for M :: "('p, 'f, 'o) md_setting"
proof
  fix seen s item s'
  fix q q' :: 'q
  assume "parsed_events s = ranged seen" "parse_event M item s = Some (s', Inr ())"
  moreover obtain event offset where item: "item = (event, offset)" by (cases item)
  ultimately obtain us ls s1 where
    s1: "handle_event M event offset (s\<lparr>mp_links := ls, mp_current := (mp_current s)\<lparr>ir_upstream := us\<rparr>\<rparr>) = Some (s1, Inr ())"
      "s' = s1\<lparr>mp_proto_events := mp_proto_events s1 @ [(event, Some offset)]\<rparr>"
      "parsed_events s = ranged seen"
    by (auto elim!: parse_event_run)
  then have "parsed_events s1 = ranged seen"
    using keepsD [OF handled_events [of "ranged seen" M event offset] s1(1)] by (simp add: parsed_events_def)
  with s1(2) show "parsed_events s' = ranged (seen @ [item])"
    by (simp add: parsed_events_def ranged_def item)
qed

lemma run_phases_free: "run_phases (\<lambda>q item. Some q) q items = Some q"
  by (induction items) simp_all

lemma parse_document_run:
  assumes "md_parse_document M content current c ds = Some (Inr c', ds')"
  obtains s p where "for_each (parse_event M) (md_parser M content) (parse_start content current c ds) = Some (s, Inr ())"
    "traverse_current M (mp_current s) = (p, Inr ())" "mc_events c' = mc_events s @ [(p, mp_proto_events s)]"
    "mc_seen c' = mc_seen s" "ds' = mp_diagnostics s"
proof -
  obtain t where t: "md_parse_run M content (parse_start content current c ds) = Some (t, Inr ())" "c' = md_codec_of t"
      "ds' = mp_diagnostics t"
    using assms by (auto simp: md_parse_document_def split: option.splits sum.splits prod.splits)
  then obtain s where s: "for_each (parse_event M) (md_parser M content) (parse_start content current c ds) = Some (s, Inr ())"
      "finish_parse M s = Some (t, Inr ())"
    by (auto simp: md_parse_run_def and_then_eq)
  obtain p x where p: "traverse_current M (mp_current s) = (p, x)" by (cases "traverse_current M (mp_current s)")
  with s(2) have "x = Inr ()" "t = s\<lparr>mc_events := mc_events s @ [(p, mp_proto_events s)]\<rparr>"
    by (auto simp: finish_parse_def split: sum.splits)
  with that s(1) p t(2,3) show ?thesis by (simp add: md_codec_of_def)
qed

text \<open>
  C27. Parsing loses no event: those of the nodes, one after the other, are the events of the parser with their
  ranges, so that what is printed from them is the whole document.
\<close>

theorem parse_keeps_events:
  assumes "md_parse_document M content current c ds = Some (Inr c', ds')"
  shows "concat (map snd (mc_events c')) = ranged (md_parser M content)"
proof -
  obtain s p where s: "for_each (parse_event M) (md_parser M content) (parse_start content current c ds) = Some (s, Inr ())"
      "mc_events c' = mc_events s @ [(p, mp_proto_events s)]"
    using parse_document_run [OF assms] by metis
  have "parsed_events s = ranged ([] @ md_parser M content)"
    by (rule losing.events_keep [OF _ run_phases_free s(1)]) (simp add: parse_start_def parsed_events_def ranged_def)
  then show ?thesis by (simp add: s(2) parsed_events_def)
qed

theorem parse_keeps_events_witness:
  "\<exists>c ds. parsed_sections = Some (c, ds) \<and> concat (map snd (mc_events c)) = ranged two_sections"
proof -
  obtain c ds where c: "md_parse_document (sample_md two_sections) two_sections_text ir_default md_new [] = Some (Inr c, ds)"
    "parsed_sections = Some (c, ds)"
    by (rule sections_parse)
  from parse_keeps_events [OF c(1)] c(2) show ?thesis by (auto simp: sample_md_def)
qed

section \<open>Phases\<close>

text \<open>
  Where the reader is: ahead of every heading, below the title of the document (an \<open>H1\<close> that is the first heading),
  or in a section; and there outside of headings and metadata blocks, in a metadata block, or in a heading. Headings
  and metadata blocks are closed and do not stand in each other. A metadata block may stand anywhere, or, for a stricter
  reader, anywhere but in a section.
\<close>

datatype place = Ahead | Titled | Sectioned

datatype phase = Outside place | InBlock place | InHeading place

definition next_phase :: "bool \<Rightarrow> phase \<Rightarrow> 'o md_event \<times> byte_range \<Rightarrow> phase option" where
  "next_phase anywhere ph item =
     (case fst item of
        Start (MetadataTag _) \<Rightarrow>
          (case ph of Outside pl \<Rightarrow> if pl = Sectioned \<and> \<not> anywhere then None else Some (InBlock pl) | _ \<Rightarrow> None)
      | End (MetadataEnd _) \<Rightarrow> (case ph of InBlock pl \<Rightarrow> Some (Outside pl) | _ \<Rightarrow> None)
      | Start (HeadingTag level _ _ _) \<Rightarrow>
          (case ph of Outside pl \<Rightarrow> Some (InHeading (if pl = Ahead \<and> level = H1 then Titled else Sectioned)) | _ \<Rightarrow> None)
      | End (HeadingEnd _) \<Rightarrow> (case ph of InHeading pl \<Rightarrow> Some (Outside pl) | _ \<Rightarrow> None)
      | _ \<Rightarrow> Some ph)"

definition closed :: "phase option \<Rightarrow> bool" where
  "closed ph \<longleftrightarrow> (case ph of Some (Outside _) \<Rightarrow> True | _ \<Rightarrow> False)"

definition well_nested :: "('o md_event \<times> byte_range) list \<Rightarrow> bool" where
  "well_nested events \<longleftrightarrow> closed (run_phases (next_phase True) (Outside Ahead) events)"

definition metadata_in_front :: "('o md_event \<times> byte_range) list \<Rightarrow> bool" where
  "metadata_in_front events \<longleftrightarrow> closed (run_phases (next_phase False) (Outside Ahead) events)"

lemma closedE: "closed ph \<Longrightarrow> (\<And>pl. ph = Some (Outside pl) \<Longrightarrow> thesis) \<Longrightarrow> thesis"
  by (auto simp: closed_def split: option.splits phase.splits)

lemma metadata_in_front_nested: "metadata_in_front events \<Longrightarrow> well_nested events"
proof -
  have "next_phase False ph item = Some ph' \<Longrightarrow> next_phase True ph item = Some ph'" for ph ph' and item :: "'o md_event \<times> byte_range"
    by (auto simp: next_phase_def split: md_event.splits md_tag.splits md_tag_end.splits phase.splits if_splits)
  then have "run_phases (next_phase False) ph events = Some ph' \<Longrightarrow> run_phases (next_phase True) ph events = Some ph'"
    for ph ph' and events :: "('o md_event \<times> byte_range) list"
    by (induction events arbitrary: ph) (fastforce split: option.splits)+
  then show "metadata_in_front events \<Longrightarrow> well_nested events"
    unfolding metadata_in_front_def well_nested_def by (metis closedE)
qed

definition on_boundary :: "string \<Rightarrow> nat \<Rightarrow> bool" where
  "on_boundary content i \<longleftrightarrow> char_boundary content (min i (length content))"




section \<open>Parsing does not panic\<close>



definition located :: "string \<Rightarrow> 'o md_parse \<Rightarrow> bool" where
  "located content s \<longleftrightarrow> mc_content s = content \<and> pred_option (on_boundary content) (mc_heading_start s)"


lemma located_glue: "glue_back s = Some (s', r) \<Longrightarrow> located content s' = located content s \<and> r = Inr ()"
  by (auto simp: glue_back_def modify_def located_def split: if_splits prod.splits)















section \<open>The anchors of the sections\<close>

definition anchor_list :: "'a text_ext_scheme \<Rightarrow> ir_node \<Rightarrow> string list" where
  "anchor_list X p = (if ir_heading p > 2 then (case ir_id X p of Some i \<Rightarrow> [i] | None \<Rightarrow> []) else [])"

definition section_anchors :: "'a text_ext_scheme \<Rightarrow> ir_node list \<Rightarrow> string list" where
  "section_anchors X ps = concat (map (anchor_list X) ps)"

lemma section_anchors_simps [simp]:
  "section_anchors X [] = []" "section_anchors X (p # ps) = anchor_list X p @ section_anchors X ps"
  "section_anchors X (ps @ qs) = section_anchors X ps @ section_anchors X qs"
  by (simp_all add: section_anchors_def)

lemma anchor_list_cong:
  "ir_document p = ir_document q \<Longrightarrow> ir_heading p = ir_heading q \<Longrightarrow> anchor_list X p = anchor_list X q"
  by (simp add: anchor_list_def ir_id_def ir_title_def cong: option.case_cong if_cong)

lemma ir_id_explicit:
  "ir_id X p = (case explicit_id p of
      Some i \<Rightarrow> if i = [] then None else Some i
    | None \<Rightarrow> let slug = to_anchor X (unwrap_or (ir_title p) []) in if slug = [] then None else Some slug)"
  by (simp add: ir_id_def explicit_id_def)

lemma explicit_id_simps [simp]:
  "explicit_id (p\<lparr>ir_document := bm_insert ''id'' (Val (TString i)) d\<rparr>) = Some i"
  "explicit_id (p\<lparr>ir_document := bm_remove ''id'' d\<rparr>) = None"
  "ir_title (p\<lparr>ir_document := bm_insert ''id'' v (ir_document p)\<rparr>) = ir_title p"
  "ir_title (p\<lparr>ir_document := bm_remove ''id'' (ir_document p)\<rparr>) = ir_title p"
  by (simp_all add: explicit_id_def ir_title_def item_text_def to_text_def)

text \<open>What claiming an anchor makes of the current node, for the anchors of the other sections.\<close>

definition plain_section :: "ir_node \<Rightarrow> bool" where
  "plain_section p \<longleftrightarrow> (ir_heading p > 2 \<longrightarrow> bm_get (ir_document p) ''schema'' = None)"

lemma claim_cases:
  assumes "claim_anchor M title s = Some (s', Inr ())"
  obtains (nothing) "s' = s" "explicit_id (mp_current s) = None" "to_anchor (md_ext M) title = []"
    | (new) a where "or_else (explicit_id (mp_current s)) (Some (to_anchor (md_ext M) title)) = Some a" "a \<notin> mc_seen s"
        "s' = s\<lparr>mc_seen := insert a (mc_seen s)\<rparr>"
    | (title) ds where "to_anchor (md_ext M) title \<noteq> []" "to_anchor (md_ext M) title \<notin> mc_seen s"
        "s' = s\<lparr>mp_current := (mp_current s)\<lparr>ir_document := bm_remove ''id'' (ir_document (mp_current s))\<rparr>,
           mc_seen := insert (to_anchor (md_ext M) title) (mc_seen s), mp_diagnostics := ds\<rparr>"
    | (neither) ds where "s' = s\<lparr>mp_current := (mp_current s)\<lparr>ir_document :=
           bm_insert ''id'' (Val (TString [])) (ir_document (mp_current s))\<rparr>, mp_diagnostics := ds\<rparr>"
proof -
  let ?slug = "to_anchor (md_ext M) title"
  let ?c = "or_else (explicit_id (mp_current s)) (if ?slug = [] then None else Some ?slug)"
  show ?thesis
  proof (cases ?c)
    case None
    then have "s' = s" "explicit_id (mp_current s) = None" "?slug = []"
      using assms by (auto simp: claim_anchor_def Let_def split: if_splits)
    then show ?thesis by (rule nothing)
  next
    case (Some a)
    then have a: "or_else (explicit_id (mp_current s)) (Some ?slug) = Some a"
      by (cases "explicit_id (mp_current s)") (auto split: if_splits)
    show ?thesis
    proof (cases "a \<in> mc_seen s")
      case True
      with assms Some obtain loc where "resolve_collision M title a loc s = Some (s', Inr ())"
        by (auto simp: claim_anchor_def Let_def split: option.splits)
      then show ?thesis
        using title neither by (auto simp: resolve_collision_def modify_def Let_def split: if_splits)
    next
      case False
      with assms Some a new show ?thesis by (auto simp: claim_anchor_def Let_def)
    qed
  qed
qed

lemma anchor_list_explicit:
  "explicit_id p = Some i \<Longrightarrow> anchor_list X p = (if ir_heading p > 2 \<and> i \<noteq> [] then [i] else [])"
  "explicit_id p = None \<Longrightarrow> ir_title p = Some t \<Longrightarrow>
     anchor_list X p = (if ir_heading p > 2 \<and> to_anchor X t \<noteq> [] then [to_anchor X t] else [])"
  by (simp_all add: anchor_list_def ir_id_explicit Let_def)

lemma claim_fresh:
  assumes "claim_anchor M title s = Some (s', Inr ())" "ir_title (mp_current s) = Some title"
    "set L \<subseteq> mc_seen s" "distinct L"
  shows "distinct (L @ anchor_list (md_ext M) (mp_current s'))
    \<and> set (L @ anchor_list (md_ext M) (mp_current s')) \<subseteq> mc_seen s'"
  using assms(1)
proof (cases rule: claim_cases)
  case nothing
  with assms(2-4) show ?thesis by (simp add: anchor_list_explicit)
next
  case (new a)
  with assms(2-4) show ?thesis
    by (cases "explicit_id (mp_current s)") (auto simp: anchor_list_explicit)
next
  case (title ds)
  have "explicit_id (mp_current s') = None" "ir_title (mp_current s') = Some title"
    using assms(2) by (simp_all add: title(3))
  with assms(3,4) title show ?thesis by (auto simp: anchor_list_explicit)
next
  case (neither ds)
  have "explicit_id (mp_current s') = Some []" by (simp add: neither)
  with assms(3,4) neither show ?thesis by (simp add: anchor_list_explicit)
qed

lemma claim_glued:
  assumes "claim_anchor M [] s = Some (s', Inr ())" "to_anchor (md_ext M) [] = []"
    "set (L @ anchor_list (md_ext M) (mp_current s)) \<subseteq> mc_seen s" "distinct (L @ anchor_list (md_ext M) (mp_current s))"
  shows "distinct (L @ anchor_list (md_ext M) (mp_current s'))
    \<and> set (L @ anchor_list (md_ext M) (mp_current s')) \<subseteq> mc_seen s'"
  using assms(1)
proof (cases rule: claim_cases)
  case (neither ds)
  have "explicit_id (mp_current s') = Some []" by (simp add: neither)
  with assms(3,4) neither show ?thesis by (simp add: anchor_list_explicit)
qed (use assms in auto)

lemma claim_frame:
  assumes "claim_anchor M title s = Some (s', Inr ())"
  shows "mc_events s' = mc_events s \<and> ir_heading (mp_current s') = ir_heading (mp_current s)
    \<and> plain_section (mp_current s') = plain_section (mp_current s)"
  using assms by (cases rule: claim_cases) (simp_all add: plain_section_def)

text \<open>
  Outside a heading the current node has claimed its anchor, in one it is yet to; the anchors claimed are distinct
  and remembered. The reader is a strict one, whose current node is the document until the first section.
\<close>

definition settled :: "phase \<Rightarrow> 'o md_parse \<Rightarrow> ir_node list" where
  "settled ph s = map fst (mc_events s) @ (case ph of InHeading _ \<Rightarrow> [] | _ \<Rightarrow> [mp_current s])"

definition claimed :: "'a text_ext_scheme \<Rightarrow> string set \<Rightarrow> ir_node list \<Rightarrow> bool" where
  "claimed X names ps \<longleftrightarrow> distinct (section_anchors X ps) \<and> set (section_anchors X ps) \<subseteq> names"

fun placed :: "phase \<Rightarrow> 'o md_parse \<Rightarrow> bool" where
  "placed (Outside Sectioned) s = True"
| "placed (InBlock Sectioned) s = False"
| "placed (Outside pl) s = (ir_heading (mp_current s) \<le> 2 \<and> (pl = Ahead \<longrightarrow> mp_first_heading s))"
| "placed (InBlock pl) s = (ir_heading (mp_current s) \<le> 2 \<and> (pl = Ahead \<longrightarrow> mp_first_heading s))"
| "placed (InHeading pl) s =
     (pl \<noteq> Ahead \<and> mc_events s \<noteq> [] \<and> 2 < ir_heading (mp_current s) \<and> ir_title (mp_current s) = None
      \<and> (pl = Titled \<longrightarrow> ir_heading (fst (last (mc_events s))) \<le> 2 \<and> mp_first_heading s \<and> ir_heading (mp_current s) = 3))"

definition anchors_ok :: "('p, 'f, 'o) md_setting \<Rightarrow> phase \<Rightarrow> 'o md_parse \<Rightarrow> bool" where
  "anchors_ok M ph s \<longleftrightarrow>
     claimed (md_ext M) (mc_seen s) (settled ph s)
     \<and> list_all plain_section (map fst (mc_events s) @ [mp_current s]) \<and> placed ph s"

lemma placed_cong:
  assumes "placed ph s" "ir_heading (mp_current s') = ir_heading (mp_current s)" "ir_title (mp_current s') = ir_title (mp_current s)"
    "mp_first_heading s' = mp_first_heading s" "map fst (mc_events s') = map fst (mc_events s)"
  shows "placed ph s'"
proof -
  have "mc_events s' = [] \<longleftrightarrow> mc_events s = []" using assms(5) by (metis map_is_Nil_conv)
  moreover have "fst (last (mc_events s')) = fst (last (mc_events s))" if "mc_events s \<noteq> []"
    using that assms(5) calculation by (metis last_map)
  ultimately show ?thesis
    using assms by (cases "(ph, s)" rule: placed.cases) auto
qed

lemma anchors_current:
  assumes "anchors_ok M ph s" "ir_heading (f (mp_current s)) = ir_heading (mp_current s)"
    "ir_document (f (mp_current s)) = ir_document (mp_current s)"
  shows "anchors_ok M ph (s\<lparr>mp_links := ls, mp_current := f (mp_current s), mp_proto_events := es\<rparr>)"
proof -
  have "anchor_list (md_ext M) (f (mp_current s)) = anchor_list (md_ext M) (mp_current s)"
    by (rule anchor_list_cong) (simp_all add: assms(2,3))
  moreover have "plain_section (f (mp_current s)) = plain_section (mp_current s)"
    and t: "ir_title (f (mp_current s)) = ir_title (mp_current s)"
    by (simp_all add: plain_section_def ir_title_def assms(2,3))
  moreover have "placed ph (s\<lparr>mp_links := ls, mp_current := f (mp_current s), mp_proto_events := es\<rparr>)"
    using assms(1) t by (auto simp: anchors_ok_def assms(2) intro: placed_cong)
  ultimately show ?thesis
    using assms(1) by (cases ph) (simp_all add: anchors_ok_def settled_def claimed_def)
qed

lemma traverse_fields_heading: "ir_heading (fold (traverse_field X codecs doc) fs p) = ir_heading p"
  by (simp add: traverse_fields add_relations_to_def)

lemma traverse_frame:
  assumes "traverse_current M p = (p', Inr u)"
  shows "ir_heading p' = ir_heading p \<and> (bm_get (ir_document p) ''schema'' = None \<longrightarrow> p' = p)"
  using assms
  by (auto simp: traverse_current_def traverse_schema_def traverse_fields_heading Let_def case_prod_beta
      split: option.splits sum.splits if_splits)

lemma traverse_anchors:
  assumes "traverse_current M p = (p', Inr u)" "plain_section p"
  shows "anchor_list (md_ext M) p' = anchor_list (md_ext M) p \<and> plain_section p'"
  using traverse_frame [OF assms(1)] assms(2) by (auto simp: anchor_list_def plain_section_def)

lemma anchors_start:
  assumes "anchors_ok M (Outside pl) s" "start_heading M offset level ident s = Some (s', Inr ())"
    "pl' = (if pl = Ahead \<and> level = H1 then Titled else Sectioned)"
  shows "anchors_ok M (InHeading pl') s'"
proof -
  obtain p u where p: "traverse_current M (mp_current s) = (p, Inr u)"
      "s' = s\<lparr>mc_heading_start := Some (fst offset), mp_current := section_start M (ir_path (mp_current s)) level ident,
        mp_proto_events := [], mc_events := mc_events s @ [(p, mp_proto_events s)]\<rparr>"
    using assms(2) by (auto simp: start_heading_def Let_def split: prod.splits sum.splits)
  let ?q = "section_start M (ir_path (mp_current s)) level ident"
  have "plain_section ?q" "2 < ir_heading ?q" "ir_title ?q = None"
    by (auto simp: section_start_def plain_section_def heading_number_def ir_title_def ir_default_def bm_get_Cons
        split: option.splits heading_level.splits)
  moreover have "plain_section (mp_current s)" using assms(1) by (simp add: anchors_ok_def)
  note t = traverse_anchors [OF p(1) this]
  moreover have "level = H1 \<Longrightarrow> ir_heading ?q = 3" by (simp add: section_start_def heading_number_def)
  ultimately show ?thesis
    using assms(1) t traverse_frame [OF p(1)]
    by (cases pl) (simp_all add: anchors_ok_def p(2) settled_def claimed_def assms(3))
qed

lemma end_metadata_run:
  assumes "end_metadata M s = Some (s', Inr ())"
  obtains p where "s' = s\<lparr>mp_current := p\<rparr>" "ir_heading p = ir_heading (mp_current s)"
proof -
  obtain t where t: "ir_accumulator (mp_current s) = Some t"
    using assms by (auto simp: end_metadata_def and_then_def gets_def panic_def split: option.splits)
  with that show ?thesis
    using assms from_str_heading
    by (fastforce simp: end_metadata_def and_then_def gets_def set_current_def modify_def Let_def merge_heading
        split: sum.splits)
qed

lemma anchors_metadata:
  assumes "anchors_ok M (InBlock pl) s" "end_metadata M s = Some (s', Inr ())"
  shows "anchors_ok M (Outside pl) s'"
proof -
  obtain p where p: "s' = s\<lparr>mp_current := p\<rparr>" "ir_heading p = ir_heading (mp_current s)"
    by (rule end_metadata_run [OF assms(2)])
  have pl: "pl \<noteq> Sectioned" using assms(1) by (auto simp: anchors_ok_def)
  with assms(1) have "ir_heading (mp_current s) \<le> 2" by (cases pl) (simp_all add: anchors_ok_def)
  with p(2) have "anchor_list (md_ext M) p = []" "plain_section p" "anchor_list (md_ext M) (mp_current s) = []" "ir_heading p \<le> 2"
    by (simp_all add: anchor_list_def plain_section_def)
  with pl show ?thesis
    using assms(1) by (cases pl) (simp_all add: p(1) anchors_ok_def settled_def claimed_def)
qed

lemma glue_anchors:
  assumes "glue_back s = Some (s', Inr ())" "mc_events s \<noteq> []"
  shows "map fst (mc_events s') @ [mp_current s'] = map fst (mc_events s) \<and> mc_seen s' = mc_seen s"
proof -
  have "map fst (butlast (mc_events s)) @ [fst (last (mc_events s))] = map fst (mc_events s)"
    using assms(2) by (metis append_butlast_last_id list.simps(8,9) map_append)
  with assms show ?thesis by (auto simp: glue_back_def modify_def split: prod.splits)
qed

text \<open>What the end of a heading does, step by step.\<close>

lemma end_heading_run:
  assumes "end_heading M s = Some (s', Inr ())"
  defines "title \<equiv> unwrap_or (ir_accumulator (mp_current s)) []"
    and "first \<equiv> mp_first_heading s \<and> ir_heading (mp_current s) = 3"
    and "t \<equiv> s\<lparr>mp_current := (mp_current s)\<lparr>ir_accumulator := None\<rparr>\<rparr>"
  obtains t1 t2 where
    "if title = [] \<or> unwrap_or (ir_title (mp_current s)) [] = title \<or> first then glue_back t = Some (t1, Inr ())
     else t1 = t\<lparr>mp_current := (mp_current t)\<lparr>ir_document := bm_insert ''title'' (Val (TString title)) (ir_document (mp_current t))\<rparr>\<rparr>"
    "if 2 < ir_heading (mp_current t1) \<and> \<not> first then \<exists>u. claim_anchor M title t1 = Some (u, Inr ()) \<and> t2 = u\<lparr>mc_heading_start := None\<rparr>
     else t2 = t1"
    "s' = t2\<lparr>mp_first_heading := False\<rparr>"
proof -
  let ?glue = "title = [] \<or> unwrap_or (ir_title (mp_current s)) [] = title \<or> first"
  obtain t1 where t1: "(if ?glue then glue_back
        else set_current (\<lambda>p. p\<lparr>ir_document := bm_insert ''title'' (Val (TString title)) (ir_document p)\<rparr>)) t = Some (t1, Inr ())"
    and rest: "and_then (if 2 < ir_heading (mp_current t1) \<and> \<not> first
        then and_then (claim_anchor M title) (\<lambda>_. modify (\<lambda>s. s\<lparr>mc_heading_start := None\<rparr>)) else ret ())
        (\<lambda>_. modify (\<lambda>s. s\<lparr>mp_first_heading := False\<rparr>)) t1 = Some (s', Inr ())"
    using assms(1) unfolding title_def first_def t_def
    by (auto simp: end_heading_def and_then_eq gets_def set_current_def [of "\<lambda>p. p\<lparr>ir_accumulator := None\<rparr>"] modify_def
        Let_def)
  obtain t2 where t2: "(if 2 < ir_heading (mp_current t1) \<and> \<not> first
        then and_then (claim_anchor M title) (\<lambda>_. modify (\<lambda>s. s\<lparr>mc_heading_start := None\<rparr>)) else ret ()) t1 = Some (t2, Inr ())"
      "s' = t2\<lparr>mp_first_heading := False\<rparr>"
    using rest unfolding and_then_eq [of _ "\<lambda>_. modify (\<lambda>s. s\<lparr>mp_first_heading := False\<rparr>)"]
    by (auto simp: modify_def)
  show ?thesis
  proof (rule that [OF _ _ t2(2)])
    show "if ?glue then glue_back t = Some (t1, Inr ())
     else t1 = t\<lparr>mp_current := (mp_current t)\<lparr>ir_document := bm_insert ''title'' (Val (TString title)) (ir_document (mp_current t))\<rparr>\<rparr>"
      using t1 by (auto simp: set_current_def modify_def split: if_splits)
    show "if 2 < ir_heading (mp_current t1) \<and> \<not> first then \<exists>u. claim_anchor M title t1 = Some (u, Inr ()) \<and> t2 = u\<lparr>mc_heading_start := None\<rparr>
     else t2 = t1"
      using t2(1) by (auto simp: and_then_eq modify_def ret_def split: if_splits)
  qed
qed

text \<open>The nodes settled after a heading that is glued back, and after one that opens a section.\<close>

definition claims :: "('p, 'f, 'o) md_setting \<Rightarrow> string \<Rightarrow> 'o md_parse \<Rightarrow> bool" where
  "claims M title t \<longleftrightarrow>
     list_all plain_section (map fst (mc_events t) @ [mp_current t])
     \<and> (\<forall>u. claim_anchor M title t = Some (u, Inr ()) \<longrightarrow>
          claimed (md_ext M) (mc_seen u) (map fst (mc_events t) @ [mp_current u]))"

lemma claims_claimed:
  "claims M title t \<Longrightarrow> claim_anchor M title t = Some (u, Inr ()) \<Longrightarrow>
     claimed (md_ext M) (mc_seen u) (map fst (mc_events u) @ [mp_current u])
     \<and> list_all plain_section (map fst (mc_events u) @ [mp_current u])"
  using claim_frame [of M title t u] by (simp add: claims_def)

lemma claims_glued:
  assumes "glue_back t = Some (t1, Inr ())" "mc_events t \<noteq> []" "claimed (md_ext M) (mc_seen t) (map fst (mc_events t))"
    "list_all plain_section (map fst (mc_events t))" "to_anchor (md_ext M) [] = []"
  shows "claims M [] t1 \<and> claimed (md_ext M) (mc_seen t1) (map fst (mc_events t1) @ [mp_current t1])"
proof -
  note g = glue_anchors [OF assms(1,2)]
  have old: "claimed (md_ext M) (mc_seen t1) (map fst (mc_events t1) @ [mp_current t1])" using assms(3) by (simp only: g)
  moreover have "claims M [] t1"
    unfolding claims_def
  proof (intro conjI allI impI)
    show "list_all plain_section (map fst (mc_events t1) @ [mp_current t1])" using assms(4) by (simp only: g)
    fix u assume "claim_anchor M [] t1 = Some (u, Inr ())"
    from claim_glued [OF this assms(5), of "section_anchors (md_ext M) (map fst (mc_events t1))"] old
    show "claimed (md_ext M) (mc_seen u) (map fst (mc_events t1) @ [mp_current u])" by (simp add: claimed_def)
  qed
  ultimately show ?thesis by simp
qed

lemma claims_titled:
  assumes "ir_title (mp_current t) = Some title" "claimed (md_ext M) (mc_seen t) (map fst (mc_events t))"
    "list_all plain_section (map fst (mc_events t) @ [mp_current t])"
  shows "claims M title t"
  using claim_fresh [OF _ assms(1), of M _ "section_anchors (md_ext M) (map fst (mc_events t))"] assms(2,3)
  by (simp add: claims_def claimed_def)

lemma anchors_end:
  assumes ok: "anchors_ok M (InHeading pl) s" and "end_heading M s = Some (s', Inr ())" "to_anchor (md_ext M) [] = []"
  shows "anchors_ok M (Outside pl) s'"
proof -
  let ?title = "unwrap_or (ir_accumulator (mp_current s)) []" and ?t = "s\<lparr>mp_current := (mp_current s)\<lparr>ir_accumulator := None\<rparr>\<rparr>"
  let ?first = "mp_first_heading s \<and> ir_heading (mp_current s) = 3"
  obtain t1 t2 where
    t1: "if ?title = [] \<or> unwrap_or (ir_title (mp_current s)) [] = ?title \<or> ?first then glue_back ?t = Some (t1, Inr ())
     else t1 = ?t\<lparr>mp_current := (mp_current ?t)\<lparr>ir_document := bm_insert ''title'' (Val (TString ?title)) (ir_document (mp_current ?t))\<rparr>\<rparr>"
    and t2: "if 2 < ir_heading (mp_current t1) \<and> \<not> ?first then \<exists>u. claim_anchor M ?title t1 = Some (u, Inr ()) \<and> t2 = u\<lparr>mc_heading_start := None\<rparr>
     else t2 = t1"
    and s': "s' = t2\<lparr>mp_first_heading := False\<rparr>"
    using end_heading_run [OF assms(2)] by blast
  have before: "mc_events ?t \<noteq> []" "claimed (md_ext M) (mc_seen ?t) (map fst (mc_events ?t))"
    "list_all plain_section (map fst (mc_events ?t))"
    using ok by (simp_all add: anchors_ok_def settled_def)
  have current: "ir_title (mp_current s) = None" "2 < ir_heading (mp_current s)" "plain_section (mp_current s)"
    using ok by (simp_all add: anchors_ok_def)
  consider (glued) "glue_back ?t = Some (t1, Inr ())" "?title = [] \<or> ?first" | (titled) "claims M ?title t1"
      "2 < ir_heading (mp_current t1) \<and> \<not> ?first"
  proof (cases "?title = [] \<or> ?first")
    case True
    with t1 glued show thesis by (simp split: if_splits)
  next
    case False
    with current(1) t1 have e: "t1 = ?t\<lparr>mp_current := (mp_current ?t)\<lparr>ir_document := bm_insert ''title'' (Val (TString ?title)) (ir_document (mp_current ?t))\<rparr>\<rparr>"
      by (auto split: if_splits)
    have "claims M ?title t1"
      by (rule claims_titled) (use before current e in \<open>simp_all add: ir_title_def item_text_def to_text_def plain_section_def\<close>)
    then show thesis by (rule titled) (use False current(2) e in auto)
  qed
  then have "claimed (md_ext M) (mc_seen t2) (map fst (mc_events t2) @ [mp_current t2])
      \<and> list_all plain_section (map fst (mc_events t2) @ [mp_current t2])"
  proof cases
    case glued
    have c: "claims M [] t1" "claimed (md_ext M) (mc_seen t1) (map fst (mc_events t1) @ [mp_current t1])"
      using claims_glued [OF glued(1) before assms(3)] by simp_all
    show ?thesis
    proof (cases "2 < ir_heading (mp_current t1) \<and> \<not> ?first")
      case True
      with glued(2) t2 obtain u where "claim_anchor M [] t1 = Some (u, Inr ())" "t2 = u\<lparr>mc_heading_start := None\<rparr>" by auto
      with claims_claimed [OF c(1)] show ?thesis by simp
    next
      case False
      with t2 c show ?thesis by (auto simp: claims_def)
    qed
  next
    case titled
    with t2 obtain u where "claim_anchor M ?title t1 = Some (u, Inr ())" "t2 = u\<lparr>mc_heading_start := None\<rparr>" by auto
    with claims_claimed [OF titled(1)] show ?thesis by simp
  qed
  moreover have "placed (Outside pl) s'"
  proof (cases pl)
    case Titled
    with ok have first: "mp_first_heading s" "ir_heading (mp_current s) = 3" "ir_heading (fst (last (mc_events s))) \<le> 2"
      by (simp_all add: anchors_ok_def)
    with t1 have g: "glue_back ?t = Some (t1, Inr ())" by simp
    have "mp_current t1 = fst (last (mc_events ?t))"
      using glue_anchors [OF g before(1)] before(1) by (metis last_map last_snoc)
    with first t2 show ?thesis by (simp add: Titled s')
  qed (use ok in \<open>simp_all add: anchors_ok_def\<close>)
  ultimately show ?thesis by (simp add: anchors_ok_def settled_def s')
qed

lemma anchors_handled:
  assumes "anchors_ok M ph s" "next_phase False ph (event, offset) = Some ph'" "to_anchor (md_ext M) [] = []"
    "handle_event M event offset s = Some (s', Inr ())"
  shows "anchors_ok M ph' s'"
proof -
  have kept: ?thesis if "ph' = ph" "s' = s\<lparr>mp_current := f (mp_current s)\<rparr>" "\<And>p. ir_heading (f p) = ir_heading p"
      "\<And>p. ir_document (f p) = ir_document p" for f
    using anchors_current [OF assms(1), where f = f and ls = "mp_links s" and es = "mp_proto_events s"] that
    by simp
  have same: ?thesis if "ph' = ph" "s' = s"
    by (rule kept [where f = id]) (simp_all add: that)
  have spoken: ?thesis if "ph' = ph" "s' = s\<lparr>mp_current := add_text t (mp_current s)\<rparr>" for t
    by (rule kept [where f = "add_text t"]) (simp_all add: that add_text_def)
  note run = assms(4) [unfolded handle_event_def set_current_def modify_def ret_def]
  show ?thesis
  proof (cases event)
    case (Start t)
    then show ?thesis
    proof (cases t)
      case (HeadingTag level ident classes attrs)
      have "start_heading M offset level ident s = Some (s', Inr ())"
        using assms(4) by (simp add: Start HeadingTag handle_event_def)
      moreover obtain pl where "ph = Outside pl" "ph' = InHeading (if pl = Ahead \<and> level = H1 then Titled else Sectioned)"
        using assms(2) by (auto simp: Start HeadingTag next_phase_def split: phase.splits)
      ultimately show ?thesis using anchors_start [OF _ _ refl] assms(1) by blast
    next
      case (MetadataTag k)
      have "s' = s\<lparr>mp_current := (mp_current s)\<lparr>ir_accumulator := Some []\<rparr>\<rparr>"
        using run by (simp add: Start MetadataTag)
      moreover obtain pl where "ph = Outside pl" "ph' = InBlock pl" "pl \<noteq> Sectioned"
        using assms(2) by (auto simp: Start MetadataTag next_phase_def split: if_splits phase.splits)
      ultimately show ?thesis
        using assms(1) anchor_list_cong [of "(mp_current s)\<lparr>ir_accumulator := Some []\<rparr>" "mp_current s" "md_ext M"]
        by (cases pl) (simp_all add: anchors_ok_def settled_def claimed_def plain_section_def)
    qed (use Start run assms(2) same in \<open>simp_all add: next_phase_def\<close>)
  next
    case (End t)
    then show ?thesis
    proof (cases t)
      case (HeadingEnd level)
      with End assms anchors_end show ?thesis by (auto simp: next_phase_def handle_event_def split: phase.splits)
    next
      case (MetadataEnd k)
      with End assms anchors_metadata show ?thesis by (auto simp: next_phase_def handle_event_def split: phase.splits)
    qed (use End run assms(2) same in \<open>simp_all add: next_phase_def\<close>)
  qed (use run assms(2) same spoken in \<open>auto simp: next_phase_def\<close>)
qed

section \<open>Which anchor a section gets\<close>

text \<open>
  The headings that open sections, read off the events: for each its identifier, as an anchor, and its title. The first
  heading is left out when it is an \<open>H1\<close>: it is the title of the document.
\<close>

record heading_scan =
  hs_first :: bool
  hs_open :: "(heading_level \<times> string option \<times> string option) option"
  hs_headings :: "(string option \<times> string) list"

definition spoken :: "string option \<Rightarrow> string \<Rightarrow> string" where
  "spoken acc t = (case acc of None \<Rightarrow> t | Some a \<Rightarrow> a @ '' '' @ t)"

definition scan_heading :: "'a text_ext_scheme \<Rightarrow> 'o md_event \<times> byte_range \<Rightarrow> heading_scan \<Rightarrow> heading_scan" where
  "scan_heading X item h =
     (case fst item of
        Start (HeadingTag level ident _ _) \<Rightarrow> h\<lparr>hs_open := Some (level, map_option (to_anchor X) ident, None)\<rparr>
      | End (HeadingEnd _) \<Rightarrow>
          (case hs_open h of
             None \<Rightarrow> h\<lparr>hs_first := False\<rparr>
           | Some (level, ident, acc) \<Rightarrow>
               \<lparr>hs_first = False, hs_open = None,
                hs_headings = hs_headings h @ (if hs_first h \<and> level = H1 then [] else [(ident, unwrap_or acc [])])\<rparr>)
      | e \<Rightarrow>
          (case (hs_open h, event_text e) of
             (Some (level, ident, acc), Some t) \<Rightarrow> h\<lparr>hs_open := Some (level, ident, Some (spoken acc t))\<rparr>
           | _ \<Rightarrow> h))"

definition scan_headings :: "'a text_ext_scheme \<Rightarrow> ('o md_event \<times> byte_range) list \<Rightarrow> heading_scan" where
  "scan_headings X events = fold (scan_heading X) events \<lparr>hs_first = True, hs_open = None, hs_headings = []\<rparr>"

definition section_headings :: "'a text_ext_scheme \<Rightarrow> ('o md_event \<times> byte_range) list \<Rightarrow> (string option \<times> string) list" where
  "section_headings X events = hs_headings (scan_headings X events)"

text \<open>
  What is promised: the identifier a section asks for is its anchor when it is free; else, or where it asks for none, the
  anchor of its title when that is free; else it has none.
\<close>

definition own_anchor :: "'a text_ext_scheme \<Rightarrow> string set \<Rightarrow> string option \<times> string \<Rightarrow> string option" where
  "own_anchor X taken heading =
     (case heading of (ident, title) \<Rightarrow>
        let by_title = (let slug = to_anchor X title in if slug = [] \<or> slug \<in> taken then None else Some slug)
        in case ident of
             None \<Rightarrow> by_title
           | Some i \<Rightarrow> if i = [] then None else if i \<in> taken then by_title else Some i)"

fun assign_anchors :: "'a text_ext_scheme \<Rightarrow> string set \<Rightarrow> (string option \<times> string) list \<Rightarrow> string option list" where
  "assign_anchors X taken [] = []"
| "assign_anchors X taken (heading # headings) =
     own_anchor X taken heading
     # assign_anchors X (set_option (own_anchor X taken heading) \<union> taken) headings"

definition given :: "string option list \<Rightarrow> string set" where
  "given anchors = \<Union>(set_option ` set anchors)"

lemma given_simps [simp]: "given [] = {}" "given (a # as) = set_option a \<union> given as"
  "given (as @ bs) = given as \<union> given bs"
  by (auto simp: given_def)

lemma assign_snoc:
  "assign_anchors X taken (hs @ [h]) =
     assign_anchors X taken hs @ [own_anchor X (taken \<union> given (assign_anchors X taken hs)) h]"
  by (induction hs arbitrary: taken) (simp_all add: Un_ac)

definition section_ids :: "'a text_ext_scheme \<Rightarrow> ir_node list \<Rightarrow> string option list" where
  "section_ids X ps = map (ir_id X) (filter (\<lambda>p. 2 < ir_heading p) ps)"

lemma section_ids_simps [simp]:
  "section_ids X [] = []" "section_ids X (p # ps) = (if 2 < ir_heading p then [ir_id X p] else []) @ section_ids X ps"
  "section_ids X (ps @ qs) = section_ids X ps @ section_ids X qs"
  by (simp_all add: section_ids_def)

lemma ir_id_cong: "ir_document p = ir_document q \<Longrightarrow> ir_id X p = ir_id X q"
  by (simp add: ir_id_def ir_title_def cong: option.case_cong)

text \<open>Claiming an anchor gives the one promised, where a title is there.\<close>

lemma claim_own:
  assumes "claim_anchor M title s = Some (s', Inr ())" "ir_title (mp_current s) = Some title"
    "mc_seen s - {[]} = taken"
  shows "ir_id (md_ext M) (mp_current s') = own_anchor (md_ext M) taken (explicit_id (mp_current s), title)
    \<and> mc_seen s' - {[]} = taken \<union> set_option (own_anchor (md_ext M) taken (explicit_id (mp_current s), title))"
proof (cases "explicit_id (mp_current s)")
  case None
  then show ?thesis
    using assms
    by (auto simp: claim_anchor_def resolve_collision_def modify_def own_anchor_def ir_id_explicit Let_def
        split: if_splits option.splits)
next
  case (Some i)
  then show ?thesis
    using assms
    by (auto simp: claim_anchor_def resolve_collision_def modify_def own_anchor_def ir_id_explicit Let_def
        split: if_splits option.splits)
qed

text \<open>
  The reader agrees with the headings scanned so far: with the heading that is open, and with the anchors promised to
  those that are closed, as long as none is without a title.
\<close>

definition titled :: "(string option \<times> string) list \<Rightarrow> bool" where
  "titled headings \<longleftrightarrow> list_all (\<lambda>(_, title). title \<noteq> []) headings"

fun scanned :: "'a text_ext_scheme \<Rightarrow> phase \<Rightarrow> heading_scan \<Rightarrow> 'o md_parse \<Rightarrow> bool" where
  "scanned X (InHeading pl) h s =
     (\<exists>level ident. hs_open h = Some (level, ident, ir_accumulator (mp_current s))
        \<and> ir_heading (mp_current s) = heading_number level \<and> ir_content (mp_current s) = []
        \<and> explicit_id (mp_current s) = ident)"
| "scanned X ph h s = (hs_open h = None)"

definition promised :: "('p, 'f, 'o) md_setting \<Rightarrow> phase \<Rightarrow> heading_scan \<Rightarrow> 'o md_parse \<Rightarrow> bool" where
  "promised M ph h s \<longleftrightarrow>
     hs_first h = mp_first_heading s \<and> scanned (md_ext M) ph h s
     \<and> (titled (hs_headings h) \<longrightarrow>
          section_ids (md_ext M) (settled ph s) = assign_anchors (md_ext M) {} (hs_headings h)
          \<and> mc_seen s - {[]} = given (assign_anchors (md_ext M) {} (hs_headings h)))"

lemma promised_current:
  assumes "promised M ph h s" "ir_heading (f (mp_current s)) = ir_heading (mp_current s)"
    "ir_document (f (mp_current s)) = ir_document (mp_current s)"
    "ir_accumulator (f (mp_current s)) = ir_accumulator (mp_current s)" "ir_content (f (mp_current s)) = ir_content (mp_current s)"
  shows "promised M ph h (s\<lparr>mp_links := ls, mp_current := f (mp_current s), mp_proto_events := es\<rparr>)"
proof -
  have "ir_id (md_ext M) (f (mp_current s)) = ir_id (md_ext M) (mp_current s)" by (rule ir_id_cong) (rule assms(3))
  moreover have "explicit_id (f (mp_current s)) = explicit_id (mp_current s)" by (simp add: explicit_id_def assms(3))
  ultimately show ?thesis
    using assms(1) by (cases ph) (auto simp: promised_def settled_def assms(2,4,5) split: if_splits)
qed

lemma traverse_ids:
  assumes "traverse_current M p = (p', Inr u)" "plain_section p"
  shows "section_ids X (ps @ [p']) = section_ids X (ps @ [p])"
  using traverse_frame [OF assms(1)] assms(2) by (auto simp: plain_section_def)

lemma promised_start:
  assumes "promised M (Outside pl) h s" "start_heading M offset level ident s = Some (s', Inr ())" "plain_section (mp_current s)"
  shows "promised M (InHeading pl') (scan_heading (md_ext M) (Start (HeadingTag level ident classes attrs), offset) h) s'"
proof -
  obtain p u where p: "traverse_current M (mp_current s) = (p, Inr u)"
      "s' = s\<lparr>mc_heading_start := Some (fst offset), mp_current := section_start M (ir_path (mp_current s)) level ident,
        mp_proto_events := [], mc_events := mc_events s @ [(p, mp_proto_events s)]\<rparr>"
    using assms(2) by (auto simp: start_heading_def Let_def split: prod.splits sum.splits)
  let ?q = "section_start M (ir_path (mp_current s)) level ident"
  have "explicit_id ?q = map_option (to_anchor (md_ext M)) ident" "ir_heading ?q = heading_number level"
    "ir_accumulator ?q = None" "ir_content ?q = []"
    by (simp_all add: section_start_def explicit_id_def ir_default_def bm_get_Cons item_text_def to_text_def split: option.split)
  moreover have "section_ids (md_ext M) (map fst (mc_events s) @ [p]) = section_ids (md_ext M) (map fst (mc_events s) @ [mp_current s])"
    by (rule traverse_ids [OF p(1) assms(3)])
  ultimately show ?thesis
    using assms(1) by (simp add: promised_def p(2) settled_def scan_heading_def)
qed

lemma promised_end:
  assumes ok: "anchors_ok M (InHeading pl) s" "promised M (InHeading pl) h s" and e: "end_heading M s = Some (s', Inr ())"
    and h'_def: "h' = scan_heading (md_ext M) (End (HeadingEnd level'), offset) h"
  shows "promised M (Outside pl) h' s'"
proof -
  let ?title = "unwrap_or (ir_accumulator (mp_current s)) []" and ?t = "s\<lparr>mp_current := (mp_current s)\<lparr>ir_accumulator := None\<rparr>\<rparr>"
  let ?first = "mp_first_heading s \<and> ir_heading (mp_current s) = 3"
  let ?X = "md_ext M"
  obtain t1 t2 where
    t1: "if ?title = [] \<or> unwrap_or (ir_title (mp_current s)) [] = ?title \<or> ?first then glue_back ?t = Some (t1, Inr ())
     else t1 = ?t\<lparr>mp_current := (mp_current ?t)\<lparr>ir_document := bm_insert ''title'' (Val (TString ?title)) (ir_document (mp_current ?t))\<rparr>\<rparr>"
    and t2: "if 2 < ir_heading (mp_current t1) \<and> \<not> ?first then \<exists>u. claim_anchor M ?title t1 = Some (u, Inr ()) \<and> t2 = u\<lparr>mc_heading_start := None\<rparr>
     else t2 = t1"
    and s': "s' = t2\<lparr>mp_first_heading := False\<rparr>"
    using end_heading_run [OF e] by blast
  have current: "ir_title (mp_current s) = None" "2 < ir_heading (mp_current s)" "mc_events s \<noteq> []"
    using ok(1) by (simp_all add: anchors_ok_def)
  obtain level where h: "hs_open h = Some (level, explicit_id (mp_current s), ir_accumulator (mp_current s))"
    "ir_heading (mp_current s) = heading_number level" "hs_first h = mp_first_heading s"
    using ok(2) by (auto simp: promised_def)
  let ?hs = "hs_headings h" and ?new = "(explicit_id (mp_current s), ?title)"
  have level: "level = H1 \<longleftrightarrow> ir_heading (mp_current s) = 3"
    unfolding h(2) by (cases level) (simp_all add: heading_number_def)
  have h': "hs_first h' = False" "hs_open h' = None" "hs_headings h' = ?hs @ (if ?first then [] else [?new])"
    by (simp_all add: h'_def scan_heading_def h(1,3) level)
  have before: "section_ids ?X (map fst (mc_events s)) = assign_anchors ?X {} ?hs \<and> mc_seen s - {[]} = given (assign_anchors ?X {} ?hs)"
    if "titled ?hs"
    using ok(2) that by (simp add: promised_def settled_def)
  have "section_ids ?X (map fst (mc_events t2) @ [mp_current t2]) = assign_anchors ?X {} (hs_headings h')
      \<and> mc_seen t2 - {[]} = given (assign_anchors ?X {} (hs_headings h'))" if ti: "titled (hs_headings h')"
  proof (cases ?first)
    case True
    with t1 have g: "glue_back ?t = Some (t1, Inr ())" by simp
    have "t2 = t1" using t2 True by simp
    with True ti before glue_anchors [OF g] current(3) show ?thesis by (simp add: h')
  next
    case False
    with ti have b: "titled ?hs" and spoke: "?title \<noteq> []" by (simp_all add: h' titled_def)
    note b = before [OF b]
    from False spoke t1 current(1) have e: "t1 = ?t\<lparr>mp_current := (mp_current ?t)\<lparr>ir_document := bm_insert ''title'' (Val (TString ?title)) (ir_document (mp_current ?t))\<rparr>\<rparr>"
      by (auto split: if_splits)
    with False t2 current(2) obtain u where u: "claim_anchor M ?title t1 = Some (u, Inr ())" "t2 = u\<lparr>mc_heading_start := None\<rparr>"
      by auto
    have x: "ir_title (mp_current t1) = Some ?title" "explicit_id (mp_current t1) = explicit_id (mp_current s)"
      "2 < ir_heading (mp_current t1)" "mc_events t1 = mc_events s" "mc_seen t1 = mc_seen s"
      using current(2) by (simp_all add: e ir_title_def explicit_id_def item_text_def to_text_def)
    have "mc_seen t1 - {[]} = given (assign_anchors ?X {} ?hs)" using b x(5) by simp
    from claim_own [OF u(1) x(1) this] claim_frame [OF u(1)] b False x show ?thesis
      by (simp add: u(2) h' assign_snoc)
  qed
  then show ?thesis by (simp add: promised_def settled_def s' h'(1,2))
qed

lemma scan_spoken:
  "event_text event = Some t \<Longrightarrow>
     scan_heading X (event, offset) h =
       (case hs_open h of None \<Rightarrow> h | Some (level, ident, acc) \<Rightarrow> h\<lparr>hs_open := Some (level, ident, Some (spoken acc t))\<rparr>)"
  by (cases event) (simp_all add: scan_heading_def event_text_def split: option.split)

lemma scan_quiet:
  "event_text event = None \<Longrightarrow> \<not> is_heading_start event \<Longrightarrow> \<not> is_heading_end event \<Longrightarrow> scan_heading X (event, offset) h = h"
  by (auto simp: scan_heading_def event_text_def is_heading_start_def is_heading_end_def
      split: md_event.splits md_tag.splits md_tag_end.splits option.splits)

lemma promised_spoken:
  assumes "promised M ph h s" "event_text event = Some t"
  shows "promised M ph (scan_heading (md_ext M) (event, offset) h) (s\<lparr>mp_current := add_text t (mp_current s)\<rparr>)"
proof -
  let ?p = "add_text t (mp_current s)"
  have same: "ir_id (md_ext M) ?p = ir_id (md_ext M) (mp_current s)"
    by (rule ir_id_cong) (simp add: add_text_def)
  have frame: "explicit_id ?p = explicit_id (mp_current s)" "ir_heading ?p = ir_heading (mp_current s)"
    "ir_content ?p = ir_content (mp_current s)"
    by (simp_all add: explicit_id_def add_text_def)
  show ?thesis
  proof (cases ph)
    case (InHeading pl)
    with assms(1) obtain level ident where h: "hs_open h = Some (level, ident, ir_accumulator (mp_current s))"
      "ir_content (mp_current s) = []"
      by (auto simp: promised_def)
    then have "ir_accumulator ?p = Some (spoken (ir_accumulator (mp_current s)) t)"
      by (simp add: add_text_def spoken_def)
    with assms(1) h frame show ?thesis
      by (simp add: scan_spoken [OF assms(2)] InHeading promised_def settled_def)
  next
    case (Outside pl)
    with assms(1) have "hs_open h = None" by (simp add: promised_def)
    with assms(1) Outside show ?thesis
      by (simp add: scan_spoken [OF assms(2)] promised_def settled_def same frame cong: if_cong)
  next
    case (InBlock pl)
    with assms(1) have "hs_open h = None" by (simp add: promised_def)
    with assms(1) InBlock show ?thesis
      by (simp add: scan_spoken [OF assms(2)] promised_def settled_def same frame cong: if_cong)
  qed
qed

lemma promised_handled:
  assumes "anchors_ok M ph s" "promised M ph h s" "next_phase False ph (event, offset) = Some ph'"
    "handle_event M event offset s = Some (s', Inr ())"
  shows "promised M ph' (scan_heading (md_ext M) (event, offset) h) s'"
proof -
  note run = assms(4) [unfolded handle_event_def set_current_def modify_def ret_def]
  have same: ?thesis if "ph' = ph" "s' = s" "scan_heading (md_ext M) (event, offset) h = h"
    using assms(2) that by simp
  have words: ?thesis if "event_text event = Some t" "s' = s\<lparr>mp_current := add_text t (mp_current s)\<rparr>" "ph' = ph" for t
    using promised_spoken [OF assms(2) that(1)] that(2,3) by simp
  have document: "promised M (Outside pl) h s'" "promised M (InBlock pl) h s'"
    if "pl \<noteq> Sectioned" "ph = Outside pl \<or> ph = InBlock pl" "s' = s\<lparr>mp_current := p\<rparr>" "ir_heading p = ir_heading (mp_current s)" for pl p
  proof -
    have low: "ir_heading (mp_current s) \<le> 2" using assms(1) that(1,2) by (cases pl) (auto simp: anchors_ok_def)
    have "hs_first h = mp_first_heading s \<and> hs_open h = None
        \<and> (titled (hs_headings h) \<longrightarrow>
             section_ids (md_ext M) (map fst (mc_events s)) = assign_anchors (md_ext M) {} (hs_headings h)
             \<and> mc_seen s - {[]} = given (assign_anchors (md_ext M) {} (hs_headings h)))"
      using assms(2) that(2) low by (elim disjE) (simp_all add: promised_def settled_def)
    with low that(3,4) show "promised M (Outside pl) h s'" "promised M (InBlock pl) h s'"
      by (simp_all add: promised_def settled_def)
  qed
  show ?thesis
  proof (cases event)
    case (Start t)
    then show ?thesis
    proof (cases t)
      case (HeadingTag level ident classes attrs)
      have "start_heading M offset level ident s = Some (s', Inr ())"
        using assms(4) by (simp add: Start HeadingTag handle_event_def)
      moreover obtain pl pl' where "ph = Outside pl" "ph' = InHeading pl'"
        using assms(3) by (auto simp: Start HeadingTag next_phase_def split: phase.splits)
      moreover have "plain_section (mp_current s)" using assms(1) by (simp add: anchors_ok_def)
      ultimately show ?thesis using promised_start assms(2) unfolding Start HeadingTag by blast
    next
      case (MetadataTag k)
      obtain pl where "ph = Outside pl" "ph' = InBlock pl" "pl \<noteq> Sectioned"
        using assms(3) by (auto simp: Start MetadataTag next_phase_def split: if_splits phase.splits)
      then show ?thesis
        using document(2) [of pl "(mp_current s)\<lparr>ir_accumulator := Some []\<rparr>"] run
        by (simp add: Start MetadataTag scan_quiet event_text_def is_heading_start_def is_heading_end_def)
    qed (use Start run assms(3) same in \<open>simp_all add: next_phase_def scan_quiet event_text_def is_heading_start_def is_heading_end_def\<close>)
  next
    case (End t)
    then show ?thesis
    proof (cases t)
      case (HeadingEnd level)
      obtain pl where "ph = InHeading pl" "ph' = Outside pl"
        using assms(3) by (auto simp: End HeadingEnd next_phase_def split: phase.splits)
      moreover have "end_heading M s = Some (s', Inr ())"
        using assms(4) by (simp add: End HeadingEnd handle_event_def)
      ultimately show ?thesis using promised_end [OF _ _ _ refl] assms(1,2) unfolding End HeadingEnd by blast
    next
      case (MetadataEnd k)
      obtain pl where pl: "ph = InBlock pl" "ph' = Outside pl"
        using assms(3) by (auto simp: End MetadataEnd next_phase_def split: phase.splits)
      moreover from pl have "pl \<noteq> Sectioned" using assms(1) by (auto simp: anchors_ok_def)
      moreover have "end_metadata M s = Some (s', Inr ())"
        using assms(4) by (simp add: End MetadataEnd handle_event_def)
      then obtain p where "s' = s\<lparr>mp_current := p\<rparr>" "ir_heading p = ir_heading (mp_current s)"
        by (rule end_metadata_run)
      ultimately show ?thesis
        using document(1) by (simp add: End MetadataEnd scan_quiet event_text_def is_heading_start_def is_heading_end_def)
    qed (use End run assms(3) same in \<open>simp_all add: next_phase_def scan_quiet event_text_def is_heading_start_def is_heading_end_def\<close>)
  qed (use run assms(3) same words in
      \<open>simp_all add: next_phase_def scan_quiet event_text_def is_heading_start_def is_heading_end_def\<close>)
qed

text \<open>Both invariants together are kept by every event.\<close>

definition anchored :: "('p, 'f, 'o) md_setting \<Rightarrow> phase \<Rightarrow> ('o md_event \<times> byte_range) list \<Rightarrow> 'o md_parse \<Rightarrow> bool" where
  "anchored M ph seen s \<longleftrightarrow>
     to_anchor (md_ext M) [] = [] \<and> anchors_ok M ph s \<and> promised M ph (scan_headings (md_ext M) seen) s"

interpretation anchoring: event_invariant M "next_phase False" "anchored M"
  for M :: "('p, 'f, 'o) md_setting"
proof
  fix ph ph' :: phase and seen :: "('o md_event \<times> byte_range) list" and s s' :: "'o md_parse"
    and item :: "'o md_event \<times> byte_range"
  assume ok: "anchored M ph seen s" and after: "next_phase False ph item = Some ph'"
    and parsed: "parse_event M item s = Some (s', Inr ())"
  obtain event offset where item: "item = (event, offset)" by (cases item)
  show "anchored M ph' (seen @ [item]) s'"
    using parsed unfolding item
  proof (rule parse_event_run)
    fix us ls s1
    let ?s = "s\<lparr>mp_links := ls, mp_current := (mp_current s)\<lparr>ir_upstream := us\<rparr>\<rparr>"
    assume h: "handle_event M event offset ?s = Some (s1, Inr ())"
      and s': "Inr () = Inr () \<longrightarrow> s' = s1\<lparr>mp_proto_events := mp_proto_events s1 @ [(event, Some offset)]\<rparr>"
    have a: "anchors_ok M ph ?s"
      using anchors_current [where f = "ir_upstream_update (\<lambda>_. us)" and es = "mp_proto_events s" and s = s
          and M = M and ph = ph] ok by (simp add: anchored_def)
    have p: "promised M ph (scan_headings (md_ext M) seen) ?s"
      using promised_current [where f = "ir_upstream_update (\<lambda>_. us)" and es = "mp_proto_events s" and s = s
          and M = M and ph = ph] ok by (simp add: anchored_def)
    have next_event: "next_phase False ph (event, offset) = Some ph'" using after item by simp
    have "anchors_ok M ph' s1" by (rule anchors_handled [OF a next_event _ h]) (use ok in \<open>simp add: anchored_def\<close>)
    then have "anchors_ok M ph' s'"
      using anchors_current [where f = id and ls = "mp_links s1" and s = s1 and M = M and ph = ph'
          and es = "mp_proto_events s1 @ [(event, Some offset)]"] s' by simp
    moreover have "promised M ph' (scan_heading (md_ext M) (event, offset) (scan_headings (md_ext M) seen)) s1"
      by (rule promised_handled [OF a p next_event h])
    then have "promised M ph' (scan_headings (md_ext M) (seen @ [(event, offset)])) s'"
      using promised_current [where f = id and ls = "mp_links s1" and s = s1 and M = M and ph = ph'
          and es = "mp_proto_events s1 @ [(event, Some offset)]"] s' by (simp add: scan_headings_def)
    ultimately show "anchored M ph' (seen @ [(event, offset)]) s'" using ok by (simp add: anchored_def)
  qed
qed

text \<open>
  C28. The anchors of the sections of a document are distinct, and they are the promised ones: the identifier a section
  asks for, where no section ahead of it has it; else the anchor of its title, where that is free; else none. The last
  holds where no heading is without a text, but for the title. Metadata may stand ahead of the headings and below the
  title, as this codec writes it, but not in a section, whose anchor it could replace.
\<close>

theorem heading_anchors_distinct:
  assumes "md_parse_document M content current c ds = Some (Inr c', ds')" "metadata_in_front (md_parser M content)"
    "ir_heading current \<le> 2" "to_anchor (md_ext M) [] = []"
  shows "distinct (section_anchors (md_ext M) (md_nodes c'))
    \<and> (titled (section_headings (md_ext M) (md_parser M content)) \<longrightarrow>
         section_ids (md_ext M) (md_nodes c') =
           assign_anchors (md_ext M) {} (section_headings (md_ext M) (md_parser M content)))"
proof -
  obtain s p where s: "for_each (parse_event M) (md_parser M content) (parse_start content current c ds) = Some (s, Inr ())"
      "traverse_current M (mp_current s) = (p, Inr ())" "mc_events c' = mc_events s @ [(p, mp_proto_events s)]"
    using parse_document_run [OF assms(1)] by metis
  obtain pl where ph: "run_phases (next_phase False) (Outside Ahead) (md_parser M content) = Some (Outside pl)"
    using assms(2) by (auto simp: metadata_in_front_def elim: closedE)
  have "anchored M (Outside Ahead) [] (parse_start content current c ds)"
    using assms(3,4)
    by (simp add: anchored_def anchors_ok_def parse_start_def settled_def claimed_def anchor_list_def plain_section_def
        promised_def scan_headings_def)
  from anchoring.events_keep [OF this ph s(1)]
  have a: "anchored M (Outside pl) (md_parser M content) s" by simp
  then have "plain_section (mp_current s)" by (simp add: anchored_def anchors_ok_def)
  from a traverse_anchors [OF s(2) this] traverse_ids [OF s(2) this, of "md_ext M" "map fst (mc_events s)"]
  show ?thesis
    by (simp add: md_nodes_def s(3) anchored_def anchors_ok_def promised_def settled_def claimed_def section_headings_def)
qed

theorem heading_anchors_distinct_witness:
  "\<exists>c ds. parsed_sections = Some (c, ds) \<and> section_ids same_namespace (md_nodes c) = [Some ''a'', None]"
proof -
  obtain c ds where c: "md_parse_document (sample_md two_sections) two_sections_text ir_default md_new [] = Some (Inr c, ds)"
    "parsed_sections = Some (c, ds)"
    by (rule sections_parse)
  have h: "ir_heading ir_default \<le> 2" by (simp add: ir_default_def)
  have m: "metadata_in_front (md_parser (sample_md two_sections) two_sections_text)" by code_simp
  have "section_headings same_namespace two_sections = [(None, ''a''), (None, ''a'')]"
    by (simp add: section_headings_def scan_headings_def scan_heading_def two_sections_def heading_events_def event_text_def
        spoken_def)
  moreover have "to_anchor same_namespace ''a'' = ''a''" by code_simp
  ultimately have "titled (section_headings same_namespace two_sections)"
    "assign_anchors same_namespace {} (section_headings same_namespace two_sections) = [Some ''a'', None]"
    by (simp_all add: titled_def own_anchor_def)
  moreover have "md_parser (sample_md two_sections) two_sections_text = two_sections" by (simp add: sample_md_def)
  ultimately show ?thesis
    using heading_anchors_distinct [OF c(1) m h] c(2) by (auto simp: sample_ext no_slug)
qed

end
