(* ===== verification/Shards.thy ===== *)
theory Shards
  imports Parse
begin

text \<open>
  The export of the graph (\<open>shard/search.rs\<close>, \<open>shard/manifest.rs\<close>, \<open>shard/export.rs\<close>, \<open>shard/wire.rs\<close>): a search
  index for every network, and the graph in one file or, from a size on, in one file per network and one for
  what belongs to none.

  The stemmer, the sort that is not stable, the arithmetic of 64 bit floats, the JSON printers and the file
  system are the fields of \<open>shard_ops\<close>. The state of a run is the list of files it has written.
\<close>

section \<open>Search indices\<close>

type_synonym u32 = "32 word"

datatype stem_mode = StemEnglish | StemNone

record indexed_doc =
  id_title :: string
  id_path :: string
  id_term_count :: u32

record search_index =
  sx_network_bref :: string
  sx_doc_count :: nat
  sx_stemmed :: stem_mode
  sx_docs :: "(string, indexed_doc) bmap"
  sx_index :: "(string, (string \<times> u32) list) bmap"

record network_search_meta =
  nm_bref :: string
  nm_title :: string
  nm_path :: string
  nm_size_kb :: "64 word"

record search_manifest =
  sf_version :: string
  sf_networks :: "network_search_meta list"

section \<open>Wire types and manifests\<close>

record serializable_edge =
  se_source :: string
  se_sink :: string
  se_weights :: weight_set

record network_shard =
  ns_network_bref :: string
  ns_network_bid :: string
  ns_states :: "(string, node) bmap"
  ns_relations :: "serializable_edge list"

record global_shard =
  gs_states :: "(string, node) bmap"
  gs_relations :: "serializable_edge list"

record network_shard_meta =
  sm_bref :: string
  sm_bid :: string
  sm_title :: string
  sm_node_count :: nat
  sm_relation_count :: nat
  sm_estimated_size_mb :: "64 word"
  sm_path :: string
  sm_search_index_path :: string
  sm_search_index_size_kb :: "64 word"

record global_shard_meta =
  gm_node_count :: nat
  gm_estimated_size_mb :: "64 word"
  gm_path :: string

record shard_manifest =
  sh_version :: string
  sh_sharded :: bool
  sh_memory_budget_mb :: "64 word"
  sh_networks :: "network_shard_meta list"
  sh_global :: global_shard_meta

record shard_config =
  sc_shard_threshold :: nat
  sc_memory_budget_mb :: "64 word"

datatype export_mode = Monolithic "64 word" | Sharded shard_manifest

section \<open>What the code relies on\<close>

text \<open>
  \<open>so_float\<close> is \<open>as f64\<close>, \<open>so_nat\<close> is \<open>as usize\<close>, \<open>so_show\<close> formats with one decimal.
\<close>

record shard_ops =
  so_stem :: "string \<Rightarrow> string"
  so_stem_mode :: stem_mode
  so_sort :: "(string \<times> u32) list \<Rightarrow> (string \<times> u32) list"
  so_float :: "nat \<Rightarrow> 64 word"
  so_nat :: "64 word \<Rightarrow> nat"
  so_mul :: "64 word \<Rightarrow> 64 word \<Rightarrow> 64 word"
  so_div :: "64 word \<Rightarrow> 64 word \<Rightarrow> 64 word"
  so_show :: "64 word \<Rightarrow> string"
  so_json_index :: "search_index \<Rightarrow> buildonomy_error + string"
  so_json_search :: "search_manifest \<Rightarrow> buildonomy_error + string"
  so_json_graph :: "belief_graph \<Rightarrow> buildonomy_error + string"
  so_json_global :: "global_shard \<Rightarrow> buildonomy_error + string"
  so_json_network :: "network_shard \<Rightarrow> buildonomy_error + string"
  so_json_manifest :: "shard_manifest \<Rightarrow> buildonomy_error + string"
  so_mkdir :: "os_path \<Rightarrow> buildonomy_error + unit"
  so_write :: "os_path \<Rightarrow> string \<Rightarrow> buildonomy_error + unit"

type_synonym written = "(os_path \<times> string) list"

definition write_file :: "shard_ops \<Rightarrow> os_path \<Rightarrow> string \<Rightarrow> (written, unit) run" where
  "write_file S path content = (\<lambda>files.
     case so_write S path content of
       Inl e \<Rightarrow> Some (files, Inl e)
     | Inr _ \<Rightarrow> Some (files @ [(path, content)], Inr ()))"

section \<open>Terms\<close>

definition stop_words :: "string list" where
  "stop_words = [
     ''a'', ''an'', ''the'', ''and'', ''but'', ''or'', ''nor'', ''for'', ''yet'', ''so'', ''both'', ''either'',
     ''neither'', ''not'', ''only'', ''whether'', ''although'', ''because'', ''since'', ''unless'', ''until'',
     ''while'', ''though'', ''even'', ''at'', ''by'', ''in'', ''of'', ''on'', ''to'', ''up'', ''as'', ''into'',
     ''from'', ''with'', ''about'', ''above'', ''after'', ''against'', ''along'', ''among'', ''around'', ''before'',
     ''behind'', ''below'', ''beneath'', ''beside'', ''between'', ''beyond'', ''during'', ''except'', ''inside'',
     ''near'', ''off'', ''out'', ''outside'', ''over'', ''past'', ''per'', ''through'', ''throughout'', ''under'',
     ''underneath'', ''upon'', ''via'', ''within'', ''without'', ''i'', ''me'', ''my'', ''we'', ''us'', ''our'',
     ''you'', ''your'', ''he'', ''him'', ''his'', ''she'', ''her'', ''hers'', ''it'', ''its'', ''they'', ''them'',
     ''their'', ''who'', ''whom'', ''which'', ''what'', ''that'', ''this'', ''these'', ''those'', ''myself'',
     ''yourself'', ''himself'', ''herself'', ''itself'', ''ourselves'', ''themselves'', ''be'', ''is'', ''am'',
     ''are'', ''was'', ''were'', ''been'', ''being'', ''have'', ''has'', ''had'', ''having'', ''do'', ''does'',
     ''did'', ''doing'', ''will'', ''would'', ''shall'', ''should'', ''may'', ''might'', ''must'', ''can'',
     ''could'', ''get'', ''got'', ''let'', ''no'', ''yes'', ''not'', ''also'', ''just'', ''then'', ''than'',
     ''now'', ''here'', ''there'', ''when'', ''where'', ''why'', ''how'', ''all'', ''any'', ''each'', ''more'',
     ''most'', ''other'', ''some'', ''such'', ''same'', ''own'', ''few'', ''very'', ''too'', ''so'', ''well'',
     ''back'', ''still'', ''already'', ''again'', ''once'', ''always'', ''never'', ''ever'', ''often'', ''however'',
     ''therefore'', ''thus'', ''hence'', ''else'', ''if'']"

text \<open>\<open>str::split\<close> by a predicate on characters.\<close>

fun split_chars :: "(string \<Rightarrow> bool) \<Rightarrow> string list \<Rightarrow> string list" where
  "split_chars p [] = [[]]"
| "split_chars p (ch # chs) =
     (case split_chars p chs of
        [] \<Rightarrow> []
      | piece # pieces \<Rightarrow> if p ch then [] # piece # pieces else (ch @ piece) # pieces)"

definition trim_quotes :: "string \<Rightarrow> string" where
  "trim_quotes s = rev (dropWhile (\<lambda>c. c = CHR 39) (rev (dropWhile (\<lambda>c. c = CHR 39) s)))"

definition index_term :: "shard_ops \<Rightarrow> 'a text_ext_scheme \<Rightarrow> string \<Rightarrow> string option" where
  "index_term S X tok =
     (let lower = trim_quotes (to_lowercase X tok)
      in if length lower < 2 then None
         else if list_all is_ascii_digit lower then None
         else if lower \<in> set stop_words then None
         else Some (so_stem S lower))"

definition tokenize :: "shard_ops \<Rightarrow> 'a text_ext_scheme \<Rightarrow> string \<Rightarrow> string list" where
  "tokenize S X s =
     List.map_filter (index_term S X)
       (split_chars (\<lambda>ch. \<not> is_alphanumeric X ch \<and> ch \<noteq> [CHR 39]) (utf8_chars s))"

section \<open>Building an index\<close>

definition search_index_new :: "shard_ops \<Rightarrow> bref \<Rightarrow> search_index" where
  "search_index_new S network_bref =
     \<lparr>sx_network_bref = bref_display network_bref, sx_doc_count = 0, sx_stemmed = so_stem_mode S, sx_docs = [],
      sx_index = []\<rparr>"

definition TITLE_WEIGHT :: u32 where "TITLE_WEIGHT = 3"

definition add_term :: "u32 \<Rightarrow> string \<Rightarrow> (string, u32) bmap \<Rightarrow> (string, u32) bmap" where
  "add_term w trm freqs = bm_insert trm (unwrap_or (bm_get freqs trm) 0 + w) freqs"

definition node_text_of :: "node \<Rightarrow> string" where
  "node_text_of n = (case bm_get (nd_payload n) ''text'' of Some (TString s) \<Rightarrow> s | _ \<Rightarrow> [])"

definition term_freqs :: "shard_ops \<Rightarrow> 'a text_ext_scheme \<Rightarrow> string \<Rightarrow> string \<Rightarrow> (string, u32) bmap" where
  "term_freqs S X title body =
     fold (add_term 1) (tokenize S X body) (fold (add_term TITLE_WEIGHT) (tokenize S X title) [])"

definition add_posting ::
    "string \<Rightarrow> string \<times> u32 \<Rightarrow> (string, (string \<times> u32) list) bmap \<Rightarrow> (string, (string \<times> u32) list) bmap" where
  "add_posting bid_str entry index =
     (case entry of (trm, freq) \<Rightarrow> bm_insert trm (unwrap_or (bm_get index trm) [] @ [(bid_str, freq)]) index)"

definition index_node ::
    "shard_ops \<Rightarrow> 'a text_ext_scheme \<Rightarrow> bid \<Rightarrow> node \<Rightarrow> string \<Rightarrow> search_index \<Rightarrow> search_index" where
  "index_node S X b n path idx =
     (let title = PathOps.trim (nd_title n); body_text = node_text_of n
      in if title = [] \<and> body_text = [] then idx
         else
           let bid_str = bid_display X b;
               freqs = term_freqs S X title body_text
           in if freqs = [] then idx
              else idx\<lparr>sx_docs := bm_insert bid_str
                          \<lparr>id_title = title, id_path = path, id_term_count = sum_list (bm_values freqs)\<rparr> (sx_docs idx),
                        sx_doc_count := sx_doc_count idx + 1,
                        sx_index := fold (add_posting bid_str) freqs (sx_index idx)\<rparr>)"

definition finalize_index :: "shard_ops \<Rightarrow> search_index \<Rightarrow> search_index" where
  "finalize_index S idx = idx\<lparr>sx_index := map (\<lambda>(trm, postings). (trm, so_sort S postings)) (sx_index idx)\<rparr>"

text \<open>The index of a network, from all paths in it and in its subnetworks.\<close>

definition index_entry_of ::
    "shard_ops \<Rightarrow> 'a text_ext_scheme \<Rightarrow> (bid, node) bmap \<Rightarrow> entry \<Rightarrow> search_index \<Rightarrow> search_index" where
  "index_entry_of S X sts e idx =
     (case e of (path, b, _) \<Rightarrow>
        case bm_get sts b of None \<Rightarrow> idx | Some n \<Rightarrow> index_node S X b n path idx)"

definition network_index ::
    "shard_ops \<Rightarrow> 'a text_ext_scheme \<Rightarrow> path_map_map \<Rightarrow> nat \<Rightarrow> (bid, node) bmap \<Rightarrow> bid \<Rightarrow> search_index option" where
  "network_index S X pathmap depth sts net_bid =
     (let net_bref = bref_of X net_bid; idx = search_index_new S net_bref
      in map_option (finalize_index S)
           (case get_map X pathmap net_bref of
              None \<Rightarrow> Some idx
            | Some pm \<Rightarrow>
                map_option (\<lambda>(net_entries, _). fold (index_entry_of S X sts) net_entries idx)
                  (recursive_map X pathmap depth pm [])))"

definition LARGE_INDEX_WARN_BYTES :: nat where "LARGE_INDEX_WARN_BYTES = 5 * 1024 * 1024"

definition net_title ::
    "'a id_ext_scheme \<Rightarrow> (bid, node) bmap \<Rightarrow> bid \<Rightarrow> string" where
  "net_title X sts net_bid =
     (case bm_get sts net_bid of Some n \<Rightarrow> display_title X n | None \<Rightarrow> bref_display (bref_of X net_bid))"

definition large_index_warning :: "shard_ops \<Rightarrow> string \<Rightarrow> nat \<Rightarrow> parse_diagnostic" where
  "large_index_warning S title idx_bytes =
     warning (''Network '' @ [CHR 39] @ title @ [CHR 39] @ '' has a very large search index (''
       @ so_show S (so_div S (so_float S idx_bytes) (so_mul S (so_float S 1024) (so_float S 1024)))
       @ '' MB). Consider splitting it into smaller networks or removing low-value content to keep viewer load times fast.'')"

definition write_index ::
    "shard_ops \<Rightarrow> 'a text_ext_scheme \<Rightarrow> path_map_map \<Rightarrow> nat \<Rightarrow> (bid, node) bmap \<Rightarrow> os_path \<Rightarrow> bid
      \<Rightarrow> (written, network_search_meta \<times> parse_diagnostic list) run" where
  "write_index S X pathmap depth sts search_dir net_bid =
     (case network_index S X pathmap depth sts net_bid of
        None \<Rightarrow> panic
      | Some idx \<Rightarrow>
          and_then (lift_result (so_json_index S idx)) (\<lambda>idx_json.
            let bref_str = bref_display (bref_of X net_bid); idx_filename = bref_str @ ''.idx.json'' in
          and_then (write_file S (search_dir @ [idx_filename]) idx_json) (\<lambda>_.
          ret (\<lparr>nm_bref = bref_str, nm_title = net_title X sts net_bid, nm_path = idx_filename,
                nm_size_kb = so_div S (so_float S (length idx_json)) (so_float S 1024)\<rparr>,
               if LARGE_INDEX_WARN_BYTES \<le> length idx_json
               then [large_index_warning S (net_title X sts net_bid) (length idx_json)] else []))))"

fun write_indices ::
    "shard_ops \<Rightarrow> 'a text_ext_scheme \<Rightarrow> path_map_map \<Rightarrow> nat \<Rightarrow> (bid, node) bmap \<Rightarrow> os_path \<Rightarrow> bid list
      \<Rightarrow> (written, network_search_meta list \<times> parse_diagnostic list) run" where
  "write_indices S X pathmap depth sts search_dir [] = ret ([], [])"
| "write_indices S X pathmap depth sts search_dir (net # nets) =
     and_then (write_index S X pathmap depth sts search_dir net) (\<lambda>(m, ds).
     and_then (write_indices S X pathmap depth sts search_dir nets) (\<lambda>(ms, es).
     ret (m # ms, ds @ es)))"

definition build_search_indices ::
    "shard_ops \<Rightarrow> 'a text_ext_scheme \<Rightarrow> path_map_map \<Rightarrow> nat \<Rightarrow> (bid, node) bmap \<Rightarrow> os_path
      \<Rightarrow> (written, search_manifest \<times> parse_diagnostic list) run" where
  "build_search_indices S X pathmap depth sts output_dir =
     (let search_dir = output_dir @ [''search''] in
     and_then (lift_result (so_mkdir S search_dir)) (\<lambda>_.
     and_then (write_indices S X pathmap depth sts search_dir (n_nets pathmap)) (\<lambda>(metas, diagnostics).
       let manifest = \<lparr>sf_version = ''1.0'', sf_networks = metas\<rparr> in
     and_then (lift_result (so_json_search S manifest)) (\<lambda>manifest_json.
     and_then (write_file S (search_dir @ [''manifest.json'']) manifest_json) (\<lambda>_.
     ret (manifest, diagnostics))))))"

section \<open>Parts of the graph\<close>

record graph_partition =
  gp_global_states :: "bid list"
  gp_global_relations :: bid_graph
  gp_networks :: "(bref \<times> bid) list"
  gp_network_states :: "(bref, bid list) bmap"

text \<open>The first network whose paths lead to a node owns it.\<close>

definition own_node :: "bref \<Rightarrow> entry \<Rightarrow> (bid, bref) bmap \<Rightarrow> (bid, bref) bmap" where
  "own_node net_bref e owners =
     (case e of (_, b, _) \<Rightarrow> if bm_contains owners b then owners else bm_insert b net_bref owners)"

fun node_owners ::
    "'a text_ext_scheme \<Rightarrow> path_map_map \<Rightarrow> nat \<Rightarrow> bid list \<Rightarrow> (bid, bref) bmap \<Rightarrow> (bid, bref) bmap option" where
  "node_owners X pathmap depth [] owners = Some owners"
| "node_owners X pathmap depth (net # nets) owners =
     (case get_map X pathmap (bref_of X net) of
        None \<Rightarrow> node_owners X pathmap depth nets owners
      | Some pm \<Rightarrow>
          (case recursive_map X pathmap depth pm [] of
             None \<Rightarrow> None
           | Some (net_entries, _) \<Rightarrow>
               node_owners X pathmap depth nets (fold (own_node (bref_of X net)) net_entries owners)))"

definition place_state ::
    "(bid, bref) bmap \<Rightarrow> bid \<times> node \<Rightarrow> bid list \<times> (bref, bid list) bmap \<Rightarrow> bid list \<times> (bref, bid list) bmap" where
  "place_state owners entry acc =
     (case (entry, acc) of ((b, n), (global_states, network_states)) \<Rightarrow>
        if Trace \<in> nd_kind n then (bs_insert b global_states, network_states)
        else case bm_get owners b of
               Some net_bref \<Rightarrow>
                 (global_states, bm_insert net_bref (bs_insert b (unwrap_or (bm_get network_states net_bref) [])) network_states)
             | None \<Rightarrow> (bs_insert b global_states, network_states))"

definition is_cross_network :: "(bid, bref) bmap \<Rightarrow> edge \<Rightarrow> bool" where
  "is_cross_network owners e \<longleftrightarrow>
     (case (bm_get owners (e_source e), bm_get owners (e_sink e)) of
        (Some a, Some b) \<Rightarrow> a \<noteq> b | _ \<Rightarrow> True)"

definition partition_graph ::
    "'a text_ext_scheme \<Rightarrow> path_map_map \<Rightarrow> nat \<Rightarrow> belief_graph \<Rightarrow> graph_partition option" where
  "partition_graph X pathmap depth g =
     map_option (\<lambda>bid_to_net.
       case fold (place_state bid_to_net) (states g) ([], []) of
         (global_states, network_states) \<Rightarrow>
           \<lparr>gp_global_states = global_states,
            gp_global_relations = from_edges (filter (is_cross_network bid_to_net) (g_edges (relations g))),
            gp_networks = linorder_class.sort_key fst (map (\<lambda>net. (bref_of X net, net)) (n_nets pathmap)),
            gp_network_states = network_states\<rparr>)
     (node_owners X pathmap depth (n_nets pathmap) [])"

section \<open>Export\<close>

definition estimate_size_mb :: "shard_ops \<Rightarrow> nat \<Rightarrow> 64 word" where
  "estimate_size_mb S serialized_bytes =
     so_div S (so_mul S (so_float S serialized_bytes) (so_div S (so_float S 11) (so_float S 10)))
       (so_mul S (so_float S 1024) (so_float S 1024))"

definition should_shard :: "shard_config \<Rightarrow> nat \<Rightarrow> bool" where
  "should_shard config serialized_bytes \<longleftrightarrow> sc_shard_threshold config \<le> serialized_bytes"

definition SHARD_THRESHOLD :: nat where "SHARD_THRESHOLD = 10 * 1024 * 1024"

definition shard_config_default :: "shard_ops \<Rightarrow> shard_config" where
  "shard_config_default S = \<lparr>sc_shard_threshold = SHARD_THRESHOLD, sc_memory_budget_mb = so_float S 200\<rparr>"

definition network_shard_meta_of ::
    "shard_ops \<Rightarrow> 'a id_ext_scheme \<Rightarrow> bref \<Rightarrow> bid \<Rightarrow> string \<Rightarrow> nat \<Rightarrow> nat \<Rightarrow> nat \<Rightarrow> nat \<Rightarrow> network_shard_meta" where
  "network_shard_meta_of S X r b title node_count relation_count shard_bytes search_index_bytes =
     (let bref_str = bref_display r
      in \<lparr>sm_bref = bref_str, sm_bid = bid_display X b, sm_title = title, sm_node_count = node_count,
          sm_relation_count = relation_count, sm_estimated_size_mb = estimate_size_mb S shard_bytes,
          sm_path = ''networks/'' @ bref_str @ ''.json'',
          sm_search_index_path = ''../search/'' @ bref_str @ ''.idx.json'',
          sm_search_index_size_kb = so_div S (so_float S search_index_bytes) (so_float S 1024)\<rparr>)"

definition from_bid_graph :: "'a id_ext_scheme \<Rightarrow> bid_graph \<Rightarrow> serializable_edge list" where
  "from_bid_graph X g =
     map (\<lambda>e. \<lparr>se_source = bid_display X (e_source e), se_sink = bid_display X (e_sink e), se_weights = e_weights e\<rparr>)
       (g_edges g)"

text \<open>The nodes of a shard under the text of their identity.\<close>

definition shard_states :: "'a id_ext_scheme \<Rightarrow> (bid, node) bmap \<Rightarrow> bid list \<Rightarrow> (string, node) bmap" where
  "shard_states X sts bids =
     bm_from_list (List.map_filter (\<lambda>b. map_option (\<lambda>n. (bid_display X b, n)) (bm_get sts b)) bids)"

definition global_shard_of :: "'a id_ext_scheme \<Rightarrow> belief_graph \<Rightarrow> graph_partition \<Rightarrow> global_shard" where
  "global_shard_of X g P =
     \<lparr>gs_states = shard_states X (states g) (gp_global_states P),
      gs_relations = from_bid_graph X (gp_global_relations P)\<rparr>"

definition net_states :: "graph_partition \<Rightarrow> bref \<Rightarrow> bid list" where
  "net_states P net_bref = unwrap_or (bm_get (gp_network_states P) net_bref) []"

definition network_shard_of ::
    "'a id_ext_scheme \<Rightarrow> belief_graph \<Rightarrow> graph_partition \<Rightarrow> bref \<times> bid \<Rightarrow> network_shard" where
  "network_shard_of X g P net =
     (case net of (net_bref, net_bid) \<Rightarrow>
        \<lparr>ns_network_bref = bref_display net_bref, ns_network_bid = bid_display X net_bid,
         ns_states = shard_states X (states g) (net_states P net_bref),
         ns_relations = from_bid_graph X (graph_filter (relations g) (RNodeIn (net_states P net_bref)) False)\<rparr>)"

definition write_shard ::
    "shard_ops \<Rightarrow> 'a id_ext_scheme \<Rightarrow> belief_graph \<Rightarrow> graph_partition \<Rightarrow> (string, 64 word) bmap \<Rightarrow> os_path \<Rightarrow> bref \<times> bid
      \<Rightarrow> (written, network_shard_meta) run" where
  "write_shard S X g P search_size_lookup networks_dir net =
     (let net_shard = network_shard_of X g P net; bref_str = bref_display (fst net) in
     and_then (lift_result (so_json_network S net_shard)) (\<lambda>shard_json.
     and_then (write_file S (networks_dir @ [bref_str @ ''.json'']) shard_json) (\<lambda>_.
       let title = (case bm_get (states g) (snd net) of Some n \<Rightarrow> display_title X n | None \<Rightarrow> bref_str);
           search_size_kb = unwrap_or (bm_get search_size_lookup bref_str) (so_float S 0)
       in ret (network_shard_meta_of S X (fst net) (snd net) title (length (ns_states net_shard))
                 (length (ns_relations net_shard)) (length shard_json)
                 (so_nat S (so_mul S search_size_kb (so_float S 1024)))))))"

fun write_shards ::
    "shard_ops \<Rightarrow> 'a id_ext_scheme \<Rightarrow> belief_graph \<Rightarrow> graph_partition \<Rightarrow> (string, 64 word) bmap \<Rightarrow> os_path \<Rightarrow> (bref \<times> bid) list
      \<Rightarrow> (written, network_shard_meta list) run" where
  "write_shards S X g P lookup networks_dir [] = ret []"
| "write_shards S X g P lookup networks_dir (net # nets) =
     and_then (write_shard S X g P lookup networks_dir net) (\<lambda>m.
     and_then (write_shards S X g P lookup networks_dir nets) (\<lambda>ms. ret (m # ms)))"

definition shard_manifest_new :: "shard_ops \<Rightarrow> 64 word \<Rightarrow> shard_manifest" where
  "shard_manifest_new S memory_budget_mb =
     \<lparr>sh_version = ''1.0'', sh_sharded = True, sh_memory_budget_mb = memory_budget_mb, sh_networks = [],
      sh_global = \<lparr>gm_node_count = 0, gm_estimated_size_mb = so_float S 0, gm_path = ''global.json''\<rparr>\<rparr>"

definition export_sharded ::
    "shard_ops \<Rightarrow> 'a text_ext_scheme \<Rightarrow> belief_graph \<Rightarrow> path_map_map \<Rightarrow> nat \<Rightarrow> os_path \<Rightarrow> shard_config \<Rightarrow> search_manifest
      \<Rightarrow> (written, shard_manifest) run" where
  "export_sharded S X g pathmap depth output_dir config search =
     (let bb_dir = output_dir @ [''beliefbase'']; networks_dir = bb_dir @ [''networks''] in
     and_then (lift_result (so_mkdir S networks_dir)) (\<lambda>_.
       let lookup = bm_from_list (map (\<lambda>n. (nm_bref n, nm_size_kb n)) (sf_networks search)) in
       case partition_graph X pathmap depth g of
         None \<Rightarrow> panic
       | Some P \<Rightarrow>
           let global_shard = global_shard_of X g P in
           and_then (lift_result (so_json_global S global_shard)) (\<lambda>global_json.
           and_then (write_file S (bb_dir @ [''global.json'']) global_json) (\<lambda>_.
           and_then (write_shards S X g P lookup networks_dir (gp_networks P)) (\<lambda>metas.
             let manifest = (shard_manifest_new S (sc_memory_budget_mb config))
                   \<lparr>sh_networks := metas,
                    sh_global := \<lparr>gm_node_count = length (gs_states global_shard),
                      gm_estimated_size_mb = estimate_size_mb S (length global_json), gm_path = ''global.json''\<rparr>\<rparr> in
           and_then (lift_result (so_json_manifest S manifest)) (\<lambda>manifest_json.
           and_then (write_file S (bb_dir @ [''manifest.json'']) manifest_json) (\<lambda>_.
           ret manifest)))))))"

definition export_beliefbase ::
    "shard_ops \<Rightarrow> 'a text_ext_scheme \<Rightarrow> belief_graph \<Rightarrow> path_map_map \<Rightarrow> nat \<Rightarrow> os_path \<Rightarrow> shard_config \<Rightarrow> search_manifest
      \<Rightarrow> (written, export_mode) run" where
  "export_beliefbase S X g pathmap depth output_dir config search =
     and_then (lift_result (so_json_graph S g)) (\<lambda>json_string.
       let total_bytes = length json_string in
       if should_shard config total_bytes
       then and_then (export_sharded S X g pathmap depth output_dir config search) (\<lambda>manifest. ret (Sharded manifest))
       else and_then (write_file S (output_dir @ [''beliefbase.json'']) json_string) (\<lambda>_.
         ret (Monolithic (estimate_size_mb S total_bytes))))"

end
