(* ===== verification/Viewer.thy ===== *)
theory Viewer
  imports Shards Contexts "HOL-Library.Sublist"
begin

text \<open>
  The viewer in the browser (\<open>wasm.rs\<close>): a store made of an exported graph or of the shards that have been
  loaded, and what pages ask it for, up to the context of a node and the navigation tree.

  The JSON parsers are the fields of \<open>viewer_ops\<close>; the values that cross to JavaScript are the HOL values
  they are made of, \<open>JsValue::NULL\<close> is \<open>None\<close>, and the texts of error messages are replaced by constructors.
\<close>

datatype js_error =
    BadGraph string
  | BadManifest string
  | BadEntryPoint buildonomy_error
  | BadGlobalShard string
  | BadNetworkShard string string
  | RemoveFailed string buildonomy_error

record viewer_ops =
  vo_graph :: "string \<Rightarrow> string + belief_graph"
  vo_manifest :: "string \<Rightarrow> string + unit"
  vo_global :: "string \<Rightarrow> string + global_shard"
  vo_network :: "string \<Rightarrow> string + network_shard"

record 'p viewer =
  vw_inner :: "'p belief_base"
  vw_entry_point :: bid
  vw_loaded :: "(string, bid list) bmap"

section \<open>Loading\<close>

definition entry_point_bid :: "'a id_ext_scheme \<Rightarrow> string \<Rightarrow> js_error + bid" where
  "entry_point_bid X entry_bid_str =
     (case bid_try_from X entry_bid_str of Inl e \<Rightarrow> Inl (BadEntryPoint e) | Inr b \<Rightarrow> Inr b)"

definition from_json ::
    "viewer_ops \<Rightarrow> 'a id_ext_scheme \<Rightarrow> build_env \<Rightarrow> ('p, 'c) path_ops_scheme \<Rightarrow> string \<Rightarrow> string \<Rightarrow> js_error + 'p viewer" where
  "from_json J X env P json entry_bid_str =
     (case vo_graph J json of
        Inl e \<Rightarrow> Inl (BadGraph e)
      | Inr graph \<Rightarrow>
          map_sum id (\<lambda>entry. \<lparr>vw_inner = base_from X env P graph, vw_entry_point = entry, vw_loaded = []\<rparr>)
            (entry_point_bid X entry_bid_str))"

definition from_manifest ::
    "viewer_ops \<Rightarrow> 'a id_ext_scheme \<Rightarrow> build_env \<Rightarrow> ('p, 'c) path_ops_scheme \<Rightarrow> string \<Rightarrow> string \<Rightarrow> js_error + 'p viewer" where
  "from_manifest J X env P manifest_json entry_bid_str =
     (case vo_manifest J manifest_json of
        Inl e \<Rightarrow> Inl (BadManifest e)
      | Inr _ \<Rightarrow>
          map_sum id (\<lambda>entry. \<lparr>vw_inner = base_default X env P, vw_entry_point = entry, vw_loaded = []\<rparr>)
            (entry_point_bid X entry_bid_str))"

text \<open>The relations of a shard; those whose ends are no identities are left out.\<close>

definition edge_of_wire :: "'a id_ext_scheme \<Rightarrow> serializable_edge \<Rightarrow> edge option" where
  "edge_of_wire X e =
     (case (ok_of (bid_try_from X (se_source e)), ok_of (bid_try_from X (se_sink e))) of
        (Some src, Some snk) \<Rightarrow> Some (src, snk, se_weights e)
      | _ \<Rightarrow> None)"

definition shard_content ::
    "viewer_ops \<Rightarrow> 'a id_ext_scheme \<Rightarrow> string \<Rightarrow> string \<Rightarrow> js_error + (string, node) bmap \<times> edge list" where
  "shard_content J X bref_key shard_json =
     (if bref_key = ''global''
      then case vo_global J shard_json of
             Inl e \<Rightarrow> Inl (BadGlobalShard e)
           | Inr shard \<Rightarrow> Inr (gs_states shard, List.map_filter (edge_of_wire X) (gs_relations shard))
      else case vo_network J shard_json of
             Inl e \<Rightarrow> Inl (BadNetworkShard bref_key e)
           | Inr shard \<Rightarrow> Inr (ns_states shard, List.map_filter (edge_of_wire X) (ns_relations shard)))"

definition shard_bids :: "'a id_ext_scheme \<Rightarrow> (string, node) bmap \<Rightarrow> bid list" where
  "shard_bids X sts = bs_from_list (List.map_filter (ok_of \<circ> bid_try_from X) (bm_keys sts))"

definition shard_graph :: "'a id_ext_scheme \<Rightarrow> (string, node) bmap \<Rightarrow> edge list \<Rightarrow> belief_graph" where
  "shard_graph X sts edges =
     \<lparr>states = bm_from_list (List.map_filter (\<lambda>(k, n). map_option (\<lambda>b. (b, n)) (ok_of (bid_try_from X k))) sts),
      relations = from_edges edges\<rparr>"

definition node_count :: "'p viewer \<Rightarrow> nat" where
  "node_count V = length (bb_states (vw_inner V))"

text \<open>
  A node that another loaded shard has too stays. The outer \<open>None\<close> is a panic of the store; the caller gets
  the new state also when the operation fails, since it works on cells.
\<close>

definition unload_shard ::
    "'a query_ext_scheme \<Rightarrow> build_env \<Rightarrow> ('p, 'c) base_ops_scheme \<Rightarrow> discover \<Rightarrow> string \<Rightarrow> 'p viewer
      \<Rightarrow> ('p viewer \<times> (js_error + nat)) option" where
  "unload_shard X env P D bref_key V =
     (case bm_get (vw_loaded V) bref_key of
        None \<Rightarrow> Some (V, Inr (node_count V))
      | Some bids \<Rightarrow>
          let V = V\<lparr>vw_loaded := bm_remove bref_key (vw_loaded V)\<rparr>;
              still_needed = concat (bm_values (vw_loaded V));
              to_remove = filter (\<lambda>b. b \<notin> set still_needed) bids
          in if to_remove = [] then Some (V, Inr (node_count V))
             else case process_event X env P D (vw_inner V) (NodesRemoved to_remove Remote) of
                    None \<Rightarrow> None
                  | Some (Inl e) \<Rightarrow> Some (V, Inl (RemoveFailed bref_key e))
                  | Some (Inr (B, _)) \<Rightarrow> let V = V\<lparr>vw_inner := B\<rparr> in Some (V, Inr (node_count V)))"

definition put_shard ::
    "viewer_ops \<Rightarrow> 'a id_ext_scheme \<Rightarrow> ('p, 'c) base_ops_scheme
      \<Rightarrow> discover \<times> ((bid \<times> bid) list \<Rightarrow> bid list \<Rightarrow> (bid \<times> bid) list) \<Rightarrow> string \<Rightarrow> string \<Rightarrow> 'p viewer
      \<Rightarrow> 'p viewer \<times> (js_error + nat)" where
  "put_shard J X P DT bref_key shard_json V =
     (case shard_content J X bref_key shard_json of
        Inl e \<Rightarrow> (V, Inl e)
      | Inr (sts, edges) \<Rightarrow>
          let V = V\<lparr>vw_inner := merge_graph X P DT (shard_graph X sts edges) None (vw_inner V),
                    vw_loaded := bm_insert bref_key (shard_bids X sts) (vw_loaded V)\<rparr>
          in (V, Inr (node_count V)))"

definition load_shard ::
    "viewer_ops \<Rightarrow> 'a query_ext_scheme \<Rightarrow> build_env \<Rightarrow> ('p, 'c) base_ops_scheme
      \<Rightarrow> discover \<times> ((bid \<times> bid) list \<Rightarrow> bid list \<Rightarrow> (bid \<times> bid) list) \<Rightarrow> string \<Rightarrow> string \<Rightarrow> 'p viewer
      \<Rightarrow> ('p viewer \<times> (js_error + nat)) option" where
  "load_shard J X env P DT bref_key shard_json V =
     (if bm_contains (vw_loaded V) bref_key
      then case unload_shard X env P (fst DT) bref_key V of
             None \<Rightarrow> None
           | Some (V, Inl e) \<Rightarrow> Some (V, Inl e)
           | Some (V, Inr _) \<Rightarrow> Some (put_shard J X P DT bref_key shard_json V)
      else Some (put_shard J X P DT bref_key shard_json V))"

definition loaded_shards :: "'p viewer \<Rightarrow> string list" where
  "loaded_shards V = bm_keys (vw_loaded V)"

definition memory_usage_mb :: "shard_ops \<Rightarrow> 'p viewer \<Rightarrow> 64 word" where
  "memory_usage_mb S V =
     so_div S (so_mul S (so_float S (node_count V)) (so_float S 2048)) (so_mul S (so_float S 1024) (so_float S 1024))"

section \<open>Lookups\<close>

definition has_bid :: "'a id_ext_scheme \<Rightarrow> 'p viewer \<Rightarrow> string \<Rightarrow> bool" where
  "has_bid X V bid_str =
     (case bid_try_from X bid_str of Inr b \<Rightarrow> bm_contains (bb_states (vw_inner V)) b | Inl _ \<Rightarrow> False)"

definition get_by_bid :: "'a id_ext_scheme \<Rightarrow> ('p, 'c) path_ops_scheme \<Rightarrow> 'p viewer \<Rightarrow> string \<Rightarrow> node option" where
  "get_by_bid X P V bid_str =
     (case bid_try_from X bid_str of Inl _ \<Rightarrow> None | Inr b \<Rightarrow> base_get P (index_sync (vw_inner V)) (KBid b))"

definition query ::
    "'a query_ext_scheme \<Rightarrow> ('p, 'c) path_ops_scheme \<Rightarrow> discover \<Rightarrow> 'p viewer \<Rightarrow> expression \<Rightarrow> belief_graph" where
  "query X P D V expr = evaluate_expression X P D (index_sync (vw_inner V)) expr"

text \<open>A search by a part of the title or of the identifier of a node.\<close>

definition found_by :: "'a text_ext_scheme \<Rightarrow> string \<Rightarrow> node \<Rightarrow> bool" where
  "found_by X query_lower n \<longleftrightarrow>
     sublist query_lower (to_lowercase X (nd_title n))
     \<or> (case bm_get (nd_payload n) ''id'' of
          Some (TString i) \<Rightarrow> sublist query_lower (to_lowercase X i) | _ \<Rightarrow> False)"

definition search :: "'a text_ext_scheme \<Rightarrow> 'p viewer \<Rightarrow> string \<Rightarrow> node list" where
  "search X V q = filter (found_by X (to_lowercase X q)) (bm_values (bb_states (vw_inner V)))"

definition get_bid_from_bref :: "'a id_ext_scheme \<Rightarrow> 'p viewer \<Rightarrow> string \<Rightarrow> string option" where
  "get_bid_from_bref X V bref_str =
     (case bref_try_from X bref_str of
        Inl _ \<Rightarrow> None
      | Inr r \<Rightarrow> map_option (bid_display X) (bm_get (bb_brefs (vw_inner V)) r))"

definition get_bref_from_bid :: "'a id_ext_scheme \<Rightarrow> string \<Rightarrow> string option" where
  "get_bref_from_bid X bid_str =
     (case bid_try_from X bid_str of Inl _ \<Rightarrow> None | Inr b \<Rightarrow> Some (bref_display (bref_of X b)))"

record bid_bref_result =
  br_bid :: string
  br_bref :: string

definition bid_bref_of :: "'a id_ext_scheme \<Rightarrow> bid \<Rightarrow> bid_bref_result" where
  "bid_bref_of X b = \<lparr>br_bid = bid_display X b, br_bref = bref_display (bref_of X b)\<rparr>"

definition entry_point :: "'a id_ext_scheme \<Rightarrow> 'p viewer \<Rightarrow> bid_bref_result" where
  "entry_point X V = bid_bref_of X (vw_entry_point V)"

definition get_bid_from_id ::
    "'a id_ext_scheme \<Rightarrow> ('p, 'c) path_ops_scheme \<Rightarrow> 'p viewer \<Rightarrow> string \<Rightarrow> string \<Rightarrow> bid_bref_result option" where
  "get_bid_from_id X P V net_bref i =
     (case bref_try_from X net_bref of
        Inl _ \<Rightarrow> None
      | Inr r \<Rightarrow> map_option (bid_bref_of X) (pm_net_id P (bb_paths (index_sync (vw_inner V))) r i))"

definition get_networks ::
    "'a query_ext_scheme \<Rightarrow> ('p, 'c) path_ops_scheme \<Rightarrow> discover \<Rightarrow> 'p viewer \<Rightarrow> node list" where
  "get_networks X P D V = bm_values (states (query X P D V (StateIn (PKind {Network}))))"

definition get_documents ::
    "'a query_ext_scheme \<Rightarrow> ('p, 'c) path_ops_scheme \<Rightarrow> discover \<Rightarrow> 'p viewer \<Rightarrow> node list" where
  "get_documents X P D V = bm_values (states (query X P D V (StateIn (PKind {Document}))))"

section \<open>Paths for pages\<close>

record path_parts_view =
  pv_original :: string
  pv_path :: string
  pv_filename :: string
  pv_anchor :: string
  pv_has_schema :: bool
  pv_schema :: string

definition path_parts_of :: "string \<Rightarrow> path_parts_view" where
  "path_parts_of path =
     (let ap = ap_new path
      in \<lparr>pv_original = path, pv_path = dir ap, pv_filename = filename ap, pv_anchor = anchor ap,
          pv_has_schema = has_schema ap, pv_schema = schema ap\<rparr>)"

definition parts_canonicalize :: "'a text_ext_scheme \<Rightarrow> path_parts_view \<Rightarrow> string" where
  "parts_canonicalize X v = canonicalize X (ap_new (pv_original v))"

definition parts_filepath :: "path_parts_view \<Rightarrow> string" where
  "parts_filepath v = filepath (ap_new (pv_original v))"

definition normalize_path :: "string \<Rightarrow> string" where
  "normalize_path path = ap_path (normalize (ap_new path))"

definition path_join :: "'a text_ext_scheme \<Rightarrow> string \<Rightarrow> string \<Rightarrow> bool \<Rightarrow> string" where
  "path_join X base end_ref end_is_anchor =
     ap_path (join X (ap_new base)
       (if end_is_anchor \<and> \<not> starts_with end_ref ''#'' then ''#'' @ end_ref else end_ref))"

definition path_extension :: "string \<Rightarrow> string" where "path_extension path = ext (ap_new path)"
definition path_parent :: "string \<Rightarrow> string" where "path_parent path = ap_path (parent (ap_new path))"
definition path_filestem :: "string \<Rightarrow> string" where "path_filestem path = filestem (ap_new path)"

text \<open>Where the page of a source file is.\<close>

definition normalize_path_extension :: "'a text_ext_scheme \<Rightarrow> 'f codec_map \<Rightarrow> string \<Rightarrow> string" where
  "normalize_path_extension X codecs path =
     (let ap = ap_new path
      in if ext ap = []
         then if path = [] then ''index.html'' else ap_path (join X ap ''index.html'')
         else if ext ap = ''html'' then ap_path ap
         else if codec_get codecs ap \<noteq> None then replace_extension X ap ''html''
         else ap_path ap)"

section \<open>The context of a node\<close>

record related_node =
  rn_node :: node
  rn_home_net :: bid
  rn_root_path :: string
  rn_link_title :: "string option"

record node_context =
  nx_node :: node
  nx_root_path :: string
  nx_home_net :: bid
  nx_related_nodes :: "(bid, related_node) bmap"
  nx_graph :: "(weight_kind, bid list \<times> bid list) bmap"

type_synonym graph_map = "(weight_kind, (bid \<times> u16) list \<times> (bid \<times> u16) list) bmap"

definition related_of :: "'a text_ext_scheme \<Rightarrow> 'f codec_map \<Rightarrow> extended_relation \<Rightarrow> related_node" where
  "related_of X codecs r =
     \<lparr>rn_node = er_other r, rn_home_net = er_home_net r,
      rn_root_path = normalize_path_extension X codecs (er_root_path r), rn_link_title = er_link_title r\<rparr>"

definition note_source :: "bid \<Rightarrow> weight_kind \<times> weight \<Rightarrow> graph_map \<Rightarrow> graph_map" where
  "note_source b kw m =
     (case kw of (kind, w) \<Rightarrow> case unwrap_or (bm_get m kind) ([], []) of (srcs, snks) \<Rightarrow>
        bm_insert kind (srcs @ [(b, unwrap_or (sort_key w) 0)], snks) m)"

definition note_sink :: "bid \<Rightarrow> weight_kind \<times> weight \<Rightarrow> graph_map \<Rightarrow> graph_map" where
  "note_sink b kw m =
     (case kw of (kind, w) \<Rightarrow> case unwrap_or (bm_get m kind) ([], []) of (srcs, snks) \<Rightarrow>
        bm_insert kind (srcs, snks @ [(b, unwrap_or (sort_key w) 0)]) m)"

definition sorted_graph :: "graph_map \<Rightarrow> (weight_kind, bid list \<times> bid list) bmap" where
  "sorted_graph m =
     map (\<lambda>(kind, srcs, snks).
       (kind, map fst (linorder_class.sort_key snd srcs), map fst (linorder_class.sort_key snd snks))) m"

definition node_context_of ::
    "'a text_ext_scheme \<Rightarrow> ('p, 'c) builder_ops_scheme \<Rightarrow> 'f codec_map \<Rightarrow> 'p belief_context \<Rightarrow> node_context" where
  "node_context_of X P codecs ctx =
     (let srcs = sources X P ctx; snks = sinks X P ctx;
          put_related = (\<lambda>r. bm_insert (nd_bid (er_other r)) (related_of X codecs r));
          graph = fold (\<lambda>r. fold (note_source (nd_bid (er_other r))) (weights (er_weight r))) srcs [];
          graph = fold (\<lambda>r. fold (note_sink (nd_bid (er_other r))) (weights (er_weight r))) snks graph
      in \<lparr>nx_node = bc_node ctx, nx_root_path = normalize_path_extension X codecs (bc_root_path ctx),
          nx_home_net = bc_home_net ctx, nx_related_nodes = fold put_related snks (fold put_related srcs []),
          nx_graph = sorted_graph graph\<rparr>)"

text \<open>The outer \<open>None\<close> is the panic of \<open>get_context\<close>.\<close>

definition extract_node_context ::
    "'a text_ext_scheme \<Rightarrow> ('p, 'c) builder_ops_scheme \<Rightarrow> 'f codec_map \<Rightarrow> 'p viewer \<Rightarrow> bid \<Rightarrow> bid
      \<Rightarrow> node_context option option" where
  "extract_node_context X P codecs V ns b =
     map_option (map_option (node_context_of X P codecs)) (get_context X P (vw_inner V) ns b)"

fun first_context ::
    "'a text_ext_scheme \<Rightarrow> ('p, 'c) builder_ops_scheme \<Rightarrow> 'f codec_map \<Rightarrow> 'p viewer \<Rightarrow> bid list \<Rightarrow> bid
      \<Rightarrow> node_context option option" where
  "first_context X P codecs V [] b = Some None"
| "first_context X P codecs V (ns # nss) b =
     (case extract_node_context X P codecs V ns b of
        None \<Rightarrow> None
      | Some (Some c) \<Rightarrow> Some (Some c)
      | Some None \<Rightarrow> first_context X P codecs V nss b)"

definition viewer_context ::
    "'a text_ext_scheme \<Rightarrow> ('p, 'c) builder_ops_scheme \<Rightarrow> 'f codec_map \<Rightarrow> 'p viewer \<Rightarrow> string
      \<Rightarrow> node_context option option" where
  "viewer_context X P codecs V bid_str =
     (case bid_try_from X bid_str of
        Inl _ \<Rightarrow> Some None
      | Inr b \<Rightarrow> first_context X P codecs V [vw_entry_point V, href_namespace, asset_namespace] b)"

section \<open>The navigation tree\<close>

text \<open>
  The path of every node in every network, as a table from paths to identities. Here and below the store
  has the path maps of \<open>Pathmaps\<close>, and \<open>depth\<close> bounds how far subnetworks are followed; \<open>None\<close> is a
  search that goes deeper or a panic.
\<close>

definition get_paths ::
    "'a id_ext_scheme \<Rightarrow> path_map_map viewer \<Rightarrow> (string, (string, string) bmap) bmap" where
  "get_paths X V =
     (let paths = bb_paths (index_sync (vw_inner V))
      in fold (\<lambda>net_bid result.
           case bm_get (n_map paths) (bref_of X net_bid) of
             None \<Rightarrow> result
           | Some pm \<Rightarrow>
               bm_insert (bid_display X net_bid)
                 (fold (\<lambda>(path, b, _). bm_insert path (bid_display X b)) (p_map pm) []) result)
         (n_nets paths) [])"

record nav_node =
  nv_bid :: string
  nv_title :: string
  nv_path :: string
  nv_parent :: "string option"
  nv_children :: "string list"
  nv_is_network :: bool
  nv_is_document :: bool

record nav_tree =
  nt_nodes :: "(string, nav_node) bmap"
  nt_roots :: "string list"

text \<open>First pass: the networks that another network lists, at any depth.\<close>

definition subnets_of ::
    "'a text_ext_scheme \<Rightarrow> path_map_map \<Rightarrow> nat \<Rightarrow> bid \<Rightarrow> path_map \<Rightarrow> (bid, string) bmap \<Rightarrow> (bid, string) bmap option" where
  "subnets_of X paths depth net_bid pm subnets =
     map_option (\<lambda>(entries, _).
       fold (\<lambda>(path, b, _) m. if b \<in> set (n_nets paths) \<and> b \<noteq> net_bid then bm_insert b path m else m) entries subnets)
       (recursive_map X paths depth pm [])"

fun subnet_prefixes ::
    "'a text_ext_scheme \<Rightarrow> path_map_map \<Rightarrow> nat \<Rightarrow> (bref, bid) bmap \<Rightarrow> (bref \<times> path_map) list \<Rightarrow> (bid, string) bmap
      \<Rightarrow> (bid, string) bmap option" where
  "subnet_prefixes X paths depth brefs [] subnets = Some subnets"
| "subnet_prefixes X paths depth brefs ((net_bref, pm) # maps) subnets =
     (case bm_get brefs net_bref of
        None \<Rightarrow> subnet_prefixes X paths depth brefs maps subnets
      | Some net_bid \<Rightarrow>
          if is_reserved X net_bid then subnet_prefixes X paths depth brefs maps subnets
          else Option.bind (subnets_of X paths depth net_bid pm subnets)
                 (subnet_prefixes X paths depth brefs maps))"

text \<open>
  The stack holds the nodes that may get children, the innermost first, with their depths; its last element,
  the network, stays.
\<close>

fun pop_to :: "nat \<Rightarrow> (string \<times> nat) list \<Rightarrow> (string \<times> nat) list" where
  "pop_to depth (e # f # es) = (if depth \<le> snd e then pop_to depth (f # es) else e # f # es)"
| "pop_to depth es = es"

definition add_child :: "string \<Rightarrow> string \<Rightarrow> (string, nav_node) bmap \<Rightarrow> (string, nav_node) bmap" where
  "add_child p c tbl =
     (case bm_get tbl p of
        None \<Rightarrow> tbl
      | Some n \<Rightarrow> bm_insert p (n\<lparr>nv_children := nv_children n @ [c]\<rparr>) tbl)"

text \<open>
  An order that ends with the largest index is the second path of a network; one index before the end it is a
  section of the page of a network, which is a child of the network itself.
\<close>

definition is_index_alias :: "u16 list \<Rightarrow> bool" where
  "is_index_alias order \<longleftrightarrow> order \<noteq> [] \<and> order ! (length order - 1) = 2 ^ 16 - 1"

definition nav_depth :: "u16 list \<Rightarrow> nat" where
  "nav_depth order =
     (if 1 < length order \<and> order ! (length order - 2) = 2 ^ 16 - 1 then length order - 1 else length order)"

definition nav_entry ::
    "'a text_ext_scheme \<Rightarrow> 'f codec_map \<Rightarrow> (bid, node) bmap \<Rightarrow> string \<Rightarrow> entry
      \<Rightarrow> (string, nav_node) bmap \<times> (string \<times> nat) list \<Rightarrow> (string, nav_node) bmap \<times> (string \<times> nat) list" where
  "nav_entry X codecs sts network_bid_str e acc =
     (case (e, acc) of ((path, b, order), (nodes_map, stack)) \<Rightarrow>
        let bid_str = bid_display X b
        in if bid_str = network_bid_str then acc
           else if is_index_alias order then acc
           else
             let depth = nav_depth order;
                 (node_title, node_kind) =
                   (case bm_get sts b of Some n \<Rightarrow> (nd_title n, nd_kind n) | None \<Rightarrow> (path, {}));
                 stack = pop_to depth stack;
                 parent_bid = fst (hd stack);
                 new_node = \<lparr>nv_bid = bid_str, nv_title = node_title, nv_path = normalize_path_extension X codecs path,
                   nv_parent = Some parent_bid, nv_children = [], nv_is_network = kind_is_network node_kind,
                   nv_is_document = kind_is_document node_kind\<rparr>
             in if bm_contains nodes_map bid_str then (nodes_map, stack)
                else (add_child parent_bid bid_str (bm_insert bid_str new_node nodes_map), (bid_str, depth) # stack))"

definition network_node ::
    "'a text_ext_scheme \<Rightarrow> 'f codec_map \<Rightarrow> (bid, node) bmap \<Rightarrow> bid \<Rightarrow> string \<Rightarrow> nav_node" where
  "network_node X codecs sts net_bid net_root_path =
     (let net_kind = (case bm_get sts net_bid of Some n \<Rightarrow> nd_kind n | None \<Rightarrow> {})
      in \<lparr>nv_bid = bid_display X net_bid,
          nv_title = (case bm_get sts net_bid of Some n \<Rightarrow> nd_title n | None \<Rightarrow> bid_display X net_bid),
          nv_path = net_root_path, nv_parent = None, nv_children = [],
          nv_is_network = kind_is_network net_kind, nv_is_document = kind_is_document net_kind\<rparr>)"

text \<open>The table of one network.\<close>

definition nav_network ::
    "'a text_ext_scheme \<Rightarrow> 'f codec_map \<Rightarrow> path_map_map \<Rightarrow> nat \<Rightarrow> (bid, node) bmap \<Rightarrow> bid \<Rightarrow> path_map \<Rightarrow> bid list
      \<Rightarrow> ((string, nav_node) bmap \<times> bid list) option" where
  "nav_network X codecs paths depth sts net_bid pm visited =
     (case pm_path X paths depth pm net_bid of
        None \<Rightarrow> None
      | Some found \<Rightarrow>
          let net_root_path = (case found of
                None \<Rightarrow> [] | Some (_, raw_path, _) \<Rightarrow> normalize_path_extension X codecs raw_path);
              network_bid_str = bid_display X net_bid
          in map_option (\<lambda>(entries, visited).
               (fst (fold (nav_entry X codecs sts network_bid_str) entries
                  ([(network_bid_str, network_node X codecs sts net_bid net_root_path)], [(network_bid_str, 0)])),
                visited))
               (recursive_map X paths depth pm visited))"

text \<open>What is done to a node of a network before it goes into the table of all networks.\<close>

definition without_self :: "string \<Rightarrow> string \<Rightarrow> nav_node \<Rightarrow> nav_node" where
  "without_self network_bid_str b n =
     (let n = (if b = network_bid_str
               then n\<lparr>nv_children := filter (\<lambda>c. c \<noteq> network_bid_str) (nv_children n)\<rparr> else n)
      in if nv_parent n = Some (nv_bid n) then n\<lparr>nv_parent := None\<rparr> else n)"

fun nav_networks ::
    "'a text_ext_scheme \<Rightarrow> 'f codec_map \<Rightarrow> path_map_map \<Rightarrow> nat \<Rightarrow> (bid, node) bmap \<Rightarrow> (bref, bid) bmap
      \<Rightarrow> (bid, string) bmap \<Rightarrow> (bref \<times> path_map) list \<Rightarrow> bid list \<Rightarrow> nav_tree \<Rightarrow> nav_tree option" where
  "nav_networks X codecs paths depth sts brefs subnets [] visited tree = Some tree"
| "nav_networks X codecs paths depth sts brefs subnets ((net_bref, pm) # maps) visited tree =
     (case bm_get brefs net_bref of
        None \<Rightarrow> nav_networks X codecs paths depth sts brefs subnets maps visited tree
      | Some net_bid \<Rightarrow>
          if is_reserved X net_bid \<or> bm_contains subnets net_bid
          then nav_networks X codecs paths depth sts brefs subnets maps visited tree
          else case nav_network X codecs paths depth sts net_bid pm visited of
              None \<Rightarrow> None
            | Some (nodes_map, visited) \<Rightarrow>
                let network_bid_str = bid_display X net_bid
                in nav_networks X codecs paths depth sts brefs subnets maps visited
                     \<lparr>nt_nodes = fold (\<lambda>(b, n). bm_insert b (without_self network_bid_str b n)) nodes_map (nt_nodes tree),
                      nt_roots = nt_roots tree @ [network_bid_str]\<rparr>)"

definition get_nav_tree ::
    "'a text_ext_scheme \<Rightarrow> 'f codec_map \<Rightarrow> nat \<Rightarrow> path_map_map viewer \<Rightarrow> nav_tree option" where
  "get_nav_tree X codecs depth V =
     (let B = index_sync (vw_inner V); paths = bb_paths B
      in Option.bind (subnet_prefixes X paths depth (bb_brefs B) (n_map paths) [])
           (\<lambda>subnets. nav_networks X codecs paths depth (bb_states B) (bb_brefs B) subnets (n_map paths) []
              \<lparr>nt_nodes = [], nt_roots = []\<rparr>))"

end
