(* ===== verification/ShardProps.thy ===== *)
theory ShardProps
  imports Shards
begin

text \<open>
  What makes the export correct: an index lists exactly the documents of a term with their weights, and each node
  of the graph is exported once.
\<close>

section \<open>Term frequencies\<close>

lemma add_terms_get:
  "bm_get (fold (add_term w) ts m) t =
     (if t \<in> set ts then Some (unwrap_or (bm_get m t) 0 + w * of_nat (count_list ts t)) else bm_get m t)"
  by (induction ts arbitrary: m) (auto simp: add_term_def algebra_simps)

definition title_terms :: "shard_ops \<Rightarrow> 'a text_ext_scheme \<Rightarrow> node \<Rightarrow> string list" where
  "title_terms S X n = tokenize S X (PathOps.trim (nd_title n))"

definition body_terms :: "shard_ops \<Rightarrow> 'a text_ext_scheme \<Rightarrow> node \<Rightarrow> string list" where
  "body_terms S X n = tokenize S X (node_text_of n)"

definition node_freqs :: "shard_ops \<Rightarrow> 'a text_ext_scheme \<Rightarrow> node \<Rightarrow> (string, u32) bmap" where
  "node_freqs S X n = term_freqs S X (PathOps.trim (nd_title n)) (node_text_of n)"

lemma node_freqs_get:
  "bm_get (node_freqs S X n) t =
     (if t \<in> set (title_terms S X n) \<or> t \<in> set (body_terms S X n)
      then Some (3 * of_nat (count_list (title_terms S X n) t) + of_nat (count_list (body_terms S X n) t)) else None)"
  by (auto simp: node_freqs_def term_freqs_def add_terms_get title_terms_def body_terms_def TITLE_WEIGHT_def
      count_list_0_iff)

lemma count_list_length: "count_list xs x \<le> length xs"
  by (induction xs) auto

section \<open>Postings\<close>

definition postings :: "search_index \<Rightarrow> string \<Rightarrow> (string \<times> u32) list" where
  "postings idx t = unwrap_or (bm_get (sx_index idx) t) []"

definition posting ::
    "shard_ops \<Rightarrow> 'a text_ext_scheme \<Rightarrow> (bid, node) bmap \<Rightarrow> string \<Rightarrow> entry \<Rightarrow> (string \<times> u32) option" where
  "posting S X sts t e =
     (case e of (path, b, _) \<Rightarrow>
        Option.bind (bm_get sts b) (\<lambda>n. map_option (\<lambda>f. (bid_display X b, f)) (bm_get (node_freqs S X n) t)))"

lemma no_terms: "tokenize S X [] = []"
  by (simp add: tokenize_def index_term_def trim_quotes_def to_lowercase_def Let_def map_filter_simps)

lemma empty_node: "PathOps.trim (nd_title n) = [] \<Longrightarrow> node_text_of n = [] \<Longrightarrow> node_freqs S X n = []"
  by (simp add: node_freqs_def term_freqs_def no_terms)

lemma index_node_eq:
  "index_node S X b n path idx =
     (if node_freqs S X n = [] then idx
      else idx\<lparr>sx_docs := bm_insert (bid_display X b)
                 \<lparr>id_title = PathOps.trim (nd_title n), id_path = path, id_term_count = sum_list (bm_values (node_freqs S X n))\<rparr>
                 (sx_docs idx),
               sx_doc_count := sx_doc_count idx + 1,
               sx_index := fold (add_posting (bid_display X b)) (node_freqs S X n) (sx_index idx)\<rparr>)"
  using empty_node [of n S X] by (auto simp: index_node_def node_freqs_def Let_def)

lemma add_postings_get:
  "distinct (map fst freqs) \<Longrightarrow>
     unwrap_or (bm_get (fold (add_posting d) freqs index) t) []
     = unwrap_or (bm_get index t) [] @ (case map_of freqs t of None \<Rightarrow> [] | Some f \<Rightarrow> [(d, f)])"
proof (induction freqs arbitrary: index)
  case (Cons e freqs)
  obtain u f where e: "e = (u, f)" by (cases e)
  have "map_of freqs u = None" using Cons.prems by (simp add: e map_of_eq_None_iff)
  with Cons e show ?case by (auto simp: add_posting_def split: option.splits)
qed simp

lemma terms_distinct: "distinct (map fst (node_freqs S X n))"
proof -
  have "bm_ok m \<Longrightarrow> bm_ok (fold (add_term w) ts m)" for m :: "(string, u32) bmap" and w ts
    by (induction ts arbitrary: m) (auto simp: add_term_def)
  then have "bm_ok (node_freqs S X n)" by (simp add: node_freqs_def term_freqs_def bm_ok_def)
  then show ?thesis by (simp only: bm_ok_def strict_sorted_iff)
qed

lemma index_entry_postings:
  "postings (index_entry_of S X sts e idx) t
     = postings idx t @ (case posting S X sts t e of None \<Rightarrow> [] | Some p \<Rightarrow> [p])"
proof -
  obtain path b order where e: "e = (path, b, order)" by (cases e)
  show ?thesis
  proof (cases "bm_get sts b")
    case (Some n)
    then show ?thesis
      using add_postings_get [OF terms_distinct [of S X n], of "bid_display X b" "sx_index idx" t]
      by (auto simp: e index_entry_of_def index_node_eq postings_def posting_def bm_get_def split: option.splits)
  qed (simp add: e index_entry_of_def posting_def)
qed

lemma index_entries_postings:
  "postings (fold (index_entry_of S X sts) es idx) t = postings idx t @ List.map_filter (posting S X sts t) es"
  by (induction es arbitrary: idx) (auto simp: index_entry_postings map_filter_simps split: option.splits)

text \<open>The contract of the sort, which says nothing of the order of equal frequencies.\<close>

definition sorts_by_frequency :: "shard_ops \<Rightarrow> bool" where
  "sorts_by_frequency S \<longleftrightarrow>
     (\<forall>ps. mset (so_sort S ps) = mset ps \<and> sorted_wrt (\<lambda>p q. snd q \<le> snd p) (so_sort S ps))"

lemma finalized_postings:
  assumes "sorts_by_frequency S"
  shows "mset (postings (finalize_index S idx) t) = mset (postings idx t)
    \<and> sorted_wrt (\<lambda>p q. snd q \<le> snd p) (postings (finalize_index S idx) t)"
proof -
  have "bm_get (sx_index (finalize_index S idx)) t = map_option (so_sort S) (bm_get (sx_index idx) t)"
    by (simp add: finalize_index_def bm_get_def map_of_map)
  with assms show ?thesis
    by (cases "bm_get (sx_index idx) t") (simp_all add: postings_def sorts_by_frequency_def)
qed

text \<open>
  C35. The index of a network lists under a term the entries of its paths, and of those of its subnetworks, whose node
  has the term, each once per path with its frequency there, the most frequent first.
\<close>

theorem search_index_exact:
  assumes "network_index S X pathmap depth sts net = Some idx" "get_map X pathmap (bref_of X net) = Some pm"
    "recursive_map X pathmap depth pm [] = Some (es, visited)" "sorts_by_frequency S"
  shows "mset (postings idx t) = mset (List.map_filter (posting S X sts t) es)
    \<and> sorted_wrt (\<lambda>p q. snd q \<le> snd p) (postings idx t)"
proof -
  have idx: "idx = finalize_index S (fold (index_entry_of S X sts) es (search_index_new S (bref_of X net)))"
    using assms(1-3) by (simp add: network_index_def Let_def)
  have "postings (search_index_new S (bref_of X net)) t = []"
    by (simp add: postings_def search_index_new_def)
  then show ?thesis
    using finalized_postings [OF assms(4)] by (simp add: idx index_entries_postings)
qed

text \<open>
  A posting carries three times the occurrences of the term in the title and once those in the text, if the words
  of the document can be counted in 32 bits.
\<close>

theorem posting_frequency:
  assumes "posting S X sts t (path, b, order) = Some (d, f)" "bm_get sts b = Some n"
    "3 * length (title_terms S X n) + length (body_terms S X n) < 2 ^ 32"
  shows "d = bid_display X b
    \<and> unat f = 3 * count_list (title_terms S X n) t + count_list (body_terms S X n) t"
proof -
  have f: "f = of_nat (3 * count_list (title_terms S X n) t + count_list (body_terms S X n) t)" "d = bid_display X b"
    using assms(1,2) by (auto simp: posting_def node_freqs_get split: if_splits)
  have "3 * count_list (title_terms S X n) t + count_list (body_terms S X n) t < 2 ^ 32"
    using assms(3) count_list_length [of "title_terms S X n" t] count_list_length [of "body_terms S X n" t] by linarith
  then show ?thesis unfolding f by (simp only: unat_of_nat) simp
qed

text \<open>The number of documents counts a node once per path, the table has it once.\<close>

lemma index_entries_docs:
  "sx_doc_count (fold (index_entry_of S X sts) es idx)
     = sx_doc_count idx + length (filter (\<lambda>(_, b, _). \<exists>n. bm_get sts b = Some n \<and> node_freqs S X n \<noteq> []) es)
   \<and> fst ` set (sx_docs (fold (index_entry_of S X sts) es idx))
     = fst ` set (sx_docs idx)
       \<union> (\<lambda>(_, b, _). bid_display X b) ` set (filter (\<lambda>(_, b, _). \<exists>n. bm_get sts b = Some n \<and> node_freqs S X n \<noteq> []) es)"
proof (induction es arbitrary: idx)
  case (Cons e es)
  obtain path b order where e: "e = (path, b, order)" by (cases e)
  show ?case
    using Cons.IH [of "index_entry_of S X sts e idx"]
    by (cases "bm_get sts b") (auto simp: e index_entry_of_def index_node_eq keys_bm_insert simp del: image_set)
qed simp

section \<open>Owners\<close>

definition lists :: "'a text_ext_scheme \<Rightarrow> path_map_map \<Rightarrow> nat \<Rightarrow> bid \<Rightarrow> bid \<Rightarrow> bool" where
  "lists X pathmap depth b net =
     (case get_map X pathmap (bref_of X net) of
        None \<Rightarrow> False
      | Some pm \<Rightarrow>
          (case recursive_map X pathmap depth pm [] of None \<Rightarrow> False | Some (es, _) \<Rightarrow> b \<in> set (map (fst \<circ> snd) es)))"

lemma own_nodes_get:
  "bm_get (fold (own_node r) es owners) b
     = or_else (bm_get owners b) (if b \<in> set (map (fst \<circ> snd) es) then Some r else None)"
proof (induction es arbitrary: owners)
  case (Cons e es)
  obtain path c order where e: "e = (path, c, order)" by (cases e)
  show ?case
    using Cons.IH
    by (cases "bm_get owners c"; cases "c = b"; cases "bm_get owners b")
      (simp_all add: e own_node_def bm_contains_def or_else_def)
qed (simp add: or_else_def split: option.splits)

lemma node_owners_get:
  "node_owners X pathmap depth nets owners = Some owners' \<Longrightarrow>
     bm_get owners' b = or_else (bm_get owners b) (map_option (bref_of X) (find (lists X pathmap depth b) nets))"
proof (induction nets arbitrary: owners)
  case (Cons net nets)
  show ?case
  proof (cases "get_map X pathmap (bref_of X net)")
    case None
    with Cons show ?thesis by (simp add: lists_def)
  next
    case (Some pm)
    with Cons.prems obtain es v where es: "recursive_map X pathmap depth pm [] = Some (es, v)"
        "node_owners X pathmap depth nets (fold (own_node (bref_of X net)) es owners) = Some owners'"
      by (auto split: option.splits prod.splits)
    have "lists X pathmap depth b net = (b \<in> set (map (fst \<circ> snd) es))"
      by (simp add: lists_def Some es(1))
    with Cons.IH [OF es(2)] show ?thesis
      by (cases "bm_get owners b") (simp_all add: own_nodes_get or_else_def)
  qed
qed (simp add: or_else_def split: option.splits)

lemma place_states:
  "fold (place_state owners) es (G, N) = (G', N') \<Longrightarrow>
     set G' = set G \<union> {b. \<exists>n. (b, n) \<in> set es \<and> (Trace \<in> nd_kind n \<or> bm_get owners b = None)}
     \<and> set (unwrap_or (bm_get N' r) [])
       = set (unwrap_or (bm_get N r) []) \<union> {b. \<exists>n. (b, n) \<in> set es \<and> Trace \<notin> nd_kind n \<and> bm_get owners b = Some r}"
proof (induction es arbitrary: G N)
  case (Cons e es)
  obtain b n where e: "e = (b, n)" by (cases e)
  show ?case
  proof (cases "Trace \<in> nd_kind n \<or> bm_get owners b = None")
    case True
    then have "place_state owners e (G, N) = (bs_insert b G, N)"
      by (auto simp: e place_state_def split: option.splits)
    with Cons True show ?thesis by (auto simp: e)
  next
    case False
    then obtain q where q: "bm_get owners b = Some q" by auto
    with False have p: "place_state owners e (G, N) = (G, bm_insert q (bs_insert b (unwrap_or (bm_get N q) [])) N)"
      by (simp add: e place_state_def)
    from Cons.IH [of G "bm_insert q (bs_insert b (unwrap_or (bm_get N q) [])) N"] Cons.prems p False q
    show ?thesis by (auto simp: e)
  qed
qed simp

lemma partition_run:
  assumes "partition_graph X pathmap depth g = Some P"
  obtains owners where "node_owners X pathmap depth (n_nets pathmap) [] = Some owners"
    "gp_global_relations P = from_edges (filter (is_cross_network owners) (g_edges (relations g)))"
    "set (gp_global_states P) = {b. \<exists>n. (b, n) \<in> set (states g) \<and> (Trace \<in> nd_kind n \<or> bm_get owners b = None)}"
    "\<And>r. set (net_states P r) = {b. \<exists>n. (b, n) \<in> set (states g) \<and> Trace \<notin> nd_kind n \<and> bm_get owners b = Some r}"
    "set (gp_networks P) = (\<lambda>net. (bref_of X net, net)) ` set (n_nets pathmap)"
proof -
  obtain owners where o': "node_owners X pathmap depth (n_nets pathmap) [] = Some owners"
    using assms by (auto simp: partition_graph_def)
  obtain G N where f: "fold (place_state owners) (states g) ([], []) = (G, N)"
    by (cases "fold (place_state owners) (states g) ([], [])")
  note p = place_states [OF f]
  show ?thesis
    by (rule that [OF o']) (use assms o' f p in \<open>auto simp: partition_graph_def net_states_def\<close>)
qed

lemma state_in: "bm_ok m \<Longrightarrow> (\<exists>v. (k, v) \<in> set m \<and> Q v) = (\<exists>v. bm_get m k = Some v \<and> Q v)"
  by (auto simp: bm_ok_get_iff)

definition owner_of :: "'a text_ext_scheme \<Rightarrow> path_map_map \<Rightarrow> nat \<Rightarrow> bid \<Rightarrow> bref option" where
  "owner_of X pathmap depth b = map_option (bref_of X) (find (lists X pathmap depth b) (n_nets pathmap))"

definition traced :: "belief_graph \<Rightarrow> bid \<Rightarrow> bool" where
  "traced g b \<longleftrightarrow> (case bm_get (states g) b of Some n \<Rightarrow> Trace \<in> nd_kind n | None \<Rightarrow> False)"

text \<open>Where the parts of the graph come from, in terms of the owner of a node.\<close>

lemma partition_parts:
  assumes "partition_graph X pathmap depth g = Some P" "bm_ok (states g)"
  shows "b \<in> set (gp_global_states P)
      \<longleftrightarrow> (\<exists>n. bm_get (states g) b = Some n \<and> (Trace \<in> nd_kind n \<or> owner_of X pathmap depth b = None))"
    and "b \<in> set (net_states P r)
      \<longleftrightarrow> (\<exists>n. bm_get (states g) b = Some n \<and> Trace \<notin> nd_kind n \<and> owner_of X pathmap depth b = Some r)"
    and "set (gp_networks P) = (\<lambda>net. (bref_of X net, net)) ` set (n_nets pathmap)"
    and "set (g_edges (gp_global_relations P)) = {e \<in> set (g_edges (relations g)).
      owner_of X pathmap depth (e_source e) = None \<or> owner_of X pathmap depth (e_source e) \<noteq> owner_of X pathmap depth (e_sink e)}"
proof -
  obtain owners where o': "node_owners X pathmap depth (n_nets pathmap) [] = Some owners"
    and P: "gp_global_relations P = from_edges (filter (is_cross_network owners) (g_edges (relations g)))"
    "set (gp_global_states P) = {b. \<exists>n. (b, n) \<in> set (states g) \<and> (Trace \<in> nd_kind n \<or> bm_get owners b = None)}"
    "\<And>r. set (net_states P r) = {b. \<exists>n. (b, n) \<in> set (states g) \<and> Trace \<notin> nd_kind n \<and> bm_get owners b = Some r}"
    "set (gp_networks P) = (\<lambda>net. (bref_of X net, net)) ` set (n_nets pathmap)"
    by (rule partition_run [OF assms(1)], rule that)
  have owner: "bm_get owners b = owner_of X pathmap depth b" for b
    using node_owners_get [OF o', of b] by (simp add: owner_of_def or_else_def)
  show "b \<in> set (gp_global_states P)
      \<longleftrightarrow> (\<exists>n. bm_get (states g) b = Some n \<and> (Trace \<in> nd_kind n \<or> owner_of X pathmap depth b = None))"
    "b \<in> set (net_states P r)
      \<longleftrightarrow> (\<exists>n. bm_get (states g) b = Some n \<and> Trace \<notin> nd_kind n \<and> owner_of X pathmap depth b = Some r)"
    "set (gp_networks P) = (\<lambda>net. (bref_of X net, net)) ` set (n_nets pathmap)"
    by (simp_all add: P(2-4) state_in [OF assms(2)] owner)
  show "set (g_edges (gp_global_relations P)) = {e \<in> set (g_edges (relations g)).
      owner_of X pathmap depth (e_source e) = None \<or> owner_of X pathmap depth (e_source e) \<noteq> owner_of X pathmap depth (e_sink e)}"
    by (auto simp: P(1) from_edges_def is_cross_network_def owner split: option.splits)
qed

text \<open>
  A network exports the nodes that are no traces and that no network before it reaches, through subnetworks as
  well: the shard of a subnetwork is empty if a network above comes first.
\<close>

theorem first_network_owns:
  assumes "partition_graph X pathmap depth g = Some P" "bm_ok (states g)"
  shows "b \<in> set (net_states P r)
    \<longleftrightarrow> (\<exists>n net. bm_get (states g) b = Some n \<and> Trace \<notin> nd_kind n
          \<and> find (lists X pathmap depth b) (n_nets pathmap) = Some net \<and> bref_of X net = r)"
  using partition_parts(2) [OF assms] by (auto simp: owner_of_def)

lemma filter_one: "distinct xs \<Longrightarrow> x \<in> set xs \<Longrightarrow> filter (\<lambda>y. y = x) xs = [x]"
  by (induction xs) (auto simp: filter_empty_conv)

lemma owner_exported:
  assumes "partition_graph X pathmap depth g = Some P" "bm_ok (states g)" "owner_of X pathmap depth b = Some r"
  shows "r \<in> set (map fst (gp_networks P))"
proof -
  obtain net where net: "find (lists X pathmap depth b) (n_nets pathmap) = Some net" "bref_of X net = r"
    using assms(3) by (auto simp: owner_of_def)
  then have "net \<in> set (n_nets pathmap)" by (auto simp: find_Some_iff)
  then show ?thesis by (auto simp: partition_parts(3) [OF assms(1,2)] net(2) [symmetric] image_image)
qed

text \<open>C36. Each node of the graph is exported, in one file and no other.\<close>

theorem exported_once:
  assumes "partition_graph X pathmap depth g = Some P" "bm_ok (states g)"
  shows "(if b \<in> set (gp_global_states P) then 1 else 0)
    + length (filter (\<lambda>r. b \<in> set (net_states P r)) (remdups (map fst (gp_networks P))))
    = (if bm_contains (states g) b then 1 else (0 :: nat))"
proof (cases "bm_get (states g) b")
  case (Some n)
  show ?thesis
  proof (cases "Trace \<in> nd_kind n \<or> owner_of X pathmap depth b = None")
    case True
    then have "b \<in> set (gp_global_states P)" "b \<notin> set (net_states P r)" for r
      using Some by (auto simp: partition_parts(1,2) [OF assms])
    with Some show ?thesis by (simp add: bm_contains_def)
  next
    case False
    then obtain r where r: "owner_of X pathmap depth b = Some r" "Trace \<notin> nd_kind n" by auto
    then have "b \<in> set (net_states P q) \<longleftrightarrow> q = r" for q
      using Some by (auto simp: partition_parts(2) [OF assms])
    moreover have "b \<notin> set (gp_global_states P)" using Some r by (simp add: partition_parts(1) [OF assms])
    moreover have "filter (\<lambda>q. q = r) (remdups (map fst (gp_networks P))) = [r]"
      by (rule filter_one) (use owner_exported [OF assms r(1)] in simp_all)
    ultimately show ?thesis using Some by (simp add: bm_contains_def)
  qed
next
  case None
  then show ?thesis by (simp add: bm_contains_def partition_parts(1,2) [OF assms])
qed

section \<open>Relations\<close>

definition in_shard :: "belief_graph \<Rightarrow> graph_partition \<Rightarrow> edge \<Rightarrow> bool" where
  "in_shard g P e \<longleftrightarrow>
     list_ex (\<lambda>net. e \<in> set (g_edges (graph_filter (relations g) (RNodeIn (net_states P (fst net))) False))) (gp_networks P)"

lemma in_shard_iff:
  assumes "partition_graph X pathmap depth g = Some P" "bm_ok (states g)" "e \<in> set (g_edges (relations g))"
  shows "in_shard g P e \<longleftrightarrow> (\<exists>r. e_source e \<in> set (net_states P r) \<or> e_sink e \<in> set (net_states P r))"
proof
  assume "in_shard g P e"
  then show "\<exists>r. e_source e \<in> set (net_states P r) \<or> e_sink e \<in> set (net_states P r)"
    by (auto simp: in_shard_def list_ex_iff graph_filter_def from_edges_def match_ref_def)
next
  assume "\<exists>r. e_source e \<in> set (net_states P r) \<or> e_sink e \<in> set (net_states P r)"
  then obtain r where r: "e_source e \<in> set (net_states P r) \<or> e_sink e \<in> set (net_states P r)" by blast
  then have "r \<in> set (map fst (gp_networks P))"
    using owner_exported [OF assms(1,2)] by (auto simp: partition_parts(2) [OF assms(1,2)])
  with r assms(3) show "in_shard g P e"
    by (auto simp: in_shard_def list_ex_iff graph_filter_def from_edges_def match_ref_def)
qed

text \<open>
  A relation of a graph in shape is missing from all files exactly if both its ends are traces of nodes that one
  network reaches.
\<close>

theorem trace_relations_lost:
  assumes "partition_graph X pathmap depth g = Some P" "graph_ok g" "e \<in> set (g_edges (relations g))"
  shows "(e \<notin> set (g_edges (gp_global_relations P)) \<and> \<not> in_shard g P e)
    \<longleftrightarrow> traced g (e_source e) \<and> traced g (e_sink e)
        \<and> owner_of X pathmap depth (e_source e) \<noteq> None
        \<and> owner_of X pathmap depth (e_source e) = owner_of X pathmap depth (e_sink e)"
proof -
  have ok: "bm_ok (states g)" using assms(2) by (simp add: graph_ok_def)
  have "e_source e \<in> keys g" "e_sink e \<in> keys g"
    using assms(2,3) by (auto simp: graph_ok_def list_all_iff)
  then obtain n m where nm: "bm_get (states g) (e_source e) = Some n" "bm_get (states g) (e_sink e) = Some m"
    by (auto simp: in_keys_get)
  show ?thesis
    using assms(3) nm
    by (auto simp: partition_parts(2,4) [OF assms(1) ok] in_shard_iff [OF assms(1) ok assms(3)] traced_def)
qed

section \<open>Instances\<close>

definition shard_ext :: text_ext where
  "shard_ext = byte_ext\<lparr>uuid_hyphenated := (\<lambda>w. if w = 1 then ''1'' else if w = 2 then ''2'' else ''3'')\<rparr>"

definition sample_shard_ops :: shard_ops where
  "sample_shard_ops =
     \<lparr>so_stem = id, so_stem_mode = StemNone, so_sort = (\<lambda>ps. rev (linorder_class.sort_key snd ps)), so_float = of_nat,
      so_nat = unat, so_mul = (\<lambda>a b. a * b), so_div = (\<lambda>a b. a div b), so_show = (\<lambda>x. []), so_json_index = (\<lambda>x. Inr []),
      so_json_search = (\<lambda>x. Inr []), so_json_graph = (\<lambda>x. Inr []), so_json_global = (\<lambda>x. Inr []),
      so_json_network = (\<lambda>x. Inr []), so_json_manifest = (\<lambda>x. Inr []), so_mkdir = (\<lambda>p. Inr ()),
      so_write = (\<lambda>p content. Inr ())\<rparr>"

lemma sample_sorts: "sorts_by_frequency sample_shard_ops"
proof -
  have "sorted_wrt (\<lambda>p q. snd q \<le> snd p) (rev (linorder_class.sort_key snd ps))" for ps :: "(string \<times> u32) list"
    using sorted_sort_key [of snd ps] by (simp add: sorted_wrt_rev sorted_map)
  then show ?thesis by (simp add: sorts_by_frequency_def sample_shard_ops_def)
qed

text \<open>A network of a document and a trace, and a graph with them.\<close>

definition one_net :: path_map where
  "one_net =
     \<lparr>p_map = [([], Bid 1, []), (''a.md'', Bid 2, [0]), (''b.md'', Bid 3, [1])], p_bid_map = [], p_path_map = [], p_order_map = [],
      p_id_map = id_map_empty, p_title_map = id_map_empty, p_kind = Section, p_net = Bid 1, p_subnets = [], p_loops = []\<rparr>"

definition one_net_map :: path_map_map where
  "one_net_map =
     \<lparr>n_map = [(Bref 1, one_net)], n_root = Bid 1, n_nets = [Bid 1], n_docs = [Bid 2], n_apis = [], n_titles = [],
      n_ids = []\<rparr>"

definition titled :: "bid \<Rightarrow> string \<Rightarrow> kind_set \<Rightarrow> node" where
  "titled b title kinds = (unknown_node b)\<lparr>nd_title := title, nd_kind := kinds\<rparr>"

definition net_graph :: belief_graph where
  "net_graph =
     \<lparr>states = [(Bid 1, titled (Bid 1) ''tree'' {Trace}), (Bid 2, titled (Bid 2) ''oak tree'' {}),
        (Bid 3, titled (Bid 3) ''elm'' {Trace})],
      relations = from_edges [(Bid 1, Bid 3, ws_full), (Bid 2, Bid 1, ws_full)]\<rparr>"

lemma shard_brefs: "bref_of shard_ext (Bid 1) = Bref 1" "bref_default shard_ext = Bref 0"
  using byte_brefs by (simp_all add: shard_ext_def bref_of_def bref_default_def generate_namespace_def)

lemma one_net_run:
  "get_map shard_ext one_net_map (Bref 1) = Some one_net"
  "recursive_map shard_ext one_net_map (Suc 0) one_net [] = Some (p_map one_net, [Bid 1])"
  by (simp_all add: get_map_def one_net_map_def one_net_def shard_brefs bm_get_Cons subnet_indices_def map_filter_simps)

lemma net_lists: "lists shard_ext one_net_map (Suc 0) b (Bid 1) = (b \<in> {Bid 1, Bid 2, Bid 3})"
proof -
  have "set (map (fst \<circ> snd) (p_map one_net)) = {Bid 1, Bid 2, Bid 3}" by (simp add: one_net_def)
  then show ?thesis
    by (simp add: lists_def shard_brefs one_net_run del: set_map recursive_map.simps)
qed

lemma net_owner: "owner_of shard_ext one_net_map (Suc 0) b = (if b \<in> {Bid 1, Bid 2, Bid 3} then Some (Bref 1) else None)"
proof -
  have nets: "n_nets one_net_map = [Bid 1]" by (simp add: one_net_map_def)
  show ?thesis by (simp add: owner_of_def nets net_lists shard_brefs)
qed

lemma net_graph_ok: "graph_ok net_graph" "bm_ok (states net_graph)"
  by (simp_all add: graph_ok_def net_graph_def keys_def from_edges_def add_node_def arcs_def bm_ok_Cons e_source_def e_sink_def)

lemma net_partition: "\<exists>P. partition_graph shard_ext one_net_map (Suc 0) net_graph = Some P"
proof -
  have nets: "n_nets one_net_map = [Bid 1]" by (simp add: one_net_map_def)
  show ?thesis by (simp add: partition_graph_def nets shard_brefs one_net_run del: recursive_map.simps)
qed

theorem first_network_owns_witness:
  "\<exists>P. partition_graph shard_ext one_net_map (Suc 0) net_graph = Some P
     \<and> Bid 2 \<in> set (net_states P (Bref 1)) \<and> Bid 3 \<notin> set (net_states P (Bref 1))"
proof -
  obtain P where P: "partition_graph shard_ext one_net_map (Suc 0) net_graph = Some P" using net_partition by blast
  have nets: "n_nets one_net_map = [Bid 1]" by (simp add: one_net_map_def)
  from first_network_owns [OF P net_graph_ok(2)] P show ?thesis
    by (auto simp: nets net_lists shard_brefs net_graph_def bm_get_Cons titled_def unknown_node_def)
qed

theorem exported_once_witness:
  "\<exists>P. partition_graph shard_ext one_net_map (Suc 0) net_graph = Some P
     \<and> (if Bid 3 \<in> set (gp_global_states P) then 1 else 0)
        + length (filter (\<lambda>r. Bid 3 \<in> set (net_states P r)) (remdups (map fst (gp_networks P)))) = (1 :: nat)"
proof -
  obtain P where P: "partition_graph shard_ext one_net_map (Suc 0) net_graph = Some P" using net_partition by blast
  have "bm_contains (states net_graph) (Bid 3)" by (simp add: net_graph_def bm_contains_def bm_get_Cons)
  with exported_once [OF P net_graph_ok(2), of "Bid 3"] P show ?thesis by auto
qed

theorem trace_relations_lost_witness:
  "\<exists>P. partition_graph shard_ext one_net_map (Suc 0) net_graph = Some P
     \<and> (Bid 1, Bid 3, ws_full) \<notin> set (g_edges (gp_global_relations P)) \<and> \<not> in_shard net_graph P (Bid 1, Bid 3, ws_full)"
proof -
  obtain P where P: "partition_graph shard_ext one_net_map (Suc 0) net_graph = Some P" using net_partition by blast
  have e: "(Bid 1, Bid 3, ws_full) \<in> set (g_edges (relations net_graph))" by (simp add: net_graph_def from_edges_def)
  have "traced net_graph (Bid 1)" "traced net_graph (Bid 3)"
    by (simp_all add: traced_def net_graph_def bm_get_Cons titled_def unknown_node_def)
  with trace_relations_lost [OF P net_graph_ok(1) e] P show ?thesis
    by (auto simp: e_source_def e_sink_def net_owner)
qed

lemma tree_terms: "tokenize sample_shard_ops shard_ext ''oak tree'' = [''oak'', ''tree'']"
    "PathOps.trim ''oak tree'' = ''oak tree''"
  by code_simp+

lemma shown: "bid_display shard_ext (Bid 2) = ''2''"
  by (simp add: bid_display_def shard_ext_def)

lemma oak_freq: "bm_get (node_freqs sample_shard_ops shard_ext (titled (Bid 2) ''oak tree'' {})) ''oak'' = Some 3"
  by (simp add: node_freqs_get title_terms_def body_terms_def titled_def unknown_node_def node_text_of_def tree_terms no_terms)

theorem search_index_exact_witness:
  "\<exists>idx. network_index sample_shard_ops shard_ext one_net_map (Suc 0) [(Bid 2, titled (Bid 2) ''oak tree'' {})] (Bid 1) = Some idx
     \<and> mset (postings idx ''oak'') = {#(''2'', 3)#}"
proof -
  let ?sts = "[(Bid 2, titled (Bid 2) ''oak tree'' {})]"
  have g: "get_map shard_ext one_net_map (bref_of shard_ext (Bid 1)) = Some one_net"
    by (simp add: shard_brefs one_net_run(1))
  obtain idx where idx: "network_index sample_shard_ops shard_ext one_net_map (Suc 0) ?sts (Bid 1) = Some idx"
    by (simp add: network_index_def Let_def g one_net_run(2) del: recursive_map.simps)
  have "List.map_filter (posting sample_shard_ops shard_ext ?sts ''oak'') (p_map one_net) = [(''2'', 3)]"
    by (simp add: one_net_def map_filter_simps posting_def bm_get_Cons oak_freq shown)
  with search_index_exact [OF idx g one_net_run(2) sample_sorts, of "''oak''"] idx show ?thesis by auto
qed

theorem posting_frequency_witness:
  "unat (3 :: u32) = 3 * count_list (title_terms sample_shard_ops shard_ext (titled (Bid 2) ''oak tree'' {})) ''oak''
     + count_list (body_terms sample_shard_ops shard_ext (titled (Bid 2) ''oak tree'' {})) ''oak''"
proof -
  let ?n = "titled (Bid 2) ''oak tree'' {}"
  have p: "posting sample_shard_ops shard_ext [(Bid 2, ?n)] ''oak'' ([], Bid 2, []) = Some (''2'', 3)"
    by (simp add: posting_def bm_get_Cons oak_freq shown)
  have "bm_get [(Bid 2, ?n)] (Bid 2) = Some ?n" by (simp add: bm_get_Cons)
  moreover have "3 * length (title_terms sample_shard_ops shard_ext ?n) + length (body_terms sample_shard_ops shard_ext ?n) < 2 ^ 32"
    by (simp add: title_terms_def body_terms_def titled_def unknown_node_def node_text_of_def tree_terms no_terms)
  ultimately show ?thesis using posting_frequency [OF p] by blast
qed

end
