(* ===== verification/ViewerProps.thy ===== *)
theory ViewerProps
  imports Viewer ShardProps
begin

text \<open>
  What makes the viewer correct: which nodes it holds after shards have been loaded and unloaded, that the
  shards of an export give back its nodes, and the shape of what pages get.
\<close>

section \<open>The nodes of a merge\<close>

lemma index_sync_states [simp]: "bb_states (index_sync B) = bb_states B"
  by (simp add: index_sync_def index_nodes_def Let_def)

lemma reindex_sink_states: "bb_states (fst (reindex_sink_edges P t ks B)) = bb_states B"
  by (simp add: reindex_sink_edges_def Let_def case_prod_beta)

lemma update_relation_states [simp]: "bb_states (fst (update_relation P s t ws B)) = bb_states B"
  by (simp add: update_relation_def Let_def reindex_sink_states)

lemma update_relations_states: "bb_states (update_relations P es B) = bb_states B"
  unfolding update_relations_def by (induction es arbitrary: B) simp_all

lemma put_state_get:
  "bm_get (bb_states (fst (put_state X n B))) b =
     (if b = nd_bid n
      then Some (case bm_get (bb_states B) b of Some old \<Rightarrow> if node_eq old n then old else n | None \<Rightarrow> n)
      else bm_get (bb_states B) b)"
  by (simp add: put_state_def Let_def split: option.splits)

lemma put_states_get:
  assumes "distinct (map nd_bid ns)"
  shows "bm_get (bb_states (fst (put_states X ns B))) b =
     (case find (\<lambda>n. nd_bid n = b) ns of
        None \<Rightarrow> bm_get (bb_states B) b
      | Some n \<Rightarrow> Some (case bm_get (bb_states B) b of Some old \<Rightarrow> if node_eq old n then old else n | None \<Rightarrow> n))"
proof -
  let ?f = "\<lambda>n (B, changed). let (B, updated) = put_state X n B in (B, changed \<or> updated)"
  have "bm_get (bb_states (fst (fold ?f ns (B, c)))) b =
     (case find (\<lambda>n. nd_bid n = b) ns of
        None \<Rightarrow> bm_get (bb_states B) b
      | Some n \<Rightarrow> Some (case bm_get (bb_states B) b of Some old \<Rightarrow> if node_eq old n then old else n | None \<Rightarrow> n))" for c
    using assms
  proof (induction ns arbitrary: B c)
    case (Cons n ns)
    obtain B1 u where p: "put_state X n B = (B1, u)" by fastforce
    have B1: "bm_get (bb_states B1) b =
       (if b = nd_bid n
        then Some (case bm_get (bb_states B) b of Some old \<Rightarrow> if node_eq old n then old else n | None \<Rightarrow> n)
        else bm_get (bb_states B) b)"
      using put_state_get [of X n B b] p by simp
    have none: "find (\<lambda>m. nd_bid m = b) ns = None" if "b = nd_bid n"
      using Cons.prems that by (simp add: find_None_iff) (metis image_eqI)
    note IH = Cons.IH [of B1 "c \<or> u"]
    show ?case
    proof (cases "b = nd_bid n")
      case True
      have "bm_get (bb_states (fst (fold ?f ns (B1, c \<or> u)))) b = bm_get (bb_states B1) b"
        using IH Cons.prems none [OF True] by simp
      then show ?thesis using B1 True by (simp add: p)
    next
      case False
      then have "bm_get (bb_states B1) b = bm_get (bb_states B) b" by (simp add: B1)
      with IH Cons.prems False show ?thesis by (simp add: p cong: option.case_cong)
    qed
  qed simp
  then show ?thesis by (simp add: put_states_def)
qed

lemma merge_op_nodes_append: "merge_op_nodes (xs @ ys) = merge_op_nodes xs @ merge_op_nodes ys"
  by (induction xs) (auto simp: merge_op_nodes_def map_filter_simps split: option.splits)

lemma merge_op_nodes_relations:
  "(\<And>x. x \<in> set ops \<Longrightarrow> \<exists>s t w. x = MergeRelation s t w) \<Longrightarrow> merge_op_nodes ops = []"
proof (induction ops)
  case (Cons x ops)
  from Cons.prems [of x] obtain s t w where "x = MergeRelation s t w" by auto
  with Cons show ?case by (auto simp: merge_op_nodes_def map_filter_simps)
qed (simp add: merge_op_nodes_def)

lemma merge_op_nodes_upserts: "merge_op_nodes (map NodeUpsert ns) = ns"
  by (induction ns) (auto simp: merge_op_nodes_def map_filter_simps)

definition lacking :: "belief_graph \<Rightarrow> belief_graph \<Rightarrow> node list" where
  "lacking rhs lhs =
     filter (\<lambda>n. case bm_get (states lhs) (nd_bid n) of Some old \<Rightarrow> Trace \<in> nd_kind old | None \<Rightarrow> True)
       (bm_values (states rhs))"

lemma map_filter_memE: "x \<in> set (List.map_filter f es) \<Longrightarrow> (\<And>e. f e = Some x \<Longrightarrow> Q) \<Longrightarrow> Q"
  by (auto simp: mem_map_filter)

lemma if_none: "(if c then None else y) = Some x \<Longrightarrow> y = Some x"
  by (simp split: if_splits)

lemma merge_nodes:
  assumes "keyed rhs"
  shows "merge_op_nodes (to_event_stream DT rhs lhs None) = lacking rhs lhs"
proof -
  have all: "nd_bid n \<in> set (bm_keys (states rhs))" if "n \<in> set (bm_values (states rhs))" for n
    using keyed_bids [OF assms] that by (metis bm_keys_def image_eqI list.set_map)
  have up: "node_ops rhs lhs (scoped_bids rhs None) = map NodeUpsert (lacking rhs lhs)"
    unfolding node_ops_def lacking_def by (intro arg_cong [where f = "map NodeUpsert"] filter_cong refl) (simp add: all scoped_bids_def)
  have "\<exists>rest. to_event_stream DT rhs lhs None = node_ops rhs lhs (scoped_bids rhs None) @ rest
      \<and> (\<forall>x\<in>set rest. \<exists>s t w. x = MergeRelation s t w)"
    unfolding to_event_stream_def Let_def
  proof (rule exI, rule conjI, rule refl, rule ballI, unfold set_append Un_iff set_map, elim disjE imageE, goal_cases)
    case (1 x y)
    then show ?case by (elim map_filter_memE) auto
  next
    case (2 x)
    show ?case by (rule map_filter_memE [OF 2]) (drule if_none, drule if_none, drule if_none, auto)
  qed
  then show ?thesis
    by (auto simp: merge_op_nodes_append up merge_op_nodes_upserts merge_op_nodes_relations)
qed

lemma merge_graph_states:
  fixes B :: "'p belief_base"
  shows "bb_states (merge_graph X P DT rhs seeds B) =
     bb_states (fst (put_states X (merge_op_nodes (to_event_stream DT rhs (bb_graph B) seeds)) B))"
proof (cases "to_event_stream DT rhs (bb_graph B) seeds = []")
  case True
  then show ?thesis by (simp add: merge_graph_def merge_op_nodes_def put_states_def map_filter_simps)
next
  case False
  obtain B1 c where p: "put_states X (merge_op_nodes (to_event_stream DT rhs (bb_graph B) seeds)) B = (B1, c)"
    by fastforce
  have "bb_states (index_sync (if c then B1\<lparr>bb_index_dirty := True\<rparr> else B1)) = bb_states B1" by simp
  moreover have upd: "bb_states (B'\<lparr>bb_paths := q\<rparr>) = bb_states B'" for B' :: "'p belief_base" and q by simp
  ultimately show ?thesis
    unfolding merge_graph_def Let_def if_not_P [OF False] p prod.case
    by (simp only: case_prod_beta upd update_relations_states fst_conv)
qed

lemma merged_node:
  assumes "keyed rhs"
  shows "bm_get (bb_states (merge_graph X P DT rhs None B)) b =
    (case bm_get (states rhs) b of
       None \<Rightarrow> bm_get (bb_states B) b
     | Some n \<Rightarrow>
         Some (case bm_get (bb_states B) b of
                 Some old \<Rightarrow> if Trace \<in> nd_kind old \<and> \<not> node_eq old n then n else old | None \<Rightarrow> n))"
proof -
  let ?ns = "lacking rhs (bb_graph B)"
  have "distinct (map nd_bid (bm_values (states rhs)))" by (rule keyed_distinct [OF assms])
  then have d: "distinct (map nd_bid ?ns)" unfolding lacking_def by (rule List.distinct_map_filter)
  have get: "bm_get (states rhs) b = Some n \<longleftrightarrow> n \<in> set (bm_values (states rhs)) \<and> nd_bid n = b" for n
    using assms unfolding keyed_def by (auto simp: bm_ok_get_iff bm_values_def list_all_iff) force
  show ?thesis
  proof (cases "find (\<lambda>n. nd_bid n = b) ?ns")
    case None
    then have n: "\<not> (case bm_get (bb_states B) b of Some old \<Rightarrow> Trace \<in> nd_kind old | None \<Rightarrow> True)"
      if "bm_get (states rhs) b = Some n" for n
      using that by (auto simp: find_None_iff lacking_def get)
    show ?thesis
      using n unfolding merge_graph_states merge_nodes [OF assms] put_states_get [OF d] None
      by (auto split: option.splits)
  next
    case (Some n)
    then have n: "n \<in> set ?ns" "nd_bid n = b" by (auto simp: find_Some_iff)
    then have "bm_get (states rhs) b = Some n" by (simp add: get lacking_def)
    with n show ?thesis
      unfolding merge_graph_states merge_nodes [OF assms] put_states_get [OF d] Some
      by (auto simp: lacking_def split: option.splits)
  qed
qed

section \<open>Which nodes are loaded\<close>

text \<open>The nodes of a shard are listed under their own identities, as an export lists them.\<close>

definition own_keys :: "'a id_ext_scheme \<Rightarrow> (string, node) bmap \<Rightarrow> bool" where
  "own_keys X sts \<longleftrightarrow>
     list_all (\<lambda>(k, n). case bid_try_from X k of Inr b \<Rightarrow> nd_bid n = b | Inl _ \<Rightarrow> True) sts"

lemma shard_graph_states:
  "bm_get (states (shard_graph X sts edges)) b \<noteq> None \<longleftrightarrow> b \<in> set (shard_bids X sts)"
proof -
  have "map fst (List.map_filter (\<lambda>(k, n). map_option (\<lambda>b. (b, n)) (g k)) sts) = List.map_filter g (map fst sts)"
    for g :: "string \<Rightarrow> bid option"
    by (induction sts) (auto simp: map_filter_simps split: option.splits)
  from arg_cong [OF this, of set] show ?thesis
    by (simp add: shard_graph_def bm_get_from_list map_of_eq_None_iff shard_bids_def bm_keys_def comp_def)
qed

lemma shard_graph_keyed:
  assumes "own_keys X sts"
  shows "keyed (shard_graph X sts edges)"
proof -
  have "nd_bid n = k" if "(k, n) \<in> set (states (shard_graph X sts edges))" for k n
  proof -
    have "bm_get (states (shard_graph X sts edges)) k = Some n"
      using that by (simp add: bm_ok_get_iff shard_graph_def)
    then have "(k, n) \<in> set (List.map_filter (\<lambda>(k, n). map_option (\<lambda>b. (b, n)) (ok_of (bid_try_from X k))) sts)"
      by (simp add: shard_graph_def bm_get_from_list) (metis map_of_SomeD set_rev)
    then obtain s where "(s, n) \<in> set sts" "ok_of (bid_try_from X s) = Some k" by (auto simp: mem_map_filter)
    then show ?thesis using assms by (auto simp: own_keys_def list_all_iff ok_of_def split: sum.splits)
  qed
  then show ?thesis by (auto simp: keyed_def list_all_iff shard_graph_def)
qed

definition loaded_bids :: "'p viewer \<Rightarrow> bid set" where
  "loaded_bids V = set (concat (bm_values (vw_loaded V)))"

definition held_bids :: "'p viewer \<Rightarrow> bid set" where
  "held_bids V = set (bm_keys (bb_states (vw_inner V)))"

lemma held_iff: "b \<in> held_bids V \<longleftrightarrow> bm_get (bb_states (vw_inner V)) b \<noteq> None"
  by (simp add: held_bids_def bm_keys_def bm_get_def map_of_eq_None_iff)

lemma remove_event:
  "process_event X env P D B (NodesRemoved bids Remote) =
     Some (Inr (let (B', evs) = remove_nodes X P (bs_from_list bids) B;
                    (paths, path_events) = pm_process P (bb_paths B') (NodesRemoved bids Remote # evs) (bb_relations B')
                in (B'\<lparr>bb_paths := paths\<rparr>, evs @ path_events)))"
  by (simp add: process_event_def origin_def apply_event_def Let_def case_prod_beta)

lemma bm_remove_absent: "bm_get m k = None \<Longrightarrow> bm_remove k m = m"
  by (auto simp: bm_remove_def bm_get_def map_of_eq_None_iff intro!: filter_True)

lemma values_remove:
  assumes "bm_ok m" "bm_get m k = Some v"
  shows "set (bm_values m) = insert v (set (bm_values (bm_remove k m)))"
  using assms by (auto simp: bm_values_def bm_remove_def bm_ok_get_iff image_iff) (metis assms bm_ok_get_iff option.inject, force)

lemma unload_shard_held:
  assumes "base_inv (vw_inner V)" "edges_in_ok P" "unload_shard X env P D k V = Some (V', r)" "bm_ok (vw_loaded V)"
  shows "base_inv (vw_inner V') \<and> bm_ok (vw_loaded V') \<and> vw_loaded V' = bm_remove k (vw_loaded V)
    \<and> held_bids V' = held_bids V - (loaded_bids V - loaded_bids V') \<and> r = Inr (node_count V')"
proof (cases "bm_get (vw_loaded V) k")
  case None
  then have "V' = V" "r = Inr (node_count V)" using assms(3) by (auto simp: unload_shard_def)
  with None assms show ?thesis by (simp add: bm_remove_absent)
next
  case (Some bids)
  let ?V = "V\<lparr>vw_loaded := bm_remove k (vw_loaded V)\<rparr>"
  let ?gone = "filter (\<lambda>b. b \<notin> loaded_bids ?V) bids"
  have gone: "set ?gone = loaded_bids V - loaded_bids ?V"
    using values_remove [OF assms(4) Some] by (auto simp: loaded_bids_def)
  note run = assms(3) [unfolded unload_shard_def Some option.case Let_def]
  show ?thesis
  proof (cases "?gone = []")
    case True
    with gone have "loaded_bids V - loaded_bids ?V = {}" by (metis list.set(1))
    moreover have "V' = ?V" "r = Inr (node_count V')" using run True by (auto simp: loaded_bids_def split: if_splits)
    ultimately show ?thesis using assms by (auto simp: held_bids_def loaded_bids_def)
  next
    case False
    let ?removed = "remove_nodes X P (bs_from_list ?gone) (vw_inner V)"
    note fields = remove_nodes_fields(1) [OF assms(1,2), of X "bs_from_list ?gone"]
      remove_nodes_inv [OF assms(1,2), of X "bs_from_list ?gone"]
    obtain B where B: "V' = ?V\<lparr>vw_inner := B\<rparr>" "r = Inr (node_count V')" "bb_states B = bb_states (fst ?removed)"
        "base_inv B"
      using run False fields(2)
      by (auto simp: remove_event loaded_bids_def Let_def case_prod_beta split: if_splits)
    have "held_bids V' = held_bids V - set ?gone"
      using fields(1) by (auto simp: held_bids_def bm_keys_def B)
    then show ?thesis using gone assms(4) B by (simp add: loaded_bids_def)
  qed
qed

text \<open>The shard in a piece of JSON, if there is one, is as exported.\<close>

definition proper_shard :: "viewer_ops \<Rightarrow> 'a id_ext_scheme \<Rightarrow> string \<Rightarrow> string \<Rightarrow> bool" where
  "proper_shard J X k json \<longleftrightarrow> (case shard_content J X k json of Inr (sts, _) \<Rightarrow> own_keys X sts | Inl _ \<Rightarrow> True)"

lemma values_insert:
  assumes "bm_ok m"
  shows "set (bm_values (bm_insert k v m)) = insert v (set (bm_values (bm_remove k m)))"
proof -
  have "bm_get (bm_insert k v m) k = Some v" by simp
  note vals = values_remove [OF _ this]
  have "bm_remove k (bm_insert k v m) = bm_remove k m"
    by (rule bm.table_ext) (use assms in auto)
  with vals assms show ?thesis by simp
qed

lemma put_shard_held:
  assumes "base_inv (vw_inner V)" "edges_in_ok P" "put_shard J X P DT k json V = (V', r)" "bm_ok (vw_loaded V)"
    "proper_shard J X k json" "bm_get (vw_loaded V) k = None"
  shows "base_inv (vw_inner V') \<and> bm_ok (vw_loaded V')
    \<and> (\<exists>bids. held_bids V' = held_bids V \<union> bids \<and> loaded_bids V' = loaded_bids V \<union> bids)"
proof (cases "shard_content J X k json")
  case (Inl e)
  then have "V' = V" using assms(3) by (simp add: put_shard_def)
  then show ?thesis using assms by auto
next
  case (Inr c)
  obtain sts edges where c: "c = (sts, edges)" by (cases c)
  let ?g = "shard_graph X sts edges"
  have V': "V' = V\<lparr>vw_inner := merge_graph X P DT ?g None (vw_inner V), vw_loaded := bm_insert k (shard_bids X sts) (vw_loaded V)\<rparr>"
    using assms(3) by (auto simp: put_shard_def Inr c Let_def)
  have keyed: "keyed ?g" using assms(5) by (auto simp: proper_shard_def Inr c intro: shard_graph_keyed)
  have "held_bids V' = held_bids V \<union> set (shard_bids X sts)"
  proof (rule set_eqI)
    fix b
    show "b \<in> held_bids V' \<longleftrightarrow> b \<in> held_bids V \<union> set (shard_bids X sts)"
      using shard_graph_states [of X sts edges b]
      by (cases "bm_get (states ?g) b") (auto simp: held_iff V' merged_node [OF keyed] simp del: not_None_eq)
  qed
  moreover have "loaded_bids V' = loaded_bids V \<union> set (shard_bids X sts)"
    using values_insert [OF assms(4), of k "shard_bids X sts"]
    by (auto simp: loaded_bids_def V' bm_remove_absent [OF assms(6)])
  moreover have "base_inv (vw_inner V')" by (simp add: V' merge_graph_inv [OF assms(1,2)])
  ultimately show ?thesis using assms(4) by (auto simp: V')
qed

text \<open>What a page does with a viewer that starts with no shard.\<close>

inductive viewer_reach ::
    "viewer_ops \<Rightarrow> 'a query_ext_scheme \<Rightarrow> build_env \<Rightarrow> ('p, 'c) base_ops_scheme
      \<Rightarrow> discover \<times> ((bid \<times> bid) list \<Rightarrow> bid list \<Rightarrow> (bid \<times> bid) list) \<Rightarrow> 'p viewer \<Rightarrow> bool"
  for J X env P DT where
  opened: "from_manifest J X env P manifest_json entry = Inr V \<Longrightarrow> viewer_reach J X env P DT V"
| loads: "viewer_reach J X env P DT V \<Longrightarrow> proper_shard J X k json \<Longrightarrow>
    load_shard J X env P DT k json V = Some (V', r) \<Longrightarrow> viewer_reach J X env P DT V'"
| unloads: "viewer_reach J X env P DT V \<Longrightarrow>
    unload_shard X env P (fst DT) k V = Some (V', r) \<Longrightarrow> viewer_reach J X env P DT V'"

definition program_bid :: "'a id_ext_scheme \<Rightarrow> build_env \<Rightarrow> bid" where
  "program_bid X env = nd_bid (api_state X env)"

definition viewer_inv :: "'a id_ext_scheme \<Rightarrow> build_env \<Rightarrow> 'p viewer \<Rightarrow> bool" where
  "viewer_inv X env V \<longleftrightarrow> base_inv (vw_inner V) \<and> bm_ok (vw_loaded V) \<and> loaded_bids V \<subseteq> held_bids V
     \<and> held_bids V \<subseteq> insert (program_bid X env) (loaded_bids V)"

lemma opened_inv:
  assumes "from_manifest J X env P manifest_json entry = Inr V"
  shows "viewer_inv X env V \<and> held_bids V = {program_bid X env} \<and> vw_loaded V = []"
proof -
  have g: "keyed \<lparr>states = [], relations = bg_empty\<rparr>" "graph_ok \<lparr>states = [], relations = bg_empty\<rparr>"
    by (simp_all add: keyed_def graph_ok_def bg_empty_def keys_def arcs_def bm_ok_def)
  have V: "vw_inner V = base_default X env P" "vw_loaded V = []"
    using assms by (auto simp: from_manifest_def entry_point_bid_def split: sum.splits)
  have "base_inv (base_default X env P)"
    using new_unbalanced_inv [OF g, of X env P True] by (simp add: base_default_def)
  moreover have "bm_keys (bb_states (base_default X env P)) = [program_bid X env]"
    by (simp add: base_default_def new_unbalanced_def Let_def put_state_def base_empty_def bm_keys_def program_bid_def)
  ultimately show ?thesis by (simp add: viewer_inv_def V loaded_bids_def held_bids_def bm_ok_def bm_values_def)
qed

lemma unload_inv:
  assumes "viewer_inv X env V" "edges_in_ok P" "unload_shard X env P D k V = Some (V', r)"
  shows "viewer_inv X env V' \<and> vw_loaded V' = bm_remove k (vw_loaded V) \<and> r = Inr (node_count V')"
proof -
  have "loaded_bids V' \<subseteq> loaded_bids V" if "vw_loaded V' = bm_remove k (vw_loaded V)"
    using that by (auto simp: loaded_bids_def bm_values_def bm_remove_def)
  moreover have "base_inv (vw_inner V)" "bm_ok (vw_loaded V)" using assms(1) by (simp_all add: viewer_inv_def)
  note unload_shard_held [OF this(1) assms(2,3) this(2)]
  ultimately show ?thesis using assms(1) unfolding viewer_inv_def by blast
qed

lemma load_inv:
  assumes "viewer_inv X env V" "edges_in_ok P" "proper_shard J X k json"
    "load_shard J X env P DT k json V = Some (V', r)"
  shows "viewer_inv X env V'"
proof -
  have put: "viewer_inv X env V2" if V1: "viewer_inv X env V1" "bm_get (vw_loaded V1) k = None"
      "put_shard J X P DT k json V1 = (V2, r2)" for V1 V2 r2
  proof -
    have "base_inv (vw_inner V1)" "bm_ok (vw_loaded V1)" using V1(1) by (simp_all add: viewer_inv_def)
    from put_shard_held [OF this(1) assms(2) V1(3) this(2) assms(3) V1(2)] obtain bids where
      "base_inv (vw_inner V2)" "bm_ok (vw_loaded V2)" "held_bids V2 = held_bids V1 \<union> bids"
      "loaded_bids V2 = loaded_bids V1 \<union> bids" by blast
    then show ?thesis using V1(1) by (auto simp: viewer_inv_def)
  qed
  show ?thesis
  proof (cases "bm_contains (vw_loaded V) k")
    case True
    then obtain V1 r1 where u: "unload_shard X env P (fst DT) k V = Some (V1, r1)"
      using assms(4) by (auto simp: load_shard_def split: option.splits)
    note inv = unload_inv [OF assms(1,2) u]
    then have "put_shard J X P DT k json V1 = (V', r)" using assms(4) True u by (simp add: load_shard_def)
    with inv show ?thesis using put [of V1] by auto
  next
    case False
    then show ?thesis using assms(1,4) put [of V] by (auto simp: load_shard_def bm_contains_def)
  qed
qed

lemma viewer_reach_inv: "viewer_reach J X env P DT V \<Longrightarrow> edges_in_ok P \<Longrightarrow> viewer_inv X env V"
  by (induction rule: viewer_reach.induct) (auto dest: opened_inv unload_inv load_inv)

text \<open>
  C37. A viewer holds the nodes of the loaded shards and no others, whatever has been loaded and unloaded before: a
  shard that goes takes only nodes with it that no other one has. The one exception is the node of the
  program itself, which is there before any shard.
\<close>

theorem loaded_nodes_exact:
  assumes "viewer_reach J X env P DT V" "edges_in_ok P"
  shows "loaded_bids V \<subseteq> held_bids V \<and> held_bids V \<subseteq> insert (program_bid X env) (loaded_bids V)"
  using viewer_reach_inv [OF assms] by (simp add: viewer_inv_def)

section \<open>From an export to a viewer\<close>

lemma hex_digit_eq: "m < 16 \<Longrightarrow> n < 16 \<Longrightarrow> hex_digit m = hex_digit n \<longleftrightarrow> m = n"
  unfolding hex_digit_def by (rule nth_eq_iff_index_eq) simp_all

lemma hex_bytes_eq:
  "length bs = length cs \<Longrightarrow> list_all (\<lambda>b. b < 256) bs \<Longrightarrow> list_all (\<lambda>b. b < 256) cs \<Longrightarrow>
   concat (map (\<lambda>byte. [hex_digit (byte div 16), hex_digit (byte mod 16)]) bs)
     = concat (map (\<lambda>byte. [hex_digit (byte div 16), hex_digit (byte mod 16)]) cs) \<Longrightarrow> bs = cs"
proof (induction bs cs rule: list_induct2)
  case (Cons b bs c cs)
  then have "b div 16 = c div 16" "b mod 16 = c mod 16"
    by (simp_all add: hex_digit_eq div_less_iff_less_mult)
  then have "b = c" by (metis div_mult_mod_eq)
  with Cons show ?case by simp
qed simp

lemma bref_display_eq: "bref_display a = bref_display b \<longleftrightarrow> a = b"
proof
  assume "bref_display a = bref_display b"
  then have "bref_bytes a = bref_bytes b"
    unfolding bref_display_def by (rule hex_bytes_eq [rotated 3]) (simp_all add: bref_bytes_def list_all_iff)
  then show "a = b" by (metis bref_from_bytes_bytes)
qed simp

lemma bref_not_global: "bref_display r \<noteq> ''global''"
proof
  assume "bref_display r = ''global''"
  then have "length (bref_display r) = 6" by simp
  then show False by simp
qed

definition reads_bids :: "'a id_ext_scheme \<Rightarrow> bool" where
  "reads_bids X \<longleftrightarrow> (\<forall>b. bid_try_from X (bid_display X b) = Inr b)"

lemma shown_bid_eq: "reads_bids X \<Longrightarrow> bid_display X a = bid_display X b \<longleftrightarrow> a = b"
  unfolding reads_bids_def by (metis Inr_inject)

lemma shard_state_in:
  assumes "(k, n) \<in> set (shard_states X sts bids)"
  obtains b where "b \<in> set bids" "k = bid_display X b" "bm_get sts b = Some n"
proof -
  have "bm_get (shard_states X sts bids) k = Some n"
    using assms by (simp add: bm_ok_get_iff shard_states_def)
  then have "(k, n) \<in> set (List.map_filter (\<lambda>b. map_option (\<lambda>n. (bid_display X b, n)) (bm_get sts b)) bids)"
    by (simp add: shard_states_def bm_get_from_list) (metis map_of_SomeD set_rev)
  then show thesis using that by (auto simp: mem_map_filter)
qed

lemma keys_from_list: "fst ` set (bm_from_list es) = fst ` set es"
proof (rule set_eqI)
  fix k
  show "k \<in> fst ` set (bm_from_list es) \<longleftrightarrow> k \<in> fst ` set es"
    unfolding bm_contains_iff [of "bm_from_list es", symmetric]
    by (simp add: bm_contains_def bm_get_from_list map_of_eq_None_iff del: not_None_eq)
qed

lemma shard_states_keys:
  "fst ` set (shard_states X sts bids) = bid_display X ` {b \<in> set bids. bm_get sts b \<noteq> None}"
proof -
  have "fst ` set (shard_states X sts bids)
      = fst ` set (List.map_filter (\<lambda>b. map_option (\<lambda>n. (bid_display X b, n)) (bm_get sts b)) bids)"
    by (simp only: shard_states_def keys_from_list)
  also have "\<dots> = bid_display X ` {b \<in> set bids. bm_get sts b \<noteq> None}"
    by (induction bids) (auto simp: map_filter_simps split: option.splits)
  finally show ?thesis .
qed

lemma exported_shard:
  assumes "reads_bids X" "keyed g"
  shows "own_keys X (shard_states X (states g) bids)"
    "set (shard_bids X (shard_states X (states g) bids)) = {b \<in> set bids. bm_get (states g) b \<noteq> None}"
    "bm_get (states (shard_graph X (shard_states X (states g) bids) edges)) b = Some n \<Longrightarrow> bm_get (states g) b = Some n"
proof -
  have own: "nd_bid n = b" if "bm_get (states g) b = Some n" for b n
    using assms(2) that by (auto simp: keyed_def list_all_iff bm_ok_get_iff)
  show "own_keys X (shard_states X (states g) bids)"
    using assms(1) own by (auto simp: own_keys_def list_all_iff reads_bids_def elim!: shard_state_in)
  show "set (shard_bids X (shard_states X (states g) bids)) = {b \<in> set bids. bm_get (states g) b \<noteq> None}"
  proof (rule set_eqI)
    fix b
    have "b \<in> set (shard_bids X (shard_states X (states g) bids))
        \<longleftrightarrow> (\<exists>k \<in> fst ` set (shard_states X (states g) bids). ok_of (bid_try_from X k) = Some b)"
      by (simp add: shard_bids_def mem_map_filter bm_keys_def)
    also have "\<dots> \<longleftrightarrow> b \<in> {b \<in> set bids. bm_get (states g) b \<noteq> None}"
      unfolding shard_states_keys using assms(1) by (auto simp: reads_bids_def ok_of_def)
    finally show "b \<in> set (shard_bids X (shard_states X (states g) bids))
        \<longleftrightarrow> b \<in> {b \<in> set bids. bm_get (states g) b \<noteq> None}" .
  qed
  assume "bm_get (states (shard_graph X (shard_states X (states g) bids) edges)) b = Some n"
  then have "(b, n) \<in> set (List.map_filter (\<lambda>(k, n). map_option (\<lambda>b. (b, n)) (ok_of (bid_try_from X k)))
      (shard_states X (states g) bids))"
    by (simp add: shard_graph_def bm_get_from_list) (metis map_of_SomeD set_rev)
  then show "bm_get (states g) b = Some n"
    using assms(1) by (auto simp: mem_map_filter reads_bids_def ok_of_def elim!: shard_state_in)
qed

lemma filter_keys_get: "bm_get (filter (\<lambda>(k, _). Q k) m) b = (if Q b then bm_get m b else None)"
  by (induction m) (auto simp: bm_get_Cons)

lemma unload_total: "\<exists>V' r. unload_shard X env P D k V = Some (V', r)"
  by (simp add: unload_shard_def remove_event Let_def case_prod_beta split: option.splits)

lemma unload_nodes:
  assumes "viewer_inv X env V" "edges_in_ok P" "unload_shard X env P D k V = Some (V', r)"
    "bm_get (bb_states (vw_inner V')) b = Some n"
  shows "bm_get (bb_states (vw_inner V)) b = Some n"
proof -
  have inv: "base_inv (vw_inner V)" using assms(1) by (simp add: viewer_inv_def)
  show ?thesis
    using assms(3,4)
    by (auto simp: unload_shard_def remove_event Let_def case_prod_beta remove_nodes_fields(1) [OF inv assms(2)]
        filter_keys_get split: option.splits if_splits)
qed

text \<open>Every node is as in the graph, and each loaded shard is the part of the graph that \<open>f\<close> says.\<close>

definition shows_graph :: "'a id_ext_scheme \<Rightarrow> build_env \<Rightarrow> belief_graph \<Rightarrow> (string \<Rightarrow> bid list) \<Rightarrow> 'p viewer \<Rightarrow> bool" where
  "shows_graph X env g f V \<longleftrightarrow> viewer_inv X env V
     \<and> (\<forall>b n. bm_get (bb_states (vw_inner V)) b = Some n \<longrightarrow> b = program_bid X env \<or> bm_get (states g) b = Some n)
     \<and> (\<forall>k bids. bm_get (vw_loaded V) k = Some bids \<longrightarrow> set bids = {b \<in> set (f k). bm_get (states g) b \<noteq> None})"

lemma put_exported:
  fixes X :: "'a query_ext_scheme"
  assumes "shows_graph X env g f V" "bm_get (vw_loaded V) k = None" "reads_bids X" "keyed g" "edges_in_ok P"
    "shard_content J X k json = Inr (shard_states X (states g) (f k), edges)"
    "put_shard J X P DT k json V = (V', r)"
  shows "shows_graph X env g f V' \<and> bm_contains (vw_loaded V') k"
proof -
  note ex = exported_shard [OF assms(3,4), of "f k"]
  note keyed = shard_graph_keyed [OF ex(1), of edges]
  have proper: "proper_shard J X k json" by (simp add: proper_shard_def assms(6) ex(1))
  have V': "V' = V\<lparr>vw_inner := merge_graph X P DT (shard_graph X (shard_states X (states g) (f k)) edges) None (vw_inner V),
      vw_loaded := bm_insert k (shard_bids X (shard_states X (states g) (f k))) (vw_loaded V)\<rparr>"
    using assms(7) by (auto simp: put_shard_def assms(6) Let_def)
  have "load_shard J X env P DT k json V = Some (V', r)"
    using assms(2,7) by (simp add: load_shard_def bm_contains_def)
  from load_inv [OF _ assms(5) proper this] have "viewer_inv X env V'"
    using assms(1) by (simp add: shows_graph_def)
  moreover have "b = program_bid X env \<or> bm_get (states g) b = Some n"
    if "bm_get (bb_states (vw_inner V')) b = Some n" for b n
  proof -
    have "bm_get (bb_states (vw_inner V)) b = Some n \<Longrightarrow> b = program_bid X env \<or> bm_get (states g) b = Some n"
      using assms(1) by (simp add: shows_graph_def)
    then show ?thesis
      using that ex(3) [of edges b n] by (auto simp: V' merged_node [OF keyed] split: option.splits if_splits)
  qed
  moreover have "set bids = {b \<in> set (f j). bm_get (states g) b \<noteq> None}"
    if "bm_get (vw_loaded V') j = Some bids" for j bids
    using that assms(1) ex(2) by (auto simp: V' shows_graph_def split: if_splits)
  ultimately show ?thesis by (simp add: shows_graph_def) (simp add: V' bm_contains_def)
qed

lemma load_exported:
  assumes "shows_graph X env g f V" "reads_bids X" "keyed g" "edges_in_ok P"
    "shard_content J X k json = Inr (shard_states X (states g) (f k), edges)"
  obtains V' r where "load_shard J X env P DT k json V = Some (V', r)" "shows_graph X env g f V'"
    "bm_contains (vw_loaded V') k" "\<And>j. bm_contains (vw_loaded V) j \<Longrightarrow> bm_contains (vw_loaded V') j"
proof -
  have grown: "bm_contains (vw_loaded V') j"
    if "put_shard J X P DT k json W = (V', r)" "bm_contains (vw_loaded W) j \<or> j = k" for W V' r j
    using that by (auto simp: put_shard_def assms(5) Let_def bm_contains_def)
  show thesis
  proof (cases "bm_get (vw_loaded V) k")
    case None
    obtain V' r where p: "put_shard J X P DT k json V = (V', r)" by fastforce
    show thesis
      by (rule that [of V' r]) (use put_exported [OF assms(1) None assms(2-5) p] grown [OF p] p None in
        \<open>auto simp: load_shard_def bm_contains_def\<close>)
  next
    case (Some bids)
    obtain V1 r1 where u: "unload_shard X env P (fst DT) k V = Some (V1, r1)" using unload_total by blast
    have inv: "viewer_inv X env V" using assms(1) by (simp add: shows_graph_def)
    note inv1 = unload_inv [OF inv assms(4) u]
    have sg: "shows_graph X env g f V1"
      using assms(1) inv1 unload_nodes [OF inv assms(4) u] by (auto simp: shows_graph_def split: if_splits)
    have none: "bm_get (vw_loaded V1) k = None" using inv1 by simp
    obtain V' r where p: "put_shard J X P DT k json V1 = (V', r)" by fastforce
    have other: "bm_contains (vw_loaded V1) j" if "bm_contains (vw_loaded V) j" "j \<noteq> k" for j
      using that inv1 by (simp add: bm_contains_def)
    show thesis
      by (rule that [of V' r]) (use put_exported [OF sg none assms(2-5) p] grown [OF p] other p Some u inv1 in
        \<open>auto simp: load_shard_def bm_contains_def\<close>)
  qed
qed

text \<open>What a page does at its start: one shard after the other.\<close>

fun load_all ::
    "viewer_ops \<Rightarrow> 'a query_ext_scheme \<Rightarrow> build_env \<Rightarrow> ('p, 'c) base_ops_scheme
      \<Rightarrow> discover \<times> ((bid \<times> bid) list \<Rightarrow> bid list \<Rightarrow> (bid \<times> bid) list) \<Rightarrow> (string \<times> string) list \<Rightarrow> 'p viewer
      \<Rightarrow> 'p viewer option" where
  "load_all J X env P DT [] V = Some V"
| "load_all J X env P DT ((k, json) # shards) V =
     Option.bind (load_shard J X env P DT k json V) (\<lambda>(V, _). load_all J X env P DT shards V)"

lemma load_all_exported:
  assumes "shows_graph X env g f V" "reads_bids X" "keyed g" "edges_in_ok P"
    "\<And>k json. (k, json) \<in> set shards \<Longrightarrow>
       \<exists>edges. shard_content J X k json = Inr (shard_states X (states g) (f k), edges)"
  shows "\<exists>V'. load_all J X env P DT shards V = Some V' \<and> shows_graph X env g f V'
    \<and> (\<forall>k. k \<in> fst ` set shards \<or> bm_contains (vw_loaded V) k \<longrightarrow> bm_contains (vw_loaded V') k)"
  using assms(1,5)
proof (induction shards arbitrary: V)
  case (Cons sh shards)
  obtain k json where sh: "sh = (k, json)" by (cases sh)
  obtain edges where "shard_content J X k json = Inr (shard_states X (states g) (f k), edges)"
    using Cons.prems(2) sh by auto
  from load_exported [OF Cons.prems(1) assms(2-4) this] obtain V1 r where
    V1: "load_shard J X env P DT k json V = Some (V1, r)" "shows_graph X env g f V1" "bm_contains (vw_loaded V1) k"
      "\<And>j. bm_contains (vw_loaded V) j \<Longrightarrow> bm_contains (vw_loaded V1) j" by metis
  with Cons.IH [OF V1(2)] Cons.prems(2) show ?case by (auto simp: sh)
qed simp

lemma shown_bids:
  assumes "shows_graph X env g f V"
  shows "loaded_bids V = (\<Union>k\<in>{k. bm_contains (vw_loaded V) k}. {b \<in> set (f k). bm_get (states g) b \<noteq> None})"
proof -
  have ok: "bm_ok (vw_loaded V)" using assms by (simp add: shows_graph_def viewer_inv_def)
  have "set bids = {b \<in> set (f k). bm_get (states g) b \<noteq> None} \<and> bm_contains (vw_loaded V) k"
    if "(k, bids) \<in> set (vw_loaded V)" for k bids
    using that assms ok by (simp add: shows_graph_def bm_ok_get_iff [symmetric] bm_contains_def)
  moreover have "\<exists>bids. (k, bids) \<in> set (vw_loaded V)" if "bm_contains (vw_loaded V) k" for k
    using that ok by (auto simp: bm_contains_def bm_ok_get_iff)
  ultimately have "b \<in> loaded_bids V \<longleftrightarrow> (\<exists>k. bm_contains (vw_loaded V) k \<and> b \<in> set (f k) \<and> bm_get (states g) b \<noteq> None)"
    for b unfolding loaded_bids_def bm_values_def set_concat set_map image_image by force
  then show ?thesis by blast
qed

lemma partition_covers:
  assumes "partition_graph X pathmap depth g = Some Pt" "bm_ok (states g)" "bm_get (states g) b \<noteq> None"
  shows "b \<in> set (gp_global_states Pt) \<or> (\<exists>r \<in> fst ` set (gp_networks Pt). b \<in> set (net_states Pt r))"
proof -
  obtain n where n: "bm_get (states g) b = Some n" using assms(3) by auto
  show ?thesis
  proof (cases "Trace \<in> nd_kind n \<or> owner_of X pathmap depth b = None")
    case True
    then show ?thesis using partition_parts(1) [OF assms(1,2)] n by blast
  next
    case False
    then obtain r where r: "owner_of X pathmap depth b = Some r" by auto
    with False n have "b \<in> set (net_states Pt r)" using partition_parts(2) [OF assms(1,2)] by blast
    then show ?thesis using owner_exported [OF assms(1,2) r] by auto
  qed
qed

text \<open>
  C38. An export and the viewer agree: a viewer that loads the global shard and those of all networks holds exactly
  the nodes of the exported graph, each as it was (next to the node of the program itself).
\<close>

theorem export_restored:
  assumes "partition_graph X pathmap depth g = Some Pt" "keyed g" "reads_bids X" "edges_in_ok P"
    "from_manifest J X env P manifest_json entry = Inr V"
    "vo_global J global_json = Inr (global_shard_of X g Pt)"
    "map (vo_network J) jsons = map (\<lambda>net. Inr (network_shard_of X g Pt net)) (gp_networks Pt)"
  shows "\<exists>V'. load_all J X env P DT
        ((''global'', global_json) # zip (map (\<lambda>net. bref_display (fst net)) (gp_networks Pt)) jsons) V = Some V'
    \<and> insert (program_bid X env) (held_bids V') = insert (program_bid X env) (set (bm_keys (states g)))
    \<and> (b = program_bid X env \<or> bm_get (bb_states (vw_inner V')) b = bm_get (states g) b)"
proof -
  define f where "f k = (if k = ''global'' then gp_global_states Pt else net_states Pt (THE r. bref_display r = k))" for k
  have f: "f ''global'' = gp_global_states Pt" "\<And>r. f (bref_display r) = net_states Pt r"
    by (simp_all add: f_def bref_display_eq bref_not_global)
  have ok: "bm_ok (states g)" using assms(2) by (simp add: keyed_def)
  let ?shards = "(''global'', global_json) # zip (map (\<lambda>net. bref_display (fst net)) (gp_networks Pt)) jsons"
  have len: "length jsons = length (gp_networks Pt)" using assms(7) by (metis length_map)
  have start: "shows_graph X env g f V"
  proof -
    have "b = program_bid X env" if "bm_get (bb_states (vw_inner V)) b = Some n" for b n
      using opened_inv [OF assms(5)] that held_iff [of b V] by auto
    then show ?thesis using opened_inv [OF assms(5)] by (auto simp: shows_graph_def)
  qed
  have content: "\<exists>edges. shard_content J X k json = Inr (shard_states X (states g) (f k), edges)"
    if "(k, json) \<in> set ?shards" for k json
  proof (cases "(k, json) = (''global'', global_json)")
    case True
    then show ?thesis using assms(6) by (simp add: shard_content_def f global_shard_of_def)
  next
    case False
    with that have "(k, json) \<in> set (zip (map (\<lambda>net. bref_display (fst net)) (gp_networks Pt)) jsons)" by auto
    then obtain i where i: "i < length jsons" "k = bref_display (fst (gp_networks Pt ! i))" "json = jsons ! i"
      using len by (auto simp: in_set_zip)
    have "vo_network J json = Inr (network_shard_of X g Pt (gp_networks Pt ! i))"
      using arg_cong [OF assms(7), of "\<lambda>xs. xs ! i"] i len by simp
    then show ?thesis
      by (simp add: shard_content_def i(2) bref_not_global f network_shard_of_def case_prod_beta)
  qed
  from load_all_exported [OF start assms(3,2,4) content, where DT = DT] obtain V' where
    V': "load_all J X env P DT ?shards V = Some V'" "shows_graph X env g f V'"
      "\<And>k. k \<in> fst ` set ?shards \<Longrightarrow> bm_contains (vw_loaded V') k" by blast
  have "set (bm_keys (states g)) \<subseteq> loaded_bids V'"
  proof
    fix b assume "b \<in> set (bm_keys (states g))"
    then have b: "bm_get (states g) b \<noteq> None" by (simp add: bm_keys_def bm_get_def map_of_eq_None_iff)
    have keys: "fst ` set ?shards = insert ''global'' (bref_display ` fst ` set (gp_networks Pt))"
      using len by (simp add: set_map [symmetric] del: set_map)  (simp add: image_image)
    from partition_covers [OF assms(1) ok b]
    have "\<exists>k. k \<in> fst ` set ?shards \<and> b \<in> set (f k)"
    proof
      assume "b \<in> set (gp_global_states Pt)"
      then show ?thesis unfolding keys by (intro exI [of _ "''global''"]) (simp add: f)
    next
      assume "\<exists>r \<in> fst ` set (gp_networks Pt). b \<in> set (net_states Pt r)"
      then obtain r where "r \<in> fst ` set (gp_networks Pt)" "b \<in> set (net_states Pt r)" by blast
      then show ?thesis unfolding keys by (intro exI [of _ "bref_display r"]) (simp add: f)
    qed
    then obtain k where "k \<in> fst ` set ?shards" "b \<in> set (f k)" by blast
    with V'(3) b show "b \<in> loaded_bids V'" unfolding shown_bids [OF V'(2)] by blast
  qed
  moreover have "loaded_bids V' \<subseteq> set (bm_keys (states g))"
    unfolding shown_bids [OF V'(2)] by (auto simp: bm_keys_def bm_get_def dest: map_of_SomeD intro: rev_image_eqI)
  ultimately have held: "insert (program_bid X env) (held_bids V') = insert (program_bid X env) (set (bm_keys (states g)))"
      "set (bm_keys (states g)) \<subseteq> held_bids V'"
    using V'(2) by (auto simp: shows_graph_def viewer_inv_def)
  moreover have "b = program_bid X env \<or> bm_get (bb_states (vw_inner V')) b = bm_get (states g) b"
  proof (cases "bm_get (bb_states (vw_inner V')) b")
    case None
    then have "b \<notin> set (bm_keys (states g))" using held(2) by (auto simp: held_iff)
    then have "bm_get (states g) b = None" by (simp add: bm_keys_def bm_get_def map_of_eq_None_iff)
    with None show ?thesis by simp
  next
    case (Some n)
    then have "b = program_bid X env \<or> bm_get (states g) b = Some n" using V'(2) by (simp add: shows_graph_def)
    with Some show ?thesis by auto
  qed
  ultimately show ?thesis using V'(1) by blast
qed

section \<open>The navigation tree\<close>

text \<open>The nodes below a root, by their parents.\<close>

inductive under_root :: "(string, nav_node) bmap \<Rightarrow> string \<Rightarrow> string \<Rightarrow> bool" for tbl root where
  root: "under_root tbl root root"
| child: "under_root tbl root p \<Longrightarrow> bm_get tbl b = Some n \<Longrightarrow> nv_parent n = Some p \<Longrightarrow> under_root tbl root b"

text \<open>
  A tree: the root has no parent, every other node is a child of its parent, every child has its node as parent
  and is listed once, and all are below the root.
\<close>

definition is_tree :: "string \<Rightarrow> (string, nav_node) bmap \<Rightarrow> bool" where
  "is_tree root tbl \<longleftrightarrow>
     (\<exists>n. bm_get tbl root = Some n \<and> nv_parent n = None)
     \<and> (\<forall>b n. bm_get tbl b = Some n \<longrightarrow>
          nv_bid n = b \<and> distinct (nv_children n) \<and> under_root tbl root b
          \<and> (\<forall>c\<in>set (nv_children n). \<exists>m. bm_get tbl c = Some m \<and> nv_parent m = Some b)
          \<and> (b = root \<or> (\<exists>p m. nv_parent n = Some p \<and> bm_get tbl p = Some m \<and> b \<in> set (nv_children m))))"

lemma tree_node:
  assumes "is_tree root tbl" "bm_get tbl b = Some n"
  shows "nv_bid n = b" "distinct (nv_children n)" "under_root tbl root b"
    "c \<in> set (nv_children n) \<Longrightarrow> \<exists>m. bm_get tbl c = Some m \<and> nv_parent m = Some b"
    "b = root \<or> (\<exists>p m. nv_parent n = Some p \<and> bm_get tbl p = Some m \<and> b \<in> set (nv_children m))"
  using assms by (simp_all add: is_tree_def)

lemma under_root_mono:
  assumes "under_root tbl root b"
    "\<And>c n. bm_get tbl c = Some n \<Longrightarrow> \<exists>m. bm_get tbl' c = Some m \<and> nv_parent m = nv_parent n"
  shows "under_root tbl' root b"
  using assms(1)
proof induction
  case (child p b n)
  then obtain m where "bm_get tbl' b = Some m" "nv_parent m = Some p" using assms(2) by metis
  with child.IH show ?case by (rule under_root.child)
qed (rule under_root.root)

lemma own_parent: "under_root tbl root b \<Longrightarrow> bm_get tbl b = Some n \<Longrightarrow> bm_get tbl root = Some r \<Longrightarrow> nv_parent r = None
    \<Longrightarrow> nv_parent n \<noteq> Some b"
proof (induction arbitrary: n rule: under_root.induct)
  case (child p b m)
  then show ?case by (cases "p = b") auto
qed auto

text \<open>A new leaf under a node of a tree.\<close>

lemma grown_tree:
  assumes "is_tree root tbl" "bm_get tbl p = Some q" "bm_get tbl b = None"
    "nv_bid n = b" "nv_parent n = Some p" "nv_children n = []"
  shows "is_tree root (add_child p b (bm_insert b n tbl))"
proof -
  let ?tbl = "add_child p b (bm_insert b n tbl)"
  have pb: "p \<noteq> b" using assms(2,3) by auto
  have get: "bm_get ?tbl c = (if c = b then Some n else if c = p then Some (q\<lparr>nv_children := nv_children q @ [b]\<rparr>) else bm_get tbl c)"
    for c using pb assms(2) by (simp add: add_child_def)
  have old: "\<exists>m'. bm_get ?tbl c = Some m' \<and> nv_parent m' = nv_parent m" if "bm_get tbl c = Some m" for c m
    using that assms(2,3) by (auto simp: get)
  have below_p: "under_root ?tbl root p"
    by (rule under_root_mono [OF tree_node(3) [OF assms(1,2)] old])
  have "b \<notin> set (nv_children q)" using tree_node(4) [OF assms(1,2), of b] assms(3) by auto
  have node: "nv_bid m = c \<and> distinct (nv_children m) \<and> under_root ?tbl root c
      \<and> (\<forall>d\<in>set (nv_children m). \<exists>m'. bm_get ?tbl d = Some m' \<and> nv_parent m' = Some c)
      \<and> (c = root \<or> (\<exists>p m'. nv_parent m = Some p \<and> bm_get ?tbl p = Some m' \<and> c \<in> set (nv_children m')))"
    if m: "bm_get ?tbl c = Some m" for c m
  proof (cases "c = b")
    case True
    then have m: "m = n" using m by (simp add: get)
    have "bm_get ?tbl b = Some n" "\<exists>m'. bm_get ?tbl p = Some m' \<and> b \<in> set (nv_children m')"
      using pb by (simp_all add: get)
    with under_root.child [OF below_p this(1) assms(5)] show ?thesis using assms(4-6) True by (simp add: m)
  next
    case False
    obtain k where k: "bm_get tbl c = Some k" "nv_parent m = nv_parent k" "nv_bid m = nv_bid k"
        "nv_children m = nv_children k @ (if c = p then [b] else [])"
      using m False assms(2) by (auto simp: get split: if_splits)
    then have tree: "nv_bid k = c" "distinct (nv_children k)" "under_root tbl root c"
        "\<forall>d\<in>set (nv_children k). \<exists>m'. bm_get tbl d = Some m' \<and> nv_parent m' = Some c"
        "c = root \<or> (\<exists>p m'. nv_parent k = Some p \<and> bm_get tbl p = Some m' \<and> c \<in> set (nv_children m'))"
      using assms(1) unfolding is_tree_def by blast+
    have "under_root ?tbl root c" by (rule under_root_mono [OF tree(3) old])
    moreover have "distinct (nv_children m)"
      using k tree(2) \<open>b \<notin> set (nv_children q)\<close> assms(2) by auto
    moreover have "\<exists>m'. bm_get ?tbl d = Some m' \<and> nv_parent m' = Some c" if "d \<in> set (nv_children m)" for d
    proof (cases "d \<in> set (nv_children k)")
      case True
      then show ?thesis using tree(4) old by metis
    next
      case False
      with that k have "d = b" "c = p" by (auto split: if_splits)
      then show ?thesis using assms(5) by (simp add: get)
    qed
    moreover have "c = root \<or> (\<exists>p m'. nv_parent m = Some p \<and> bm_get ?tbl p = Some m' \<and> c \<in> set (nv_children m'))"
      using tree(5)
    proof
      assume "\<exists>p m'. nv_parent k = Some p \<and> bm_get tbl p = Some m' \<and> c \<in> set (nv_children m')"
      then obtain r m' where r: "nv_parent k = Some r" "bm_get tbl r = Some m'" "c \<in> set (nv_children m')" by blast
      then have "\<exists>m''. bm_get ?tbl r = Some m'' \<and> c \<in> set (nv_children m'')" using assms(2,3) by (auto simp: get)
      then show ?thesis using r k by auto
    qed simp
    ultimately show ?thesis using tree(1) k(3) by blast
  qed
  moreover have "\<exists>m. bm_get ?tbl root = Some m \<and> nv_parent m = None"
    using assms(1) old unfolding is_tree_def by metis
  ultimately show ?thesis unfolding is_tree_def by blast
qed

lemma pop_to_props: "stack \<noteq> [] \<Longrightarrow> pop_to d stack \<noteq> [] \<and> set (pop_to d stack) \<subseteq> set stack"
  by (induction d stack rule: pop_to.induct) auto

definition nav_acc_ok :: "string \<Rightarrow> (string, nav_node) bmap \<times> (string \<times> nat) list \<Rightarrow> bool" where
  "nav_acc_ok root acc \<longleftrightarrow>
     is_tree root (fst acc) \<and> snd acc \<noteq> [] \<and> (\<forall>(b, d)\<in>set (snd acc). bm_contains (fst acc) b)"

lemma contains_insert: "bm_contains (bm_insert k v m) j \<longleftrightarrow> j = k \<or> bm_contains m j"
  by (simp add: bm_contains_def)

lemma add_child_contains: "bm_contains (add_child p c tbl) b = bm_contains tbl b"
  by (auto simp: add_child_def bm_contains_def split: option.splits)

lemma nav_entry_ok:
  assumes "nav_acc_ok root acc"
  shows "nav_acc_ok root (nav_entry X codecs sts root e acc)"
    "bm_contains (fst (nav_entry X codecs sts root e acc)) c
       \<longleftrightarrow> bm_contains (fst acc) c
         \<or> c = bid_display X (fst (snd e)) \<and> c \<noteq> root \<and> \<not> is_index_alias (snd (snd e))"
proof -
  obtain path b order where e: "e = (path, b, order)" by (cases e)
  obtain tbl stack where acc: "acc = (tbl, stack)" by (cases acc)
  let ?stack = "pop_to (nav_depth order) stack"
  let ?b = "bid_display X b"
  have st: "?stack \<noteq> []" "set ?stack \<subseteq> set stack" "is_tree root tbl" "\<forall>(b, d)\<in>set stack. bm_contains tbl b"
    using assms pop_to_props [of stack "nav_depth order"] by (auto simp: nav_acc_ok_def acc)
  then have "hd ?stack \<in> set stack" using hd_in_set by blast
  then have "bm_contains tbl (fst (hd ?stack))" using st(4) by (metis (mono_tags, lifting) case_prod_beta)
  then obtain q where q: "bm_get tbl (fst (hd ?stack)) = Some q" by (auto simp: bm_contains_def)
  have "nav_acc_ok root (nav_entry X codecs sts root e acc)
      \<and> (bm_contains (fst (nav_entry X codecs sts root e acc)) c
         \<longleftrightarrow> bm_contains tbl c \<or> c = ?b \<and> c \<noteq> root \<and> \<not> is_index_alias order)"
  proof (cases "?b = root \<or> is_index_alias order \<or> bm_contains tbl ?b")
    case True
    then show ?thesis
      using assms st by (auto simp: nav_entry_def e acc nav_acc_ok_def Let_def split: option.splits)
  next
    case False
    then obtain n where n: "nav_entry X codecs sts root e acc
        = (add_child (fst (hd ?stack)) ?b (bm_insert ?b n tbl), (?b, nav_depth order) # ?stack)"
        "nv_bid n = ?b" "nv_parent n = Some (fst (hd ?stack))" "nv_children n = []"
      by (simp add: nav_entry_def e acc Let_def case_prod_beta)
    have "bm_get tbl ?b = None" using False by (simp add: bm_contains_def)
    from grown_tree [OF st(3) q this n(2-4)] show ?thesis
      using st(2,4) False by (auto simp: n(1) nav_acc_ok_def add_child_contains contains_insert)
  qed
  then show "nav_acc_ok root (nav_entry X codecs sts root e acc)"
    "bm_contains (fst (nav_entry X codecs sts root e acc)) c
       \<longleftrightarrow> bm_contains (fst acc) c
         \<or> c = bid_display X (fst (snd e)) \<and> c \<noteq> root \<and> \<not> is_index_alias (snd (snd e))"
    by (simp_all add: e acc)
qed

lemma nav_entries_ok:
  assumes "nav_acc_ok root acc"
  shows "nav_acc_ok root (fold (nav_entry X codecs sts root) es acc)
    \<and> (bm_contains (fst (fold (nav_entry X codecs sts root) es acc)) c
       \<longleftrightarrow> bm_contains (fst acc) c
         \<or> c \<noteq> root \<and> (\<exists>(path, b, order)\<in>set es. c = bid_display X b \<and> \<not> is_index_alias order))"
  using assms
proof (induction es arbitrary: acc)
  case (Cons e es)
  note IH = Cons.IH [OF nav_entry_ok(1) [OF Cons.prems, of X codecs sts e]]
  obtain path b order where e: "e = (path, b, order)" by (cases e)
  show ?case
    using IH nav_entry_ok(2) [OF Cons.prems, of X codecs sts e c] by (simp add: e) blast
qed simp

text \<open>
  C39. The table of a network is a tree, which has the network as its root and otherwise each node that the network or
  one of its subnetworks lists, except under its second path.
\<close>

theorem nav_network_tree:
  assumes "nav_network X codecs paths depth sts net_bid pm visited = Some (tbl, visited')"
    "recursive_map X paths depth pm visited = Some (es, visited')"
  shows "is_tree (bid_display X net_bid) tbl
    \<and> (bm_contains tbl c \<longleftrightarrow>
         c = bid_display X net_bid \<or> list_ex (\<lambda>(path, b, order). c = bid_display X b \<and> \<not> is_index_alias order) es)"
proof -
  let ?root = "bid_display X net_bid"
  obtain found where tbl: "tbl = fst (fold (nav_entry X codecs sts ?root) es
      ([(?root, network_node X codecs sts net_bid found)], [(?root, 0)]))"
    using assms by (auto simp: nav_network_def Let_def split: option.splits)
  have "nav_acc_ok ?root ([(?root, network_node X codecs sts net_bid found)], [(?root, 0)])"
    by (auto simp: nav_acc_ok_def is_tree_def bm_get_Cons network_node_def Let_def bm_contains_def under_root.root)
  from nav_entries_ok [OF this, of X codecs sts es c] show ?thesis
    by (auto simp: tbl nav_acc_ok_def list_ex_iff bm_contains_def bm_get_Cons)
qed

text \<open>So what is done to the nodes of a network afterwards changes nothing.\<close>

lemma without_self_id:
  assumes "is_tree root tbl" "bm_get tbl b = Some n"
  shows "without_self root b n = n"
proof -
  obtain r where r: "bm_get tbl root = Some r" "nv_parent r = None" using assms(1) by (auto simp: is_tree_def)
  have n: "under_root tbl root b" "nv_bid n = b" using assms by (auto simp: is_tree_def)
  have "root \<notin> set (nv_children r)" using tree_node(4) [OF assms(1) r(1), of root] r by auto
  then have "filter (\<lambda>c. c \<noteq> root) (nv_children r) = nv_children r" by (intro filter_True) auto
  then show ?thesis using own_parent [OF n(1) assms(2) r] n(2) r(1) assms(2) by (auto simp: without_self_def)
qed

section \<open>The relations of a context\<close>

lemma context_sinks:
  assumes "base_inv (bc_bb ctx)"
  shows "map (\<lambda>r. (nd_bid (er_other r), er_weight r)) (sinks X P ctx)
    = map (\<lambda>e. (e_sink e, e_weights e))
        (filter (\<lambda>e. e_source e = nd_bid (bc_node ctx)) (g_edges (bb_relations (bc_bb ctx))))"
  unfolding sinks_def
proof (subst map_filter_total [where h = "\<lambda>e. (e_sink e, e_weights e)"], goal_cases)
  case (1 e)
  have "e \<in> set (g_edges (bb_relations (bc_bb ctx)))" using 1 by simp
  then obtain n where n: "bm_get (bb_states (bc_bb ctx)) (e_sink e) = Some n" "nd_bid n = e_sink e"
    using base_inv_state [OF assms] base_inv_edges(2) [OF assms] by blast
  then obtain r where r: "extended_relation_new X P (e_sink e) (bc_root_net ctx) (e_weights e) (bc_bb ctx) = Some r"
    using extended_relation_some(1) [of X P "e_sink e" "bc_root_net ctx" "e_weights e" "bc_bb ctx"] by auto
  from extended_relation_some(2) [OF r] n show ?case by (simp add: r)
qed simp

definition by_key :: "(bid \<times> u16) list \<Rightarrow> bid list" where
  "by_key xs = map fst (linorder_class.sort_key snd xs)"

definition neighbours :: "weight_kind \<Rightarrow> (bid \<times> weight_set) list \<Rightarrow> (bid \<times> u16) list" where
  "neighbours kind rels =
     List.map_filter (\<lambda>(b, ws). map_option (\<lambda>w. (b, unwrap_or (sort_key w) 0)) (ws_get ws kind)) rels"

definition pair_at :: "graph_map \<Rightarrow> weight_kind \<Rightarrow> (bid \<times> u16) list \<times> (bid \<times> u16) list" where
  "pair_at m kind = unwrap_or (bm_get m kind) ([], [])"

lemma note_weights:
  "distinct (map fst kws) \<Longrightarrow> pair_at (fold (note_source b) kws m) kind =
     (fst (pair_at m kind) @ (case map_of kws kind of None \<Rightarrow> [] | Some w \<Rightarrow> [(b, unwrap_or (sort_key w) 0)]),
      snd (pair_at m kind))"
  "distinct (map fst kws) \<Longrightarrow> pair_at (fold (note_sink b) kws m) kind =
     (fst (pair_at m kind),
      snd (pair_at m kind) @ (case map_of kws kind of None \<Rightarrow> [] | Some w \<Rightarrow> [(b, unwrap_or (sort_key w) 0)]))"
proof -
  have one: "pair_at (note_source b (k, w) m) kind =
      (fst (pair_at m kind) @ (if k = kind then [(b, unwrap_or (sort_key w) 0)] else []), snd (pair_at m kind))"
    "pair_at (note_sink b (k, w) m) kind =
      (fst (pair_at m kind), snd (pair_at m kind) @ (if k = kind then [(b, unwrap_or (sort_key w) 0)] else []))"
    for m k w
    by (auto simp: pair_at_def note_source_def note_sink_def unwrap_or_def split: prod.splits option.splits)
  show "distinct (map fst kws) \<Longrightarrow> pair_at (fold (note_source b) kws m) kind =
     (fst (pair_at m kind) @ (case map_of kws kind of None \<Rightarrow> [] | Some w \<Rightarrow> [(b, unwrap_or (sort_key w) 0)]),
      snd (pair_at m kind))"
  proof (induction kws arbitrary: m)
    case (Cons kw kws)
    obtain k w where kw: "kw = (k, w)" by (cases kw)
    have "map_of kws k = None" using Cons.prems by (simp add: kw map_of_eq_None_iff)
    with Cons show ?case by (auto simp: kw one)
  qed simp
  show "distinct (map fst kws) \<Longrightarrow> pair_at (fold (note_sink b) kws m) kind =
     (fst (pair_at m kind),
      snd (pair_at m kind) @ (case map_of kws kind of None \<Rightarrow> [] | Some w \<Rightarrow> [(b, unwrap_or (sort_key w) 0)]))"
  proof (induction kws arbitrary: m)
    case (Cons kw kws)
    obtain k w where kw: "kw = (k, w)" by (cases kw)
    have "map_of kws k = None" using Cons.prems by (simp add: kw map_of_eq_None_iff)
    with Cons show ?case by (auto simp: kw one)
  qed simp
qed

lemma note_relations:
  assumes "list_all (\<lambda>r. ws_ok (er_weight r)) rs"
  shows "pair_at (fold (\<lambda>r. fold (note_source (nd_bid (er_other r))) (weights (er_weight r))) rs m) kind =
      (fst (pair_at m kind) @ neighbours kind (map (\<lambda>r. (nd_bid (er_other r), er_weight r)) rs), snd (pair_at m kind))"
    "pair_at (fold (\<lambda>r. fold (note_sink (nd_bid (er_other r))) (weights (er_weight r))) rs m) kind =
      (fst (pair_at m kind), snd (pair_at m kind) @ neighbours kind (map (\<lambda>r. (nd_bid (er_other r), er_weight r)) rs))"
proof -
  have d: "distinct (map fst (weights ws))" if "ws_ok ws" for ws
    using that bm_ok_distinct by (simp add: ws_ok_def)
  show "pair_at (fold (\<lambda>r. fold (note_source (nd_bid (er_other r))) (weights (er_weight r))) rs m) kind =
      (fst (pair_at m kind) @ neighbours kind (map (\<lambda>r. (nd_bid (er_other r), er_weight r)) rs), snd (pair_at m kind))"
    using assms
    by (induction rs arbitrary: m)
      (auto simp: note_weights d neighbours_def map_filter_simps ws_get_def bm_get_def split: option.splits)
  show "pair_at (fold (\<lambda>r. fold (note_sink (nd_bid (er_other r))) (weights (er_weight r))) rs m) kind =
      (fst (pair_at m kind), snd (pair_at m kind) @ neighbours kind (map (\<lambda>r. (nd_bid (er_other r), er_weight r)) rs))"
    using assms
    by (induction rs arbitrary: m)
      (auto simp: note_weights d neighbours_def map_filter_simps ws_get_def bm_get_def split: option.splits)
qed

lemma sorted_graph_get:
  "unwrap_or (bm_get (sorted_graph m) kind) ([], []) = (by_key (fst (pair_at m kind)), by_key (snd (pair_at m kind)))"
proof -
  have "bm_get (sorted_graph m) kind = map_option (\<lambda>(srcs, snks). (by_key srcs, by_key snks)) (bm_get m kind)"
    by (induction m) (auto simp: sorted_graph_def bm_get_Cons by_key_def)
  then show ?thesis by (cases "bm_get m kind") (auto simp: pair_at_def unwrap_or_def by_key_def)
qed

text \<open>
  C40. The context of a node groups all its relations by kind, those into it and those out of it, each in the order
  of their sort keys, and relations with equal keys in the order of the store.
\<close>

theorem node_context_graph:
  assumes "base_inv (bc_bb ctx)" "list_all (\<lambda>e. ws_ok (e_weights e)) (g_edges (bb_relations (bc_bb ctx)))"
  shows "unwrap_or (bm_get (nx_graph (node_context_of X P codecs ctx)) kind) ([], []) =
    (by_key (neighbours kind (map (\<lambda>e. (e_source e, e_weights e))
       (filter (\<lambda>e. e_sink e = nd_bid (bc_node ctx)) (g_edges (bb_relations (bc_bb ctx)))))),
     by_key (neighbours kind (map (\<lambda>e. (e_sink e, e_weights e))
       (filter (\<lambda>e. e_source e = nd_bid (bc_node ctx)) (g_edges (bb_relations (bc_bb ctx)))))))"
proof -
  have ok: "list_all (\<lambda>r. ws_ok (er_weight r)) rs"
    if "map (\<lambda>r. (nd_bid (er_other r), er_weight r)) rs = map (\<lambda>e. (f e, e_weights e)) (filter Q (g_edges (bb_relations (bc_bb ctx))))"
    for rs f Q
  proof -
    have "set (map er_weight rs) = set (map e_weights (filter Q (g_edges (bb_relations (bc_bb ctx)))))"
      using arg_cong [OF that, of "\<lambda>xs. set (map snd xs)"] by (simp add: comp_def)
    then show ?thesis using assms(2) unfolding list_all_iff by auto (metis (no_types, lifting) image_iff mem_Collect_eq)
  qed
  note seen = ok [OF context_sees_all [OF assms(1), of X P]] ok [OF context_sinks [OF assms(1), of X P]]
  show ?thesis
    by (simp add: node_context_of_def Let_def sorted_graph_get note_relations(2) [OF seen(2)] note_relations(1) [OF seen(1)]
        context_sees_all [OF assms(1)] context_sinks [OF assms(1)])
      (simp add: pair_at_def unwrap_or_def)
qed

section \<open>Where pages are told something else\<close>

text \<open>
  The anchor of a directory is lost on the way to its page: \<open>join\<close> keeps the anchor of what is joined, not
  the one of the directory.
\<close>

lemma network_anchor_lost:
  "normalize_path_extension text_ext_example (codec_create () ()) ''mynetwork#section'' = ''mynetwork/index.html''"
  by code_simp

text \<open>The predicate on kinds asks for no kinds but the given ones, so that nodes without a kind are networks too.\<close>

lemma kindless_listed:
  assumes "bm_ok (bb_states (vw_inner V))" "bm_get (bb_states (vw_inner V)) b = Some n" "nd_kind n \<subseteq> {Network}"
  shows "n \<in> set (get_networks X P D V)"
proof -
  let ?B = "index_sync (vw_inner V)"
  let ?sel = "filter_states X P ?B (PKind {Network}) None False"
  let ?Q = "\<lambda>(_, n). match_state X (PKind {Network}) n"
  have sel: "?sel = bm_from_list (filter ?Q (bb_states (vw_inner V)))"
    by (simp add: filter_states_def unwrap_or_def)
  have "bm_ok (filter ?Q (bb_states (vw_inner V)))"
    using assms(1) by (simp add: bm_ok_def sorted_wrt_map sorted_wrt_filter)
  then have "bm_get ?sel b = Some n"
    using assms by (simp add: sel bm_from_list_id bm_ok_get_iff) (simp add: bm_ok_get_iff match_state_def)
  then have "bm_get (states (query X P D V (StateIn (PKind {Network})))) b = Some n"
    using state_query_answer [of X P D ?B "PKind {Network}" b] by (simp add: query_def del: evaluate_expression.simps)
  then show ?thesis by (force simp: get_networks_def bm_values_def dest: bm_get_in)
qed

section \<open>Instances\<close>

text \<open>Identities as that many strokes, which are read back by counting.\<close>

definition viewer_ext :: query_ext where
  "viewer_ext =
     text_ext.extend (byte_ext\<lparr>uuid_hyphenated := (\<lambda>w. replicate (unat w) CHR ''x''), uuid_parse := (\<lambda>s. Some (of_nat (length s)))\<rparr>)
       (query_ext.fields (\<lambda>r t. False) (\<lambda>w. []))"

lemma viewer_ext_fields:
  "uuid_new_v5 viewer_ext = uuid_new_v5 byte_ext" "uuid_hyphenated viewer_ext = (\<lambda>w. replicate (unat w) CHR ''x'')"
  "uuid_parse viewer_ext = (\<lambda>s. Some (of_nat (length s)))"
  by (simp_all add: viewer_ext_def text_ext.defs query_ext.defs)

lemma viewer_brefs: "bref_of viewer_ext (Bid 1) = Bref 1" "bref_default viewer_ext = Bref 0"
  using byte_brefs by (simp_all add: viewer_ext_fields bref_of_def bref_default_def generate_namespace_def)

lemma viewer_reads: "reads_bids viewer_ext"
  by (simp add: reads_bids_def bid_try_from_def bid_display_def viewer_ext_fields)

lemma viewer_net_run:
  "get_map viewer_ext one_net_map (Bref 1) = Some one_net"
  "recursive_map viewer_ext one_net_map (Suc 0) one_net [] = Some (p_map one_net, [Bid 1])"
  by (simp_all add: get_map_def one_net_map_def one_net_def viewer_brefs bm_get_Cons subnet_indices_def map_filter_simps)

definition json_ops :: "global_shard \<Rightarrow> network_shard \<Rightarrow> viewer_ops" where
  "json_ops g n =
     \<lparr>vo_graph = (\<lambda>s. Inl []), vo_manifest = (\<lambda>s. Inr ()), vo_global = (\<lambda>s. Inr g), vo_network = (\<lambda>s. Inr n)\<rparr>"

lemma viewer_opens:
  "\<exists>V. from_manifest (json_ops g n) viewer_ext env P manifest_json entry = Inr V"
  by (simp add: from_manifest_def json_ops_def entry_point_bid_def bid_try_from_def viewer_ext_fields)

lemma net_graph_keyed: "keyed net_graph"
  by (simp add: keyed_def net_graph_def bm_ok_Cons titled_def unknown_node_def)

lemma viewer_partition:
  obtains Pt where "partition_graph viewer_ext one_net_map (Suc 0) net_graph = Some Pt" "length (gp_networks Pt) = 1"
proof -
  have nets: "n_nets one_net_map = [Bid 1]" by (simp add: one_net_map_def)
  have "\<exists>Pt. partition_graph viewer_ext one_net_map (Suc 0) net_graph = Some Pt \<and> length (gp_networks Pt) = 1"
    by (simp add: partition_graph_def nets viewer_brefs viewer_net_run case_prod_beta del: recursive_map.simps)
  then show thesis using that by blast
qed

text \<open>The export of a network of a document and a trace, and a viewer that loads its two shards.\<close>

theorem export_restored_witness:
  "\<forall>env DT. \<exists>Pt V V'. partition_graph viewer_ext one_net_map (Suc 0) net_graph = Some Pt
     \<and> load_all (json_ops (global_shard_of viewer_ext net_graph Pt) (network_shard_of viewer_ext net_graph Pt (hd (gp_networks Pt))))
         viewer_ext env plain_builder_ops DT
         ((''global'', ''{}'') # zip (map (\<lambda>net. bref_display (fst net)) (gp_networks Pt)) [''{}'']) V = Some V'
     \<and> insert (program_bid viewer_ext env) (held_bids V') = {program_bid viewer_ext env, Bid 1, Bid 2, Bid 3}"
proof (intro allI)
  fix env and DT :: "discover \<times> ((bid \<times> bid) list \<Rightarrow> bid list \<Rightarrow> (bid \<times> bid) list)"
  obtain Pt where Pt: "partition_graph viewer_ext one_net_map (Suc 0) net_graph = Some Pt" "length (gp_networks Pt) = 1"
    by (rule viewer_partition)
  let ?J = "json_ops (global_shard_of viewer_ext net_graph Pt) (network_shard_of viewer_ext net_graph Pt (hd (gp_networks Pt)))"
  obtain V where V: "from_manifest ?J viewer_ext env plain_builder_ops [] [] = Inr V" using viewer_opens by blast
  have json: "vo_global ?J ''{}'' = Inr (global_shard_of viewer_ext net_graph Pt)"
    "map (vo_network ?J) [''{}''] = map (\<lambda>net. Inr (network_shard_of viewer_ext net_graph Pt net)) (gp_networks Pt)"
    using Pt(2) by (auto simp: json_ops_def length_Suc_conv)
  have "set (bm_keys (states net_graph)) = {Bid 1, Bid 2, Bid 3}" by (auto simp: bm_keys_def net_graph_def)
  with export_restored [OF Pt(1) net_graph_keyed viewer_reads plain_builder_edges V json, where DT = DT] Pt(1)
  show "\<exists>Pt V V'. partition_graph viewer_ext one_net_map (Suc 0) net_graph = Some Pt
     \<and> load_all (json_ops (global_shard_of viewer_ext net_graph Pt) (network_shard_of viewer_ext net_graph Pt (hd (gp_networks Pt))))
         viewer_ext env plain_builder_ops DT
         ((''global'', ''{}'') # zip (map (\<lambda>net. bref_display (fst net)) (gp_networks Pt)) [''{}'']) V = Some V'
     \<and> insert (program_bid viewer_ext env) (held_bids V') = {program_bid viewer_ext env, Bid 1, Bid 2, Bid 3}"
    by metis
qed

definition two_marks :: global_shard where
  "two_marks = \<lparr>gs_states = [(''xx'', unknown_node (Bid 2))], gs_relations = []\<rparr>"

theorem loaded_nodes_exact_witness:
  "\<forall>env DT n. \<exists>V. viewer_reach (json_ops two_marks n) viewer_ext env plain_builder_ops DT V \<and> Bid 2 \<in> held_bids V"
proof (intro allI)
  fix env and DT :: "discover \<times> ((bid \<times> bid) list \<Rightarrow> bid list \<Rightarrow> (bid \<times> bid) list)" and n
  let ?J = "json_ops two_marks n"
  obtain V where V: "from_manifest ?J viewer_ext env plain_builder_ops [] [] = Inr V" using viewer_opens by blast
  have content: "shard_content ?J viewer_ext ''global'' [] = Inr ([(''xx'', unknown_node (Bid 2))], [])"
    by (simp add: shard_content_def json_ops_def two_marks_def map_filter_simps)
  have proper: "proper_shard ?J viewer_ext ''global'' []"
    by (simp add: proper_shard_def content own_keys_def bid_try_from_def viewer_ext_fields unknown_node_def)
  have "vw_loaded V = []" using opened_inv [OF V] by blast
  then obtain V' r where load: "load_shard ?J viewer_ext env plain_builder_ops DT ''global'' [] V = Some (V', r)"
      "vw_loaded V' = [(''global'', [Bid 2])]"
    by (simp add: load_shard_def put_shard_def content Let_def shard_bids_def bm_keys_def map_filter_simps
        bid_try_from_def viewer_ext_fields ok_of_def bs_from_list_def bm_contains_def)
  have reach: "viewer_reach ?J viewer_ext env plain_builder_ops DT V'"
    by (rule viewer_reach.loads [OF viewer_reach.opened [OF V] proper load(1)])
  have "Bid 2 \<in> loaded_bids V'" by (simp add: loaded_bids_def load(2) bm_values_def)
  with loaded_nodes_exact [OF reach plain_builder_edges] reach
  show "\<exists>V. viewer_reach ?J viewer_ext env plain_builder_ops DT V \<and> Bid 2 \<in> held_bids V" by blast
qed

theorem nav_network_tree_witness:
  "\<exists>tbl visited. nav_network viewer_ext (codec_create () ()) one_net_map (Suc 0) [] (Bid 1) one_net [] = Some (tbl, visited)
     \<and> is_tree ''x'' tbl \<and> bm_contains tbl ''xx'' \<and> \<not> bm_contains tbl ''xxxx''"
proof -
  have "pm_path viewer_ext one_net_map (Suc 0) one_net (Bid 1) = Some (Some (Bid 1, [], []))"
    by (simp add: pm_path_def one_net_def find_bid_def)
  then obtain tbl where t: "nav_network viewer_ext (codec_create () ()) one_net_map (Suc 0) [] (Bid 1) one_net []
      = Some (tbl, [Bid 1])"
    by (simp add: nav_network_def viewer_net_run Let_def del: recursive_map.simps)
  have shown: "bid_display viewer_ext (Bid 1) = ''x''" "bid_display viewer_ext (Bid 2) = ''xx''"
      "bid_display viewer_ext (Bid 3) = ''xxx''"
    by (simp_all add: bid_display_def viewer_ext_fields) (simp_all add: eval_nat_numeral)
  note tree = nav_network_tree [OF t viewer_net_run(2)]
  have "is_tree ''x'' tbl" using tree shown(1) by simp
  moreover have "bm_contains tbl ''xx''"
    using tree [of "''xx''"] by (simp add: one_net_def shown is_index_alias_def)
  moreover have "\<not> bm_contains tbl ''xxxx''"
    using tree [of "''xxxx''"] by (simp add: one_net_def shown)
  ultimately show ?thesis using t by blast
qed

theorem node_context_graph_witness:
  "\<forall>X. unwrap_or (bm_get (nx_graph (node_context_of (X :: 'a text_ext_scheme) plain_builder_ops (codec_create () ())
       \<lparr>bc_node = unknown_node (Bid 3), bc_root_path = [], bc_root_net = Bid 3, bc_home_net = Bid 3, bc_bb = section_base\<rparr>))
     Section) ([], []) = ([Bid 1, Bid 2], [])"
proof
  fix X :: "'a text_ext_scheme"
  let ?ctx = "\<lparr>bc_node = unknown_node (Bid 3), bc_root_path = [], bc_root_net = Bid 3, bc_home_net = Bid 3,
    bc_bb = section_base\<rparr>"
  have inv: "base_inv (bc_bb ?ctx)" using section_base_inv by simp
  have es: "g_edges (bb_relations (bc_bb ?ctx)) = [(Bid 1, Bid 3, keyed_section 0), (Bid 2, Bid 3, keyed_section 1)]"
    by (simp add: section_base_def section_graph_def from_edges_def)
  have ok: "ws_ok (keyed_section k)" for k
    by (simp add: keyed_section_def ws_ok_def ws_set_def ws_empty_def bm_ok_def)
  have key: "map_option (\<lambda>w. unwrap_or (sort_key w) 0) (ws_get (keyed_section k) Section) = Some k" for k
    by (simp add: keyed_section_def sort_key_def)
  obtain w0 w1 where w: "ws_get (keyed_section 0) Section = Some w0" "unwrap_or (sort_key w0) 0 = 0"
      "ws_get (keyed_section 1) Section = Some w1" "unwrap_or (sort_key w1) 0 = 1"
    using key [of 0] key [of 1] by blast
  have into: "neighbours Section [(Bid 1, keyed_section 0), (Bid 2, keyed_section 1)] = [(Bid 1, 0), (Bid 2, 1)]"
    by (simp add: neighbours_def map_filter_simps w)
  have "list_all (\<lambda>e. ws_ok (e_weights e)) (g_edges (bb_relations (bc_bb ?ctx)))" unfolding es by (simp add: ok)
  from node_context_graph [OF inv this, of X plain_builder_ops "codec_create () ()" Section]
  show "unwrap_or (bm_get (nx_graph (node_context_of X plain_builder_ops (codec_create () ()) ?ctx)) Section) ([], [])
      = ([Bid 1, Bid 2], [])"
    unfolding es by (simp add: unknown_node_def into) (simp add: by_key_def neighbours_def map_filter_simps)
qed

end
