(* ===== verification/PathMounts.thy ===== *)
theory PathMounts
  imports PathProps
begin

text \<open>
  Path maps (\<open>paths/pathmap.rs\<close>), fourth part: the collections that the constructor and the events
  make. Every subnet a map has registered has an entry in it, so the lookup by node finds the place
  where the subnet is mounted.
\<close>

section \<open>Registered subnets have an entry\<close>

definition entry_bid :: "entry \<Rightarrow> bid" where
  "entry_bid e = fst (snd e)"

lemma entry_bid_simp [simp]: "entry_bid (path, b, order) = b"
  by (simp add: entry_bid_def)

definition lists_subnets :: "path_map \<Rightarrow> bool" where
  "lists_subnets pm \<longleftrightarrow> set (p_subnets pm) \<subseteq> entry_bid ` set (p_map pm)"

definition maps_list_subnets :: "path_map_map \<Rightarrow> bool" where
  "maps_list_subnets nets \<longleftrightarrow> list_all (\<lambda>(_, pm). lists_subnets pm) (n_map nets)"

lemma list_all_bm_insert: "list_all P m \<Longrightarrow> P (k, v) \<Longrightarrow> list_all P (bm_insert k v m)"
  by (induction k v m rule: bm_insert.induct) auto

lemma list_all_bm_remove: "list_all P m \<Longrightarrow> list_all P (bm_remove k m)"
  by (auto simp: bm_remove_def list_all_iff)

lemma list_all_bm_get: "list_all P m \<Longrightarrow> bm_get m k = Some v \<Longrightarrow> P (k, v)"
  by (auto simp: list_all_iff dest!: bm_get_in)

lemma indexed_contains:
  assumes "indexed es (bids, paths, orders)"
  shows "bm_contains bids b \<longleftrightarrow> b \<in> entry_bid ` set es"
proof -
  have "bm_get bids b = (let is = positions (\<lambda>e. fst (snd e) = b) es in if is = [] then None else Some is)"
    using assms by (simp add: indexed_def)
  then show ?thesis
    by (auto simp: bm_contains_def Let_def positions_Nil entry_bid_def image_iff)
qed

lemma indexed_first:
  assumes "map_in_sync pm" "b \<in> entry_bid ` set (p_map pm)"
  shows "\<exists>i is. bm_get (p_bid_map pm) b = Some (i # is)"
proof -
  have ix: "indexed (p_map pm) (p_bid_map pm, p_path_map pm, p_order_map pm)"
    using assms(1) by (simp add: map_in_sync_def)
  then have "bm_contains (p_bid_map pm) b" using indexed_contains assms(2) by blast
  moreover have "bm_get (p_bid_map pm) b =
      (let is = positions (\<lambda>e. fst (snd e) = b) (p_map pm) in if is = [] then None else Some is)"
    using ix by (simp add: indexed_def)
  ultimately show ?thesis
    by (cases "positions (\<lambda>e. fst (snd e) = b) (p_map pm)") (auto simp: bm_contains_def Let_def)
qed

lemma regenerate_fields [simp]:
  "p_map (regenerate pm) = p_map pm" "p_subnets (regenerate pm) = p_subnets pm" "p_net (regenerate pm) = p_net pm"
  by (simp_all add: regenerate_def split: prod.split)

lemma regenerate_contains: "bm_contains (p_bid_map (regenerate pm)) b \<longleftrightarrow> b \<in> entry_bid ` set (p_map pm)"
proof -
  have "indexed (p_map pm) (index_entries (p_map pm))" by (rule indexed_entries)
  moreover have "p_bid_map (regenerate pm) = fst (index_entries (p_map pm))"
    by (simp add: regenerate_def split: prod.split)
  ultimately show ?thesis using indexed_contains by (metis prod.collapse)
qed

text \<open>\<open>keep_subnets\<close> on fresh indices keeps the subnets that have an entry.\<close>

lemma kept_subnets_listed:
  assumes "p_map pm' = p_map pm" "p_bid_map pm' = p_bid_map (regenerate pm)"
  shows "lists_subnets (keep_subnets pm')"
proof -
  have "b \<in> entry_bid ` set (p_map pm)" if "b \<in> set (p_subnets (keep_subnets pm'))" for b
    using that assms(2) by (simp add: keep_subnets_def regenerate_contains)
  then show ?thesis using assms(1) by (auto simp: lists_subnets_def keep_subnets_def)
qed

section \<open>A new map\<close>

definition named :: "sub_paths \<Rightarrow> bool" where
  "named subs \<longleftrightarrow> list_all (\<lambda>(_, _, paths). paths \<noteq> []) subs"

definition named_stack :: "(bid, bid list \<times> sub_paths) bmap \<Rightarrow> bool" where
  "named_stack stack \<longleftrightarrow> list_all (\<lambda>(_, _, subs). named subs) stack"

lemma named_insert: "named subs \<Longrightarrow> snd info \<noteq> [] \<Longrightarrow> named (bm_insert b info subs)"
  by (cases info) (simp add: named_def list_all_bm_insert)

lemma named_stack_insert: "named_stack stack \<Longrightarrow> named subs \<Longrightarrow> named_stack (bm_insert b (sinks, subs) stack)"
  by (simp add: named_stack_def list_all_bm_insert)

lemma named_stack_remove: "named_stack stack \<Longrightarrow> named_stack (bm_remove b stack)"
  by (simp add: named_stack_def list_all_bm_remove)

lemma named_stack_get: "named_stack stack \<Longrightarrow> bm_get stack b = Some (sinks, subs) \<Longrightarrow> named subs"
  unfolding named_stack_def by (drule (1) list_all_bm_get) simp

lemma sub_path_info_named: "snd (sub_path_info X nets net sink source edge_val) \<noteq> []"
  by (auto simp: sub_path_info_def Let_def split: prod.split)

lemma hang_sub_paths_named:
  assumes "snd base \<noteq> []"
  shows "named source_subs \<Longrightarrow> named sink_paths \<Longrightarrow> named (hang_sub_paths X base source_subs sink_paths)"
proof (induction source_subs arbitrary: sink_paths)
  case (Cons e source_subs)
  obtain b order subs where e: "e = (b, order, subs)" by (cases e)
  let ?info = "(fst base @ order, concat (map (\<lambda>base_path. map (\<lambda>sub_path. ap_path (join X (ap_new_dir base_path) sub_path)) subs)
             (snd base)))"
  have "subs \<noteq> []" "named source_subs" using Cons.prems(1) by (simp_all add: e named_def)
  then have "named (bm_insert b ?info sink_paths)"
    using assms Cons.prems(2) by (intro named_insert) (auto simp: neq_Nil_conv)
  from Cons.IH [OF \<open>named source_subs\<close> this] show ?case by (simp add: hang_sub_paths_def e)
qed (simp add: hang_sub_paths_def)

lemma hang_on_sinks_named:
  "hang_on_sinks X loops source subs sinks stack = Some stack' \<Longrightarrow> named subs \<Longrightarrow> named_stack stack \<Longrightarrow>
     named_stack stack'"
proof (induction X loops source subs sinks stack rule: hang_on_sinks.induct)
  case (2 X loops source subs sink sinks stack)
  show ?case
  proof (cases "(sink, source) \<in> set loops")
    case True
    then show ?thesis using 2 by simp
  next
    case False
    then obtain sink_sinks sink_paths base where
      s: "bm_get stack sink = Some (sink_sinks, sink_paths)" "bm_get sink_paths source = Some base"
        "hang_on_sinks X loops source subs sinks
          (bm_insert sink (sink_sinks, hang_sub_paths X base subs sink_paths) stack) = Some stack'"
      using "2.prems"(1) by (auto split: option.splits)
    have n: "named sink_paths" by (rule named_stack_get [OF "2.prems"(3) s(1)])
    then have "snd base \<noteq> []" using s(2) unfolding named_def by (auto dest!: list_all_bm_get split: prod.splits)
    then have "named_stack (bm_insert sink (sink_sinks, hang_sub_paths X base subs sink_paths) stack)"
      by (intro named_stack_insert hang_sub_paths_named "2.prems" n)
    with "2.IH"(2) [OF False s(1) refl s(2) s(3) "2.prems"(2)] show ?thesis .
  qed
qed simp

lemma visit_named:
  assumes "visit X nets net edge_map event st = Some st'" "named_stack (v_stack st)"
  shows "named_stack (v_stack st')"
proof -
  have edge: "named_stack (v_stack st')" if e: "visit_edge X nets net edge_map closing sink source st = Some st'" for closing sink source
  proof -
    obtain edge_val sinks subs where s: "map_of edge_map (sink, source) = Some edge_val"
      "bm_get (v_stack st) sink = Some (sinks, subs)"
      using e by (auto simp: visit_edge_def Let_def split: option.splits)
    let ?stack = "bm_insert sink (sinks, bm_insert source (sub_path_info X nets net sink source edge_val) subs) (v_stack st)"
    have n: "named_stack ?stack"
      by (intro named_stack_insert named_insert assms(2) named_stack_get [OF assms(2) s(2)] sub_path_info_named)
    obtain ss sb where u: "unwrap_or (bm_get ?stack source) ([], []) = (ss, sb)" by fastforce
    then have "named sb"
      using named_stack_get [OF n] by (cases "bm_get ?stack source") (auto simp: named_def)
    then have "named_stack (bm_insert source (bs_insert sink ss, sb) ?stack)"
      by (intro named_stack_insert n)
    moreover have "v_stack st' = bm_insert source (bs_insert sink ss, sb) ?stack
        \<or> v_stack st' = bm_remove source (bm_insert source (bs_insert sink ss, sb) ?stack)"
      using e s u by (auto simp: visit_edge_def Let_def)
    ultimately show ?thesis using named_stack_remove by metis
  qed
  show ?thesis
  proof (cases event)
    case (Discover sink)
    then show ?thesis using assms by (auto simp: visit_def intro!: named_stack_insert) (simp add: named_def)
  next
    case (Finish source)
    show ?thesis
    proof (cases "source = net")
      case True
      then show ?thesis using assms Finish by (simp add: visit_def visit_finish_def)
    next
      case False
      then obtain sinks subs stack where
        s: "bm_get (v_stack st) source = Some (sinks, subs)" "st' = st\<lparr>v_stack := stack\<rparr>"
          "hang_on_sinks X (v_loops st) source subs sinks (bm_remove source (v_stack st)) = Some stack"
        using assms(1) Finish by (auto simp: visit_def visit_finish_def split: option.splits)
      have "named_stack stack"
        by (rule hang_on_sinks_named [OF s(3) named_stack_get [OF assms(2) s(1)] named_stack_remove [OF assms(2)]])
      then show ?thesis by (simp add: s(2))
    qed
  qed (use assms(1) in \<open>auto simp: visit_def intro: edge\<close>)
qed

lemma visit_all_named:
  "visit_all X nets net edge_map events st = Some st' \<Longrightarrow> named_stack (v_stack st) \<Longrightarrow> named_stack (v_stack st')"
  by (induction X nets net edge_map events st rule: visit_all.induct)
    (auto simp: bind_eq_Some_conv dest: visit_named)

lemma path_map_new_lists:
  assumes "path_map_new X dfs_events kind net nets rels = Some pm"
  shows "lists_subnets pm"
proof -
  obtain edge_map events st sinks subs where
    run: "visit_all X nets net edge_map events \<lparr>v_stack = [], v_loops = []\<rparr> = Some st"
      "bm_get (v_stack st) net = Some (sinks, subs)"
    and pm: "set (p_subnets pm) \<subseteq> set (bm_keys subs)" "set (p_map pm) = set (new_entries net subs)"
    using assms
    by (auto simp: path_map_new_def Let_def bind_eq_Some_conv case_prod_beta sort_entries_def sort_by_rank)
  have n: "named subs"
    by (rule named_stack_get [OF visit_all_named [OF run(1)] run(2)]) (simp add: named_stack_def)
  have "b \<in> entry_bid ` set (new_entries net subs)" if b: "b \<in> set (bm_keys subs)" for b
  proof -
    obtain order paths where m: "(b, order, paths) \<in> set subs" using b by (auto simp: bm_keys_def)
    then obtain path where "path \<in> set paths" using n by (cases paths) (auto simp: named_def list_all_iff)
    then have "(path, b, order) \<in> set (new_entries net subs)"
      by (auto simp: new_entries_def sort_by_rank set_insort_key intro: rev_bexI [OF m])
    then show ?thesis by (metis entry_bid_simp image_eqI)
  qed
  with pm show ?thesis by (auto simp: lists_subnets_def)
qed

section \<open>Events\<close>

text \<open>Removing: without a removed path the entries are the same.\<close>

lemma remove_below_quiet:
  "remove_below source_order idxs (es, paths) = Some (es', paths') \<Longrightarrow>
     length paths < length paths' \<or> es' = es \<and> paths' = paths"
proof (induction source_order idxs "(es, paths)" arbitrary: es paths rule: remove_below.induct)
  case (2 source_order idx idxs es paths)
  obtain path b order where e: "entry_at es idx = Some (path, b, order)"
    using "2.prems" by (auto split: option.splits)
  show ?case
  proof (cases "prefix source_order order")
    case True
    with "2.prems" e have "remove_below source_order idxs (remove_at idx es, paths @ [path]) = Some (es', paths')" by simp
    from "2.hyps"(1) [OF e refl refl True this] show ?thesis by auto
  next
    case False
    with "2.prems" e have "remove_below source_order idxs (es, paths) = Some (es', paths')" by simp
    from "2.hyps"(2) [OF e refl refl False this] show ?thesis .
  qed
qed simp

lemma remove_sources_quiet:
  "remove_sources source sis (es, paths) = Some (es', paths') \<Longrightarrow>
     length paths < length paths' \<or> es' = es \<and> paths' = paths"
proof (induction source sis "(es, paths)" arbitrary: es paths rule: remove_sources.induct)
  case (2 source i sub_indices rest es paths)
  obtain es1 paths1 where s: "remove_source source sub_indices (es, paths) = Some (es1, paths1)"
    "remove_sources source rest (es1, paths1) = Some (es', paths')"
    using "2.prems" by (auto simp: bind_eq_Some_conv)
  have "length paths < length paths1 \<or> es1 = es \<and> paths1 = paths"
    using s(1) by (auto simp: remove_source_def split: option.splits dest: remove_below_quiet)
  with "2.hyps" [OF s(1) s(2)] show ?case by auto
qed simp

lemma relation_removed_lists:
  assumes "relation_removed X source sis pm = Some (pm', events)" "lists_subnets pm"
  shows "lists_subnets pm'"
proof -
  obtain es paths where r: "remove_sources source (rev sis) (p_map pm, []) = Some (es, paths)"
    and pm': "pm' = (if paths \<noteq> [] then keep_subnets (regenerate (pm\<lparr>p_map := es\<rparr>)) else pm\<lparr>p_map := es\<rparr>)"
    using assms(1) by (auto simp: relation_removed_def split: if_splits)
  show ?thesis
  proof (cases "paths = []")
    case True
    with remove_sources_quiet [OF r] pm' assms(2) show ?thesis by (simp add: lists_subnets_def)
  next
    case False
    then show ?thesis unfolding pm' by (simp add: kept_subnets_listed [where pm = "pm\<lparr>p_map := es\<rparr>"])
  qed
qed

text \<open>Updating: without an event the nodes of the entries are the same.\<close>

definition quiet :: "update_state \<Rightarrow> update_state \<Rightarrow> bool" where
  "quiet st st' \<longleftrightarrow> (u_events st' = [] \<longrightarrow>
     u_events st = [] \<and> map entry_bid (u_entries st') = map entry_bid (u_entries st))"

lemma quiet_refl [simp]: "quiet st st"
  by (simp add: quiet_def)

lemma quiet_trans: "quiet a b \<Longrightarrow> quiet b c \<Longrightarrow> quiet a c"
  by (auto simp: quiet_def)

lemma insert_paths_quiet: "insert_paths net source new_order i paths st = Some st' \<Longrightarrow> quiet st st'"
  by (induction net source new_order i paths st rule: insert_paths.induct)
    (auto simp: quiet_def split: option.splits)

lemma retarget_bids: "map entry_bid (retarget old_order new_order es) = map entry_bid es"
  by (induction old_order new_order es rule: retarget.induct) auto

lemma keep_path_quiet: "quiet st (keep_path net source new_order new_paths old st)"
  by (auto simp: keep_path_def quiet_def split: prod.split)

lemma keep_paths_quiet: "quiet st (fold (keep_path net source new_order new_paths) olds st)"
  by (induction olds arbitrary: st) (auto intro: quiet_trans keep_path_quiet)

lemma replace_paths_quiet:
  assumes "replace_paths net source new_order new_paths deduped idxs st = Some st'"
  shows "quiet st st'"
proof -
  let ?olds = "map (\<lambda>idx. (idx, fst (u_entries st ! idx), snd (snd (u_entries st ! idx)))) idxs"
  let ?old_paths = "bs_from_list (map (\<lambda>(_, p, _). p) ?olds)" and ?new = "bs_from_list new_paths"
  let ?gone = "filter (\<lambda>p. p \<notin> set ?new \<and> p \<notin> set deduped) ?old_paths"
  obtain first_idx p old_order where h: "hd ?olds = (first_idx, p, old_order)" by (cases "hd ?olds")
  let ?st1 = "if old_order \<noteq> new_order
    then st\<lparr>u_entries := take (Suc first_idx) (u_entries st)
            @ retarget old_order new_order (drop (Suc first_idx) (u_entries st))\<rparr> else st"
  let ?st2 = "?st1\<lparr>u_events := u_events ?st1 @ map (\<lambda>p. PathsRemoved net [p] Local) ?gone\<rparr>"
  let ?st3 = "fold (keep_path net source new_order ?new) ?olds ?st2"
  have "map_option (\<lambda>st. st\<lparr>u_entries := fold (drop_path source) (rev ?gone) (u_entries st)\<rparr>)
      (insert_paths net source new_order (Suc (last idxs)) (filter (\<lambda>p. p \<notin> set ?old_paths) ?new) ?st3) = Some st'"
    using assms unfolding replace_paths_def Let_def h prod.case .
  then obtain st4 where i: "insert_paths net source new_order (Suc (last idxs))
      (filter (\<lambda>p. p \<notin> set ?old_paths) ?new) ?st3 = Some st4"
    and st': "st' = st4\<lparr>u_entries := fold (drop_path source) (rev ?gone) (u_entries st4)\<rparr>"
    unfolding map_option_eq_Some by (elim exE conjE) (rule that, assumption, erule sym)
  have "map entry_bid (take k (u_entries st) @ retarget old_order new_order (drop k (u_entries st))) =
      map entry_bid (u_entries st)" for k
    unfolding map_append retarget_bids by (simp flip: map_append)
  then have 1: "quiet st ?st1" by (simp add: quiet_def)
  have 3: "quiet ?st2 st4" by (rule quiet_trans [OF keep_paths_quiet insert_paths_quiet [OF i]])
  show ?thesis unfolding quiet_def
  proof
    assume "u_events st' = []"
    then have e: "u_events st4 = []" by (simp add: st')
    with 3 have s2: "u_events ?st2 = []" "map entry_bid (u_entries st4) = map entry_bid (u_entries ?st2)"
      by (auto simp: quiet_def)
    then have g: "?gone = []" "u_events ?st1 = []" by simp_all
    have "u_entries st' = u_entries st4" unfolding st' by (simp only: g) simp
    moreover have "map entry_bid (u_entries ?st2) = map entry_bid (u_entries ?st1)" by simp
    ultimately show "u_events st = [] \<and> map entry_bid (u_entries st') = map entry_bid (u_entries st)"
      using s2 g 1 unfolding quiet_def by metis
  qed
qed

lemma update_sink_entry_quiet:
  assumes "update_sink_entry X nets net source sink w i si st = Some st'"
  shows "quiet st st'"
proof -
  have q: "quiet st s" if "quiet (st\<lparr>u_processed := ps\<rparr>) s" for ps s
    using that by (simp add: quiet_def)
  show ?thesis
    using assms
    by (auto simp: update_sink_entry_def Let_def split: prod.splits option.splits if_splits
        intro!: q dest: insert_paths_quiet replace_paths_quiet)
qed

lemma update_sink_entries_quiet:
  "update_sink_entries X nets net source sink w i sis st = Some st' \<Longrightarrow> quiet st st'"
  by (induction X nets net source sink w i sis st rule: update_sink_entries.induct)
    (auto simp: bind_eq_Some_conv intro: quiet_trans update_sink_entry_quiet)

lemma process_relation_update_lists:
  assumes "process_relation_update X source sink ws nets pm = Some (pm', events)" "lists_subnets pm"
  shows "lists_subnets pm'"
proof -
  have finish: "lists_subnets (fst (finish_update X nets source pm st))"
    if q: "quiet \<lparr>u_entries = p_map pm, u_processed = [], u_events = []\<rparr> st" for st
  proof (cases "u_events st = []")
    case True
    with q have "map entry_bid (u_entries st) = map entry_bid (p_map pm)" by (simp add: quiet_def)
    then have "entry_bid ` set (u_entries st) = entry_bid ` set (p_map pm)" by (metis set_map)
    with True assms(2) show ?thesis by (simp add: finish_update_def lists_subnets_def)
  next
    case False
    let ?pm = "regenerate (pm\<lparr>p_map := u_entries st\<rparr>)"
    let ?pm1 = "if source \<in> set (n_nets nets) \<and> p_net ?pm \<noteq> source
      then ?pm\<lparr>p_subnets := bs_insert source (p_subnets ?pm)\<rparr> else ?pm"
    have "lists_subnets (keep_subnets ?pm1)"
      by (rule kept_subnets_listed [where pm = "pm\<lparr>p_map := u_entries st\<rparr>"]) simp_all
    then have "lists_subnets (keep_subnets ?pm1)
      \<and> lists_subnets ((keep_subnets ?pm1)\<lparr>p_title_map := t, p_id_map := i\<rparr>)" for t i
      by (simp add: lists_subnets_def)
    then show ?thesis using False by (simp add: finish_update_def Let_def)
  qed
  let ?st0 = "\<lparr>u_entries = p_map pm, u_processed = [], u_events = []\<rparr>"
  consider "pm' = pm" | sis where "relation_removed X source sis pm = Some (pm', events)"
    | w i sis where "map_option (finish_update X nets source pm)
        (update_sink_entries X nets (bref_of X (p_net pm)) source sink w i sis ?st0) = Some (pm', events)"
    using assms(1) unfolding process_relation_update_def Let_def
    by (auto split: if_splits option.splits)
  then show ?thesis
  proof cases
    case 3
    then obtain st where "update_sink_entries X nets (bref_of X (p_net pm)) source sink w i sis ?st0 = Some st"
      "finish_update X nets source pm st = (pm', events)" by blast
    with finish [OF update_sink_entries_quiet] show ?thesis by (metis fst_conv)
  qed (use assms(2) relation_removed_lists in auto)
qed

lemma node_renamed_lists: "lists_subnets pm \<Longrightarrow> lists_subnets (fst (node_renamed X from_bid to_bid pm))"
proof -
  assume l: "lists_subnets pm"
  let ?r = "\<lambda>b. if b = from_bid then to_bid else b"
  have "map entry_bid (rename_entries from_bid to_bid es) = map ?r (map entry_bid es)" for es
    by (induction es) (auto simp: rename_entries_def)
  then have "entry_bid ` set (rename_entries from_bid to_bid es) = ?r ` entry_bid ` set es" for es
    by (metis set_map)
  moreover have "p_map (fst (node_renamed X from_bid to_bid pm)) = rename_entries from_bid to_bid (p_map pm)"
    "set (p_subnets (fst (node_renamed X from_bid to_bid pm))) \<subseteq> ?r ` set (p_subnets pm)"
    by (auto simp: node_renamed_def Let_def bs_remove_def)
  ultimately show ?thesis
    using subset_trans [OF _ image_mono [OF l [unfolded lists_subnets_def], of ?r]] by (simp add: lists_subnets_def)
qed

lemma insert_map_lists:
  "maps_list_subnets nets \<Longrightarrow> lists_subnets pm \<Longrightarrow> maps_list_subnets (nets\<lparr>n_map := bm_insert net pm (n_map nets)\<rparr>)"
  by (simp add: maps_list_subnets_def list_all_bm_insert)

lemma pm_process_event_lists:
  "pm_process_event X event nets pm = Some (pm', events) \<Longrightarrow> lists_subnets pm \<Longrightarrow> lists_subnets pm'"
  using node_renamed_lists [of pm X]
  by (auto simp: pm_process_event_def split: belief_event.splits dest: process_relation_update_lists)
    (metis fst_conv)

lemma process_in_maps_lists:
  "process_in_maps X event nets maps = Some (maps', events) \<Longrightarrow> list_all (\<lambda>(_, pm). lists_subnets pm) maps \<Longrightarrow>
     list_all (\<lambda>(_, pm). lists_subnets pm) maps'"
  by (induction X event nets maps arbitrary: maps' events rule: process_in_maps.induct)
    (auto simp: bind_eq_Some_conv dest: pm_process_event_lists)

lemma process_nodes_removed_lists:
  "maps_list_subnets nets \<Longrightarrow> maps_list_subnets (process_nodes_removed X bids nets)"
  unfolding process_nodes_removed_def
  by (induction bids arbitrary: nets) (simp_all add: maps_list_subnets_def list_all_bm_remove)

lemma note_node_map [simp]: "n_map (note_node X n nets) = n_map nets"
  by (simp add: note_node_def Let_def)

lemma first_pass_lists: "maps_list_subnets nets \<Longrightarrow> maps_list_subnets (first_pass X parse event nets)"
  by (auto simp: first_pass_def process_nodes_removed_lists maps_list_subnets_def
      split: belief_event.split sum.split intro: process_nodes_removed_lists [unfolded maps_list_subnets_def])

lemma first_passes_lists: "maps_list_subnets nets \<Longrightarrow> maps_list_subnets (fold (first_pass X parse) events nets)"
  by (induction events arbitrary: nets) (simp_all add: first_pass_lists)

lemma process_node_renamed_lists:
  "maps_list_subnets nets \<Longrightarrow> maps_list_subnets (process_node_renamed X from_bid to_bid nets)"
  by (auto simp: maps_list_subnets_def process_node_renamed_def move_key_def split: option.split
      intro!: list_all_bm_insert list_all_bm_remove dest: list_all_bm_get)

lemma second_pass_lists:
  assumes "second_pass X dfs_events parse rels event nets = Some (nets', out)" "maps_list_subnets nets"
  shows "maps_list_subnets nets'"
proof -
  have maps: "maps_list_subnets (n\<lparr>n_map := maps\<rparr>)"
    if "process_in_maps X event n (n_map n) = Some (maps, evs)" "maps_list_subnets n" for n maps evs
    using process_in_maps_lists [OF that(1)] that(2) by (simp add: maps_list_subnets_def)
  show ?thesis
    using assms
    by (cases event) (auto simp: second_pass_def Let_def split: sum.splits if_splits
        intro: maps process_node_renamed_lists insert_map_lists path_map_new_lists)
qed

lemma second_passes_lists:
  "second_passes X dfs_events parse rels events (nets, out) = Some (nets', out') \<Longrightarrow> maps_list_subnets nets \<Longrightarrow>
     maps_list_subnets nets'"
proof (induction events arbitrary: nets out)
  case (Cons event events)
  then obtain nets1 more where "second_pass X dfs_events parse rels event nets = Some (nets1, more)"
    "second_passes X dfs_events parse rels events (nets1, out @ more) = Some (nets', out')"
    by (auto simp: bind_eq_Some_conv)
  with Cons.IH second_pass_lists Cons.prems(2) show ?case by blast
qed simp

section \<open>The collections of a run\<close>

text \<open>The maps that events reach from a default collection or from one made of a graph.\<close>

inductive pmm_reachable ::
    "'a text_ext_scheme \<Rightarrow> build_env \<Rightarrow> dfs \<Rightarrow> (string \<Rightarrow> buildonomy_error + node) \<Rightarrow> path_map_map \<Rightarrow> bool"
  for X env dfs_events parse where
  default: "pmm_default X env dfs_events = Some nets \<Longrightarrow> pmm_reachable X env dfs_events parse nets"
| constructed: "pmm_new X env dfs_events sts rels = Some nets \<Longrightarrow> pmm_reachable X env dfs_events parse nets"
| queue: "pmm_reachable X env dfs_events parse nets \<Longrightarrow>
    process_event_queue X dfs_events parse events rels nets = Some (nets', out) \<Longrightarrow>
    pmm_reachable X env dfs_events parse nets'"

definition map_ok :: "path_map \<Rightarrow> bool" where
  "map_ok pm \<longleftrightarrow> map_in_sync pm \<and> lists_subnets pm"

lemma path_map_new_ok: "path_map_new X dfs_events kind net nets rels = Some pm \<Longrightarrow> map_ok pm"
  by (simp add: map_ok_def path_map_new_sync path_map_new_lists)

lemma add_new_maps_ok:
  "add_new_maps X dfs_events rels net_bids nets = Some nets' \<Longrightarrow> list_all (\<lambda>(_, pm). map_ok pm) (n_map nets) \<Longrightarrow>
     list_all (\<lambda>(_, pm). map_ok pm) (n_map nets')"
proof (induction net_bids arbitrary: nets)
  case (Cons net net_bids)
  then obtain nets1 where a: "add_new_map X dfs_events rels net nets = Some nets1"
    "add_new_maps X dfs_events rels net_bids nets1 = Some nets'"
    by (auto simp: bind_eq_Some_conv)
  have "list_all (\<lambda>(_, pm). map_ok pm) (n_map nets1)"
    using a(1) Cons.prems(2) by (auto simp: add_new_map_def path_map_new_ok intro!: list_all_bm_insert split: if_splits)
  with Cons.IH a(2) show ?case by blast
qed simp

lemma sort_and_regenerate_ok:
  assumes "lists_subnets pm"
  shows "map_ok (sort_and_regenerate pm)"
proof -
  have "lists_subnets (sort_and_regenerate pm)"
    using assms by (simp add: lists_subnets_def sort_and_regenerate_def sort_entries_def sort_by_rank)
  then show ?thesis by (simp add: map_ok_def sort_and_regenerate_sync)
qed

lemma reachable_maps_ok:
  "pmm_reachable X env dfs_events parse nets \<Longrightarrow> list_all (\<lambda>(_, pm). map_ok pm) (n_map nets)"
proof (induction rule: pmm_reachable.induct)
  case (default nets)
  then show ?case by (auto simp: pmm_default_def Let_def no_maps_def path_map_new_ok)
next
  case (constructed sts rels nets)
  then show ?case by (auto simp: pmm_new_def Let_def bind_eq_Some_conv dest: add_new_maps_ok)
next
  case (queue nets events rels nets' out)
  have "maps_list_subnets nets"
    using queue.IH by (auto simp: maps_list_subnets_def map_ok_def list_all_iff)
  then have "maps_list_subnets (fold (first_pass X parse) events nets)" by (rule first_passes_lists)
  moreover obtain nets1 where "second_passes X dfs_events parse rels events
      (fold (first_pass X parse) events nets, []) = Some (nets1, out)"
    "nets' = nets1\<lparr>n_map := map (\<lambda>(net, pm). (net, sort_and_regenerate pm)) (n_map nets1)\<rparr>"
    using queue.hyps(2) by (auto simp: process_event_queue_def)
  ultimately show ?case
    using second_passes_lists by (fastforce simp: maps_list_subnets_def list_all_iff intro: sort_and_regenerate_ok)
qed

section \<open>Networks that do not contain each other\<close>

text \<open>The networks are nested when a rank decreases from each map to the maps of its subnets.\<close>

definition nested_by :: "(path_map \<Rightarrow> nat) \<Rightarrow> 'a id_ext_scheme \<Rightarrow> path_map_map \<Rightarrow> bool" where
  "nested_by rank X nets \<longleftrightarrow>
     list_all (\<lambda>pm. list_all (\<lambda>b. case get_map X nets (bref_of X b) of
         None \<Rightarrow> True | Some subnet \<Rightarrow> rank subnet < rank pm) (p_subnets pm)) (bm_values (n_map nets))"

text \<open>In nested networks a search returns, unless a step down panics.\<close>

lemma nested_search_returns:
  assumes "nested_by rank X nets" "pm \<in> set (bm_values (n_map nets))" "rank pm < depth"
    "\<And>pm b q. pm \<in> set (bm_values (n_map nets)) \<Longrightarrow> b \<in> set (p_subnets pm) \<Longrightarrow> descend pm b q \<noteq> None"
  shows "net_search depth (get_map X nets) (bref_of X) here descend pm q \<noteq> None"
proof (rule net_search_returns [where S = "set (bm_values (n_map nets))" and rank = rank])
  fix p b subnet assume "p \<in> set (bm_values (n_map nets))" "b \<in> set (p_subnets p)"
    "get_map X nets (bref_of X b) = Some subnet"
  then show "subnet \<in> set (bm_values (n_map nets)) \<and> rank subnet < rank p"
    using assms(1) get_map_values [of X nets "bref_of X b"] by (force simp: nested_by_def list_all_iff)
qed (use assms(2-4) in auto)

definition subnets_mounted :: "'a id_ext_scheme \<Rightarrow> path_map_map \<Rightarrow> bool" where
  "subnets_mounted X nets \<longleftrightarrow>
     list_all (\<lambda>pm. list_all (\<lambda>b. bm_contains (n_map nets)
         (if bref_of X b = bref_default X then bref_of X (n_root nets) else bref_of X b)) (p_subnets pm))
       (bm_values (n_map nets))"

text \<open>
  The networks are nested, the root and each registered subnet have a map, and the depth is more than every
  rank and than the number of maps.
\<close>

definition lookups_end :: "(path_map \<Rightarrow> nat) \<Rightarrow> 'a id_ext_scheme \<Rightarrow> path_map_map \<Rightarrow> nat \<Rightarrow> bool" where
  "lookups_end rank X nets depth \<longleftrightarrow>
     nested_by rank X nets \<and> bm_contains (n_map nets) (bref_of X (n_root nets)) \<and> subnets_mounted X nets
     \<and> list_all (\<lambda>pm. rank pm < depth) (bm_values (n_map nets)) \<and> length (n_map nets) < depth"

lemma descend_bid_returns:
  assumes "map_ok pm" "b \<in> set (p_subnets pm)"
  shows "descend_bid X pm b q \<noteq> None"
proof -
  have "b \<in> entry_bid ` set (p_map pm)" using assms by (auto simp: map_ok_def lists_subnets_def)
  with indexed_first [of pm b] assms(1) obtain i "is" where "bm_get (p_bid_map pm) b = Some (i # is)"
    by (auto simp: map_ok_def)
  then show ?thesis by (simp add: descend_bid_def split: prod.split)
qed

text \<open>Two networks, the second a subnet of the first, as the events make them; every arc of the search ends in a pruned node.\<close>

definition star_dfs :: dfs where
  "star_dfs edges prune start =
     Discover start # map (\<lambda>(sink, source). TreeEdge sink source) (filter (\<lambda>a. fst a = start) edges) @ [Finish start]"

definition network_node :: "bid \<Rightarrow> node" where
  "network_node b = (unknown_node b)\<lparr>nd_kind := {Network}\<rparr>"

definition parse_networks :: "string \<Rightarrow> buildonomy_error + node" where
  "parse_networks s = (if s = ''1'' then Inr (network_node (Bid 1)) else Inr (network_node (Bid 2)))"

definition mount_graph :: bid_graph where
  "mount_graph = from_edges [(Bid 2, Bid 1, ws_set Section (set_doc_paths [''n''] \<lparr>w_payload = []\<rparr>) ws_empty)]"

definition mount_events :: "belief_event list" where
  "mount_events = [NodeUpdate [] ''1'' Remote, NodeUpdate [] ''2'' Remote]"

lemma mount_arcs: "\<exists>w. as_subgraph mount_graph Section True = [(Bid 1, Bid 2, w, [''n''])]"
  by (simp add: as_subgraph_def mount_graph_def from_edges_def List.map_filter_def)

lemma lone_network:
  assumes "list_all (\<lambda>(sink, _). sink \<noteq> net) (as_subgraph rels Section True)"
  shows "\<exists>pm. path_map_new X star_dfs Section net nets rels = Some pm \<and> p_subnets pm = []"
proof -
  have "filter (\<lambda>a. fst a = net) (map fst (map (\<lambda>(sink, source, weight, paths). ((sink, source), weight, paths))
      (as_subgraph rels Section True))) = []"
    using assms by (auto simp: filter_empty_conv list_all_iff)
  then show ?thesis
    by (simp add: path_map_new_def Let_def star_dfs_def visit_def visit_finish_def bm_contains_def bm_get_Cons
        sort_entries_def bs_from_list_def bm_keys_def split: prod.split)
qed

lemma mounting_network:
  assumes "Bid 2 \<in> set (n_nets nets)"
  shows "\<exists>pm. path_map_new X star_dfs Section (Bid 1) nets mount_graph = Some pm \<and> p_subnets pm = [Bid 2]"
proof -
  obtain w where "as_subgraph mount_graph Section True = [(Bid 1, Bid 2, w, [''n''])]" using mount_arcs by blast
  then show ?thesis using assms
    by (simp add: path_map_new_def Let_def star_dfs_def visit_def visit_finish_def visit_edge_def bm_contains_def
        bm_get_Cons sort_entries_def bs_from_list_def bm_keys_def sub_path_info_def split: prod.split)
qed

lemma sort_and_regenerate_subnets [simp]: "p_subnets (sort_and_regenerate pm) = p_subnets pm"
  by (simp add: sort_and_regenerate_def sort_entries_def)

lemma bm_get_map_values: "bm_get (map (\<lambda>(k, v). (k, f v)) m) k = map_option f (bm_get m k)"
  by (induction m) (auto simp: bm_get_Cons)

lemma mounted_networks:
  fixes X :: "'a text_ext_scheme"
  assumes brefs: "bref_of X (Bid 1) = Bref 1" "bref_of X (Bid 2) = Bref 2" "bref_default X = Bref 0"
  shows "\<exists>nets pm pm'. pmm_reachable X env star_dfs parse_networks nets
     \<and> get_map X nets (Bref 1) = Some pm \<and> p_subnets pm = [Bid 2]
     \<and> get_map X nets (Bref 2) = Some pm' \<and> lookups_end (\<lambda>pm. length (p_subnets pm)) X nets 4"
proof -
  let ?X = X and ?api = "no_maps X env"
  have kinds: "kind_is_network {Network}" "Trace \<notin> {Network}" by (simp_all add: kind_is_network_def)
  obtain api_pm where api: "path_map_new ?X star_dfs Section (n_root ?api) ?api bg_empty = Some api_pm" "p_subnets api_pm = []"
    using lone_network [of "n_root ?api" bg_empty ?X ?api] by (auto simp: as_subgraph_def bg_empty_def List.map_filter_def)
  define nets0 where "nets0 = ?api\<lparr>n_map := bm_insert (bref_of ?X (n_root ?api)) api_pm []\<rparr>"
  have d: "pmm_default ?X env star_dfs = Some nets0"
    using api(1) by (simp add: pmm_default_def Let_def nets0_def) (simp add: no_maps_def)
  define nets1 where "nets1 = note_node ?X (network_node (Bid 2)) (note_node ?X (network_node (Bid 1)) nets0)"
  have n1: "Bid 2 \<in> set (n_nets nets1)" "n_map nets1 = n_map nets0" "n_root nets1 = n_root nets0"
    by (simp_all add: nets1_def note_node_def Let_def network_node_def kinds unknown_node_def)
  obtain pm1 where pm1: "path_map_new ?X star_dfs Section (Bid 1) nets1 mount_graph = Some pm1" "p_subnets pm1 = [Bid 2]"
    using mounting_network [OF n1(1)] by blast
  define nets2 where "nets2 = nets1\<lparr>n_map := bm_insert (Bref 1) pm1 (n_map nets1)\<rparr>"
  obtain pm2 where pm2: "path_map_new ?X star_dfs Section (Bid 2) nets2 mount_graph = Some pm2" "p_subnets pm2 = []"
    using lone_network [of "Bid 2" mount_graph ?X nets2] mount_arcs by auto
  define maps where "maps = bm_insert (Bref 2) pm2 (n_map nets2)"
  define nets where "nets = nets2\<lparr>n_map := map (\<lambda>(net, pm). (net, sort_and_regenerate pm)) maps\<rparr>"
  have q: "process_event_queue ?X star_dfs parse_networks mount_events mount_graph nets0 = Some (nets, [])"
    using pm1(1) pm2(1)
    by (simp add: process_event_queue_def mount_events_def first_pass_def parse_networks_def second_pass_def Let_def
        nets1_def [symmetric] network_node_def [symmetric] kinds nets2_def [symmetric] maps_def nets_def brefs)
      (simp add: nets2_def maps_def nets_def network_node_def kinds brefs unknown_node_def)
  have get: "get_map ?X nets net = map_option sort_and_regenerate
      (if net = Bref 2 then Some pm2 else if net = Bref 1 then Some pm1 else bm_get (n_map nets0) net)"
    if "net \<noteq> Bref 0" for net
    using that by (simp add: get_map_def brefs nets_def bm_get_map_values maps_def nets2_def n1(2))
  have "set (bm_values (n_map nets)) \<subseteq> sort_and_regenerate ` {pm1, pm2, api_pm}"
  proof -
    have "list_all (\<lambda>(_, pm). pm \<in> {pm1, pm2, api_pm}) maps"
      unfolding maps_def nets2_def by (simp add: list_all_bm_insert n1(2) nets0_def)
    then show ?thesis by (auto simp: nets_def bm_values_def list_all_iff image_image)
  qed
  then have vs: "p_subnets pm = [] \<or> p_subnets pm = [Bid 2]" if "pm \<in> set (bm_values (n_map nets))" for pm
    using that pm1(2) pm2(2) api(2) by auto
  have "nested_by (\<lambda>pm. length (p_subnets pm)) ?X nets"
    using vs get [of "Bref 2"] pm2(2) unfolding nested_by_def list_all_iff by (fastforce simp: brefs)
  moreover have "subnets_mounted ?X nets"
    using vs unfolding subnets_mounted_def list_all_iff
    by (fastforce simp: brefs nets_def bm_get_map_values maps_def bm_contains_def)
  moreover have "list_all (\<lambda>pm. length (p_subnets pm) < 4) (bm_values (n_map nets))"
    using vs unfolding list_all_iff by fastforce
  moreover have "bm_contains (n_map nets) (bref_of ?X (n_root nets))"
    by (simp add: nets_def bm_contains_def bm_get_map_values maps_def nets2_def n1 nets0_def bm_get_Cons)
  moreover have "length (bm_insert k v m) \<le> Suc (length m)" for k :: bref and v :: path_map and m
    by (induction k v m rule: bm_insert.induct) auto
  then have "length (n_map nets) \<le> 3"
    unfolding nets_def maps_def nets2_def by (simp add: n1 nets0_def)
  ultimately have "lookups_end (\<lambda>pm. length (p_subnets pm)) ?X nets 4" by (simp add: lookups_end_def)
  moreover have "pmm_reachable ?X env star_dfs parse_networks nets"
    by (rule pmm_reachable.queue [OF pmm_reachable.default [OF d] q])
  ultimately show ?thesis using get [of "Bref 1"] get [of "Bref 2"] pm1(2) by auto
qed

section \<open>Properties\<close>

text \<open>
  C15. In the collections that the constructor and the event queue make, every subnet that a map has
  registered has an entry in it, so the lookup by node never panics there. Where the networks do not contain each
  other, which is stated as a rank that falls from each map to the maps of its subnets, every lookup by node returns,
  within a depth of one more than the rank of the network it starts in, with the same answer at every
  greater depth.
\<close>

theorem path_lookup_terminates:
  assumes "pmm_reachable X env dfs_events parse nets" "get_map X nets net = Some pm"
  shows "(\<forall>b\<in>set (p_subnets pm). descend_bid X pm b c \<noteq> None)
    \<and> (nested_by rank X nets \<and> rank pm < depth \<longrightarrow>
        (\<exists>r. pm_path X nets depth pm c = Some r \<and> (\<forall>more. pm_path X nets (depth + more) pm c = Some r)))"
proof -
  have ok: "map_ok pm" if "pm \<in> set (bm_values (n_map nets))" for pm
    using that reachable_maps_ok [OF assms(1)] by (auto simp: bm_values_def list_all_iff)
  have v: "pm \<in> set (bm_values (n_map nets))" by (rule get_map_values [OF assms(2)])
  have "\<exists>r. pm_path X nets depth pm c = Some r \<and> (\<forall>more. pm_path X nets (depth + more) pm c = Some r)"
    if n: "nested_by rank X nets" "rank pm < depth"
  proof -
    have "pm_path X nets depth pm c \<noteq> None"
      unfolding pm_path_def by (rule nested_search_returns [OF n(1) v n(2)]) (rule descend_bid_returns [OF ok])
    then obtain r where r: "pm_path X nets depth pm c = Some r" by blast
    have "pm_path X nets (depth + k) pm c = Some r" for k
      using r unfolding pm_path_def by (rule net_search_deeper)
    with r show ?thesis by blast
  qed
  with descend_bid_returns [OF ok [OF v]] show ?thesis by blast
qed

theorem path_lookup_terminates_witness:
  "\<forall>env. \<exists>nets pm. get_map byte_ext nets (Bref 1) = Some pm \<and> p_subnets pm = [Bid 2]
     \<and> get_map byte_ext nets (Bref 2) \<noteq> None \<and> (\<exists>r. pm_path byte_ext nets 2 pm (Bid 3) = Some r)"
proof
  fix env
  obtain nets pm pm' where n: "pmm_reachable byte_ext env star_dfs parse_networks nets"
    "get_map byte_ext nets (Bref 1) = Some pm" "p_subnets pm = [Bid 2]" "get_map byte_ext nets (Bref 2) = Some pm'"
    "nested_by (\<lambda>pm. length (p_subnets pm)) byte_ext nets"
    using mounted_networks [OF byte_brefs, of env] by (auto simp: lookups_end_def)
  have "\<exists>r. pm_path byte_ext nets 2 pm (Bid 3) = Some r"
    using path_lookup_terminates [OF n(1,2), of "Bid 3" "\<lambda>pm. length (p_subnets pm)" 2] n(3,5) by auto
  with n show "\<exists>nets pm. get_map byte_ext nets (Bref 1) = Some pm \<and> p_subnets pm = [Bid 2]
     \<and> get_map byte_ext nets (Bref 2) \<noteq> None \<and> (\<exists>r. pm_path byte_ext nets 2 pm (Bid 3) = Some r)"
    by blast
qed

end
