(* ===== verification/StoreLookups.thy ===== *)
theory StoreLookups
  imports PathMounts Evaluate
begin

text \<open>
  The in-memory store on its real path maps: \<open>filter_states\<close> and the evaluation of expressions
  (\<open>beliefbase/base.rs\<close>) with the lookups of \<open>paths/pathmap.rs\<close>, which panic or do not return on some
  maps. An evaluation is bounded by a depth of lookups; \<open>None\<close> is one that goes deeper or panics. Where it
  returns it gives what \<open>Evaluate\<close> computes from total lookups.
\<close>

section \<open>Evaluation\<close>

text \<open>\<open>filter_map\<close> with a function that may not return.\<close>

fun filter_map_opt :: "('x \<Rightarrow> 'r option option) \<Rightarrow> 'x list \<Rightarrow> 'r list option" where
  "filter_map_opt f [] = Some []"
| "filter_map_opt f (x # xs) =
     (case f x of
        None \<Rightarrow> None
      | Some None \<Rightarrow> filter_map_opt f xs
      | Some (Some r) \<Rightarrow> map_option (Cons r) (filter_map_opt f xs))"

definition api_get_at ::
    "'a text_ext_scheme \<Rightarrow> dfs \<Rightarrow> nat \<Rightarrow> bid_graph \<Rightarrow> path_map_map \<Rightarrow> string \<Rightarrow> bid option option" where
  "api_get_at X dfs_events depth rels nets path =
     Option.bind (api_map X dfs_events rels nets)
       (\<lambda>pm. map_option (map_option snd) (path_get X nets depth pm path))"

definition net_get_at ::
    "'a text_ext_scheme \<Rightarrow> nat \<Rightarrow> path_map_map \<Rightarrow> bref \<Rightarrow> string \<Rightarrow> bid option option" where
  "net_get_at X depth nets net path =
     (case get_map X nets net of
        None \<Rightarrow> Some None
      | Some pm \<Rightarrow> map_option (map_option snd) (path_get X nets depth pm path))"

definition net_list_at ::
    "'a text_ext_scheme \<Rightarrow> nat \<Rightarrow> path_map_map \<Rightarrow> bref \<Rightarrow> entry list option" where
  "net_list_at X depth nets net =
     (case get_map X nets net of
        None \<Rightarrow> Some []
      | Some pm \<Rightarrow> map_option fst (recursive_map X nets depth pm []))"

definition net_id_at :: "'a text_ext_scheme \<Rightarrow> nat \<Rightarrow> path_map_map \<Rightarrow> bref \<Rightarrow> string \<Rightarrow> bid option option" where
  "net_id_at X depth nets net i = map_option (map_option snd) (net_get_from_id X nets depth net i)"

definition filter_states_at ::
    "'a query_ext_scheme \<Rightarrow> dfs \<Rightarrow> nat \<Rightarrow> path_map_map belief_base \<Rightarrow> state_pred
      \<Rightarrow> (bid, node) bmap option \<Rightarrow> bool \<Rightarrow> (bid, node) bmap option" where
  "filter_states_at X dfs_events depth B pred rhs invert =
     (let nets = bb_paths B; sts = bb_states B
      in case pred of
           PPath paths \<Rightarrow>
             map_option (\<lambda>bids. pick_states sts (bs_from_list bids))
               (filter_map_opt (api_get_at X dfs_events depth (bb_relations B) nets) paths)
         | PNetPath net path \<Rightarrow>
             map_option (\<lambda>r. pick_states sts (case r of Some b \<Rightarrow> [b] | None \<Rightarrow> []))
               (net_get_at X depth nets net path)
         | PNetPathIn net \<Rightarrow>
             map_option (\<lambda>es. pick_states sts (map (\<lambda>(_, b, _). b) es)) (net_list_at X depth nets (bref_of X net))
         | PNetId net i \<Rightarrow>
             map_option (\<lambda>r. pick_nodes sts (case r of Some b \<Rightarrow> [b] | None \<Rightarrow> [])) (net_id_at X depth nets net i)
         | PBid bids \<Rightarrow> Some (pick_nodes sts bids)
         | _ \<Rightarrow>
             Some (bm_from_list (filter (\<lambda>(_, n).
                 let is_match = match_state X pred n
                 in is_match \<and> \<not> invert \<or> \<not> is_match \<and> invert) (sts @ unwrap_or rhs []))))"

fun evaluate_expression_at ::
    "'a query_ext_scheme \<Rightarrow> dfs \<Rightarrow> nat \<Rightarrow> discover \<Rightarrow> path_map_map belief_base \<Rightarrow> expression \<Rightarrow> belief_graph option" where
  "evaluate_expression_at X dfs_events depth D B (StateIn pred) =
     map_option (answer_states B) (filter_states_at X dfs_events depth B pred None False)"
| "evaluate_expression_at X dfs_events depth D B (StateNotIn pred) =
     map_option (answer_states B) (filter_states_at X dfs_events depth B pred None True)"
| "evaluate_expression_at X dfs_events depth D B (RelationIn pred) =
     Some (answer_relations B (\<lambda>e. match_ref pred (e_source e) (e_sink e) (e_weights e)))"
| "evaluate_expression_at X dfs_events depth D B (RelationNotIn pred) =
     Some (answer_relations B (\<lambda>e. \<not> match_ref pred (e_source e) (e_sink e) (e_weights e)))"
| "evaluate_expression_at X dfs_events depth D B (Dyad lhs op_name rhs) =
     Option.bind (evaluate_expression_at X dfs_events depth D B lhs) (\<lambda>l.
       map_option (apply_set_op D op_name l) (evaluate_expression_at X dfs_events depth D B rhs))"

fun evaluate_as_trace_at ::
    "'a query_ext_scheme \<Rightarrow> dfs \<Rightarrow> nat \<Rightarrow> discover \<Rightarrow> path_map_map belief_base \<Rightarrow> expression \<Rightarrow> weight_set
      \<Rightarrow> belief_graph option" where
  "evaluate_as_trace_at X dfs_events depth D B (StateIn pred) ws =
     map_option (answer_trace B ws) (filter_states_at X dfs_events depth B pred None False)"
| "evaluate_as_trace_at X dfs_events depth D B (StateNotIn pred) ws =
     map_option (answer_trace B ws) (filter_states_at X dfs_events depth B pred None True)"
| "evaluate_as_trace_at X dfs_events depth D B (RelationIn pred) ws =
     evaluate_expression_at X dfs_events depth D B (RelationIn pred)"
| "evaluate_as_trace_at X dfs_events depth D B (RelationNotIn pred) ws =
     evaluate_expression_at X dfs_events depth D B (RelationNotIn pred)"
| "evaluate_as_trace_at X dfs_events depth D B (Dyad lhs op_name rhs) ws =
     Option.bind (evaluate_as_trace_at X dfs_events depth D B lhs ws) (\<lambda>l.
       map_option (apply_set_op D op_name l) (evaluate_as_trace_at X dfs_events depth D B rhs ws))"

text \<open>A query that waits for an evaluation stops where the evaluation does.\<close>

datatype stopped = Stopped

definition or_stopped :: "'x option \<Rightarrow> stopped + 'x" where
  "or_stopped r = (case r of None \<Rightarrow> Inl Stopped | Some x \<Rightarrow> Inr x)"

definition base_unbalanced_at ::
    "'a query_ext_scheme \<Rightarrow> dfs \<Rightarrow> nat \<Rightarrow> discover \<Rightarrow> path_map_map belief_base \<Rightarrow> stopped evaluator" where
  "base_unbalanced_at X dfs_events depth D B expr = or_stopped (evaluate_expression_at X dfs_events depth D B expr)"

definition base_trace_at ::
    "'a query_ext_scheme \<Rightarrow> dfs \<Rightarrow> nat \<Rightarrow> discover \<Rightarrow> path_map_map belief_base \<Rightarrow> stopped tracer" where
  "base_trace_at X dfs_events depth D B expr weight_filter =
     or_stopped (evaluate_as_trace_at X dfs_events depth D B expr weight_filter)"

definition base_query_at ::
    "'a query_ext_scheme \<Rightarrow> dfs \<Rightarrow> nat \<Rightarrow> discover \<Rightarrow> path_map_map belief_base \<Rightarrow> belief_query \<Rightarrow> bool
      \<Rightarrow> belief_graph option" where
  "base_query_at X dfs_events depth D B q all_or_none =
     (case eval_query D (base_unbalanced_at X dfs_events depth D B) (base_trace_at X dfs_events depth D B) q all_or_none of
        Inl _ \<Rightarrow> None
      | Inr g \<Rightarrow> Some g)"

section \<open>The total lookups\<close>

text \<open>
  The lookups of these maps as \<open>path_ops\<close>: where the code does not return, or panics, the answer stands
  for nothing, and the results below do not use it.
\<close>

definition lookups_at ::
    "'a query_ext_scheme \<Rightarrow> build_env \<Rightarrow> dfs \<Rightarrow> (string \<Rightarrow> buildonomy_error + node) \<Rightarrow> nat \<Rightarrow> bid_graph
      \<Rightarrow> path_map_map path_ops" where
  "lookups_at X env dfs_events parse depth rels =
     \<lparr>pm_default = unwrap_or (pmm_default X env dfs_events) (no_maps X env),
      pm_new = \<lambda>sts rels. unwrap_or (pmm_new X env dfs_events sts rels) (no_maps X env),
      pm_api_get = \<lambda>nets path. unwrap_or (api_get_at X dfs_events depth rels nets path) None,
      pm_net_path = \<lambda>nets net path. unwrap_or (net_get_at X depth nets net path) None,
      pm_net_paths_in = \<lambda>nets net. unwrap_or (net_list_at X depth nets net) [],
      pm_net_id = \<lambda>nets net i. unwrap_or (net_id_at X depth nets net i) None,
      pm_order = \<lambda>nets b. Option.bind (unwrap_or (indexed_path X nets depth b) None) (\<lambda>(_, _, order). Some order),
      pm_has_path = \<lambda>nets net b. unwrap_or (net_path X nets depth net b) None \<noteq> None,
      pm_nets = n_nets, pm_docs = n_docs,
      pm_all_paths = \<lambda>nets. concat (map (\<lambda>(_, es). map fst es) (pmm_all_paths nets)),
      pm_process = \<lambda>nets events rels. unwrap_or (process_event_queue X dfs_events parse events rels nets) (nets, [])\<rparr>"

lemma filter_map_opt_some:
  "filter_map_opt f xs = Some rs \<Longrightarrow> rs = List.map_filter (\<lambda>x. unwrap_or (f x) None) xs"
  by (induction xs arbitrary: rs) (auto simp: List.map_filter_def split: option.splits)

text \<open>An evaluation that returns gives what the total lookups give.\<close>

lemma filter_states_refines:
  assumes "filter_states_at X dfs_events depth B pred rhs invert = Some sts"
  shows "filter_states X (lookups_at X env dfs_events parse depth (bb_relations B)) B pred rhs invert = sts"
  using assms
  by (cases pred) (auto simp: filter_states_at_def filter_states_def lookups_at_def Let_def dest: filter_map_opt_some)

lemma evaluate_refines:
  "evaluate_expression_at X dfs_events depth D B expr = Some g \<Longrightarrow>
     evaluate_expression X (lookups_at X env dfs_events parse depth (bb_relations B)) D B expr = g"
  by (induction expr arbitrary: g)
    (auto simp: bind_eq_Some_conv dest: filter_states_refines [where env = env and parse = parse])

lemma evaluate_trace_refines:
  "evaluate_as_trace_at X dfs_events depth D B expr ws = Some g \<Longrightarrow>
     evaluate_expression_as_trace X (lookups_at X env dfs_events parse depth (bb_relations B)) D B expr ws = g"
  by (induction expr arbitrary: g)
    (auto simp: bind_eq_Some_conv dest: filter_states_refines [where env = env and parse = parse])

lemma or_stopped_Inr [simp]: "or_stopped r = Inr x \<longleftrightarrow> r = Some x"
  by (simp add: or_stopped_def split: option.split)

lemma or_stopped_Inl [simp]: "or_stopped r = Inl x \<longleftrightarrow> r = None"
  by (cases x) (simp add: or_stopped_def split: option.split)

text \<open>The store on its real path maps is a store in the sense of the query engine, where it answers.\<close>

interpretation base_store_at: belief_store base_ok bb_graph
    "base_unbalanced_at X dfs_events depth D" "base_trace_at X dfs_events depth D"
  for X dfs_events depth D
proof unfold_locales
  fix B :: "path_map_map belief_base" and expr g ws
  assume B: "base_ok B"
  show "keyed (bb_graph B)" by (rule base_keyed [OF B])
  assume "base_unbalanced_at X dfs_events depth D B expr = Inr g"
  then obtain P :: "path_map_map path_ops" where g: "evaluate_expression X P D B expr = g"
    using evaluate_refines by (fastforce simp: base_unbalanced_at_def)
  show "graph_ok g" using evaluate_ok [OF B] g by blast
  show "drawn_from (bb_graph B) g" using evaluate_drawn(1) [OF B] g by blast
next
  fix B :: "path_map_map belief_base" and expr g ws
  assume B: "base_ok B" and "base_trace_at X dfs_events depth D B expr ws = Inr g"
  then obtain P :: "path_map_map path_ops" where g: "evaluate_expression_as_trace X P D B expr ws = g"
    using evaluate_trace_refines by (fastforce simp: base_trace_at_def)
  show "drawn_from (bb_graph B) g" using evaluate_drawn(2) [OF B] g by blast
  show "all_trace g" using evaluate_trace_marked [OF B] g by blast
qed

section \<open>Which evaluations a query waits for\<close>

text \<open>
  After the seed, a query asks for nodes by their identifiers only: the expressions the walks and the
  balancing build are of the form \<open>StateIn (PBid bids)\<close>.
\<close>

definition by_bids :: "expression option \<Rightarrow> bool" where
  "by_bids expr \<longleftrightarrow> (case expr of None \<Rightarrow> True | Some e \<Rightarrow> \<exists>bids. e = StateIn (PBid bids))"

lemma built_by_bids [simp]:
  "by_bids (build_upstream_expr g ws)" "by_bids (build_downstream_expr g ws)" "by_bids (build_balance_expr g)"
  by (simp_all add: by_bids_def build_upstream_expr_def build_downstream_expr_def build_balance_expr_def Let_def)

lemma balance_loop_returns:
  assumes "\<And>bids ws. \<exists>g. eval_trace (StateIn (PBid bids)) ws = Inr g"
  shows "by_bids balance_expr \<Longrightarrow> \<exists>g'. balance_loop D eval_trace loop_iter balance_expr g = (Inr (), g')"
  using assms
proof (induction D eval_trace loop_iter balance_expr g rule: balance_loop.induct)
  case (1 D eval_trace loop_iter balance_expr g)
  show ?case
  proof (cases "\<exists>expr. balance_expr = Some expr \<and> \<not> loop_iter > BALANCE_CUTOFF")
    case True
    then obtain bids where e: "balance_expr = Some (StateIn (PBid bids))" "\<not> loop_iter > BALANCE_CUTOFF"
      using "1.prems"(1) by (auto simp: by_bids_def)
    obtain b where b: "eval_trace (StateIn (PBid bids)) (ws_from_kind Section) = Inr b"
      using "1.prems"(2) by blast
    show ?thesis
    proof (cases "build_balance_expr (union_mut D g b) = Some (StateIn (PBid bids))")
      case True
      with e b show ?thesis by (subst balance_loop.simps) (simp add: Let_def)
    next
      case False
      from "1.IH" [OF e b refl refl False built_by_bids(3) "1.prems"(2)] e b False
      show ?thesis by (subst balance_loop.simps) (simp add: Let_def)
    qed
  qed (subst balance_loop.simps, auto split: option.split)
qed

lemma walk_loop_returns:
  assumes "\<And>bids. \<exists>g. eval_unbalanced (StateIn (PBid bids)) = Inr g" "\<And>g. by_bids (build_expr g)"
  shows "by_bids walk_expr \<Longrightarrow>
    \<exists>res. walk_loop D eval_unbalanced build_expr cutoff bg walked walk_expr walk_set = Inr res"
  using assms
proof (induction D eval_unbalanced build_expr cutoff bg walked walk_expr walk_set rule: walk_loop.induct)
  case (1 D eval_unbalanced build_expr cutoff bg walked walk_expr walk_set)
  show ?case
  proof (cases "\<exists>expr. walk_expr = Some expr \<and> \<not> walked \<ge> cutoff")
    case True
    then obtain bids where e: "walk_expr = Some (StateIn (PBid bids))" "\<not> walked \<ge> cutoff"
      using "1.prems"(1) by (auto simp: by_bids_def)
    obtain b where b: "eval_unbalanced (StateIn (PBid bids)) = Inr b"
      using "1.prems"(2) by blast
    let ?g = "union_mut_with_trace D (unwrap_or walk_set bg) b"
    show ?thesis
    proof (cases "build_expr ?g = Some (StateIn (PBid bids))")
      case True
      with e b show ?thesis by (subst walk_loop.simps) (simp add: Let_def)
    next
      case False
      from "1.IH" [OF e b refl refl False "1.prems"(3) "1.prems"(2,3)] e b False
      show ?thesis by (subst walk_loop.simps) (simp add: Let_def)
    qed
  qed (subst walk_loop.simps, auto split: option.split)
qed

lemma eval_query_seed:
  assumes "\<And>bids. \<exists>g. eval_unbalanced (StateIn (PBid bids)) = Inr g"
    "\<And>bids ws. \<exists>g. eval_trace (StateIn (PBid bids)) ws = Inr g"
  shows "(\<exists>err. eval_query D eval_unbalanced eval_trace q all_or_none = Inl err) \<longleftrightarrow>
    (\<exists>err. eval_unbalanced (q_seed q) = Inl err)"
proof (cases "eval_unbalanced (q_seed q)")
  case (Inr bg)
  have w: "\<exists>res. walk D eval_unbalanced build_expr n bg = Inr res" if "\<And>g. by_bids (build_expr g)" for build_expr n bg
    unfolding walk_def by (intro walk_loop_returns assms(1) that)
  have "\<exists>g. traverse D eval_unbalanced nb bg = Inr g" for nb bg
  proof (cases nb)
    case (Some n)
    obtain up where up: "walk D eval_unbalanced (\<lambda>g. build_upstream_expr g (nb_filter n))
        (nb_upstream n) bg = Inr up"
      using w [of "\<lambda>g. build_upstream_expr g (nb_filter n)"] by auto
    obtain down where "walk D eval_unbalanced (\<lambda>g. build_downstream_expr g (nb_filter n))
        (nb_downstream n) bg = Inr down"
      using w [of "\<lambda>g. build_downstream_expr g (nb_filter n)"] by auto
    with up Some show ?thesis by (simp add: traverse_def)
  qed (simp add: traverse_def)
  then obtain g where "traverse D eval_unbalanced (q_traverse q) bg = Inr g" by blast
  moreover have "\<exists>g'. balance D eval_trace g = (Inr (), g')" for g
    unfolding balance_def by (rule balance_loop_returns [where eval_trace = eval_trace, OF assms(2)]) simp
  then have "balanced_result D eval_trace g \<noteq> Inl err" for g err
    unfolding balanced_result_def by (metis (mono_tags, lifting) old.prod.case old.sum.simps(6) Inl_Inr_False)
  ultimately show ?thesis using Inr by (simp add: eval_query_def)
qed (simp add: eval_query_def)

section \<open>Maps on which lookups return\<close>

lemma subnet_has_map:
  assumes "subnets_mounted X nets" "pm \<in> set (bm_values (n_map nets))" "b \<in> set (p_subnets pm)"
  shows "get_map X nets (bref_of X b) \<noteq> None"
  using assms by (auto simp: subnets_mounted_def list_all_iff get_map_def bm_contains_def)

lemma all_mounted:
  assumes "subnets_mounted X nets" "pm \<in> set (bm_values (n_map nets))" "map_in_sync pm"
  shows "mounted X nets (subnet_indices pm) (List.enumerate 0 (p_map pm))"
proof -
  have "get_map X nets (bref_of X b) \<noteq> None"
    if e: "(idx, path, b, order) \<in> set (List.enumerate 0 (p_map pm))" "idx \<in> set (subnet_indices pm)" for idx path b order
  proof -
    obtain c where c: "c \<in> set (p_subnets pm)"
      "(case bm_get (p_bid_map pm) c of Some (idx # _) \<Rightarrow> Some idx | _ \<Rightarrow> None) = Some idx"
      using e(2) by (auto simp: subnet_indices_def mem_map_filter)
    then obtain "is" where "bm_get (p_bid_map pm) c = Some (idx # is)"
      by (cases "bm_get (p_bid_map pm) c") (auto split: list.splits)
    then have "positions (\<lambda>e. fst (snd e) = c) (p_map pm) = idx # is"
      using assms(3) by (auto simp: map_in_sync_def indexed_def Let_def split: if_splits)
    then have "idx \<in> set (positions (\<lambda>e. fst (snd e) = c) (p_map pm))" by simp
    then have "fst (snd (p_map pm ! idx)) = c" by (simp add: positions_mem)
    moreover have "p_map pm ! idx = (path, b, order)" using e(1) by (auto simp: in_set_enumerate_eq)
    ultimately show ?thesis using subnet_has_map [OF assms(1,2) c(1)] by simp
  qed
  then show ?thesis unfolding mounted_def list_all_iff by blast
qed

lemma filter_map_opt_returns: "(\<And>x. x \<in> set xs \<Longrightarrow> f x \<noteq> None) \<Longrightarrow> filter_map_opt f xs \<noteq> None"
  by (induction xs) (fastforce split: option.splits)+

lemma filter_states_at_returns:
  assumes "pmm_reachable X env dfs_events parse (bb_paths B)" "lookups_end rank X (bb_paths B) depth"
  shows "filter_states_at X dfs_events depth B pred rhs invert \<noteq> None"
proof -
  let ?nets = "bb_paths B" and ?maps = "bm_values (n_map (bb_paths B))"
  have nest: "nested_by rank X ?nets" and sub: "subnets_mounted X ?nets"
    and less: "length (n_map ?nets) < depth" and rank: "\<And>pm. pm \<in> set ?maps \<Longrightarrow> rank pm < depth"
    and root: "bm_contains (n_map ?nets) (bref_of X (n_root ?nets))"
    using assms(2) by (auto simp: lookups_end_def list_all_iff)
  have sync: "map_in_sync pm" if "pm \<in> set ?maps" for pm
    using reachable_maps_ok [OF assms(1)] that by (auto simp: list_all_iff bm_values_def map_ok_def)
  have search: "net_search depth (get_map X ?nets) (bref_of X) here descend pm r \<noteq> None"
    if "pm \<in> set ?maps" "\<And>pm b q. descend pm b q \<noteq> None" for here descend pm r
    using nested_search_returns [OF nest that(1) rank [OF that(1)], of descend here r] that(2) by blast
  have path: "path_get X ?nets depth pm p \<noteq> None" if "pm \<in> set ?maps" for pm p
    using search [OF that, of descend_path find_path p]
    by (auto simp: path_get_def indexed_get_def descend_path_def split: option.splits prod.splits)
  have id: "get_from_id X ?nets depth pm i \<noteq> None" if "pm \<in> set ?maps" for pm i
    unfolding get_from_id_def by (rule search [OF that]) (simp add: same_question_def)
  have list: "recursive_map X ?nets depth pm [] \<noteq> None" if "pm \<in> set ?maps" for pm
  proof -
    have "unvisited ?nets [] \<le> length (n_map ?nets)"
      unfolding unvisited_def by (simp add: bm_values_def) (metis card_image_le card_length le_trans length_map list.set_map finite_set)
    then show ?thesis
      using recursive_map_returns(1) [OF all_mounted that, of X "[]" depth] sub sync less by fastforce
  qed
  have api: "api_get_at X dfs_events depth (bb_relations B) ?nets p \<noteq> None" for p
  proof -
    obtain pm where pm: "bm_get (n_map ?nets) (bref_of X (n_root ?nets)) = Some pm"
      using root by (auto simp: bm_contains_def)
    then have "pm \<in> set ?maps" by (force simp: bm_values_def dest: bm_get_in)
    from path [OF this, of p] pm show ?thesis
      by (simp add: api_get_at_def api_map_def map_or_new_def)
  qed
  show ?thesis
  proof (cases pred)
    case (PPath paths)
    then show ?thesis using filter_map_opt_returns [OF api] by (simp add: filter_states_at_def Let_def)
  next
    case (PNetPath net p)
    then show ?thesis using path get_map_values [of X ?nets net]
      by (simp add: filter_states_at_def Let_def net_get_at_def split: option.split)
  next
    case (PNetPathIn net)
    then show ?thesis using list get_map_values [of X ?nets "bref_of X net"]
      by (simp add: filter_states_at_def Let_def net_list_at_def split: option.split)
  next
    case (PNetId net i)
    then show ?thesis using id get_map_values [of X ?nets "root_map_bref X ?nets net"]
      by (simp add: filter_states_at_def Let_def net_id_at_def net_get_from_id_def in_net_def split: option.split)
  qed (simp_all add: filter_states_at_def Let_def)
qed

lemma evaluate_at_returns:
  assumes "pmm_reachable X env dfs_events parse (bb_paths B)" "lookups_end rank X (bb_paths B) depth"
  shows "evaluate_expression_at X dfs_events depth D B expr \<noteq> None"
  by (induction expr) (use filter_states_at_returns [OF assms] in auto)

text \<open>Expressions that no lookup of a path map is made for.\<close>

definition asks_no_map :: "state_pred \<Rightarrow> bool" where
  "asks_no_map pred \<longleftrightarrow> (case pred of PPath _ \<Rightarrow> False | PNetPath _ _ \<Rightarrow> False | PNetPathIn _ \<Rightarrow> False
     | PNetId _ _ \<Rightarrow> False | _ \<Rightarrow> True)"

fun no_lookup :: "expression \<Rightarrow> bool" where
  "no_lookup (StateIn pred) = asks_no_map pred"
| "no_lookup (StateNotIn pred) = asks_no_map pred"
| "no_lookup (RelationIn pred) = True"
| "no_lookup (RelationNotIn pred) = True"
| "no_lookup (Dyad lhs op_name rhs) = (no_lookup lhs \<and> no_lookup rhs)"

lemma no_lookup_returns:
  "no_lookup expr \<Longrightarrow> evaluate_expression_at X dfs_events depth D B expr \<noteq> None"
  by (induction expr rule: no_lookup.induct) (auto simp: filter_states_at_def Let_def asks_no_map_def split: state_pred.splits)

lemma base_query_at_none:
  "base_query_at X dfs_events depth D B q all_or_none = None \<longleftrightarrow>
     evaluate_expression_at X dfs_events depth D B (q_seed q) = None"
proof -
  have "(\<exists>err. eval_query D (base_unbalanced_at X dfs_events depth D B) (base_trace_at X dfs_events depth D B) q
      all_or_none = Inl err) \<longleftrightarrow> (\<exists>err. base_unbalanced_at X dfs_events depth D B (q_seed q) = Inl err)"
    by (rule eval_query_seed) (simp_all add: base_unbalanced_at_def base_trace_at_def filter_states_at_def Let_def)
  then show ?thesis
    by (auto simp: base_query_at_def base_unbalanced_at_def split: sum.splits)
qed

section \<open>Properties\<close>

text \<open>
  C11. A query on the in-memory store returns exactly when the path lookups in the expression it starts from
  return: what it asks for afterwards needs none. So it returns when that expression has no predicate on
  paths or identifiers of a network, and when the path maps, as the constructor or the events made them, are of
  nested networks with a map for the root and for every registered subnet. It never fails with an error. When it returns, and
  the store is in shape, the result is in shape with no orphaned relation, and it
  invents nothing: each of its nodes is the store's node, at most marked \<open>Trace\<close>, and each of its
  relations is the store's with the same weights.
\<close>

theorem base_query_sound:
  assumes "base_ok B"
  shows "(base_query_at X dfs_events depth D B q all_or_none = None \<longleftrightarrow>
      evaluate_expression_at X dfs_events depth D B (q_seed q) = None)
    \<and> (no_lookup (q_seed q) \<or> pmm_reachable X env dfs_events parse (bb_paths B) \<and> lookups_end rank X (bb_paths B) depth
        \<longrightarrow> base_query_at X dfs_events depth D B q all_or_none \<noteq> None)
    \<and> (case base_query_at X dfs_events depth D B q all_or_none of
        None \<Rightarrow> True
      | Some g \<Rightarrow> graph_ok g \<and> find_orphaned_edges g = [] \<and> drawn_from (bb_graph B) g)"
proof -
  have "graph_ok g \<and> find_orphaned_edges g = [] \<and> drawn_from (bb_graph B) g"
    if "base_query_at X dfs_events depth D B q all_or_none = Some g" for g
  proof -
    have "eval_query D (base_unbalanced_at X dfs_events depth D B) (base_trace_at X dfs_events depth D B) q all_or_none = Inr g"
      using that by (simp add: base_query_at_def split: sum.splits)
    then have "graph_ok g \<and> drawn_from (bb_graph B) g" by (rule base_store_at.eval_query_sound [OF assms])
    then show ?thesis by (simp add: graph_ok_no_orphans)
  qed
  moreover have "evaluate_expression_at X dfs_events depth D B (q_seed q) \<noteq> None"
    if "no_lookup (q_seed q) \<or> pmm_reachable X env dfs_events parse (bb_paths B) \<and> lookups_end rank X (bb_paths B) depth"
    using that no_lookup_returns [of "q_seed q"] evaluate_at_returns [of X env dfs_events parse B rank depth] by blast
  ultimately show ?thesis
    using base_query_at_none [of X dfs_events depth D B q all_or_none] by (auto split: option.split)
qed

text \<open>Two documents in the two networks that contain one another, under one of them.\<close>

definition byte_query :: query_ext where
  "byte_query = text_ext.extend byte_ext (query_ext.fields (\<lambda>re payload. False) (\<lambda>w. []))"

definition nets_base :: "path_map_map \<Rightarrow> path_map_map belief_base" where
  "nets_base nets =
     \<lparr>bb_states = bb_states pair_base, bb_relations = bb_relations pair_base, bb_index = [], bb_index_dirty = True,
      bb_brefs = [], bb_paths = nets, bb_errors = [], bb_api = unknown_node nil_bid\<rparr>"

theorem base_query_sound_witness:
  "\<forall>env. \<exists>nets g. get_map byte_query nets (Bref 1) \<noteq> None
     \<and> base_query_at byte_query star_dfs 4 (\<lambda>es seeds. seeds) (nets_base nets)
         \<lparr>q_seed = StateIn (PNetPath (Bref 1) ''n''), q_traverse = None\<rparr> True = Some g
     \<and> graph_ok g"
proof
  fix env
  have brefs: "bref_of byte_query (Bid 1) = Bref 1" "bref_of byte_query (Bid 2) = Bref 2" "bref_default byte_query = Bref 0"
    using byte_brefs by (simp_all add: byte_query_def bref_of_def bref_default_def generate_namespace_def
        parent_bref_def text_ext.defs)
  obtain nets pm where n: "pmm_reachable byte_query env star_dfs parse_networks nets"
    "get_map byte_query nets (Bref 1) = Some pm" "lookups_end (\<lambda>pm. length (p_subnets pm)) byte_query nets 4"
    using mounted_networks [OF brefs, of env] by blast
  have ok: "base_ok (nets_base nets)"
    using pair_base_ok by (simp add: base_ok_def nets_base_def bb_graph_def)
  have p: "bb_paths (nets_base nets) = nets" by (simp add: nets_base_def)
  show "\<exists>nets g. get_map byte_query nets (Bref 1) \<noteq> None
     \<and> base_query_at byte_query star_dfs 4 (\<lambda>es seeds. seeds) (nets_base nets)
         \<lparr>q_seed = StateIn (PNetPath (Bref 1) ''n''), q_traverse = None\<rparr> True = Some g
     \<and> graph_ok g"
    using base_query_sound [OF ok, where X = byte_query and dfs_events = star_dfs and depth = 4
        and D = "\<lambda>es seeds. seeds" and q = "\<lparr>q_seed = StateIn (PNetPath (Bref 1) ''n''), q_traverse = None\<rparr>"
        and all_or_none = True and env = env and parse = parse_networks and rank = "\<lambda>pm. length (p_subnets pm)"]
      n unfolding p by (auto split: option.splits)
qed

end
