(* ===== verification/Spec2Isabelle.thy ===== *)
theory Spec2Isabelle
  imports CompilerCorrect MdWriting MdProps ViewerProps StoreLookups
begin

text \<open>
  \<^bold>\<open>noet-core\<close>: a library that compiles a tree of documents into a graph of beliefs and keeps both in step.
  A \<^emph>\<open>node\<close> (a document, a heading, a network of documents, an external reference) has an identity (a
  \<open>Bid\<close>, with its short form \<open>Bref\<close>); a \<^emph>\<open>relation\<close> from a source to a sink carries one weight per kind. This
  library models the program under \<open>src/src\<close> as HOL functions, operation by operation, and proves what
  makes each part correct, or, where the code does not do what it means to, what it does instead.

  \<^bold>\<open>The parts and how they interact.\<close> The compiler (\<open>codec/compiler.rs\<close>) keeps two queues of files. For each file
  the builder (\<open>codec/builder.rs\<close>) opens the networks above it, asks a codec for the nodes of the document
  (\<open>codec/belief_ir.rs\<close>, for Markdown \<open>codec/md.rs\<close>), pushes them and their relations into the store of the document, compares it with
  the store of the session and sends the difference as events (\<open>event.rs\<close>) to a global source. Both stores
  are \<open>BeliefBase\<close>s (\<open>beliefbase/base.rs\<close>): a graph (\<open>beliefbase/graph.rs\<close>) with an index and path maps
  (\<open>paths/pathmap.rs\<close>), queried by expressions (\<open>query.rs\<close>) and keys (\<open>nodekey.rs\<close>).

  \<^bold>\<open>Theories.\<close> Each names the files it models.
  \<^item> \<open>Prelude\<close>: strings as Rust slices them, options, \<open>BTreeMap\<close> and \<open>BTreeSet\<close> as sorted lists (with the
    interface \<open>lookup_table\<close>), \<open>named_theorems\<close> and lemmas that all parts share.
  \<^item> \<open>Ids\<close>, \<open>Weights\<close>, \<open>Nodes\<close> (\<open>properties.rs\<close>), \<open>NodeKeys\<close> (\<open>nodekey.rs\<close>, the codec registry of
    \<open>codec/mod.rs\<close>), \<open>Events\<close> (\<open>event.rs\<close>), \<open>Diagnostics\<close> (\<open>codec/diagnostic.rs\<close>): the data.
  \<^item> \<open>AnchorPaths\<close>, \<open>PathOps\<close> (\<open>paths/path.rs\<close>): parsing, normalising, joining and comparing paths with
    anchors; no panic, decomposition, idempotence.
  \<^item> \<open>Queries\<close>, \<open>Sources\<close> (\<open>query.rs\<close>), \<open>Graphs\<close>, \<open>GraphProps\<close>, \<open>GraphMerge\<close> (\<open>beliefbase/graph.rs\<close>):
    predicates, expressions and their SQL; unions (interface \<open>merge_contract\<close>), traversals and the trait of
    sources with its balancing (interface \<open>belief_store\<close>).
  \<^item> \<open>Evaluate\<close>, \<open>Base\<close>, \<open>BaseProps\<close>, \<open>BaseEvents\<close>, \<open>Diff\<close> (\<open>beliefbase/base.rs\<close>), \<open>Contexts\<close>
    (\<open>beliefbase/context.rs\<close>): the in-memory store. Its invariant \<open>base_inv\<close> (each node under its own
    identity, no dangling, doubled or looping relation, an index that is right unless marked dirty) is
    kept by every event, merge and trim; evaluation is sound; a difference is a patch; which numbering of sort keys
    a removed relation leaves, and that it is not the one a network with documents and headings is tested for.
  \<^item> \<open>Pathmaps\<close>, \<open>PathEvents\<close>, \<open>PathProps\<close>, \<open>PathMounts\<close> (\<open>paths/pathmap.rs\<close>): the path of every node in every
    network, kept up by events; invariants of the indices, lookups across networks and where they do not return.
    \<open>PathMounts\<close> has the collections a run can reach (\<open>pmm_reachable\<close>): each registered subnet has an entry.
  \<^item> \<open>StoreLookups\<close> (\<open>beliefbase/base.rs\<close> on \<open>paths/pathmap.rs\<close>): the evaluation of expressions on the real path maps,
    where a lookup may not return; it refines \<open>Evaluate\<close>, and a query returns exactly when its first expression does.
  \<^item> \<open>IRNodes\<close> (\<open>codec/belief_ir.rs\<close>, \<open>codec/schema_registry.rs\<close>): documents in three metadata formats,
    merging, and the relations a schema gives a node.
  \<^item> \<open>NetFiles\<close>, \<open>NetProps\<close> (\<open>codec/network.rs\<close>, \<open>codec/proto_index.rs\<close>): networks as directories.
  \<^item> \<open>Builder\<close>, \<open>BuilderProps\<close>, \<open>Parse\<close>, \<open>ParseProps\<close> (\<open>codec/builder.rs\<close>): pushing nodes and relations, and
    a whole parse. Interfaces \<open>job_invariant\<close>, \<open>sending_invariant\<close>, \<open>parse_invariant\<close>,
    \<open>session_invariant\<close> say once which runs keep what; their instances give that the stores stay in
    shape and what is sent when.
  \<^item> \<open>Compiler\<close>, \<open>CompilerRun\<close>, \<open>CompilerProps\<close>, \<open>CompilerCorrect\<close> (\<open>codec/compiler.rs\<close>): the queues, the next
    file, batches and the loop. Interfaces \<open>file_steps\<close> and \<open>batch\<close>; their instances give termination, the
    limit on attempts and the shape of the session over a whole run.
  \<^item> \<open>Markdown\<close>, \<open>LinkProps\<close> (\<open>codec/md.rs\<close>, its first half): the links of a document and how they are rewritten
    once their targets are known; each link on its own, canonical links stay, title attributes round trip.
  \<^item> \<open>MdCodec\<close>, \<open>MdExample\<close>, \<open>MdWriting\<close>, \<open>MdProps\<close> (\<open>codec/md.rs\<close>, its second half): the codec of Markdown, an instance
    \<open>md_doc_codec\<close> of what \<open>Parse\<close> takes as a parameter. Interfaces \<open>event_invariant\<close> and \<open>event_total\<close> follow a
    parse event by event; their instances give that no event is lost, that anchors are distinct and that
    parsing does not panic. What is written back (frontmatter, anchors, the table of sections) is in step
    with the nodes.
  \<^item> \<open>Shards\<close>, \<open>ShardProps\<close> (\<open>shard/\<close>): the search index of every network and the export of the graph, in one file
    or in one per network. An index lists exactly the documents of a term, the most frequent first; each node is
    exported once; which relations no file has.

  \<^bold>\<open>How the code is modelled.\<close> Structs are records, enums datatypes, \<open>u16\<close> and wider words \<open>word\<close>s; a string is
  the list of its bytes. A fallible operation gives \<open>error + value\<close>, a panic is \<open>None\<close> around it, and an
  operation that changes state is a \<open>run\<close>, a function of the state. Hash maps are sorted lists where their order
  does not matter.
  What is not under \<open>src\<close> is a parameter: petgraph's depth-first search and edge order, the TOML, JSON and YAML
  parsers, UUIDs and the clock, Unicode case folding, the file system and the directory walk, the
  global source with its answers. The builder takes any codec; that of Markdown is modelled given the
  parser and printers of \<open>pulldown_cmark\<close> and its companion, the export given a stemmer and the arithmetic of floats. \<open>Evaluate\<close>,
  the base and the builder take the operations of the path maps as a record of total functions: what they say is about runs whose
  lookups return. \<open>lookups_at\<close> in \<open>StoreLookups\<close> is that record for the path maps of \<open>Pathmaps\<close>; that the lookups do return is a
  matter of \<open>PathMounts\<close> and, for queries, of \<open>StoreLookups\<close>, and no result of the builder claims it. What a run of the compiler meets may differ from parse to parse: it gets one
  record \<open>world\<close> per file. Asynchrony is left out: an operation runs to its end before the next one, and the channel of
  events is open, or closed, for the whole of a parse.

  \<^bold>\<open>Bounds and fuel.\<close> Loops with a cutoff in the code (\<open>BALANCE_CUTOFF\<close>, \<open>MAX_TRAVERSAL\<close>) have it in the model and
  terminate by it. Lookups that follow subnetworks get fuel, since the code does not return where networks
  contain each other: \<open>path_lookup_terminates\<close> says which fuel is enough otherwise,
  \<open>path_lookup_loops\<close> that none is there, and \<open>base_query_sound\<close> which queries depend on it. The loop of the compiler gets one unit of fuel per file;
  \<open>parse_all_terminates\<close> says that the number of files, times the limit on attempts and one, is enough. \<open>parse_limit\<close>
  counts the attempts by the reports of the run, those of the batch included, which are not counted when they fail.

  \<^bold>\<open>Not modelled.\<close> Serialisation by serde and sqlx (\<open>db.rs\<close>), the caching source, threads, channels and file
  notifications (\<open>watch.rs\<close>, \<open>beliefbase/sink.rs\<close>), the command line, the conversion to JavaScript values, HTML assets,
  logging, \<open>Display\<close> of logs and the checks of debug builds: input
  and output around the parts above, or code of other crates.
\<close>

end
